(* ===== verification/Prelude.thy ===== *)
theory Prelude
  imports Main "HOL-Library.Word"
begin

text \<open>
  Prelude of the development: the widths of the C++ integer types, the bit-field
  extraction \<open>(inst >> k) & m\<close> that the decoder and the interpreter are written in,
  the lemma collections the component theories share, and the generic facts on words
  behind them. A signed C++ integer is kept as its two's complement bit pattern and read
  with \<open>sint\<close> where its sign matters.
\<close>

unbundle bit_operations_syntax

type_synonym u8 = "8 word"
type_synonym u16 = "16 word"
type_synonym u32 = "32 word"
type_synonym u64 = "64 word"
type_synonym u128 = "128 word"
type_synonym i64 = "64 word"

named_theorems field_bounds \<open>upper bounds of extracted bit fields\<close>
named_theorems decode_simps \<open>defining equations of the decoder's cases\<close>
named_theorems exec_simps \<open>defining equations of the interpreter's handlers\<close>
named_theorems mem_frame \<open>what a memory access leaves alone\<close>

text \<open>\<open>fld k m w\<close> is \<open>(w >> k) & m\<close>, converted to the width of the place it is stored in.\<close>

definition fld :: "nat \<Rightarrow> 'a::len word \<Rightarrow> 'a word \<Rightarrow> 'b::len word" where
  "fld k m w = ucast (drop_bit k w AND m)"

lemma unat_fld_le: "unat (fld k m w) \<le> unat m"
proof -
  have "unat (fld k m w) \<le> unat (drop_bit k w AND m)"
    by (simp add: fld_def unsigned_ucast_eq take_bit_nat_less_eq_self)
  also have "\<dots> \<le> unat m"
    by (rule word_and_le1 [THEN word_le_nat_alt [THEN iffD1]])
  finally show ?thesis .
qed

lemma fld_less: "unat m < unat n \<Longrightarrow> fld k m w < n"
  by (simp add: word_less_nat_alt le_less_trans [OF unat_fld_le])

lemma fld_le: "unat m \<le> unat n \<Longrightarrow> fld k m w \<le> n"
  by (simp add: word_le_nat_alt order_trans [OF unat_fld_le])

lemma fld_u8_bounds [field_bounds]:
  "fld k 1 (w :: u32) \<le> (1 :: u8)"
  "fld k 3 (w :: u32) \<le> (3 :: u8)"
  "fld k 7 (w :: u32) \<le> (7 :: u8)"
  "fld k 0xF (w :: u32) \<le> (0xF :: u8)"
  "fld k 0x1F (w :: u32) \<le> (0x1F :: u8)"
  "fld k 0x3F (w :: u32) \<le> (0x3F :: u8)"
  by (rule fld_le, simp)+

lemma bit_fld: "bit (fld k m w :: 'b::len word) n \<longleftrightarrow>
    n < LENGTH('b) \<and> bit w (k + n) \<and> bit m n" for w m :: "'a::len word"
  by (auto simp add: fld_def bit_simps dest: bit_imp_le_length)

text \<open>
  A masked comparison of the whole instruction word is a comparison of one field when the
  mask and the pattern are that field shifted into place.
\<close>

lemma masked_eq_field:
  fixes w m c :: "'a::len word"
  assumes m: "drop_bit k (push_bit k m) = m" and c: "drop_bit k (push_bit k c) = c"
  shows "w AND push_bit k m = push_bit k c \<longleftrightarrow> drop_bit k w AND m = c"
proof
  assume "w AND push_bit k m = push_bit k c"
  then have "drop_bit k (w AND push_bit k m) = drop_bit k (push_bit k c)" by simp
  then show "drop_bit k w AND m = c" using m c by (simp add: drop_bit_and)
next
  assume "drop_bit k w AND m = c"
  then have "push_bit k (drop_bit k w AND m) = push_bit k c" by simp
  moreover have "push_bit k (drop_bit k w AND m) = w AND push_bit k m"
    by (rule bit_word_eqI) (auto simp add: bit_simps)
  ultimately show "w AND push_bit k m = push_bit k c" by simp
qed

text \<open>Equality of words bit by bit, with the bits enumerated for the simplifier.\<close>

lemma less_32_in: "n < 32 \<Longrightarrow> n \<in> set
    [0, 1, 2, 3, 4, 5, 6, 7, 8, 9, 10, 11, 12, 13, 14, 15,
     16, 17, 18, 19, 20, 21, 22, 23, 24, 25, 26, 27, 28, 29, 30, 31]" for n :: nat
  by (simp; presburger)

lemma less_8_in: "n < 8 \<Longrightarrow> n \<in> set [0, 1, 2, 3, 4, 5, 6, 7]" for n :: nat
  by (simp; presburger)

lemma u32_eq_bits: "a = b \<longleftrightarrow> list_all (\<lambda>n. bit a n = bit b n)
    [0, 1, 2, 3, 4, 5, 6, 7, 8, 9, 10, 11, 12, 13, 14, 15,
     16, 17, 18, 19, 20, 21, 22, 23, 24, 25, 26, 27, 28, 29, 30, 31]" (is "_ \<longleftrightarrow> list_all _ ?ns") for a b :: u32
proof
  assume *: "list_all (\<lambda>n. bit a n = bit b n) ?ns"
  show "a = b"
  proof (rule bit_word_eqI)
    fix n assume "n < LENGTH(32)"
    then have "n < 32" by simp
    from less_32_in [OF this] * show "bit a n = bit b n" unfolding list_all_iff by blast
  qed
qed simp

lemma u8_eq_bits: "a = b \<longleftrightarrow> list_all (\<lambda>n. bit a n = bit b n) [0, 1, 2, 3, 4, 5, 6, 7]"
  (is "_ \<longleftrightarrow> list_all _ ?ns") for a b :: u8
proof
  assume *: "list_all (\<lambda>n. bit a n = bit b n) ?ns"
  show "a = b"
  proof (rule bit_word_eqI)
    fix n assume "n < LENGTH(8)"
    then have "n < 8" by simp
    from less_8_in [OF this] * show "bit a n = bit b n" unfolding list_all_iff by blast
  qed
qed simp

lemma unat_2_exp: "n < LENGTH('a) \<Longrightarrow> unat (2 ^ n :: 'a::len word) = 2 ^ n"
  by transfer simp

lemma word_less_exp_iff: "n < LENGTH('a) \<Longrightarrow> w < 2 ^ n \<longleftrightarrow> take_bit n w = w" for w :: "'a::len word"
  by (simp add: unat_2_exp word_less_nat_alt word_unat_eq_iff unsigned_take_bit_eq
        take_bit_nat_eq_self_iff)

text \<open>Conversions between widths: what survives them.\<close>

lemma ucast_ucast_widen: "LENGTH('a) \<le> LENGTH('b) \<Longrightarrow>
    ucast (ucast w :: 'b::len word) = (w :: 'a::len word)"
  by (simp add: ucast_up_ucast_id is_up)

lemma and_mask32: "(w :: u64) AND 0xFFFFFFFF = take_bit 32 w"
proof -
  have "(0xFFFFFFFF :: u64) = mask 32" by (simp add: mask_eq_exp_minus_1)
  then show ?thesis by (simp add: take_bit_eq_mask)
qed

lemma ucast32_u64: "(ucast (ucast (w :: u64) :: u32) :: u64) = take_bit 32 w"
  by (rule bit_word_eqI) (auto simp add: bit_simps)

lemma drop32_eq_0_iff: "drop_bit 32 (w :: u64) = 0 \<longleftrightarrow> take_bit 32 w = w"
proof
  assume h: "drop_bit 32 w = 0"
  have "w = push_bit 32 (drop_bit 32 w) OR take_bit 32 w"
    by (rule bit_word_eqI) (auto simp add: bit_simps)
  then show "take_bit 32 w = w" using h by simp
next
  assume "take_bit 32 w = w"
  then have "drop_bit 32 w = drop_bit 32 (take_bit 32 w)" by simp
  then show "drop_bit 32 w = 0" by (simp add: drop_bit_take_bit)
qed

end
