(* ===== verification/Vma.thy ===== *)
theory Vma
  imports Prelude
begin

text \<open>
  The coalesced mapping index \<open>vmas_\<close> of \<open>Source/System/Memory/Memory.cpp\<close>: a
  \<open>std::map<uint64_t, Vma>\<close> from the start of a range to its end and permissions, here the list
  of its entries in key order. \<open>upper_bound\<close> and \<open>lower_bound\<close> split that list.
\<close>

section \<open>The index and its iterators\<close>

record Vma =
  v_end :: u64
  v_prot :: u8

type_synonym vma_index = "(u64 \<times> Vma) list"

definition before_ub :: "u64 \<Rightarrow> vma_index \<Rightarrow> vma_index" where
  "before_ub at = takeWhile (\<lambda>e. fst e \<le> at)"

definition from_ub :: "u64 \<Rightarrow> vma_index \<Rightarrow> vma_index" where
  "from_ub at = dropWhile (\<lambda>e. fst e \<le> at)"

definition before_lb :: "u64 \<Rightarrow> vma_index \<Rightarrow> vma_index" where
  "before_lb at = takeWhile (\<lambda>e. fst e < at)"

definition from_lb :: "u64 \<Rightarrow> vma_index \<Rightarrow> vma_index" where
  "from_lb at = dropWhile (\<lambda>e. fst e < at)"

text \<open>\<open>if (it != vmas_.begin()) --it\<close>: the entries from the one before the split on.\<close>

definition step_back :: "vma_index \<Rightarrow> vma_index \<Rightarrow> vma_index" where
  "step_back pre post = (if pre = [] then post else last pre # post)"

section \<open>Operations\<close>

definition split_vma :: "u64 \<Rightarrow> vma_index \<Rightarrow> vma_index" where
  "split_vma at xs =
     (let pre = before_ub at xs; post = from_ub at xs in
      if pre = [] then xs
      else
        let (k, v) = last pre in
        if k \<ge> at \<or> v_end v \<le> at then xs
        else butlast pre @ [(k, v\<lparr>v_end := at\<rparr>), (at, \<lparr>v_end = v_end v, v_prot = v_prot v\<rparr>)] @ post)"

definition erase_vma :: "u64 \<Rightarrow> u64 \<Rightarrow> vma_index \<Rightarrow> vma_index" where
  "erase_vma lo hi xs =
     (if lo \<ge> hi then xs
      else
        let ys = split_vma hi (split_vma lo xs)
        in before_lb lo ys @ dropWhile (\<lambda>e. fst e < hi) (from_lb lo ys))"

fun gap_loop :: "u64 \<Rightarrow> u64 \<Rightarrow> u64 \<Rightarrow> vma_index \<Rightarrow> u64" where
  "gap_loop cur limit sz [] = (if cur < limit \<and> sz \<le> limit - cur then cur else 0)"
| "gap_loop cur limit sz ((k, v) # xs) =
     (if cur < limit \<and> sz \<le> limit - cur then
        (if k \<ge> cur + sz then cur else gap_loop (max cur (v_end v)) limit sz xs)
      else 0)"

definition find_gap :: "vma_index \<Rightarrow> u64 \<Rightarrow> u64 \<Rightarrow> u64 \<Rightarrow> u64" where
  "find_gap xs from_addr limit sz =
     (let pre = before_ub from_addr xs;
          cur = (if pre \<noteq> [] \<and> v_end (snd (last pre)) > from_addr
                 then v_end (snd (last pre)) else from_addr)
      in gap_loop cur limit sz (from_ub from_addr xs))"

fun mapped_loop :: "u64 \<Rightarrow> u64 \<Rightarrow> vma_index \<Rightarrow> bool" where
  "mapped_loop cur hi [] = (cur \<ge> hi)"
| "mapped_loop cur hi ((k, v) # xs) =
     (if cur \<ge> hi then True
      else if v_end v \<le> cur then mapped_loop cur hi xs
      else if k > cur then False
      else mapped_loop (min hi (v_end v)) hi xs)"

definition range_mapped :: "vma_index \<Rightarrow> u64 \<Rightarrow> u64 \<Rightarrow> bool" where
  "range_mapped xs lo hi = mapped_loop lo hi (step_back (before_ub lo xs) (from_ub lo xs))"

definition range_overlaps :: "vma_index \<Rightarrow> u64 \<Rightarrow> u64 \<Rightarrow> bool" where
  "range_overlaps xs lo hi =
     (if lo \<ge> hi then False
      else
        let pre = before_lb lo xs; post = from_lb lo xs in
        if pre \<noteq> [] \<and> v_end (snd (last pre)) > lo then True
        else post \<noteq> [] \<and> fst (hd post) < hi)"

definition mapping_prot_at :: "vma_index \<Rightarrow> u64 \<Rightarrow> u8 option" where
  "mapping_prot_at xs addr =
     (let pre = before_ub addr xs in
      if pre = [] then None
      else let (k, v) = last pre in
        if k > addr \<or> v_end v \<le> addr then None else Some (v_prot v AND 7))"

text \<open>The loop of \<open>set_mapping_locked\<close> that ORs permissions into \<open>[cur, hi)\<close> and fills its gaps.\<close>

function or_loop :: "u64 \<Rightarrow> u64 \<Rightarrow> u8 \<Rightarrow> vma_index \<Rightarrow> vma_index" where
  "or_loop cur hi prot [] =
     (if cur < hi then [(cur, \<lparr>v_end = hi, v_prot = prot\<rparr>)] else [])"
| "or_loop cur hi prot ((k, v) # xs) =
     (if \<not> cur < hi then (k, v) # xs
      else if k > cur then
        let gap_end = min hi k
        in (cur, \<lparr>v_end = gap_end, v_prot = prot\<rparr>) # or_loop gap_end hi prot ((k, v) # xs)
      else (k, v\<lparr>v_prot := v_prot v OR prot\<rparr>) # or_loop (min hi (v_end v)) hi prot xs)"
  by pat_completeness auto
termination
  by (relation "measure (\<lambda>(cur, hi, prot, xs). 2 * length xs +
        (case xs of [] \<Rightarrow> 0 | (k, _) # _ \<Rightarrow> if cur < k \<and> cur < hi then 1 else 0))")
     (auto split: list.splits simp: min_def)

text \<open>The last loop of \<open>set_mapping_locked\<close>: join neighbours that touch and agree.\<close>

fun coalesce_loop :: "u64 \<Rightarrow> vma_index \<Rightarrow> vma_index" where
  "coalesce_loop hi [] = []"
| "coalesce_loop hi [e] = [e]"
| "coalesce_loop hi ((k, v) # (k', v') # xs) =
     (if k' > hi then (k, v) # (k', v') # xs
      else if v_end v = k' \<and> v_prot v = v_prot v' then
        coalesce_loop hi ((k, v\<lparr>v_end := v_end v'\<rparr>) # xs)
      else (k, v) # coalesce_loop hi ((k', v') # xs))"

definition coalesce :: "u64 \<Rightarrow> u64 \<Rightarrow> vma_index \<Rightarrow> vma_index" where
  "coalesce lo hi xs =
     (let pre = before_lb lo xs; post = from_lb lo xs
      in if pre = [] then coalesce_loop hi post
         else butlast pre @ coalesce_loop hi (last pre # post))"

text \<open>The index part of \<open>set_mapping_locked\<close>, without and with \<open>combine\<close>.\<close>

definition vma_set :: "u64 \<Rightarrow> u64 \<Rightarrow> u8 \<Rightarrow> vma_index \<Rightarrow> vma_index" where
  "vma_set lo hi prot xs =
     (let ys = erase_vma lo hi xs
      in coalesce lo hi (before_lb lo ys @ (lo, \<lparr>v_end = hi, v_prot = prot\<rparr>) # from_lb lo ys))"

definition vma_or :: "u64 \<Rightarrow> u64 \<Rightarrow> u8 \<Rightarrow> vma_index \<Rightarrow> vma_index" where
  "vma_or lo hi prot xs =
     (let ys = split_vma hi (split_vma lo xs)
      in coalesce lo hi (before_lb lo ys @ or_loop lo hi prot (from_lb lo ys)))"

end
