(* ===== verification/Bits.thy ===== *)
theory Bits
  imports Prelude
begin

text \<open>
  The integer utilities of \<open>Include/Bifrost/Types.hpp\<close> and the two shared helpers of
  \<open>Source/Interpreter/Decoder/Decoder.cpp\<close> that the interpreter and the JIT both call: the
  condition codes and the register extension.
\<close>

section \<open>Sign extension, powers of two, rotation\<close>

definition sign_extend :: "u64 \<Rightarrow> nat \<Rightarrow> u64" where
  "sign_extend v bits =
     (if bits \<ge> 64 then v
      else let m = push_bit (bits - 1) 1 in (v XOR m) - m)"

definition is_power_of_two :: "u64 \<Rightarrow> bool" where
  "is_power_of_two x \<longleftrightarrow> x \<noteq> 0 \<and> x AND (x - 1) = 0"

definition ror64 :: "u64 \<Rightarrow> u32 \<Rightarrow> u64" where
  "ror64 v r0 =
     (let r = r0 AND 63 in
      if r = 0 then v
      else drop_bit (unat r) v OR push_bit (64 - unat r) v)"

text \<open>
  The 32-bit rotation the interpreter writes inline three times:
  \<open>r ? ((v >> r) | (v << (32 - r))) : v\<close> with \<open>r = amount & 31\<close>.
\<close>

definition ror32 :: "u32 \<Rightarrow> u32 \<Rightarrow> u32" where
  "ror32 v amount =
     (let r = amount AND 31 in
      if r \<noteq> 0 then drop_bit (unat r) v OR push_bit (32 - unat r) v else v)"

section \<open>Condition codes\<close>

definition cond_true :: "u32 \<Rightarrow> u32 \<Rightarrow> bool" where
  "cond_true cnd pstate =
     (let fN = bit pstate 31; fZ = bit pstate 30; fC = bit pstate 29; fV = bit pstate 28;
          c = cnd AND 0xF in
      if c = 0x0 then fZ
      else if c = 0x1 then \<not> fZ
      else if c = 0x2 then fC
      else if c = 0x3 then \<not> fC
      else if c = 0x4 then fN
      else if c = 0x5 then \<not> fN
      else if c = 0x6 then fV
      else if c = 0x7 then \<not> fV
      else if c = 0x8 then fC \<and> \<not> fZ
      else if c = 0x9 then \<not> fC \<or> fZ
      else if c = 0xA then fN = fV
      else if c = 0xB then fN \<noteq> fV
      else if c = 0xC then \<not> fZ \<and> fN = fV
      else if c = 0xD then fZ \<or> fN \<noteq> fV
      else if c = 0xE then True
      else True)"

section \<open>Register extension\<close>

definition extend_reg :: "u64 \<Rightarrow> u8 \<Rightarrow> u8 \<Rightarrow> bool \<Rightarrow> u64" where
  "extend_reg val option shift sf =
     (let opt = option AND 7;
          v = (if opt = 0 then val AND 0xFF
               else if opt = 1 then val AND 0xFFFF
               else if opt = 2 then val AND 0xFFFFFFFF
               else if opt = 3 then val
               else if opt = 4 then scast (ucast val :: u8)
               else if opt = 5 then scast (ucast val :: u16)
               else if opt = 6 then scast (ucast val :: u32)
               else val)
      in push_bit (unat shift) v)"

end
