(* ===== verification/DecodedInst.thy ===== *)
theory DecodedInst
  imports Bits
begin

text \<open>
  The decoder's data (\<open>Source/Interpreter/Decoder/Decoder.hpp\<close>): the instruction classes and
  the decoded instruction. The enumeration is written in the sections its source comments
  give it, one datatype per section, and \<open>InstClass\<close> is their union: an enumerator
  \<open>InstClass::ADD_IMM\<close> is \<open>DpImm IC_ADD_IMM\<close>. The record's fields carry the source's names
  behind the prefix \<open>d_\<close>, for \<open>d.\<close> in the code.
\<close>

datatype ic_branch = \<comment> \<open>Branches\<close>
    IC_B | IC_BL | IC_Bcond | IC_BR | IC_BLR | IC_RET | IC_CBZ | IC_CBNZ | IC_TBZ | IC_TBNZ

datatype ic_system = \<comment> \<open>System\<close>
    IC_SVC | IC_BRK | IC_HLT | IC_MSR | IC_MRS | IC_CLREX | IC_BARRIER

datatype ic_dp_imm = \<comment> \<open>Data processing - immediate\<close>
    IC_ADR | IC_ADRP | IC_MOVN | IC_MOVZ | IC_MOVK | IC_ADD_IMM | IC_SUB_IMM | IC_ADDS_IMM
  | IC_SUBS_IMM | IC_AND_IMM | IC_ORR_IMM | IC_EOR_IMM | IC_ANDS_IMM | IC_SBFM | IC_BFM
  | IC_UBFM | IC_EXTR

datatype ic_dp_reg = \<comment> \<open>Data processing - register\<close>
    IC_ADD_REG | IC_SUB_REG | IC_ADDS_REG | IC_SUBS_REG | IC_ADC_REG | IC_ADCS_REG
  | IC_SBC_REG | IC_SBCS_REG | IC_AND_REG | IC_ORR_REG | IC_EOR_REG | IC_ANDS_REG | IC_MADD
  | IC_MSUB | IC_SMADDL | IC_SMSUBL | IC_UMADDL | IC_UMSUBL | IC_SMULH | IC_UMULH | IC_UDIV
  | IC_SDIV | IC_LSL | IC_LSR | IC_ASR | IC_ROR | IC_RBIT | IC_REV16 | IC_REV32 | IC_REV
  | IC_CLZ | IC_CLS | IC_CRC32 | IC_CSEL | IC_CSINC | IC_CSINV | IC_CSNEG | IC_CCMP
  | IC_CCMN

datatype ic_ldst = \<comment> \<open>Load/Store\<close>
    IC_LDR_IMM | IC_STR_IMM | IC_LDR_UNS | IC_STR_UNS | IC_LDR_REG | IC_STR_REG | IC_LDP
  | IC_STP | IC_LDRSW | IC_LDRSB | IC_LDRSH

datatype ic_atomic = \<comment> \<open>Atomics\<close>
    IC_LDXR | IC_STXR | IC_LDAXR | IC_STLXR | IC_STLR | IC_LDAR | IC_LDXP | IC_STXP
  | IC_CASP | IC_LSE_ATOMIC

datatype ic_simd = \<comment> \<open>SIMD/FP (subset)\<close>
    IC_SIMD_LD1 | IC_SIMD_ST1 | IC_SIMD_LOGICAL | IC_SIMD_DUP | IC_FMOV_VD1 | IC_FMOV_RVD1

datatype ic_sysinst = \<comment> \<open>System (second section)\<close>
    IC_SVC_IMM | IC_HVC_IMM | IC_SMC_IMM | IC_BRK_IMM | IC_HLT_IMM | IC_MSR_SYS
  | IC_MRS_SYS | IC_HINT | IC_CLREX_INST | IC_SYS_NOP

datatype ic_generic = \<comment> \<open>SIMD data processing, sub-dispatched\<close>
    IC_SIMD_DP | IC_FP_SCALAR

datatype InstClass =
    IC_UNKNOWN
  | Branch ic_branch
  | System ic_system
  | DpImm ic_dp_imm
  | DpReg ic_dp_reg
  | LdSt ic_ldst
  | Atomic ic_atomic
  | Simd ic_simd
  | SysInst ic_sysinst
  | Generic ic_generic

record DecodedInst =
  d_cls :: InstClass
  d_raw :: u32
  d_rd :: u8
  d_rn :: u8
  d_rm :: u8
  d_ra :: u8
  d_rt :: u8
  d_rt2 :: u8
  d_rs :: u8
  d_cond :: u8
  d_size :: u8
  d_sf :: bool
  d_pc_relative :: bool
  d_is_load :: bool
  d_is_vec :: bool
  d_set_flags :: bool
  d_reads_sp :: bool
  d_writes_sp :: bool
  d_imm :: i64
  d_imm_u :: u64
  d_imm16 :: u16
  d_shift :: u8
  d_shift_type :: u8
  d_extend :: u8
  d_hw :: u8
  d_immr :: u8
  d_imms :: u8
  d_N :: bool
  d_disp :: i64
  d_mode :: u8
  d_writeback :: bool
  d_opc_ls :: u8
  d_atom_op :: u8
  d_acquire :: bool
  d_excl_low6 :: u8
  d_dp_opcode :: u8
  d_o0 :: bool
  d_sub_op :: u8
  d_nzcv_field :: u8
  d_is_register :: bool
  d_Q :: bool
  d_ftype :: u8
  d_cmode :: u8
  d_fp_opcode :: u8
  d_rmode :: u8
  d_simd_count :: u8
  d_simd_struct :: u8
  d_is_single_struct :: bool
  d_is_ld1r :: bool
  d_simd_index :: u8
  d_post_indexed :: bool
  d_is_sub :: bool
  d_sys_op0 :: u8
  d_sys_op1 :: u8
  d_sys_crn :: u8
  d_sys_crm :: u8
  d_sys_op2 :: u8
  d_sys_L :: bool

text \<open>A default-constructed \<open>DecodedInst\<close>, and a zero-filled decode cache slot.\<close>

definition DecodedInst_default :: DecodedInst where
  "DecodedInst_default = \<lparr>
     d_cls = IC_UNKNOWN, d_raw = 0, d_rd = 0, d_rn = 0, d_rm = 0, d_ra = 0, d_rt = 0,
     d_rt2 = 0, d_rs = 0, d_cond = 0, d_size = 0, d_sf = False, d_pc_relative = False,
     d_is_load = False, d_is_vec = False, d_set_flags = False, d_reads_sp = False,
     d_writes_sp = False, d_imm = 0, d_imm_u = 0, d_imm16 = 0, d_shift = 0, d_shift_type = 0,
     d_extend = 0, d_hw = 0, d_immr = 0, d_imms = 0, d_N = False, d_disp = 0, d_mode = 0,
     d_writeback = False, d_opc_ls = 0, d_atom_op = 0, d_acquire = False, d_excl_low6 = 0,
     d_dp_opcode = 0, d_o0 = False, d_sub_op = 0, d_nzcv_field = 0, d_is_register = False,
     d_Q = False, d_ftype = 0, d_cmode = 0, d_fp_opcode = 0, d_rmode = 0, d_simd_count = 1,
     d_simd_struct = 1, d_is_single_struct = False, d_is_ld1r = False, d_simd_index = 0,
     d_post_indexed = False, d_is_sub = False, d_sys_op0 = 0, d_sys_op1 = 0, d_sys_crn = 0,
     d_sys_crm = 0, d_sys_op2 = 0, d_sys_L = False\<rparr>"

definition DecodedInst_zero :: DecodedInst where
  "DecodedInst_zero = \<lparr>
     d_cls = IC_UNKNOWN, d_raw = 0, d_rd = 0, d_rn = 0, d_rm = 0, d_ra = 0, d_rt = 0,
     d_rt2 = 0, d_rs = 0, d_cond = 0, d_size = 0, d_sf = False, d_pc_relative = False,
     d_is_load = False, d_is_vec = False, d_set_flags = False, d_reads_sp = False,
     d_writes_sp = False, d_imm = 0, d_imm_u = 0, d_imm16 = 0, d_shift = 0, d_shift_type = 0,
     d_extend = 0, d_hw = 0, d_immr = 0, d_imms = 0, d_N = False, d_disp = 0, d_mode = 0,
     d_writeback = False, d_opc_ls = 0, d_atom_op = 0, d_acquire = False, d_excl_low6 = 0,
     d_dp_opcode = 0, d_o0 = False, d_sub_op = 0, d_nzcv_field = 0, d_is_register = False,
     d_Q = False, d_ftype = 0, d_cmode = 0, d_fp_opcode = 0, d_rmode = 0, d_simd_count = 0,
     d_simd_struct = 0, d_is_single_struct = False, d_is_ld1r = False, d_simd_index = 0,
     d_post_indexed = False, d_is_sub = False, d_sys_op0 = 0, d_sys_op1 = 0, d_sys_crn = 0,
     d_sys_crm = 0, d_sys_op2 = 0, d_sys_L = False\<rparr>"

section \<open>Data memory barriers\<close>

definition is_data_memory_barrier :: "u32 \<Rightarrow> bool" where
  "is_data_memory_barrier raw \<longleftrightarrow>
     raw AND 0xFFFFF0FF = 0xD50330BF \<or> raw AND 0xFFFFF0FF = 0xD503309F"

definition data_memory_barrier_types :: "u32 \<Rightarrow> u32" where
  "data_memory_barrier_types raw =
     (if raw AND 0xFFFFF0FF \<noteq> 0xD50330BF then 3
      else let types = fld 8 3 raw in if types = 0 then 3 else types)"

end
