(* ===== verification/FpDecode.thy ===== *)
theory FpDecode
  imports DecodedInst
begin

text \<open>
  The predicates of namespace \<open>fp_decode\<close> (\<open>Source/Interpreter/Decoder/Decoder.hpp\<close>): which
  words of the scalar FP and AdvSIMD groups are allocated, and the field helpers the
  interpreter and the JIT translator share. The decoder rejects a word by them, so that both
  engines raise the same undefined-instruction fault.
\<close>

section \<open>Reciprocal estimates and steps\<close>

definition is_reciprocal_fp16 :: "u32 \<Rightarrow> bool" where
  "is_reciprocal_fp16 w =
     (if bit w 28 \<and> \<not> bit w 30 then False
      else let step = w AND 0xBFE0FC00; estimate = w AND 0x9FFFFC00 in
        step = 0x0E403C00 \<or> step = 0x0EC03C00 \<or>
        step = 0x1E403C00 \<or> step = 0x1EC03C00 \<or>
        estimate = 0x0EF9D800 \<or> estimate = 0x1EF9D800)"

definition is_reciprocal :: "u32 \<Rightarrow> bool" where
  "is_reciprocal w =
     (if bit w 28 \<and> \<not> bit w 30 then False
      else let step = w AND 0xBFA0FC00; estimate = w AND 0x9FBFFC00 in
        step = 0x0E20FC00 \<or> step = 0x0EA0FC00 \<or>
        step = 0x1E20FC00 \<or> step = 0x1EA0FC00 \<or>
        estimate = 0x0EA1D800 \<or> estimate = 0x1EA1D800 \<or>
        is_reciprocal_fp16 w)"

section \<open>Multiplications by element\<close>

datatype ScalarFpElem = SFE_None | SFE_Mul | SFE_MulX | SFE_Mla | SFE_Mls

record ScalarFpElemForm =
  sf_kind :: ScalarFpElem
  sf_dbl :: bool
  sf_lane :: u8

definition scalar_fp_by_element :: "u32 \<Rightarrow> ScalarFpElemForm" where
  "scalar_fp_by_element w =
     (let form = w AND 0xFF80F400;
          kind = (if form = 0x5F801000 then SFE_Mla
                  else if form = 0x5F805000 then SFE_Mls
                  else if form = 0x5F809000 then SFE_Mul
                  else if form = 0x7F809000 then SFE_MulX
                  else SFE_None);
          dbl = bit w 22; l = bit w 21; h = bit w 11
      in if kind = SFE_None \<or> (dbl \<and> l)
         then \<lparr>sf_kind = SFE_None, sf_dbl = False, sf_lane = 0\<rparr>
         else \<lparr>sf_kind = kind, sf_dbl = dbl,
               sf_lane = (if dbl then of_bool h else push_bit 1 (of_bool h) OR of_bool l)\<rparr>)"

record VectorFpFmaElem =
  vf_ok :: bool
  vf_sub :: bool
  vf_dbl :: bool
  vf_lane :: u8

definition vector_fp_fma_by_element :: "u32 \<Rightarrow> VectorFpFmaElem" where
  "vector_fp_fma_by_element w =
     (let form = w AND 0xBF80F400 in
      if form \<noteq> 0x0F801000 \<and> form \<noteq> 0x0F805000
      then \<lparr>vf_ok = False, vf_sub = False, vf_dbl = False, vf_lane = 0\<rparr>
      else let dbl = bit w 22; q = bit w 30; l = bit w 21; h = bit w 11 in
        if dbl \<and> (l \<or> \<not> q)
        then \<lparr>vf_ok = False, vf_sub = False, vf_dbl = False, vf_lane = 0\<rparr>
        else \<lparr>vf_ok = True, vf_sub = (form = 0x0F805000), vf_dbl = dbl,
              vf_lane = (if dbl then of_bool h else push_bit 1 (of_bool h) OR of_bool l)\<rparr>)"

section \<open>Allocation of the scalar FP group\<close>

definition is_allocated_fp_scalar :: "u32 \<Rightarrow> bool" where
  "is_allocated_fp_scalar w =
     (let sf = drop_bit 31 w; ptype = fld 22 3 w :: u32 in
      if bit w 29 then False
      else if bit w 24 then sf = 0 \<and> ptype < 2
      else if \<not> bit w 21 then
        (let rmode_opcode = fld 16 0x1F w :: u32;
             known = (rmode_opcode = 0x02 \<or> rmode_opcode = 0x03 \<or>
                      rmode_opcode = 0x18 \<or> rmode_opcode = 0x19)
         in known \<and> ptype < 2 \<and> (sf \<noteq> 0 \<or> bit w 15))
      else if fld 10 3 w = (1 :: u32) \<or> fld 10 3 w = (3 :: u32) then sf = 0 \<and> ptype < 2
      else if fld 10 3 w = (2 :: u32) then sf = 0 \<and> ptype < 2 \<and> fld 12 0xF w \<le> (8 :: u32)
      else if fld 10 0x3F w = (0 :: u32) then
        (let rmode = fld 19 3 w :: u32; opcode = fld 16 7 w :: u32 in
         if opcode \<le> 1 then ptype < 2
         else if opcode \<le> 5 then rmode = 0 \<and> ptype < 2
         else if rmode = 0 then ptype = sf
         else sf \<noteq> 0 \<and> ptype = 2 \<and> rmode = 1)
      else if fld 10 0x1F w = (0x10 :: u32) then
        (let opcode = fld 15 0x3F w :: u32 in
         if sf \<noteq> 0 then False
         else if opcode \<ge> 4 \<and> opcode \<le> 7
         then ptype \<noteq> 2 \<and> opcode AND 3 \<noteq> 2 \<and> opcode AND 3 \<noteq> ptype
         else ptype < 2 \<and> (opcode \<le> 3 \<or> (opcode \<ge> 8 \<and> opcode \<le> 15 \<and> opcode \<noteq> 13)))
      else if fld 10 0xF w = (0x8 :: u32) then
        sf = 0 \<and> ptype < 2 \<and> fld 14 3 w = (0 :: u32) \<and> w AND 7 = 0
      else if fld 10 7 w = (4 :: u32) then sf = 0 \<and> ptype < 2 \<and> fld 5 0x1F w = (0 :: u32)
      else False)"

section \<open>Unallocated AdvSIMD words\<close>

definition is_unallocated_advsimd_imm :: "u32 \<Rightarrow> bool" where
  "is_unallocated_advsimd_imm w =
     (let vector = (w AND 0x9F000000 = 0x0F000000);
          scalar = (w AND 0xDF000000 = 0x5F000000)
      in (vector \<or> scalar) \<and> w AND 0x00800400 = 0x00800400)"

text \<open>
  The allowed sizes of the integer three-same group, one row per \<open>U\<close>: bits 0 to 3 are the
  allowed size values, bit 4 says that size 3 needs \<open>Q\<close>. The source's abbreviations
  are \<open>A = 0x1F\<close>, \<open>N3 = 0x07\<close>, \<open>L = 0x0F\<close>, \<open>H = 0x06\<close>, \<open>B = 0x01\<close>, \<open>X = 0x00\<close>.
\<close>

definition allowed_three_same :: "u8 list list" where
  "allowed_three_same =
     [[0x07, 0x1F, 0x07, 0x0F, 0x07, 0x1F, 0x1F, 0x1F, 0x1F, 0x1F, 0x1F, 0x1F,
       0x07, 0x07, 0x07, 0x07, 0x1F, 0x1F, 0x07, 0x07, 0x07, 0x07, 0x06, 0x1F],
      [0x07, 0x1F, 0x07, 0x0F, 0x07, 0x1F, 0x1F, 0x1F, 0x1F, 0x1F, 0x1F, 0x1F,
       0x07, 0x07, 0x07, 0x07, 0x1F, 0x1F, 0x07, 0x01, 0x07, 0x07, 0x06, 0x00]]"

definition is_unallocated_advsimd_three :: "u32 \<Rightarrow> bool" where
  "is_unallocated_advsimd_three w =
     (let U = bit w 29; Q = bit w 30; size = fld 22 3 w :: u32 in
      if w AND 0x9F200400 = 0x0E200400 then
        (let opcode = fld 11 0x1F w :: u32 in
         if opcode \<ge> 0x18 then
           (let a = drop_bit 1 size \<noteq> 0; sz = bit size 0 in
            if (opcode = 0x1D \<and> \<not> U) \<or> (opcode = 0x19 \<and> U) then False
            else if a \<and> (opcode = 0x1B \<or> (opcode = 0x1C \<and> \<not> U) \<or> (opcode = 0x1F \<and> U)) then True
            else sz \<and> \<not> Q)
         else
           (let m = allowed_three_same ! of_bool U ! unat opcode in
            \<not> bit m (unat size) \<or> (size = 3 \<and> bit m 4 \<and> \<not> Q)))
      else if w AND 0x9F200C00 = 0x0E200000 then
        (let opcode = fld 12 0xF w :: u32 in
         if opcode = 0xF then True
         else if opcode = 0xE then U \<or> size = 1 \<or> size = 2
         else if opcode = 0x9 \<or> opcode = 0xB \<or> opcode = 0xD then U \<or> size = 0 \<or> size = 3
         else size = 3)
      else False)"

section \<open>Field helpers\<close>

definition is_fcmp :: "u32 \<Rightarrow> bool" where
  "is_fcmp w \<longleftrightarrow> w AND 0xFF200000 = 0x1E200000 \<and> fld 10 0x3F w = (0x08 :: u32)"

definition fcmp_with_zero :: "u32 \<Rightarrow> bool" where
  "fcmp_with_zero w \<longleftrightarrow> w AND 0x08 \<noteq> 0"

definition is_fmov_imm :: "u32 \<Rightarrow> bool" where
  "is_fmov_imm w \<longleftrightarrow> w AND 0xFF201FE0 = 0x1E201000"

definition is_fp_1source :: "u32 \<Rightarrow> bool" where
  "is_fp_1source w \<longleftrightarrow> w AND 0xFF000000 = 0x1E000000 \<and> bit w 21
     \<and> fld 10 0x1F w = (0x10 :: u32) \<and> fld 17 0x3 w \<noteq> (0x1 :: u32)"

definition fp_1source_opcode :: "u32 \<Rightarrow> u8" where
  "fp_1source_opcode w = fld 15 0x3F w"

definition vfp_expand_imm :: "u8 \<Rightarrow> u8 \<Rightarrow> u64" where
  "vfp_expand_imm imm8 ftype =
     (let sign = fld 7 1 imm8 :: u64;
          b = fld 6 1 imm8 :: u64;
          not_b = b XOR 1;
          imm6 = fld 0 0x3F imm8 :: u64
      in if ftype = 1 then
           (let rep_b = b * 0xFF in
            push_bit 63 sign OR push_bit 62 not_b OR push_bit 54 rep_b OR push_bit 48 imm6)
         else
           (let rep_b = ucast (ucast (b * 0x1F) :: u32) :: u64 in
            push_bit 31 sign OR push_bit 30 not_b OR push_bit 25 rep_b OR push_bit 19 imm6))"

end
