(* ===== verification/Decoder.thy ===== *)
theory Decoder
  imports FpDecode
begin

text \<open>
  \<open>decode()\<close> of \<open>Source/Interpreter/Decoder/Decoder.cpp\<close>. The outer switch on bits 28:24 is
  \<open>decode\<close>; each of its cases is one definition \<open>dec_XX\<close>, named after the case label. A
  case maps the slot being filled and the instruction word to the filled slot and the
  function's boolean result. The slot is the caller's (an entry of the decode cache is
  reused), so a field that no assignment of the path writes keeps its old value.
\<close>

section \<open>Logical immediates\<close>

text \<open>The loop \<open>for (int i = 5; i >= 0; i--) if (combined & (1 << i)) { len = i; break; }\<close>.\<close>

fun find_len :: "u8 \<Rightarrow> nat \<Rightarrow> nat" where
  "find_len c 0 = 0"
| "find_len c (Suc i) = (if bit c i then i else find_len c i)"

text \<open>The loop \<open>for (int i = 0; i < 64; i += esize) result |= elem << i\<close>.\<close>

function replicate_elem :: "nat \<Rightarrow> u64 \<Rightarrow> nat \<Rightarrow> u64 \<Rightarrow> u64" where
  "replicate_elem esize elem i result =
     (if i < 64 \<and> 0 < esize
      then replicate_elem esize elem (i + esize) (result OR push_bit i elem)
      else result)"
  by pat_completeness auto
termination
  by (relation "measure (\<lambda>(esize, elem, i, result). 64 - i)") auto

declare replicate_elem.simps [simp del]

definition decode_bitmask_imm :: "bool \<Rightarrow> u8 \<Rightarrow> u8 \<Rightarrow> bool \<Rightarrow> u64 option" where
  "decode_bitmask_imm N immr imms sf =
     (let combined = NOT imms AND 0x3F in
      if \<not> N \<and> combined = 0 then None
      else
        let len = (if N then 6 else find_len combined 6);
            esize = 2 ^ len;
            levels = esize - 1;
            S = unat imms AND levels;
            R = unat immr AND levels;
            width = S + 1
        in
        if width > esize then None
        else
          let elem = (if width \<ge> 64 then - 1 else push_bit width 1 - 1);
              elem' = (if R \<noteq> 0
                       then (drop_bit R elem OR push_bit (esize - R) elem)
                              AND (if esize = 64 then - 1 else push_bit esize 1 - 1)
                       else elem);
              result = replicate_elem esize elem' 0 0
          in Some (if \<not> sf then result AND 0xFFFFFFFF else result))"

section \<open>The fields every case shares\<close>

definition dec_common :: "DecodedInst \<Rightarrow> u32 \<Rightarrow> DecodedInst" where
  "dec_common d inst = d\<lparr>
     d_raw := inst, d_cls := IC_UNKNOWN, d_pc_relative := False,
     d_rd := fld 0 0x1F inst, d_rn := fld 5 0x1F inst, d_rm := fld 16 0x1F inst,
     d_rt := fld 0 0x1F inst, d_rt2 := fld 10 0x1F inst, d_rs := fld 16 0x1F inst,
     d_sf := bit inst 31, d_size := fld 30 3 inst, d_cond := fld 0 0xF inst,
     d_Q := bit inst 30, d_ftype := fld 22 3 inst\<rparr>"

text \<open>The scaled displacement of a register pair: \<open>imm7 * esize\<close>, with \<open>imm7\<close> an \<open>int16_t\<close>.\<close>

definition pair_disp :: "u32 \<Rightarrow> i64 \<Rightarrow> i64" where
  "pair_disp inst esize = scast (ucast (sign_extend (fld 15 0x7F inst) 7) :: u16) * esize"

section \<open>Loads, stores and exclusives: cases 0x08 and 0x09\<close>

definition dec_08_pair :: "DecodedInst \<Rightarrow> u32 \<Rightarrow> DecodedInst \<times> bool" where
  "dec_08_pair d inst =
     (let pair_mode = fld 23 7 inst :: u8; opc = fld 30 3 inst :: u8 in
      if pair_mode > 1 then (d, False)
      else if pair_mode = 0 \<and> opc AND 1 \<noteq> 0 then (d, False)
      else (d\<lparr>d_is_vec := False, d_is_load := bit inst 22,
              d_mode := (if pair_mode = 0 then 2 else 1), d_writeback := (pair_mode = 1),
              d_disp := pair_disp inst (if opc = 2 then 8 else 4),
              d_cls := LdSt (if bit inst 22 then IC_LDP else IC_STP)\<rparr>, True))"

definition dec_08_cas :: "DecodedInst \<Rightarrow> u32 \<Rightarrow> DecodedInst \<times> bool" where
  "dec_08_cas d inst =
     (d\<lparr>d_size := fld 30 3 inst, d_acquire := bit inst 23, d_is_load := True,
        d_rs := fld 16 0x1F inst, d_atom_op := 0xC, d_rn := fld 5 0x1F inst,
        d_rt := fld 0 0x1F inst, d_cls := Atomic IC_LSE_ATOMIC\<rparr>, True)"

definition dec_08_excl :: "DecodedInst \<Rightarrow> u32 \<Rightarrow> DecodedInst \<times> bool" where
  "dec_08_excl d0 inst =
     (let d = d0\<lparr>d_size := fld 30 3 inst, d_acquire := bit inst 23, d_is_load := bit inst 22,
                 d_rs := fld 16 0x1F inst, d_rn := fld 5 0x1F inst, d_rt := fld 0 0x1F inst,
                 d_rt2 := fld 10 0x1F inst, d_excl_low6 := fld 10 0x3F inst\<rparr> in
      if \<not> bit inst 23 \<and> bit inst 21 then
        (if \<not> bit inst 31 then
           (if d_rt2 d \<noteq> 0x1F \<or> (d_rs d OR d_rt d) AND 1 \<noteq> 0 then (d, False)
            else (d\<lparr>d_size := 2 + fld 30 1 inst, d_cls := Atomic IC_CASP\<rparr>, True))
         else (d\<lparr>d_acquire := bit inst 15,
                 d_cls := Atomic (if d_is_load d then IC_LDXP else IC_STXP)\<rparr>, True))
      else if d_excl_low6 d = 0x1F then
        (d\<lparr>d_cls := Atomic (if d_is_load d then (if d_acquire d then IC_LDAXR else IC_LDXR)
                            else (if d_acquire d then IC_STLXR else IC_STXR))\<rparr>, True)
      else if d_excl_low6 d = 0x3F then
        (d\<lparr>d_cls := Atomic (if d_acquire d then (if d_is_load d then IC_LDAR else IC_STLR)
                            else (if d_is_load d then IC_LDAXR else IC_STLXR))\<rparr>, True)
      else (d\<lparr>d_cls := IC_UNKNOWN\<rparr>, False))"

definition dec_08 :: "DecodedInst \<Rightarrow> u32 \<Rightarrow> DecodedInst \<times> bool" where
  "dec_08 d inst =
     (if bit inst 29 then dec_08_pair d inst
      else if inst AND 0x3F000000 \<noteq> 0x08000000 then (d, False)
      else if bit inst 21 \<and> bit inst 23 then dec_08_cas d inst
      else dec_08_excl d inst)"

definition dec_09 :: "DecodedInst \<Rightarrow> u32 \<Rightarrow> DecodedInst \<times> bool" where
  "dec_09 d inst =
     (let mode_check = fld 23 7 inst :: u8; opc = fld 30 3 inst :: u8 in
      if mode_check \<noteq> 2 \<and> mode_check \<noteq> 3 then (d, False)
      else if bit inst 26 then (d, False)
      else (d\<lparr>d_is_vec := False, d_is_load := bit inst 22, d_mode := mode_check,
              d_writeback := (mode_check = 3),
              d_disp := pair_disp inst (if opc = 2 then 8 else 4),
              d_cls := LdSt (if bit inst 22 then IC_LDP else IC_STP)\<rparr>, True))"

section \<open>Register data processing: cases 0x0A and 0x0B\<close>

definition dec_0A :: "DecodedInst \<Rightarrow> u32 \<Rightarrow> DecodedInst \<times> bool" where
  "dec_0A d inst =
     (let opc = fld 29 3 inst :: u8 in
      (d\<lparr>d_set_flags := (opc = 3), d_shift_type := fld 22 3 inst, d_N := bit inst 21,
         d_shift := fld 10 0x3F inst, d_rm := fld 16 0x1F inst, d_rn := fld 5 0x1F inst,
         d_rd := fld 0 0x1F inst, d_writes_sp := False,
         d_cls := DpReg (if opc = 0 then IC_AND_REG else if opc = 1 then IC_ORR_REG
                         else if opc = 2 then IC_EOR_REG else IC_ANDS_REG)\<rparr>, True))"

definition dec_0B :: "DecodedInst \<Rightarrow> u32 \<Rightarrow> DecodedInst \<times> bool" where
  "dec_0B d inst =
     (let S = bit inst 29; bit21 = bit inst 21 in
      if bit21 \<and> fld 22 3 inst \<noteq> (0 :: u8) then (d, False)
      else
        let is_sub = bit inst 30;
            d1 = d\<lparr>d_is_sub := is_sub, d_set_flags := S, d_rm := fld 16 0x1F inst,
                   d_rn := fld 5 0x1F inst, d_rd := fld 0 0x1F inst\<rparr>;
            d2 = (if bit21
                  then d1\<lparr>d_extend := fld 13 7 inst, d_shift := fld 10 7 inst,
                          d_reads_sp := (d_rn d1 = 31),
                          d_writes_sp := (d_rd d1 = 31 \<and> \<not> S)\<rparr>
                  else d1\<lparr>d_shift_type := fld 22 3 inst, d_shift := fld 10 0x3F inst\<rparr>)
        in (d2\<lparr>d_cls := DpReg (if is_sub then (if S then IC_SUBS_REG else IC_SUB_REG)
                               else (if S then IC_ADDS_REG else IC_ADD_REG))\<rparr>, True))"

section \<open>SIMD structures, vector pairs and SIMD data processing: cases 0x0C to 0x0F\<close>

definition dec_0C_struct :: "DecodedInst \<Rightarrow> u32 \<Rightarrow> DecodedInst \<times> bool" where
  "dec_0C_struct d0 inst =
     (if bit inst 31 then (d0, False)
      else
        let d = d0\<lparr>d_is_vec := True, d_is_load := bit inst 22, d_size := fld 10 3 inst,
                   d_rt := fld 0 0x1F inst, d_rn := fld 5 0x1F inst, d_rm := fld 16 0x1F inst,
                   d_post_indexed := bit inst 23\<rparr>;
            opcode = fld 12 0xF inst :: u8;
            d' = (if bit inst 24
                  then d\<lparr>d_is_single_struct := True,
                         d_simd_count := (push_bit 1 (fld 13 1 inst) OR fld 21 1 inst) + 1,
                         d_simd_index := fld 13 3 inst, d_Q := bit inst 30,
                         d_is_ld1r := (fld 14 3 inst = (3 :: u8))\<rparr>
                  else d\<lparr>d_is_single_struct := False,
                         d_simd_count :=
                           (if opcode = 0xA then 2 else if opcode = 0x8 then 2
                            else if opcode = 0x6 then 3 else if opcode = 0x4 then 3
                            else if opcode = 0x2 then 4 else if opcode = 0x0 then 4 else 1),
                         d_simd_struct :=
                           (if opcode = 0xA then 1 else if opcode = 0x8 then 2
                            else if opcode = 0x6 then 1 else if opcode = 0x4 then 3
                            else if opcode = 0x2 then 1 else if opcode = 0x0 then 4 else 1),
                         d_Q := bit inst 30\<rparr>)
        in (d'\<lparr>d_cls := Simd (if d_is_load d' then IC_SIMD_LD1 else IC_SIMD_ST1)\<rparr>, True))"

definition dec_0C_pair :: "DecodedInst \<Rightarrow> u32 \<Rightarrow> DecodedInst \<times> bool" where
  "dec_0C_pair d inst =
     (let mode0 = fld 23 7 inst :: u8 in
      if mode0 > 3 then (d, False)
      else
        let mode_check = (if mode0 = 0 then 2 else mode0);
            opc = fld 30 3 inst :: u8;
            is_v = bit inst 26;
            esize = (if is_v then (if opc = 0 then 4 else if opc = 1 then 8 else 16)
                     else (if opc = 2 then 8 else 4))
        in (d\<lparr>d_is_vec := is_v, d_is_load := bit inst 22, d_mode := mode_check,
              d_writeback := (mode_check = 1 \<or> mode_check = 3),
              d_disp := pair_disp inst esize,
              d_cls := LdSt (if bit inst 22 then IC_LDP else IC_STP)\<rparr>, True))"

definition dec_0C :: "DecodedInst \<Rightarrow> u32 \<Rightarrow> DecodedInst \<times> bool" where
  "dec_0C d inst = (if \<not> bit inst 29 then dec_0C_struct d inst else dec_0C_pair d inst)"

definition dec_0E :: "DecodedInst \<Rightarrow> u32 \<Rightarrow> DecodedInst \<times> bool" where
  "dec_0E d inst =
     (if bit inst 31 then (d, False)
      else if is_unallocated_advsimd_imm inst \<or> is_unallocated_advsimd_three inst
      then (d\<lparr>d_cls := IC_UNKNOWN\<rparr>, False)
      else (d\<lparr>d_is_vec := True, d_cls := Generic IC_SIMD_DP, d_Q := bit inst 30,
              d_size := fld 22 3 inst, d_rd := fld 0 0x1F inst, d_rn := fld 5 0x1F inst,
              d_rm := fld 16 0x1F inst, d_cmode := fld 12 0xF inst\<rparr>, True))"

section \<open>Immediate data processing: cases 0x10 to 0x13\<close>

definition dec_10 :: "DecodedInst \<Rightarrow> u32 \<Rightarrow> DecodedInst \<times> bool" where
  "dec_10 d inst =
     (let is_adrp = bit inst 31;
          immlo = fld 29 3 inst :: u64; immhi = fld 5 0x7FFFF inst :: u64;
          imm_u = push_bit 2 immhi OR immlo
      in (d\<lparr>d_cls := DpImm (if is_adrp then IC_ADRP else IC_ADR), d_imm_u := imm_u,
            d_imm := (if is_adrp then sign_extend (push_bit 12 imm_u) 33 else sign_extend imm_u 21),
            d_rd := fld 0 0x1F inst\<rparr>, True))"

definition dec_11 :: "DecodedInst \<Rightarrow> u32 \<Rightarrow> DecodedInst \<times> bool" where
  "dec_11 d0 inst =
     (let S = bit inst 29;
          d = d0\<lparr>d_is_sub := bit inst 30, d_set_flags := S, d_imm_u := fld 10 0xFFF inst,
                 d_shift := (if bit inst 22 then 12 else 0),
                 d_rn := fld 5 0x1F inst, d_rd := fld 0 0x1F inst\<rparr>
      in (d\<lparr>d_reads_sp := (d_rn d = 31 \<and> \<not> S), d_writes_sp := (d_rd d = 31 \<and> \<not> S),
            d_cls := DpImm (if d_is_sub d then (if S then IC_SUBS_IMM else IC_SUB_IMM)
                            else (if S then IC_ADDS_IMM else IC_ADD_IMM))\<rparr>, True))"

definition dec_12_wide :: "DecodedInst \<Rightarrow> u32 \<Rightarrow> DecodedInst \<times> bool" where
  "dec_12_wide d inst =
     (let opc = fld 29 3 inst :: u8; hw = fld 21 3 inst :: u8 in
      if opc = 1 then (d\<lparr>d_cls := IC_UNKNOWN\<rparr>, False)
      else (d\<lparr>d_cls := DpImm (if opc = 0 then IC_MOVN else if opc = 2 then IC_MOVZ else IC_MOVK),
              d_imm16 := fld 5 0xFFFF inst, d_hw := hw, d_shift := hw * 16,
              d_rd := fld 0 0x1F inst\<rparr>, True))"

definition dec_12_logical :: "DecodedInst \<Rightarrow> u32 \<Rightarrow> DecodedInst \<times> bool" where
  "dec_12_logical d0 inst =
     (let opc = fld 29 3 inst :: u8;
          d1 = d0\<lparr>d_N := bit inst 22, d_immr := fld 16 0x3F inst, d_imms := fld 10 0x3F inst,
                  d_rn := fld 5 0x1F inst, d_rd := fld 0 0x1F inst, d_set_flags := (opc = 3)\<rparr>;
          d = d1\<lparr>d_writes_sp := (d_rd d1 = 31 \<and> \<not> d_set_flags d1)\<rparr>
      in case decode_bitmask_imm (d_N d) (d_immr d) (d_imms d) (d_sf d) of
           None \<Rightarrow> (d\<lparr>d_cls := IC_UNKNOWN\<rparr>, False)
         | Some imm_u \<Rightarrow>
             (d\<lparr>d_imm_u := imm_u,
                d_cls := DpImm (if opc = 0 then IC_AND_IMM else if opc = 1 then IC_ORR_IMM
                                else if opc = 2 then IC_EOR_IMM else IC_ANDS_IMM)\<rparr>, True))"

definition dec_12 :: "DecodedInst \<Rightarrow> u32 \<Rightarrow> DecodedInst \<times> bool" where
  "dec_12 d inst = (if bit inst 23 then dec_12_wide d inst else dec_12_logical d inst)"

definition dec_13 :: "DecodedInst \<Rightarrow> u32 \<Rightarrow> DecodedInst \<times> bool" where
  "dec_13 d0 inst =
     (let d = d0\<lparr>d_N := bit inst 22, d_immr := fld 16 0x3F inst, d_imms := fld 10 0x3F inst,
                 d_rn := fld 5 0x1F inst, d_rd := fld 0 0x1F inst\<rparr>;
          opc = fld 29 3 inst :: u8
      in if bit inst 23 then (d\<lparr>d_rm := fld 16 0x1F inst, d_cls := DpImm IC_EXTR\<rparr>, True)
         else if opc = 3 then (d\<lparr>d_cls := IC_UNKNOWN\<rparr>, False)
         else (d\<lparr>d_cls := DpImm (if opc = 0 then IC_SBFM else if opc = 1 then IC_BFM
                                 else IC_UBFM)\<rparr>, True))"

section \<open>Branches and system instructions: cases 0x14 to 0x17\<close>

definition dec_14_sys :: "DecodedInst \<Rightarrow> u32 \<Rightarrow> DecodedInst \<times> bool" where
  "dec_14_sys d inst =
     (let sys_op = fld 21 7 inst :: u8; sys_low5 = fld 0 0x1F inst :: u8 in
      if sys_op = 0 then
        (if sys_low5 = 1
         then (d\<lparr>d_cls := SysInst IC_SVC_IMM, d_imm_u := fld 5 0xFFFF inst\<rparr>, True)
         else if sys_low5 = 2 then (d\<lparr>d_cls := SysInst IC_HVC_IMM\<rparr>, True)
         else if sys_low5 = 3 then (d\<lparr>d_cls := SysInst IC_SMC_IMM\<rparr>, True)
         else (d\<lparr>d_cls := IC_UNKNOWN\<rparr>, False))
      else if sys_op = 1 then
        (if sys_low5 \<noteq> 0 then (d\<lparr>d_cls := IC_UNKNOWN\<rparr>, False)
         else (d\<lparr>d_cls := SysInst IC_BRK_IMM, d_imm_u := fld 5 0xFFFF inst\<rparr>, True))
      else if sys_op = 2 then
        (if sys_low5 \<noteq> 0 then (d\<lparr>d_cls := IC_UNKNOWN\<rparr>, False)
         else (d\<lparr>d_cls := SysInst IC_HLT_IMM, d_imm_u := fld 5 0xFFFF inst\<rparr>, True))
      else (d\<lparr>d_cls := IC_UNKNOWN\<rparr>, False))"

definition dec_14 :: "DecodedInst \<Rightarrow> u32 \<Rightarrow> DecodedInst \<times> bool" where
  "dec_14 d inst =
     (let op31_29 = fld 29 7 inst :: u8 in
      if op31_29 = 1 \<or> op31_29 = 5 then
        (d\<lparr>d_cls := Branch IC_CBZ,
           d_imm := push_bit 2 (sign_extend (fld 5 0x7FFFF inst) 19),
           d_rt := fld 0 0x1F inst\<rparr>, True)
      else if op31_29 = 2 then
        (if inst AND 0xFF000010 \<noteq> 0x54000000 then (d, False)
         else (d\<lparr>d_cls := Branch IC_Bcond, d_cond := fld 0 0xF inst,
                 d_imm := push_bit 2 (sign_extend (fld 5 0x7FFFF inst) 19)\<rparr>, True))
      else if op31_29 = 6 then dec_14_sys d inst
      else (d, False))"

definition dec_15_sys :: "DecodedInst \<Rightarrow> u32 \<Rightarrow> DecodedInst \<times> bool" where
  "dec_15_sys d inst =
     (if inst AND 0xFFFFF0FF = 0xD503305F then (d\<lparr>d_cls := SysInst IC_CLREX_INST\<rparr>, True)
      else if inst AND 0xFFFFF000 = 0xD5033000 then (d\<lparr>d_cls := SysInst IC_HINT\<rparr>, True)
      else if inst AND 0xFFFFF000 = 0xD5032000 then (d\<lparr>d_cls := SysInst IC_HINT\<rparr>, True)
      else if inst AND 0xFF000000 = 0xD5000000 then
        (d\<lparr>d_sys_L := bit inst 21, d_sys_op0 := fld 19 3 inst, d_sys_op1 := fld 16 7 inst,
           d_sys_crn := fld 12 0xF inst, d_sys_crm := fld 8 0xF inst,
           d_sys_op2 := fld 5 7 inst, d_rt := fld 0 0x1F inst,
           d_cls := SysInst (if bit inst 21 then IC_MRS_SYS else IC_MSR_SYS)\<rparr>, True)
      else (d, False))"

definition dec_15 :: "DecodedInst \<Rightarrow> u32 \<Rightarrow> DecodedInst \<times> bool" where
  "dec_15 d inst =
     (let op31_29 = fld 29 7 inst :: u8 in
      if op31_29 = 1 \<or> op31_29 = 5 then
        (d\<lparr>d_cls := Branch IC_CBNZ,
           d_imm := push_bit 2 (sign_extend (fld 5 0x7FFFF inst) 19),
           d_rt := fld 0 0x1F inst\<rparr>, True)
      else if op31_29 = 6 then dec_15_sys d inst
      else (d, False))"

text \<open>TBZ and TBNZ: the tested bit is \<open>(b5 << 5) | b40\<close>, computed in \<open>int\<close>.\<close>

definition test_bit_number :: "u32 \<Rightarrow> u64" where
  "test_bit_number inst =
     (let b40 = fld 19 0x1F inst; b5 = fld 31 1 inst in push_bit 5 b5 OR b40)"

definition dec_16 :: "DecodedInst \<Rightarrow> u32 \<Rightarrow> DecodedInst \<times> bool" where
  "dec_16 d inst =
     (let op31_29 = fld 29 7 inst :: u8 in
      if op31_29 = 1 \<or> op31_29 = 5 then
        (d\<lparr>d_cls := Branch IC_TBZ,
           d_imm := push_bit 2 (sign_extend (fld 5 0x3FFF inst) 14),
           d_imm_u := test_bit_number inst, d_rt := fld 0 0x1F inst\<rparr>, True)
      else if op31_29 = 6 then
        (if inst AND 0xFFFFFC00 = 0xD61F0000
         then (d\<lparr>d_cls := Branch IC_BR, d_rn := fld 5 0x1F inst\<rparr>, True)
         else if inst AND 0xFFFFFC00 = 0xD63F0000
         then (d\<lparr>d_cls := Branch IC_BLR, d_rn := fld 5 0x1F inst\<rparr>, True)
         else if inst AND 0xFFFFFC1F = 0xD65F0000
         then (d\<lparr>d_cls := Branch IC_RET, d_rn := fld 5 0x1F inst\<rparr>, True)
         else (d, False))
      else (d, False))"

definition dec_17 :: "DecodedInst \<Rightarrow> u32 \<Rightarrow> DecodedInst \<times> bool" where
  "dec_17 d inst =
     (let op31_29 = fld 29 7 inst :: u8 in
      if op31_29 \<noteq> 1 \<and> op31_29 \<noteq> 5 then (d, False)
      else (d\<lparr>d_cls := Branch IC_TBNZ,
              d_imm := push_bit 2 (sign_extend (fld 5 0x3FFF inst) 14),
              d_imm_u := test_bit_number inst, d_rt := fld 0 0x1F inst\<rparr>, True))"

section \<open>Single loads and stores: cases 0x18, 0x19, 0x1C, 0x1D\<close>

text \<open>
  \<open>d.is_vec ? (d.opc_ls & 1) : ((d.opc_ls & 2) || (d.opc_ls & 1))\<close>, and the prefetch
  encodings, which are hints and never access memory.
\<close>

definition ls_is_load :: "bool \<Rightarrow> u8 \<Rightarrow> bool" where
  "ls_is_load is_vec opc_ls =
     (if is_vec then bit opc_ls 0 else bit opc_ls 1 \<or> bit opc_ls 0)"

definition ls_is_prefetch :: "DecodedInst \<Rightarrow> bool" where
  "ls_is_prefetch d \<longleftrightarrow> \<not> d_is_vec d \<and> d_size d = 3 \<and> d_opc_ls d = 2"

definition dec_18_literal :: "DecodedInst \<Rightarrow> u32 \<Rightarrow> DecodedInst \<times> bool" where
  "dec_18_literal d0 inst =
     (let opc = drop_bit 30 inst; d = d0\<lparr>d_is_vec := bit inst 26\<rparr> in
      if opc = 3 then
        (if d_is_vec d then (d, False) else (d\<lparr>d_cls := SysInst IC_HINT\<rparr>, True))
      else
        let d1 = d\<lparr>d_cls := LdSt IC_LDR_IMM, d_pc_relative := True, d_is_load := True,
                   d_rt := ucast (inst AND 31),
                   d_disp := sign_extend (fld 5 0x7FFFF inst) 19 * 4,
                   d_size := (if opc = 1 then 3 else 2),
                   d_opc_ls := (if \<not> d_is_vec d \<and> opc = 2 then 2 else 1)\<rparr>
        in (if d_is_vec d1 \<and> opc = 2 then (d1\<lparr>d_size := 0, d_opc_ls := 3\<rparr>, True)
            else (d1, True)))"

definition dec_18_unscaled :: "DecodedInst \<Rightarrow> u32 \<Rightarrow> DecodedInst \<times> bool" where
  "dec_18_unscaled d0 inst =
     (let mode_b = fld 10 3 inst :: u8 in
      if mode_b = 2 then (d0, False)
      else
        let d = d0\<lparr>d_size := fld 30 3 inst, d_opc_ls := fld 22 3 inst,
                   d_is_vec := bit inst 26\<rparr>
        in if ls_is_prefetch d then (d\<lparr>d_cls := SysInst IC_HINT\<rparr>, True)
           else
             let imm9 = ucast (sign_extend (fld 12 0x1FF inst) 9) :: u16;
                 load = ls_is_load (d_is_vec d) (d_opc_ls d)
             in (d\<lparr>d_rn := fld 5 0x1F inst, d_rt := fld 0 0x1F inst,
                   d_writeback := (mode_b = 1 \<or> mode_b = 3),
                   d_mode := (if mode_b = 1 then 1 else if mode_b = 3 then 2 else 0),
                   d_disp := scast imm9, d_is_load := load,
                   d_cls := LdSt (if load then IC_LDR_UNS else IC_STR_UNS)\<rparr>, True))"

definition dec_18_lse :: "DecodedInst \<Rightarrow> u32 \<Rightarrow> DecodedInst \<times> bool" where
  "dec_18_lse d inst =
     (if bit inst 26 then (d, False)
      else if inst AND 0x3FFFFC00 = 0x38BFC000 then
        (d\<lparr>d_size := fld 30 3 inst, d_is_load := True, d_acquire := True, d_excl_low6 := 0x3F,
           d_rn := fld 5 0x1F inst, d_rt := fld 0 0x1F inst, d_cls := Atomic IC_LDAR\<rparr>, True)
      else
        (d\<lparr>d_size := fld 30 3 inst, d_acquire := bit inst 23, d_is_load := bit inst 22,
           d_rs := fld 16 0x1F inst, d_atom_op := fld 12 0xF inst, d_rn := fld 5 0x1F inst,
           d_rt := fld 0 0x1F inst, d_cls := Atomic IC_LSE_ATOMIC\<rparr>, True))"

definition dec_18_regoff :: "DecodedInst \<Rightarrow> u32 \<Rightarrow> DecodedInst \<times> bool" where
  "dec_18_regoff d0 inst =
     (let d = d0\<lparr>d_size := fld 30 3 inst, d_opc_ls := fld 22 3 inst, d_is_vec := bit inst 26\<rparr> in
      if ls_is_prefetch d then (d\<lparr>d_cls := SysInst IC_HINT\<rparr>, True)
      else
        let load = ls_is_load (d_is_vec d) (d_opc_ls d)
        in (d\<lparr>d_rm := fld 16 0x1F inst, d_extend := fld 13 7 inst, d_shift := fld 12 1 inst,
              d_rn := fld 5 0x1F inst, d_rt := fld 0 0x1F inst, d_is_load := load,
              d_cls := LdSt (if load then IC_LDR_REG else IC_STR_REG)\<rparr>, True))"

definition dec_18 :: "DecodedInst \<Rightarrow> u32 \<Rightarrow> DecodedInst \<times> bool" where
  "dec_18 d inst =
     (if \<not> bit inst 29 then dec_18_literal d inst
      else if \<not> bit inst 21 then dec_18_unscaled d inst
      else let mode_b = fld 10 3 inst :: u8 in
        if mode_b = 0 then dec_18_lse d inst
        else if mode_b = 2 then dec_18_regoff d inst
        else (d\<lparr>d_cls := IC_UNKNOWN\<rparr>, False))"

definition dec_19 :: "DecodedInst \<Rightarrow> u32 \<Rightarrow> DecodedInst \<times> bool" where
  "dec_19 d0 inst =
     (if \<not> bit inst 29 then (d0, False)
      else
        let d = d0\<lparr>d_size := fld 30 3 inst, d_opc_ls := fld 22 3 inst,
                   d_is_vec := bit inst 26\<rparr>
        in if ls_is_prefetch d then (d\<lparr>d_cls := SysInst IC_HINT\<rparr>, True)
           else
             let imm12 = fld 10 0xFFF inst :: u16;
                 vec_q = (bit (d_opc_ls d) 1 \<and> d_size d = 0);
                 scale = (if d_is_vec d then (if vec_q then 4 else unat (d_size d))
                          else unat (d_size d));
                 load = ls_is_load (d_is_vec d) (d_opc_ls d)
             in (d\<lparr>d_rn := fld 5 0x1F inst, d_rt := fld 0 0x1F inst,
                   d_disp := push_bit scale (ucast imm12), d_is_load := load,
                   d_cls := LdSt (if load then IC_LDR_IMM else IC_STR_IMM)\<rparr>, True))"

section \<open>Register data processing: cases 0x1A and 0x1B\<close>

definition dec_1A_adc :: "DecodedInst \<Rightarrow> u32 \<Rightarrow> DecodedInst \<times> bool" where
  "dec_1A_adc d inst =
     (let S = bit inst 29; is_sub = bit inst 30 in
      (d\<lparr>d_is_sub := is_sub, d_set_flags := S, d_rm := fld 16 0x1F inst,
         d_rn := fld 5 0x1F inst, d_rd := fld 0 0x1F inst,
         d_cls := DpReg (if is_sub then (if S then IC_SBCS_REG else IC_SBC_REG)
                         else (if S then IC_ADCS_REG else IC_ADC_REG))\<rparr>, True))"

definition dec_1A_ccmp :: "DecodedInst \<Rightarrow> u32 \<Rightarrow> DecodedInst \<times> bool" where
  "dec_1A_ccmp d0 inst =
     (if \<not> bit inst 29 then (d0, False)
      else
        let d = d0\<lparr>d_is_sub := bit inst 30, d_is_register := (\<not> bit inst 11),
                   d_rm := fld 16 0x1F inst, d_cond := fld 12 0xF inst,
                   d_rn := fld 5 0x1F inst, d_nzcv_field := fld 0 0xF inst\<rparr>;
            d' = (if \<not> d_is_register d then d\<lparr>d_imm_u := fld 16 0x1F inst\<rparr> else d)
        in (d'\<lparr>d_cls := DpReg (if d_is_sub d' then IC_CCMP else IC_CCMN)\<rparr>, True))"

definition dec_1A_csel :: "DecodedInst \<Rightarrow> u32 \<Rightarrow> DecodedInst \<times> bool" where
  "dec_1A_csel d0 inst =
     (let opc = fld 29 3 inst :: u8; op2 = fld 10 3 inst :: u8;
          d = d0\<lparr>d_rm := fld 16 0x1F inst, d_cond := fld 12 0xF inst,
                 d_rn := fld 5 0x1F inst, d_rd := fld 0 0x1F inst\<rparr>
      in if opc = 0 \<and> op2 = 0 then (d\<lparr>d_cls := DpReg IC_CSEL\<rparr>, True)
         else if opc = 0 \<and> op2 = 1 then (d\<lparr>d_cls := DpReg IC_CSINC\<rparr>, True)
         else if opc = 2 \<and> op2 = 0 then (d\<lparr>d_cls := DpReg IC_CSINV\<rparr>, True)
         else if opc = 2 \<and> op2 = 1 then (d\<lparr>d_cls := DpReg IC_CSNEG\<rparr>, True)
         else (d, False))"

definition dec_1A_1src :: "DecodedInst \<Rightarrow> u32 \<Rightarrow> DecodedInst \<times> bool" where
  "dec_1A_1src d0 inst =
     (let d = d0\<lparr>d_dp_opcode := fld 10 0x3F inst, d_rn := fld 5 0x1F inst,
                 d_rd := fld 0 0x1F inst\<rparr>
      in if d_dp_opcode d = 0 then (d\<lparr>d_cls := DpReg IC_RBIT\<rparr>, True)
         else if d_dp_opcode d = 1 then (d\<lparr>d_cls := DpReg IC_REV16\<rparr>, True)
         else if d_dp_opcode d = 2
         then (d\<lparr>d_cls := DpReg (if d_sf d then IC_REV32 else IC_REV)\<rparr>, True)
         else if d_dp_opcode d = 3 then (d\<lparr>d_cls := DpReg IC_REV\<rparr>, True)
         else if d_dp_opcode d = 4 then (d\<lparr>d_cls := DpReg IC_CLZ\<rparr>, True)
         else if d_dp_opcode d = 5 then (d\<lparr>d_cls := DpReg IC_CLS\<rparr>, True)
         else (d\<lparr>d_cls := IC_UNKNOWN\<rparr>, False))"

definition dec_1A_2src :: "DecodedInst \<Rightarrow> u32 \<Rightarrow> DecodedInst \<times> bool" where
  "dec_1A_2src d0 inst =
     (let d = d0\<lparr>d_dp_opcode := fld 10 0x3F inst, d_rm := fld 16 0x1F inst,
                 d_rn := fld 5 0x1F inst, d_rd := fld 0 0x1F inst\<rparr>
      in if d_dp_opcode d \<ge> 0x10 \<and> d_dp_opcode d \<le> 0x17 then
           (let d' = d\<lparr>d_imm := ucast (d_dp_opcode d AND 3)\<rparr> in
            if bit inst 29 \<or> d_sf d' \<noteq> (d_imm d' = 3) then (d', False)
            else (d'\<lparr>d_cls := DpReg IC_CRC32, d_is_sub := bit (d_dp_opcode d) 2\<rparr>, True))
         else if d_dp_opcode d = 2 then (d\<lparr>d_cls := DpReg IC_UDIV\<rparr>, True)
         else if d_dp_opcode d = 3 then (d\<lparr>d_cls := DpReg IC_SDIV\<rparr>, True)
         else if d_dp_opcode d = 8 then (d\<lparr>d_cls := DpReg IC_LSL\<rparr>, True)
         else if d_dp_opcode d = 9 then (d\<lparr>d_cls := DpReg IC_LSR\<rparr>, True)
         else if d_dp_opcode d = 10 then (d\<lparr>d_cls := DpReg IC_ASR\<rparr>, True)
         else if d_dp_opcode d = 11 then (d\<lparr>d_cls := DpReg IC_ROR\<rparr>, True)
         else (d\<lparr>d_cls := IC_UNKNOWN\<rparr>, False))"

definition dec_1A :: "DecodedInst \<Rightarrow> u32 \<Rightarrow> DecodedInst \<times> bool" where
  "dec_1A d inst =
     (let bits23_22 = fld 22 3 inst :: u8 in
      if bit inst 21 then (d, False)
      else if bits23_22 = 0 then dec_1A_adc d inst
      else if bits23_22 = 1 then dec_1A_ccmp d inst
      else if bits23_22 = 2 then dec_1A_csel d inst
      else if bit inst 30 then dec_1A_1src d inst
      else dec_1A_2src d inst)"

definition dec_1B :: "DecodedInst \<Rightarrow> u32 \<Rightarrow> DecodedInst \<times> bool" where
  "dec_1B d0 inst =
     (let d = d0\<lparr>d_sub_op := fld 21 7 inst, d_o0 := bit inst 15, d_rm := fld 16 0x1F inst,
                 d_ra := fld 10 0x1F inst, d_rn := fld 5 0x1F inst, d_rd := fld 0 0x1F inst\<rparr>
      in if d_sub_op d = 0
         then (d\<lparr>d_cls := DpReg (if d_o0 d then IC_MSUB else IC_MADD)\<rparr>, True)
         else if d_sub_op d = 1
         then (d\<lparr>d_cls := DpReg (if d_o0 d then IC_SMSUBL else IC_SMADDL)\<rparr>, True)
         else if d_sub_op d = 2 then (d\<lparr>d_cls := DpReg IC_SMULH\<rparr>, True)
         else if d_sub_op d = 5
         then (d\<lparr>d_cls := DpReg (if d_o0 d then IC_UMSUBL else IC_UMADDL)\<rparr>, True)
         else if d_sub_op d = 6 then (d\<lparr>d_cls := DpReg IC_UMULH\<rparr>, True)
         else (d\<lparr>d_cls := IC_UNKNOWN\<rparr>, False))"

section \<open>Scalar FP: cases 0x1E and 0x1F\<close>

definition dec_fp_fields :: "DecodedInst \<Rightarrow> u32 \<Rightarrow> DecodedInst" where
  "dec_fp_fields d inst = d\<lparr>
     d_is_vec := True, d_cls := Generic IC_FP_SCALAR, d_ftype := fld 22 3 inst,
     d_rd := fld 0 0x1F inst, d_rn := fld 5 0x1F inst, d_rm := fld 16 0x1F inst,
     d_fp_opcode := fld 12 0xF inst, d_rmode := fld 19 3 inst\<rparr>"

definition dec_1E :: "DecodedInst \<Rightarrow> u32 \<Rightarrow> DecodedInst \<times> bool" where
  "dec_1E d inst =
     (if \<not> bit inst 30 \<and> \<not> is_allocated_fp_scalar inst then (d\<lparr>d_cls := IC_UNKNOWN\<rparr>, False)
      else if inst AND 0xFFFEFC00 = 0x9EAE0000 then
        (d\<lparr>d_cls := Simd (if bit inst 16 then IC_FMOV_VD1 else IC_FMOV_RVD1), d_is_vec := True,
           d_rn := fld 5 0x1F inst, d_rd := fld 0 0x1F inst\<rparr>, True)
      else
        let op31_24 = fld 24 0xFF inst :: u8 in
        if op31_24 \<noteq> 0x1E \<and> op31_24 \<noteq> 0x9E \<and> op31_24 \<noteq> 0x5E \<and> op31_24 \<noteq> 0x7E \<and>
           op31_24 \<noteq> 0x5F \<and> op31_24 \<noteq> 0x7F then (d, False)
        else (dec_fp_fields d inst, True))"

definition dec_1F :: "DecodedInst \<Rightarrow> u32 \<Rightarrow> DecodedInst \<times> bool" where
  "dec_1F d inst =
     (if (\<not> bit inst 30 \<and> \<not> is_allocated_fp_scalar inst) \<or> is_unallocated_advsimd_imm inst
      then (d\<lparr>d_cls := IC_UNKNOWN\<rparr>, False)
      else (dec_fp_fields d inst, True))"

section \<open>The outer switch\<close>

text \<open>B and BL, recognised before the switch.\<close>

definition dec_branch :: "DecodedInst \<Rightarrow> u32 \<Rightarrow> DecodedInst \<times> bool" where
  "dec_branch d inst =
     (d\<lparr>d_cls := Branch (if d_sf d then IC_BL else IC_B),
        d_imm := push_bit 2 (sign_extend (ucast (inst AND 0x03FFFFFF)) 26)\<rparr>, True)"

definition decode :: "DecodedInst \<Rightarrow> u32 \<Rightarrow> DecodedInst \<times> bool" where
  "decode slot inst =
     (let d = dec_common slot inst in
      if inst AND 0x7C000000 = 0x14000000 then dec_branch d inst
      else
        let op28_24 = fld 24 0x1F inst :: u8 in
        if op28_24 \<le> 0x07 then (d, False)
        else if op28_24 = 0x08 then dec_08 d inst
        else if op28_24 = 0x09 then dec_09 d inst
        else if op28_24 = 0x0A then dec_0A d inst
        else if op28_24 = 0x0B then dec_0B d inst
        else if op28_24 = 0x0C \<or> op28_24 = 0x0D then dec_0C d inst
        else if op28_24 = 0x0E \<or> op28_24 = 0x0F then dec_0E d inst
        else if op28_24 = 0x10 then dec_10 d inst
        else if op28_24 = 0x11 then dec_11 d inst
        else if op28_24 = 0x12 then dec_12 d inst
        else if op28_24 = 0x13 then dec_13 d inst
        else if op28_24 = 0x14 then dec_14 d inst
        else if op28_24 = 0x15 then dec_15 d inst
        else if op28_24 = 0x16 then dec_16 d inst
        else if op28_24 = 0x17 then dec_17 d inst
        else if op28_24 = 0x18 \<or> op28_24 = 0x1C then dec_18 d inst
        else if op28_24 = 0x19 \<or> op28_24 = 0x1D then dec_19 d inst
        else if op28_24 = 0x1A then dec_1A d inst
        else if op28_24 = 0x1B then dec_1B d inst
        else if op28_24 = 0x1E then dec_1E d inst
        else if op28_24 = 0x1F then dec_1F d inst
        else (d\<lparr>d_cls := IC_UNKNOWN\<rparr>, False))"

lemmas dec_case_defs [decode_simps] =
  dec_branch_def   dec_08_def dec_08_pair_def dec_08_cas_def dec_08_excl_def dec_09_def dec_0A_def dec_0B_def
  dec_0C_def dec_0C_struct_def dec_0C_pair_def dec_0E_def dec_10_def dec_11_def dec_12_def
  dec_12_wide_def dec_12_logical_def dec_13_def dec_14_def dec_14_sys_def dec_15_def
  dec_15_sys_def dec_16_def dec_17_def dec_18_def dec_18_literal_def dec_18_unscaled_def
  dec_18_lse_def dec_18_regoff_def dec_19_def dec_1A_def dec_1A_adc_def dec_1A_ccmp_def
  dec_1A_csel_def dec_1A_1src_def dec_1A_2src_def dec_1B_def dec_1E_def dec_1F_def
  dec_fp_fields_def

end
