(* ===== verification/Cpu.thy ===== *)
theory Cpu
  imports Decoder
begin

text \<open>
  One virtual CPU (\<open>Source/System/Core/CPU.hpp\<close>): the architectural registers, the flag and
  register accessors, the local exclusive monitor, the queue of pending signals, the
  decode cache's storage, and the copy of the architectural state that \<open>clone()\<close> makes.
  The C++ arrays \<open>regs[32]\<close>, \<open>v_lo[32]\<close>, \<open>v_hi[32]\<close> are functions of the \<open>uint8_t\<close> index the
  code uses; that every index it uses is below 32 is a property of the decoder.
\<close>

section \<open>State\<close>

record PendingSig =
  ps_signo :: int
  ps_si_code :: int
  ps_fault_addr :: u64
  ps_sender_pid :: int
  ps_sender_uid :: u32
  ps_child_status :: int
  ps_timer_id :: int
  ps_timer_overrun :: int

record CacheEntry =
  ce_tag :: u64
  ce_d :: DecodedInst

record CPU =
  regs :: "u8 \<Rightarrow> u64"
  sp :: u64
  pc :: u64
  pstate :: u32
  running :: bool
  exit_code :: int
  v_lo :: "u8 \<Rightarrow> u64"
  v_hi :: "u8 \<Rightarrow> u64"
  fpcr :: u32
  fpsr :: u32
  tpidr_el0 :: u64
  tpidrro_el0 :: u64
  no_new_privs :: bool
  timer_slack_ns :: u64
  timer_slack_default_ns :: u64
  tid :: int
  is_fork_process :: bool
  dc_entries :: "nat \<Rightarrow> CacheEntry"
  dc_lru :: "nat \<Rightarrow> u8"
  decode_cache_hits :: u64
  decode_cache_misses :: u64
  set_tid_address_ptr :: u64
  robust_list_head :: u64
  robust_list_len :: u64
  clear_child_tid :: u64
  rseq_registered :: bool
  rseq_addr :: u64
  rseq_sig :: u32
  sigmask :: u64
  sigpending :: u64
  sigsuspend_saved_mask :: u64
  sigsuspend_active :: bool
  pending_queue :: "nat \<Rightarrow> PendingSig"
  pending_head :: u64
  pending_tail :: u64
  last_svc_num :: u64
  last_svc_pc :: u64
  last_thunk_sym :: u64
  has_last_svc :: bool
  excl_tag_valid :: bool
  excl_tag_addr :: u64
  excl_tag_size :: u32
  excl_value :: u64
  excl_value_hi :: u64
  excl_ver :: u64
  debug_skip_poll :: bool

section \<open>Flags and registers\<close>

definition set_pstate_bit :: "nat \<Rightarrow> bool \<Rightarrow> CPU \<Rightarrow> CPU" where
  "set_pstate_bit k v c =
     c\<lparr>pstate := (if v then pstate c OR push_bit k 1 else pstate c AND NOT (push_bit k 1))\<rparr>"

definition set_flag_n :: "bool \<Rightarrow> CPU \<Rightarrow> CPU" where "set_flag_n = set_pstate_bit 31"
definition set_flag_z :: "bool \<Rightarrow> CPU \<Rightarrow> CPU" where "set_flag_z = set_pstate_bit 30"
definition set_flag_c :: "bool \<Rightarrow> CPU \<Rightarrow> CPU" where "set_flag_c = set_pstate_bit 29"
definition set_flag_v :: "bool \<Rightarrow> CPU \<Rightarrow> CPU" where "set_flag_v = set_pstate_bit 28"

definition flag_n :: "CPU \<Rightarrow> bool" where "flag_n c \<longleftrightarrow> pstate c AND push_bit 31 1 \<noteq> 0"
definition flag_z :: "CPU \<Rightarrow> bool" where "flag_z c \<longleftrightarrow> pstate c AND push_bit 30 1 \<noteq> 0"
definition flag_c :: "CPU \<Rightarrow> bool" where "flag_c c \<longleftrightarrow> pstate c AND push_bit 29 1 \<noteq> 0"
definition flag_v :: "CPU \<Rightarrow> bool" where "flag_v c \<longleftrightarrow> pstate c AND push_bit 28 1 \<noteq> 0"

text \<open>The four flags set together, in the order the interpreter sets them.\<close>

definition set_nzcv :: "bool \<Rightarrow> bool \<Rightarrow> bool \<Rightarrow> bool \<Rightarrow> CPU \<Rightarrow> CPU" where
  "set_nzcv n z c v cpu = set_flag_v v (set_flag_c c (set_flag_z z (set_flag_n n cpu)))"

text \<open>
  \<open>CPU::w\<close>: writes to register 31 are discarded. The interpreter's handlers write
  \<open>if (d.rd != 31) cpu.regs[d.rd] = v\<close> for it.
\<close>

definition wreg :: "u8 \<Rightarrow> u64 \<Rightarrow> CPU \<Rightarrow> CPU" where
  "wreg r v c = (if r \<noteq> 31 then c\<lparr>regs := (regs c)(r := v)\<rparr> else c)"

definition rreg :: "CPU \<Rightarrow> u8 \<Rightarrow> u64" where
  "rreg c r = regs c (r AND 31)"

section \<open>The local exclusive monitor\<close>

definition excl_mark :: "u64 \<Rightarrow> u32 \<Rightarrow> u64 \<Rightarrow> u64 \<Rightarrow> CPU \<Rightarrow> CPU" where
  "excl_mark addr sz val ver c = c\<lparr>
     excl_tag_valid := True, excl_tag_addr := addr, excl_tag_size := sz,
     excl_value := val, excl_ver := ver\<rparr>"

definition excl_clear :: "CPU \<Rightarrow> CPU" where
  "excl_clear c = c\<lparr>excl_tag_valid := False\<rparr>"

definition excl_check :: "CPU \<Rightarrow> u64 \<Rightarrow> u32 \<Rightarrow> bool" where
  "excl_check c addr sz =
     (if \<not> excl_tag_valid c then False
      else excl_tag_addr c = addr \<and> excl_tag_size c = sz)"

section \<open>Copying the architectural state\<close>

definition copy_arch_state_from :: "CPU \<Rightarrow> CPU \<Rightarrow> CPU" where
  "copy_arch_state_from src c = c\<lparr>
     regs := regs src, sp := sp src, pc := pc src, pstate := pstate src,
     running := running src, exit_code := exit_code src,
     v_lo := v_lo src, v_hi := v_hi src, fpcr := fpcr src, fpsr := fpsr src,
     tpidr_el0 := tpidr_el0 src, tpidrro_el0 := tpidrro_el0 src, tid := tid src,
     no_new_privs := no_new_privs src, timer_slack_ns := timer_slack_ns src,
     timer_slack_default_ns := timer_slack_ns src,
     is_fork_process := is_fork_process src,
     set_tid_address_ptr := 0, robust_list_head := 0, robust_list_len := 0,
     rseq_registered := False, rseq_addr := 0, rseq_sig := 0,
     sigmask := sigmask src, sigsuspend_saved_mask := 0, sigsuspend_active := False,
     last_svc_num := 0, last_svc_pc := 0, last_thunk_sym := 0, has_last_svc := False,
     excl_tag_valid := False, excl_tag_addr := 0, excl_tag_size := 0\<rparr>"

text \<open>
  A CPU as its member initialisers leave it: everything zero, running, thread id 1, the
  default timer slack, and an empty (zero-filled) decode cache.
\<close>

definition PendingSig_zero :: PendingSig where
  "PendingSig_zero = \<lparr>ps_signo = 0, ps_si_code = 0, ps_fault_addr = 0, ps_sender_pid = 0,
     ps_sender_uid = 0, ps_child_status = 0, ps_timer_id = - 1, ps_timer_overrun = 0\<rparr>"

definition CPU_init :: CPU where
  "CPU_init = \<lparr>regs = (\<lambda>_. 0), sp = 0, pc = 0, pstate = 0, running = True, exit_code = 0,
     v_lo = (\<lambda>_. 0), v_hi = (\<lambda>_. 0), fpcr = 0, fpsr = 0, tpidr_el0 = 0, tpidrro_el0 = 0,
     no_new_privs = False, timer_slack_ns = 50000, timer_slack_default_ns = 50000, tid = 1,
     is_fork_process = False, dc_entries = (\<lambda>_. \<lparr>ce_tag = 0, ce_d = DecodedInst_zero\<rparr>),
     dc_lru = (\<lambda>_. 0), decode_cache_hits = 0, decode_cache_misses = 0,
     set_tid_address_ptr = 0, robust_list_head = 0, robust_list_len = 0, clear_child_tid = 0,
     rseq_registered = False, rseq_addr = 0, rseq_sig = 0, sigmask = 0, sigpending = 0,
     sigsuspend_saved_mask = 0, sigsuspend_active = False,
     pending_queue = (\<lambda>_. PendingSig_zero), pending_head = 0, pending_tail = 0,
     last_svc_num = 0, last_svc_pc = 0, last_thunk_sym = 0, has_last_svc = False,
     excl_tag_valid = False, excl_tag_addr = 0, excl_tag_size = 0, excl_value = 0,
     excl_value_hi = 0, excl_ver = 0, debug_skip_poll = False\<rparr>"

section \<open>Reading back what was written\<close>

lemma and_single_bit: "w AND push_bit k 1 \<noteq> (0 :: u32) \<longleftrightarrow> bit w k"
  by (auto simp add: bit_iff_and_push_bit_not_eq_0)

lemma flag_bits:
  "flag_n c \<longleftrightarrow> bit (pstate c) 31" "flag_z c \<longleftrightarrow> bit (pstate c) 30"
  "flag_c c \<longleftrightarrow> bit (pstate c) 29" "flag_v c \<longleftrightarrow> bit (pstate c) 28"
  by (simp_all only: flag_n_def flag_z_def flag_c_def flag_v_def and_single_bit)

lemma bit_set_pstate_bit:
  "k < 32 \<Longrightarrow> bit (pstate (set_pstate_bit k v c)) j = (if j = k then v else bit (pstate c) j)"
  by (auto simp add: set_pstate_bit_def bit_simps dest: bit_imp_le_length)

lemmas set_flag_defs = set_flag_n_def set_flag_z_def set_flag_c_def set_flag_v_def

lemma bit_set_nzcv:
  "bit (pstate (set_nzcv n z c v cpu)) j =
     (if j = 31 then n else if j = 30 then z else if j = 29 then c else if j = 28 then v
      else bit (pstate cpu) j)"
  by (simp add: set_nzcv_def set_flag_defs bit_set_pstate_bit)

lemma flags_set_nzcv [simp]:
  "flag_n (set_nzcv n z c v cpu) = n" "flag_z (set_nzcv n z c v cpu) = z"
  "flag_c (set_nzcv n z c v cpu) = c" "flag_v (set_nzcv n z c v cpu) = v"
  by (simp_all add: flag_bits bit_set_nzcv)

text \<open>The flags are the only thing \<open>set_nzcv\<close> changes, and \<open>regs\<close> the only thing \<open>wreg\<close> does.\<close>

lemma set_nzcv_eq: "set_nzcv n z c v cpu = cpu\<lparr>pstate := pstate (set_nzcv n z c v cpu)\<rparr>"
  by (simp add: set_nzcv_def set_flag_defs set_pstate_bit_def)

lemma regs_set_nzcv [simp]: "regs (set_nzcv n z c v cpu) = regs cpu"
  by (simp add: set_nzcv_def set_flag_defs set_pstate_bit_def)

lemma sp_set_nzcv [simp]: "sp (set_nzcv n z c v cpu) = sp cpu"
  by (simp add: set_nzcv_def set_flag_defs set_pstate_bit_def)

lemma regs_wreg: "regs (wreg r v c) s = (if s = r \<and> r \<noteq> 31 then v else regs c s)"
  by (simp add: wreg_def)

lemma wreg_31 [simp]: "wreg 31 v c = c"
  by (simp add: wreg_def)

lemma pstate_wreg [simp]: "pstate (wreg r v c) = pstate c"
  by (simp add: wreg_def)

end
