(* ===== verification/Alu.thy ===== *)
theory Alu
  imports Cpu "HOL-Library.Signed_Division"
begin

text \<open>
  The arithmetic helpers of \<open>Source/Interpreter/Core/Interpreter.cpp\<close> that set the flags, and
  the compiler intrinsics (\<open>__builtin_bswap\<close>, \<open>__builtin_clz\<close>) its handlers use.
\<close>

section \<open>Additions and subtractions that set the flags\<close>

definition width_mask :: "nat \<Rightarrow> u64" where
  "width_mask width = (if width = 64 then - 1 else push_bit width 1 - 1)"

definition set_add_flags :: "u64 \<Rightarrow> u64 \<Rightarrow> u64 \<Rightarrow> nat \<Rightarrow> bool \<Rightarrow> CPU \<Rightarrow> CPU \<times> u64" where
  "set_add_flags a b carry_in width set_flags cpu =
     (let m = width_mask width; a_w = a AND m; b_w = b AND m;
          c = (a_w > m - b_w \<or> (a_w = m - b_w \<and> carry_in \<noteq> 0));
          sm = a_w + b_w + carry_in;
          res = sm AND m
      in (if set_flags then
            let n = bit res (width - 1); z = (res = 0);
                sa = bit a_w (width - 1); sb = bit b_w (width - 1); sr = bit res (width - 1);
                v = (sa = sb \<and> sa \<noteq> sr)
            in set_nzcv n z c v cpu
          else cpu, res))"

definition set_sub_flags :: "u64 \<Rightarrow> u64 \<Rightarrow> nat \<Rightarrow> bool \<Rightarrow> CPU \<Rightarrow> CPU \<times> u64" where
  "set_sub_flags a b width set_flags cpu =
     (let m = width_mask width; a_w = a AND m; b_w = b AND m;
          sm = a_w + (NOT b_w AND m) + 1;
          res = sm AND m
      in (if set_flags then
            let n = bit res (width - 1); z = (res = 0); c = (a_w \<ge> b_w);
                sa = bit a_w (width - 1); sb = bit b_w (width - 1); sr = bit res (width - 1);
                v = (sa \<noteq> sb \<and> sa \<noteq> sr)
            in set_nzcv n z c v cpu
          else cpu, res))"

section \<open>Loaded values, checksums\<close>

definition extend_loaded :: "u64 \<Rightarrow> u8 \<Rightarrow> nat \<Rightarrow> u64" where
  "extend_loaded v opc width_bytes =
     (if \<not> bit opc 1 then v
      else let v' = sign_extend v (width_bytes * 8)
           in if bit opc 0 then v' AND 0xFFFFFFFF else v')"

definition crc_step :: "u32 \<Rightarrow> u32 \<Rightarrow> u32" where
  "crc_step polynomial crc = drop_bit 1 crc XOR (if crc AND 1 \<noteq> 0 then polynomial else 0)"

definition make_crc_table :: "u32 \<Rightarrow> u32 list" where
  "make_crc_table polynomial = map (\<lambda>i. (crc_step polynomial ^^ 8) (of_nat i)) [0..<256]"

definition crc_byte :: "u32 list \<Rightarrow> u64 \<Rightarrow> u32 \<Rightarrow> u32" where
  "crc_byte table byte crc =
     table ! unat ((ucast crc XOR (byte AND 0xFF)) AND 0xFF) XOR drop_bit 8 crc"

text \<open>The loop \<open>for (int i = 0; i < n; i++) crc = table[(crc ^ ((data >> (i*8)) & 0xFF)) & 0xFF] ^ (crc >> 8)\<close>.\<close>

definition crc_bytes :: "u32 list \<Rightarrow> u64 \<Rightarrow> nat \<Rightarrow> u32 \<Rightarrow> u32" where
  "crc_bytes table data n crc = fold (\<lambda>i. crc_byte table (drop_bit (i * 8) data)) [0..<n] crc"

section \<open>Intrinsics\<close>

definition bswap32 :: "u32 \<Rightarrow> u32" where
  "bswap32 v = push_bit 24 (v AND 0xFF) OR push_bit 8 (v AND 0xFF00)
             OR (drop_bit 8 v AND 0xFF00) OR drop_bit 24 v"

definition bswap64 :: "u64 \<Rightarrow> u64" where
  "bswap64 v = push_bit 32 (ucast (bswap32 (ucast v))) OR ucast (bswap32 (ucast (drop_bit 32 v)))"

fun clz_from :: "nat \<Rightarrow> 'a::len word \<Rightarrow> nat" where
  "clz_from 0 v = 0"
| "clz_from (Suc i) v = (if bit v i then 0 else Suc (clz_from i v))"

definition builtin_clz :: "u32 \<Rightarrow> nat" where "builtin_clz v = clz_from 32 v"

definition builtin_clzll :: "u64 \<Rightarrow> nat" where "builtin_clzll v = clz_from 64 v"

text \<open>\<open>for (int i = 0; i < width; i++) if (v & (1ULL << i)) r |= 1ULL << (width - 1 - i)\<close>.\<close>

definition rbit_loop :: "nat \<Rightarrow> u64 \<Rightarrow> u64" where
  "rbit_loop width v =
     fold (\<lambda>i r. if bit v i then r OR push_bit (width - 1 - i) 1 else r) [0..<width] 0"

end
