(* ===== verification/InterpInt.thy ===== *)
theory InterpInt
  imports Alu
begin

text \<open>
  The integer handlers of \<open>Emulator::execute\<close> (\<open>Source/Interpreter/Core/Interpreter.cpp\<close>): one
  definition per group of case labels of the dispatch switch, on the decoded instruction and
  the CPU. A handler that can throw returns a sum: \<open>Inl\<close> the exception, \<open>Inr\<close> the new CPU.
\<close>

section \<open>Exceptions\<close>

text \<open>
  The exceptions of \<open>Types.hpp\<close> an instruction can raise. \<open>UnmappedMemory\<close> carries the address
  and the flags \<open>write\<close>, \<open>protection\<close> and \<open>uffd\<close>. \<open>CxxUndefined\<close> is not an exception: it marks the
  one evaluation in these handlers whose value C++ leaves undefined.
\<close>

datatype fault =
    DecodeError u64 u32
  | UnmappedMemory u64 bool bool bool
  | EmuError
  | CxxUndefined

definition fault_signo :: "bool \<Rightarrow> int" where
  "fault_signo uffd = (if uffd then 7 else 11)"

definition fault_segv_code :: "bool \<Rightarrow> bool \<Rightarrow> int" where
  "fault_segv_code uffd protection = (if uffd \<or> protection then 2 else 1)"

section \<open>Reading operands\<close>

text \<open>\<open>if (!d.sf) v &= 0xFFFFFFFF\<close>.\<close>

definition mask_sf :: "bool \<Rightarrow> u64 \<Rightarrow> u64" where
  "mask_sf sf v = (if \<not> sf then v AND 0xFFFFFFFF else v)"

definition width_of :: "DecodedInst \<Rightarrow> nat" where
  "width_of d = (if d_sf d then 64 else 32)"

section \<open>Add and subtract with carry, address generation, wide moves\<close>

definition exec_adc :: "DecodedInst \<Rightarrow> CPU \<Rightarrow> CPU" where
  "exec_adc d cpu =
     (let width = width_of d;
          a = mask_sf (d_sf d) (regs cpu (d_rn d)); b = mask_sf (d_sf d) (regs cpu (d_rm d));
          carry_in = (if flag_c cpu then 1 else 0);
          is_sub = (d_cls d = DpReg IC_SBC_REG \<or> d_cls d = DpReg IC_SBCS_REG);
          (cpu', res) =
            (if is_sub then
               let not_b = NOT b AND (if width = 64 then - 1 else 0xFFFFFFFF)
               in set_add_flags a not_b carry_in width (d_set_flags d) cpu
             else set_add_flags a b carry_in width (d_set_flags d) cpu)
      in wreg (d_rd d) res cpu')"

definition exec_adr :: "DecodedInst \<Rightarrow> CPU \<Rightarrow> CPU" where
  "exec_adr d cpu =
     (let adrp = (d_cls d = DpImm IC_ADRP);
          immlo = fld 29 3 (d_raw d) :: u32; immhi = fld 5 0x7FFFF (d_raw d) :: u32;
          imm = ucast (push_bit 2 immhi OR immlo)
      in if adrp then
           wreg (d_rd d) ((pc cpu AND NOT 0xFFF) + push_bit 12 (sign_extend imm 21)) cpu
         else wreg (d_rd d) (pc cpu + sign_extend imm 21) cpu)"

definition exec_mov_wide :: "DecodedInst \<Rightarrow> CPU \<Rightarrow> CPU" where
  "exec_mov_wide d cpu =
     (let hw = fld 21 3 (d_raw d) :: u8; imm16 = fld 5 0xFFFF (d_raw d) :: u16;
          shift = unat hw * 16; imm = push_bit shift (ucast imm16) :: u64
      in if d_cls d = DpImm IC_MOVN then wreg (d_rd d) (mask_sf (d_sf d) (NOT imm)) cpu
         else if d_cls d = DpImm IC_MOVZ then wreg (d_rd d) (mask_sf (d_sf d) imm) cpu
         else
           let m = (if width_of d = 64 then push_bit shift 0xFFFF
                    else push_bit shift 0xFFFF AND 0xFFFFFFFF);
               cur = mask_sf (d_sf d) (regs cpu (d_rd d));
               v = (cur AND NOT m) OR imm
           in wreg (d_rd d) (mask_sf (d_sf d) v) cpu)"

definition exec_addsub_imm :: "DecodedInst \<Rightarrow> CPU \<Rightarrow> CPU" where
  "exec_addsub_imm d cpu =
     (let sh = bit (d_raw d) 22; imm12 = fld 10 0xFFF (d_raw d) :: u16;
          width = width_of d; set_flags = d_set_flags d;
          a0 = (if d_rn d = 31 \<and> \<not> set_flags then sp cpu else regs cpu (d_rn d));
          a = (if \<not> d_sf d \<and> \<not> (d_rn d = 31 \<and> \<not> set_flags) then a0 AND 0xFFFFFFFF else a0);
          b = push_bit (if sh then 12 else 0) (ucast imm12);
          (cpu', res0) = (if d_is_sub d then set_sub_flags a b width set_flags cpu
                          else set_add_flags a b 0 width set_flags cpu);
          res = mask_sf (d_sf d) res0
      in if d_rd d = 31 then (if \<not> set_flags then cpu'\<lparr>sp := res\<rparr> else cpu')
         else cpu'\<lparr>regs := (regs cpu')(d_rd d := res)\<rparr>)"

section \<open>Bitfield moves and extraction\<close>

text \<open>The branch \<open>imms >= immr\<close>: extract the field; BFXIL keeps the rest of the destination.\<close>

definition bitfield_extract :: "u8 \<Rightarrow> nat \<Rightarrow> nat \<Rightarrow> nat \<Rightarrow> u64 \<Rightarrow> u64 \<Rightarrow> u64" where
  "bitfield_extract opc immr imms datasize src cur =
     (let len = imms - immr + 1;
          m = (if len = 64 then - 1 else push_bit len 1 - 1);
          extracted = drop_bit immr src AND m
      in if opc = 0 then
           (if extracted AND push_bit (len - 1) 1 \<noteq> 0
            then extracted OR (NOT m AND (if datasize = 64 then - 1 else push_bit datasize 1 - 1))
            else extracted)
         else if opc = 2 then extracted
         else (cur AND NOT m) OR (extracted AND m))"

text \<open>The branch \<open>imms < immr\<close>: place the low \<open>imms + 1\<close> bits at \<open>datasize - immr\<close>.\<close>

definition bitfield_insert :: "u8 \<Rightarrow> nat \<Rightarrow> nat \<Rightarrow> nat \<Rightarrow> u64 \<Rightarrow> u64 \<Rightarrow> u64" where
  "bitfield_insert opc immr imms datasize src cur =
     (let width = imms + 1; lsb = datasize - immr;
          field0 = src AND (if width \<ge> 64 then - 1 else push_bit width 1 - 1);
          field = (if opc = 0 \<and> width < 64 \<and> field0 AND push_bit (width - 1) 1 \<noteq> 0 then
                     let high0 = NOT (push_bit width 1 - 1);
                         high_bits = (if datasize = 32 then high0 AND 0xFFFFFFFF else high0)
                     in field0 OR high_bits
                   else field0);
          result0 = (if lsb \<ge> 64 then 0 else push_bit lsb field);
          result = (if datasize = 32 then result0 AND 0xFFFFFFFF else result0)
      in if opc = 0 \<or> opc = 2 then result
         else
           let m0 = (if width \<ge> 64 then - 1 else push_bit width 1 - 1);
               m1 = (if lsb \<ge> 64 then 0 else push_bit lsb m0);
               m = (if datasize = 32 then m1 AND 0xFFFFFFFF else m1)
           in (cur AND NOT m) OR (result AND m))"

definition exec_bitfield :: "DecodedInst \<Rightarrow> u32 \<Rightarrow> CPU \<Rightarrow> fault + CPU" where
  "exec_bitfield d inst cpu =
     (let opc = fld 29 3 (d_raw d) :: u8;
          immr = fld 16 0x3F (d_raw d) :: u8; imms = fld 10 0x3F (d_raw d) :: u8;
          datasize = width_of d
      in if \<not> d_sf d \<and> (immr AND 0x20 \<noteq> 0 \<or> imms AND 0x20 \<noteq> 0)
         then Inl (DecodeError (pc cpu) inst)
         else
           let src = mask_sf (d_sf d) (regs cpu (d_rn d));
               cur = mask_sf (d_sf d) (regs cpu (d_rd d));
               v = (if imms \<ge> immr
                    then bitfield_extract opc (unat immr) (unat imms) datasize src cur
                    else bitfield_insert opc (unat immr) (unat imms) datasize src cur)
           in Inr (wreg (d_rd d) (mask_sf (d_sf d) v) cpu))"

definition exec_extr :: "DecodedInst \<Rightarrow> CPU \<Rightarrow> CPU" where
  "exec_extr d cpu =
     (let immr = fld 10 0x3F (d_raw d) :: u8; width = width_of d;
          rn = mask_sf (d_sf d) (regs cpu (d_rn d)); rm = mask_sf (d_sf d) (regs cpu (d_rm d));
          combined = push_bit width (ucast rn) OR ucast rm :: u128;
          shifted = drop_bit (unat immr) combined;
          v = ucast shifted AND (if width = 64 then - 1 else 0xFFFFFFFF)
      in wreg (d_rd d) (mask_sf (d_sf d) v) cpu)"

section \<open>Logical operations\<close>

definition exec_logical_imm :: "DecodedInst \<Rightarrow> CPU \<Rightarrow> CPU" where
  "exec_logical_imm d cpu =
     (let opc = fld 29 3 (d_raw d) :: u8; width = width_of d;
          imm_val = d_imm_u d; a = mask_sf (d_sf d) (regs cpu (d_rn d));
          (res0, set_flags) =
            (if opc = 0 then (a AND imm_val, False) else if opc = 1 then (a OR imm_val, False)
             else if opc = 2 then (a XOR imm_val, False) else (a AND imm_val, True));
          res = mask_sf (d_sf d) res0;
          cpu' = (if d_rd d \<noteq> 31 then cpu\<lparr>regs := (regs cpu)(d_rd d := res)\<rparr>
                  else if d_writes_sp d then cpu\<lparr>sp := res\<rparr> else cpu)
      in if set_flags then set_nzcv (bit res (width - 1)) (res = 0) False False cpu' else cpu')"

text \<open>
  The switch on \<open>d.shift_type\<close> that the two shifted-register groups share. A 32-bit logical
  shift right shifts a \<open>uint32_t\<close> by \<open>d.shift\<close>, which C++ does not define from 32 on.
\<close>

definition shift_operand :: "bool \<Rightarrow> u8 \<Rightarrow> u8 \<Rightarrow> u64 \<Rightarrow> u64 option" where
  "shift_operand sf shift_type shift b =
     (let k = unat shift in
      if shift_type = 0 then Some (push_bit k b)
      else if shift_type = 1 then
        (if sf then Some (drop_bit k b)
         else if k < 32 then Some (ucast (drop_bit k (ucast b :: u32))) else None)
      else if shift_type = 2 then
        Some (if sf then signed_drop_bit k b
              else signed_drop_bit k (scast (ucast b :: u32)))
      else if shift_type = 3 then
        Some (if sf then ror64 b (ucast shift) else ucast (ror32 (ucast b) (ucast shift)))
      else Some b)"

definition exec_addsub_reg :: "DecodedInst \<Rightarrow> CPU \<Rightarrow> fault + CPU" where
  "exec_addsub_reg d cpu =
     (let extended = (d_raw d AND 0x1FE00000 = 0x0B200000); width = width_of d;
          a0 = (if extended \<and> d_rn d = 31 then sp cpu else regs cpu (d_rn d));
          b0 = (if extended
                then Some (extend_reg (regs cpu (d_rm d)) (d_extend d) (d_shift d) (d_sf d))
                else shift_operand (d_sf d) (d_shift_type d) (d_shift d)
                       (mask_sf (d_sf d) (regs cpu (d_rm d))))
      in case b0 of None \<Rightarrow> Inl CxxUndefined
         | Some b1 \<Rightarrow>
             let a = mask_sf (d_sf d) a0; b = mask_sf (d_sf d) b1;
                 (cpu', res0) = (if d_is_sub d then set_sub_flags a b width (d_set_flags d) cpu
                                 else set_add_flags a b 0 width (d_set_flags d) cpu);
                 res = mask_sf (d_sf d) res0
             in Inr (if d_rd d = 31
                     then (if extended \<and> \<not> d_set_flags d then cpu'\<lparr>sp := res\<rparr> else cpu')
                     else cpu'\<lparr>regs := (regs cpu')(d_rd d := res)\<rparr>))"

definition exec_logical_reg :: "DecodedInst \<Rightarrow> CPU \<Rightarrow> fault + CPU" where
  "exec_logical_reg d cpu =
     (let width = width_of d; a = mask_sf (d_sf d) (regs cpu (d_rn d)) in
      case shift_operand (d_sf d) (d_shift_type d) (d_shift d)
             (mask_sf (d_sf d) (regs cpu (d_rm d))) of
        None \<Rightarrow> Inl CxxUndefined
      | Some b0 \<Rightarrow>
          let b1 = mask_sf (d_sf d) b0; opc = fld 29 3 (d_raw d) :: u8;
              b = (if bit (d_raw d) 21 then NOT b1 else b1);
              (res0, set_flags) =
                (if opc = 0 then (a AND b, False) else if opc = 1 then (a OR b, False)
                 else if opc = 2 then (a XOR b, False) else (a AND b, True));
              res = mask_sf (d_sf d) res0;
              cpu' = wreg (d_rd d) res cpu
          in Inr (if set_flags then set_nzcv (bit res (width - 1)) (res = 0) False False cpu'
                  else cpu'))"

section \<open>Conditional select and compare\<close>

definition exec_csel :: "DecodedInst \<Rightarrow> CPU \<Rightarrow> CPU" where
  "exec_csel d cpu =
     (let a = mask_sf (d_sf d) (regs cpu (d_rn d)); b = mask_sf (d_sf d) (regs cpu (d_rm d));
          res = (if cond_true (ucast (d_cond d)) (pstate cpu) then a
                 else if d_cls d = DpReg IC_CSEL then b
                 else if d_cls d = DpReg IC_CSINC then b + 1
                 else if d_cls d = DpReg IC_CSINV then NOT b
                 else - b)
      in wreg (d_rd d) (mask_sf (d_sf d) res) cpu)"

definition exec_ccmp :: "DecodedInst \<Rightarrow> CPU \<Rightarrow> CPU" where
  "exec_ccmp d cpu =
     (let width = width_of d; a = mask_sf (d_sf d) (regs cpu (d_rn d));
          operand = (if d_is_register d then mask_sf (d_sf d) (regs cpu (d_rm d))
                     else fld 16 0x1F (d_raw d))
      in if cond_true (ucast (d_cond d)) (pstate cpu) then
           (if d_cls d = DpReg IC_CCMP then fst (set_sub_flags a operand width True cpu)
            else fst (set_add_flags a operand 0 width True cpu))
         else set_nzcv (bit (d_nzcv_field d) 3) (bit (d_nzcv_field d) 2)
                (bit (d_nzcv_field d) 1) (bit (d_nzcv_field d) 0) cpu)"

section \<open>One and two source operands, checksums, multiplication\<close>

definition dp1_value :: "InstClass \<Rightarrow> bool \<Rightarrow> u64 \<Rightarrow> u64" where
  "dp1_value cls sf v =
     (let width = if sf then 64 else 32 in
      if cls = DpReg IC_RBIT then rbit_loop width v
      else if cls = DpReg IC_REV16 then
        (if sf then drop_bit 8 (v AND 0xFF00FF00FF00FF00) OR push_bit 8 (v AND 0x00FF00FF00FF00FF)
         else drop_bit 8 (v AND 0xFF00FF00) OR push_bit 8 (v AND 0x00FF00FF))
      else if cls = DpReg IC_REV32 then
        (if sf then push_bit 32 (ucast (bswap32 (ucast (drop_bit 32 v))))
                    OR ucast (bswap32 (ucast v))
         else ucast (bswap32 (ucast v)))
      else if cls = DpReg IC_REV then (if sf then bswap64 v else ucast (bswap32 (ucast v)))
      else if cls = DpReg IC_CLZ then
        (if v = 0 then of_nat width
         else if sf then of_nat (builtin_clzll v) else of_nat (builtin_clz (ucast v)))
      else if cls = DpReg IC_CLS then
        (if sf then
           (if v = 0 \<or> v = - 1 then 63
            else if drop_bit 63 v \<noteq> 0 then of_nat (builtin_clzll (NOT v)) - 1
            else of_nat (builtin_clzll v) - 1)
         else
           (if v = 0 \<or> v = 0xFFFFFFFF then 31
            else if drop_bit 31 v \<noteq> 0 then of_nat (builtin_clz (ucast (NOT v))) - 1
            else of_nat (builtin_clz (ucast v)) - 1))
      else v)"

definition exec_dp1 :: "DecodedInst \<Rightarrow> CPU \<Rightarrow> CPU" where
  "exec_dp1 d cpu =
     (let v = mask_sf (d_sf d) (regs cpu (d_rn d))
      in wreg (d_rd d) (mask_sf (d_sf d) (dp1_value (d_cls d) (d_sf d) v)) cpu)"

definition dp2_value :: "InstClass \<Rightarrow> bool \<Rightarrow> u64 \<Rightarrow> u64 \<Rightarrow> u64" where
  "dp2_value cls sf a b =
     (let a32 = ucast a :: u32; b32 = ucast b :: u32 in
      if cls = DpReg IC_UDIV then
        (if b \<noteq> 0 then (if sf then a div b else ucast (a32 div b32)) else 0)
      else if cls = DpReg IC_SDIV then
        (if b \<noteq> 0 then
           (if sf then
              (if sint b = - 1 \<and> sint a = - (2 ^ 63) then word_of_int (- (2 ^ 63))
               else word_of_int (sint a sdiv sint b))
            else
              (if sint b32 = - 1 \<and> sint a32 = - (2 ^ 31) then ucast (word_of_int (- (2 ^ 31)) :: u32)
               else ucast (word_of_int (sint a32 sdiv sint b32) :: u32)))
         else 0)
      else if cls = DpReg IC_LSL then
        (if sf then push_bit (unat (b AND 63)) a else ucast (push_bit (unat (b AND 31)) a32))
      else if cls = DpReg IC_LSR then
        (if sf then drop_bit (unat (b AND 63)) a else ucast (drop_bit (unat (b AND 31)) a32))
      else if cls = DpReg IC_ASR then
        (if sf then signed_drop_bit (unat (b AND 63)) a
         else scast (signed_drop_bit (unat (b AND 31)) a32))
      else if cls = DpReg IC_ROR then
        (if sf then ror64 a (ucast (b AND 63)) else ucast (ror32 a32 (ucast b)))
      else 0)"

definition exec_dp2 :: "DecodedInst \<Rightarrow> CPU \<Rightarrow> CPU" where
  "exec_dp2 d cpu =
     (let a = mask_sf (d_sf d) (regs cpu (d_rn d)); b = mask_sf (d_sf d) (regs cpu (d_rm d))
      in wreg (d_rd d) (mask_sf (d_sf d) (dp2_value (d_cls d) (d_sf d) a b)) cpu)"

definition exec_crc32 :: "DecodedInst \<Rightarrow> CPU \<Rightarrow> CPU" where
  "exec_crc32 d cpu =
     (let crc = ucast (regs cpu (d_rn d)) :: u32; data = regs cpu (d_rm d);
          table = (if d_is_sub d then make_crc_table 0x82f63b78 else make_crc_table 0xedb88320);
          sz = d_imm d;
          crc' = (if sz = 0 then crc_byte table data crc
                  else if sz = 1 then crc_byte table (drop_bit 8 data) (crc_byte table data crc)
                  else if sz = 2 then crc_bytes table data 4 crc
                  else crc_bytes table data 8 crc)
      in wreg (d_rd d) (ucast crc') cpu)"

definition dp3_value :: "InstClass \<Rightarrow> bool \<Rightarrow> u64 \<Rightarrow> u64 \<Rightarrow> u64 \<Rightarrow> u64" where
  "dp3_value cls sf a b c =
     (let a32 = ucast a :: u32; b32 = ucast b :: u32;
          mul = (if sf then a * b else ucast (a32 * b32));
          smull = scast a32 * scast b32; umull = ucast a32 * ucast b32
      in if cls = DpReg IC_MADD then c + mul
         else if cls = DpReg IC_MSUB then c - mul
         else if cls = DpReg IC_SMADDL then c + smull
         else if cls = DpReg IC_SMSUBL then c - smull
         else if cls = DpReg IC_UMADDL then c + umull
         else if cls = DpReg IC_UMSUBL then c - umull
         else if cls = DpReg IC_UMULH then ucast (drop_bit 64 (ucast a * ucast b :: u128))
         else if cls = DpReg IC_SMULH then ucast (drop_bit 64 (scast a * scast b :: u128))
         else 0)"

definition exec_dp3 :: "DecodedInst \<Rightarrow> CPU \<Rightarrow> CPU" where
  "exec_dp3 d cpu =
     (let a = mask_sf (d_sf d) (regs cpu (d_rn d)); b = mask_sf (d_sf d) (regs cpu (d_rm d));
          c = mask_sf (d_sf d) (regs cpu (d_ra d))
      in wreg (d_rd d) (mask_sf (d_sf d) (dp3_value (d_cls d) (d_sf d) a b c)) cpu)"

lemmas exec_int_defs [exec_simps] =
  exec_adc_def exec_adr_def exec_mov_wide_def exec_addsub_imm_def exec_bitfield_def
  exec_extr_def exec_logical_imm_def exec_addsub_reg_def exec_logical_reg_def exec_csel_def
  exec_ccmp_def exec_dp1_def exec_dp2_def exec_crc32_def exec_dp3_def

end
