(* ===== verification/Mem.thy ===== *)
theory Mem
  imports Vma InterpInt
begin

text \<open>
  Guest memory (\<open>Source/System/Memory/Memory.hpp\<close> and \<open>Memory.cpp\<close>): the bytes of the
  reservation, the mapping index \<open>vmas_\<close>, the per-page flag mirror that the access check and
  the JIT read without a lock, and the count of pages that need software checks. The host's
  own page protection is what \<open>mprotect\<close> was last asked for (\<open>host_prot\<close>, one entry per page). A
  critical section under \<open>mu_\<close> is one step.
\<close>

section \<open>State\<close>

text \<open>
  Of the file behind a page: whether the mapping is shared and the descriptor writable, and what the
  file holds at each offset of the page, which is where a private page falls back to.
\<close>

record FilePage =
  fp_shared :: bool
  fp_writable :: bool
  fp_contents :: "u64 \<Rightarrow> u8"

record Memory =
  data_top_byte_ignore :: bool
  window_size :: u64
  page_flags :: "u64 \<Rightarrow> u8"
  host_prot :: "u64 \<Rightarrow> u8"
  vmas :: vma_index
  file_pages :: "u64 \<Rightarrow> FilePage option"
  guard_pages :: "u64 set"
  mem_bytes :: "u64 \<Rightarrow> u8"
  uffd_tracking :: bool
  software_check_pages :: u64
  software_check_activations :: u64
  software_checks_sticky :: bool
  jit_software_checks :: bool
  mmap_next :: u64
  high_next :: u64
  stack_top :: u64

abbreviation (input) GUEST_PROT_READ :: u8 where "GUEST_PROT_READ \<equiv> 1"
abbreviation (input) GUEST_PROT_WRITE :: u8 where "GUEST_PROT_WRITE \<equiv> 2"
abbreviation (input) GUEST_PROT_EXEC :: u8 where "GUEST_PROT_EXEC \<equiv> 4"
abbreviation (input) PAGE_MAPPED :: u8 where "PAGE_MAPPED \<equiv> 0x80"
abbreviation (input) UFFD_MISSING :: u8 where "UFFD_MISSING \<equiv> 0x10"
abbreviation (input) UFFD_REGISTERED :: u8 where "UFFD_REGISTERED \<equiv> 0x20"
abbreviation (input) UFFD_BITS :: u8 where "UFFD_BITS \<equiv> 0x30"
abbreviation (input) PAGE_SIZE :: u64 where "PAGE_SIZE \<equiv> 4096"
abbreviation (input) PAGE_MASK :: u64 where "PAGE_MASK \<equiv> 4095"
abbreviation (input) LOW_REGION_SIZE :: u64 where "LOW_REGION_SIZE \<equiv> 0x100000000"
abbreviation (input) STACK_SIZE :: u64 where "STACK_SIZE \<equiv> 0x4000000"

text \<open>
  The memory as the constructor leaves it: a reservation of \<open>sz\<close> bytes with nothing mapped, the
  low cursor and the stack top moved by the two random offsets.
\<close>

definition Memory_init :: "u64 \<Rightarrow> u64 \<Rightarrow> u64 \<Rightarrow> Memory" where
  "Memory_init sz mmap_offset stack_offset = \<lparr>
     data_top_byte_ignore = False, window_size = sz, page_flags = (\<lambda>_. 0), host_prot = (\<lambda>_. 0),
     vmas = [], file_pages = (\<lambda>_. None), guard_pages = {},
     mem_bytes = (\<lambda>_. 0), uffd_tracking = False, software_check_pages = 0,
     software_check_activations = 0, software_checks_sticky = False, jit_software_checks = False,
     mmap_next = 0x10000000 + mmap_offset, high_next = LOW_REGION_SIZE,
     stack_top = 0x3F000000 - stack_offset\<rparr>"

section \<open>Addresses, pages, flags\<close>

definition data_address :: "Memory \<Rightarrow> u64 \<Rightarrow> u64" where
  "data_address m addr =
     (if data_top_byte_ignore m then addr AND 0x00FFFFFFFFFFFFFF else addr)"

definition is_valid_guest_range :: "Memory \<Rightarrow> u64 \<Rightarrow> u64 \<Rightarrow> bool" where
  "is_valid_guest_range m addr sz =
     (if sz = 0 then True
      else if addr < PAGE_SIZE then False
      else if addr \<ge> window_size m \<or> sz > window_size m - addr then False
      else True)"

definition effective_page_prot :: "u8 \<Rightarrow> u8" where
  "effective_page_prot prot =
     (if prot AND (GUEST_PROT_WRITE OR GUEST_PROT_EXEC) \<noteq> 0 then prot OR GUEST_PROT_READ else prot)"

definition software_check_page :: "u8 \<Rightarrow> bool" where
  "software_check_page flags \<longleftrightarrow> flags AND PAGE_MAPPED \<noteq> 0 \<and> flags AND UFFD_BITS = UFFD_BITS"

text \<open>The loop \<open>for (p = lo / PAGE_SIZE; p < hi / PAGE_SIZE; ++p)\<close>, as the list of its pages.\<close>

definition pages :: "u64 \<Rightarrow> u64 \<Rightarrow> u64 list" where
  "pages lo hi = map of_nat [unat (lo div PAGE_SIZE)..<unat (hi div PAGE_SIZE)]"

definition set_direct_prot :: "u64 \<Rightarrow> u64 \<Rightarrow> u8 \<Rightarrow> Memory \<Rightarrow> Memory" where
  "set_direct_prot lo hi prot m =
     (if lo \<ge> hi \<or> lo \<ge> window_size m then m
      else
        let hi' = min hi (window_size m);
            host = (if prot AND (GUEST_PROT_READ OR GUEST_PROT_EXEC) \<noteq> 0 then 1 else 0)
                   OR (if prot AND GUEST_PROT_WRITE \<noteq> 0 then 2 else 0)
        in m\<lparr>host_prot := (\<lambda>p. if lo div PAGE_SIZE \<le> p \<and> p < hi' div PAGE_SIZE then host
                                else host_prot m p)\<rparr>)"

definition set_software_checks :: "bool \<Rightarrow> Memory \<Rightarrow> Memory" where
  "set_software_checks on m = m\<lparr>jit_software_checks := on\<rparr>"

definition set_page_flags :: "u64 \<Rightarrow> u8 \<Rightarrow> Memory \<Rightarrow> Memory" where
  "set_page_flags page flags m =
     (let was = software_check_page (page_flags m page);
          now = software_check_page flags;
          m1 = (if now \<and> \<not> was then
                  let n = software_check_pages m; m0 = m\<lparr>software_check_pages := n + 1\<rparr> in
                  if n = 0 then
                    (set_software_checks True m0)\<lparr>software_check_activations
                       := software_check_activations m0 + 1\<rparr>
                  else m0
                else m);
          m2 = m1\<lparr>page_flags := (page_flags m1)(page := flags)\<rparr>
      in if was \<and> \<not> now then
           let n = software_check_pages m2; m3 = m2\<lparr>software_check_pages := n - 1\<rparr> in
           if n = 1 \<and> \<not> software_checks_sticky m3 then set_software_checks False m3 else m3
         else m2)"

section \<open>Mapping and unmapping\<close>

definition flags_for :: "bool \<Rightarrow> u8 \<Rightarrow> u8 \<Rightarrow> u8" where
  "flags_for keep_uffd old page_prot =
     (let uffd = (if keep_uffd then old AND UFFD_BITS else 0);
          eff = effective_page_prot page_prot
      in if eff \<noteq> 0 then PAGE_MAPPED OR uffd OR eff else uffd)"

definition flag_page :: "bool \<Rightarrow> u8 \<Rightarrow> u64 \<Rightarrow> Memory \<Rightarrow> Memory" where
  "flag_page keep_uffd prot p m =
     set_page_flags p (flags_for keep_uffd (page_flags m p) prot) m"

text \<open>The ranges of a PROT_NONE mapping that had access: \<open>[max lo first, min hi end)\<close>.\<close>

definition overlaps_in :: "u64 \<Rightarrow> u64 \<Rightarrow> vma_index \<Rightarrow> (u64 \<times> u64 \<times> u8) list" where
  "overlaps_in lo hi xs =
     map (\<lambda>(k, v). (max lo k, min hi (v_end v), v_prot v))
       (filter (\<lambda>(k, v). \<not> v_end v \<le> lo)
         (takeWhile (\<lambda>e. fst e < hi) (step_back (before_ub lo xs) (from_ub lo xs))))"

definition set_mapping_none :: "u64 \<Rightarrow> u64 \<Rightarrow> bool \<Rightarrow> Memory \<Rightarrow> Memory" where
  "set_mapping_none lo hi keep_uffd m =
     fold (\<lambda>(a, b, prot) m. if prot = 0 then m
             else fold (flag_page keep_uffd 0) (pages a b) m)
       (overlaps_in lo hi (vmas m)) m"

text \<open>
  The page loop of the combining form. Its state is the start and the permissions of the run
  of equal permissions being collected.
\<close>

definition combine_page ::
    "u64 \<Rightarrow> u8 \<Rightarrow> bool \<Rightarrow> u64 \<Rightarrow> u64 \<times> u8 \<times> Memory \<Rightarrow> u64 \<times> u8 \<times> Memory" where
  "combine_page lo prot keep_uffd p s =
     (let (run_start, run_prot, m) = s;
          page_addr = p * PAGE_SIZE;
          old_prot = (case mapping_prot_at (vmas m) page_addr of None \<Rightarrow> 0 | Some q \<Rightarrow> q);
          nxt = old_prot OR prot;
          m' = flag_page keep_uffd nxt p m
      in if page_addr = lo then (run_start, nxt, m')
         else if nxt \<noteq> run_prot then
           (page_addr, nxt, set_direct_prot run_start page_addr run_prot m')
         else (run_start, run_prot, m'))"

definition set_mapping :: "u64 \<Rightarrow> u64 \<Rightarrow> u8 \<Rightarrow> bool \<Rightarrow> bool \<Rightarrow> Memory \<Rightarrow> Memory" where
  "set_mapping lo hi prot combine keep_uffd m =
     (if lo \<ge> hi then m
      else if \<not> combine then
        let m1 = set_direct_prot lo hi prot m;
            m2 = (if prot \<noteq> 0 then fold (flag_page keep_uffd prot) (pages lo hi) m1
                  else set_mapping_none lo hi keep_uffd m1)
        in m2\<lparr>vmas := vma_set lo hi prot (vmas m2)\<rparr>
      else
        let (run_start, run_prot, m1) =
              fold (combine_page lo prot keep_uffd) (pages lo hi) (lo, 0, m);
            m2 = set_direct_prot run_start hi run_prot m1
        in m2\<lparr>vmas := vma_or lo hi prot (vmas m2)\<rparr>)"

text \<open>
  \<open>madvise(MADV_DONTNEED)\<close> on whole pages: an anonymous page reads zero afterwards, a private file
  page what the file holds, and a shared page what it did.
\<close>

definition refault :: "Memory \<Rightarrow> u64 \<Rightarrow> u8" where
  "refault m a =
     (case file_pages m (a div PAGE_SIZE) of
        None \<Rightarrow> 0
      | Some f \<Rightarrow> if fp_shared f then mem_bytes m a else fp_contents f (a mod PAGE_SIZE))"

definition discard_host :: "u64 \<Rightarrow> u64 \<Rightarrow> Memory \<Rightarrow> Memory" where
  "discard_host lo hi m = m\<lparr>mem_bytes := (\<lambda>a. if lo \<le> a \<and> a < hi then refault m a else mem_bytes m a)\<rparr>"

definition clear_overlap :: "bool \<Rightarrow> u64 \<times> u64 \<times> u8 \<Rightarrow> Memory \<Rightarrow> Memory" where
  "clear_overlap track ov m =
     (let (a, b, prot) = ov;
          m1 = (if prot \<noteq> 0 \<or> track then fold (\<lambda>p. set_page_flags p 0) (pages a b) m else m);
          m2 = set_direct_prot a b 0 m1;
          release = max a LOW_REGION_SIZE
      in if release < b then discard_host release b m2 else m2)"

definition clear_mapping :: "u64 \<Rightarrow> u64 \<Rightarrow> Memory \<Rightarrow> Memory" where
  "clear_mapping lo hi0 m =
     (let hi = min hi0 (window_size m) in
      if lo \<ge> hi then m
      else
        let m1 = fold (clear_overlap (uffd_tracking m)) (overlaps_in lo hi (vmas m)) m
        in m1\<lparr>vmas := erase_vma lo hi (vmas m1),
              guard_pages := {g \<in> guard_pages m1. \<not> (g * PAGE_SIZE \<ge> lo \<and> g * PAGE_SIZE < hi)}\<rparr>)"

section \<open>The access check\<close>

text \<open>
  A check that throws on a later page has already marked earlier ones as present, so a failed
  access returns the memory as well: every access is a state together with its result.
\<close>

definition check_page :: "u64 \<Rightarrow> u8 \<Rightarrow> u64 \<Rightarrow> Memory \<Rightarrow> fault option \<times> Memory" where
  "check_page addr access p m =
     (let write = (access AND GUEST_PROT_WRITE \<noteq> 0);
          at = max addr (p * PAGE_SIZE); flags = page_flags m p in
      if flags AND PAGE_MAPPED = 0 then
        let mapped = (mapping_prot_at (vmas m) at \<noteq> None) in
        if mapped \<and> access = 0 then (None, m)
        else (Some (UnmappedMemory at write mapped False), m)
      else if access \<noteq> 0 \<and> flags AND access \<noteq> access then
        (Some (UnmappedMemory at write True False), m)
      else if flags AND UFFD_MISSING \<noteq> 0 then
        (if flags AND UFFD_REGISTERED \<noteq> 0 then (Some (UnmappedMemory at write False True), m)
         else (None, m\<lparr>page_flags := (page_flags m)(p := flags AND NOT UFFD_MISSING)\<rparr>))
      else (None, m))"

fun check_pages :: "u64 \<Rightarrow> u8 \<Rightarrow> u64 list \<Rightarrow> Memory \<Rightarrow> fault option \<times> Memory" where
  "check_pages addr access [] m = (None, m)"
| "check_pages addr access (p # ps) m =
     (case check_page addr access p m of
        (Some e, m') \<Rightarrow> (Some e, m')
      | (None, m') \<Rightarrow> check_pages addr access ps m')"

definition check_access :: "u64 \<Rightarrow> u64 \<Rightarrow> u8 \<Rightarrow> Memory \<Rightarrow> fault option \<times> Memory" where
  "check_access addr0 sz access m =
     (let addr = (if access AND GUEST_PROT_EXEC = 0 then data_address m addr0 else addr0) in
      if sz = 0 then (None, m)
      else
        let end_addr = addr + sz in
        if unat addr + unat sz \<ge> 2 ^ 64 \<or> end_addr > window_size m then
          (Some (UnmappedMemory (if addr < window_size m then window_size m else addr)
                   (access AND GUEST_PROT_WRITE \<noteq> 0) False False), m)
        else check_pages addr access (pages addr (end_addr + PAGE_MASK)) m)"

definition range_accessible :: "u64 \<Rightarrow> u64 \<Rightarrow> u8 \<Rightarrow> Memory \<Rightarrow> bool \<times> Memory" where
  "range_accessible addr sz access m =
     (case check_access addr sz access m of
        (Some _, m') \<Rightarrow> (False, m') | (None, m') \<Rightarrow> (True, m'))"

section \<open>Reading and writing\<close>

definition load_bytes :: "Memory \<Rightarrow> u64 \<Rightarrow> nat \<Rightarrow> u8 list" where
  "load_bytes m addr n = map (\<lambda>i. mem_bytes m (addr + of_nat i)) [0..<n]"

text \<open>Host integers are little endian.\<close>

fun le_word :: "u8 list \<Rightarrow> u64" where
  "le_word [] = 0"
| "le_word (b # bs) = ucast b OR push_bit 8 (le_word bs)"

definition le_bytes :: "nat \<Rightarrow> u64 \<Rightarrow> u8 list" where
  "le_bytes n v = map (\<lambda>i. ucast (drop_bit (8 * i) v)) [0..<n]"

fun put_bytes :: "u64 \<Rightarrow> u8 list \<Rightarrow> (u64 \<Rightarrow> u8) \<Rightarrow> (u64 \<Rightarrow> u8)" where
  "put_bytes addr [] f = f"
| "put_bytes addr (b # bs) f = put_bytes (addr + 1) bs (f(addr := b))"

definition store_bytes :: "u64 \<Rightarrow> u8 list \<Rightarrow> Memory \<Rightarrow> Memory" where
  "store_bytes addr bs m = m\<lparr>mem_bytes := put_bytes addr bs (mem_bytes m)\<rparr>"

definition read_access :: "u64 \<Rightarrow> nat \<Rightarrow> u8 \<Rightarrow> Memory \<Rightarrow> (fault + u64) \<times> Memory" where
  "read_access addr0 n access m =
     (let addr = (if access AND GUEST_PROT_EXEC = 0 then data_address m addr0 else addr0) in
      if n = 0 then (Inr 0, m)
      else case check_access addr (of_nat n) access m of
             (Some e, m') \<Rightarrow> (Inl e, m')
           | (None, m') \<Rightarrow> (Inr (le_word (load_bytes m' addr n)), m'))"

definition mem_read :: "u64 \<Rightarrow> nat \<Rightarrow> Memory \<Rightarrow> (fault + u64) \<times> Memory" where
  "mem_read addr n m = read_access addr n GUEST_PROT_READ m"

text \<open>The 16-byte read of an exclusive pair: one check, two words.\<close>

definition mem_read_16 :: "u64 \<Rightarrow> Memory \<Rightarrow> (fault + u64 \<times> u64) \<times> Memory" where
  "mem_read_16 addr0 m =
     (let addr = data_address m addr0 in
      case check_access addr 16 GUEST_PROT_READ m of
        (Some e, m') \<Rightarrow> (Inl e, m')
      | (None, m') \<Rightarrow>
          (Inr (le_word (load_bytes m' addr 8), le_word (load_bytes m' (addr + 8) 8)), m'))"

definition fetch_inst :: "u64 \<Rightarrow> Memory \<Rightarrow> (fault + u32) \<times> Memory" where
  "fetch_inst addr m =
     (case read_access addr 4 GUEST_PROT_EXEC m of
        (Inl e, m') \<Rightarrow> (Inl e, m') | (Inr v, m') \<Rightarrow> (Inr (ucast v), m'))"

definition mem_write :: "u64 \<Rightarrow> u8 list \<Rightarrow> Memory \<Rightarrow> fault option \<times> Memory" where
  "mem_write addr0 src m =
     (let addr = data_address m addr0 in
      if length src = 0 then (None, m)
      else case check_access addr (of_nat (length src)) GUEST_PROT_WRITE m of
             (Some e, m') \<Rightarrow> (Some e, m')
           | (None, m') \<Rightarrow> (None, store_bytes addr src m'))"

text \<open>
  \<open>compare_exchange\<close>: whether the store happened, and the value observed. The width is checked
  after the access, as in the source.
\<close>

definition compare_exchange ::
    "u64 \<Rightarrow> u64 \<Rightarrow> u64 \<Rightarrow> nat \<Rightarrow> Memory \<Rightarrow> (fault + bool \<times> u64) \<times> Memory" where
  "compare_exchange addr0 expected desired width m =
     (let addr = data_address m addr0 in
      case check_access addr (of_nat width) (GUEST_PROT_READ OR GUEST_PROT_WRITE) m of
        (Some e, m') \<Rightarrow> (Inl e, m')
      | (None, m') \<Rightarrow>
          if width \<noteq> 1 \<and> width \<noteq> 2 \<and> width \<noteq> 4 \<and> width \<noteq> 8 then (Inl EmuError, m')
          else
            let old = le_word (load_bytes m' addr width) in
            if old = take_bit (8 * width) expected
            then (Inr (True, old), store_bytes addr (le_bytes width desired) m')
            else (Inr (False, old), m'))"

text \<open>
  \<open>compare_exchange_16\<close>: the host instruction and the locked fallback compare and store the
  same two words; a step of the model is atomic either way.
\<close>

definition compare_exchange_16 ::
    "u64 \<Rightarrow> u64 \<Rightarrow> u64 \<Rightarrow> u64 \<Rightarrow> u64 \<Rightarrow> Memory \<Rightarrow> (fault + bool \<times> u64 \<times> u64) \<times> Memory" where
  "compare_exchange_16 addr0 expected_lo expected_hi desired_lo desired_hi m =
     (let addr = data_address m addr0 in
      case check_access addr 16 (GUEST_PROT_READ OR GUEST_PROT_WRITE) m of
        (Some e, m') \<Rightarrow> (Inl e, m')
      | (None, m') \<Rightarrow>
          let lo = le_word (load_bytes m' addr 8); hi = le_word (load_bytes m' (addr + 8) 8) in
          if lo = expected_lo \<and> hi = expected_hi
          then (Inr (True, lo, hi), store_bytes (addr + 8) (le_bytes 8 desired_hi)
                                      (store_bytes addr (le_bytes 8 desired_lo) m'))
          else (Inr (False, lo, hi), m'))"

text \<open>\<open>atomic_cas_32\<close> and \<open>atomic_cas_64\<close> (\<open>cas_in_window\<close> with 4 and 8 bytes).\<close>

definition atomic_cas :: "nat \<Rightarrow> u64 \<Rightarrow> u64 \<Rightarrow> u64 \<Rightarrow> Memory \<Rightarrow> (fault + bool) \<times> Memory" where
  "atomic_cas width addr0 expected desired m =
     (let addr = data_address m addr0 in
      case check_access addr (of_nat width) (GUEST_PROT_READ OR GUEST_PROT_WRITE) m of
        (Some e, m') \<Rightarrow> (Inl e, m')
      | (None, m') \<Rightarrow>
          if le_word (load_bytes m' addr width) \<noteq> take_bit (8 * width) expected
          then (Inr False, m')
          else (Inr True, store_bytes addr (le_bytes width desired) m'))"

section \<open>Mapping requests\<close>

datatype mprotect_result = MprotectOk | MprotectENOMEM | MprotectEACCES

definition mprotect_guest :: "u64 \<Rightarrow> u64 \<Rightarrow> u8 \<Rightarrow> Memory \<Rightarrow> Memory \<times> mprotect_result" where
  "mprotect_guest addr sz prot m =
     (if addr AND PAGE_MASK \<noteq> 0 \<or> prot AND NOT 7 \<noteq> 0 then (m, MprotectENOMEM)
      else if sz = 0 then (m, MprotectOk)
      else if unat addr + unat sz \<ge> 2 ^ 64 \<or> unat addr + unat sz + 4095 \<ge> 2 ^ 64
      then (m, MprotectENOMEM)
      else
        let end_addr = (addr + sz + PAGE_MASK) AND NOT PAGE_MASK in
        if end_addr \<le> addr \<or> end_addr > window_size m then (m, MprotectENOMEM)
        else if \<not> range_mapped (vmas m) addr end_addr then (m, MprotectENOMEM)
        else if prot AND GUEST_PROT_WRITE \<noteq> 0 \<and>
                (\<exists>p \<in> set (pages addr end_addr). case file_pages m p of None \<Rightarrow> False
                   | Some f \<Rightarrow> fp_shared f \<and> \<not> fp_writable f)
        then (m, MprotectEACCES)
        else (set_mapping addr end_addr prot False True m, MprotectOk))"

definition map_range :: "u64 \<Rightarrow> u64 \<Rightarrow> Memory \<Rightarrow> Memory \<times> bool" where
  "map_range addr sz m =
     (if sz = 0 then (m, True)
      else
        let end_addr = addr + sz in
        if unat addr + unat sz \<ge> 2 ^ 64 \<or> end_addr > - 1 - PAGE_MASK then (m, False)
        else
          let map_lo = addr AND NOT PAGE_MASK; map_hi = (end_addr + PAGE_MASK) AND NOT PAGE_MASK in
          if map_hi > window_size m then (m, False)
          else
            let m1 = set_mapping map_lo map_hi (GUEST_PROT_READ OR GUEST_PROT_WRITE) True False m;
                m2 = (if map_hi > LOW_REGION_SIZE
                      then m1\<lparr>high_next := max (high_next m1) map_hi\<rparr> else m1);
                stack_bottom = stack_top m2 - STACK_SIZE
            in (if map_lo < stack_bottom \<and> map_hi > mmap_next m2
                then m2\<lparr>mmap_next := map_hi\<rparr> else m2, True))"

definition is_mapped :: "u64 \<Rightarrow> u64 \<Rightarrow> Memory \<Rightarrow> bool \<times> Memory" where
  "is_mapped addr sz m = (if sz = 0 then (True, m) else range_accessible addr sz 0 m)"

text \<open>The guest address whose host pointer \<open>guest_to_host_ptr\<close> returns, if it returns one.\<close>

definition guest_to_host_ptr :: "u64 \<Rightarrow> u8 \<Rightarrow> u64 \<Rightarrow> Memory \<Rightarrow> u64 option \<times> Memory" where
  "guest_to_host_ptr guest_addr access sz m =
     (let addr = (if access AND GUEST_PROT_EXEC = 0 then data_address m guest_addr
                  else guest_addr) in
      if sz \<noteq> 0 \<and> addr < window_size m \<and> sz \<le> window_size m - addr then
        (case range_accessible addr sz access m of
           (True, m') \<Rightarrow> (Some addr, m') | (False, m') \<Rightarrow> (None, m'))
      else (None, m))"

definition shared_futex_word :: "u64 \<Rightarrow> Memory \<Rightarrow> u64 option" where
  "shared_futex_word addr m =
     (if addr mod 4 \<noteq> 0 \<or> addr \<ge> window_size m \<or> window_size m - addr < 4 then None
      else case file_pages m (addr div PAGE_SIZE) of
             None \<Rightarrow> None
           | Some f \<Rightarrow>
               if \<not> fp_shared f then None
               else (case mapping_prot_at (vmas m) addr of
                       None \<Rightarrow> None
                     | Some prot \<Rightarrow> if prot AND GUEST_PROT_READ = 0 then None else Some addr))"

definition page_count :: "Memory \<Rightarrow> u64" where
  "page_count m = fold (\<lambda>(k, v) bytes. bytes + (v_end v - k)) (vmas m) 0 div PAGE_SIZE"

end
