(* ===== verification/ExclMonitor.thy ===== *)
theory ExclMonitor
  imports Prelude
begin

text \<open>
  The process-wide table behind load-exclusive and store-exclusive
  (\<open>Source/System/Core/ExclusiveMonitor.hpp\<close>): 2048 bucket words, bit 0 the lock, the rest a
  version that only grows. This theory holds the word-level operations; how several CPUs
  interleave on one bucket is in the theory \<open>ExclProtocol\<close>.
\<close>

type_synonym monitor = "nat \<Rightarrow> u64"

definition kBucketBits :: nat where "kBucketBits = 11"

definition kHashMul :: u32 where "kHashMul = 0x9E3779B1"

definition excl_index :: "u64 \<Rightarrow> nat" where
  "excl_index addr = unat (drop_bit (32 - kBucketBits) (drop_bit 3 (ucast addr :: u32) * kHashMul))"

definition version_of :: "u64 \<Rightarrow> u64" where
  "version_of w = w AND NOT 1"

definition monitor_version :: "monitor \<Rightarrow> u64 \<Rightarrow> u64" where
  "monitor_version mon addr = version_of (mon (excl_index addr))"

definition locked :: "u64 \<Rightarrow> bool" where
  "locked w \<longleftrightarrow> w AND 1 \<noteq> 0"

text \<open>
  \<open>Hold::lock\<close> spins until its \<open>fetch_or(1)\<close> found the bit clear: one attempt either takes the
  lock or, with the bit already set, leaves the word as it is.
\<close>

definition try_lock :: "u64 \<Rightarrow> u64 \<times> bool" where
  "try_lock w = (w OR 1, \<not> locked w)"

text \<open>\<open>~Hold\<close>: \<open>fetch_add(1)\<close> after \<open>commit()\<close>, else \<open>fetch_and(~1)\<close>.\<close>

definition unlock :: "bool \<Rightarrow> u64 \<Rightarrow> u64" where
  "unlock bump w = (if bump then w + 1 else w AND NOT 1)"

definition unlock_all_in_fork_child :: "monitor \<Rightarrow> monitor" where
  "unlock_all_in_fork_child mon =
     (\<lambda>b. if mon b AND 1 \<noteq> 0 then mon b AND NOT 1 else mon b)"

end
