(* ===== verification/Machine.thy ===== *)
theory Machine
  imports Mem ExclMonitor
begin

text \<open>
  What one guest CPU acts on while it executes an instruction: its own registers and the
  \<open>next_pc\<close> of \<open>Emulator::step\<close>, the memory \<open>mem_\<close>, the process-wide exclusive monitor, and the
  list of JIT invalidations it has asked for (\<open>invalidate_jit_range\<close>, \<open>invalidate_jit_all\<close>).
  An instruction ends in an \<open>outcome\<close>: done, an exception (with the state it was thrown in), or
  spinning on the lock of a monitor bucket that another CPU holds. The \<open>with_\<close> combinators are
  the calls into \<open>Memory\<close> and \<open>ExclusiveMonitor\<close>: each passes what it read to the rest of the
  handler, or ends the handler with the exception.
\<close>

datatype jit_invalidation = InvalidateAll | InvalidateRange u64 u64

record machine =
  m_cpu :: CPU
  m_next_pc :: u64
  m_mem :: Memory
  m_mon :: monitor
  m_inval :: "jit_invalidation list"

datatype outcome = Done machine | Throw fault machine | Spin machine

text \<open>A machine at its start: the main CPU, a 512 GiB reservation, no bucket locked.\<close>

definition machine_init :: machine where
  "machine_init = \<lparr>m_cpu = CPU_init, m_next_pc = 0, m_mem = Memory_init 0x8000000000 0 0,
     m_mon = (\<lambda>_. 0), m_inval = []\<rparr>"

definition upd_cpu :: "(CPU \<Rightarrow> CPU) \<Rightarrow> machine \<Rightarrow> machine" where
  "upd_cpu f s = s\<lparr>m_cpu := f (m_cpu s)\<rparr>"

definition from_sum :: "machine \<Rightarrow> fault + CPU \<Rightarrow> outcome" where
  "from_sum s r = (case r of Inl e \<Rightarrow> Throw e s | Inr c \<Rightarrow> Done (s\<lparr>m_cpu := c\<rparr>))"

fun map_outcome :: "(machine \<Rightarrow> machine) \<Rightarrow> outcome \<Rightarrow> outcome" where
  "map_outcome f (Done s) = Done (f s)"
| "map_outcome f (Throw e s) = Throw e (f s)"
| "map_outcome f (Spin s) = Spin (f s)"

fun bind_outcome :: "outcome \<Rightarrow> (machine \<Rightarrow> outcome) \<Rightarrow> outcome" where
  "bind_outcome (Done s) k = k s"
| "bind_outcome (Throw e s) k = Throw e s"
| "bind_outcome (Spin s) k = Spin s"

fun outcome_state :: "outcome \<Rightarrow> machine" where
  "outcome_state (Done s) = s"
| "outcome_state (Throw e s) = s"
| "outcome_state (Spin s) = s"

section \<open>Calls into the memory\<close>

definition with_read :: "u64 \<Rightarrow> nat \<Rightarrow> machine \<Rightarrow> (u64 \<Rightarrow> machine \<Rightarrow> outcome) \<Rightarrow> outcome" where
  "with_read addr n s k =
     (case mem_read addr n (m_mem s) of
        (Inl e, m) \<Rightarrow> Throw e (s\<lparr>m_mem := m\<rparr>)
      | (Inr v, m) \<Rightarrow> k v (s\<lparr>m_mem := m\<rparr>))"

definition with_read_16 ::
    "u64 \<Rightarrow> machine \<Rightarrow> (u64 \<Rightarrow> u64 \<Rightarrow> machine \<Rightarrow> outcome) \<Rightarrow> outcome" where
  "with_read_16 addr s k =
     (case mem_read_16 addr (m_mem s) of
        (Inl e, m) \<Rightarrow> Throw e (s\<lparr>m_mem := m\<rparr>)
      | (Inr (lo, hi), m) \<Rightarrow> k lo hi (s\<lparr>m_mem := m\<rparr>))"

definition with_write :: "u64 \<Rightarrow> u8 list \<Rightarrow> machine \<Rightarrow> (machine \<Rightarrow> outcome) \<Rightarrow> outcome" where
  "with_write addr bs s k =
     (case mem_write addr bs (m_mem s) of
        (Some e, m) \<Rightarrow> Throw e (s\<lparr>m_mem := m\<rparr>)
      | (None, m) \<Rightarrow> k (s\<lparr>m_mem := m\<rparr>))"

definition with_cas ::
    "u64 \<Rightarrow> u64 \<Rightarrow> u64 \<Rightarrow> nat \<Rightarrow> machine \<Rightarrow> (bool \<Rightarrow> u64 \<Rightarrow> machine \<Rightarrow> outcome) \<Rightarrow> outcome" where
  "with_cas addr expected desired n s k =
     (case compare_exchange addr expected desired n (m_mem s) of
        (Inl e, m) \<Rightarrow> Throw e (s\<lparr>m_mem := m\<rparr>)
      | (Inr (stored, old), m) \<Rightarrow> k stored old (s\<lparr>m_mem := m\<rparr>))"

definition with_cas_16 :: "u64 \<Rightarrow> u64 \<Rightarrow> u64 \<Rightarrow> u64 \<Rightarrow> u64 \<Rightarrow> machine \<Rightarrow>
    (bool \<Rightarrow> u64 \<Rightarrow> u64 \<Rightarrow> machine \<Rightarrow> outcome) \<Rightarrow> outcome" where
  "with_cas_16 addr el eh dl dh s k =
     (case compare_exchange_16 addr el eh dl dh (m_mem s) of
        (Inl e, m) \<Rightarrow> Throw e (s\<lparr>m_mem := m\<rparr>)
      | (Inr (stored, lo, hi), m) \<Rightarrow> k stored lo hi (s\<lparr>m_mem := m\<rparr>))"

section \<open>Holding a monitor bucket\<close>

definition set_bucket :: "nat \<Rightarrow> u64 \<Rightarrow> machine \<Rightarrow> machine" where
  "set_bucket b w s = s\<lparr>m_mon := (m_mon s)(b := w)\<rparr>"

text \<open>
  The scope of a \<open>Hold\<close>: its constructor takes the bucket of \<open>base\<close>, the body reports whether
  it called \<open>commit()\<close>, and the destructor runs however the body ends.
\<close>

definition with_hold :: "u64 \<Rightarrow> machine \<Rightarrow> (machine \<Rightarrow> outcome \<times> bool) \<Rightarrow> outcome" where
  "with_hold base s body =
     (let b = excl_index base; (w, got) = try_lock (m_mon s b) in
      if \<not> got then Spin s
      else
        let (r, bump) = body (set_bucket b w s)
        in map_outcome (\<lambda>s'. set_bucket b (unlock bump (m_mon s' b)) s') r)"

end
