(* ===== verification/InterpMem.thy ===== *)
theory InterpMem
  imports Machine
begin

text \<open>
  The load, store and atomic handlers of \<open>Emulator::execute\<close>
  (\<open>Source/Interpreter/Core/Interpreter.cpp\<close>), in the order of the dispatch switch: pairs, LSE
  atomics, the three addressing forms of single loads and stores, exclusives, compare-and-swap
  pairs and exclusive pairs.
\<close>

section \<open>Operands\<close>

text \<open>\<open>(d.rn == 31) ? cpu.sp : cpu.regs[d.rn]\<close>, and the matching writeback.\<close>

definition base_reg :: "u8 \<Rightarrow> CPU \<Rightarrow> u64" where
  "base_reg rn cpu = (if rn = 31 then sp cpu else regs cpu rn)"

definition set_base :: "u8 \<Rightarrow> u64 \<Rightarrow> CPU \<Rightarrow> CPU" where
  "set_base rn v cpu =
     (if rn = 31 then cpu\<lparr>sp := v\<rparr> else cpu\<lparr>regs := (regs cpu)(rn := v)\<rparr>)"

definition set_v :: "u8 \<Rightarrow> u64 \<Rightarrow> u64 \<Rightarrow> CPU \<Rightarrow> CPU" where
  "set_v r lo hi cpu = cpu\<lparr>v_lo := (v_lo cpu)(r := lo), v_hi := (v_hi cpu)(r := hi)\<rparr>"

text \<open>\<open>(width_bytes == 8) ? ~0ULL : ((1ULL << (width_bytes * 8)) - 1)\<close>.\<close>

definition byte_mask :: "nat \<Rightarrow> u64" where
  "byte_mask n = (if n = 8 then - 1 else push_bit (n * 8) 1 - 1)"

definition xzr_reg :: "CPU \<Rightarrow> u8 \<Rightarrow> u64" where
  "xzr_reg cpu r = (if r = 31 then 0 else regs cpu r)"

section \<open>Register pairs\<close>

definition pair_writeback :: "DecodedInst \<Rightarrow> u64 \<Rightarrow> machine \<Rightarrow> outcome" where
  "pair_writeback d base s =
     Done (if d_mode d = 1 \<or> d_mode d = 3
           then upd_cpu (set_base (d_rn d) (base + d_disp d)) s else s)"

definition exec_ldp_stp :: "DecodedInst \<Rightarrow> machine \<Rightarrow> outcome" where
  "exec_ldp_stp d s =
     (let opc = fld 30 3 (d_raw d) :: u8; cpu = m_cpu s;
          esize = (if d_is_vec d then (if opc = 0 then 4 else if opc = 1 then 8 else 16)
                   else (if opc = 2 then 8 else 4)) :: nat;
          base = base_reg (d_rn d) cpu; s1 = xzr_reg cpu (d_rt d); s2 = xzr_reg cpu (d_rt2 d);
          addr = (if d_mode d = 1 then base else base + d_disp d)
      in if d_is_vec d then
           (if d_is_load d then
              (if esize \<le> 8 then
                 with_read addr esize s (\<lambda>lo1 s. with_read (addr + of_nat esize) esize s (\<lambda>lo2 s.
                   pair_writeback d base
                     (upd_cpu (\<lambda>c. set_v (d_rt2 d) lo2 0 (set_v (d_rt d) lo1 0 c)) s)))
               else
                 with_read addr 8 s (\<lambda>lo1 s. with_read (addr + 8) 8 s (\<lambda>hi1 s.
                 with_read (addr + 16) 8 s (\<lambda>lo2 s. with_read (addr + 24) 8 s (\<lambda>hi2 s.
                   pair_writeback d base
                     (upd_cpu (\<lambda>c. set_v (d_rt2 d) lo2 hi2 (set_v (d_rt d) lo1 hi1 c)) s))))))
            else
              (if esize \<le> 8 then
                 with_write addr (le_bytes esize (v_lo cpu (d_rt d))) s (\<lambda>s.
                 with_write (addr + of_nat esize) (le_bytes esize (v_lo cpu (d_rt2 d))) s
                   (pair_writeback d base))
               else
                 with_write addr (le_bytes 8 (v_lo cpu (d_rt d))) s (\<lambda>s.
                 with_write (addr + 8) (le_bytes 8 (v_hi cpu (d_rt d))) s (\<lambda>s.
                 with_write (addr + 16) (le_bytes 8 (v_lo cpu (d_rt2 d))) s (\<lambda>s.
                 with_write (addr + 24) (le_bytes 8 (v_hi cpu (d_rt2 d))) s
                   (pair_writeback d base))))))
         else
           (if d_is_load d then
              with_read addr esize s (\<lambda>v1 s. with_read (addr + of_nat esize) esize s (\<lambda>v2 s.
                let w1 = (if opc = 1 then sign_extend v1 32 else v1);
                    w2 = (if opc = 1 then sign_extend v2 32 else v2)
                in pair_writeback d base
                     (upd_cpu (\<lambda>c. wreg (d_rt2 d) w2 (wreg (d_rt d) w1 c)) s)))
            else
              with_write addr (le_bytes esize s1) s (\<lambda>s.
              with_write (addr + of_nat esize) (le_bytes esize s2) s (pair_writeback d base))))"

section \<open>LSE atomics\<close>

text \<open>The switch on \<open>d.atom_op\<close>; the signed forms move the operand's sign to bit 63 first.\<close>

definition lse_value :: "u8 \<Rightarrow> nat \<Rightarrow> u64 \<Rightarrow> u64 \<Rightarrow> u64" where
  "lse_value atom_op width_bytes a b =
     (let m = byte_mask width_bytes; k = 64 - width_bytes * 8;
          sa = signed_drop_bit k (push_bit k a); sb = signed_drop_bit k (push_bit k b)
      in if atom_op = 0x0 then (a + b) AND m
         else if atom_op = 0x1 then (a AND NOT b) AND m
         else if atom_op = 0x2 then (a XOR b) AND m
         else if atom_op = 0x3 then (a OR b) AND m
         else if atom_op = 0x4 then (if sint sa > sint sb then sa else sb) AND m
         else if atom_op = 0x5 then (if sint sa < sint sb then sa else sb) AND m
         else if atom_op = 0x6 then (if a > b then a else b) AND m
         else if atom_op = 0x7 then (if a < b then a else b) AND m
         else if atom_op = 0x8 then b
         else a AND m)"

text \<open>
  The retry loop \<open>for (;;) { newv = ...; if (compare_exchange(...)) break; a = observed; }\<close> with
  fuel; without fuel it is still spinning.
\<close>

fun lse_loop :: "nat \<Rightarrow> DecodedInst \<Rightarrow> u64 \<Rightarrow> nat \<Rightarrow> u64 \<Rightarrow> u64 \<Rightarrow> machine \<Rightarrow> outcome" where
  "lse_loop 0 d base width_bytes b a s = Spin s"
| "lse_loop (Suc fuel) d base width_bytes b a s =
     with_cas base a (lse_value (d_atom_op d) width_bytes a b) width_bytes s
       (\<lambda>stored observed s.
          if stored then Done (upd_cpu (wreg (d_rt d) a) s)
          else lse_loop fuel d base width_bytes b observed s)"

definition exec_lse :: "nat \<Rightarrow> DecodedInst \<Rightarrow> machine \<Rightarrow> outcome" where
  "exec_lse fuel d s =
     (let width_bytes = 2 ^ unat (d_size d); cpu = m_cpu s;
          base = base_reg (d_rn d) cpu; m = byte_mask width_bytes
      in if d_atom_op d \<ge> 0xC then
           with_cas base (regs cpu (d_rs d) AND m) (regs cpu (d_rt d) AND m) width_bytes s
             (\<lambda>stored old s. Done (upd_cpu (wreg (d_rs d) old) s))
         else
           with_read base width_bytes s (\<lambda>a s.
             lse_loop fuel d base width_bytes (regs cpu (d_rs d) AND m) (a AND m) s))"

section \<open>Single loads and stores\<close>

text \<open>
  The transfers the three handlers have in common: a vector register of \<open>nbytes\<close> bytes, and a
  general register of \<open>width_bytes\<close> bytes. \<open>k\<close> is what follows in the handler.
\<close>

definition vec_load :: "u8 \<Rightarrow> u64 \<Rightarrow> nat \<Rightarrow> machine \<Rightarrow> (machine \<Rightarrow> outcome) \<Rightarrow> outcome" where
  "vec_load rt addr nbytes s k =
     with_read addr (min nbytes 8) s (\<lambda>lo s.
       if nbytes > 8 then
         with_read (addr + 8) (nbytes - 8) s (\<lambda>hi s.
           k (upd_cpu (set_v rt lo (if nbytes \<ge> 16 then hi else 0)) s))
       else k (upd_cpu (set_v rt lo 0) s))"

definition vec_store :: "u8 \<Rightarrow> u64 \<Rightarrow> nat \<Rightarrow> machine \<Rightarrow> (machine \<Rightarrow> outcome) \<Rightarrow> outcome" where
  "vec_store rt addr nbytes s k =
     (let lo = v_lo (m_cpu s) rt; hi = v_hi (m_cpu s) rt in
      with_write addr (le_bytes (min nbytes 8) lo) s (\<lambda>s.
        if nbytes > 8 then with_write (addr + 8) (le_bytes (nbytes - 8) hi) s k else k s))"

definition gpr_load :: "u8 \<Rightarrow> u8 \<Rightarrow> u64 \<Rightarrow> nat \<Rightarrow> machine \<Rightarrow> (machine \<Rightarrow> outcome) \<Rightarrow> outcome" where
  "gpr_load rt opc addr width_bytes s k =
     with_read addr width_bytes s (\<lambda>v s.
       k (upd_cpu (wreg rt (extend_loaded v opc width_bytes)) s))"

definition gpr_store :: "u8 \<Rightarrow> u64 \<Rightarrow> nat \<Rightarrow> machine \<Rightarrow> (machine \<Rightarrow> outcome) \<Rightarrow> outcome" where
  "gpr_store rt addr width_bytes s k =
     (let v = xzr_reg (m_cpu s) rt AND byte_mask width_bytes
      in with_write addr (le_bytes width_bytes v) s k)"

definition transfer :: "DecodedInst \<Rightarrow> u64 \<Rightarrow> machine \<Rightarrow> (machine \<Rightarrow> outcome) \<Rightarrow> outcome" where
  "transfer d addr s k =
     (let sz = unat (d_size d); opc = d_opc_ls d;
          is_q = (bit opc 1 \<and> d_size d = 0); nbytes = (if is_q then 16 else 2 ^ sz)
      in if d_is_vec d then
           (if d_is_load d then vec_load (d_rt d) addr nbytes s k
            else vec_store (d_rt d) addr nbytes s k)
         else
           (if d_is_load d then gpr_load (d_rt d) opc addr (2 ^ sz) s k
            else gpr_store (d_rt d) addr (2 ^ sz) s k))"

definition exec_ldr_imm :: "DecodedInst \<Rightarrow> machine \<Rightarrow> outcome" where
  "exec_ldr_imm d s =
     (let cpu = m_cpu s;
          base = (if d_pc_relative d then pc cpu else base_reg (d_rn d) cpu)
      in transfer d (base + d_disp d) s Done)"

definition exec_ldr_uns :: "DecodedInst \<Rightarrow> machine \<Rightarrow> outcome" where
  "exec_ldr_uns d s =
     (let base = base_reg (d_rn d) (m_cpu s);
          addr = (if d_mode d = 1 then base else base + d_disp d)
      in transfer d addr s (\<lambda>s.
           Done (if d_mode d = 1 \<or> d_mode d = 2
                 then upd_cpu (set_base (d_rn d) (base + d_disp d)) s else s)))"

definition exec_ldr_reg :: "DecodedInst \<Rightarrow> machine \<Rightarrow> outcome" where
  "exec_ldr_reg d s =
     (let cpu = m_cpu s; base = base_reg (d_rn d) cpu;
          is_q = (d_is_vec d \<and> bit (d_opc_ls d) 1 \<and> d_size d = 0);
          scale = (if is_q then 4 else d_size d);
          off = extend_reg (regs cpu (d_rm d)) (d_extend d) (if d_shift d \<noteq> 0 then scale else 0) True
      in transfer d (base + off) s Done)"

section \<open>Exclusives\<close>

text \<open>The CPU's side of a store-exclusive: the status register and the cleared reservation.\<close>

definition stx_finish :: "u8 \<Rightarrow> bool \<Rightarrow> machine \<Rightarrow> machine" where
  "stx_finish rs ok = upd_cpu (\<lambda>c. excl_clear (wreg rs (if ok then 0 else 1) c))"

definition exec_excl :: "DecodedInst \<Rightarrow> machine \<Rightarrow> outcome" where
  "exec_excl d s =
     (let width_bytes = 2 ^ unat (d_size d); cpu = m_cpu s; base = base_reg (d_rn d) cpu;
          use_monitor = (\<not> d_acquire d \<or> d_excl_low6 d \<noteq> 0x3F); m = byte_mask width_bytes
      in if \<not> d_is_load d then
           let v = regs cpu (d_rt d) AND m in
           with_hold base s (\<lambda>s.
             if use_monitor then
               (if excl_check cpu base (of_nat width_bytes) \<and>
                   monitor_version (m_mon s) base = excl_ver cpu then
                  (case compare_exchange base (excl_value cpu) v width_bytes (m_mem s) of
                     (Inl e, mm) \<Rightarrow> (Throw e (s\<lparr>m_mem := mm\<rparr>), False)
                   | (Inr (ok, old), mm) \<Rightarrow>
                       (Done (stx_finish (d_rs d) ok (s\<lparr>m_mem := mm\<rparr>)), ok))
                else (Done (stx_finish (d_rs d) False s), False))
             else
               (case mem_write base (le_bytes width_bytes v) (m_mem s) of
                  (Some e, mm) \<Rightarrow> (Throw e (s\<lparr>m_mem := mm\<rparr>), False)
                | (None, mm) \<Rightarrow> (Done (s\<lparr>m_mem := mm\<rparr>), True)))
         else
           let ver = (if use_monitor then monitor_version (m_mon s) base else 0) in
           with_read base width_bytes s (\<lambda>v s.
             Done (upd_cpu (\<lambda>c.
               let c' = wreg (d_rt d) v c
               in if use_monitor then excl_mark base (of_nat width_bytes) v ver c' else c') s)))"

definition exec_casp :: "DecodedInst \<Rightarrow> machine \<Rightarrow> outcome" where
  "exec_casp d s =
     (let cpu = m_cpu s; base = base_reg (d_rn d) cpu; reg = xzr_reg cpu;
          finish = (\<lambda>old_lo old_hi.
            upd_cpu (\<lambda>c. wreg (d_rs d + 1) old_hi (c\<lparr>regs := (regs c)(d_rs d := old_lo)\<rparr>)))
      in if d_size d = 3 then
           with_cas_16 base (reg (d_rs d)) (reg (d_rs d + 1)) (reg (d_rt d)) (reg (d_rt d + 1)) s
             (\<lambda>stored lo hi s. Done (finish lo hi s))
         else
           let cmp = (reg (d_rs d) AND 0xFFFFFFFF) OR push_bit 32 (reg (d_rs d + 1));
               val = (reg (d_rt d) AND 0xFFFFFFFF) OR push_bit 32 (reg (d_rt d + 1))
           in with_cas base cmp val 8 s
                (\<lambda>stored old s. Done (finish (old AND 0xFFFFFFFF) (drop_bit 32 old) s)))"

definition exec_ldxp_stxp :: "DecodedInst \<Rightarrow> machine \<Rightarrow> outcome" where
  "exec_ldxp_stxp d s =
     (let cpu = m_cpu s; x_pair = bit (d_size d) 0; base = base_reg (d_rn d) cpu;
          reg = xzr_reg cpu
      in if d_is_load d then
           let ver = monitor_version (m_mon s) base;
               finish = (\<lambda>w0 w1 s.
                 Done (upd_cpu (\<lambda>c.
                   let first = (if x_pair then w0 else w0 AND 0xFFFFFFFF);
                       second = (if x_pair then w1 else drop_bit 32 w0);
                       c' = wreg (d_rt2 d) second (wreg (d_rt d) first c)
                   in (excl_mark base (if x_pair then 16 else 8) w0 ver c')
                        \<lparr>excl_value_hi := (if x_pair then w1 else 0)\<rparr>) s))
           in if x_pair then with_read_16 base s finish
              else with_read base 8 s (\<lambda>w0. finish w0 0)
         else
           with_hold base s (\<lambda>s.
             if excl_check cpu base (if x_pair then 16 else 8) \<and>
                monitor_version (m_mon s) base = excl_ver cpu then
               (if x_pair then
                  (case compare_exchange_16 base (excl_value cpu) (excl_value_hi cpu)
                          (reg (d_rt d)) (reg (d_rt2 d)) (m_mem s) of
                     (Inl e, mm) \<Rightarrow> (Throw e (s\<lparr>m_mem := mm\<rparr>), False)
                   | (Inr (ok, lo, hi), mm) \<Rightarrow>
                       (Done (stx_finish (d_rs d) ok (s\<lparr>m_mem := mm\<rparr>)), ok))
                else
                  (let v = (reg (d_rt d) AND 0xFFFFFFFF) OR push_bit 32 (reg (d_rt2 d)) in
                   case compare_exchange base (excl_value cpu) v 8 (m_mem s) of
                     (Inl e, mm) \<Rightarrow> (Throw e (s\<lparr>m_mem := mm\<rparr>), False)
                   | (Inr (ok, old), mm) \<Rightarrow>
                       (Done (stx_finish (d_rs d) ok (s\<lparr>m_mem := mm\<rparr>)), ok)))
             else (Done (stx_finish (d_rs d) False s), False)))"

end
