(* ===== verification/InterpSimd.thy ===== *)
theory InterpSimd
  imports InterpMem
begin

text \<open>
  \<open>Emulator::execute_fp\<close> (\<open>Source/Interpreter/FloatSIMD/Dispatch.cpp\<close>): the moves to and from
  the high half of a vector register, and the structure loads and stores LD1-LD4, ST1-ST4 and
  LD1R. The arithmetic groups behind SIMD_DP and FP_SCALAR are parameters (record \<open>env\<close> of the
  theory \<open>InterpSys\<close>).
\<close>

section \<open>Lanes of a vector register\<close>

text \<open>
  The register is its two 64-bit halves. Lane \<open>i\<close> of \<open>esize\<close> bytes starts at byte \<open>i * esize\<close>; the
  code reaches it with a pointer into \<open>v_lo\<close> or \<open>v_hi\<close>.
\<close>

definition put_bits :: "nat \<Rightarrow> nat \<Rightarrow> u64 \<Rightarrow> u64 \<Rightarrow> u64" where
  "put_bits off n v w =
     (w AND NOT (push_bit off (take_bit n (- 1)))) OR push_bit off (take_bit n v)"

definition put_lane :: "nat \<Rightarrow> nat \<Rightarrow> u64 \<Rightarrow> u64 \<times> u64 \<Rightarrow> u64 \<times> u64" where
  "put_lane esize i v r =
     (let (lo, hi) = r; at = i * esize in
      if at < 8 then (put_bits (8 * at) (8 * esize) v lo, hi)
      else (lo, put_bits (8 * (at - 8)) (8 * esize) v hi))"

definition get_lane :: "nat \<Rightarrow> nat \<Rightarrow> u64 \<times> u64 \<Rightarrow> u64" where
  "get_lane esize i r =
     (let (lo, hi) = r; at = i * esize in
      if at < 8 then take_bit (8 * esize) (drop_bit (8 * at) lo)
      else take_bit (8 * esize) (drop_bit (8 * (at - 8)) hi))"

definition v_pair :: "CPU \<Rightarrow> u8 \<Rightarrow> u64 \<times> u64" where
  "v_pair cpu r = (v_lo cpu r, v_hi cpu r)"

definition set_v_pair :: "u8 \<Rightarrow> u64 \<times> u64 \<Rightarrow> CPU \<Rightarrow> CPU" where
  "set_v_pair r p = set_v r (fst p) (snd p)"

text \<open>\<open>for (int off = 0; off < 8; off += esize) memcpy(half + off, buf, esize)\<close>.\<close>

definition broadcast :: "nat \<Rightarrow> u64 \<Rightarrow> u64 \<Rightarrow> u64" where
  "broadcast esize v w =
     fold (\<lambda>i w. put_bits (8 * (i * esize)) (8 * esize) v w) [0..<8 div esize] w"

section \<open>Post-index writeback\<close>

definition simd_writeback :: "DecodedInst \<Rightarrow> u64 \<Rightarrow> u64 \<Rightarrow> machine \<Rightarrow> outcome" where
  "simd_writeback d base bytes s =
     Done (if d_post_indexed d then
             let off = (if d_rm d = 31 then bytes else if d_rm d = 30 then 0
                        else regs (m_cpu s) (d_rm d))
             in upd_cpu (set_base (d_rn d) (base + off)) s
           else s)"

section \<open>Single structures\<close>

definition v_index :: "DecodedInst \<Rightarrow> nat \<Rightarrow> u8" where
  "v_index d i = (d_rt d + of_nat i) AND 31"

fun ld1r_loop ::
    "DecodedInst \<Rightarrow> nat \<Rightarrow> u64 \<Rightarrow> nat list \<Rightarrow> machine \<Rightarrow> (machine \<Rightarrow> outcome) \<Rightarrow> outcome" where
  "ld1r_loop d esize base [] s k = k s"
| "ld1r_loop d esize base (i # is) s k =
     with_read (base + of_nat i * of_nat esize) esize s (\<lambda>v s.
       let r = v_index d i; c = m_cpu s;
           lo = broadcast esize v (v_lo c r);
           hi = (if d_Q d then broadcast esize v (v_hi c r) else 0)
       in ld1r_loop d esize base is (upd_cpu (set_v r lo hi) s) k)"

definition exec_ld1r :: "DecodedInst \<Rightarrow> u64 \<Rightarrow> machine \<Rightarrow> outcome" where
  "exec_ld1r d base s =
     (let esize = 2 ^ unat (d_size d); n = unat (d_simd_count d);
          k = simd_writeback d base (of_nat n * of_nat esize)
      in if d_is_load d then ld1r_loop d esize base [0..<n] s k else k s)"

text \<open>The lane index and element size of the indexed forms, from the raw word.\<close>

definition lane_of :: "DecodedInst \<Rightarrow> nat \<times> nat" where
  "lane_of d =
     (let opcode = fld 13 7 (d_raw d) :: u32; scale = fld 1 3 opcode :: u8;
          sbit = bit (d_raw d) 12; sz = fld 10 3 (d_raw d) :: u8;
          q = (if d_Q d then 1 else 0) :: nat; sb = (if sbit then 1 else 0) :: nat
      in if scale = 0 then (8 * q + 4 * sb + unat sz, 1)
         else if scale = 1 then (4 * q + 2 * sb + (if bit sz 1 then 1 else 0), 2)
         else if scale = 2 then (if \<not> bit sz 0 then (2 * q + sb, 4) else (q, 8))
         else (0, 1))"

fun lane_loop :: "DecodedInst \<Rightarrow> nat \<Rightarrow> nat \<Rightarrow> u64 \<Rightarrow> nat list \<Rightarrow> machine \<Rightarrow>
    (machine \<Rightarrow> outcome) \<Rightarrow> outcome" where
  "lane_loop d idx esize base [] s k = k s"
| "lane_loop d idx esize base (i # is) s k =
     (let r = v_index d i; addr = base + of_nat i * of_nat esize in
      if d_is_load d then
        with_read addr esize s (\<lambda>v s.
          lane_loop d idx esize base is
            (upd_cpu (\<lambda>c. set_v_pair r (put_lane esize idx v (v_pair c r)) c) s) k)
      else
        with_write addr (le_bytes esize (get_lane esize idx (v_pair (m_cpu s) r))) s (\<lambda>s.
          lane_loop d idx esize base is s k))"

definition exec_lane :: "DecodedInst \<Rightarrow> u64 \<Rightarrow> machine \<Rightarrow> outcome" where
  "exec_lane d base s =
     (let (idx, esize) = lane_of d; n = unat (d_simd_count d)
      in lane_loop d idx esize base [0..<n] s
           (simd_writeback d base (of_nat n * of_nat esize)))"

section \<open>Multiple structures\<close>

text \<open>\<open>reg_off\<close>: where element \<open>e\<close> of register \<open>i\<close> lies.\<close>

definition reg_off :: "DecodedInst \<Rightarrow> nat \<Rightarrow> nat \<Rightarrow> u64" where
  "reg_off d i e =
     (let total_bytes = (if d_Q d then 16 else 8); esize = 2 ^ unat (d_size d) in
      if d_simd_struct d = 1 then of_nat (i * total_bytes + e * esize)
      else of_nat ((e * unat (d_simd_count d) + i) * esize))"

fun ld_elems :: "DecodedInst \<Rightarrow> nat \<Rightarrow> u64 \<Rightarrow> nat \<Rightarrow> nat list \<Rightarrow> u64 \<times> u64 \<Rightarrow> machine \<Rightarrow>
    (u64 \<times> u64 \<Rightarrow> machine \<Rightarrow> outcome) \<Rightarrow> outcome" where
  "ld_elems d esize base i [] buf s k = k buf s"
| "ld_elems d esize base i (e # es) buf s k =
     with_read (base + reg_off d i e) esize s (\<lambda>v s.
       ld_elems d esize base i es (put_lane esize e v buf) s k)"

fun st_elems :: "DecodedInst \<Rightarrow> nat \<Rightarrow> u64 \<Rightarrow> nat \<Rightarrow> nat list \<Rightarrow> u64 \<times> u64 \<Rightarrow> machine \<Rightarrow>
    (machine \<Rightarrow> outcome) \<Rightarrow> outcome" where
  "st_elems d esize base i [] buf s k = k s"
| "st_elems d esize base i (e # es) buf s k =
     with_write (base + reg_off d i e) (le_bytes esize (get_lane esize e buf)) s (\<lambda>s.
       st_elems d esize base i es buf s k)"

fun struct_loop :: "DecodedInst \<Rightarrow> u64 \<Rightarrow> nat list \<Rightarrow> machine \<Rightarrow> (machine \<Rightarrow> outcome) \<Rightarrow> outcome" where
  "struct_loop d base [] s k = k s"
| "struct_loop d base (i # is) s k =
     (let total_bytes = (if d_Q d then 16 else 8); esize = 2 ^ unat (d_size d);
          elems = total_bytes div esize; r = v_index d i
      in if d_is_load d then
           ld_elems d esize base i [0..<elems] (0, 0) s (\<lambda>buf s.
             struct_loop d base is
               (upd_cpu (set_v r (fst buf) (if total_bytes = 16 then snd buf else 0)) s) k)
         else
           st_elems d esize base i [0..<elems] (v_pair (m_cpu s) r) s (\<lambda>s.
             struct_loop d base is s k))"

definition exec_struct :: "DecodedInst \<Rightarrow> u64 \<Rightarrow> machine \<Rightarrow> outcome" where
  "exec_struct d base s =
     (let total_bytes = (if d_Q d then 16 else 8); nregs = unat (d_simd_count d)
      in struct_loop d base [0..<nregs] s
           (simd_writeback d base (of_nat nregs * of_nat total_bytes)))"

definition exec_simd_ldst :: "DecodedInst \<Rightarrow> machine \<Rightarrow> outcome" where
  "exec_simd_ldst d s =
     (let base = base_reg (d_rn d) (m_cpu s) in
      if d_is_single_struct d then (if d_is_ld1r d then exec_ld1r d base s else exec_lane d base s)
      else exec_struct d base s)"

section \<open>Moves of the high half\<close>

definition exec_fmov_vd1 :: "DecodedInst \<Rightarrow> CPU \<Rightarrow> CPU" where
  "exec_fmov_vd1 d cpu =
     (if d_cls d = Simd IC_FMOV_VD1 then cpu\<lparr>v_hi := (v_hi cpu)(d_rd d := regs cpu (d_rn d))\<rparr>
      else wreg (d_rd d) (v_hi cpu (d_rn d)) cpu)"

end
