(* ===== verification/InterpSys.thy ===== *)
theory InterpSys
  imports InterpSimd
begin

text \<open>
  \<open>Emulator::execute_branch\<close> (\<open>Source/Interpreter/Core/BranchSystem.cpp\<close>): branches, the calls
  into the syscall and signal layers, and the system registers. The layers it calls that this
  development does not model are the fields of \<open>env\<close>.
\<close>

section \<open>What the interpreter calls\<close>

text \<open>
  \<open>env_syscall\<close> is \<open>Emulator::syscall\<close>; \<open>env_force_signal\<close> is \<open>force_signal\<close> of
  \<open>Source/System/Core/Signals.cpp\<close>; \<open>env_debugger_poll\<close> is \<open>Emulator::debugger_poll\<close>;
  \<open>env_simd_dp\<close> tries \<open>exec_crypto\<close>, \<open>exec_reciprocal\<close> and \<open>exec_simd_dp_groups\<close> in that order and
  is \<open>None\<close> when none of them knows the opcode; \<open>env_fp_scalar\<close> is \<open>exec_fp_scalar\<close>.
\<close>

record env =
  env_syscall :: "machine \<Rightarrow> outcome"
  env_force_signal :: "int \<Rightarrow> int \<Rightarrow> u64 \<Rightarrow> machine \<Rightarrow> bool \<times> machine"
  env_debugger_poll :: "machine \<Rightarrow> machine"
  env_simd_dp :: "u32 \<Rightarrow> CPU \<Rightarrow> (fault + CPU) option"
  env_fp_scalar :: "u32 \<Rightarrow> CPU \<Rightarrow> fault + CPU"

text \<open>
  An environment in which nothing happens: no syscall has an effect, no signal is delivered, no
  debugger is attached and no SIMD or floating-point opcode is known. The examples run in it.
\<close>

definition idle_env :: env where
  "idle_env = \<lparr>env_syscall = Done, env_force_signal = (\<lambda>_ _ _ s. (False, s)),
     env_debugger_poll = (\<lambda>s. s), env_simd_dp = (\<lambda>_ _. None),
     env_fp_scalar = (\<lambda>op c. Inl (DecodeError (pc c) op))\<rparr>"

section \<open>Branches\<close>

definition branch_to :: "u64 \<Rightarrow> machine \<Rightarrow> machine" where
  "branch_to target s = s\<lparr>m_next_pc := target\<rparr>"

definition exec_branch :: "DecodedInst \<Rightarrow> ic_branch \<Rightarrow> machine \<Rightarrow> machine" where
  "exec_branch d b s =
     (let cpu = m_cpu s; target = pc cpu + d_imm d in
      case b of
        IC_B \<Rightarrow> branch_to target s
      | IC_BL \<Rightarrow> branch_to target (upd_cpu (\<lambda>c. c\<lparr>regs := (regs c)(30 := pc c + 4)\<rparr>) s)
      | IC_Bcond \<Rightarrow> if cond_true (ucast (d_cond d)) (pstate cpu) then branch_to target s else s
      | IC_CBZ \<Rightarrow>
          let v = (if d_sf d then regs cpu (d_rt d) else ucast (ucast (regs cpu (d_rt d)) :: u32))
          in if v = 0 then branch_to target s else s
      | IC_CBNZ \<Rightarrow>
          let v = (if d_sf d then regs cpu (d_rt d) else ucast (ucast (regs cpu (d_rt d)) :: u32))
          in if v \<noteq> 0 then branch_to target s else s
      | IC_TBZ \<Rightarrow> if \<not> bit (regs cpu (d_rt d)) (unat (d_imm_u d)) then branch_to target s else s
      | IC_TBNZ \<Rightarrow> if bit (regs cpu (d_rt d)) (unat (d_imm_u d)) then branch_to target s else s
      | IC_BR \<Rightarrow> branch_to (regs cpu (d_rn d)) s
      | IC_BLR \<Rightarrow>
          upd_cpu (\<lambda>c. c\<lparr>regs := (regs c)(30 := pc c + 4)\<rparr>) (branch_to (regs cpu (d_rn d)) s)
      | IC_RET \<Rightarrow> branch_to (regs cpu (d_rn d)) s)"

section \<open>Exceptions into the emulator\<close>

definition exec_svc :: "env \<Rightarrow> machine \<Rightarrow> outcome" where
  "exec_svc e s =
     (let return_pc = pc (m_cpu s) + 4 in
      bind_outcome (env_syscall e (upd_cpu (\<lambda>c. c\<lparr>pc := return_pc\<rparr>) s)) (\<lambda>s'.
        Done (if pc (m_cpu s') \<noteq> return_pc then branch_to (pc (m_cpu s')) s' else s')))"

text \<open>
  BRK: a delivered signal and a failed delivery both continue at \<open>cpu.pc\<close>; the second also
  reports the crash, which only prints.
\<close>

definition exec_brk :: "env \<Rightarrow> machine \<Rightarrow> outcome" where
  "exec_brk e s =
     (let (delivered, s') = env_force_signal e 5 1 (pc (m_cpu s)) s
      in Done (branch_to (pc (m_cpu s')) s'))"

definition exec_hlt :: "DecodedInst \<Rightarrow> machine \<Rightarrow> outcome" where
  "exec_hlt d s =
     (let imm = fld 5 0xFFFF (d_raw d) :: u16
      in Done (upd_cpu (\<lambda>c. c\<lparr>running := False, exit_code := uint imm\<rparr>) s))"

section \<open>System registers\<close>

definition mrs_value :: "DecodedInst \<Rightarrow> CPU \<Rightarrow> u64" where
  "mrs_value d cpu =
     (let op0 = d_sys_op0 d; op1 = d_sys_op1 d; crn = d_sys_crn d; crm = d_sys_crm d;
          op2 = d_sys_op2 d
      in if op0 = 3 \<and> op1 = 3 then
           (if crn = 13 \<and> crm = 0 \<and> op2 = 2 then tpidr_el0 cpu
            else if crn = 13 \<and> crm = 0 \<and> op2 = 3 then tpidrro_el0 cpu
            else if crn = 0 \<and> crm = 0 \<and> op2 = 1 then 0x8444C004
            else if crn = 0 \<and> crm = 0 \<and> op2 = 7 then push_bit 4 1
            else if crn = 4 \<and> crm = 2 \<and> op2 = 0 then
              ucast ((if flag_n cpu then push_bit 31 1 else 0)
                     OR (if flag_z cpu then push_bit 30 1 else 0)
                     OR (if flag_c cpu then push_bit 29 1 else 0)
                     OR (if flag_v cpu then push_bit 28 1 else 0) :: u32)
            else if crn = 4 \<and> crm = 4 \<and> op2 = 0 then ucast (fpcr cpu)
            else if crn = 4 \<and> crm = 4 \<and> op2 = 1 then ucast (fpsr cpu)
            else if crn = 0 \<and> crm = 0 \<and> op2 = 0 then 0x410FD080
            else if crn = 0 \<and> crm = 0 \<and> op2 = 5 then 0x10110222
            else if crn = 0 \<and> crm = 0 \<and> op2 = 6 then 0x12122211
            else if crn = 0 \<and> crm = 0 \<and> op2 = 7 then 0x00000043
            else if crn = 0 \<and> crm = 2 \<and> op2 = 0 then 0x00000022
            else if crn = 0 \<and> crm = 2 \<and> op2 = 2 then 0x00000000
            else if crn = 0 \<and> crm = 2 \<and> op2 = 4 then 0x00000000
            else 0)
         else 0)"

definition exec_mrs :: "DecodedInst \<Rightarrow> CPU \<Rightarrow> CPU" where
  "exec_mrs d cpu = wreg (d_rt d) (mrs_value d cpu) cpu"

definition invalidate_for :: "u8 \<Rightarrow> u64 \<Rightarrow> machine \<Rightarrow> machine" where
  "invalidate_for rt v s = s\<lparr>m_inval := m_inval s @
     [if rt = 31 then InvalidateAll else InvalidateRange (v AND NOT 63) 64]\<rparr>"

definition exec_msr :: "DecodedInst \<Rightarrow> machine \<Rightarrow> machine" where
  "exec_msr d s =
     (let op0 = d_sys_op0 d; op1 = d_sys_op1 d; crn = d_sys_crn d; crm = d_sys_crm d;
          op2 = d_sys_op2 d; rt = d_rt d; v = xzr_reg (m_cpu s) rt
      in if op0 = 3 \<and> op1 = 3 then
           (if crn = 7 then invalidate_for rt v s
            else if crn = 4 \<and> crm = 2 \<and> op2 = 0 then
              upd_cpu (set_nzcv (bit v 31) (bit v 30) (bit v 29) (bit v 28)) s
            else if crn = 13 \<and> crm = 0 \<and> op2 = 2 then upd_cpu (\<lambda>c. c\<lparr>tpidr_el0 := v\<rparr>) s
            else if crn = 13 \<and> crm = 0 \<and> op2 = 3 then upd_cpu (\<lambda>c. c\<lparr>tpidrro_el0 := v\<rparr>) s
            else if crn = 4 \<and> crm = 4 \<and> op2 = 0 then upd_cpu (\<lambda>c. c\<lparr>fpcr := ucast v\<rparr>) s
            else if crn = 4 \<and> crm = 4 \<and> op2 = 1 then upd_cpu (\<lambda>c. c\<lparr>fpsr := ucast v\<rparr>) s
            else s)
         else if crn = 7 then invalidate_for rt v s
         else s)"

end
