(* ===== verification/Interp.thy ===== *)
theory Interp
  imports InterpSys
begin

text \<open>
  \<open>Emulator::execute\<close> (\<open>Source/Interpreter/Core/Interpreter.cpp\<close>): the decode cache in front of
  the decoder, the dispatch on the instruction class, and \<open>Emulator::step\<close>
  (\<open>Source/System/Core/Emulator/Lifecycle.cpp\<close>) around it.
\<close>

section \<open>The decode cache\<close>

definition cache_set :: "u64 \<Rightarrow> nat" where
  "cache_set a = unat (drop_bit 2 a AND 0x1FFF)"

definition lru_bit :: "(nat \<Rightarrow> u8) \<Rightarrow> nat \<Rightarrow> bool" where
  "lru_bit lru i = bit (lru (i div 8)) (i mod 8)"

definition set_lru :: "bool \<Rightarrow> nat \<Rightarrow> (nat \<Rightarrow> u8) \<Rightarrow> (nat \<Rightarrow> u8)" where
  "set_lru v i lru =
     lru(i div 8 := (if v then lru (i div 8) OR push_bit (i mod 8) 1
                     else lru (i div 8) AND NOT (push_bit (i mod 8) 1)))"

text \<open>
  The lookup \<open>execute\<close> starts with: way 0, way 1, or decode into the least recently used way.
  A hit needs the tag \<open>~pc\<close> and the instruction word; an empty slot has the tag 0.
\<close>

definition cached_decode :: "u32 \<Rightarrow> CPU \<Rightarrow> CPU \<times> DecodedInst" where
  "cached_decode inst cpu =
     (let i = cache_set (pc cpu); way0 = i * 2; way1 = way0 + 1; tag = NOT (pc cpu);
          ce0 = dc_entries cpu way0; ce1 = dc_entries cpu way1; lru = dc_lru cpu
      in if ce_tag ce0 = tag \<and> d_raw (ce_d ce0) = inst then
           (cpu\<lparr>decode_cache_hits := decode_cache_hits cpu + 1, dc_lru := set_lru False i lru\<rparr>,
            ce_d ce0)
         else if ce_tag ce1 = tag \<and> d_raw (ce_d ce1) = inst then
           (cpu\<lparr>decode_cache_hits := decode_cache_hits cpu + 1, dc_lru := set_lru True i lru\<rparr>,
            ce_d ce1)
         else
           let lb = lru_bit lru i; victim = (if lb then way0 else way1);
               d = fst (decode (ce_d (dc_entries cpu victim)) inst)
           in (cpu\<lparr>dc_entries := (dc_entries cpu)(victim := \<lparr>ce_tag = tag, ce_d = d\<rparr>),
                   decode_cache_misses := decode_cache_misses cpu + 1,
                   dc_lru := set_lru (\<not> lb) i lru\<rparr>, d))"

text \<open>\<open>DecodeCache::clear\<close>: every entry and every LRU bit reads as zero again.\<close>

definition decode_cache_clear :: "CPU \<Rightarrow> CPU" where
  "decode_cache_clear cpu =
     cpu\<lparr>dc_entries := (\<lambda>_. \<lparr>ce_tag = 0, ce_d = DecodedInst_zero\<rparr>), dc_lru := (\<lambda>_. 0)\<rparr>"

section \<open>Dispatch\<close>

definition exec_dp_imm :: "ic_dp_imm \<Rightarrow> DecodedInst \<Rightarrow> u32 \<Rightarrow> CPU \<Rightarrow> fault + CPU" where
  "exec_dp_imm c d inst cpu =
     (if c = IC_ADR \<or> c = IC_ADRP then Inr (exec_adr d cpu)
      else if c = IC_MOVN \<or> c = IC_MOVZ \<or> c = IC_MOVK then Inr (exec_mov_wide d cpu)
      else if c = IC_ADD_IMM \<or> c = IC_ADDS_IMM \<or> c = IC_SUB_IMM \<or> c = IC_SUBS_IMM
      then Inr (exec_addsub_imm d cpu)
      else if c = IC_SBFM \<or> c = IC_BFM \<or> c = IC_UBFM then exec_bitfield d inst cpu
      else if c = IC_EXTR then Inr (exec_extr d cpu)
      else Inr (exec_logical_imm d cpu))"

definition exec_dp_reg :: "ic_dp_reg \<Rightarrow> DecodedInst \<Rightarrow> CPU \<Rightarrow> fault + CPU" where
  "exec_dp_reg c d cpu =
     (if c = IC_ADC_REG \<or> c = IC_ADCS_REG \<or> c = IC_SBC_REG \<or> c = IC_SBCS_REG
      then Inr (exec_adc d cpu)
      else if c = IC_ADD_REG \<or> c = IC_ADDS_REG \<or> c = IC_SUB_REG \<or> c = IC_SUBS_REG
      then exec_addsub_reg d cpu
      else if c = IC_AND_REG \<or> c = IC_ORR_REG \<or> c = IC_EOR_REG \<or> c = IC_ANDS_REG
      then exec_logical_reg d cpu
      else if c = IC_CSEL \<or> c = IC_CSINC \<or> c = IC_CSINV \<or> c = IC_CSNEG
      then Inr (exec_csel d cpu)
      else if c = IC_CCMP \<or> c = IC_CCMN then Inr (exec_ccmp d cpu)
      else if c = IC_RBIT \<or> c = IC_REV16 \<or> c = IC_REV32 \<or> c = IC_REV \<or> c = IC_CLZ \<or> c = IC_CLS
      then Inr (exec_dp1 d cpu)
      else if c = IC_UDIV \<or> c = IC_SDIV \<or> c = IC_LSL \<or> c = IC_LSR \<or> c = IC_ASR \<or> c = IC_ROR
      then Inr (exec_dp2 d cpu)
      else if c = IC_CRC32 then Inr (exec_crc32 d cpu)
      else Inr (exec_dp3 d cpu))"

text \<open>The retry loop of the LSE atomics gets this much fuel; one iteration is enough.\<close>

definition lse_fuel :: nat where "lse_fuel = 2"

definition exec_simd_dp :: "env \<Rightarrow> DecodedInst \<Rightarrow> machine \<Rightarrow> outcome" where
  "exec_simd_dp e d s =
     (case env_simd_dp e (d_raw d) (m_cpu s) of
        Some r \<Rightarrow> from_sum s r
      | None \<Rightarrow> Throw (DecodeError (pc (m_cpu s)) (d_raw d)) s)"

text \<open>
  The switch on \<open>d.cls\<close>. The classes without a case label end in \<open>default\<close> and the exception
  after the switch.
\<close>

definition dispatch :: "env \<Rightarrow> DecodedInst \<Rightarrow> u32 \<Rightarrow> machine \<Rightarrow> outcome" where
  "dispatch e d inst s =
     (let cpu = m_cpu s; undecoded = Throw (DecodeError (pc cpu) inst) s in
      case d_cls d of
        IC_UNKNOWN \<Rightarrow> undecoded
      | Branch b \<Rightarrow> Done (exec_branch d b s)
      | System _ \<Rightarrow> undecoded
      | DpImm c \<Rightarrow> from_sum s (exec_dp_imm c d inst cpu)
      | DpReg c \<Rightarrow> from_sum s (exec_dp_reg c d cpu)
      | LdSt c \<Rightarrow>
          if c = IC_LDP \<or> c = IC_STP then exec_ldp_stp d s
          else if c = IC_LDR_IMM \<or> c = IC_STR_IMM then exec_ldr_imm d s
          else if c = IC_LDR_UNS \<or> c = IC_STR_UNS then exec_ldr_uns d s
          else if c = IC_LDR_REG \<or> c = IC_STR_REG then exec_ldr_reg d s
          else undecoded
      | Atomic c \<Rightarrow>
          if c = IC_LSE_ATOMIC then exec_lse lse_fuel d s
          else if c = IC_CASP then exec_casp d s
          else if c = IC_LDXP \<or> c = IC_STXP then exec_ldxp_stxp d s
          else exec_excl d s
      | Simd c \<Rightarrow>
          if c = IC_FMOV_VD1 \<or> c = IC_FMOV_RVD1 then Done (upd_cpu (exec_fmov_vd1 d) s)
          else if c = IC_SIMD_LD1 \<or> c = IC_SIMD_ST1 then exec_simd_ldst d s
          else undecoded
      | SysInst c \<Rightarrow>
          if c = IC_SVC_IMM then exec_svc e s
          else if c = IC_BRK_IMM then exec_brk e s
          else if c = IC_HLT_IMM then exec_hlt d s
          else if c = IC_CLREX_INST then Done (upd_cpu excl_clear s)
          else if c = IC_HINT then Done s
          else if c = IC_MRS_SYS then Done (upd_cpu (exec_mrs d) s)
          else if c = IC_MSR_SYS then Done (exec_msr d s)
          else undecoded
      | Generic c \<Rightarrow>
          if c = IC_SIMD_DP then exec_simd_dp e d s
          else from_sum s (env_fp_scalar e (d_raw d) cpu))"

definition execute :: "env \<Rightarrow> u32 \<Rightarrow> machine \<Rightarrow> outcome" where
  "execute e inst s =
     (let (cpu, d) = cached_decode inst (m_cpu s)
      in dispatch e d inst (s\<lparr>m_cpu := cpu\<rparr>))"

section \<open>One step\<close>

definition poll_debugger :: "env \<Rightarrow> machine \<Rightarrow> machine" where
  "poll_debugger e s =
     upd_cpu (\<lambda>c. c\<lparr>debug_skip_poll := False\<rparr>)
       (if debug_skip_poll (m_cpu s) then s else env_debugger_poll e s)"

definition step :: "env \<Rightarrow> machine \<Rightarrow> outcome" where
  "step e s0 =
     (let s = poll_debugger e s0 in
      if \<not> running (m_cpu s) then Done s
      else
        case fetch_inst (pc (m_cpu s)) (m_mem s) of
          (Inl f, m) \<Rightarrow> Throw f (s\<lparr>m_mem := m\<rparr>)
        | (Inr inst, m) \<Rightarrow>
            bind_outcome
              (execute e inst (s\<lparr>m_mem := m, m_next_pc := pc (m_cpu s) + 4\<rparr>))
              (\<lambda>s'. Done (upd_cpu (\<lambda>c. c\<lparr>pc := m_next_pc s'\<rparr>) s')))"

end
