(* ===== verification/DecodeView.thy ===== *)
theory DecodeView
  imports Interp
begin

text \<open>
  What the interpreter reads of a decoded instruction. \<open>decode()\<close> fills a slot in place and a
  path leaves the fields it does not assign as the previous instruction of that cache line
  left them, so executing from the decode cache is only right because every handler reads
  nothing but fields its own path assigned. \<open>exec_view\<close> keeps, for each class, exactly the fields
  its handler reads and zeroes the rest; here the dispatch is shown not to notice.
\<close>

section \<open>The fields each class is executed from\<close>


definition view_common :: "DecodedInst \<Rightarrow> DecodedInst" where
  "view_common d = DecodedInst_zero\<lparr>
     d_cls := d_cls d, d_raw := d_raw d, d_pc_relative := d_pc_relative d,
     d_rd := d_rd d, d_rn := d_rn d, d_rm := d_rm d, d_rt := d_rt d, d_rt2 := d_rt2 d,
     d_rs := d_rs d, d_sf := d_sf d, d_size := d_size d, d_cond := d_cond d, d_Q := d_Q d\<rparr>"

definition view_branch :: "ic_branch \<Rightarrow> DecodedInst \<Rightarrow> DecodedInst" where
  "view_branch b d =
     (if b = IC_BR \<or> b = IC_BLR \<or> b = IC_RET then view_common d
      else if b = IC_TBZ \<or> b = IC_TBNZ then (view_common d)\<lparr>d_imm := d_imm d, d_imm_u := d_imm_u d\<rparr>
      else (view_common d)\<lparr>d_imm := d_imm d\<rparr>)"

definition view_dp_imm :: "ic_dp_imm \<Rightarrow> DecodedInst \<Rightarrow> DecodedInst" where
  "view_dp_imm c d =
     (if c = IC_ADD_IMM \<or> c = IC_ADDS_IMM \<or> c = IC_SUB_IMM \<or> c = IC_SUBS_IMM
      then (view_common d)\<lparr>d_is_sub := d_is_sub d, d_set_flags := d_set_flags d\<rparr>
      else if c = IC_AND_IMM \<or> c = IC_ORR_IMM \<or> c = IC_EOR_IMM \<or> c = IC_ANDS_IMM
      then (view_common d)\<lparr>d_imm_u := d_imm_u d, d_writes_sp := d_writes_sp d\<rparr>
      else view_common d)"

definition is_extended_reg :: "u32 \<Rightarrow> bool" where
  "is_extended_reg raw \<longleftrightarrow> raw AND 0x1FE00000 = 0x0B200000"

definition view_dp_reg :: "ic_dp_reg \<Rightarrow> DecodedInst \<Rightarrow> DecodedInst" where
  "view_dp_reg c d =
     (if c = IC_ADC_REG \<or> c = IC_ADCS_REG \<or> c = IC_SBC_REG \<or> c = IC_SBCS_REG
      then (view_common d)\<lparr>d_set_flags := d_set_flags d\<rparr>
      else if c = IC_ADD_REG \<or> c = IC_ADDS_REG \<or> c = IC_SUB_REG \<or> c = IC_SUBS_REG then
        (if is_extended_reg (d_raw d)
         then (view_common d)\<lparr>d_is_sub := d_is_sub d, d_set_flags := d_set_flags d,
                 d_extend := d_extend d, d_shift := d_shift d\<rparr>
         else (view_common d)\<lparr>d_is_sub := d_is_sub d, d_set_flags := d_set_flags d,
                 d_shift_type := d_shift_type d, d_shift := d_shift d\<rparr>)
      else if c = IC_AND_REG \<or> c = IC_ORR_REG \<or> c = IC_EOR_REG \<or> c = IC_ANDS_REG
      then (view_common d)\<lparr>d_shift_type := d_shift_type d, d_shift := d_shift d\<rparr>
      else if c = IC_CCMP \<or> c = IC_CCMN
      then (view_common d)\<lparr>d_is_register := d_is_register d, d_nzcv_field := d_nzcv_field d\<rparr>
      else if c = IC_CRC32 then (view_common d)\<lparr>d_imm := d_imm d, d_is_sub := d_is_sub d\<rparr>
      else if c = IC_CSEL \<or> c = IC_CSINC \<or> c = IC_CSINV \<or> c = IC_CSNEG \<or>
              c = IC_RBIT \<or> c = IC_REV16 \<or> c = IC_REV32 \<or> c = IC_REV \<or> c = IC_CLZ \<or>
              c = IC_CLS \<or> c = IC_UDIV \<or> c = IC_SDIV \<or> c = IC_LSL \<or> c = IC_LSR \<or>
              c = IC_ASR \<or> c = IC_ROR
      then view_common d
      else (view_common d)\<lparr>d_ra := d_ra d\<rparr>)"

definition view_ldst :: "ic_ldst \<Rightarrow> DecodedInst \<Rightarrow> DecodedInst" where
  "view_ldst c d =
     (let v = (view_common d)\<lparr>d_is_vec := d_is_vec d, d_is_load := d_is_load d\<rparr> in
      if c = IC_LDP \<or> c = IC_STP then v\<lparr>d_mode := d_mode d, d_disp := d_disp d\<rparr>
      else if c = IC_LDR_IMM \<or> c = IC_STR_IMM then v\<lparr>d_opc_ls := d_opc_ls d, d_disp := d_disp d\<rparr>
      else if c = IC_LDR_UNS \<or> c = IC_STR_UNS
      then v\<lparr>d_opc_ls := d_opc_ls d, d_mode := d_mode d, d_disp := d_disp d\<rparr>
      else v\<lparr>d_opc_ls := d_opc_ls d, d_extend := d_extend d, d_shift := d_shift d\<rparr>)"

definition view_atomic :: "ic_atomic \<Rightarrow> DecodedInst \<Rightarrow> DecodedInst" where
  "view_atomic c d =
     (if c = IC_LSE_ATOMIC then (view_common d)\<lparr>d_atom_op := d_atom_op d\<rparr>
      else if c = IC_CASP then view_common d
      else if c = IC_LDXP \<or> c = IC_STXP then (view_common d)\<lparr>d_is_load := d_is_load d\<rparr>
      else (view_common d)\<lparr>d_is_load := d_is_load d, d_acquire := d_acquire d,
              d_excl_low6 := d_excl_low6 d\<rparr>)"

definition view_simd :: "ic_simd \<Rightarrow> DecodedInst \<Rightarrow> DecodedInst" where
  "view_simd c d =
     (if c = IC_SIMD_LD1 \<or> c = IC_SIMD_ST1 then
        (let v = (view_common d)\<lparr>d_is_load := d_is_load d, d_post_indexed := d_post_indexed d,
                   d_simd_count := d_simd_count d,
                   d_is_single_struct := d_is_single_struct d\<rparr> in
         if d_is_single_struct d then v\<lparr>d_is_ld1r := d_is_ld1r d\<rparr>
         else v\<lparr>d_simd_struct := d_simd_struct d\<rparr>)
      else view_common d)"

definition view_sysinst :: "ic_sysinst \<Rightarrow> DecodedInst \<Rightarrow> DecodedInst" where
  "view_sysinst c d =
     (if c = IC_MRS_SYS \<or> c = IC_MSR_SYS
      then (view_common d)\<lparr>d_sys_op0 := d_sys_op0 d, d_sys_op1 := d_sys_op1 d,
              d_sys_crn := d_sys_crn d, d_sys_crm := d_sys_crm d, d_sys_op2 := d_sys_op2 d\<rparr>
      else view_common d)"

definition exec_view :: "DecodedInst \<Rightarrow> DecodedInst" where
  "exec_view d =
     (case d_cls d of
        Branch b \<Rightarrow> view_branch b d
      | DpImm c \<Rightarrow> view_dp_imm c d
      | DpReg c \<Rightarrow> view_dp_reg c d
      | LdSt c \<Rightarrow> view_ldst c d
      | Atomic c \<Rightarrow> view_atomic c d
      | Simd c \<Rightarrow> view_simd c d
      | SysInst c \<Rightarrow> view_sysinst c d
      | _ \<Rightarrow> view_common d)"

lemma view_common_sel [simp]:
  "d_cls (view_common d) = d_cls d" "d_raw (view_common d) = d_raw d"
  "d_pc_relative (view_common d) = d_pc_relative d" "d_rd (view_common d) = d_rd d"
  "d_rn (view_common d) = d_rn d" "d_rm (view_common d) = d_rm d" "d_rt (view_common d) = d_rt d"
  "d_rt2 (view_common d) = d_rt2 d" "d_rs (view_common d) = d_rs d" "d_sf (view_common d) = d_sf d"
  "d_size (view_common d) = d_size d" "d_cond (view_common d) = d_cond d" "d_Q (view_common d) = d_Q d"
  by (simp_all add: view_common_def)

lemma exec_view_cls [simp]: "d_cls (exec_view d) = d_cls d"
  by (cases "d_cls d") (simp_all add: exec_view_def view_branch_def view_dp_imm_def
        view_dp_reg_def view_ldst_def view_atomic_def view_simd_def view_sysinst_def Let_def)

section \<open>The handlers read no more than the view\<close>

lemma dispatch_branch: "exec_branch (view_branch b d) b s = exec_branch d b s"
  by (cases b) (simp_all add: exec_branch_def view_branch_def Let_def)

lemma view_dp_imm_sel [simp]:
  "d_raw (view_dp_imm c d) = d_raw d" "d_rd (view_dp_imm c d) = d_rd d"
  "d_rn (view_dp_imm c d) = d_rn d" "d_rm (view_dp_imm c d) = d_rm d"
  "d_sf (view_dp_imm c d) = d_sf d" "d_cls (view_dp_imm c d) = d_cls d"
  by (simp_all add: view_dp_imm_def)

lemma dispatch_dp_imm: "exec_dp_imm c (view_dp_imm c d) inst cpu = exec_dp_imm c d inst cpu"
proof -
  have raw: "exec_adr (view_dp_imm c d) cpu = exec_adr d cpu"
    "exec_mov_wide (view_dp_imm c d) cpu = exec_mov_wide d cpu"
    "exec_bitfield (view_dp_imm c d) inst cpu = exec_bitfield d inst cpu"
    "exec_extr (view_dp_imm c d) cpu = exec_extr d cpu"
    unfolding exec_adr_def exec_mov_wide_def exec_bitfield_def exec_extr_def width_of_def
      view_dp_imm_sel by (rule refl)+
  have add: "exec_addsub_imm (view_dp_imm c d) cpu = exec_addsub_imm d cpu"
    if "c \<in> {IC_ADD_IMM, IC_ADDS_IMM, IC_SUB_IMM, IC_SUBS_IMM}"
  proof -
    have f: "d_set_flags (view_dp_imm c d) = d_set_flags d" "d_is_sub (view_dp_imm c d) = d_is_sub d"
      using that by (auto simp: view_dp_imm_def)
    show ?thesis unfolding exec_addsub_imm_def width_of_def view_dp_imm_sel f by (rule refl)
  qed
  have logic: "exec_logical_imm (view_dp_imm c d) cpu = exec_logical_imm d cpu"
    if "c \<in> {IC_AND_IMM, IC_ORR_IMM, IC_EOR_IMM, IC_ANDS_IMM}"
  proof -
    have f: "d_imm_u (view_dp_imm c d) = d_imm_u d" "d_writes_sp (view_dp_imm c d) = d_writes_sp d"
      using that by (auto simp: view_dp_imm_def)
    show ?thesis unfolding exec_logical_imm_def width_of_def view_dp_imm_sel f by (rule refl)
  qed
  show ?thesis
    using add logic unfolding exec_dp_imm_def raw by (cases c) simp_all
qed

lemma view_dp_reg_sel [simp]:
  "d_raw (view_dp_reg c d) = d_raw d" "d_rd (view_dp_reg c d) = d_rd d"
  "d_rn (view_dp_reg c d) = d_rn d" "d_rm (view_dp_reg c d) = d_rm d"
  "d_sf (view_dp_reg c d) = d_sf d" "d_cls (view_dp_reg c d) = d_cls d"
  "d_cond (view_dp_reg c d) = d_cond d"
  by (simp_all add: view_dp_reg_def)

lemma dispatch_dp_reg: "exec_dp_reg c (view_dp_reg c d) cpu = exec_dp_reg c d cpu"
proof -
  have raw: "exec_csel (view_dp_reg c d) cpu = exec_csel d cpu"
    "exec_dp1 (view_dp_reg c d) cpu = exec_dp1 d cpu"
    "exec_dp2 (view_dp_reg c d) cpu = exec_dp2 d cpu"
    unfolding exec_csel_def exec_dp1_def exec_dp2_def view_dp_reg_sel by (rule refl)+
  have adc: "exec_adc (view_dp_reg c d) cpu = exec_adc d cpu"
    if "c \<in> {IC_ADC_REG, IC_ADCS_REG, IC_SBC_REG, IC_SBCS_REG}"
  proof -
    have f: "d_set_flags (view_dp_reg c d) = d_set_flags d"
      using that by (auto simp: view_dp_reg_def)
    show ?thesis unfolding exec_adc_def width_of_def view_dp_reg_sel f by (rule refl)
  qed
  have add: "exec_addsub_reg (view_dp_reg c d) cpu = exec_addsub_reg d cpu"
    if c: "c \<in> {IC_ADD_REG, IC_ADDS_REG, IC_SUB_REG, IC_SUBS_REG}"
  proof -
    have f: "d_set_flags (view_dp_reg c d) = d_set_flags d" "d_is_sub (view_dp_reg c d) = d_is_sub d"
      "d_shift (view_dp_reg c d) = d_shift d"
      using c by (auto simp: view_dp_reg_def)
    have g: "is_extended_reg (d_raw d) \<Longrightarrow> d_extend (view_dp_reg c d) = d_extend d"
      "\<not> is_extended_reg (d_raw d) \<Longrightarrow> d_shift_type (view_dp_reg c d) = d_shift_type d"
      using c by (auto simp: view_dp_reg_def)
    show ?thesis
      unfolding exec_addsub_reg_def width_of_def view_dp_reg_sel f is_extended_reg_def [symmetric]
      by (cases "is_extended_reg (d_raw d)") (simp_all add: g)
  qed
  have logic: "exec_logical_reg (view_dp_reg c d) cpu = exec_logical_reg d cpu"
    if "c \<in> {IC_AND_REG, IC_ORR_REG, IC_EOR_REG, IC_ANDS_REG}"
  proof -
    have f: "d_shift_type (view_dp_reg c d) = d_shift_type d" "d_shift (view_dp_reg c d) = d_shift d"
      using that by (auto simp: view_dp_reg_def)
    show ?thesis unfolding exec_logical_reg_def width_of_def view_dp_reg_sel f by (rule refl)
  qed
  have ccmp: "exec_ccmp (view_dp_reg c d) cpu = exec_ccmp d cpu" if "c \<in> {IC_CCMP, IC_CCMN}"
  proof -
    have f: "d_is_register (view_dp_reg c d) = d_is_register d"
      "d_nzcv_field (view_dp_reg c d) = d_nzcv_field d"
      using that by (auto simp: view_dp_reg_def)
    show ?thesis unfolding exec_ccmp_def width_of_def view_dp_reg_sel f by (rule refl)
  qed
  have crc: "exec_crc32 (view_dp_reg c d) cpu = exec_crc32 d cpu" if "c = IC_CRC32"
  proof -
    have f: "d_imm (view_dp_reg c d) = d_imm d" "d_is_sub (view_dp_reg c d) = d_is_sub d"
      using that by (auto simp: view_dp_reg_def)
    show ?thesis unfolding exec_crc32_def view_dp_reg_sel f by (rule refl)
  qed
  have dp3: "exec_dp3 (view_dp_reg c d) cpu = exec_dp3 d cpu"
    if "c \<in> {IC_MADD, IC_MSUB, IC_SMADDL, IC_SMSUBL, IC_UMADDL, IC_UMSUBL, IC_SMULH, IC_UMULH}"
  proof -
    have f: "d_ra (view_dp_reg c d) = d_ra d" using that by (auto simp: view_dp_reg_def)
    show ?thesis unfolding exec_dp3_def view_dp_reg_sel f by (rule refl)
  qed
  show ?thesis
    using adc add logic ccmp crc dp3 unfolding exec_dp_reg_def raw by (cases c) simp_all
qed

lemma view_ldst_sel [simp]:
  "d_raw (view_ldst c d) = d_raw d" "d_rn (view_ldst c d) = d_rn d"
  "d_rm (view_ldst c d) = d_rm d" "d_rt (view_ldst c d) = d_rt d"
  "d_rt2 (view_ldst c d) = d_rt2 d" "d_size (view_ldst c d) = d_size d"
  "d_pc_relative (view_ldst c d) = d_pc_relative d" "d_is_vec (view_ldst c d) = d_is_vec d"
  "d_is_load (view_ldst c d) = d_is_load d"
  by (simp_all add: view_ldst_def Let_def)

lemma view_ldst_own:
  "c \<noteq> IC_LDP \<Longrightarrow> c \<noteq> IC_STP \<Longrightarrow> d_opc_ls (view_ldst c d) = d_opc_ls d"
  "c \<in> {IC_LDP, IC_STP, IC_LDR_UNS, IC_STR_UNS} \<Longrightarrow> d_mode (view_ldst c d) = d_mode d"
  "c \<in> {IC_LDP, IC_STP, IC_LDR_IMM, IC_STR_IMM, IC_LDR_UNS, IC_STR_UNS} \<Longrightarrow>
     d_disp (view_ldst c d) = d_disp d"
  "c \<in> {IC_LDR_REG, IC_STR_REG} \<Longrightarrow> d_extend (view_ldst c d) = d_extend d"
  "c \<in> {IC_LDR_REG, IC_STR_REG} \<Longrightarrow> d_shift (view_ldst c d) = d_shift d"
  by (auto simp: view_ldst_def Let_def)

lemma dispatch_ldp:
  assumes "c = IC_LDP \<or> c = IC_STP"
  shows "exec_ldp_stp (view_ldst c d) s = exec_ldp_stp d s"
proof -
  have f: "d_mode (view_ldst c d) = d_mode d" "d_disp (view_ldst c d) = d_disp d"
    using assms by (auto simp: view_ldst_own)
  have w: "pair_writeback (view_ldst c d) = pair_writeback d"
    unfolding pair_writeback_def view_ldst_sel f by (rule refl)
  show ?thesis unfolding exec_ldp_stp_def view_ldst_sel w f by (rule refl)
qed

lemma transfer_view:
  assumes "c \<noteq> IC_LDP" "c \<noteq> IC_STP"
  shows "transfer (view_ldst c d) = transfer d"
  unfolding transfer_def view_ldst_sel view_ldst_own(1) [OF assms] by (rule refl)

lemma dispatch_ldr_imm:
  assumes "c = IC_LDR_IMM \<or> c = IC_STR_IMM"
  shows "exec_ldr_imm (view_ldst c d) s = exec_ldr_imm d s"
proof -
  have f: "d_disp (view_ldst c d) = d_disp d" "transfer (view_ldst c d) = transfer d"
    using assms by (auto simp: view_ldst_own transfer_view)
  show ?thesis unfolding exec_ldr_imm_def view_ldst_sel f by (rule refl)
qed

lemma dispatch_ldr_uns:
  assumes "c = IC_LDR_UNS \<or> c = IC_STR_UNS"
  shows "exec_ldr_uns (view_ldst c d) s = exec_ldr_uns d s"
proof -
  have f: "d_disp (view_ldst c d) = d_disp d" "d_mode (view_ldst c d) = d_mode d"
    "transfer (view_ldst c d) = transfer d"
    using assms by (auto simp: view_ldst_own transfer_view)
  show ?thesis unfolding exec_ldr_uns_def view_ldst_sel f by (rule refl)
qed

lemma dispatch_ldr_reg:
  assumes "c = IC_LDR_REG \<or> c = IC_STR_REG"
  shows "exec_ldr_reg (view_ldst c d) s = exec_ldr_reg d s"
proof -
  have f: "d_extend (view_ldst c d) = d_extend d" "d_shift (view_ldst c d) = d_shift d"
    "d_opc_ls (view_ldst c d) = d_opc_ls d" "transfer (view_ldst c d) = transfer d"
    using assms by (auto simp: view_ldst_own transfer_view)
  show ?thesis unfolding exec_ldr_reg_def view_ldst_sel f by (rule refl)
qed

lemma view_sysinst_sel [simp]: "d_raw (view_sysinst c d) = d_raw d" "d_rt (view_sysinst c d) = d_rt d"
  by (simp_all add: view_sysinst_def)

lemma dispatch_hlt: "exec_hlt (view_sysinst c d) s = exec_hlt d s"
  unfolding exec_hlt_def view_sysinst_sel by (rule refl)

lemma dispatch_sysreg:
  assumes "c = IC_MRS_SYS \<or> c = IC_MSR_SYS"
  shows "exec_mrs (view_sysinst c d) = exec_mrs d" "exec_msr (view_sysinst c d) = exec_msr d"
proof -
  have f: "d_sys_op0 (view_sysinst c d) = d_sys_op0 d" "d_sys_op1 (view_sysinst c d) = d_sys_op1 d"
    "d_sys_crn (view_sysinst c d) = d_sys_crn d" "d_sys_crm (view_sysinst c d) = d_sys_crm d"
    "d_sys_op2 (view_sysinst c d) = d_sys_op2 d"
    using assms by (auto simp: view_sysinst_def)
  show "exec_mrs (view_sysinst c d) = exec_mrs d" "exec_msr (view_sysinst c d) = exec_msr d"
    unfolding exec_mrs_def mrs_value_def exec_msr_def view_sysinst_sel f by (rule refl)+
qed

lemma lse_loop_view: "lse_loop n (view_atomic IC_LSE_ATOMIC d) base w b a s = lse_loop n d base w b a s"
  by (induction n arbitrary: a s) (simp_all add: view_atomic_def cong: if_cong)

lemma view_atomic_sel [simp]:
  "d_raw (view_atomic c d) = d_raw d" "d_rn (view_atomic c d) = d_rn d"
  "d_rt (view_atomic c d) = d_rt d" "d_rt2 (view_atomic c d) = d_rt2 d"
  "d_rs (view_atomic c d) = d_rs d" "d_size (view_atomic c d) = d_size d"
  by (simp_all add: view_atomic_def)

lemma view_atomic_own [simp]:
  "d_atom_op (view_atomic IC_LSE_ATOMIC d) = d_atom_op d"
  "c \<noteq> IC_LSE_ATOMIC \<Longrightarrow> c \<noteq> IC_CASP \<Longrightarrow> d_is_load (view_atomic c d) = d_is_load d"
  "c \<notin> {IC_LSE_ATOMIC, IC_CASP, IC_LDXP, IC_STXP} \<Longrightarrow> d_acquire (view_atomic c d) = d_acquire d"
  "c \<notin> {IC_LSE_ATOMIC, IC_CASP, IC_LDXP, IC_STXP} \<Longrightarrow> d_excl_low6 (view_atomic c d) = d_excl_low6 d"
  by (simp_all add: view_atomic_def)

lemma dispatch_atomic:
  "exec_lse n (view_atomic IC_LSE_ATOMIC d) s = exec_lse n d s"
  "exec_casp (view_atomic IC_CASP d) s = exec_casp d s"
  unfolding exec_lse_def exec_casp_def lse_loop_view view_atomic_sel view_atomic_own(1)
  by (rule refl)+

lemma dispatch_ldxp:
  assumes "c = IC_LDXP \<or> c = IC_STXP"
  shows "exec_ldxp_stxp (view_atomic c d) s = exec_ldxp_stxp d s"
proof -
  have l: "d_is_load (view_atomic c d) = d_is_load d" using assms by auto
  show ?thesis unfolding exec_ldxp_stxp_def view_atomic_sel l by (rule refl)
qed

lemma dispatch_excl:
  assumes "c \<notin> {IC_LSE_ATOMIC, IC_CASP, IC_LDXP, IC_STXP}"
  shows "exec_excl (view_atomic c d) s = exec_excl d s"
proof -
  have l: "d_is_load (view_atomic c d) = d_is_load d" "d_acquire (view_atomic c d) = d_acquire d"
    "d_excl_low6 (view_atomic c d) = d_excl_low6 d" using assms by auto
  show ?thesis unfolding exec_excl_def view_atomic_sel l by (rule refl)
qed

lemma view_simd_sel [simp]:
  "d_raw (view_simd c d) = d_raw d" "d_rn (view_simd c d) = d_rn d" "d_rm (view_simd c d) = d_rm d"
  "d_rt (view_simd c d) = d_rt d" "d_size (view_simd c d) = d_size d" "d_Q (view_simd c d) = d_Q d"
  "d_rd (view_simd c d) = d_rd d" "d_cls (view_simd c d) = d_cls d"
  by (simp_all add: view_simd_def Let_def)

lemma view_simd_own:
  assumes "c = IC_SIMD_LD1 \<or> c = IC_SIMD_ST1"
  shows "d_is_load (view_simd c d) = d_is_load d"
    "d_post_indexed (view_simd c d) = d_post_indexed d"
    "d_simd_count (view_simd c d) = d_simd_count d"
    "d_is_single_struct (view_simd c d) = d_is_single_struct d"
    "d_is_single_struct d \<Longrightarrow> d_is_ld1r (view_simd c d) = d_is_ld1r d"
    "\<not> d_is_single_struct d \<Longrightarrow> d_simd_struct (view_simd c d) = d_simd_struct d"
  using assms by (auto simp: view_simd_def Let_def)

lemma v_index_cong: "d_rt d = d_rt d' \<Longrightarrow> v_index d i = v_index d' i"
  by (simp add: v_index_def)

lemma ld1r_loop_cong: "d_rt d = d_rt d' \<Longrightarrow> d_Q d = d_Q d' \<Longrightarrow>
    ld1r_loop d es base is s k = ld1r_loop d' es base is s k"
  by (induction d es base "is" s k rule: ld1r_loop.induct) (simp_all add: v_index_cong [of d d'] v_index_def Let_def cong: if_cong)

lemma lane_loop_cong: "d_rt d = d_rt d' \<Longrightarrow> d_is_load d = d_is_load d' \<Longrightarrow>
    lane_loop d idx es base is s k = lane_loop d' idx es base is s k"
  by (induction d idx es base "is" s k rule: lane_loop.induct) (simp_all add: v_index_def Let_def cong: if_cong)

lemma ld_elems_cong: "(\<And>i e. reg_off d i e = reg_off d' i e) \<Longrightarrow>
    ld_elems d es base i el buf s k = ld_elems d' es base i el buf s k"
  by (induction d es base i el buf s k rule: ld_elems.induct) simp_all

lemma st_elems_cong: "(\<And>i e. reg_off d i e = reg_off d' i e) \<Longrightarrow>
    st_elems d es base i el buf s k = st_elems d' es base i el buf s k"
  by (induction d es base i el buf s k rule: st_elems.induct) simp_all

lemma struct_loop_cong:
  assumes ro: "\<And>i e. reg_off d i e = reg_off d' i e"
    and eq: "d_rt d = d_rt d'" "d_Q d = d_Q d'" "d_size d = d_size d'" "d_is_load d = d_is_load d'"
  shows "struct_loop d base is s k = struct_loop d' base is s k"
proof (induction "is" arbitrary: s)
  case (Cons i "is")
  show ?case
    unfolding struct_loop.simps v_index_def eq ld_elems_cong [OF ro] st_elems_cong [OF ro] Cons.IH
    by (rule refl)
qed simp

lemma dispatch_simd:
  assumes c: "c = IC_SIMD_LD1 \<or> c = IC_SIMD_ST1"
  shows "exec_simd_ldst (view_simd c d) s = exec_simd_ldst d s"
proof -
  note own = view_simd_own [OF c]
  have wb: "simd_writeback (view_simd c d) = simd_writeback d"
    unfolding simd_writeback_def own view_simd_sel by (rule refl)
  have ld1r: "ld1r_loop (view_simd c d) = ld1r_loop d"
    by (intro ext ld1r_loop_cong) simp_all
  have lane: "lane_loop (view_simd c d) = lane_loop d"
    by (intro ext lane_loop_cong) (simp_all add: own)
  have single: "exec_ld1r (view_simd c d) = exec_ld1r d" "exec_lane (view_simd c d) = exec_lane d"
    unfolding exec_ld1r_def exec_lane_def lane_of_def own view_simd_sel wb ld1r lane
    by (rule refl)+
  show ?thesis
  proof (cases "d_is_single_struct d")
    case True
    then show ?thesis
      unfolding exec_simd_ldst_def own(1-4) own(5) [OF True] view_simd_sel single by simp
  next
    case False
    have "reg_off (view_simd c d) i e = reg_off d i e" for i e
      unfolding reg_off_def own(1-4) own(6) [OF False] view_simd_sel by (rule refl)
    then have "struct_loop (view_simd c d) = struct_loop d"
      by (intro ext struct_loop_cong) (simp_all add: own)
    then have "exec_struct (view_simd c d) = exec_struct d"
      unfolding exec_struct_def own view_simd_sel wb by simp
    then show ?thesis
      using False unfolding exec_simd_ldst_def own(1-4) view_simd_sel by simp
  qed
qed

lemma view_simd_fmov:
  assumes "c = IC_FMOV_VD1 \<or> c = IC_FMOV_RVD1"
  shows "exec_fmov_vd1 (view_simd c d) = exec_fmov_vd1 d"
  unfolding exec_fmov_vd1_def view_simd_sel by (rule refl)

lemma dispatch_view: "dispatch e (exec_view d) inst s = dispatch e d inst s"
proof (cases "d_cls d")
  case (Branch b)
  then have v: "exec_view d = view_branch b d" by (simp add: exec_view_def)
  show ?thesis using Branch unfolding dispatch_def exec_view_cls by (simp add: v dispatch_branch)
next
  case (DpImm c)
  then have v: "exec_view d = view_dp_imm c d" by (simp add: exec_view_def)
  show ?thesis using DpImm unfolding dispatch_def exec_view_cls by (simp add: v dispatch_dp_imm)
next
  case (DpReg c)
  then have v: "exec_view d = view_dp_reg c d" by (simp add: exec_view_def)
  show ?thesis using DpReg unfolding dispatch_def exec_view_cls by (simp add: v dispatch_dp_reg)
next
  case (LdSt c)
  then have v: "exec_view d = view_ldst c d" by (simp add: exec_view_def)
  show ?thesis using LdSt unfolding dispatch_def exec_view_cls
    by (cases c) (simp_all add: v dispatch_ldp dispatch_ldr_imm dispatch_ldr_uns dispatch_ldr_reg)
next
  case (Atomic c)
  then have v: "exec_view d = view_atomic c d" by (simp add: exec_view_def)
  show ?thesis using Atomic unfolding dispatch_def exec_view_cls
    by (cases c) (simp_all add: v dispatch_atomic dispatch_ldxp dispatch_excl)
next
  case (Simd c)
  then have v: "exec_view d = view_simd c d" by (simp add: exec_view_def)
  show ?thesis using Simd unfolding dispatch_def exec_view_cls
    by (cases c) (simp_all add: v dispatch_simd view_simd_fmov)
next
  case (SysInst c)
  then have v: "exec_view d = view_sysinst c d" by (simp add: exec_view_def)
  show ?thesis using SysInst unfolding dispatch_def exec_view_cls
    by (cases c) (simp_all add: v dispatch_hlt dispatch_sysreg)
qed (simp_all add: dispatch_def Let_def exec_view_def exec_simd_dp_def cong: option.case_cong)

end
