(* ===== verification/DecoderProps.thy ===== *)
theory DecoderProps
  imports DecodeView
begin

text \<open>
  Properties of the decoder. The two case rules take the outer switch apart once: a statement
  about \<open>decode\<close> follows from one goal per case label, and a statement that relates the
  decodings of one word into two different slots from one goal per label as well.
\<close>

section \<open>Case rules\<close>

lemma if_rel: "(c \<longleftrightarrow> c') \<Longrightarrow> (c \<Longrightarrow> R a a') \<Longrightarrow> (\<not> c \<Longrightarrow> R b b') \<Longrightarrow>
    R (if c then a else b) (if c' then a' else b')"
  by simp

lemma decode_rel_cases:
  fixes a0 b0 inst
  defines "a \<equiv> dec_common a0 inst" and "b \<equiv> dec_common b0 inst"
  assumes "R (dec_branch a inst) (dec_branch b inst)"
    and "R (a, False) (b, False)"
    and "fld 24 0x1F inst = (0x08 :: u8) \<Longrightarrow> R (dec_08 a inst) (dec_08 b inst)"
    and "fld 24 0x1F inst = (0x09 :: u8) \<Longrightarrow> R (dec_09 a inst) (dec_09 b inst)"
    and "fld 24 0x1F inst = (0x0A :: u8) \<Longrightarrow> R (dec_0A a inst) (dec_0A b inst)"
    and "fld 24 0x1F inst = (0x0B :: u8) \<Longrightarrow> R (dec_0B a inst) (dec_0B b inst)"
    and "fld 24 0x1F inst = (0x0C :: u8) \<or> fld 24 0x1F inst = (0x0D :: u8) \<Longrightarrow> R (dec_0C a inst) (dec_0C b inst)"
    and "fld 24 0x1F inst = (0x0E :: u8) \<or> fld 24 0x1F inst = (0x0F :: u8) \<Longrightarrow> R (dec_0E a inst) (dec_0E b inst)"
    and "fld 24 0x1F inst = (0x10 :: u8) \<Longrightarrow> R (dec_10 a inst) (dec_10 b inst)"
    and "fld 24 0x1F inst = (0x11 :: u8) \<Longrightarrow> R (dec_11 a inst) (dec_11 b inst)"
    and "fld 24 0x1F inst = (0x12 :: u8) \<Longrightarrow> R (dec_12 a inst) (dec_12 b inst)"
    and "fld 24 0x1F inst = (0x13 :: u8) \<Longrightarrow> R (dec_13 a inst) (dec_13 b inst)"
    and "fld 24 0x1F inst = (0x14 :: u8) \<Longrightarrow> R (dec_14 a inst) (dec_14 b inst)"
    and "fld 24 0x1F inst = (0x15 :: u8) \<Longrightarrow> R (dec_15 a inst) (dec_15 b inst)"
    and "fld 24 0x1F inst = (0x16 :: u8) \<Longrightarrow> R (dec_16 a inst) (dec_16 b inst)"
    and "fld 24 0x1F inst = (0x17 :: u8) \<Longrightarrow> R (dec_17 a inst) (dec_17 b inst)"
    and "fld 24 0x1F inst = (0x18 :: u8) \<or> fld 24 0x1F inst = (0x1C :: u8) \<Longrightarrow> R (dec_18 a inst) (dec_18 b inst)"
    and "fld 24 0x1F inst = (0x19 :: u8) \<or> fld 24 0x1F inst = (0x1D :: u8) \<Longrightarrow> R (dec_19 a inst) (dec_19 b inst)"
    and "fld 24 0x1F inst = (0x1A :: u8) \<Longrightarrow> R (dec_1A a inst) (dec_1A b inst)"
    and "fld 24 0x1F inst = (0x1B :: u8) \<Longrightarrow> R (dec_1B a inst) (dec_1B b inst)"
    and "fld 24 0x1F inst = (0x1E :: u8) \<Longrightarrow> R (dec_1E a inst) (dec_1E b inst)"
    and "fld 24 0x1F inst = (0x1F :: u8) \<Longrightarrow> R (dec_1F a inst) (dec_1F b inst)"
    and "R (a\<lparr>d_cls := IC_UNKNOWN\<rparr>, False) (b\<lparr>d_cls := IC_UNKNOWN\<rparr>, False)"
  shows "R (decode a0 inst) (decode b0 inst)"
  unfolding decode_def Let_def a_def [symmetric] b_def [symmetric]
  by (rule if_rel [where R = R, OF refl] | erule assms(5-24) | rule assms(3-4) | rule assms(25))+

lemma if_intro: "(c \<Longrightarrow> P a) \<Longrightarrow> (\<not> c \<Longrightarrow> P b) \<Longrightarrow> P (if c then a else b)"
  by simp

lemma decode_cases:
  fixes slot inst
  defines "d \<equiv> dec_common slot inst"
  assumes "P (dec_branch d inst)"
    and "P (d, False)"
    and "fld 24 0x1F inst = (0x08 :: u8) \<Longrightarrow> P (dec_08 d inst)"
    and "fld 24 0x1F inst = (0x09 :: u8) \<Longrightarrow> P (dec_09 d inst)"
    and "fld 24 0x1F inst = (0x0A :: u8) \<Longrightarrow> P (dec_0A d inst)"
    and "fld 24 0x1F inst = (0x0B :: u8) \<Longrightarrow> P (dec_0B d inst)"
    and "fld 24 0x1F inst = (0x0C :: u8) \<or> fld 24 0x1F inst = (0x0D :: u8) \<Longrightarrow> P (dec_0C d inst)"
    and "fld 24 0x1F inst = (0x0E :: u8) \<or> fld 24 0x1F inst = (0x0F :: u8) \<Longrightarrow> P (dec_0E d inst)"
    and "fld 24 0x1F inst = (0x10 :: u8) \<Longrightarrow> P (dec_10 d inst)"
    and "fld 24 0x1F inst = (0x11 :: u8) \<Longrightarrow> P (dec_11 d inst)"
    and "fld 24 0x1F inst = (0x12 :: u8) \<Longrightarrow> P (dec_12 d inst)"
    and "fld 24 0x1F inst = (0x13 :: u8) \<Longrightarrow> P (dec_13 d inst)"
    and "fld 24 0x1F inst = (0x14 :: u8) \<Longrightarrow> P (dec_14 d inst)"
    and "fld 24 0x1F inst = (0x15 :: u8) \<Longrightarrow> P (dec_15 d inst)"
    and "fld 24 0x1F inst = (0x16 :: u8) \<Longrightarrow> P (dec_16 d inst)"
    and "fld 24 0x1F inst = (0x17 :: u8) \<Longrightarrow> P (dec_17 d inst)"
    and "fld 24 0x1F inst = (0x18 :: u8) \<or> fld 24 0x1F inst = (0x1C :: u8) \<Longrightarrow> P (dec_18 d inst)"
    and "fld 24 0x1F inst = (0x19 :: u8) \<or> fld 24 0x1F inst = (0x1D :: u8) \<Longrightarrow> P (dec_19 d inst)"
    and "fld 24 0x1F inst = (0x1A :: u8) \<Longrightarrow> P (dec_1A d inst)"
    and "fld 24 0x1F inst = (0x1B :: u8) \<Longrightarrow> P (dec_1B d inst)"
    and "fld 24 0x1F inst = (0x1E :: u8) \<Longrightarrow> P (dec_1E d inst)"
    and "fld 24 0x1F inst = (0x1F :: u8) \<Longrightarrow> P (dec_1F d inst)"
    and "P (d\<lparr>d_cls := IC_UNKNOWN\<rparr>, False)"
  shows "P (decode slot inst)"
  unfolding decode_def Let_def d_def [symmetric]
  by (rule if_intro [where P = P] | erule assms(4-23) | rule assms(2-3) | rule assms(24))+

section \<open>The slot a word is decoded into does not matter\<close>

definition same_view :: "DecodedInst \<times> bool \<Rightarrow> DecodedInst \<times> bool \<Rightarrow> bool" where
  "same_view r r' \<longleftrightarrow> snd r = snd r' \<and> exec_view (fst r) = exec_view (fst r')"

lemma dec_common_sel [simp]:
  "d_raw (dec_common d inst) = inst" "d_cls (dec_common d inst) = IC_UNKNOWN"
  "d_pc_relative (dec_common d inst) = False"
  "d_rd (dec_common d inst) = fld 0 0x1F inst" "d_rn (dec_common d inst) = fld 5 0x1F inst"
  "d_rm (dec_common d inst) = fld 16 0x1F inst" "d_rt (dec_common d inst) = fld 0 0x1F inst"
  "d_rt2 (dec_common d inst) = fld 10 0x1F inst" "d_rs (dec_common d inst) = fld 16 0x1F inst"
  "d_sf (dec_common d inst) = bit inst 31" "d_size (dec_common d inst) = fld 30 3 inst"
  "d_cond (dec_common d inst) = fld 0 0xF inst" "d_Q (dec_common d inst) = bit inst 30"
  by (simp_all add: dec_common_def)

lemma cls_if:
  "(d\<lparr>d_cls := (if c then x else y)\<rparr>, t) = (if c then (d\<lparr>d_cls := x\<rparr>, t) else (d\<lparr>d_cls := y\<rparr>, t))"
  by simp

lemmas view_defs = exec_view_def view_common_def view_branch_def view_dp_imm_def
  view_dp_reg_def view_ldst_def view_atomic_def view_simd_def view_sysinst_def Let_def

lemmas same_view_if = if_rel [where R = same_view]

lemmas cls_distrib = if_distrib [of Branch] if_distrib [of DpReg] if_distrib [of DpImm]
  if_distrib [of LdSt] if_distrib [of Atomic] if_distrib [of Simd] if_distrib [of SysInst] cls_if

lemma view_branch: "same_view (dec_branch (dec_common a inst) inst) (dec_branch (dec_common b inst) inst)"
  unfolding dec_branch_def Let_def cls_distrib
  by ((intro same_view_if)?, simp_all add: same_view_def view_defs ls_is_prefetch_def dec_fp_fields_def)

lemma view_08_pair: "same_view (dec_08_pair (dec_common a inst) inst) (dec_08_pair (dec_common b inst) inst)"
  unfolding dec_08_pair_def Let_def cls_distrib
  by ((intro same_view_if)?, simp_all add: same_view_def view_defs ls_is_prefetch_def dec_fp_fields_def)

lemma view_08_cas: "same_view (dec_08_cas (dec_common a inst) inst) (dec_08_cas (dec_common b inst) inst)"
  unfolding dec_08_cas_def Let_def cls_distrib
  by ((intro same_view_if)?, simp_all add: same_view_def view_defs ls_is_prefetch_def dec_fp_fields_def)

lemma view_08_excl: "same_view (dec_08_excl (dec_common a inst) inst) (dec_08_excl (dec_common b inst) inst)"
  unfolding dec_08_excl_def Let_def cls_distrib
  by ((intro same_view_if)?, simp_all add: same_view_def view_defs ls_is_prefetch_def dec_fp_fields_def)

lemma view_09: "same_view (dec_09 (dec_common a inst) inst) (dec_09 (dec_common b inst) inst)"
  unfolding dec_09_def Let_def cls_distrib
  by ((intro same_view_if)?, simp_all add: same_view_def view_defs ls_is_prefetch_def dec_fp_fields_def)

lemma view_0A: "same_view (dec_0A (dec_common a inst) inst) (dec_0A (dec_common b inst) inst)"
  unfolding dec_0A_def Let_def cls_distrib
  by ((intro same_view_if)?, simp_all add: same_view_def view_defs ls_is_prefetch_def dec_fp_fields_def)

text \<open>
  In case 0x0B bit 21 alone separates the two forms, as the handler's test of the raw word does.
\<close>

lemma is_extended_reg_bits: "is_extended_reg w \<longleftrightarrow>
    bit w 21 \<and> \<not> bit w 22 \<and> \<not> bit w 23 \<and> bit w 24 \<and> bit w 25 \<and> \<not> bit w 26 \<and> bit w 27 \<and> \<not> bit w 28"
  by (auto simp add: is_extended_reg_def u32_eq_bits bit_simps)

lemma is_extended_reg_0B:
  assumes "fld 24 0x1F inst = (0x0B :: u8)" and "bit inst 21 \<Longrightarrow> fld 22 3 inst = (0 :: u8)"
  shows "is_extended_reg inst \<longleftrightarrow> bit inst 21"
  using assms by (auto simp add: is_extended_reg_bits u8_eq_bits bit_fld)

lemma view_0B:
  assumes op: "fld 24 0x1F inst = (0x0B :: u8)"
  shows "same_view (dec_0B (dec_common a inst) inst) (dec_0B (dec_common b inst) inst)"
proof (cases "bit inst 21 \<and> fld 22 3 inst \<noteq> (0 :: u8)")
  case False
  then have e: "is_extended_reg inst \<longleftrightarrow> bit inst 21"
    using op by (intro is_extended_reg_0B) auto
  show ?thesis
    using False by (cases "bit inst 21"; cases "bit inst 29"; cases "bit inst 30")
      (simp_all add: dec_0B_def same_view_def view_defs e)
qed (simp add: dec_0B_def same_view_def view_defs)

lemma view_0C_struct:
  "same_view (dec_0C_struct (dec_common a inst) inst) (dec_0C_struct (dec_common b inst) inst)"
proof (cases "bit inst 31")
  case False
  then show ?thesis
    by (cases "bit inst 22"; cases "bit inst 24")
       (simp_all add: dec_0C_struct_def same_view_def view_defs)
qed (simp add: dec_0C_struct_def same_view_def view_defs)

lemma view_0C_pair: "same_view (dec_0C_pair (dec_common a inst) inst) (dec_0C_pair (dec_common b inst) inst)"
  unfolding dec_0C_pair_def Let_def cls_distrib
  by ((intro same_view_if)?, simp_all add: same_view_def view_defs ls_is_prefetch_def dec_fp_fields_def)

lemma view_0E: "same_view (dec_0E (dec_common a inst) inst) (dec_0E (dec_common b inst) inst)"
  unfolding dec_0E_def Let_def cls_distrib
  by ((intro same_view_if)?, simp_all add: same_view_def view_defs ls_is_prefetch_def dec_fp_fields_def)

lemma view_10: "same_view (dec_10 (dec_common a inst) inst) (dec_10 (dec_common b inst) inst)"
  unfolding dec_10_def Let_def cls_distrib
  by ((intro same_view_if)?, simp_all add: same_view_def view_defs ls_is_prefetch_def dec_fp_fields_def)

lemma view_11: "same_view (dec_11 (dec_common a inst) inst) (dec_11 (dec_common b inst) inst)"
  unfolding dec_11_def Let_def cls_distrib
  by ((intro same_view_if)?, simp_all add: same_view_def view_defs ls_is_prefetch_def dec_fp_fields_def)

lemma view_12_wide: "same_view (dec_12_wide (dec_common a inst) inst) (dec_12_wide (dec_common b inst) inst)"
  unfolding dec_12_wide_def Let_def cls_distrib
  by ((intro same_view_if)?, simp_all add: same_view_def view_defs ls_is_prefetch_def dec_fp_fields_def)

lemma view_13: "same_view (dec_13 (dec_common a inst) inst) (dec_13 (dec_common b inst) inst)"
  unfolding dec_13_def Let_def cls_distrib
  by ((intro same_view_if)?, simp_all add: same_view_def view_defs ls_is_prefetch_def dec_fp_fields_def)

lemma view_14_sys: "same_view (dec_14_sys (dec_common a inst) inst) (dec_14_sys (dec_common b inst) inst)"
  unfolding dec_14_sys_def Let_def cls_distrib
  by ((intro same_view_if)?, simp_all add: same_view_def view_defs ls_is_prefetch_def dec_fp_fields_def)

lemma view_15_sys: "same_view (dec_15_sys (dec_common a inst) inst) (dec_15_sys (dec_common b inst) inst)"
  unfolding dec_15_sys_def Let_def cls_distrib
  by ((intro same_view_if)?, simp_all add: same_view_def view_defs ls_is_prefetch_def dec_fp_fields_def)

lemma view_16: "same_view (dec_16 (dec_common a inst) inst) (dec_16 (dec_common b inst) inst)"
  unfolding dec_16_def Let_def cls_distrib
  by ((intro same_view_if)?, simp_all add: same_view_def view_defs ls_is_prefetch_def dec_fp_fields_def)

lemma view_17: "same_view (dec_17 (dec_common a inst) inst) (dec_17 (dec_common b inst) inst)"
  unfolding dec_17_def Let_def cls_distrib
  by ((intro same_view_if)?, simp_all add: same_view_def view_defs ls_is_prefetch_def dec_fp_fields_def)

lemma view_18_literal: "same_view (dec_18_literal (dec_common a inst) inst) (dec_18_literal (dec_common b inst) inst)"
  unfolding dec_18_literal_def Let_def cls_distrib
  by ((intro same_view_if)?, simp_all add: same_view_def view_defs ls_is_prefetch_def dec_fp_fields_def)

lemma view_18_unscaled: "same_view (dec_18_unscaled (dec_common a inst) inst) (dec_18_unscaled (dec_common b inst) inst)"
  unfolding dec_18_unscaled_def Let_def cls_distrib
  by ((intro same_view_if)?, simp_all add: same_view_def view_defs ls_is_prefetch_def dec_fp_fields_def)

lemma view_18_lse: "same_view (dec_18_lse (dec_common a inst) inst) (dec_18_lse (dec_common b inst) inst)"
  unfolding dec_18_lse_def Let_def cls_distrib
  by ((intro same_view_if)?, simp_all add: same_view_def view_defs ls_is_prefetch_def dec_fp_fields_def)

lemma view_18_regoff: "same_view (dec_18_regoff (dec_common a inst) inst) (dec_18_regoff (dec_common b inst) inst)"
  unfolding dec_18_regoff_def Let_def cls_distrib
  by ((intro same_view_if)?, simp_all add: same_view_def view_defs ls_is_prefetch_def dec_fp_fields_def)

lemma view_19: "same_view (dec_19 (dec_common a inst) inst) (dec_19 (dec_common b inst) inst)"
  unfolding dec_19_def Let_def cls_distrib
  by ((intro same_view_if)?, simp_all add: same_view_def view_defs ls_is_prefetch_def dec_fp_fields_def)

lemma view_1A_adc: "same_view (dec_1A_adc (dec_common a inst) inst) (dec_1A_adc (dec_common b inst) inst)"
  unfolding dec_1A_adc_def Let_def cls_distrib
  by ((intro same_view_if)?, simp_all add: same_view_def view_defs ls_is_prefetch_def dec_fp_fields_def)

lemma view_1A_ccmp: "same_view (dec_1A_ccmp (dec_common a inst) inst) (dec_1A_ccmp (dec_common b inst) inst)"
  unfolding dec_1A_ccmp_def Let_def cls_distrib
  by ((intro same_view_if)?, simp_all add: same_view_def view_defs ls_is_prefetch_def dec_fp_fields_def)

lemma view_1A_csel: "same_view (dec_1A_csel (dec_common a inst) inst) (dec_1A_csel (dec_common b inst) inst)"
  unfolding dec_1A_csel_def Let_def cls_distrib
  by ((intro same_view_if)?, simp_all add: same_view_def view_defs ls_is_prefetch_def dec_fp_fields_def)

lemma view_1A_1src: "same_view (dec_1A_1src (dec_common a inst) inst) (dec_1A_1src (dec_common b inst) inst)"
  unfolding dec_1A_1src_def Let_def cls_distrib
  by ((intro same_view_if)?, simp_all add: same_view_def view_defs ls_is_prefetch_def dec_fp_fields_def)

lemma view_1A_2src: "same_view (dec_1A_2src (dec_common a inst) inst) (dec_1A_2src (dec_common b inst) inst)"
  unfolding dec_1A_2src_def Let_def cls_distrib
  by ((intro same_view_if)?, simp_all add: same_view_def view_defs ls_is_prefetch_def dec_fp_fields_def)

lemma view_1B: "same_view (dec_1B (dec_common a inst) inst) (dec_1B (dec_common b inst) inst)"
  unfolding dec_1B_def Let_def cls_distrib
  by ((intro same_view_if)?, simp_all add: same_view_def view_defs ls_is_prefetch_def dec_fp_fields_def)

lemma view_1E: "same_view (dec_1E (dec_common a inst) inst) (dec_1E (dec_common b inst) inst)"
  unfolding dec_1E_def Let_def cls_distrib
  by ((intro same_view_if)?, simp_all add: same_view_def view_defs ls_is_prefetch_def dec_fp_fields_def)

lemma view_1F: "same_view (dec_1F (dec_common a inst) inst) (dec_1F (dec_common b inst) inst)"
  unfolding dec_1F_def Let_def cls_distrib
  by ((intro same_view_if)?, simp_all add: same_view_def view_defs ls_is_prefetch_def dec_fp_fields_def)

lemma same_view_option:
  "x = x' \<Longrightarrow> same_view a a' \<Longrightarrow> (\<And>v. same_view (f v) (f' v)) \<Longrightarrow>
    same_view (case x of None \<Rightarrow> a | Some v \<Rightarrow> f v) (case x' of None \<Rightarrow> a' | Some v \<Rightarrow> f' v)"
  by (cases x') simp_all

lemma view_12_logical:
  "same_view (dec_12_logical (dec_common a inst) inst) (dec_12_logical (dec_common b inst) inst)"
  unfolding dec_12_logical_def Let_def cls_distrib
  by (intro same_view_option same_view_if refl) (simp_all add: same_view_def view_defs)

lemma view_14: "same_view (dec_14 (dec_common a inst) inst) (dec_14 (dec_common b inst) inst)"
  unfolding dec_14_def Let_def
  by (intro same_view_if refl view_14_sys) (simp_all add: same_view_def view_defs)

lemma view_15: "same_view (dec_15 (dec_common a inst) inst) (dec_15 (dec_common b inst) inst)"
  unfolding dec_15_def Let_def
  by (intro same_view_if refl view_15_sys) (simp_all add: same_view_def view_defs)

lemmas view_sub_cases = view_08_pair view_08_cas view_08_excl view_0C_struct view_0C_pair
  view_12_wide view_12_logical view_18_literal view_18_unscaled
  view_18_lse view_18_regoff view_1A_adc view_1A_ccmp view_1A_csel view_1A_1src view_1A_2src

lemma same_view_refused: "same_view (dec_common a inst, False) (dec_common b inst, False)"
  "same_view (dec_common a inst\<lparr>d_cls := IC_UNKNOWN\<rparr>, False)
     (dec_common b inst\<lparr>d_cls := IC_UNKNOWN\<rparr>, False)"
  by (simp_all add: same_view_def view_defs)

lemma decode_same_view: "same_view (decode a inst) (decode b inst)"
  by (rule decode_rel_cases [where R = same_view])
     (simp_all add: view_branch same_view_refused dec_08_def view_sub_cases view_09 view_0A
       view_0B dec_0C_def view_0E view_10 view_11 dec_12_def view_13 view_14 view_15 view_16
       view_17 dec_18_def Let_def view_19 dec_1A_def view_1B view_1E view_1F)

theorem dispatch_any_slot:
  "dispatch e (fst (decode a inst)) w s = dispatch e (fst (decode b inst)) w s"
proof -
  have "exec_view (fst (decode a inst)) = exec_view (fst (decode b inst))"
    using decode_same_view [of a inst b] by (simp add: same_view_def)
  then show ?thesis using dispatch_view [of e _ w s] by metis
qed

end
