(* ===== verification/DecoderWf.thy ===== *)
theory DecoderWf
  imports DecoderProps
begin

text \<open>
  What the caller of \<open>decode\<close> may rely on: the result tells whether a class was found, the word
  is kept in \<open>raw\<close>, and every field that later indexes a register file or a shift is in range.
\<close>

section \<open>The boolean result is the class\<close>

definition dec_agrees :: "u32 \<Rightarrow> DecodedInst \<times> bool \<Rightarrow> bool" where
  "dec_agrees inst r \<longleftrightarrow>
     d_raw (fst r) = inst \<and> (snd r \<longleftrightarrow> d_cls (fst r) \<noteq> IC_UNKNOWN)"

lemmas dec_agrees_if = if_intro [where P = "dec_agrees inst" for inst]

lemma agrees_branch: "d_raw d = inst \<Longrightarrow> d_cls d = IC_UNKNOWN \<Longrightarrow> dec_agrees inst (dec_branch d inst)"
  by (simp add: dec_branch_def Let_def dec_agrees_def dec_fp_fields_def)

lemma agrees_08_pair: "d_raw d = inst \<Longrightarrow> d_cls d = IC_UNKNOWN \<Longrightarrow> dec_agrees inst (dec_08_pair d inst)"
  by (simp add: dec_08_pair_def Let_def dec_agrees_def dec_fp_fields_def)

lemma agrees_08_cas: "d_raw d = inst \<Longrightarrow> d_cls d = IC_UNKNOWN \<Longrightarrow> dec_agrees inst (dec_08_cas d inst)"
  by (simp add: dec_08_cas_def Let_def dec_agrees_def dec_fp_fields_def)

lemma agrees_08_excl: "d_raw d = inst \<Longrightarrow> d_cls d = IC_UNKNOWN \<Longrightarrow> dec_agrees inst (dec_08_excl d inst)"
  by (simp add: dec_08_excl_def Let_def dec_agrees_def dec_fp_fields_def)

lemma agrees_09: "d_raw d = inst \<Longrightarrow> d_cls d = IC_UNKNOWN \<Longrightarrow> dec_agrees inst (dec_09 d inst)"
  by (simp add: dec_09_def Let_def dec_agrees_def dec_fp_fields_def)

lemma agrees_0A: "d_raw d = inst \<Longrightarrow> d_cls d = IC_UNKNOWN \<Longrightarrow> dec_agrees inst (dec_0A d inst)"
  by (simp add: dec_0A_def Let_def dec_agrees_def dec_fp_fields_def)

lemma agrees_0B: "d_raw d = inst \<Longrightarrow> d_cls d = IC_UNKNOWN \<Longrightarrow> dec_agrees inst (dec_0B d inst)"
  by (simp add: dec_0B_def Let_def dec_agrees_def dec_fp_fields_def)

lemma agrees_0C_struct: "d_raw d = inst \<Longrightarrow> d_cls d = IC_UNKNOWN \<Longrightarrow> dec_agrees inst (dec_0C_struct d inst)"
  by (simp add: dec_0C_struct_def Let_def dec_agrees_def dec_fp_fields_def)

lemma agrees_0C_pair: "d_raw d = inst \<Longrightarrow> d_cls d = IC_UNKNOWN \<Longrightarrow> dec_agrees inst (dec_0C_pair d inst)"
  by (simp add: dec_0C_pair_def Let_def dec_agrees_def dec_fp_fields_def)

lemma agrees_0E: "d_raw d = inst \<Longrightarrow> d_cls d = IC_UNKNOWN \<Longrightarrow> dec_agrees inst (dec_0E d inst)"
  by (simp add: dec_0E_def Let_def dec_agrees_def dec_fp_fields_def)

lemma agrees_10: "d_raw d = inst \<Longrightarrow> d_cls d = IC_UNKNOWN \<Longrightarrow> dec_agrees inst (dec_10 d inst)"
  by (simp add: dec_10_def Let_def dec_agrees_def dec_fp_fields_def)

lemma agrees_11: "d_raw d = inst \<Longrightarrow> d_cls d = IC_UNKNOWN \<Longrightarrow> dec_agrees inst (dec_11 d inst)"
  by (simp add: dec_11_def Let_def dec_agrees_def dec_fp_fields_def)

lemma agrees_12_wide: "d_raw d = inst \<Longrightarrow> d_cls d = IC_UNKNOWN \<Longrightarrow> dec_agrees inst (dec_12_wide d inst)"
  by (simp add: dec_12_wide_def Let_def dec_agrees_def dec_fp_fields_def)

lemma agrees_12_logical: "d_raw d = inst \<Longrightarrow> d_cls d = IC_UNKNOWN \<Longrightarrow> dec_agrees inst (dec_12_logical d inst)"
  by (simp add: dec_12_logical_def Let_def dec_agrees_def split: option.split)

lemma agrees_13: "d_raw d = inst \<Longrightarrow> d_cls d = IC_UNKNOWN \<Longrightarrow> dec_agrees inst (dec_13 d inst)"
  by (simp add: dec_13_def Let_def dec_agrees_def dec_fp_fields_def)

lemma agrees_14_sys: "d_raw d = inst \<Longrightarrow> d_cls d = IC_UNKNOWN \<Longrightarrow> dec_agrees inst (dec_14_sys d inst)"
  by (simp add: dec_14_sys_def Let_def dec_agrees_def dec_fp_fields_def)

lemma agrees_15_sys: "d_raw d = inst \<Longrightarrow> d_cls d = IC_UNKNOWN \<Longrightarrow> dec_agrees inst (dec_15_sys d inst)"
  by (simp add: dec_15_sys_def Let_def dec_agrees_def dec_fp_fields_def)

lemma agrees_16: "d_raw d = inst \<Longrightarrow> d_cls d = IC_UNKNOWN \<Longrightarrow> dec_agrees inst (dec_16 d inst)"
  by (simp add: dec_16_def Let_def dec_agrees_def dec_fp_fields_def)

lemma agrees_17: "d_raw d = inst \<Longrightarrow> d_cls d = IC_UNKNOWN \<Longrightarrow> dec_agrees inst (dec_17 d inst)"
  by (simp add: dec_17_def Let_def dec_agrees_def dec_fp_fields_def)

lemma agrees_18_literal: "d_raw d = inst \<Longrightarrow> d_cls d = IC_UNKNOWN \<Longrightarrow> dec_agrees inst (dec_18_literal d inst)"
  by (simp add: dec_18_literal_def Let_def dec_agrees_def dec_fp_fields_def)

lemma agrees_18_unscaled: "d_raw d = inst \<Longrightarrow> d_cls d = IC_UNKNOWN \<Longrightarrow> dec_agrees inst (dec_18_unscaled d inst)"
  by (simp add: dec_18_unscaled_def Let_def dec_agrees_def dec_fp_fields_def)

lemma agrees_18_lse: "d_raw d = inst \<Longrightarrow> d_cls d = IC_UNKNOWN \<Longrightarrow> dec_agrees inst (dec_18_lse d inst)"
  by (simp add: dec_18_lse_def Let_def dec_agrees_def dec_fp_fields_def)

lemma agrees_18_regoff: "d_raw d = inst \<Longrightarrow> d_cls d = IC_UNKNOWN \<Longrightarrow> dec_agrees inst (dec_18_regoff d inst)"
  by (simp add: dec_18_regoff_def Let_def dec_agrees_def dec_fp_fields_def)

lemma agrees_19: "d_raw d = inst \<Longrightarrow> d_cls d = IC_UNKNOWN \<Longrightarrow> dec_agrees inst (dec_19 d inst)"
  by (simp add: dec_19_def Let_def dec_agrees_def dec_fp_fields_def)

lemma agrees_1A_adc: "d_raw d = inst \<Longrightarrow> d_cls d = IC_UNKNOWN \<Longrightarrow> dec_agrees inst (dec_1A_adc d inst)"
  by (simp add: dec_1A_adc_def Let_def dec_agrees_def dec_fp_fields_def)

lemma agrees_1A_ccmp: "d_raw d = inst \<Longrightarrow> d_cls d = IC_UNKNOWN \<Longrightarrow> dec_agrees inst (dec_1A_ccmp d inst)"
  by (simp add: dec_1A_ccmp_def Let_def dec_agrees_def dec_fp_fields_def)

lemma agrees_1A_csel: "d_raw d = inst \<Longrightarrow> d_cls d = IC_UNKNOWN \<Longrightarrow> dec_agrees inst (dec_1A_csel d inst)"
  by (simp add: dec_1A_csel_def Let_def dec_agrees_def dec_fp_fields_def)

lemma agrees_1A_1src: "d_raw d = inst \<Longrightarrow> d_cls d = IC_UNKNOWN \<Longrightarrow> dec_agrees inst (dec_1A_1src d inst)"
  by (simp add: dec_1A_1src_def Let_def dec_agrees_def dec_fp_fields_def)

lemma agrees_1A_2src: "d_raw d = inst \<Longrightarrow> d_cls d = IC_UNKNOWN \<Longrightarrow> dec_agrees inst (dec_1A_2src d inst)"
  by (simp add: dec_1A_2src_def Let_def dec_agrees_def dec_fp_fields_def)

lemma agrees_1B: "d_raw d = inst \<Longrightarrow> d_cls d = IC_UNKNOWN \<Longrightarrow> dec_agrees inst (dec_1B d inst)"
  by (simp add: dec_1B_def Let_def dec_agrees_def dec_fp_fields_def)

lemma agrees_1E: "d_raw d = inst \<Longrightarrow> d_cls d = IC_UNKNOWN \<Longrightarrow> dec_agrees inst (dec_1E d inst)"
  by (simp add: dec_1E_def Let_def dec_agrees_def dec_fp_fields_def)

lemma agrees_1F: "d_raw d = inst \<Longrightarrow> d_cls d = IC_UNKNOWN \<Longrightarrow> dec_agrees inst (dec_1F d inst)"
  by (simp add: dec_1F_def Let_def dec_agrees_def dec_fp_fields_def)

lemma agrees_refused:
  "dec_agrees inst (dec_common slot inst, False)"
  "dec_agrees inst (dec_common slot inst\<lparr>d_cls := IC_UNKNOWN\<rparr>, False)"
  by (simp_all add: dec_agrees_def)

lemmas agrees_sub_cases = agrees_08_pair agrees_08_cas agrees_08_excl agrees_0C_struct
  agrees_0C_pair agrees_12_wide agrees_12_logical agrees_14_sys agrees_15_sys agrees_18_literal
  agrees_18_unscaled agrees_18_lse agrees_18_regoff agrees_1A_adc agrees_1A_ccmp agrees_1A_csel
  agrees_1A_1src agrees_1A_2src

lemma agrees_14: "d_raw d = inst \<Longrightarrow> d_cls d = IC_UNKNOWN \<Longrightarrow> dec_agrees inst (dec_14 d inst)"
  unfolding dec_14_def Let_def by (intro dec_agrees_if agrees_14_sys) (simp_all add: dec_agrees_def)

lemma agrees_15: "d_raw d = inst \<Longrightarrow> d_cls d = IC_UNKNOWN \<Longrightarrow> dec_agrees inst (dec_15 d inst)"
  unfolding dec_15_def Let_def by (intro dec_agrees_if agrees_15_sys) (simp_all add: dec_agrees_def)

lemma decode_agrees: "dec_agrees inst (decode slot inst)"
  by (rule decode_cases [where P = "dec_agrees inst"])
     (simp_all add: agrees_refused agrees_branch dec_08_def agrees_sub_cases agrees_09 agrees_0A
       agrees_0B dec_0C_def agrees_0E agrees_10 agrees_11 dec_12_def agrees_13 agrees_14 agrees_15
       agrees_16 agrees_17 dec_18_def Let_def agrees_19 dec_1A_def agrees_1B agrees_1E agrees_1F
       dec_agrees_def [of inst "(d, False)" for d] )

lemma decode_raw [simp]: "d_raw (fst (decode slot inst)) = inst"
  using decode_agrees by (simp add: dec_agrees_def)

section \<open>Every index is in range\<close>

definition fields_ok :: "DecodedInst \<Rightarrow> bool" where
  "fields_ok d \<longleftrightarrow>
     d_rd d < 32 \<and> d_rn d < 32 \<and> d_rm d < 32 \<and> d_ra d < 32 \<and> d_rt d < 32 \<and> d_rt2 d < 32 \<and>
     d_rs d < 32 \<and> d_cond d < 16 \<and> d_size d < 4 \<and> d_shift d < 64 \<and> d_shift_type d < 4 \<and>
     d_simd_count d < 5"

text \<open>Only even register pairs reach CASP, and only bit numbers of a register reach TBZ.\<close>

definition class_ok :: "DecodedInst \<Rightarrow> bool" where
  "class_ok d \<longleftrightarrow>
     (d_cls d = Atomic IC_CASP \<longrightarrow> \<not> bit (d_rs d) 0 \<and> \<not> bit (d_rt d) 0) \<and>
     (d_cls d = Branch IC_TBZ \<or> d_cls d = Branch IC_TBNZ \<longrightarrow> d_imm_u d < 64)"

lemma fld_index_bounds [field_bounds, simp]:
  "fld k 0x1F (w :: u32) < (32 :: u8)" "fld k 0xF (w :: u32) < (16 :: u8)"
  "fld k 3 (w :: u32) < (4 :: u8)" "fld k 7 (w :: u32) < (64 :: u8)"
  "fld k 0x3F (w :: u32) < (64 :: u8)" "fld k 1 (w :: u32) < (64 :: u8)"
  by (rule fld_less, simp)+

lemma fld_1_cases: "fld k 1 (w :: u32) = (0 :: 'a::len word) \<or> fld k 1 w = (1 :: 'a word)"
proof -
  have "drop_bit k w AND 1 = 0 \<or> drop_bit k w AND 1 = 1"
    by (simp add: and_one_eq one_and_eq mod_2_eq_odd)
  then show ?thesis by (auto simp: fld_def)
qed

lemma fld_3_times_16: "fld k 3 (w :: u32) * 16 < (64 :: u8)"
proof -
  have "(fld k 3 w :: u8) \<in> {0, 1, 2, 3}"
    using fld_index_bounds(3) [of k w] by (simp add: word_less_nat_alt) unat_arith
  then show ?thesis by auto
qed

lemma fld_1_size: "2 + fld k 1 (w :: u32) < (4 :: u8)"
  using fld_1_cases [of k w, where 'a = 8] by auto

lemma simd_count_bound: "(push_bit 1 (fld i 1 (w :: u32)) OR fld j 1 w) + 1 < (5 :: u8)"
  using fld_1_cases [of i w, where 'a = 8] fld_1_cases [of j w, where 'a = 8] by auto

lemma simd_count_bound' [simp]: "(fld i 1 (w :: u32) * 2 OR fld j 1 w) + 1 < (5 :: u8)"
  using simd_count_bound [of i w j] by (simp add: push_bit_eq_mult)

lemma low5_bound [simp]: "(ucast ((w :: u32) AND 31) :: u8) < 32"
  using fld_index_bounds(1) [of 0 w] by (simp add: fld_def)

lemma test_bit_number_bound: "test_bit_number inst < 64"
proof -
  have "fld 19 0x1F inst < (32 :: u64)" by (rule fld_less) simp
  then have y: "take_bit 5 (fld 19 0x1F inst) = (fld 19 0x1F inst :: u64)"
    using word_less_exp_iff [of 5 "fld 19 0x1F inst :: u64"] by simp
  have "take_bit 6 (push_bit 5 (fld 31 1 inst) OR fld 19 0x1F inst) =
      push_bit 5 (fld 31 1 inst) OR (fld 19 0x1F inst :: u64)"
    using fld_1_cases [of 31 inst, where 'a = 64]
    by (subst (1 2) y [symmetric]) (auto simp: take_bit_or)
  then show ?thesis
    using word_less_exp_iff [of 6 "test_bit_number inst"] by (simp add: test_bit_number_def Let_def)
qed

lemma ok_branch: "fields_ok d \<Longrightarrow> fields_ok (fst (dec_branch d inst))"
  by (simp add: dec_branch_def Let_def fields_ok_def dec_fp_fields_def fld_3_times_16 fld_1_size simd_count_bound)

lemma ok_08_pair: "fields_ok d \<Longrightarrow> fields_ok (fst (dec_08_pair d inst))"
  by (simp add: dec_08_pair_def Let_def fields_ok_def dec_fp_fields_def fld_3_times_16 fld_1_size simd_count_bound)

lemma ok_08_cas: "fields_ok d \<Longrightarrow> fields_ok (fst (dec_08_cas d inst))"
  by (simp add: dec_08_cas_def Let_def fields_ok_def dec_fp_fields_def fld_3_times_16 fld_1_size simd_count_bound)

lemma ok_08_excl: "fields_ok d \<Longrightarrow> fields_ok (fst (dec_08_excl d inst))"
  by (simp add: dec_08_excl_def Let_def fields_ok_def dec_fp_fields_def fld_3_times_16 fld_1_size simd_count_bound)

lemma ok_09: "fields_ok d \<Longrightarrow> fields_ok (fst (dec_09 d inst))"
  by (simp add: dec_09_def Let_def fields_ok_def dec_fp_fields_def fld_3_times_16 fld_1_size simd_count_bound)

lemma ok_0A: "fields_ok d \<Longrightarrow> fields_ok (fst (dec_0A d inst))"
  by (simp add: dec_0A_def Let_def fields_ok_def dec_fp_fields_def fld_3_times_16 fld_1_size simd_count_bound)

lemma ok_0B: "fields_ok d \<Longrightarrow> fields_ok (fst (dec_0B d inst))"
  by (simp add: dec_0B_def Let_def fields_ok_def dec_fp_fields_def fld_3_times_16 fld_1_size simd_count_bound)

lemma ok_0C_struct: "fields_ok d \<Longrightarrow> fields_ok (fst (dec_0C_struct d inst))"
  by (simp add: dec_0C_struct_def Let_def fields_ok_def dec_fp_fields_def fld_3_times_16 fld_1_size simd_count_bound)

lemma ok_0C_pair: "fields_ok d \<Longrightarrow> fields_ok (fst (dec_0C_pair d inst))"
  by (simp add: dec_0C_pair_def Let_def fields_ok_def dec_fp_fields_def fld_3_times_16 fld_1_size simd_count_bound)

lemma ok_0E: "fields_ok d \<Longrightarrow> fields_ok (fst (dec_0E d inst))"
  by (simp add: dec_0E_def Let_def fields_ok_def dec_fp_fields_def fld_3_times_16 fld_1_size simd_count_bound)

lemma ok_10: "fields_ok d \<Longrightarrow> fields_ok (fst (dec_10 d inst))"
  by (simp add: dec_10_def Let_def fields_ok_def dec_fp_fields_def fld_3_times_16 fld_1_size simd_count_bound)

lemma ok_11: "fields_ok d \<Longrightarrow> fields_ok (fst (dec_11 d inst))"
  by (simp add: dec_11_def Let_def fields_ok_def dec_fp_fields_def fld_3_times_16 fld_1_size simd_count_bound)

lemma ok_12_wide: "fields_ok d \<Longrightarrow> fields_ok (fst (dec_12_wide d inst))"
  by (simp add: dec_12_wide_def Let_def fields_ok_def dec_fp_fields_def fld_3_times_16 fld_1_size simd_count_bound)

lemma ok_12_logical: "fields_ok d \<Longrightarrow> fields_ok (fst (dec_12_logical d inst))"
  by (simp add: dec_12_logical_def Let_def fields_ok_def dec_fp_fields_def fld_3_times_16 fld_1_size simd_count_bound split: option.split)

lemma ok_13: "fields_ok d \<Longrightarrow> fields_ok (fst (dec_13 d inst))"
  by (simp add: dec_13_def Let_def fields_ok_def dec_fp_fields_def fld_3_times_16 fld_1_size simd_count_bound)

lemma ok_14_sys: "fields_ok d \<Longrightarrow> fields_ok (fst (dec_14_sys d inst))"
  by (simp add: dec_14_sys_def Let_def fields_ok_def dec_fp_fields_def fld_3_times_16 fld_1_size simd_count_bound)

lemma ok_15_sys: "fields_ok d \<Longrightarrow> fields_ok (fst (dec_15_sys d inst))"
  by (simp add: dec_15_sys_def Let_def fields_ok_def dec_fp_fields_def fld_3_times_16 fld_1_size simd_count_bound)

lemma ok_16: "fields_ok d \<Longrightarrow> fields_ok (fst (dec_16 d inst))"
  by (simp add: dec_16_def Let_def fields_ok_def dec_fp_fields_def fld_3_times_16 fld_1_size simd_count_bound)

lemma ok_17: "fields_ok d \<Longrightarrow> fields_ok (fst (dec_17 d inst))"
  by (simp add: dec_17_def Let_def fields_ok_def dec_fp_fields_def fld_3_times_16 fld_1_size simd_count_bound)

lemma ok_18_literal: "fields_ok d \<Longrightarrow> fields_ok (fst (dec_18_literal d inst))"
  by (simp add: dec_18_literal_def Let_def fields_ok_def dec_fp_fields_def fld_3_times_16 fld_1_size simd_count_bound)

lemma ok_18_unscaled: "fields_ok d \<Longrightarrow> fields_ok (fst (dec_18_unscaled d inst))"
  by (simp add: dec_18_unscaled_def Let_def fields_ok_def dec_fp_fields_def fld_3_times_16 fld_1_size simd_count_bound)

lemma ok_18_lse: "fields_ok d \<Longrightarrow> fields_ok (fst (dec_18_lse d inst))"
  by (simp add: dec_18_lse_def Let_def fields_ok_def dec_fp_fields_def fld_3_times_16 fld_1_size simd_count_bound)

lemma ok_18_regoff: "fields_ok d \<Longrightarrow> fields_ok (fst (dec_18_regoff d inst))"
  by (simp add: dec_18_regoff_def Let_def fields_ok_def dec_fp_fields_def fld_3_times_16 fld_1_size simd_count_bound)

lemma ok_19: "fields_ok d \<Longrightarrow> fields_ok (fst (dec_19 d inst))"
  by (simp add: dec_19_def Let_def fields_ok_def dec_fp_fields_def fld_3_times_16 fld_1_size simd_count_bound)

lemma ok_1A_adc: "fields_ok d \<Longrightarrow> fields_ok (fst (dec_1A_adc d inst))"
  by (simp add: dec_1A_adc_def Let_def fields_ok_def dec_fp_fields_def fld_3_times_16 fld_1_size simd_count_bound)

lemma ok_1A_ccmp: "fields_ok d \<Longrightarrow> fields_ok (fst (dec_1A_ccmp d inst))"
  by (simp add: dec_1A_ccmp_def Let_def fields_ok_def dec_fp_fields_def fld_3_times_16 fld_1_size simd_count_bound)

lemma ok_1A_csel: "fields_ok d \<Longrightarrow> fields_ok (fst (dec_1A_csel d inst))"
  by (simp add: dec_1A_csel_def Let_def fields_ok_def dec_fp_fields_def fld_3_times_16 fld_1_size simd_count_bound)

lemma ok_1A_1src: "fields_ok d \<Longrightarrow> fields_ok (fst (dec_1A_1src d inst))"
  by (simp add: dec_1A_1src_def Let_def fields_ok_def dec_fp_fields_def fld_3_times_16 fld_1_size simd_count_bound)

lemma ok_1A_2src: "fields_ok d \<Longrightarrow> fields_ok (fst (dec_1A_2src d inst))"
  by (simp add: dec_1A_2src_def Let_def fields_ok_def dec_fp_fields_def fld_3_times_16 fld_1_size simd_count_bound)

lemma ok_1B: "fields_ok d \<Longrightarrow> fields_ok (fst (dec_1B d inst))"
  by (simp add: dec_1B_def Let_def fields_ok_def dec_fp_fields_def fld_3_times_16 fld_1_size simd_count_bound)

lemma ok_1E: "fields_ok d \<Longrightarrow> fields_ok (fst (dec_1E d inst))"
  by (simp add: dec_1E_def Let_def fields_ok_def dec_fp_fields_def fld_3_times_16 fld_1_size simd_count_bound)

lemma ok_1F: "fields_ok d \<Longrightarrow> fields_ok (fst (dec_1F d inst))"
  by (simp add: dec_1F_def Let_def fields_ok_def dec_fp_fields_def fld_3_times_16 fld_1_size simd_count_bound)

lemmas ok_sub_cases = ok_08_pair ok_08_cas ok_08_excl ok_0C_struct ok_0C_pair ok_12_wide
  ok_12_logical ok_18_literal ok_18_unscaled ok_18_lse ok_18_regoff ok_1A_adc ok_1A_ccmp
  ok_1A_csel ok_1A_1src ok_1A_2src

lemma ok_14: "fields_ok d \<Longrightarrow> fields_ok (fst (dec_14 d inst))"
  unfolding dec_14_def Let_def
  by (intro if_intro [where P = "\<lambda>r. fields_ok (fst r)"] ok_14_sys) (simp_all add: fields_ok_def)

lemma ok_15: "fields_ok d \<Longrightarrow> fields_ok (fst (dec_15 d inst))"
  unfolding dec_15_def Let_def
  by (intro if_intro [where P = "\<lambda>r. fields_ok (fst r)"] ok_15_sys) (simp_all add: fields_ok_def)

lemma ok_common: "fields_ok d \<Longrightarrow> fields_ok (dec_common d inst)"
  by (simp add: fields_ok_def dec_common_def)

lemma ok_cls: "fields_ok (d\<lparr>d_cls := c\<rparr>) = fields_ok d"
  by (simp add: fields_ok_def)

lemma decode_fields_ok: "fields_ok slot \<Longrightarrow> fields_ok (fst (decode slot inst))"
  by (rule decode_cases [where P = "\<lambda>r. fields_ok (fst r)"])
     (simp_all add: ok_common ok_cls ok_branch dec_08_def ok_sub_cases ok_09 ok_0A
       ok_0B dec_0C_def ok_0E ok_10 ok_11 dec_12_def ok_13 ok_14 ok_15
       ok_16 ok_17 dec_18_def Let_def ok_19 dec_1A_def ok_1B ok_1E ok_1F)

lemma class_branch: "d_cls d = IC_UNKNOWN \<Longrightarrow> class_ok (fst (dec_branch d inst))"
  by (simp add: dec_branch_def Let_def class_ok_def dec_fp_fields_def test_bit_number_bound)

lemma class_08_pair: "d_cls d = IC_UNKNOWN \<Longrightarrow> class_ok (fst (dec_08_pair d inst))"
  by (simp add: dec_08_pair_def Let_def class_ok_def dec_fp_fields_def test_bit_number_bound)

lemma class_08_cas: "d_cls d = IC_UNKNOWN \<Longrightarrow> class_ok (fst (dec_08_cas d inst))"
  by (simp add: dec_08_cas_def Let_def class_ok_def dec_fp_fields_def test_bit_number_bound)

lemma pair_even: "(fld i m w OR fld j m w) AND 1 = (0 :: u8) \<longleftrightarrow>
    \<not> bit (fld i m w :: u8) 0 \<and> \<not> bit (fld j m w :: u8) 0"
proof -
  have b: "a AND 1 = 0 \<longleftrightarrow> \<not> bit a 0" for a :: u8
    by (simp add: and_one_eq mod_2_eq_odd bit_0)
  show ?thesis unfolding b by (simp only: bit_or_iff de_Morgan_disj)
qed

lemma class_08_excl: "d_cls d = IC_UNKNOWN \<Longrightarrow> class_ok (fst (dec_08_excl d inst))"
  by (simp add: dec_08_excl_def Let_def class_ok_def dec_fp_fields_def test_bit_number_bound pair_even)

lemma class_09: "d_cls d = IC_UNKNOWN \<Longrightarrow> class_ok (fst (dec_09 d inst))"
  by (simp add: dec_09_def Let_def class_ok_def dec_fp_fields_def test_bit_number_bound)

lemma class_0A: "d_cls d = IC_UNKNOWN \<Longrightarrow> class_ok (fst (dec_0A d inst))"
  by (simp add: dec_0A_def Let_def class_ok_def dec_fp_fields_def test_bit_number_bound)

lemma class_0B: "d_cls d = IC_UNKNOWN \<Longrightarrow> class_ok (fst (dec_0B d inst))"
  by (simp add: dec_0B_def Let_def class_ok_def dec_fp_fields_def test_bit_number_bound)

lemma class_0C_struct: "d_cls d = IC_UNKNOWN \<Longrightarrow> class_ok (fst (dec_0C_struct d inst))"
  by (simp add: dec_0C_struct_def Let_def class_ok_def dec_fp_fields_def test_bit_number_bound)

lemma class_0C_pair: "d_cls d = IC_UNKNOWN \<Longrightarrow> class_ok (fst (dec_0C_pair d inst))"
  by (simp add: dec_0C_pair_def Let_def class_ok_def dec_fp_fields_def test_bit_number_bound)

lemma class_0E: "d_cls d = IC_UNKNOWN \<Longrightarrow> class_ok (fst (dec_0E d inst))"
  by (simp add: dec_0E_def Let_def class_ok_def dec_fp_fields_def test_bit_number_bound)

lemma class_10: "d_cls d = IC_UNKNOWN \<Longrightarrow> class_ok (fst (dec_10 d inst))"
  by (simp add: dec_10_def Let_def class_ok_def dec_fp_fields_def test_bit_number_bound)

lemma class_11: "d_cls d = IC_UNKNOWN \<Longrightarrow> class_ok (fst (dec_11 d inst))"
  by (simp add: dec_11_def Let_def class_ok_def dec_fp_fields_def test_bit_number_bound)

lemma class_12_wide: "d_cls d = IC_UNKNOWN \<Longrightarrow> class_ok (fst (dec_12_wide d inst))"
  by (simp add: dec_12_wide_def Let_def class_ok_def dec_fp_fields_def test_bit_number_bound)

lemma class_12_logical: "d_cls d = IC_UNKNOWN \<Longrightarrow> class_ok (fst (dec_12_logical d inst))"
  by (simp add: dec_12_logical_def Let_def class_ok_def dec_fp_fields_def test_bit_number_bound split: option.split)

lemma class_13: "d_cls d = IC_UNKNOWN \<Longrightarrow> class_ok (fst (dec_13 d inst))"
  by (simp add: dec_13_def Let_def class_ok_def dec_fp_fields_def test_bit_number_bound)

lemma class_14_sys: "d_cls d = IC_UNKNOWN \<Longrightarrow> class_ok (fst (dec_14_sys d inst))"
  by (simp add: dec_14_sys_def Let_def class_ok_def dec_fp_fields_def test_bit_number_bound)

lemma class_15_sys: "d_cls d = IC_UNKNOWN \<Longrightarrow> class_ok (fst (dec_15_sys d inst))"
  by (simp add: dec_15_sys_def Let_def class_ok_def dec_fp_fields_def test_bit_number_bound)

lemma class_16: "d_cls d = IC_UNKNOWN \<Longrightarrow> class_ok (fst (dec_16 d inst))"
  by (simp add: dec_16_def Let_def class_ok_def dec_fp_fields_def test_bit_number_bound)

lemma class_17: "d_cls d = IC_UNKNOWN \<Longrightarrow> class_ok (fst (dec_17 d inst))"
  by (simp add: dec_17_def Let_def class_ok_def dec_fp_fields_def test_bit_number_bound)

lemma class_18_literal: "d_cls d = IC_UNKNOWN \<Longrightarrow> class_ok (fst (dec_18_literal d inst))"
  by (simp add: dec_18_literal_def Let_def class_ok_def dec_fp_fields_def test_bit_number_bound)

lemma class_18_unscaled: "d_cls d = IC_UNKNOWN \<Longrightarrow> class_ok (fst (dec_18_unscaled d inst))"
  by (simp add: dec_18_unscaled_def Let_def class_ok_def dec_fp_fields_def test_bit_number_bound)

lemma class_18_lse: "d_cls d = IC_UNKNOWN \<Longrightarrow> class_ok (fst (dec_18_lse d inst))"
  by (simp add: dec_18_lse_def Let_def class_ok_def dec_fp_fields_def test_bit_number_bound)

lemma class_18_regoff: "d_cls d = IC_UNKNOWN \<Longrightarrow> class_ok (fst (dec_18_regoff d inst))"
  by (simp add: dec_18_regoff_def Let_def class_ok_def dec_fp_fields_def test_bit_number_bound)

lemma class_19: "d_cls d = IC_UNKNOWN \<Longrightarrow> class_ok (fst (dec_19 d inst))"
  by (simp add: dec_19_def Let_def class_ok_def dec_fp_fields_def test_bit_number_bound)

lemma class_1A_adc: "d_cls d = IC_UNKNOWN \<Longrightarrow> class_ok (fst (dec_1A_adc d inst))"
  by (simp add: dec_1A_adc_def Let_def class_ok_def dec_fp_fields_def test_bit_number_bound)

lemma class_1A_ccmp: "d_cls d = IC_UNKNOWN \<Longrightarrow> class_ok (fst (dec_1A_ccmp d inst))"
  by (simp add: dec_1A_ccmp_def Let_def class_ok_def dec_fp_fields_def test_bit_number_bound)

lemma class_1A_csel: "d_cls d = IC_UNKNOWN \<Longrightarrow> class_ok (fst (dec_1A_csel d inst))"
  by (simp add: dec_1A_csel_def Let_def class_ok_def dec_fp_fields_def test_bit_number_bound)

lemma class_1A_1src: "d_cls d = IC_UNKNOWN \<Longrightarrow> class_ok (fst (dec_1A_1src d inst))"
  by (simp add: dec_1A_1src_def Let_def class_ok_def dec_fp_fields_def test_bit_number_bound)

lemma class_1A_2src: "d_cls d = IC_UNKNOWN \<Longrightarrow> class_ok (fst (dec_1A_2src d inst))"
  by (simp add: dec_1A_2src_def Let_def class_ok_def dec_fp_fields_def test_bit_number_bound)

lemma class_1B: "d_cls d = IC_UNKNOWN \<Longrightarrow> class_ok (fst (dec_1B d inst))"
  by (simp add: dec_1B_def Let_def class_ok_def dec_fp_fields_def test_bit_number_bound)

lemma class_1E: "d_cls d = IC_UNKNOWN \<Longrightarrow> class_ok (fst (dec_1E d inst))"
  by (simp add: dec_1E_def Let_def class_ok_def dec_fp_fields_def test_bit_number_bound)

lemma class_1F: "d_cls d = IC_UNKNOWN \<Longrightarrow> class_ok (fst (dec_1F d inst))"
  by (simp add: dec_1F_def Let_def class_ok_def dec_fp_fields_def test_bit_number_bound)

lemma class_14: "d_cls d = IC_UNKNOWN \<Longrightarrow> class_ok (fst (dec_14 d inst))"
  unfolding dec_14_def Let_def by (intro if_intro [where P = "\<lambda>r. class_ok (fst r)"] class_14_sys) (simp_all add: class_ok_def)

lemma class_15: "d_cls d = IC_UNKNOWN \<Longrightarrow> class_ok (fst (dec_15 d inst))"
  unfolding dec_15_def Let_def by (intro if_intro [where P = "\<lambda>r. class_ok (fst r)"] class_15_sys) (simp_all add: class_ok_def)

lemmas class_sub_cases = class_08_pair class_08_cas class_08_excl class_0C_struct class_0C_pair
  class_12_wide class_12_logical class_18_literal class_18_unscaled class_18_lse class_18_regoff
  class_1A_adc class_1A_ccmp class_1A_csel class_1A_1src class_1A_2src

lemma class_refused: "d_cls d = IC_UNKNOWN \<Longrightarrow> class_ok d"
  by (simp add: class_ok_def)

lemma decode_class_ok: "class_ok (fst (decode slot inst))"
  by (rule decode_cases [where P = "\<lambda>r. class_ok (fst r)"])
     (simp_all add: class_refused class_branch dec_08_def class_sub_cases class_09 class_0A
       class_0B dec_0C_def class_0E class_10 class_11 dec_12_def class_13 class_14 class_15
       class_16 class_17 dec_18_def Let_def class_19 dec_1A_def class_1B class_1E class_1F)

end
