(* ===== verification/DecodeCache.thy ===== *)
theory DecodeCache
  imports DecoderWf
begin

text \<open>
  The per-CPU decode cache is transparent. The cache is an array of slots that \<open>decode\<close> fills in
  place; executing through it is the same as decoding every instruction afresh, whatever the
  slots held before, and it changes nothing of the CPU but its own entries, LRU bits and
  counters. Two instructions that share a set never evict each other while only they are used.
\<close>

section \<open>The invariant\<close>

definition entry_ok :: "CacheEntry \<Rightarrow> bool" where
  "entry_ok ce \<longleftrightarrow>
     (ce_tag ce = 0 \<and> ce_d ce = DecodedInst_zero) \<or>
     (\<exists>slot. ce_d ce = fst (decode slot (d_raw (ce_d ce))))"

definition cache_ok :: "CPU \<Rightarrow> bool" where
  "cache_ok c \<longleftrightarrow> (\<forall>k. entry_ok (dc_entries c k))"

text \<open>The CPU without its decode cache.\<close>

definition forget_cache :: "CPU \<Rightarrow> CPU" where
  "forget_cache c = c\<lparr>dc_entries := (\<lambda>_. \<lparr>ce_tag = 0, ce_d = DecodedInst_zero\<rparr>), dc_lru := (\<lambda>_. 0),
     decode_cache_hits := 0, decode_cache_misses := 0\<rparr>"

lemma cache_ok_init: "cache_ok CPU_init"
  by (simp add: cache_ok_def entry_ok_def CPU_init_def)

lemma cache_ok_clear: "cache_ok (decode_cache_clear c)"
  by (simp add: cache_ok_def entry_ok_def decode_cache_clear_def)

lemma entry_ok_decoded: "entry_ok \<lparr>ce_tag = t, ce_d = fst (decode slot inst)\<rparr>"
  by (auto simp: entry_ok_def)

lemma forget_cached_decode: "forget_cache (fst (cached_decode inst c)) = forget_cache c"
  by (simp add: cached_decode_def forget_cache_def Let_def)

lemma cache_ok_cached_decode: "cache_ok c \<Longrightarrow> cache_ok (fst (cached_decode inst c))"
  by (auto simp: cached_decode_def cache_ok_def Let_def entry_ok_decoded)

section \<open>What a lookup returns\<close>

lemma unknown_class: "d_cls d = IC_UNKNOWN \<Longrightarrow> dispatch e d w s = Throw (DecodeError (pc (m_cpu s)) w) s"
  by (simp add: dispatch_def)

lemma decode_zero_word: "d_cls (fst (decode slot 0)) = IC_UNKNOWN"
  by (simp add: decode_def fld_def)

lemma dispatch_zero_word:
  "dispatch e (fst (decode slot 0)) 0 s = dispatch e DecodedInst_zero 0 s"
  by (simp add: unknown_class decode_zero_word DecodedInst_zero_def [THEN arg_cong [where f = d_cls]])

lemma lookup_cases:
  assumes "cache_ok c"
  shows "(snd (cached_decode inst c) = DecodedInst_zero \<and> inst = 0) \<or>
    (\<exists>slot. snd (cached_decode inst c) = fst (decode slot inst))"
proof -
  have hit: "(ce_d ce = DecodedInst_zero \<and> inst = 0) \<or> (\<exists>slot. ce_d ce = fst (decode slot inst))"
    if "entry_ok ce" "d_raw (ce_d ce) = inst" for ce
    using that by (auto simp: entry_ok_def DecodedInst_zero_def)
  have ok: "entry_ok (dc_entries c k)" for k
    using assms by (simp add: cache_ok_def)
  show ?thesis
    unfolding cached_decode_def Let_def using hit [OF ok] by auto
qed

lemma cached_dispatch:
  assumes "cache_ok c"
  shows "dispatch e (snd (cached_decode inst c)) inst s = dispatch e (fst (decode slot inst)) inst s"
  using lookup_cases [OF assms, of inst] dispatch_any_slot dispatch_zero_word by metis

lemma execute_any_slot:
  assumes "cache_ok (m_cpu s)"
  shows "execute e inst s =
    dispatch e (fst (decode slot inst)) inst (s\<lparr>m_cpu := fst (cached_decode inst (m_cpu s))\<rparr>)"
  unfolding execute_def Let_def case_prod_beta by (rule cached_dispatch [OF assms])

section \<open>Replacement\<close>

definition cached :: "u64 \<Rightarrow> u32 \<Rightarrow> CPU \<Rightarrow> bool" where
  "cached a inst c \<longleftrightarrow>
     (\<exists>w \<in> {cache_set a * 2, cache_set a * 2 + 1}.
        ce_tag (dc_entries c w) = NOT a \<and> d_raw (ce_d (dc_entries c w)) = inst)"

text \<open>The way that a set would replace next is the one its LRU bit does not name as recent.\<close>

definition victim_way :: "nat \<Rightarrow> CPU \<Rightarrow> nat" where
  "victim_way i c = (if lru_bit (dc_lru c) i then i * 2 else i * 2 + 1)"

lemma lru_bit_set_lru [simp]: "lru_bit (set_lru v i lru) i = v"
  by (auto simp: lru_bit_def set_lru_def bit_simps)

definition recent_way :: "nat \<Rightarrow> CPU \<Rightarrow> nat" where
  "recent_way i c = (if lru_bit (dc_lru c) i then i * 2 + 1 else i * 2)"

lemma lookup_recent:
  assumes "pc c = a"
  shows "ce_tag (dc_entries (fst (cached_decode inst c))
           (recent_way (cache_set a) (fst (cached_decode inst c)))) = NOT a \<and>
         d_raw (ce_d (dc_entries (fst (cached_decode inst c))
           (recent_way (cache_set a) (fst (cached_decode inst c))))) = inst"
  using assms by (simp add: cached_decode_def Let_def recent_way_def)

lemma hit_keeps_entries:
  "cached (pc c) inst c \<Longrightarrow> dc_entries (fst (cached_decode inst c)) = dc_entries c"
  by (auto simp: cached_def cached_decode_def Let_def)

lemma hit_counts:
  "cached (pc c) inst c \<Longrightarrow>
     decode_cache_hits (fst (cached_decode inst c)) = decode_cache_hits c + 1 \<and>
     decode_cache_misses (fst (cached_decode inst c)) = decode_cache_misses c"
  by (auto simp: cached_def cached_decode_def Let_def)

lemma lookup_keeps_recent:
  fixes c inst
  defines "r \<equiv> fst (cached_decode inst c)"
  assumes "ce_tag (dc_entries c w) = t" "d_raw (ce_d (dc_entries c w)) = v"
    and "w = cache_set (pc c) * 2 \<or> w = cache_set (pc c) * 2 + 1"
    and "w \<noteq> victim_way (cache_set (pc c)) c"
  shows "ce_tag (dc_entries r w) = t \<and> d_raw (ce_d (dc_entries r w)) = v"
  using assms(2-) unfolding r_def
  by (auto simp: cached_decode_def Let_def victim_way_def split: if_splits)

text \<open>
  After looking up \<open>a\<close> and then \<open>b\<close>, both are cached: \<open>a\<close> was the recent way when \<open>b\<close> chose its
  victim.
\<close>

lemma second_lookup_keeps_first:
  fixes c a b inst1 inst2
  defines "c1 \<equiv> fst (cached_decode inst1 (c\<lparr>pc := a\<rparr>))"
  defines "c2 \<equiv> fst (cached_decode inst2 (c1\<lparr>pc := b\<rparr>))"
  assumes "cache_set a = cache_set b"
  shows "cached a inst1 c2"
proof -
  let ?w = "recent_way (cache_set a) c1"
  have "ce_tag (dc_entries c1 ?w) = NOT a \<and> d_raw (ce_d (dc_entries c1 ?w)) = inst1"
    using lookup_recent [of "c\<lparr>pc := a\<rparr>" a inst1] by (simp add: c1_def)
  then have "ce_tag (dc_entries c2 ?w) = NOT a \<and> d_raw (ce_d (dc_entries c2 ?w)) = inst1"
    unfolding c2_def
    by (intro lookup_keeps_recent) (auto simp: assms(3) victim_way_def recent_way_def)
  moreover have "?w \<in> {cache_set a * 2, cache_set a * 2 + 1}" by (simp add: recent_way_def)
  ultimately show ?thesis unfolding cached_def by blast
qed

section \<open>Properties\<close>

text \<open>
  C2. Executing an instruction through the decode cache is dispatching on a fresh decoding of
  the word, into any slot: stale fields of a reused slot never reach a handler. The lookup
  keeps the cache's invariant and changes no other part of the CPU.
\<close>

theorem decode_cache_transparent:
  assumes "cache_ok (m_cpu s)"
  shows "execute e inst s =
           dispatch e (fst (decode slot inst)) inst
             (s\<lparr>m_cpu := fst (cached_decode inst (m_cpu s))\<rparr>) \<and>
         cache_ok (fst (cached_decode inst (m_cpu s))) \<and>
         forget_cache (fst (cached_decode inst (m_cpu s))) = forget_cache (m_cpu s)"
  using execute_any_slot [OF assms] cache_ok_cached_decode [OF assms] forget_cached_decode by blast

theorem decode_cache_transparent_witness:
  "execute idle_env 0x91000420 machine_init =
     dispatch idle_env (fst (decode DecodedInst_default 0x91000420)) 0x91000420
       (machine_init\<lparr>m_cpu := fst (cached_decode 0x91000420 CPU_init)\<rparr>)"
proof -
  have "cache_ok (m_cpu machine_init)" by (simp add: machine_init_def cache_ok_init)
  from decode_cache_transparent [OF this, where e = idle_env and inst = "0x91000420"
      and slot = DecodedInst_default]
  show ?thesis by (simp add: machine_init_def)
qed

text \<open>
  C40. Two instructions at addresses of one set, looked up in turn, stay cached together: the
  second lookup takes the way the first did not use, so a third lookup of the first hits.
\<close>

theorem decode_cache_two_ways:
  fixes c a b inst1 inst2
  defines "c1 \<equiv> fst (cached_decode inst1 (c\<lparr>pc := a\<rparr>))"
  defines "c2 \<equiv> fst (cached_decode inst2 (c1\<lparr>pc := b\<rparr>))"
  assumes "cache_set a = cache_set b"
  shows "decode_cache_hits (fst (cached_decode inst1 (c2\<lparr>pc := a\<rparr>))) = decode_cache_hits c2 + 1"
proof -
  have "cached a inst1 (c2\<lparr>pc := a\<rparr>)"
    using second_lookup_keeps_first [OF assms(3), of inst1 inst2 c]
    by (simp add: c1_def c2_def cached_def)
  then show ?thesis using hit_counts [of "c2\<lparr>pc := a\<rparr>" inst1] by simp
qed

theorem decode_cache_two_ways_witness:
  "decode_cache_hits (fst (cached_decode 1 ((fst (cached_decode 2
      ((fst (cached_decode 1 (CPU_init\<lparr>pc := 0x1000\<rparr>)))\<lparr>pc := 0x9000\<rparr>)))\<lparr>pc := 0x1000\<rparr>))) =
   decode_cache_hits (fst (cached_decode 2
      ((fst (cached_decode 1 (CPU_init\<lparr>pc := 0x1000\<rparr>)))\<lparr>pc := 0x9000\<rparr>))) + 1"
proof -
  have "cache_set 0x1000 = cache_set 0x9000" by (simp add: cache_set_def)
  then show ?thesis by (rule decode_cache_two_ways)
qed

end
