(* ===== verification/AluProps.thy ===== *)
theory AluProps
  imports InterpInt
begin

text \<open>
  What the flag-setting helpers compute: both are the architecture's \<open>AddWithCarry\<close>, and the
  condition codes read after a comparison are the comparisons of the operands.
\<close>

section \<open>AddWithCarry\<close>

text \<open>
  The architecture's \<open>AddWithCarry\<close>: unsigned and signed sums over the integers, the result
  taken from the unsigned one; carry and overflow say that the result differs from them.
\<close>

definition low_bits :: "nat \<Rightarrow> u64 \<Rightarrow> int" where
  "low_bits w a = uint a mod 2 ^ w"

definition signed_of :: "nat \<Rightarrow> int \<Rightarrow> int" where
  "signed_of w x = (if x \<ge> 2 ^ (w - 1) then x - 2 ^ w else x)"

definition AddWithCarry :: "nat \<Rightarrow> int \<Rightarrow> int \<Rightarrow> int \<Rightarrow> int \<times> bool \<times> bool \<times> bool \<times> bool" where
  "AddWithCarry w x y c =
     (let us = x + y + c; ss = signed_of w x + signed_of w y + c; r = us mod 2 ^ w
      in (r, r \<ge> 2 ^ (w - 1), r = 0, r \<noteq> us, signed_of w r \<noteq> ss))"

section \<open>The operands and the carry\<close>

lemma uint_width_mask: "w = 32 \<or> w = 64 \<Longrightarrow> uint (width_mask w) = 2 ^ w - 1"
  by (auto simp: width_mask_def unsigned_minus_1_eq_mask mask_eq_exp_minus_1)

lemma minus_1_eq_mask_64: "(- 1 :: u64) = 2 ^ 64 - 1"
  by simp

lemma width_mask_eq: "w = 32 \<or> w = 64 \<Longrightarrow> width_mask w = mask w"
  by (auto simp: width_mask_def mask_eq_exp_minus_1 minus_1_eq_mask_64)

lemma uint_and_width_mask: "w = 32 \<or> w = 64 \<Longrightarrow> uint (a AND width_mask w) = low_bits w a"
  by (simp only: width_mask_eq low_bits_def flip: take_bit_eq_mask)
    (simp add: unsigned_take_bit_eq flip: take_bit_eq_mod)

lemma low_bits_bound: "0 \<le> low_bits w a" "low_bits w a < 2 ^ w"
  by (simp_all add: low_bits_def)

lemma bit_top:
  fixes x :: u64
  assumes "uint x < 2 ^ w" "w = 32 \<or> w = 64"
  shows "bit x (w - 1) \<longleftrightarrow> uint x \<ge> 2 ^ (w - 1)"
proof -
  have "bit x (w - 1) \<longleftrightarrow> bit (uint x) (w - 1)" using assms(2) by (auto simp: bit_unsigned_iff)
  also have "\<dots> \<longleftrightarrow> odd (uint x div 2 ^ (w - 1))" by (simp add: bit_iff_odd)
  also have "\<dots> \<longleftrightarrow> uint x \<ge> 2 ^ (w - 1)"
  proof -
    have "uint x div 2 ^ (w - 1) = (if uint x \<ge> 2 ^ (w - 1) then 1 else 0)"
      using assms uint_ge_0[of x] by (auto simp: div_pos_pos_trivial intro!: div_pos_pos_trivial int_div_pos_eq[where r="uint x - 2^(w-1)"])
    then show ?thesis by simp
  qed
  finally show ?thesis .
qed

lemma sum_width_mask:
  assumes "w = 32 \<or> w = 64"
  shows "uint (x AND width_mask w) = uint x mod 2 ^ w"
  using uint_and_width_mask [OF assms] by (simp add: low_bits_def)

lemma uint_sum_mask:
  fixes x y c :: u64
  assumes "w = 32 \<or> w = 64"
  shows "uint ((x + y + c) AND width_mask w) = (uint x + uint y + uint c) mod 2 ^ w"
proof -
  have "(2::int) ^ w dvd 2 ^ 64" using assms by (auto simp: le_imp_power_dvd)
  then show ?thesis
    using sum_width_mask [OF assms] by (simp add: uint_word_ariths mod_mod_cancel mod_simps)
qed

lemma uint_mask_minus:
  assumes "w = 32 \<or> w = 64"
  shows "uint (width_mask w - (b AND width_mask w)) = 2 ^ w - 1 - low_bits w b"
proof -
  have "b AND width_mask w \<le> width_mask w"
    using low_bits_bound [of w b] by (simp add: word_le_def uint_width_mask uint_and_width_mask assms)
  then show ?thesis by (simp add: uint_sub_if' word_le_def uint_width_mask uint_and_width_mask assms)
qed

lemma carry_out:
  fixes c :: u64
  assumes w: "w = 32 \<or> w = 64" and c: "c = 0 \<or> c = 1"
  shows "(a AND width_mask w > width_mask w - (b AND width_mask w) \<or>
          (a AND width_mask w = width_mask w - (b AND width_mask w) \<and> c \<noteq> 0)) \<longleftrightarrow>
         low_bits w a + low_bits w b + uint c \<ge> 2 ^ w"
  using c by (auto simp: word_less_def uint_mask_minus [OF w] uint_and_width_mask [OF w] word_uint_eq_iff)


lemma overflow_arith:
  fixes x y c H :: int
  assumes "0 < H" "0 \<le> x" "x < 2 * H" "0 \<le> y" "y < 2 * H" "c = 0 \<or> c = 1"
  defines "m \<equiv> if x + y + c \<ge> 2 * H then x + y + c - 2 * H else x + y + c"
  shows "(x \<ge> H) = (y \<ge> H) \<and> (x \<ge> H) \<noteq> (m \<ge> H) \<longleftrightarrow>
    (if m \<ge> H then m - 2 * H else m) \<noteq>
      (if x \<ge> H then x - 2 * H else x) + (if y \<ge> H then y - 2 * H else y) + c"
  using assms(1-6) unfolding m_def
  by (cases "x \<ge> H"; cases "y \<ge> H"; cases "x + y + c \<ge> 2 * H"; simp; linarith)

lemma add_arith:
  fixes x y c :: int
  assumes w: "0 < w" and b: "0 \<le> x" "x < 2 ^ w" "0 \<le> y" "y < 2 ^ w" "c = 0 \<or> c = 1"
  shows "x + y + c \<ge> 2 ^ w \<longleftrightarrow> (x + y + c) mod 2 ^ w \<noteq> x + y + c" (is ?c)
    and "(x \<ge> 2 ^ (w - 1)) = (y \<ge> 2 ^ (w - 1)) \<and>
           (x \<ge> 2 ^ (w - 1)) \<noteq> ((x + y + c) mod 2 ^ w \<ge> 2 ^ (w - 1)) \<longleftrightarrow>
         signed_of w ((x + y + c) mod 2 ^ w) \<noteq> signed_of w x + signed_of w y + c" (is ?v)
proof -
  have H: "(2::int) ^ w = 2 * 2 ^ (w - 1)"
    using w by (cases w) auto
  have m: "(x + y + c) mod 2 ^ w = (if x + y + c \<ge> 2 ^ w then x + y + c - 2 ^ w else x + y + c)"
  proof (cases "x + y + c \<ge> 2 ^ w")
    case True
    then have "(x + y + c) mod 2 ^ w = (x + y + c - 2 ^ w) mod 2 ^ w" by simp
    also have "\<dots> = x + y + c - 2 ^ w" using True b by (intro mod_pos_pos_trivial) auto
    finally show ?thesis using True by simp
  qed (use b in auto)
  show ?c unfolding m by auto
  show ?v unfolding signed_of_def m [unfolded H] H
    by (rule overflow_arith) (use b in \<open>simp_all add: H\<close>)
qed

section \<open>The flag-setting helpers compute it\<close>

lemma set_nzcv_only_pstate: "(set_nzcv n z c v cpu)\<lparr>pstate := p\<rparr> = cpu\<lparr>pstate := p\<rparr>"
  by (simp add: set_nzcv_def set_flag_defs set_pstate_bit_def)

definition alu_result :: "CPU \<times> u64 \<Rightarrow> int \<times> bool \<times> bool \<times> bool \<times> bool" where
  "alu_result p = (uint (snd p), flag_n (fst p), flag_z (fst p), flag_c (fst p), flag_v (fst p))"

lemma set_add_flags_AddWithCarry:
  assumes w: "w = 32 \<or> w = 64" and c: "cin = 0 \<or> cin = 1"
  shows "alu_result (set_add_flags a b cin w True cpu) =
         AddWithCarry w (low_bits w a) (low_bits w b) (uint cin)"
proof -
  let ?m = "width_mask w"
  let ?x = "low_bits w a" and ?y = "low_bits w b" and ?c = "uint cin"
  let ?r = "((a AND ?m) + (b AND ?m) + cin) AND ?m"
  have r: "uint ?r = (?x + ?y + ?c) mod 2 ^ w"
    using uint_sum_mask [OF w, of "a AND ?m" "b AND ?m" cin] by (simp add: uint_and_width_mask w)
  have c': "?c = 0 \<or> ?c = 1" and w0: "0 < w" using c w by auto
  have top: "bit u (w - 1) \<longleftrightarrow> uint u \<ge> 2 ^ (w - 1)" if "uint u < 2 ^ w" for u :: u64
    by (rule bit_top [OF that w])
  have tx: "bit (a AND ?m) (w - 1) \<longleftrightarrow> ?x \<ge> 2 ^ (w - 1)"
    and ty: "bit (b AND ?m) (w - 1) \<longleftrightarrow> ?y \<ge> 2 ^ (w - 1)"
    using top [of "a AND ?m"] top [of "b AND ?m"] low_bits_bound [of w] by (simp_all only: uint_and_width_mask w)
  have tr: "bit ?r (w - 1) \<longleftrightarrow> (?x + ?y + ?c) mod 2 ^ w \<ge> 2 ^ (w - 1)"
    using top [of ?r] by (simp add: r)
  have z: "?r = 0 \<longleftrightarrow> (?x + ?y + ?c) mod 2 ^ w = 0"
    by (simp only: word_uint_eq_iff r unsigned_0)
  note ar = add_arith [OF w0 low_bits_bound low_bits_bound c', of a b]
  show ?thesis
    unfolding set_add_flags_def alu_result_def AddWithCarry_def Let_def if_True fst_conv snd_conv
      flags_set_nzcv carry_out [OF w c] r tx ty tr z ar ..
qed

lemma set_sub_flags_eq_add:
  assumes w: "w = 32 \<or> w = 64"
  shows "set_sub_flags a b w s cpu = set_add_flags a (NOT b) 1 w s cpu"
proof -
  let ?m = "width_mask w"
  have n: "NOT (b AND ?m) AND ?m = NOT b AND ?m"
    by (rule bit_word_eqI) (auto simp: bit_simps)
  have "b AND ?m \<le> ?m"
    using low_bits_bound [of w b] by (simp add: word_le_def uint_width_mask uint_and_width_mask w)
  have d: "?m - (NOT b AND ?m) = b AND ?m"
  proof -
    have "(b AND ?m) + (NOT b AND ?m) = ?m"
      by (subst disjunctive_add) (auto simp: bit_simps intro!: bit_word_eqI)
    then show ?thesis by (simp add: algebra_simps)
  qed
  have t: "bit (NOT b AND ?m) (w - 1) \<longleftrightarrow> \<not> bit (b AND ?m) (w - 1)"
    using w by (auto simp: bit_simps width_mask_eq)
  have ge: "b AND ?m \<le> a AND ?m \<longleftrightarrow> b AND ?m < a AND ?m \<or> a AND ?m = b AND ?m"
    by (auto simp: order_le_less)
  show ?thesis
    unfolding set_sub_flags_def set_add_flags_def Let_def n d t ge by simp
qed

lemma set_add_flags_result:
  "snd (set_add_flags a b cin w s cpu) = snd (set_add_flags a b cin w True cpu)"
  by (simp add: set_add_flags_def Let_def)

lemma set_add_flags_no_flags: "fst (set_add_flags a b cin w False cpu) = cpu"
  by (simp add: set_add_flags_def Let_def)

lemma set_add_flags_frame: "(fst (set_add_flags a b cin w s cpu))\<lparr>pstate := p\<rparr> = cpu\<lparr>pstate := p\<rparr>"
  by (simp add: set_add_flags_def Let_def set_nzcv_only_pstate)

lemma low_bits_NOT:
  assumes w: "w = 32 \<or> w = 64"
  shows "low_bits w (NOT b) = 2 ^ w - 1 - low_bits w b"
proof -
  have "2 ^ w - 1 - low_bits w b = uint (width_mask w - (b AND width_mask w))"
    by (rule uint_mask_minus [OF w, symmetric])
  also have "width_mask w - (b AND width_mask w) = NOT b AND width_mask w"
  proof -
    have "(b AND width_mask w) + (NOT b AND width_mask w) = width_mask w"
      by (subst disjunctive_add) (auto simp: bit_simps intro!: bit_word_eqI)
    then show ?thesis by (simp add: algebra_simps)
  qed
  finally show ?thesis by (simp add: uint_and_width_mask w)
qed

section \<open>Comparisons\<close>

lemma compare_arith:
  fixes x y H :: int
  assumes "0 < H" "0 \<le> x" "x < 2 * H" "0 \<le> y" "y < 2 * H"
  defines "r \<equiv> if x \<ge> y then x - y else x - y + 2 * H"
    and "s \<equiv> \<lambda>u. if u \<ge> H then u - 2 * H else u"
  shows "r = 0 \<longleftrightarrow> x = y"
    and "(r \<ge> H) = (s r \<noteq> s x - s y) \<longleftrightarrow> s y \<le> s x"
    and "s r \<noteq> s x - s y \<longleftrightarrow> s x - s y < - H \<or> s x - s y \<ge> H"
  using assms(1-5) unfolding r_def s_def
  by (auto split: if_splits)

lemma mod_difference:
  fixes x y :: int
  assumes "0 \<le> x" "x < m" "0 \<le> y" "y < m"
  shows "(x - y) mod m = (if x \<ge> y then x - y else x - y + m)"
proof (cases "x \<ge> y")
  case False
  have "(x - y) mod m = (x - y + m) mod m" by simp
  also have "\<dots> = x - y + m" using False assms by (intro mod_pos_pos_trivial) auto
  finally show ?thesis using False by simp
qed (use assms in auto)

lemma sub_AddWithCarry:
  assumes w: "w = 32 \<or> w = 64"
  shows "alu_result (set_sub_flags a b w True cpu) =
         AddWithCarry w (low_bits w a) (2 ^ w - 1 - low_bits w b) 1"
  using set_add_flags_AddWithCarry [OF w, of 1 a "NOT b" cpu]
  by (simp add: set_sub_flags_eq_add w low_bits_NOT)

lemma AddWithCarry_sub:
  fixes x y :: int
  assumes w: "0 < w" and b: "0 \<le> x" "x < 2 ^ w" "0 \<le> y" "y < 2 ^ w"
  defines "r \<equiv> (x - y) mod 2 ^ w"
  shows "AddWithCarry w x (2 ^ w - 1 - y) 1 =
    (r, r \<ge> 2 ^ (w - 1), r = 0, x \<ge> y, signed_of w r \<noteq> signed_of w x - signed_of w y)"
proof -
  have H: "(2::int) ^ w = 2 * 2 ^ (w - 1)" using w by (cases w) auto
  have u: "x + (2 ^ w - 1 - y) + 1 = x - y + 2 ^ w" by simp
  have r: "r = (if x \<ge> y then x - y else x - y + 2 ^ w)"
    unfolding r_def by (rule mod_difference [OF b])
  have s: "signed_of w (2 ^ w - 1 - y) + 1 = - signed_of w y"
    unfolding signed_of_def H by auto
  show ?thesis
    unfolding AddWithCarry_def u Let_def mod_add_self2 r_def [symmetric] using s b by (auto simp: r)
qed

lemma sub_flags:
  fixes a b cpu
  assumes w: "w = 32 \<or> w = 64"
  defines "x \<equiv> low_bits w a" and "y \<equiv> low_bits w b" and "c \<equiv> fst (set_sub_flags a b w True cpu)"
  shows "flag_z c \<longleftrightarrow> x = y" "flag_c c \<longleftrightarrow> x \<ge> y"
    "flag_n c = flag_v c \<longleftrightarrow> signed_of w y \<le> signed_of w x"
    "flag_n c \<longleftrightarrow> (x - y) mod 2 ^ w \<ge> 2 ^ (w - 1)"
    "flag_v c \<longleftrightarrow> signed_of w x - signed_of w y < - (2 ^ (w - 1)) \<or>
                 signed_of w x - signed_of w y \<ge> 2 ^ (w - 1)"
proof -
  have w0: "0 < w" using w by auto
  have H: "(2::int) ^ w = 2 * 2 ^ (w - 1)" using w0 by (cases w) auto
  have b: "0 \<le> x" "x < 2 ^ w" "0 \<le> y" "y < 2 ^ w" by (simp_all add: x_def y_def low_bits_bound)
  have r: "(x - y) mod (2 * 2 ^ (w - 1)) = (if x \<ge> y then x - y else x - y + 2 * 2 ^ (w - 1))"
    using mod_difference [OF b] by (simp only: H)
  have e: "alu_result (set_sub_flags a b w True cpu) = AddWithCarry w x (2 ^ w - 1 - y) 1"
    unfolding x_def y_def by (rule sub_AddWithCarry [OF w])
  note f = e [unfolded AddWithCarry_sub [OF w0 b], unfolded alu_result_def, folded c_def,
      unfolded prod.inject]
  have ca: "0 < (2::int) ^ (w - 1)" by simp
  note ca = compare_arith [OF ca b(1) b(2) [unfolded H] b(3) b(4) [unfolded H]]
  have ca': "(x - y) mod 2 ^ w = 0 \<longleftrightarrow> x = y"
    "((x - y) mod 2 ^ w \<ge> 2 ^ (w - 1)) =
       (signed_of w ((x - y) mod 2 ^ w) \<noteq> signed_of w x - signed_of w y) \<longleftrightarrow>
       signed_of w y \<le> signed_of w x"
    "signed_of w ((x - y) mod 2 ^ w) \<noteq> signed_of w x - signed_of w y \<longleftrightarrow>
       signed_of w x - signed_of w y < - (2 ^ (w - 1)) \<or>
       signed_of w x - signed_of w y \<ge> 2 ^ (w - 1)"
    using ca by (simp_all only: r signed_of_def H)
  show "flag_z c \<longleftrightarrow> x = y" "flag_c c \<longleftrightarrow> x \<ge> y"
    "flag_n c \<longleftrightarrow> (x - y) mod 2 ^ w \<ge> 2 ^ (w - 1)"
    using f by (simp_all only: ca')
  show "flag_n c = flag_v c \<longleftrightarrow> signed_of w y \<le> signed_of w x" using f ca'(2) by simp
  show "flag_v c \<longleftrightarrow> signed_of w x - signed_of w y < - (2 ^ (w - 1)) \<or>
                 signed_of w x - signed_of w y \<ge> 2 ^ (w - 1)"
    using f ca'(3) by simp
qed

lemma cond_true_codes:
  "cond_true 0x0 p \<longleftrightarrow> bit p 30"
  "cond_true 0x1 p \<longleftrightarrow> \<not> bit p 30"
  "cond_true 0x2 p \<longleftrightarrow> bit p 29"
  "cond_true 0x3 p \<longleftrightarrow> \<not> bit p 29"
  "cond_true 0x4 p \<longleftrightarrow> bit p 31"
  "cond_true 0x5 p \<longleftrightarrow> \<not> bit p 31"
  "cond_true 0x6 p \<longleftrightarrow> bit p 28"
  "cond_true 0x7 p \<longleftrightarrow> \<not> bit p 28"
  "cond_true 0x8 p \<longleftrightarrow> bit p 29 \<and> \<not> bit p 30"
  "cond_true 0x9 p \<longleftrightarrow> \<not> bit p 29 \<or> bit p 30"
  "cond_true 0xA p \<longleftrightarrow> bit p 31 = bit p 28"
  "cond_true 0xB p \<longleftrightarrow> bit p 31 \<noteq> bit p 28"
  "cond_true 0xC p \<longleftrightarrow> \<not> bit p 30 \<and> bit p 31 = bit p 28"
  "cond_true 0xD p \<longleftrightarrow> bit p 30 \<or> bit p 31 \<noteq> bit p 28"
  "cond_true 0xE p \<longleftrightarrow> True"
  "cond_true 0xF p \<longleftrightarrow> True"
  by (simp_all add: cond_true_def Let_def)

lemma cond_true_flags:
  "cond_true 0x0 (pstate c) \<longleftrightarrow> flag_z c"
  "cond_true 0x1 (pstate c) \<longleftrightarrow> \<not> flag_z c"
  "cond_true 0x2 (pstate c) \<longleftrightarrow> flag_c c"
  "cond_true 0x3 (pstate c) \<longleftrightarrow> \<not> flag_c c"
  "cond_true 0x4 (pstate c) \<longleftrightarrow> flag_n c"
  "cond_true 0x5 (pstate c) \<longleftrightarrow> \<not> flag_n c"
  "cond_true 0x6 (pstate c) \<longleftrightarrow> flag_v c"
  "cond_true 0x7 (pstate c) \<longleftrightarrow> \<not> flag_v c"
  "cond_true 0x8 (pstate c) \<longleftrightarrow> flag_c c \<and> \<not> flag_z c"
  "cond_true 0x9 (pstate c) \<longleftrightarrow> \<not> flag_c c \<or> flag_z c"
  "cond_true 0xA (pstate c) \<longleftrightarrow> flag_n c = flag_v c"
  "cond_true 0xB (pstate c) \<longleftrightarrow> flag_n c \<noteq> flag_v c"
  "cond_true 0xC (pstate c) \<longleftrightarrow> \<not> flag_z c \<and> flag_n c = flag_v c"
  "cond_true 0xD (pstate c) \<longleftrightarrow> flag_z c \<or> flag_n c \<noteq> flag_v c"
  by (simp_all only: cond_true_codes flag_bits)

lemma signed_of_eq_iff:
  assumes "0 < w" "0 \<le> x" "x < 2 ^ w" "0 \<le> y" "y < 2 ^ w"
  shows "signed_of w x = signed_of w y \<longleftrightarrow> x = y"
  using assms by (auto simp: signed_of_def)

lemma word_below_16:
  fixes d :: u32
  assumes "d < 16"
  obtains "d = 0" | "d = 1" | "d = 2" | "d = 3" | "d = 4" | "d = 5" | "d = 6" | "d = 7"
    | "d = 8" | "d = 9" | "d = 10" | "d = 11" | "d = 12" | "d = 13" | "d = 14" | "d = 15"
proof -
  have "unat d < 16" using assms by (simp add: word_less_nat_alt)
  then have "unat d = 0 \<or> unat d = 1 \<or> unat d = 2 \<or> unat d = 3 \<or> unat d = 4 \<or> unat d = 5 \<or>
      unat d = 6 \<or> unat d = 7 \<or> unat d = 8 \<or> unat d = 9 \<or> unat d = 10 \<or> unat d = 11 \<or>
      unat d = 12 \<or> unat d = 13 \<or> unat d = 14 \<or> unat d = 15"
    by presburger
  then show ?thesis using that by (auto simp: word_unat_eq_iff)
qed

section \<open>Properties\<close>

text \<open>
  C25. Both flag-setting helpers compute the architecture's \<open>AddWithCarry\<close> at width 32 and 64:
  the addition on the low bits of its operands and carry, the subtraction on the complement of
  the second operand and carry 1. The result does not depend on whether flags are set, and
  nothing but the flags changes.
\<close>

theorem flag_helpers_AddWithCarry:
  assumes "w = 32 \<or> w = 64" "cin = 0 \<or> cin = 1"
  shows "alu_result (set_add_flags a b cin w True cpu) =
           AddWithCarry w (low_bits w a) (low_bits w b) (uint cin) \<and>
         alu_result (set_sub_flags a b w True cpu) =
           AddWithCarry w (low_bits w a) (2 ^ w - 1 - low_bits w b) 1 \<and>
         set_add_flags a b cin w False cpu = (cpu, snd (set_add_flags a b cin w True cpu)) \<and>
         set_sub_flags a b w False cpu = (cpu, snd (set_sub_flags a b w True cpu)) \<and>
         (fst (set_add_flags a b cin w s cpu))\<lparr>pstate := p\<rparr> = cpu\<lparr>pstate := p\<rparr> \<and>
         (fst (set_sub_flags a b w s cpu))\<lparr>pstate := p\<rparr> = cpu\<lparr>pstate := p\<rparr>"
  using set_add_flags_AddWithCarry [OF assms] sub_AddWithCarry [OF assms(1)]
    set_add_flags_result set_add_flags_no_flags set_add_flags_frame
  by (metis set_sub_flags_eq_add [OF assms(1)] prod.collapse)

theorem flag_helpers_AddWithCarry_witness:
  "alu_result (set_sub_flags 3 5 32 True CPU_init) = AddWithCarry 32 3 (2 ^ 32 - 1 - 5) 1"
  using flag_helpers_AddWithCarry [where w = 32 and cin = 0 and a = 3 and b = 5 and cpu = CPU_init] by (simp add: low_bits_def)

text \<open>
  C37. After a flag-setting subtraction (\<open>CMP\<close>, \<open>SUBS\<close>, \<open>CCMP\<close>) every condition code is the
  comparison it names: equality, the unsigned order, the signed order, the sign of the
  difference and its signed overflow.
\<close>

theorem conditions_after_subtraction:
  fixes a b cpu
  assumes "w = 32 \<or> w = 64"
  defines "x \<equiv> low_bits w a" and "y \<equiv> low_bits w b"
    and "holds \<equiv> \<lambda>c. cond_true c (pstate (fst (set_sub_flags a b w True cpu)))"
  shows "(holds 0x0 \<longleftrightarrow> x = y) \<and> (holds 0x2 \<longleftrightarrow> x \<ge> y) \<and> (holds 0x3 \<longleftrightarrow> x < y) \<and>
         (holds 0x8 \<longleftrightarrow> x > y) \<and> (holds 0x9 \<longleftrightarrow> x \<le> y) \<and>
         (holds 0xA \<longleftrightarrow> signed_of w x \<ge> signed_of w y) \<and>
         (holds 0xB \<longleftrightarrow> signed_of w x < signed_of w y) \<and>
         (holds 0xC \<longleftrightarrow> signed_of w x > signed_of w y) \<and>
         (holds 0xD \<longleftrightarrow> signed_of w x \<le> signed_of w y) \<and>
         (holds 0x4 \<longleftrightarrow> (x - y) mod 2 ^ w \<ge> 2 ^ (w - 1)) \<and>
         (holds 0x6 \<longleftrightarrow> signed_of w x - signed_of w y < - (2 ^ (w - 1)) \<or>
                        signed_of w x - signed_of w y \<ge> 2 ^ (w - 1))"
proof -
  have w0: "0 < w" using assms(1) by auto
  have e: "signed_of w x = signed_of w y \<longleftrightarrow> x = y"
    unfolding x_def y_def by (rule signed_of_eq_iff [OF w0]) (rule low_bits_bound)+
  show ?thesis
    unfolding holds_def cond_true_flags
    unfolding sub_flags(3) [OF assms(1)]
    unfolding sub_flags [OF assms(1)] x_def [symmetric] y_def [symmetric]
    using e by auto
qed

theorem conditions_after_subtraction_witness:
  "cond_true 0xB (pstate (fst (set_sub_flags (- 1) 1 64 True CPU_init))) \<and>
   cond_true 0x8 (pstate (fst (set_sub_flags (- 1) 1 64 True CPU_init)))"
  using conditions_after_subtraction [where w = 64 and a = "- 1" and b = 1 and cpu = CPU_init]
  by (simp add: low_bits_def signed_of_def unsigned_minus_1_eq_mask mask_eq_exp_minus_1)

text \<open>
  C39. Inverting the low bit of a condition code inverts the condition, for every code but AL
  and NV, which both hold always; only the low four bits of the code count.
\<close>

theorem condition_inversion:
  "(if c AND 0xE = 0xE then cond_true c p \<and> cond_true (c XOR 1) p
    else cond_true (c XOR 1) p = (\<not> cond_true c p)) \<and>
   cond_true (c AND 0xF) p = cond_true c p"
proof -
  have m: "cond_true (c AND 0xF) p = cond_true c p" for c
    by (simp add: cond_true_def and.assoc)
  have x: "(c XOR 1) AND 0xF = (c AND 0xF) XOR 1" and e: "c AND 0xE = (c AND 0xF) AND 0xE"
    by (simp_all add: and.assoc bit.conj_xor_distrib2)
  have d: "if d AND 0xE = 0xE then cond_true d p \<and> cond_true (d XOR 1) p
      else cond_true (d XOR 1) p = (\<not> cond_true d p)" if "d < 16" for d
    using that by (cases rule: word_below_16) (simp_all add: cond_true_codes)
  have "c AND 0xF \<le> 0xF" by (rule word_and_le1)
  then have "c AND 0xF < 16" by unat_arith 
  from d [OF this] show ?thesis
    using m [of "c XOR 1"] m [of c] by (simp only: x flip: e)
qed

end
