(* ===== verification/BitmaskImm.thy ===== *)
theory BitmaskImm
  imports Decoder
begin

text \<open>
  The logical immediates: \<open>decode_bitmask_imm\<close> of \<open>Source/Interpreter/Decoder/Decoder.cpp\<close>
  builds a replicated, rotated run of ones. Its bits are given directly, and so are the
  encodings it refuses.
\<close>

section \<open>The element length\<close>

lemma find_len_bit: "\<exists>i < n. bit c i \<Longrightarrow> bit c (find_len c n) \<and> find_len c n < n"
  by (induction n) (auto simp: less_Suc_eq)

lemma find_len_max: "i < n \<Longrightarrow> bit c i \<Longrightarrow> i \<le> find_len c n"
  by (induction n) (auto simp: less_Suc_eq)

lemma find_len_eq_Max:
  assumes "\<exists>i < n. bit c i"
  shows "find_len c n = Max {i. i < n \<and> bit c i}"
  by (rule Max_eqI [symmetric]) (use assms find_len_bit [of n c] find_len_max [of _ n c] in auto)

lemma find_len_le: "find_len c n \<le> n"
  by (induction n) auto

section \<open>Replication\<close>

lemma bit_replicate_elem:
  assumes "0 < e" "\<And>k. e \<le> k \<Longrightarrow> \<not> bit elem k"
  shows "bit (replicate_elem e elem i r) n \<longleftrightarrow>
           bit r n \<or> (i \<le> n \<and> n < 64 \<and> bit elem ((n - i) mod e))"
  using assms
proof (induction e elem i r rule: replicate_elem.induct)
  case (1 e elem i r)
  show ?case
  proof (cases "i < 64")
    case True
    have step: "bit (replicate_elem e elem i r) n \<longleftrightarrow>
        bit (r OR push_bit i elem) n \<or> (i + e \<le> n \<and> n < 64 \<and> bit elem ((n - (i + e)) mod e))"
      using 1 True by (subst replicate_elem.simps) simp
    show ?thesis
    proof (cases "i + e \<le> n")
      case True
      then have "(n - (i + e)) mod e = (n - i) mod e"
        using le_mod_geq [of e "n - i"] by simp
      moreover have "\<not> bit elem (n - i)" using 1(3) True by simp
      ultimately show ?thesis unfolding step using True by (auto simp: bit_simps)
    next
      case False
      then have "i \<le> n \<Longrightarrow> (n - i) mod e = n - i" by simp
      then show ?thesis unfolding step using False
        by (auto simp: bit_simps dest: bit_imp_le_length)
    qed
  next
    case False
    then show ?thesis by (subst replicate_elem.simps) auto
  qed
qed

section \<open>The rotated element\<close>

definition run_of_ones :: "nat \<Rightarrow> u64" where
  "run_of_ones width = (if width \<ge> 64 then - 1 else push_bit width 1 - 1)"

definition rotated_elem :: "nat \<Rightarrow> nat \<Rightarrow> u64 \<Rightarrow> u64" where
  "rotated_elem esize R elem =
     (if R \<noteq> 0
      then (drop_bit R elem OR push_bit (esize - R) elem)
             AND (if esize = 64 then - 1 else push_bit esize 1 - 1)
      else elem)"

lemma bit_run_of_ones: "bit (run_of_ones w) k \<longleftrightarrow> k < w \<and> k < 64"
  by (auto simp: run_of_ones_def bit_simps push_bit_eq_mult simp flip: mask_eq_exp_minus_1)

lemma bit_rotated_elem:
  assumes "esize \<le> 64" "R < esize" "S < esize"
  shows "bit (rotated_elem esize R (run_of_ones (S + 1))) k \<longleftrightarrow>
           k < esize \<and> (k + R) mod esize \<le> S"
proof -
  have m: "(if esize = 64 then - 1 else push_bit esize 1 - 1) = (mask esize :: u64)"
    by (auto simp: mask_eq_exp_minus_1)
  have w: "(k + R) mod esize = (if k + R < esize then k + R else k + R - esize)"
    if "k < esize" using that assms by (simp add: mod_if)
  show ?thesis
    unfolding rotated_elem_def m using assms w
    by (auto simp: bit_simps bit_run_of_ones split: if_splits)
qed

definition imm_len :: "bool \<Rightarrow> u8 \<Rightarrow> nat" where
  "imm_len N imms = (if N then 6 else Max {i. i < 6 \<and> \<not> bit imms i})"

lemma find_len_imms:
  assumes "NOT imms AND 0x3F \<noteq> (0 :: u8)"
  shows "find_len (NOT imms AND 0x3F) 6 = Max {i. i < 6 \<and> \<not> bit imms i}"
    "find_len (NOT imms AND 0x3F) 6 < 6"
proof -
  have m: "(0x3F :: u8) = mask 6" by (simp add: mask_eq_exp_minus_1)
  have b: "bit (NOT imms AND 0x3F) i \<longleftrightarrow> i < 6 \<and> \<not> bit imms i" for i
    unfolding m by (auto simp: bit_simps)
  have ex: "\<exists>i<6. bit (NOT imms AND 0x3F) i"
    using assms by (auto simp: b bit_eq_iff)
  show "find_len (NOT imms AND 0x3F) 6 < 6" using find_len_bit [OF ex] by blast
  have "{i. i < 6 \<and> bit (NOT imms AND 0x3F) i} = {i. i < 6 \<and> \<not> bit imms i}" by (auto simp: b)
  then show "find_len (NOT imms AND 0x3F) 6 = Max {i. i < 6 \<and> \<not> bit imms i}"
    using find_len_eq_Max [OF ex] by simp
qed

lemma decode_bitmask_imm_eq:
  "decode_bitmask_imm N immr imms sf =
    (if \<not> N \<and> NOT imms AND 0x3F = 0 then None
     else let e = 2 ^ imm_len N imms;
              w = replicate_elem e (rotated_elem e (unat immr mod e)
                    (run_of_ones (unat imms mod e + 1))) 0 0
       in Some (if sf then w else take_bit 32 w))"
proof (cases "\<not> N \<and> NOT imms AND 0x3F = 0")
  case False
  then have len: "(if N then 6 else find_len (NOT imms AND 0x3F) 6) = imm_len N imms"
    by (auto simp: imm_len_def find_len_imms)
  have a: "unat v AND (2 ^ n - 1) = unat v mod 2 ^ n" for v :: u8 and n
    by (simp only: take_bit_eq_mod flip: mask_eq_exp_minus_1 take_bit_eq_mask)
  have b: "\<not> unat imms mod 2 ^ imm_len N imms + 1 > 2 ^ imm_len N imms"
    by (simp add: not_less Suc_leI)
  show ?thesis
    unfolding decode_bitmask_imm_def Let_def len a rotated_elem_def run_of_ones_def and_mask32
    using False b by simp
qed (simp add: decode_bitmask_imm_def)

lemma imm_len_le: "N \<or> NOT imms AND 0x3F \<noteq> 0 \<Longrightarrow> imm_len N imms \<le> 6"
  using find_len_imms [of imms] by (auto simp: imm_len_def)

section \<open>Properties\<close>

text \<open>
  C24. A logical immediate is refused exactly when \<open>N = 0\<close> and \<open>imms\<close> is all ones; otherwise its
  element size is the power of two the highest set bit of \<open>N:NOT(imms)\<close> names, and bit \<open>i\<close> of
  the immediate is set iff \<open>(i + immr) mod esize \<le> imms mod esize\<close>, within the register width.
  An element that is all ones (reserved by the architecture) is accepted too.
\<close>

theorem decode_bitmask_imm_bits:
  "case decode_bitmask_imm N immr imms sf of
     None \<Rightarrow> \<not> N \<and> NOT imms AND 0x3F = 0
   | Some v \<Rightarrow> \<not> (\<not> N \<and> NOT imms AND 0x3F = 0) \<and>
       (let esize = 2 ^ imm_len N imms in
        \<forall>i. bit v i = (i < (if sf then 64 else 32) \<and>
                         (i + unat immr) mod esize \<le> unat imms mod esize))"
proof (cases "\<not> N \<and> NOT imms AND 0x3F = 0")
  case False
  define e :: nat where "e = 2 ^ imm_len N imms"
  have le: "e \<le> 64"
    using imm_len_le [of N imms] False power_increasing [of "imm_len N imms" 6 "2::nat"] by (simp add: e_def)
  have pos: "0 < e" by (simp add: e_def)
  let ?el = "rotated_elem e (unat immr mod e) (run_of_ones (unat imms mod e + 1))"
  have el: "bit ?el k \<longleftrightarrow> k < e \<and> (k + unat immr) mod e \<le> unat imms mod e" for k
    using bit_rotated_elem [of e "unat immr mod e" "unat imms mod e" k] le pos by (simp add: mod_add_right_eq)
  define w where "w = replicate_elem e ?el 0 0"
  have w: "bit w i \<longleftrightarrow> i < 64 \<and> (i + unat immr) mod e \<le> unat imms mod e" for i
    unfolding w_def using bit_replicate_elem [of e ?el 0 0 i] pos el by (simp add: mod_add_left_eq)
  have "decode_bitmask_imm N immr imms sf = Some (if sf then w else take_bit 32 w)"
    unfolding decode_bitmask_imm_eq Let_def w_def e_def using False by simp
  moreover have "bit (if sf then w else take_bit 32 w) i \<longleftrightarrow>
      i < (if sf then 64 else 32) \<and> (i + unat immr) mod e \<le> unat imms mod e" for i
    by (auto simp: bit_take_bit_iff w)
  ultimately show ?thesis using False by (simp add: Let_def flip: e_def)
qed (simp add: decode_bitmask_imm_eq)

end
