(* ===== verification/VmaProps.thy ===== *)
theory VmaProps
  imports Vma
begin

text \<open>
  The mapping index as a partial function from addresses to permissions. Every operation keeps
  the ranges sorted, disjoint and nonempty, and changes the function only inside its range.
\<close>

section \<open>The abstraction and its invariant\<close>

fun vma_at :: "vma_index \<Rightarrow> u64 \<Rightarrow> u8 option" where
  "vma_at [] a = None"
| "vma_at ((k, v) # xs) a = (if k \<le> a \<and> a < v_end v then Some (v_prot v) else vma_at xs a)"

fun vma_ok :: "vma_index \<Rightarrow> bool" where
  "vma_ok [] = True"
| "vma_ok ((k, v) # xs) \<longleftrightarrow> k < v_end v \<and> (\<forall>e \<in> set xs. v_end v \<le> fst e) \<and> vma_ok xs"

lemma vma_at_append:
  "vma_at (xs @ ys) a = (case vma_at xs a of None \<Rightarrow> vma_at ys a | Some p \<Rightarrow> Some p)"
  by (induction xs a rule: vma_at.induct) auto

lemma vma_ok_append:
  "vma_ok (xs @ ys) \<longleftrightarrow>
     vma_ok xs \<and> vma_ok ys \<and> (\<forall>e \<in> set xs. \<forall>f \<in> set ys. v_end (snd e) \<le> fst f)"
  by (induction xs rule: vma_ok.induct) auto

lemma vma_ok_nonempty: "vma_ok xs \<Longrightarrow> e \<in> set xs \<Longrightarrow> fst e < v_end (snd e)"
  by (induction xs rule: vma_ok.induct) auto

lemma vma_at_None: "(\<And>e. e \<in> set xs \<Longrightarrow> a < fst e \<or> v_end (snd e) \<le> a) \<Longrightarrow> vma_at xs a = None"
proof (induction xs a rule: vma_at.induct)
  case (2 k v xs a)
  show ?case using "2.prems" [of "(k, v)"] 2 by auto
qed simp

lemma vma_at_SomeD: "vma_at xs a = Some p \<Longrightarrow> \<exists>e \<in> set xs. fst e \<le> a \<and> a < v_end (snd e) \<and> v_prot (snd e) = p"
  by (induction xs a rule: vma_at.induct) (auto split: if_splits)

lemma vma_at_SomeI:
  assumes "vma_ok xs" "e \<in> set xs" "fst e \<le> a" "a < v_end (snd e)"
  shows "vma_at xs a = Some (v_prot (snd e))"
  using assms
proof (induction xs a rule: vma_at.induct)
  case (2 k v xs a)
  show ?case
  proof (cases "e = (k, v)")
    case False
    then have "v_end v \<le> fst e" using 2 by auto
    then have "\<not> a < v_end v" using 2 by auto
    then show ?thesis using 2 False by auto
  qed (use 2 in auto)
qed simp

section \<open>Iterators\<close>

lemma ub_split: "before_ub at xs @ from_ub at xs = xs"
  by (simp add: before_ub_def from_ub_def)

lemma lb_split: "before_lb at xs @ from_lb at xs = xs"
  by (simp add: before_lb_def from_lb_def)

lemma vma_ok_sorted: "vma_ok (e # xs) \<Longrightarrow> f \<in> set xs \<Longrightarrow> fst e < fst f"
  by (cases e) (use less_le_trans in fastforce)

lemma before_ub_le: "e \<in> set (before_ub at xs) \<Longrightarrow> fst e \<le> at"
  by (auto simp: before_ub_def dest: set_takeWhileD)

lemma before_lb_less: "e \<in> set (before_lb at xs) \<Longrightarrow> fst e < at"
  by (auto simp: before_lb_def dest: set_takeWhileD)

lemma from_ub_gt: "vma_ok xs \<Longrightarrow> e \<in> set (from_ub at xs) \<Longrightarrow> at < fst e"
proof (induction xs)
  case (Cons f xs)
  then show ?case
    using vma_ok_sorted [of f xs e] by (cases f) (auto simp: from_ub_def not_le split: if_splits)
qed (simp add: from_ub_def)

lemma from_lb_ge: "vma_ok xs \<Longrightarrow> e \<in> set (from_lb at xs) \<Longrightarrow> at \<le> fst e"
proof (induction xs)
  case (Cons f xs)
  then show ?case
    using vma_ok_sorted [of f xs e] by (cases f) (auto simp: from_lb_def not_less split: if_splits)
qed (simp add: from_lb_def)

text \<open>An index around a point: what precedes the entry before it, that entry, what follows.\<close>

lemma ub_cases:
  assumes "vma_ok xs"
  obtains (none) "before_ub at xs = []" "from_ub at xs = xs" "\<And>e. e \<in> set xs \<Longrightarrow> at < fst e"
  | (some) ys k v zs where "before_ub at xs = ys @ [(k, v)]" "from_ub at xs = zs"
      "xs = ys @ (k, v) # zs" "k \<le> at" "\<And>e. e \<in> set zs \<Longrightarrow> at < fst e"
      "\<And>e. e \<in> set ys \<Longrightarrow> v_end (snd e) \<le> k"
proof (cases "before_ub at xs" rule: rev_cases)
  case Nil
  then show ?thesis using none ub_split [of at xs] from_ub_gt [OF assms] by auto
next
  case (snoc ys e)
  obtain k v where e: "e = (k, v)" by (cases e)
  have xs: "xs = ys @ (k, v) # from_ub at xs" using ub_split [of at xs] snoc e by simp
  have "v_end (snd f) \<le> k" if "f \<in> set ys" for f
    using assms that by (subst (asm) xs) (auto simp: vma_ok_append)
  then show ?thesis
    using some [OF snoc [unfolded e] refl xs] before_ub_le [of e at xs] from_ub_gt [OF assms] snoc e
    by auto
qed

lemma lb_cases:
  assumes "vma_ok xs"
  obtains (none) "before_lb at xs = []" "from_lb at xs = xs" "\<And>e. e \<in> set xs \<Longrightarrow> at \<le> fst e"
  | (some) ys k v zs where "before_lb at xs = ys @ [(k, v)]" "from_lb at xs = zs"
      "xs = ys @ (k, v) # zs" "k < at" "\<And>e. e \<in> set zs \<Longrightarrow> at \<le> fst e"
      "\<And>e. e \<in> set ys \<Longrightarrow> v_end (snd e) \<le> k"
proof (cases "before_lb at xs" rule: rev_cases)
  case Nil
  then show ?thesis using none lb_split [of at xs] from_lb_ge [OF assms] by auto
next
  case (snoc ys e)
  obtain k v where e: "e = (k, v)" by (cases e)
  have xs: "xs = ys @ (k, v) # from_lb at xs" using lb_split [of at xs] snoc e by simp
  have "v_end (snd f) \<le> k" if "f \<in> set ys" for f
    using assms that by (subst (asm) xs) (auto simp: vma_ok_append)
  then show ?thesis
    using some [OF snoc [unfolded e] refl xs] before_lb_less [of e at xs] from_lb_ge [OF assms] snoc e
    by auto
qed

section \<open>Lookups\<close>

lemma mapping_prot_at_eq:
  assumes "vma_ok xs"
  shows "mapping_prot_at xs a = map_option (\<lambda>p. p AND 7) (vma_at xs a)"
  using assms
proof (cases rule: ub_cases [where at = a])
  case none
  then show ?thesis by (simp add: mapping_prot_at_def vma_at_None)
next
  case (some ys k v zs)
  have "vma_at ys a = None" using some by (intro vma_at_None) force
  moreover have "vma_at zs a = None" using some by (intro vma_at_None) auto
  ultimately show ?thesis
    using some by (auto simp: mapping_prot_at_def Let_def vma_at_append)
qed

section \<open>Splitting and erasing\<close>

definition aligned_at :: "u64 \<Rightarrow> vma_index \<Rightarrow> bool" where
  "aligned_at c xs \<longleftrightarrow> (\<forall>e \<in> set xs. c \<le> fst e \<or> v_end (snd e) \<le> c)"

lemma split_vma_props:
  assumes "vma_ok xs"
  shows "vma_ok (split_vma c xs) \<and> vma_at (split_vma c xs) = vma_at xs \<and>
    aligned_at c (split_vma c xs) \<and> (aligned_at b xs \<longrightarrow> aligned_at b (split_vma c xs))"
  using assms
proof (cases rule: ub_cases [where at = c])
  case none
  then show ?thesis using assms
    by (auto simp: split_vma_def aligned_at_def intro: order.strict_implies_order)
next
  case (some ys k v zs)
  note ok = assms [unfolded some(3) vma_ok_append]
  have before: "v_end (snd e) \<le> c" if "e \<in> set ys" for e
    using some(4,6) that by (metis order_trans)
  show ?thesis
  proof (cases "k \<ge> c \<or> v_end v \<le> c")
    case True
    then have "split_vma c xs = xs" using some by (simp add: split_vma_def)
    moreover have "aligned_at c xs"
      using True some before unfolding aligned_at_def some(3) by (auto intro: order.strict_implies_order)
    ultimately show ?thesis using assms by simp
  next
    case False
    then have s: "split_vma c xs =
        ys @ (k, v\<lparr>v_end := c\<rparr>) # (c, \<lparr>v_end = v_end v, v_prot = v_prot v\<rparr>) # zs"
      using some by (simp add: split_vma_def)
    have "vma_ok (split_vma c xs)"
      unfolding s vma_ok_append using ok False some before
      by (auto simp: not_le dest: order.strict_implies_order intro: order_trans)
    moreover have "vma_at (split_vma c xs) = vma_at xs"
      unfolding s unfolding some(3) using False
      by (auto simp: fun_eq_iff vma_at_append not_le split: option.splits)
    moreover have "aligned_at c (split_vma c xs)"
      unfolding s aligned_at_def using some before by (auto dest: order.strict_implies_order)
    moreover have "aligned_at b (split_vma c xs)" if "aligned_at b xs"
      using that False unfolding s aligned_at_def unfolding some(3) by (auto simp: not_le intro: order_trans dest: order.strict_implies_order)
    ultimately show ?thesis by blast
  qed
qed

lemma before_lb_ok: "vma_ok xs \<Longrightarrow> vma_ok (before_lb c xs)"
  and from_lb_ok: "vma_ok xs \<Longrightarrow> vma_ok (from_lb c xs)"
  by (subst (asm) lb_split [of c xs, symmetric], simp add: vma_ok_append)+

lemma before_lb_end: "aligned_at c xs \<Longrightarrow> e \<in> set (before_lb c xs) \<Longrightarrow> v_end (snd e) \<le> c"
  using before_lb_less [of e c xs] set_takeWhileD [of e "\<lambda>e. fst e < c" xs]
  unfolding aligned_at_def before_lb_def by (meson leD)

lemma vma_at_before_lb:
  assumes "vma_ok xs" "aligned_at c xs"
  shows "vma_at (before_lb c xs) a = (if a < c then vma_at xs a else None)"
proof -
  have "vma_at (from_lb c xs) a = None" if "a < c"
    using from_lb_ge [OF assms(1)] that by (intro vma_at_None) (auto intro: less_le_trans)
  moreover have "vma_at (before_lb c xs) a = None" if "\<not> a < c"
    using before_lb_end [OF assms(2)] that by (intro vma_at_None) (auto simp: not_less intro: order_trans)
  ultimately show ?thesis
    using vma_at_append [of "before_lb c xs" "from_lb c xs" a] by (simp add: lb_split split: option.splits)
qed

lemma vma_at_from_lb:
  assumes "vma_ok xs" "aligned_at c xs"
  shows "vma_at (from_lb c xs) a = (if a < c then None else vma_at xs a)"
proof -
  have "vma_at (from_lb c xs) a = None" if "a < c"
    using from_lb_ge [OF assms(1)] that by (intro vma_at_None) (auto intro: less_le_trans)
  then show ?thesis
    using vma_at_append [of "before_lb c xs" "from_lb c xs" a] vma_at_before_lb [OF assms, of a]
    by (simp add: lb_split split: if_splits)
qed

lemma aligned_from_lb: "aligned_at c xs \<Longrightarrow> aligned_at c (from_lb b xs)"
  by (auto simp: aligned_at_def from_lb_def dest: set_dropWhileD)

lemma erase_vma_props:
  assumes ok: "vma_ok xs"
  shows "vma_ok (erase_vma lo hi xs)"
    and "vma_at (erase_vma lo hi xs) a = (if lo \<le> a \<and> a < hi then None else vma_at xs a)"
    and "lo < hi \<Longrightarrow> aligned_at lo (erase_vma lo hi xs)"
    and "lo < hi \<Longrightarrow> aligned_at hi (erase_vma lo hi xs)"
proof -
  let ?ys = "split_vma hi (split_vma lo xs)"
  have y: "vma_ok ?ys" "vma_at ?ys = vma_at xs" "aligned_at lo ?ys" "aligned_at hi ?ys"
    using split_vma_props [OF ok, of lo] split_vma_props [of "split_vma lo xs" hi lo] by auto
  have e: "erase_vma lo hi xs = before_lb lo ?ys @ from_lb hi (from_lb lo ?ys)" if "lo < hi"
    using that leD by (auto simp: erase_vma_def Let_def from_lb_def)
  have f: "vma_ok (from_lb lo ?ys)" "aligned_at hi (from_lb lo ?ys)"
    using y from_lb_ok aligned_from_lb by auto
  have ends: "v_end (snd u) \<le> lo" if "u \<in> set (before_lb lo ?ys)" for u
    using before_lb_end [OF y(3) that] .
  have starts: "hi \<le> fst u" if "u \<in> set (from_lb hi (from_lb lo ?ys))" for u
    using from_lb_ge [OF f(1) that] .
  show "vma_ok (erase_vma lo hi xs)"
  proof (cases "lo < hi")
    case True
    show ?thesis unfolding e [OF True] vma_ok_append
      using before_lb_ok [OF y(1)] from_lb_ok [OF f(1)] ends starts True
      by (meson order_trans order.strict_implies_order)
  qed (use ok in \<open>simp add: erase_vma_def not_less\<close>)
  show "vma_at (erase_vma lo hi xs) a = (if lo \<le> a \<and> a < hi then None else vma_at xs a)"
  proof (cases "lo < hi")
    case True
    then show ?thesis unfolding e [OF True] vma_at_append
      using vma_at_before_lb [OF y(1,3), of a] vma_at_from_lb [OF f, of a]
        vma_at_from_lb [OF y(1,3), of a] y(2)
      by (auto split: option.splits simp: not_less dest: less_trans)
  qed (auto simp: erase_vma_def not_less dest: le_less_trans)
  show "aligned_at lo (erase_vma lo hi xs)" if "lo < hi"
    unfolding e [OF that] aligned_at_def using ends starts that by (auto dest: starts intro: order_trans order.strict_implies_order)
  show "aligned_at hi (erase_vma lo hi xs)" if "lo < hi"
    unfolding e [OF that] aligned_at_def using ends starts that by (auto dest: ends intro: order_trans order.strict_implies_order)
qed

section \<open>Joining neighbours\<close>

lemma coalesce_loop_fst: "fst ` set (coalesce_loop hi xs) \<subseteq> fst ` set xs"
  by (induction hi xs rule: coalesce_loop.induct) auto

lemma coalesce_loop_at: "vma_ok xs \<Longrightarrow> vma_at (coalesce_loop hi xs) a = vma_at xs a"
proof (induction hi xs rule: coalesce_loop.induct)
  case (3 hi k v k' v' xs)
  show ?case
  proof (cases "\<not> k' > hi \<and> v_end v = k' \<and> v_prot v = v_prot v'")
    case True
    then have "vma_ok ((k, v\<lparr>v_end := v_end v'\<rparr>) # xs)" using "3.prems" by (auto dest: less_trans)
    then have "vma_at (coalesce_loop hi ((k, v\<lparr>v_end := v_end v'\<rparr>) # xs)) a =
        vma_at ((k, v\<lparr>v_end := v_end v'\<rparr>) # xs) a" using "3.IH"(1) True by blast
    then show ?thesis using True "3.prems" by (auto dest: less_trans le_less_trans)
  next
    case False
    then show ?thesis using "3.IH"(2) "3.prems" by auto
  qed
qed auto

lemma coalesce_loop_ok: "vma_ok xs \<Longrightarrow> vma_ok (coalesce_loop hi xs)"
proof (induction hi xs rule: coalesce_loop.induct)
  case (3 hi k v k' v' xs)
  show ?case
  proof (cases "\<not> k' > hi \<and> v_end v = k' \<and> v_prot v = v_prot v'")
    case True
    then have "vma_ok ((k, v\<lparr>v_end := v_end v'\<rparr>) # xs)" using "3.prems" by (auto dest: less_trans)
    then show ?thesis using "3.IH"(1) True by simp
  next
    case False
    have "v_end v \<le> fst e" if "e \<in> set (coalesce_loop hi ((k', v') # xs))" for e
      using coalesce_loop_fst [of hi "(k', v') # xs"] that "3.prems" by force
    then show ?thesis using False "3.IH"(2) "3.prems" by auto
  qed
qed auto

lemma coalesce_props:
  assumes "vma_ok xs"
  shows "vma_ok (coalesce lo hi xs) \<and> vma_at (coalesce lo hi xs) = vma_at xs"
  using assms
proof (cases rule: lb_cases [where at = lo])
  case none
  then show ?thesis
    using assms by (auto simp: coalesce_def fun_eq_iff coalesce_loop_at coalesce_loop_ok)
next
  case (some ys k v zs)
  have c: "coalesce lo hi xs = ys @ coalesce_loop hi ((k, v) # zs)"
    using some(1,2) by (simp add: coalesce_def)
  have ok: "vma_ok ys" "vma_ok ((k, v) # zs)" and
    le: "\<forall>e \<in> set ys. \<forall>f \<in> set ((k, v) # zs). v_end (snd e) \<le> fst f"
    using assms by (simp_all add: some(3) vma_ok_append)
  have "\<forall>e \<in> set ys. \<forall>f \<in> set (coalesce_loop hi ((k, v) # zs)). v_end (snd e) \<le> fst f"
  proof (intro ballI)
    fix e f assume e: "e \<in> set ys" and f: "f \<in> set (coalesce_loop hi ((k, v) # zs))"
    have "fst f \<in> fst ` set ((k, v) # zs)"
      using coalesce_loop_fst [of hi "(k, v) # zs"] f by blast
    then obtain g where "g \<in> set ((k, v) # zs)" "fst f = fst g" by (auto simp del: set_simps)
    with le e show "v_end (snd e) \<le> fst f" by (simp only:)
  qed
  then have "vma_ok (coalesce lo hi xs)"
    unfolding c vma_ok_append using ok coalesce_loop_ok by blast
  moreover have "vma_at (coalesce lo hi xs) = vma_at xs"
    unfolding c fun_eq_iff unfolding some(3) vma_at_append
    using coalesce_loop_at [OF ok(2)] by (auto split: option.split)
  ultimately show ?thesis by blast
qed

section \<open>Setting a range\<close>

lemma vma_ok_insert:
  assumes "vma_ok ys" "aligned_at lo ys" "aligned_at hi ys" "lo < hi" "\<And>a. lo \<le> a \<Longrightarrow> a < hi \<Longrightarrow> vma_at ys a = None"
  shows "vma_ok (before_lb lo ys @ (lo, \<lparr>v_end = hi, v_prot = p\<rparr>) # from_lb lo ys)"
proof -
  have "hi \<le> fst e" if "e \<in> set (from_lb lo ys)" for e
  proof (rule ccontr)
    assume n: "\<not> hi \<le> fst e"
    have e: "e \<in> set ys" using that by (auto simp: from_lb_def dest: set_dropWhileD)
    have "vma_at ys (fst e) = Some (v_prot (snd e))"
      using vma_at_SomeI [OF assms(1) e] vma_ok_nonempty [OF assms(1) e] by simp
    then show False using assms(5) [of "fst e"] from_lb_ge [OF assms(1) that] n by (simp add: not_le)
  qed
  then show ?thesis
    using before_lb_ok [OF assms(1)] from_lb_ok [OF assms(1)] before_lb_end [OF assms(2)]
      from_lb_ge [OF assms(1)] assms(4) order_trans [of _ lo]
    by (fastforce simp: vma_ok_append)
qed

lemma vma_set_props:
  assumes ok: "vma_ok xs" and "lo < hi"
  shows "vma_ok (vma_set lo hi p xs)"
    and "vma_at (vma_set lo hi p xs) a = (if lo \<le> a \<and> a < hi then Some p else vma_at xs a)"
proof -
  let ?ys = "erase_vma lo hi xs"
  note e = erase_vma_props [OF ok, of lo hi]
  let ?zs = "before_lb lo ?ys @ (lo, \<lparr>v_end = hi, v_prot = p\<rparr>) # from_lb lo ?ys"
  have ok': "vma_ok ?zs"
    using e assms(2) by (intro vma_ok_insert) auto
  then show "vma_ok (vma_set lo hi p xs)"
    using coalesce_props [OF ok'] by (simp add: vma_set_def Let_def)
  have "vma_at (vma_set lo hi p xs) a = vma_at ?zs a"
    using coalesce_props [OF ok', of lo hi] by (simp add: vma_set_def Let_def)
  also have "\<dots> = (if lo \<le> a \<and> a < hi then Some p else vma_at xs a)"
    unfolding vma_at_append
    using vma_at_before_lb [OF e(1) e(3) [OF assms(2)], of a] vma_at_from_lb [OF e(1) e(3) [OF assms(2)], of a]
      e(2) [of a] assms(2)
    by (auto simp: not_less split: option.splits)
  finally show "vma_at (vma_set lo hi p xs) a = (if lo \<le> a \<and> a < hi then Some p else vma_at xs a)" .
qed

section \<open>Adding permissions\<close>

definition or_prot :: "u8 \<Rightarrow> u8 option \<Rightarrow> u8 option" where
  "or_prot p q = Some (case q of None \<Rightarrow> p | Some r \<Rightarrow> r OR p)"

lemma window_step: "cur < g \<Longrightarrow> \<not> (cur \<le> a \<and> a < g) \<Longrightarrow> cur \<le> a \<longleftrightarrow> g \<le> (a :: u64)"
  by auto

lemma or_loop_props:
  assumes "vma_ok xs" "\<forall>e \<in> set xs. cur \<le> fst e" "aligned_at hi xs"
  shows "vma_ok (or_loop cur hi p xs) \<and>
    (\<forall>e \<in> set (or_loop cur hi p xs). cur \<le> fst e) \<and>
    vma_at (or_loop cur hi p xs) a =
      (if cur \<le> a \<and> a < hi then or_prot p (vma_at xs a) else vma_at xs a)"
  using assms
proof (induction cur hi p xs rule: or_loop.induct)
  case (1 cur hi prot)
  then show ?case by (auto simp: or_prot_def)
next
  case (2 cur hi prot k v xs)
  note ok = 2(3) [simplified]
  show ?case
  proof (cases "cur < hi")
    case False
    then show ?thesis using 2 by auto
  next
    case True
    have ends: "v_end v \<le> hi" if "k < hi" using 2(5) that by (auto simp: aligned_at_def)
    show ?thesis
    proof (cases "cur < k")
      case less: True
      let ?g = "min hi k"
      have "\<forall>e \<in> set ((k, v) # xs). ?g \<le> fst e"
        using vma_ok_sorted [OF 2(3)] by (auto simp: min_le_iff_disj intro: order.strict_implies_order)
      then have IH: "vma_ok (or_loop ?g hi prot ((k, v) # xs)) \<and>
          (\<forall>e \<in> set (or_loop ?g hi prot ((k, v) # xs)). ?g \<le> fst e) \<and>
          vma_at (or_loop ?g hi prot ((k, v) # xs)) a =
          (if ?g \<le> a \<and> a < hi then or_prot prot (vma_at ((k, v) # xs) a) else vma_at ((k, v) # xs) a)"
        using "2.IH"(1) [OF _ less refl 2(3) _ 2(5)] True by blast
      have gap: "vma_at ((k, v) # xs) a = None" if "a < k"
        using vma_ok_sorted [OF 2(3)] that by (intro vma_at_None) (fastforce dest: less_trans)
      have eq: "or_loop cur hi prot ((k, v) # xs) =
          (cur, \<lparr>v_end = ?g, v_prot = prot\<rparr>) # or_loop ?g hi prot ((k, v) # xs)"
        using True less by (simp add: Let_def)
      have g: "cur < ?g" using True less by simp
      show ?thesis
        unfolding eq
      proof (intro conjI)
        show "vma_ok ((cur, \<lparr>v_end = ?g, v_prot = prot\<rparr>) # or_loop ?g hi prot ((k, v) # xs))"
          using IH g by simp
        show "\<forall>e \<in> set ((cur, \<lparr>v_end = ?g, v_prot = prot\<rparr>) # or_loop ?g hi prot ((k, v) # xs)). cur \<le> fst e"
        proof -
          have "cur \<le> fst e" if "e \<in> set (or_loop ?g hi prot ((k, v) # xs))" for e
            using order_trans [OF less_imp_le [OF g]] conjunct1 [OF conjunct2 [OF IH]] that by blast
          then show ?thesis by (simp del: or_loop.simps)
        qed
        show "vma_at ((cur, \<lparr>v_end = ?g, v_prot = prot\<rparr>) # or_loop ?g hi prot ((k, v) # xs)) a =
            (if cur \<le> a \<and> a < hi then or_prot prot (vma_at ((k, v) # xs) a) else vma_at ((k, v) # xs) a)"
        proof (cases "cur \<le> a \<and> a < ?g")
          case True
          then show ?thesis using gap by (simp add: or_prot_def)
        next
          case False
          then have "cur \<le> a \<longleftrightarrow> ?g \<le> a" by (rule window_step [OF g])
          then show ?thesis using IH False by (simp del: vma_at.simps(2) or_loop.simps add: vma_at.simps(2) [of cur])
        qed
      qed
    next
      case ge: False
      then have k: "k = cur" using 2(4) by auto
      then have g: "min hi (v_end v) = v_end v" using ends True by simp
      have eq: "or_loop cur hi prot ((k, v) # xs) =
          (k, v\<lparr>v_prot := v_prot v OR prot\<rparr>) # or_loop (v_end v) hi prot xs"
        using True ge g by simp
      have al: "aligned_at hi xs" using 2(5) by (simp add: aligned_at_def)
      have IH: "vma_ok (or_loop (v_end v) hi prot xs) \<and>
          (\<forall>e \<in> set (or_loop (v_end v) hi prot xs). v_end v \<le> fst e) \<and>
          vma_at (or_loop (v_end v) hi prot xs) a =
          (if v_end v \<le> a \<and> a < hi then or_prot prot (vma_at xs a) else vma_at xs a)"
        using "2.IH"(2) [OF _ ge, unfolded g not_not, OF True] ok al by blast
      have gap: "vma_at xs a = None" if "a < v_end v"
        using ok that by (intro vma_at_None) (auto dest: order.strict_trans2)
      show ?thesis
        unfolding eq using IH ok k ends True gap
        by (auto simp: or_prot_def not_less simp del: or_loop.simps intro: order_trans [OF order.strict_implies_order]
            dest: order.strict_trans2)
    qed
  qed
qed

lemma vma_or_props:
  assumes ok: "vma_ok xs" and "lo < hi"
  shows "vma_ok (vma_or lo hi p xs)"
    and "vma_at (vma_or lo hi p xs) a =
           (if lo \<le> a \<and> a < hi then or_prot p (vma_at xs a) else vma_at xs a)"
proof -
  let ?ys = "split_vma hi (split_vma lo xs)"
  have y: "vma_ok ?ys" "vma_at ?ys = vma_at xs" "aligned_at lo ?ys" "aligned_at hi ?ys"
    using split_vma_props [OF ok, of lo] split_vma_props [of "split_vma lo xs" hi lo] by auto
  let ?ws = "or_loop lo hi p (from_lb lo ?ys)" and ?zs = "before_lb lo ?ys @ or_loop lo hi p (from_lb lo ?ys)"
  have w: "vma_ok ?ws" "\<forall>e \<in> set ?ws. lo \<le> fst e"
    "vma_at ?ws b = (if lo \<le> b \<and> b < hi then or_prot p (vma_at (from_lb lo ?ys) b)
                     else vma_at (from_lb lo ?ys) b)" for b
    using or_loop_props [OF from_lb_ok [OF y(1)] _ aligned_from_lb [OF y(4)]] from_lb_ge [OF y(1)] by blast+
  have ok': "vma_ok ?zs"
    unfolding vma_ok_append
    using before_lb_ok [OF y(1)] w(1,2) before_lb_end [OF y(3)] order_trans by blast
  show "vma_ok (vma_or lo hi p xs)"
    using coalesce_props [OF ok'] by (simp add: vma_or_def Let_def)
  have "vma_at (vma_or lo hi p xs) a = vma_at ?zs a"
    using coalesce_props [OF ok', of lo hi] by (simp add: vma_or_def Let_def)
  also have "\<dots> = (if lo \<le> a \<and> a < hi then or_prot p (vma_at xs a) else vma_at xs a)"
    unfolding vma_at_append vma_at_before_lb [OF y(1,3)] w(3) vma_at_from_lb [OF y(1,3)] y(2)
    by (auto simp: not_less or_prot_def split: option.splits)
  finally show "vma_at (vma_or lo hi p xs) a =
           (if lo \<le> a \<and> a < hi then or_prot p (vma_at xs a) else vma_at xs a)" .
qed

section \<open>Range queries\<close>

lemma vma_at_below: "vma_ok xs \<Longrightarrow> \<forall>e \<in> set xs. a < fst e \<Longrightarrow> vma_at xs a = None"
  by (intro vma_at_None) auto

lemma vma_at_before_first:
  assumes "vma_ok (e # xs)" "a < fst e"
  shows "vma_at (e # xs) a = None"
proof (rule vma_at_below [OF assms(1)], rule ballI)
  fix f assume "f \<in> set (e # xs)"
  then show "a < fst f" using vma_ok_sorted [OF assms(1), of f] assms(2) by (auto intro: less_trans)
qed

lemma mapped_loop_iff:
  "vma_ok xs \<Longrightarrow> mapped_loop cur hi xs \<longleftrightarrow> (\<forall>a. cur \<le> a \<and> a < hi \<longrightarrow> vma_at xs a \<noteq> None)"
proof (induction cur hi xs rule: mapped_loop.induct)
  case (1 cur hi)
  then show ?case by (auto simp: not_less)
next
  case (2 cur hi k v xs)
  have ok: "vma_ok xs" and lt: "k < v_end v" using "2.prems" by auto
  consider "cur \<ge> hi" | "cur < hi" "v_end v \<le> cur" | "cur < hi" "cur < v_end v" "cur < k"
    | "cur < hi" "cur < v_end v" "k \<le> cur" by force
  then show ?case
  proof cases
    case 1
    then show ?thesis by auto
  next
    case 2
    then have "mapped_loop cur hi ((k, v) # xs) = mapped_loop cur hi xs" using leD by auto
    moreover have "vma_at ((k, v) # xs) a = vma_at xs a" if "cur \<le> a" for a
      using that 2 by auto
    ultimately show ?thesis using "2.IH"(1) 2 ok by (auto simp del: vma_at.simps mapped_loop.simps)
  next
    case 3
    then have "vma_at ((k, v) # xs) cur = None"
      by (intro vma_at_before_first [OF "2.prems"]) simp
    then show ?thesis using 3 by (auto simp del: vma_at.simps)
  next
    case 4
    let ?m = "min hi (v_end v)"
    have A: "vma_at ((k, v) # xs) a \<noteq> None" if "cur \<le> a" "a < ?m" for a
      using that 4 by auto
    have B: "vma_at ((k, v) # xs) a = vma_at xs a" if "?m \<le> a" "a < hi" for a
      using that by (auto simp: min_le_iff_disj dest: leD)
    have C: "mapped_loop cur hi ((k, v) # xs) = mapped_loop ?m hi xs"
      using 4 by (simp only: mapped_loop.simps not_le [symmetric] if_False) simp
    have D: "mapped_loop ?m hi xs \<longleftrightarrow> (\<forall>a. ?m \<le> a \<and> a < hi \<longrightarrow> vma_at xs a \<noteq> None)"
      using "2.IH"(2) 4 ok by (simp add: not_le not_less)
    have E: "cur \<le> ?m" using 4 by (simp add: less_imp_le)
    show ?thesis
      unfolding C D
    proof (intro iffI allI impI)
      fix a assume "\<forall>a. ?m \<le> a \<and> a < hi \<longrightarrow> vma_at xs a \<noteq> None" "cur \<le> a \<and> a < hi"
      then show "vma_at ((k, v) # xs) a \<noteq> None" using A [of a] B [of a]
        by (cases "?m \<le> a") (simp_all del: vma_at.simps add: not_le)
    next
      fix a assume "\<forall>a. cur \<le> a \<and> a < hi \<longrightarrow> vma_at ((k, v) # xs) a \<noteq> None" "?m \<le> a \<and> a < hi"
      then show "vma_at xs a \<noteq> None"
        using B [of a] order_trans [OF E, of a] by (simp del: vma_at.simps, metis option.distinct(1))
    qed
  qed
qed

lemma step_back_at:
  assumes "vma_ok xs" "lo \<le> a"
  shows "vma_at (step_back (before_ub lo xs) (from_ub lo xs)) a = vma_at xs a"
  using assms(1)
proof (cases rule: ub_cases [where at = lo])
  case (some ys k v zs)
  have "vma_at ys a = None"
    using some(4,6) assms(2) by (intro vma_at_None) (meson order_trans)
  then show ?thesis using some by (simp add: step_back_def vma_at_append)
qed (simp add: step_back_def)

lemma step_back_ok:
  assumes "vma_ok xs"
  shows "vma_ok (step_back (before_ub lo xs) (from_ub lo xs))"
  using assms
proof (cases rule: ub_cases [where at = lo])
  case (some ys k v zs)
  have "vma_ok (ys @ (k, v) # zs)" using assms some(3) by simp
  then show ?thesis using some(1,2) by (simp add: step_back_def vma_ok_append)
qed (simp add: step_back_def assms)

lemma range_mapped_iff:
  assumes "vma_ok xs"
  shows "range_mapped xs lo hi \<longleftrightarrow> (\<forall>a. lo \<le> a \<and> a < hi \<longrightarrow> vma_at xs a \<noteq> None)"
  unfolding range_mapped_def mapped_loop_iff [OF step_back_ok [OF assms]]
  using step_back_at [OF assms] by auto

lemma overlap_first:
  assumes "vma_ok xs" "\<And>e. e \<in> set xs \<Longrightarrow> lo \<le> fst e"
  shows "xs \<noteq> [] \<and> fst (hd xs) < hi \<longleftrightarrow> (\<exists>a. lo \<le> a \<and> a < hi \<and> vma_at xs a \<noteq> None)"
proof (cases xs)
  case (Cons e ys)
  have hit: "vma_at xs (fst e) \<noteq> None" using assms(1) Cons by (cases e) auto
  have miss: "vma_at xs a = None" if "a < hi" "hi \<le> fst e" for a
    using vma_at_before_first [of e ys a] assms(1) Cons that by auto
  show ?thesis
  proof (cases "fst e < hi")
    case True
    then show ?thesis using hit assms(2) [of e] Cons by auto
  next
    case False
    then show ?thesis using miss Cons by (auto simp: not_less)
  qed
qed simp

lemma range_overlaps_iff:
  assumes "vma_ok xs"
  shows "range_overlaps xs lo hi \<longleftrightarrow> (\<exists>a. lo \<le> a \<and> a < hi \<and> vma_at xs a \<noteq> None)"
proof (cases "lo < hi")
  case True
  show ?thesis
    using assms
  proof (cases rule: lb_cases [where at = lo])
    case none
    then show ?thesis
      using overlap_first [OF assms, of lo hi] True by (simp add: range_overlaps_def leD)
  next
    case (some ys k v zs)
    show ?thesis
    proof (cases "v_end v > lo")
      case hit: True
      have "vma_at xs lo \<noteq> None"
        using vma_at_SomeI [OF assms, of "(k, v)" lo] some(3,4) hit by (simp add: less_imp_le)
      then show ?thesis using some hit True by (auto simp: range_overlaps_def leD)
    next
      case False
      have pre: "vma_at (ys @ [(k, v)]) a = None" if "lo \<le> a" for a
        using some(4,6) False that by (intro vma_at_None) (fastforce dest: order_trans)
      have zs: "vma_at xs a = vma_at zs a" if "lo \<le> a" for a
        using pre [OF that] some(3) vma_at_append [of "ys @ [(k, v)]" zs a] by simp
      have ok: "vma_ok zs" using assms by (simp add: some(3) vma_ok_append)
      have r: "range_overlaps xs lo hi \<longleftrightarrow> zs \<noteq> [] \<and> fst (hd zs) < hi"
        using some False True by (simp add: range_overlaps_def leD)
      have "(\<exists>a. lo \<le> a \<and> a < hi \<and> vma_at xs a \<noteq> None) \<longleftrightarrow> (\<exists>a. lo \<le> a \<and> a < hi \<and> vma_at zs a \<noteq> None)"
        using zs by metis
      then show ?thesis unfolding r using overlap_first [OF ok some(5), where hi = hi] by simp
    qed
  qed
qed (auto simp: range_overlaps_def not_less dest: le_less_trans)

section \<open>Free windows\<close>

definition free_window :: "vma_index \<Rightarrow> u64 \<Rightarrow> u64 \<Rightarrow> bool" where
  "free_window xs g sz \<longleftrightarrow> (\<forall>a. g \<le> a \<and> a < g + sz \<longrightarrow> vma_at xs a = None)"

definition fits :: "u64 \<Rightarrow> u64 \<Rightarrow> u64 \<Rightarrow> bool" where
  "fits g limit sz \<longleftrightarrow> g < limit \<and> sz \<le> limit - g"

lemma fits_end: "fits g limit sz \<Longrightarrow> g \<le> g + sz \<and> g + sz \<le> limit"
  unfolding fits_def by unat_arith

lemma fits_mono: "fits g' limit sz \<Longrightarrow> g \<le> g' \<Longrightarrow> fits g limit sz \<and> g + sz \<le> g' + sz"
  unfolding fits_def by unat_arith

lemma fits_nonempty: "fits g limit sz \<Longrightarrow> 0 < sz \<Longrightarrow> g < g + sz"
  unfolding fits_def by unat_arith

lemma gap_loop_sound:
  assumes "vma_ok xs" "g = gap_loop cur limit sz xs" "g \<noteq> 0"
  shows "cur \<le> g \<and> fits g limit sz \<and> free_window xs g sz"
  using assms
proof (induction cur limit sz xs rule: gap_loop.induct)
  case (1 cur limit sz)
  then show ?case by (auto simp: fits_def free_window_def split: if_splits)
next
  case (2 cur limit sz k v xs)
  have c: "fits cur limit sz" using 2(3,4) by (auto simp: fits_def split: if_splits)
  show ?case
  proof (cases "k \<ge> cur + sz")
    case True
    then have "g = cur" using 2(3) c by (simp add: fits_def)
    moreover have "free_window ((k, v) # xs) cur sz"
      unfolding free_window_def using vma_at_before_first [OF 2(2)] True by (auto simp del: vma_at.simps)
    ultimately show ?thesis using c by simp
  next
    case False
    then have "g = gap_loop (max cur (v_end v)) limit sz xs" using 2(3) c by (simp add: fits_def)
    then have "max cur (v_end v) \<le> g \<and> fits g limit sz \<and> free_window xs g sz"
      using 2 False c by (simp add: fits_def)
    then show ?thesis by (auto simp: free_window_def)
  qed
qed

lemma gap_loop_first:
  assumes "vma_ok xs" "cur \<le> h" "fits h limit sz" "0 < sz" "free_window xs h sz"
  shows "gap_loop cur limit sz xs \<le> h \<and> cur \<le> gap_loop cur limit sz xs"
  using assms
proof (induction cur limit sz xs rule: gap_loop.induct)
  case (1 cur limit sz)
  then show ?case using fits_mono [of h limit sz cur] by (auto simp: fits_def)
next
  case (2 cur limit sz k v xs)
  have c: "fits cur limit sz" and m: "cur + sz \<le> h + sz" using fits_mono [OF 2(4,3)] by auto
  show ?case
  proof (cases "k \<ge> cur + sz")
    case True
    then show ?thesis using c 2(3) by (simp add: fits_def)
  next
    case False
    have e: "gap_loop cur limit sz ((k, v) # xs) = gap_loop (max cur (v_end v)) limit sz xs"
      using c False by (simp add: fits_def)
    have lt: "k < v_end v" and ok: "vma_ok xs" using 2(2) by auto
    have hn: "h < h + sz" by (rule fits_nonempty [OF 2(4,5)])
    have "v_end v \<le> h"
    proof (rule ccontr)
      assume n: "\<not> v_end v \<le> h"
      have "vma_at ((k, v) # xs) (max h k) \<noteq> None" using n lt by (auto simp: max_def not_le)
      moreover have "h \<le> max h k" "max h k < h + sz"
        using hn less_le_trans [OF _ m, of k] False by (simp_all only: max_less_iff_conj not_le max.cobounded1)
      ultimately show False
        using 2(6) [unfolded free_window_def, rule_format, of "max h k"] by (simp del: vma_at.simps)
    qed
    moreover have "free_window xs h sz"
      using 2(6) calculation unfolding free_window_def by (auto split: if_splits)
    ultimately have "gap_loop (max cur (v_end v)) limit sz xs \<le> h \<and>
        max cur (v_end v) \<le> gap_loop (max cur (v_end v)) limit sz xs"
      using "2.IH" [OF c [unfolded fits_def] False ok _ 2(4,5)] 2(3) by simp
    then show ?thesis unfolding e by simp
  qed
qed

definition gap_start :: "vma_index \<Rightarrow> u64 \<Rightarrow> u64" where
  "gap_start xs b =
     (let pre = before_ub b xs
      in if pre \<noteq> [] \<and> v_end (snd (last pre)) > b then v_end (snd (last pre)) else b)"

lemma find_gap_start: "find_gap xs b limit sz = gap_loop (gap_start xs b) limit sz (from_ub b xs)"
  by (simp add: find_gap_def gap_start_def Let_def)

lemma gap_start_ge: "b \<le> gap_start xs b"
  by (auto simp: gap_start_def Let_def intro: less_imp_le)

lemma from_ub_ok:
  assumes "vma_ok xs"
  shows "vma_ok (from_ub b xs)"
  using assms by (subst (asm) ub_split [of b xs, symmetric]) (simp only: vma_ok_append)

lemma gap_start_at:
  assumes "vma_ok xs" "gap_start xs b \<le> a"
  shows "vma_at xs a = vma_at (from_ub b xs) a"
  using assms(1)
proof (cases rule: ub_cases [where at = b])
  case (some ys k v zs)
  have "v_end v \<le> a" using assms(2) some by (auto simp: gap_start_def not_less split: if_splits)
  moreover have "v_end (snd e) \<le> a" if "e \<in> set ys" for e
    using some(4,6) that order_trans [OF gap_start_ge assms(2)] by (meson order_trans)
  ultimately have "vma_at (ys @ [(k, v)]) a = None" by (intro vma_at_None) auto
  then show ?thesis using vma_at_append [of "ys @ [(k, v)]" zs a] some by simp
qed simp

lemma gap_start_le:
  assumes "vma_ok xs" "b \<le> h" "fits h limit sz" "0 < sz" "free_window xs h sz"
  shows "gap_start xs b \<le> h"
  using assms(1)
proof (cases rule: ub_cases [where at = b])
  case none
  then show ?thesis using assms(2) by (simp add: gap_start_def)
next
  case (some ys k v zs)
  have "v_end v \<le> h"
  proof (rule ccontr)
    assume "\<not> v_end v \<le> h"
    moreover have "k \<le> h" using some(4) assms(2) by simp
    ultimately have "vma_at xs h = Some (v_prot v)"
      using vma_at_SomeI [OF assms(1), of "(k, v)" h] some(3) by (simp add: not_le)
    then show False
      using assms(5) fits_nonempty [OF assms(3,4)] unfolding free_window_def by (metis option.distinct(1) order_refl)
  qed
  then show ?thesis using some assms(2) by (simp add: gap_start_def)
qed

lemma free_window_from:
  assumes "vma_ok xs" "gap_start xs b \<le> g"
  shows "free_window (from_ub b xs) g sz = free_window xs g sz"
  unfolding free_window_def using gap_start_at [OF assms(1)] assms(2) by (metis order_trans)

lemma find_gap_sound:
  assumes "vma_ok xs" "find_gap xs b limit sz \<noteq> 0"
  shows "b \<le> find_gap xs b limit sz \<and> fits (find_gap xs b limit sz) limit sz \<and>
         free_window xs (find_gap xs b limit sz) sz"
  using gap_loop_sound [OF from_ub_ok [OF assms(1)] refl assms(2) [unfolded find_gap_start]]
    free_window_from [OF assms(1)] order_trans [OF gap_start_ge]
  unfolding find_gap_start by blast

lemma find_gap_first:
  assumes "vma_ok xs" "b \<le> h" "fits h limit sz" "0 < sz" "free_window xs h sz"
  shows "b \<le> find_gap xs b limit sz \<and> find_gap xs b limit sz \<le> h"
  using gap_loop_first [OF from_ub_ok [OF assms(1)] gap_start_le [OF assms] assms(3,4)]
    free_window_from [OF assms(1) gap_start_le [OF assms]] assms(5) order_trans [OF gap_start_ge]
  unfolding find_gap_start by blast

section \<open>Page arithmetic\<close>

definition page_aligned :: "u64 \<Rightarrow> bool" where
  "page_aligned a \<longleftrightarrow> a mod 4096 = 0"

definition page_base :: "u64 \<Rightarrow> u64" where
  "page_base a = a div 4096 * 4096"

lemma unat_page_base: "unat (page_base a) = unat a div 4096 * 4096"
proof -
  have "unat a div 4096 * 4096 \<le> unat a" by (rule div_times_less_eq_dividend)
  also have "unat a < 2 ^ 64" using unsigned_less [of a] by simp
  finally show ?thesis by (simp add: page_base_def unat_word_ariths unat_div)
qed

lemma page_aligned_unat: "page_aligned a \<longleftrightarrow> unat a mod 4096 = 0"
  by (simp add: page_aligned_def unat_mod word_unat_eq_iff)

lemma window_page:
  assumes "page_aligned b"
  shows "b \<le> page_base a \<longleftrightarrow> b \<le> a" "page_base a < b \<longleftrightarrow> a < b"
proof -
  obtain k where k: "unat b = 4096 * k" using assms by (auto simp: page_aligned_unat)
  have "4096 * k \<le> unat a div 4096 * 4096 \<longleftrightarrow> 4096 * k \<le> unat a"
    using less_eq_div_iff_mult_less_eq [of 4096 k "unat a"] by (simp add: mult.commute)
  then show "b \<le> page_base a \<longleftrightarrow> b \<le> a" by (simp add: word_le_nat_alt unat_page_base k)
  then show "page_base a < b \<longleftrightarrow> a < b" by auto
qed

section \<open>The interface\<close>

text \<open>
  What the rest of the memory relies on: a map from addresses to permissions with an invariant,
  changed a range at a time.
\<close>

locale address_map =
  fixes lookup :: "'m \<Rightarrow> u64 \<Rightarrow> u8 option"
    and inv :: "'m \<Rightarrow> bool"
    and put :: "u64 \<Rightarrow> u64 \<Rightarrow> u8 \<Rightarrow> 'm \<Rightarrow> 'm"
    and add :: "u64 \<Rightarrow> u64 \<Rightarrow> u8 \<Rightarrow> 'm \<Rightarrow> 'm"
    and remove :: "u64 \<Rightarrow> u64 \<Rightarrow> 'm \<Rightarrow> 'm"
  assumes inv_put: "inv m \<Longrightarrow> lo < hi \<Longrightarrow> inv (put lo hi p m)"
    and inv_add: "inv m \<Longrightarrow> lo < hi \<Longrightarrow> inv (add lo hi p m)"
    and inv_remove: "inv m \<Longrightarrow> inv (remove lo hi m)"
    and lookup_put: "inv m \<Longrightarrow> lo < hi \<Longrightarrow>
      lookup (put lo hi p m) a = (if lo \<le> a \<and> a < hi then Some p else lookup m a)"
    and lookup_add: "inv m \<Longrightarrow> lo < hi \<Longrightarrow>
      lookup (add lo hi p m) a = (if lo \<le> a \<and> a < hi then or_prot p (lookup m a) else lookup m a)"
    and lookup_remove: "inv m \<Longrightarrow>
      lookup (remove lo hi m) a = (if lo \<le> a \<and> a < hi then None else lookup m a)"
begin

lemmas invs = inv_put inv_add inv_remove
lemmas lookups = lookup_put lookup_add lookup_remove

text \<open>Laws of the map that follow: the last writer wins, and permissions only accumulate.\<close>

lemma put_put: "inv m \<Longrightarrow> lo < hi \<Longrightarrow> lookup (put lo hi q (put lo hi p m)) = lookup (put lo hi q m)"
  by (simp add: fun_eq_iff lookups invs)

lemma remove_put: "inv m \<Longrightarrow> lo < hi \<Longrightarrow> lookup (remove lo hi (put lo hi p m)) = lookup (remove lo hi m)"
  by (simp add: fun_eq_iff lookups invs)

lemma put_remove: "inv m \<Longrightarrow> lo < hi \<Longrightarrow> lookup (put lo hi p (remove lo hi m)) = lookup (put lo hi p m)"
  by (simp add: fun_eq_iff lookups invs)

lemma add_add: "inv m \<Longrightarrow> lo < hi \<Longrightarrow> lookup (add lo hi q (add lo hi p m)) = lookup (add lo hi (p OR q) m)"
  by (auto simp: fun_eq_iff lookups invs or_prot_def or.assoc split: option.splits)

text \<open>A map whose changes are page aligned is constant on pages.\<close>

definition page_constant :: "'m \<Rightarrow> bool" where
  "page_constant m \<longleftrightarrow> (\<forall>a. lookup m (page_base a) = lookup m a)"

lemma page_constant_put:
  "inv m \<Longrightarrow> lo < hi \<Longrightarrow> page_aligned lo \<Longrightarrow> page_aligned hi \<Longrightarrow> page_constant m \<Longrightarrow>
   page_constant (put lo hi p m)"
  unfolding page_constant_def by (simp add: lookups window_page)

lemma page_constant_add:
  "inv m \<Longrightarrow> lo < hi \<Longrightarrow> page_aligned lo \<Longrightarrow> page_aligned hi \<Longrightarrow> page_constant m \<Longrightarrow>
   page_constant (add lo hi p m)"
  unfolding page_constant_def by (simp add: lookups window_page)

lemma page_constant_remove:
  "inv m \<Longrightarrow> page_aligned lo \<Longrightarrow> page_aligned hi \<Longrightarrow> page_constant m \<Longrightarrow>
   page_constant (remove lo hi m)"
  unfolding page_constant_def by (simp add: lookups window_page)

end

interpretation vma: address_map vma_at vma_ok vma_set vma_or erase_vma
  by unfold_locales (simp_all add: vma_set_props vma_or_props erase_vma_props)

section \<open>Properties\<close>

text \<open>
  C20. The three updates of the mapping index keep its ranges nonempty, sorted and disjoint,
  through splitting, inserting and joining neighbours, and change exactly the addresses of the
  range: a mapping replaces the permissions, a combining mapping adds to them, an erasure
  removes them.
\<close>

theorem vma_updates:
  assumes "vma_ok xs" "lo < hi"
  shows "vma_ok (vma_set lo hi p xs) \<and> vma_ok (vma_or lo hi p xs) \<and> vma_ok (erase_vma lo hi xs) \<and>
    vma_at (vma_set lo hi p xs) a = (if lo \<le> a \<and> a < hi then Some p else vma_at xs a) \<and>
    vma_at (vma_or lo hi p xs) a =
      (if lo \<le> a \<and> a < hi then Some (case vma_at xs a of None \<Rightarrow> p | Some q \<Rightarrow> q OR p)
       else vma_at xs a) \<and>
    vma_at (erase_vma lo hi xs) a = (if lo \<le> a \<and> a < hi then None else vma_at xs a)"
  using vma.invs [OF assms(1)] vma.lookups [OF assms(1)] assms(2) by (simp add: or_prot_def)

theorem vma_updates_witness:
  "vma_at (vma_or 0x2000 0x4000 2 (vma_set 0x1000 0x3000 1 [])) 0x2800 = Some 3"
proof -
  have "vma_ok (vma_set 0x1000 0x3000 1 [])" "vma_at (vma_set 0x1000 0x3000 1 []) 0x2800 = Some 1"
    using vma_updates [where xs = "[]" and lo = "0x1000" and hi = "0x3000" and p = 1 and a = "0x2800"]
    by simp_all
  then show ?thesis
    using vma_updates [where xs = "vma_set 0x1000 0x3000 1 []" and lo = "0x2000" and hi = "0x4000"
        and p = 2 and a = "0x2800"] by simp
qed

text \<open>
  C38. The range queries answer what they say: the permissions at an address, whether every
  address of a range is mapped, whether some address of it is.
\<close>

theorem vma_queries:
  assumes "vma_ok xs"
  shows "mapping_prot_at xs a = map_option (\<lambda>p. p AND 7) (vma_at xs a) \<and>
    range_mapped xs lo hi = ({b. lo \<le> b \<and> b < hi} \<subseteq> {b. vma_at xs b \<noteq> None}) \<and>
    range_overlaps xs lo hi = (\<exists>b. lo \<le> b \<and> b < hi \<and> vma_at xs b \<noteq> None)"
  using mapping_prot_at_eq [OF assms] range_mapped_iff [OF assms] range_overlaps_iff [OF assms]
  by auto

theorem vma_queries_witness:
  "range_mapped [(0x1000, \<lparr>v_end = 0x3000, v_prot = 1\<rparr>), (0x3000, \<lparr>v_end = 0x4000, v_prot = 3\<rparr>)]
     0x1800 0x3800 =
   ({b. 0x1800 \<le> b \<and> b < 0x3800} \<subseteq>
    {b. vma_at [(0x1000, \<lparr>v_end = 0x3000, v_prot = 1\<rparr>), (0x3000, \<lparr>v_end = 0x4000, v_prot = 3\<rparr>)] b
          \<noteq> None})"
  using vma_queries [where xs = "[(0x1000, \<lparr>v_end = 0x3000, v_prot = 1\<rparr>), (0x3000, \<lparr>v_end = 0x4000, v_prot = 3\<rparr>)]"]
  by simp

text \<open>
  C21. The gap search is sound and first fit: a nonzero result lies in \<open>[from, limit)\<close> with room
  for the size and nothing mapped in the window, and no earlier window of that size is free. A
  result of 0 with a nonzero \<open>from\<close> means that there is none.
\<close>

theorem find_gap_first_fit:
  assumes "vma_ok xs" "0 < b" "0 < sz"
  shows "if find_gap xs b limit sz = 0
         then \<not> (\<exists>h. b \<le> h \<and> h < limit \<and> sz \<le> limit - h \<and> free_window xs h sz)
         else is_arg_min (\<lambda>h. h) (\<lambda>h. b \<le> h \<and> h < limit \<and> sz \<le> limit - h \<and> free_window xs h sz)
                (find_gap xs b limit sz)"
proof -
  have least: "find_gap xs b limit sz \<le> h \<and> find_gap xs b limit sz \<noteq> 0"
    if "b \<le> h" "fits h limit sz" "free_window xs h sz" for h
    using find_gap_first [OF assms(1) that(1,2) assms(3) that(3)] assms(2) by auto
  show ?thesis
    using least find_gap_sound [OF assms(1), of b limit sz] unfolding fits_def is_arg_min_def
    by (auto dest: leD)
qed

theorem find_gap_first_fit_witness:
  "find_gap [(0x1000, \<lparr>v_end = 0x3000, v_prot = 1\<rparr>)] 0x2000 0x9000 0x1000 \<noteq> 0 \<and>
   free_window [(0x1000, \<lparr>v_end = 0x3000, v_prot = 1\<rparr>)]
     (find_gap [(0x1000, \<lparr>v_end = 0x3000, v_prot = 1\<rparr>)] 0x2000 0x9000 0x1000) 0x1000"
proof -
  let ?xs = "[(0x1000, \<lparr>v_end = 0x3000, v_prot = 1\<rparr>)] :: vma_index"
  have ok: "vma_ok ?xs" by simp
  have "find_gap ?xs 0x2000 0x9000 0x1000 = 0x3000"
    by (simp add: find_gap_def before_ub_def from_ub_def Let_def)
  then show ?thesis
    using find_gap_first_fit [OF ok, where b = "0x2000" and sz = "0x1000" and limit = "0x9000"] by (simp add: is_arg_min_def)
qed

end
