(* ===== verification/MemProps.thy ===== *)
theory MemProps
  imports Mem VmaProps
begin

text \<open>
  The per-page flag mirror. The access check and generated code read one byte per page instead
  of the mapping index; every operation that changes the index changes the mirror with it, and
  the check clears nothing but the userfaultfd bit of a page that is not registered.
\<close>

section \<open>Edges of ranges\<close>

definition edges :: "vma_index \<Rightarrow> u64 set" where
  "edges xs = fst ` set xs \<union> (\<lambda>e. v_end (snd e)) ` set xs"

lemma edges_simps [simp]:
  "edges [] = {}" "edges ((k, v) # xs) = {k, v_end v} \<union> edges xs"
  "edges (xs @ ys) = edges xs \<union> edges ys"
  by (auto simp: edges_def)

lemma edges_mono: "set xs \<subseteq> set ys \<Longrightarrow> edges xs \<subseteq> edges ys"
  by (auto simp: edges_def)

lemma edges_while: "edges (takeWhile P xs) \<subseteq> edges xs" "edges (dropWhile P xs) \<subseteq> edges xs"
  by (auto simp: edges_def dest: set_takeWhileD set_dropWhileD)

lemma edges_lb: "edges (before_lb c xs) \<subseteq> edges xs" "edges (from_lb c xs) \<subseteq> edges xs"
  by (simp_all only: before_lb_def from_lb_def edges_while)

lemma edges_split: "edges (split_vma c xs) \<subseteq> insert c (edges xs)"
proof (cases "before_ub c xs" rule: rev_cases)
  case (snoc ys e)
  obtain k v where e: "e = (k, v)" by (cases e)
  have "xs = ys @ (k, v) # from_ub c xs" using ub_split [of c xs] snoc e by simp
  then have "edges xs = edges (ys @ (k, v) # from_ub c xs)" by simp
  then show ?thesis using snoc e by (auto simp: split_vma_def)
qed (auto simp: split_vma_def)

lemma edges_erase: "edges (erase_vma lo hi xs) \<subseteq> {lo, hi} \<union> edges xs"
proof -
  let ?ys = "split_vma hi (split_vma lo xs)"
  have "edges ?ys \<subseteq> {lo, hi} \<union> edges xs" using edges_split by blast
  moreover have "edges (dropWhile P (from_lb lo ?ys)) \<subseteq> edges ?ys" for P
    using edges_while(2) edges_lb(2) by blast
  moreover have "edges (before_lb lo ?ys) \<subseteq> edges ?ys" by (rule edges_lb(1))
  ultimately show ?thesis unfolding erase_vma_def Let_def edges_simps(3) if_distrib
    by (auto split: if_splits)
qed

lemma edges_coalesce_loop: "edges (coalesce_loop hi xs) \<subseteq> edges xs"
  by (induction hi xs rule: coalesce_loop.induct) auto

lemma edges_coalesce: "edges (coalesce lo hi xs) \<subseteq> edges xs"
proof (cases "before_lb lo xs" rule: rev_cases)
  case Nil
  then show ?thesis using edges_coalesce_loop lb_split [of lo xs] by (auto simp: coalesce_def)
next
  case (snoc ys e)
  have "edges xs = edges ys \<union> edges (e # from_lb lo xs)"
    using lb_split [of lo xs] snoc by (metis append.assoc append_Cons append_Nil edges_simps(3))
  then show ?thesis using snoc edges_coalesce_loop [of hi "e # from_lb lo xs"]
    by (auto simp: coalesce_def)
qed

lemma edges_or_loop: "edges (or_loop cur hi p xs) \<subseteq> {cur, hi} \<union> edges xs"
proof (induction cur hi p xs rule: or_loop.induct)
  case (2 cur hi prot k v xs)
  show ?case
    by (subst or_loop.simps) (use 2 in \<open>auto simp: min_def simp del: or_loop.simps split: if_splits\<close>)
qed auto

lemma edges_set: "edges (vma_set lo hi p xs) \<subseteq> {lo, hi} \<union> edges xs"
  using edges_coalesce edges_lb edges_erase [of lo hi xs]
  by (fastforce simp: vma_set_def Let_def dest!: subsetD [OF edges_coalesce])

lemma edges_or: "edges (vma_or lo hi p xs) \<subseteq> {lo, hi} \<union> edges xs"
proof -
  let ?ys = "split_vma hi (split_vma lo xs)"
  have "edges ?ys \<subseteq> {lo, hi} \<union> edges xs" using edges_split by blast
  then show ?thesis using edges_lb edges_or_loop [of lo hi p "from_lb lo ?ys"]
    by (fastforce simp: vma_or_def Let_def dest!: subsetD [OF edges_coalesce])
qed

definition index_aligned :: "vma_index \<Rightarrow> bool" where
  "index_aligned xs \<longleftrightarrow> (\<forall>a \<in> edges xs. page_aligned a)"

lemma index_aligned_intros:
  assumes "index_aligned xs" "page_aligned lo" "page_aligned hi"
  shows "index_aligned (erase_vma lo hi xs)" "index_aligned (vma_set lo hi p xs)"
    "index_aligned (vma_or lo hi p xs)"
  using assms edges_erase [of lo hi xs] edges_set [of lo hi p xs] edges_or [of lo hi p xs]
  unfolding index_aligned_def by blast+

section \<open>Pages of a range\<close>

text \<open>Page numbers of the 64-bit address space.\<close>

abbreviation (input) page_no :: "u64 \<Rightarrow> bool" where
  "page_no p \<equiv> p < 2 ^ 52"

lemma unat_u64: "unat (a :: u64) < 2 ^ 64"
proof -
  have "unsigned a < (2 :: nat) ^ LENGTH(64)" by (rule unsigned_less)
  then show ?thesis by simp
qed

lemma page_alignedE:
  assumes "page_aligned a"
  obtains k where "unat a = 4096 * k"
  using assms by (auto simp: page_aligned_unat elim!: dvdE)

lemma unat_page_addr: "page_no p \<Longrightarrow> unat (p * 4096) = unat p * 4096"
proof -
  assume "page_no p"
  then have "unat p < 2 ^ 52" by (simp add: word_less_nat_alt)
  then show ?thesis by (simp add: unat_word_ariths)
qed

lemma pages_iff: "p \<in> set (pages lo hi) \<longleftrightarrow> lo div 4096 \<le> p \<and> p < hi div 4096"
proof
  assume "p \<in> set (pages lo hi)"
  then obtain i where i: "unat (lo div 4096) \<le> i" "i < unat (hi div 4096)" "p = of_nat i"
    by (auto simp: pages_def)
  have "i < 2 ^ 64" using i(2) unat_u64 [of "hi div 4096"] by simp
  then have "unat p = i" using i(3) by (simp add: unat_of_nat)
  then show "lo div 4096 \<le> p \<and> p < hi div 4096" using i by (simp add: word_le_nat_alt word_less_nat_alt)
next
  assume a: "lo div 4096 \<le> p \<and> p < hi div 4096"
  then show "p \<in> set (pages lo hi)"
    unfolding pages_def set_map
    by (intro image_eqI [of _ _ "unat p"]) (simp_all add: word_le_nat_alt word_less_nat_alt)
qed

lemma pages_page_no: "p \<in> set (pages lo hi) \<Longrightarrow> page_no p"
proof -
  assume "p \<in> set (pages lo hi)"
  then have "unat p < unat hi div 4096" by (simp add: pages_iff word_less_nat_alt unat_div)
  also have "unat hi div 4096 < 2 ^ 52" using unat_u64 [of hi] by simp
  finally show ?thesis by (simp add: word_less_nat_alt)
qed

lemma pages_window:
  assumes "page_aligned lo" "page_aligned hi" "page_no p"
  shows "p \<in> set (pages lo hi) \<longleftrightarrow> lo \<le> p * 4096 \<and> p * 4096 < hi"
proof -
  obtain l h where "unat lo = 4096 * l" "unat hi = 4096 * h"
    using assms by (meson page_alignedE)
  then show ?thesis
    using assms(3) by (simp add: pages_iff word_le_nat_alt word_less_nat_alt unat_div unat_page_addr)
qed

section \<open>What a flag change leaves alone\<close>

definition forget_flags :: "Memory \<Rightarrow> Memory" where
  "forget_flags m = m\<lparr>page_flags := (\<lambda>_. 0), software_check_pages := 0,
     software_check_activations := 0, jit_software_checks := False\<rparr>"

lemma page_flags_set [simp]: "page_flags (set_page_flags p f m) = (page_flags m)(p := f)"
  by (simp add: set_page_flags_def set_software_checks_def Let_def)

lemma forget_set_page_flags: "forget_flags (set_page_flags p f m) = forget_flags m"
  by (simp add: set_page_flags_def set_software_checks_def forget_flags_def Let_def)

lemma vmas_forget: "vmas (forget_flags m) = vmas m"
  by (simp add: forget_flags_def)

lemma forget_vmas: "forget_flags m = forget_flags m' \<Longrightarrow> vmas m = vmas m'"
  by (metis vmas_forget)

lemma forget_fold: "(\<And>p m. forget_flags (f p m) = forget_flags m) \<Longrightarrow> forget_flags (fold f ps m) = forget_flags m"
  by (induction ps arbitrary: m) simp_all

lemma forget_flag_page: "forget_flags (flag_page k prot p m) = forget_flags m"
  by (simp add: flag_page_def forget_set_page_flags)

lemma forget_mapping_none: "forget_flags (set_mapping_none lo hi k m) = forget_flags m"
  unfolding set_mapping_none_def
  by (rule forget_fold) (auto intro: forget_fold simp: forget_flag_page split: prod.split)

text \<open>The host protections are changed by nothing but \<open>set_direct_prot\<close>, which changes nothing else.\<close>

lemma set_direct_prot_frame: "(set_direct_prot lo hi p m)\<lparr>host_prot := h\<rparr> = m\<lparr>host_prot := h\<rparr>"
  by (simp add: set_direct_prot_def Let_def)

lemma set_direct_prot_fields [simp]:
  "page_flags (set_direct_prot lo hi p m) = page_flags m"
  "vmas (set_direct_prot lo hi p m) = vmas m"
  "window_size (set_direct_prot lo hi p m) = window_size m"
  "mem_bytes (set_direct_prot lo hi p m) = mem_bytes m"
  "software_check_pages (set_direct_prot lo hi p m) = software_check_pages m"
  "software_checks_sticky (set_direct_prot lo hi p m) = software_checks_sticky m"
  "jit_software_checks (set_direct_prot lo hi p m) = jit_software_checks m"
  "guard_pages (set_direct_prot lo hi p m) = guard_pages m"
  "uffd_tracking (set_direct_prot lo hi p m) = uffd_tracking m"
  by (simp_all add: set_direct_prot_def Let_def)

text \<open>A discard changes bytes of its range only.\<close>

lemma discard_host_fields [simp]:
  "page_flags (discard_host lo hi m) = page_flags m" "vmas (discard_host lo hi m) = vmas m"
  "window_size (discard_host lo hi m) = window_size m" "file_pages (discard_host lo hi m) = file_pages m"
  "software_check_pages (discard_host lo hi m) = software_check_pages m"
  "software_checks_sticky (discard_host lo hi m) = software_checks_sticky m"
  "jit_software_checks (discard_host lo hi m) = jit_software_checks m"
  "guard_pages (discard_host lo hi m) = guard_pages m" "host_prot (discard_host lo hi m) = host_prot m"
  "uffd_tracking (discard_host lo hi m) = uffd_tracking m"
  by (simp_all add: discard_host_def)

lemma discard_host_bytes:
  "mem_bytes (discard_host lo hi m) a = (if lo \<le> a \<and> a < hi then refault m a else mem_bytes m a)"
  by (simp add: discard_host_def)

section \<open>The mirror\<close>

text \<open>The flags a page has from its permissions: the mapped bit and what the check compares.\<close>

definition prot_flags :: "u8 option \<Rightarrow> u8" where
  "prot_flags q =
     (case q of None \<Rightarrow> 0
      | Some p \<Rightarrow> if effective_page_prot p = 0 then 0 else 0x80 OR effective_page_prot p)"

definition mirror :: "Memory \<Rightarrow> bool" where
  "mirror m \<longleftrightarrow>
     (\<forall>p < 2 ^ 52. page_flags m p AND 0x87 = prot_flags (vma_at (vmas m) (p * 4096)))"

definition prots_ok :: "vma_index \<Rightarrow> bool" where
  "prots_ok xs \<longleftrightarrow> (\<forall>a p. vma_at xs a = Some p \<longrightarrow> p \<le> 7)"

definition mem_ok :: "Memory \<Rightarrow> bool" where
  "mem_ok m \<longleftrightarrow> vma_ok (vmas m) \<and> index_aligned (vmas m) \<and> prots_ok (vmas m) \<and> mirror m"

lemma le_7_iff: "p \<le> 7 \<longleftrightarrow> p AND 7 = p" for p :: u8
proof -
  have "p \<le> 7 \<longleftrightarrow> p < 2 ^ 3" by (simp add: word_le_nat_alt word_less_nat_alt) arith
  also have "\<dots> \<longleftrightarrow> take_bit 3 p = p" by (rule word_less_exp_iff) simp
  also have "take_bit 3 p = p AND 7" by (simp add: take_bit_eq_mask mask_eq_exp_minus_1)
  finally show ?thesis .
qed

lemma or_le_7: "p \<le> 7 \<Longrightarrow> q \<le> 7 \<Longrightarrow> p OR q \<le> (7 :: u8)"
  by (simp add: le_7_iff bit.conj_disj_distrib2)

lemma and_7_87: "p \<le> 7 \<Longrightarrow> p AND 0x87 = (p :: u8)"
proof -
  assume "p \<le> 7"
  then have "p AND 0x87 = (p AND 7) AND 0x87" by (simp add: le_7_iff)
  also have "\<dots> = p AND 7" by (simp add: and.assoc)
  finally show ?thesis using \<open>p \<le> 7\<close> by (simp add: le_7_iff)
qed

lemma effective_le_7: "p \<le> 7 \<Longrightarrow> effective_page_prot p \<le> 7"
  by (simp add: effective_page_prot_def or_le_7)

lemma flags_for_mirror: "p \<le> 7 \<Longrightarrow> flags_for k old p AND 0x87 = prot_flags (Some p)"
  using and_7_87 [OF effective_le_7, of p]
  by (simp add: flags_for_def prot_flags_def Let_def bit.conj_disj_distrib2 and.assoc)

lemma flags_for_none: "flags_for k old 0 AND 0x87 = 0"
  using flags_for_mirror [of 0 k old] by (simp add: prot_flags_def effective_page_prot_def)

text \<open>Folding a flag change over pages, as far as the mirrored bits see it.\<close>

lemma fold_flags_page:
  assumes "\<And>p m. p \<in> set ps \<Longrightarrow> page_flags (f p m) = (page_flags m)(p := g p m)"
    and "\<And>p m. p \<in> set ps \<Longrightarrow> g p m AND 0x87 = h p"
  shows "page_flags (fold f ps m) q AND 0x87 = (if q \<in> set ps then h q else page_flags m q AND 0x87)"
  using assms
proof (induction ps arbitrary: m)
  case (Cons p ps)
  have "page_flags (fold f ps (f p m)) q AND 0x87 =
      (if q \<in> set ps then h q else page_flags (f p m) q AND 0x87)"
    using Cons by simp
  then show ?case using Cons.prems(1) [of p m] Cons.prems(2) [of p m] by simp
qed simp

lemma fold_flag_page:
  assumes "prot \<le> 7"
  shows "page_flags (fold (flag_page k prot) ps m) q AND 0x87 =
           (if q \<in> set ps then prot_flags (Some prot) else page_flags m q AND 0x87)"
  by (rule fold_flags_page [OF _ flags_for_mirror [OF assms]]) (simp add: flag_page_def)


section \<open>Ranges with access inside a window\<close>

lemma overlaps_src:
  assumes "(a, b, r) \<in> set (overlaps_in lo hi xs)"
  obtains k v where "(k, v) \<in> set xs" "a = max lo k" "b = min hi (v_end v)" "r = v_prot v"
proof -
  let ?ys = "step_back (before_ub lo xs) (from_ub lo xs)"
  have sub: "set ?ys \<subseteq> set xs"
  proof (cases "before_ub lo xs" rule: rev_cases)
    case Nil
    then show ?thesis by (auto simp: step_back_def from_ub_def dest: set_dropWhileD)
  next
    case (snoc ys e)
    then have "set xs = set ((ys @ [e]) @ from_ub lo xs)" by (metis ub_split)
    then show ?thesis using snoc by (auto simp: step_back_def)
  qed
  from assms obtain k v where e: "(k, v) \<in> set (takeWhile (\<lambda>e. fst e < hi) ?ys)"
    "a = max lo k" "b = min hi (v_end v)" "r = v_prot v"
    unfolding overlaps_in_def set_map by (auto simp del: max_def min_def)
  from subsetD [OF sub conjunct1 [OF set_takeWhileD [OF e(1)]]] e(2-4) show thesis by (rule that)
qed

lemma vma_at_takeWhile:
  "a < hi \<Longrightarrow> vma_ok xs \<Longrightarrow> vma_at (takeWhile (\<lambda>e. fst e < hi) xs) a = vma_at xs a"
proof (induction xs a rule: vma_at.induct)
  case (2 k v xs a)
  show ?case
  proof (cases "k < hi")
    case True
    then show ?thesis using 2 by simp
  next
    case False
    then have "vma_at ((k, v) # xs) a = None"
      using vma_at_before_first [OF "2.prems"(2)] less_le_trans [OF "2.prems"(1), of k] by simp
    then show ?thesis using False by simp
  qed
qed simp

lemma overlaps_hit:
  assumes "vma_ok xs" "vma_at xs a = Some r" "lo \<le> a" "a < hi"
  shows "\<exists>b c. (b, c, r) \<in> set (overlaps_in lo hi xs) \<and> b \<le> a \<and> a < c"
proof -
  let ?ys = "step_back (before_ub lo xs) (from_ub lo xs)"
  have "vma_at (takeWhile (\<lambda>e. fst e < hi) ?ys) a = Some r"
    using vma_at_takeWhile [OF assms(4) step_back_ok [OF assms(1)]] step_back_at [OF assms(1,3)] assms(2)
    by simp
  from vma_at_SomeD [OF this] obtain k v where e: "(k, v) \<in> set (takeWhile (\<lambda>e. fst e < hi) ?ys)"
    "k \<le> a" "a < v_end v" "v_prot v = r" by (metis prod.collapse)
  have "\<not> v_end v \<le> lo" using assms(3) e(3) by (meson le_less_trans leD)
  then have "(max lo k, min hi (v_end v), r) \<in> set (overlaps_in lo hi xs)"
    unfolding overlaps_in_def set_map set_filter using e(1,4)
    by (intro image_eqI [where x = "(k, v)"]) simp_all
  moreover have "max lo k \<le> a" "a < min hi (v_end v)" using e assms(3,4) by simp_all
  ultimately show ?thesis by blast
qed

definition covered :: "(u64 \<times> u64 \<times> u8) list \<Rightarrow> (u8 \<Rightarrow> bool) \<Rightarrow> u64 \<Rightarrow> bool" where
  "covered ovs P p \<longleftrightarrow> (\<exists>(a, b, r) \<in> set ovs. P r \<and> p \<in> set (pages a b))"

lemma covered_simps [simp]:
  "covered [] P p = False"
  "covered ((a, b, r) # ovs) P p \<longleftrightarrow> P r \<and> p \<in> set (pages a b) \<or> covered ovs P p"
  by (auto simp: covered_def)

lemma covered_overlaps:
  assumes "vma_ok xs" "index_aligned xs" "page_aligned lo" "page_aligned hi" "page_no p"
  shows "covered (overlaps_in lo hi xs) P p \<Longrightarrow> p \<in> set (pages lo hi)"
    and "p \<in> set (pages lo hi) \<Longrightarrow> \<not> covered (overlaps_in lo hi xs) P p \<Longrightarrow>
           vma_at xs (p * 4096) = Some r \<Longrightarrow> \<not> P r"
proof -
  have al: "page_aligned a \<and> page_aligned b" if "(a, b, r) \<in> set (overlaps_in lo hi xs)" for a b r
  proof -
    from overlaps_src [OF that] obtain k v where
      e: "(k, v) \<in> set xs" "a = max lo k" "b = min hi (v_end v)" by metis
    have "k \<in> edges xs" "v_end v \<in> edges xs" using e(1) by (auto simp: edges_def intro: rev_image_eqI)
    then have "page_aligned k" "page_aligned (v_end v)" using assms(2) by (simp_all add: index_aligned_def)
    then show ?thesis using assms(3,4) unfolding e(2,3) by (simp add: max_def min_def)
  qed
  show "p \<in> set (pages lo hi)" if c: "covered (overlaps_in lo hi xs) P p"
  proof -
    from c obtain a b r where o: "(a, b, r) \<in> set (overlaps_in lo hi xs)" "p \<in> set (pages a b)"
      by (auto simp: covered_def)
    then have "a \<le> p * 4096" "p * 4096 < b"
      using al [OF o(1)] pages_window [OF _ _ assms(5), of a b] by simp_all
    moreover from overlaps_src [OF o(1)] have "lo \<le> a" "b \<le> hi" by (metis max.cobounded1, metis min.cobounded1)
    ultimately show ?thesis
      using pages_window [OF assms(3-5)] by (meson order_trans less_le_trans)
  qed
  show "\<not> P r" if w: "p \<in> set (pages lo hi)" and n: "\<not> covered (overlaps_in lo hi xs) P p"
    and v: "vma_at xs (p * 4096) = Some r"
  proof
    assume "P r"
    have "lo \<le> p * 4096" "p * 4096 < hi" using pages_window [OF assms(3-5)] w by simp_all
    from overlaps_hit [OF assms(1) v this] obtain b c where
      o: "(b, c, r) \<in> set (overlaps_in lo hi xs)" "b \<le> p * 4096" "p * 4096 < c" by blast
    then have "p \<in> set (pages b c)" using al [OF o(1)] pages_window [OF _ _ assms(5), of b c] by simp
    then show False using n o(1) \<open>P r\<close> by (auto simp: covered_def)
  qed
qed


section \<open>Every update keeps the mirror\<close>

lemma fold_covered:
  assumes "\<And>a b r m q. P r \<Longrightarrow> page_flags (f (a, b, r) m) q AND 0x87 =
      (if q \<in> set (pages a b) then 0 else page_flags m q AND 0x87)"
    and "\<And>a b r m q. \<not> P r \<Longrightarrow> page_flags (f (a, b, r) m) q = page_flags m q"
  shows "page_flags (fold f ovs m) q AND 0x87 = (if covered ovs P q then 0 else page_flags m q AND 0x87)"
proof (induction ovs arbitrary: m)
  case (Cons e ovs)
  obtain a b r where e: "e = (a, b, r)" by (cases e)
  show ?case using assms [of r a b m q] Cons [of "f e m"] unfolding e by (cases "P r") simp_all
qed simp

text \<open>
  Reading a mirror off: outside the window nothing changed, inside it the flags are those of
  the new permissions.
\<close>

lemma mirrorI:
  assumes "mirror m" "page_aligned lo" "page_aligned hi"
    and "\<And>a. \<not> (lo \<le> a \<and> a < hi) \<Longrightarrow> vma_at (vmas m') a = vma_at (vmas m) a"
    and "\<And>p. page_no p \<Longrightarrow> p \<notin> set (pages lo hi) \<Longrightarrow> page_flags m' p AND 0x87 = page_flags m p AND 0x87"
    and "\<And>p. page_no p \<Longrightarrow> p \<in> set (pages lo hi) \<Longrightarrow>
           page_flags m' p AND 0x87 = prot_flags (vma_at (vmas m') (p * 4096))"
  shows "mirror m'"
  unfolding mirror_def
proof (intro allI impI)
  fix p :: u64 assume p: "page_no p"
  show "page_flags m' p AND 0x87 = prot_flags (vma_at (vmas m') (p * 4096))"
  proof (cases "p \<in> set (pages lo hi)")
    case False
    then show ?thesis
      using assms(1) [unfolded mirror_def, rule_format, OF p] assms(4) [of "p * 4096"]
        assms(5) [OF p] pages_window [OF assms(2,3) p] by metis
  qed (rule assms(6) [OF p])
qed

lemma mirror_cleared:
  assumes "mem_ok m" "page_aligned lo" "page_aligned hi" "page_no p" "p \<in> set (pages lo hi)"
    and "\<And>r. r \<noteq> 0 \<Longrightarrow> P r"
  shows "(if covered (overlaps_in lo hi (vmas m)) P p then 0 else page_flags m p AND 0x87) = 0"
proof (cases "covered (overlaps_in lo hi (vmas m)) P p")
  case False
  have "r = 0" if "vma_at (vmas m) (p * 4096) = Some r" for r
    using covered_overlaps(2) [OF _ _ assms(2-5) False that] assms(1,6) mem_ok_def by blast
  then have "prot_flags (vma_at (vmas m) (p * 4096)) = 0"
    by (auto simp: prot_flags_def effective_page_prot_def split: option.split)
  then show ?thesis using assms(1,4) False by (simp add: mem_ok_def mirror_def)
qed simp

lemma not_covered:
  assumes "mem_ok m" "page_aligned lo" "page_aligned hi" "page_no p" "p \<notin> set (pages lo hi)"
  shows "\<not> covered (overlaps_in lo hi (vmas m)) P p"
  using covered_overlaps(1) [OF _ _ assms(2-4)] assms(1,5) mem_ok_def by blast

lemma set_mapping_none_flags:
  "page_flags (set_mapping_none lo hi k m) q AND 0x87 =
     (if covered (overlaps_in lo hi (vmas m)) (\<lambda>r. r \<noteq> 0) q then 0 else page_flags m q AND 0x87)"
  unfolding set_mapping_none_def
  by (rule fold_covered) (simp_all add: fold_flag_page prot_flags_def effective_page_prot_def)

lemma fold_clear_flags:
  "page_flags (fold (\<lambda>p. set_page_flags p 0) ps m) q = (if q \<in> set ps then 0 else page_flags m q)"
  by (induction ps arbitrary: m) simp_all

lemma clear_overlap_flags:
  "page_flags (clear_overlap t (a, b, r) m) q =
     (if (r \<noteq> 0 \<or> t) \<and> q \<in> set (pages a b) then 0 else page_flags m q)"
  by (simp add: clear_overlap_def Let_def fold_clear_flags)

lemma vmas_set_page_flags [simp]: "vmas (set_page_flags p f m) = vmas m"
  by (rule forget_vmas, rule forget_set_page_flags)

lemma vmas_fold: "(\<And>x m. vmas (f x m) = vmas m) \<Longrightarrow> vmas (fold f xs m) = vmas m"
  by (induction xs arbitrary: m) simp_all

lemma vmas_flag_page [simp]: "vmas (flag_page k r p m) = vmas m"
  by (simp add: flag_page_def)

lemma vmas_clear_overlap [simp]: "vmas (clear_overlap t ov m) = vmas m"
  by (cases ov) (simp add: clear_overlap_def Let_def vmas_fold)

lemma vmas_mapping_none [simp]: "vmas (set_mapping_none lo hi k m) = vmas m"
  by (rule forget_vmas, rule forget_mapping_none)


lemma prots_okI:
  assumes "prots_ok xs" "p \<le> 7" "\<And>a q. vma_at ys a = Some q \<Longrightarrow> vma_at xs a = Some q \<or> q = p \<or> (\<exists>r. vma_at xs a = Some r \<and> q = r OR p)"
  shows "prots_ok ys"
  unfolding prots_ok_def using assms or_le_7 unfolding prots_ok_def by blast

lemma set_mapping_plain_ok:
  assumes "mem_ok m" "page_aligned lo" "page_aligned hi" "prot \<le> 7" "lo < hi"
  shows "mem_ok (set_mapping lo hi prot False k m)"
    and "vma_at (vmas (set_mapping lo hi prot False k m)) a =
           (if lo \<le> a \<and> a < hi then Some prot else vma_at (vmas m) a)"
proof -
  let ?m' = "set_mapping lo hi prot False k m"
  have ok: "vma_ok (vmas m)" using assms(1) by (simp add: mem_ok_def)
  have v: "vmas ?m' = vma_set lo hi prot (vmas m)"
    using assms(5) [unfolded not_le [symmetric]] by (simp add: set_mapping_def Let_def vmas_fold)
  show at: "vma_at (vmas ?m') a = (if lo \<le> a \<and> a < hi then Some prot else vma_at (vmas m) a)" for a
    unfolding v using vma.lookup_put [OF ok assms(5)] .
  have f: "page_flags ?m' q AND 0x87 =
      (if prot \<noteq> 0 then if q \<in> set (pages lo hi) then prot_flags (Some prot) else page_flags m q AND 0x87
       else if covered (overlaps_in lo hi (vmas m)) (\<lambda>r. r \<noteq> 0) q then 0 else page_flags m q AND 0x87)" for q
    using assms(4) assms(5) [unfolded not_le [symmetric]]
    by (simp add: set_mapping_def Let_def fold_flag_page set_mapping_none_flags)
  have "mirror ?m'"
  proof (rule mirrorI [OF _ assms(2,3), of m])
    show "page_flags ?m' p AND 0x87 = page_flags m p AND 0x87" if "page_no p" "p \<notin> set (pages lo hi)" for p
      unfolding f using not_covered [OF assms(1-3) that] that(2) by simp
    show "page_flags ?m' p AND 0x87 = prot_flags (vma_at (vmas ?m') (p * 4096))"
      if "page_no p" "p \<in> set (pages lo hi)" for p
    proof -
      have w: "lo \<le> p * 4096 \<and> p * 4096 < hi" using pages_window [OF assms(2,3) that(1)] that(2) by simp
      show ?thesis
        unfolding f at using mirror_cleared [OF assms(1-3) that, of "\<lambda>r. r \<noteq> 0"] w that(2)
        by (cases "prot = 0")
          (simp_all add: prot_flags_def effective_page_prot_def split del: if_split cong: if_cong)
    qed
  qed (use assms(1) at in \<open>auto simp: mem_ok_def\<close>)
  moreover have "prots_ok (vmas ?m')"
    by (rule prots_okI [OF _ assms(4)]) (use assms(1) at in \<open>auto simp: mem_ok_def split: if_splits\<close>)
  moreover have "vma_ok (vmas ?m')" unfolding v by (rule vma.inv_put [OF ok assms(5)])
  moreover have "index_aligned (vmas ?m')"
    unfolding v using index_aligned_intros(2) [OF _ assms(2,3)] assms(1) by (simp add: mem_ok_def)
  ultimately show "mem_ok ?m'" by (simp add: mem_ok_def)
qed

text \<open>The combining form: each page gets the flags of its own old permissions and the new ones.\<close>

lemma combine_page_mem:
  assumes "combine_page lo prot k p (rs, rp, m) = (rs', rp', m')"
  shows "vmas m' = vmas m"
    and "page_flags m' = (page_flags m)(p := flags_for k (page_flags m p)
           ((case mapping_prot_at (vmas m) (p * 4096) of None \<Rightarrow> 0 | Some q \<Rightarrow> q) OR prot))"
  using assms by (auto simp: combine_page_def Let_def flag_page_def split: if_splits)

lemma combine_fold:
  assumes "fold (combine_page lo prot k) ps (rs, rp, m) = (rs', rp', m')"
    and "vma_ok (vmas m)" "prots_ok (vmas m)" "prot \<le> 7"
  shows "vmas m' = vmas m \<and> page_flags m' q AND 0x87 =
      (if q \<in> set ps then prot_flags (or_prot prot (vma_at (vmas m) (q * 4096))) else page_flags m q AND 0x87)"
  using assms
proof (induction ps arbitrary: rs rp m)
  case (Cons p ps)
  obtain rs1 rp1 m1 where c: "combine_page lo prot k p (rs, rp, m) = (rs1, rp1, m1)" by (metis prod_cases3)
  note step = combine_page_mem [OF c]
  have old: "(case mapping_prot_at (vmas m) (p * 4096) of None \<Rightarrow> 0 | Some q \<Rightarrow> q) OR prot \<le> 7 \<and>
      Some ((case mapping_prot_at (vmas m) (p * 4096) of None \<Rightarrow> 0 | Some q \<Rightarrow> q) OR prot) =
      or_prot prot (vma_at (vmas m) (p * 4096))"
    using Cons.prems(3,4) or_le_7 unfolding prots_ok_def mapping_prot_at_eq [OF Cons.prems(2)]
    by (cases "vma_at (vmas m) (p * 4096)") (simp_all add: or_prot_def le_7_iff [symmetric], simp add: le_7_iff)
  have "vmas m' = vmas m1 \<and> page_flags m' q AND 0x87 =
      (if q \<in> set ps then prot_flags (or_prot prot (vma_at (vmas m1) (q * 4096))) else page_flags m1 q AND 0x87)"
    using Cons.prems c step(1) by (intro Cons.IH) simp_all
  then show ?case
    using flags_for_mirror [OF conjunct1 [OF old], of k "page_flags m p"] old step by (auto simp del: or_prot_def)
qed simp

lemma set_mapping_combine_ok:
  assumes "mem_ok m" "page_aligned lo" "page_aligned hi" "prot \<le> 7" "lo < hi"
  shows "mem_ok (set_mapping lo hi prot True k m)"
    and "vma_at (vmas (set_mapping lo hi prot True k m)) a =
           (if lo \<le> a \<and> a < hi then or_prot prot (vma_at (vmas m) a) else vma_at (vmas m) a)"
proof -
  let ?m' = "set_mapping lo hi prot True k m"
  have ok: "vma_ok (vmas m)" "prots_ok (vmas m)" using assms(1) by (simp_all add: mem_ok_def)
  obtain rs rp m1 where c: "fold (combine_page lo prot k) (pages lo hi) (lo, 0, m) = (rs, rp, m1)"
    by (metis prod_cases3)
  note fold = combine_fold [OF c ok assms(4)]
  have v: "vmas ?m' = vma_or lo hi prot (vmas m)" and pf: "page_flags ?m' = page_flags m1"
    using assms(5) [unfolded not_le [symmetric]] fold by (simp_all add: set_mapping_def Let_def c)
  show at: "vma_at (vmas ?m') a =
      (if lo \<le> a \<and> a < hi then or_prot prot (vma_at (vmas m) a) else vma_at (vmas m) a)" for a
    unfolding v using vma.lookup_add [OF ok(1) assms(5)] .
  have "mirror ?m'"
  proof (rule mirrorI [OF _ assms(2,3), of m])
    show "page_flags ?m' p AND 0x87 = prot_flags (vma_at (vmas ?m') (p * 4096))"
      if "page_no p" "p \<in> set (pages lo hi)" for p
      unfolding pf at using fold pages_window [OF assms(2,3) that(1)] that(2) by simp
  qed (use assms(1) at fold pf in \<open>auto simp: mem_ok_def\<close>)
  moreover have "prots_ok (vmas ?m')"
    by (rule prots_okI [OF ok(2) assms(4)]) (use at in \<open>auto simp: or_prot_def split: if_splits option.splits\<close>)
  moreover have "vma_ok (vmas ?m')" unfolding v by (rule vma.inv_add [OF ok(1) assms(5)])
  moreover have "index_aligned (vmas ?m')"
    unfolding v using index_aligned_intros(3) [OF _ assms(2,3)] assms(1) by (simp add: mem_ok_def)
  ultimately show "mem_ok ?m'" by (simp add: mem_ok_def)
qed

lemma clear_mapping_ok:
  assumes "mem_ok m" "page_aligned lo" "page_aligned hi" "page_aligned (window_size m)"
  shows "mem_ok (clear_mapping lo hi m)"
    and "vma_at (vmas (clear_mapping lo hi m)) a =
           (if lo \<le> a \<and> a < min hi (window_size m) then None else vma_at (vmas m) a)"
proof -
  let ?m' = "clear_mapping lo hi m" and ?h = "min hi (window_size m)"
  have al: "page_aligned ?h" using assms(3,4) by (simp add: min_def)
  have ok: "vma_ok (vmas m)" "prots_ok (vmas m)" using assms(1) by (simp_all add: mem_ok_def)
  have v: "vmas ?m' = erase_vma lo ?h (vmas m)"
    by (simp add: clear_mapping_def Let_def vmas_fold erase_vma_def del: min_less_iff_conj)
  show at: "vma_at (vmas ?m') a = (if lo \<le> a \<and> a < ?h then None else vma_at (vmas m) a)" for a
    unfolding v by (rule vma.lookup_remove [OF ok(1)])
  have f: "page_flags ?m' q AND 0x87 =
      (if lo < ?h \<and> covered (overlaps_in lo ?h (vmas m)) (\<lambda>r. r \<noteq> 0 \<or> uffd_tracking m) q then 0
       else page_flags m q AND 0x87)" for q
  proof -
    have "page_flags (fold (clear_overlap (uffd_tracking m)) (overlaps_in lo ?h (vmas m)) m) q AND 0x87 =
        (if covered (overlaps_in lo ?h (vmas m)) (\<lambda>r. r \<noteq> 0 \<or> uffd_tracking m) q then 0
         else page_flags m q AND 0x87)"
      by (rule fold_covered) (simp_all only: clear_overlap_flags simp_thms if_False if_distrib [of "\<lambda>x. x AND 0x87"] and_zero_eq and.left_neutral zero_and_eq)
    moreover have "page_flags ?m' q = (if lo < ?h then
        page_flags (fold (clear_overlap (uffd_tracking m)) (overlaps_in lo ?h (vmas m)) m) q
        else page_flags m q)"
      unfolding not_le [symmetric] by (simp add: clear_mapping_def Let_def del: not_le)
    ultimately show ?thesis by (cases "lo < ?h") (simp_all only: simp_thms if_True if_False)
  qed
  have "mirror ?m'"
  proof (rule mirrorI [OF _ assms(2) al, of m])
    show "page_flags ?m' p AND 0x87 = page_flags m p AND 0x87"
      if "page_no p" "p \<notin> set (pages lo ?h)" for p
      unfolding f using not_covered [OF assms(1,2) al that] by simp
    show "page_flags ?m' p AND 0x87 = prot_flags (vma_at (vmas ?m') (p * 4096))"
      if "page_no p" "p \<in> set (pages lo ?h)" for p
    proof -
      have w: "lo \<le> p * 4096 \<and> p * 4096 < ?h" using pages_window [OF assms(2) al that(1)] that(2) by simp
      then have "lo < ?h" by (meson le_less_trans)
      then show ?thesis
        unfolding f at using mirror_cleared [OF assms(1,2) al that, of "\<lambda>r. r \<noteq> 0 \<or> uffd_tracking m"] w
        by (simp add: prot_flags_def split del: if_split cong: if_cong)
    qed
  qed (use assms(1) at in \<open>auto simp: mem_ok_def\<close>)
  moreover have "prots_ok (vmas ?m')"
    by (rule prots_okI [OF ok(2), of 0]) (use at in \<open>auto split: if_splits\<close>)
  moreover have "vma_ok (vmas ?m')" unfolding v by (rule vma.inv_remove [OF ok(1)])
  moreover have "index_aligned (vmas ?m')"
    unfolding v using index_aligned_intros(1) [OF _ assms(2) al] assms(1) by (simp add: mem_ok_def)
  ultimately show "mem_ok ?m'" by (simp add: mem_ok_def)
qed


lemma window_size_init [simp]: "window_size (Memory_init sz a b) = sz"
  by (simp add: Memory_init_def)

lemma field_fold: "(\<And>x m. g (f x m) = g m) \<Longrightarrow> g (fold f xs m) = g m"
  by (induction xs arbitrary: m) simp_all

lemma field_fold_in: "(\<And>x m. x \<in> set xs \<Longrightarrow> g (f x m) = g m) \<Longrightarrow> g (fold f xs m) = g m"
  by (induction xs arbitrary: m) simp_all

lemma window_size_flag_page [simp]: "window_size (flag_page k r p m) = window_size m"
  by (simp add: flag_page_def set_page_flags_def set_software_checks_def Let_def)

lemma mem_ok_init: "mem_ok (Memory_init sz a b)"
  by (simp add: mem_ok_def Memory_init_def index_aligned_def prots_ok_def mirror_def prot_flags_def)

lemmas set_mapping_ok = set_mapping_plain_ok(1) set_mapping_combine_ok(1)

lemma set_mapping_empty: "hi \<le> lo \<Longrightarrow> set_mapping lo hi prot c k m = m"
  by (simp add: set_mapping_def)

lemma set_mapping_mem_ok:
  assumes "mem_ok m" "page_aligned lo" "page_aligned hi" "prot \<le> 7"
  shows "mem_ok (set_mapping lo hi prot c k m)"
  using set_mapping_ok [OF assms] assms(1) set_mapping_empty [of hi lo]
  by (cases "lo < hi"; cases c) (simp_all add: not_less)

section \<open>Requests from the guest\<close>

lemma page_aligned_and: "page_aligned (a AND NOT 4095)"
proof -
  have "(4095 :: u64) = mask 12" by (simp add: mask_eq_exp_minus_1)
  then have "take_bit 12 (a AND NOT 4095) = 0"
    by (simp add: take_bit_eq_mask bit_eq_iff bit_simps)
  then show ?thesis by (simp add: page_aligned_def take_bit_eq_mod)
qed

lemma page_aligned_iff: "a AND 4095 = 0 \<longleftrightarrow> page_aligned a" for a :: u64
proof -
  have "(4095 :: u64) = mask 12" by (simp add: mask_eq_exp_minus_1)
  then have "a AND 4095 = take_bit 12 a" by (simp add: take_bit_eq_mask)
  then show ?thesis by (simp add: page_aligned_def take_bit_eq_mod)
qed

lemma and_not_subset: "p AND NOT q = 0 \<longleftrightarrow> p AND q = p" for p q :: "'a::len word"
proof
  assume h: "p AND NOT q = 0"
  have "p = (p AND q) OR (p AND NOT q)" by (rule bit_word_eqI) (auto simp: bit_and_iff bit_or_iff bit_not_iff)
  then show "p AND q = p" unfolding h by simp
next
  assume "p AND q = p"
  then have "p AND NOT q = (p AND q) AND NOT q" by simp
  also have "\<dots> = p AND (q AND NOT q)" by (rule and.assoc)
  finally show "p AND NOT q = 0" by simp
qed

lemma and_not_7: "p AND NOT 7 = 0 \<longleftrightarrow> p \<le> (7 :: u8)"
  unfolding le_7_iff by (rule and_not_subset)

lemmas aligned_masks = page_aligned_and page_aligned_and [simplified] page_aligned_iff
  and_not_7 and_not_7 [simplified]

lemma mprotect_mem_ok: "mem_ok m \<Longrightarrow> mem_ok (fst (mprotect_guest addr sz prot m))"
  by (simp add: mprotect_guest_def Let_def set_mapping_mem_ok aligned_masks)

lemma map_range_mem_ok: "mem_ok m \<Longrightarrow> mem_ok (fst (map_range addr sz m))"
proof -
  assume m: "mem_ok m"
  have frame: "mem_ok (m'\<lparr>high_next := x\<rparr>) = mem_ok m'" "mem_ok (m'\<lparr>mmap_next := x\<rparr>) = mem_ok m'" for m' x
    by (simp_all add: mem_ok_def mirror_def)
  show ?thesis
    using m by (simp add: map_range_def Let_def frame set_mapping_mem_ok aligned_masks)
qed


section \<open>The count of pages that need a software check\<close>

definition soft_ok :: "Memory \<Rightarrow> bool" where
  "soft_ok m \<longleftrightarrow>
     (let S = {p. software_check_page (page_flags m p)}
      in S \<subseteq> {p. page_no p} \<and> unat (software_check_pages m) = card S \<and>
         (S \<noteq> {} \<longrightarrow> jit_software_checks m) \<and>
         (S = {} \<longrightarrow> software_checks_sticky m \<or> \<not> jit_software_checks m))"

lemma card_pages: "S \<subseteq> {p :: u64. page_no p} \<Longrightarrow> card S \<le> 2 ^ 52"
proof -
  assume "S \<subseteq> {p :: u64. page_no p}"
  then have "unat ` S \<subseteq> {..< 2 ^ 52}" by (auto simp: word_less_nat_alt)
  then have "card (unat ` S) \<le> card {..< 2 ^ 52 :: nat}" by (intro card_mono) simp_all
  moreover have "card (unat ` S) = card S" by (rule card_image) (simp add: inj_on_def word_unat_eq_iff)
  ultimately show ?thesis by simp
qed

lemma set_page_flags_soft_ok:
  assumes "soft_ok m" "page_no p"
  shows "soft_ok (set_page_flags p f m)"
proof -
  define S where "S = {p. software_check_page (page_flags m p)}"
  have s: "S \<subseteq> {p. page_no p}" "unat (software_check_pages m) = card S"
    "S \<noteq> {} \<Longrightarrow> jit_software_checks m" "S = {} \<Longrightarrow> software_checks_sticky m \<or> \<not> jit_software_checks m"
    using assms(1) unfolding soft_ok_def Let_def S_def by blast+
  have c: "card S \<le> 2 ^ 52" by (rule card_pages [OF s(1)])
  have S': "{q. software_check_page (page_flags (set_page_flags p f m) q)} =
      (if software_check_page f then insert p S else S - {p})"
    by (auto simp: S_def)
  have fin: "finite S" by simp
  have p: "p \<in> S \<longleftrightarrow> software_check_page (page_flags m p)" by (simp add: S_def)
  have n0: "software_check_pages m = 0 \<longleftrightarrow> S = {}"
    using s(2) fin by (metis card_eq_0_iff unat_eq_zero)
  have n1: "software_check_pages m = 1 \<longleftrightarrow> card S = 1" using s(2) by (metis unat_1 word_unat_eq_iff)
  consider (up) "software_check_page f" "p \<notin> S" | (down) "\<not> software_check_page f" "p \<in> S"
    | (same) "software_check_page f \<longleftrightarrow> p \<in> S" by blast
  then show ?thesis
  proof cases
    case up
    have "unat (software_check_pages m + 1) = card S + 1"
      using s(2) c by (simp add: unat_word_ariths)
    then show ?thesis
      using up s p n0 fin assms(2) unfolding soft_ok_def S' Let_def
      by (auto simp: set_page_flags_def set_software_checks_def Let_def)
  next
    case down
    have "0 < card S" using down(2) fin card_gt_0_iff by blast
    then have "unat (software_check_pages m - 1) = card S - 1"
      using s(2) unat_sub [of 1 "software_check_pages m"] by (simp add: word_le_nat_alt Suc_le_eq)
    moreover have "S - {p} = {} \<longleftrightarrow> card S = 1" using down(2) fin by (auto simp: card_1_singleton_iff)
    ultimately show ?thesis
      using down s(1) s(3) p n1 fin unfolding soft_ok_def S' Let_def
      by (auto simp: set_page_flags_def set_software_checks_def Let_def)
  next
    case same
    then have "(if software_check_page f then insert p S else S - {p}) = S" by auto
    then show ?thesis
      using same s p unfolding soft_ok_def S' Let_def
      by (simp add: set_page_flags_def Let_def)
  qed
qed


lemma soft_ok_cong:
  assumes "page_flags m' = page_flags m" "software_check_pages m' = software_check_pages m"
    "software_checks_sticky m' = software_checks_sticky m" "jit_software_checks m' = jit_software_checks m"
  shows "soft_ok m' = soft_ok m"
  by (simp add: soft_ok_def assms)

lemma soft_ok_fold:
  assumes "soft_ok m" "\<And>x m. x \<in> set xs \<Longrightarrow> soft_ok m \<Longrightarrow> soft_ok (f x m)"
  shows "soft_ok (fold f xs m)"
  using assms by (induction xs arbitrary: m) simp_all

lemma soft_ok_set_direct_prot [simp]: "soft_ok (set_direct_prot lo hi p m) = soft_ok m"
  by (rule soft_ok_cong) simp_all

lemma soft_ok_updates [simp]:
  "soft_ok (m\<lparr>vmas := x\<rparr>) = soft_ok m" "soft_ok (m\<lparr>guard_pages := y\<rparr>) = soft_ok m"
  "soft_ok (m\<lparr>mem_bytes := b\<rparr>) = soft_ok m"
  "soft_ok (m\<lparr>high_next := h\<rparr>) = soft_ok m" "soft_ok (m\<lparr>mmap_next := h\<rparr>) = soft_ok m"
  by (rule soft_ok_cong; simp)+

lemma soft_ok_discard_host [simp]: "soft_ok (discard_host lo hi m) = soft_ok m"
  by (simp add: discard_host_def)

lemma soft_ok_flag_pages: "soft_ok m \<Longrightarrow> soft_ok (fold (flag_page k r) (pages a b) m)"
  by (erule soft_ok_fold) (unfold flag_page_def, rule set_page_flags_soft_ok [OF _ pages_page_no])

lemma soft_ok_clear_pages: "soft_ok m \<Longrightarrow> soft_ok (fold (\<lambda>p. set_page_flags p 0) (pages a b) m)"
  by (erule soft_ok_fold) (rule set_page_flags_soft_ok [OF _ pages_page_no])

lemma soft_ok_combine:
  assumes "soft_ok m" "set ps \<subseteq> {p. page_no p}"
  shows "soft_ok (snd (snd (fold (combine_page lo prot k) ps (rs, rp, m))))"
  using assms
proof (induction ps arbitrary: rs rp m)
  case (Cons p ps)
  obtain rs1 rp1 m1 where c: "combine_page lo prot k p (rs, rp, m) = (rs1, rp1, m1)" by (metis prod_cases3)
  have "soft_ok m1"
    using c Cons.prems set_page_flags_soft_ok [of m p]
    by (auto simp: combine_page_def Let_def flag_page_def split: if_splits)
  then show ?case using Cons c by simp
qed simp

lemma set_mapping_soft_ok: "soft_ok m \<Longrightarrow> soft_ok (set_mapping lo hi prot c k m)"
proof -
  assume m: "soft_ok m"
  have "soft_ok (set_mapping_none lo hi k m')" if "soft_ok m'" for m'
    unfolding set_mapping_none_def
    by (rule soft_ok_fold [OF that]) (auto intro: soft_ok_flag_pages)
  moreover have "set (pages lo hi) \<subseteq> {p. page_no p}" using pages_page_no by blast
  ultimately show ?thesis
    using m soft_ok_combine [OF m, of "pages lo hi" lo prot k lo 0]
    by (auto simp: set_mapping_def Let_def soft_ok_flag_pages split: prod.splits)
qed

lemma clear_mapping_soft_ok: "soft_ok m \<Longrightarrow> soft_ok (clear_mapping lo hi m)"
proof -
  have "soft_ok (clear_overlap t ov m')" if "soft_ok m'" for t ov m'
    using that by (cases ov) (auto simp: clear_overlap_def Let_def soft_ok_clear_pages)
  then show "soft_ok m \<Longrightarrow> soft_ok (clear_mapping lo hi m)"
    by (simp add: clear_mapping_def Let_def soft_ok_fold del: min_less_iff_conj)
qed

lemma soft_ok_init: "soft_ok (Memory_init sz a b)"
  by (simp add: soft_ok_def Memory_init_def software_check_page_def)

section \<open>Properties\<close>

text \<open>
  C9. The page flags mirror the mapping index: every request that maps, protects or unmaps keeps
  the index sorted, disjoint, page aligned and within the permission bits, and leaves in every
  page's flag byte exactly the mapped bit and the effective permissions the index gives the page.
\<close>

theorem updates_keep_mirror:
  assumes "mem_ok m" "page_aligned lo" "page_aligned hi" "page_aligned (window_size m)" "prot \<le> 7"
  shows "mem_ok (set_mapping lo hi prot combine keep m) \<and> mem_ok (clear_mapping lo hi m) \<and>
    mem_ok (fst (mprotect_guest addr sz p m)) \<and> mem_ok (fst (map_range addr sz m))"
  using set_mapping_mem_ok [OF assms(1-3,5)] clear_mapping_ok(1) [OF assms(1-4)]
    mprotect_mem_ok [OF assms(1)] map_range_mem_ok [OF assms(1)] by simp

theorem updates_keep_mirror_witness:
  "mirror (clear_mapping 0x11000 0x12000 (set_mapping 0x10000 0x14000 3 False False (Memory_init 0x40000000 0 0)))"
proof -
  let ?m = "Memory_init 0x40000000 0 0"
  have w: "page_aligned (window_size (set_mapping 0x10000 0x14000 3 False False ?m))"
    by (simp add: set_mapping_def Let_def page_aligned_def field_fold)
  have "mem_ok (set_mapping 0x10000 0x14000 3 False False ?m)"
    using updates_keep_mirror [where m = ?m and lo = "0x10000" and hi = "0x14000" and prot = 3]
    by (simp add: page_aligned_def mem_ok_init)
  from updates_keep_mirror [OF this _ _ w, where lo = "0x11000" and hi = "0x12000" and prot = 0]
  show ?thesis by (simp add: page_aligned_def mem_ok_def)
qed

text \<open>
  C23. The count of pages that need a software check is exact and never wraps: it is the number
  of pages whose flags are mapped and userfaultfd-missing, and translated code is told to make
  the checks while that number is not zero, through every mapping and unmapping.
\<close>

theorem software_check_count:
  assumes "soft_ok m"
  shows "soft_ok (set_mapping lo hi prot combine keep m) \<and> soft_ok (clear_mapping lo hi m) \<and>
    unat (software_check_pages (clear_mapping lo hi m)) =
      card {p. software_check_page (page_flags (clear_mapping lo hi m) p)}"
  using set_mapping_soft_ok [OF assms] clear_mapping_soft_ok [OF assms]
  by (auto simp: soft_ok_def Let_def)

theorem software_check_count_witness:
  "soft_ok (clear_mapping 0x11000 0x12000 (set_mapping 0x10000 0x14000 3 False False (Memory_init 0x40000000 0 0)))"
proof -
  have "soft_ok (set_mapping 0x10000 0x14000 3 False False (Memory_init 0x40000000 0 0))"
    using software_check_count [OF soft_ok_init] by blast
  then show ?thesis using software_check_count by blast
qed

end
