(* ===== verification/MemAccess.thy ===== *)
theory MemAccess
  imports MemProps
begin

text \<open>
  What the access check decides, and reading and writing behind it. The check walks the page
  flags; by the mirror it decides what the mapping index says of every address of the range.
\<close>

section \<open>The access check\<close>

lemma check_page_flags:
  assumes "check_page addr access p m = (r, m')"
  shows "m' = m \<or> (r = None \<and> page_flags m p AND 0x20 = 0 \<and>
      m' = m\<lparr>page_flags := (page_flags m)(p := page_flags m p AND NOT 0x10)\<rparr>)"
  using assms by (auto simp: check_page_def Let_def split: if_splits)


text \<open>The permissions of a page admit an access: all the bits asked for, or any mapping for none.\<close>

definition allows :: "u8 option \<Rightarrow> u8 \<Rightarrow> bool" where
  "allows q access \<longleftrightarrow>
     (case q of None \<Rightarrow> False | Some r \<Rightarrow> access = 0 \<or> effective_page_prot r AND access = access)"

definition no_missing :: "Memory \<Rightarrow> bool" where
  "no_missing m \<longleftrightarrow> (\<forall>p. page_flags m p AND 0x10 = 0)"

lemma and_87: "f AND 0x87 = g AND 0x87 \<Longrightarrow> f AND 0x80 = g AND 0x80"
  "access \<le> 7 \<Longrightarrow> f AND 0x87 = g AND 0x87 \<Longrightarrow> f AND access = g AND access" for f g access :: u8
proof -
  assume h: "f AND 0x87 = g AND 0x87"
  have "f AND 0x80 = (f AND 0x87) AND 0x80" by (simp add: and.assoc)
  also have "\<dots> = g AND 0x80" unfolding h by (simp add: and.assoc)
  finally show "f AND 0x80 = g AND 0x80" .
next
  assume h: "f AND 0x87 = g AND 0x87" and a: "access \<le> 7"
  have "x AND access = (x AND 0x87) AND access" for x :: u8
    using and_7_87 [OF a] by (metis and.assoc and.commute)
  then show "f AND access = g AND access" using h by metis
qed

lemma page_flags_bits:
  assumes "mem_ok m" "page_no p" "access \<le> 7" "access \<noteq> 0"
  shows "page_flags m p AND 0x80 \<noteq> 0 \<and> page_flags m p AND access = access
    \<longleftrightarrow> allows (vma_at (vmas m) (p * 4096)) access"
proof -
  let ?q = "vma_at (vmas m) (p * 4096)"
  have "page_flags m p AND 0x87 = prot_flags ?q" using assms(1,2) by (simp add: mem_ok_def mirror_def)
  also have "\<dots> = prot_flags ?q AND 0x87"
    using assms(1) and_7_87 [OF effective_le_7]
    by (auto simp: prot_flags_def mem_ok_def prots_ok_def bit.conj_disj_distrib2 split: option.split)
  finally have f: "page_flags m p AND 0x87 = prot_flags ?q AND 0x87" .
  have "x AND access = (x AND 7) AND access" for x
    using assms(3) unfolding le_7_iff by (metis and.assoc and.commute)
  note and_87(1) [OF f] and_87(2) [OF assms(3) f]
  moreover have "0x80 AND access = 0"
  proof -
    have "0x80 AND access = 0x80 AND (access AND 7)" using assms(3) by (simp add: le_7_iff)
    also have "\<dots> = (0x80 AND 7) AND access" by (simp only: ac_simps)
    finally show ?thesis by simp
  qed
  ultimately show ?thesis
    using assms(4) by (auto simp: prot_flags_def allows_def bit.conj_disj_distrib2 split: option.splits)
qed


lemma vma_at_page:
  assumes "index_aligned xs"
  shows "vma_at xs (page_base a) = vma_at xs a"
  using assms
proof (induction xs)
  case (Cons e xs)
  obtain k v where e: "e = (k, v)" by (cases e)
  have "page_aligned k" "page_aligned (v_end v)" "index_aligned xs"
    using Cons.prems by (simp_all add: e index_aligned_def)
  then show ?case using Cons.IH window_page by (simp add: e)
qed simp

text \<open>The first address of page \<open>p\<close> the check looks at.\<close>

abbreviation (input) page_at :: "u64 \<Rightarrow> u64 \<Rightarrow> u64" where
  "page_at addr p \<equiv> max addr (p * 4096)"

lemma page_base_at:
  assumes "page_no p" "addr div 4096 \<le> p"
  shows "page_base (page_at addr p) = p * 4096"
proof -
  have a: "unat addr div 4096 \<le> unat p" using assms(2) by (simp add: word_le_nat_alt unat_div)
  have "unat (page_base (page_at addr p)) = unat p * 4096"
  proof (cases "addr \<le> p * 4096")
    case True
    then show ?thesis by (simp add: max_def unat_page_base unat_page_addr [OF assms(1)])
  next
    case False
    then have "unat p * 4096 < unat addr"
      by (simp add: not_le word_less_nat_alt unat_page_addr [OF assms(1)])
    then have "unat p \<le> unat addr div 4096" by linarith
    then show ?thesis using False a by (simp add: max_def unat_page_base)
  qed
  then show ?thesis by (simp add: word_unat_eq_iff unat_page_addr [OF assms(1)])
qed

lemma check_page_exact:
  assumes "mem_ok m" "no_missing m" "access \<le> 7" "page_no p" "addr div 4096 \<le> p"
  shows "check_page addr access p m =
     (if allows (vma_at (vmas m) (page_at addr p)) access then None
      else Some (UnmappedMemory (page_at addr p) (access AND 2 \<noteq> 0) (vma_at (vmas m) (page_at addr p) \<noteq> None) False), m)"
proof -
  have ok: "vma_ok (vmas m)" using assms(1) by (simp add: mem_ok_def)
  have c: "vma_at (vmas m) (page_at addr p) = vma_at (vmas m) (p * 4096)"
    using vma_at_page [of "vmas m" "page_at addr p"] assms(1) page_base_at [OF assms(4,5)]
    by (simp add: mem_ok_def)
  have mapped: "mapping_prot_at (vmas m) (page_at addr p) \<noteq> None \<longleftrightarrow> vma_at (vmas m) (p * 4096) \<noteq> None"
    unfolding mapping_prot_at_eq [OF ok] c by simp
  have miss: "page_flags m p AND 0x10 = 0" using assms(2) by (simp add: no_missing_def)
  have fl: "page_flags m p AND 0x87 = prot_flags (vma_at (vmas m) (p * 4096))"
    using assms(1,4) by (simp add: mem_ok_def mirror_def)
  have on: "vma_at (vmas m) (p * 4096) \<noteq> None" if "page_flags m p AND 0x80 \<noteq> 0"
  proof
    assume "vma_at (vmas m) (p * 4096) = None"
    then have "page_flags m p AND 0x87 = 0 AND 0x87" unfolding fl by (simp add: prot_flags_def)
    from and_87(1) [OF this] that show False by simp
  qed
  show ?thesis
  proof (cases "access = 0")
    case True
    then show ?thesis
      using on mapped miss unfolding check_page_def Let_def c
      by (auto simp: allows_def split: option.split)
  next
    case False
    then show ?thesis
      using page_flags_bits [OF assms(1,4,3) False] on mapped miss unfolding check_page_def Let_def c
      by auto
  qed
qed


lemma check_pages_exact:
  assumes "mem_ok m" "no_missing m" "access \<le> 7" "\<forall>p \<in> set ps. page_no p \<and> addr div 4096 \<le> p"
  shows "check_pages addr access ps m =
     (case List.find (\<lambda>p. \<not> allows (vma_at (vmas m) (page_at addr p)) access) ps of
        None \<Rightarrow> None
      | Some p \<Rightarrow> Some (UnmappedMemory (page_at addr p) (access AND 2 \<noteq> 0)
                      (vma_at (vmas m) (page_at addr p) \<noteq> None) False), m)"
  using assms(4) by (induction ps) (simp_all add: check_page_exact [OF assms(1-3)])

text \<open>The addresses of an access and the pages the check visits.\<close>

lemma access_pages:
  assumes "unat a + unat sz < 2 ^ 64" "0 < sz" "a + sz \<le> w" "page_aligned w"
  shows "p \<in> set (pages a (a + sz + 4095)) \<longleftrightarrow> (\<exists>b. a \<le> b \<and> b < a + sz \<and> p = b div 4096)"
proof -
  have w: "unat w + 4096 \<le> 2 ^ 64"
  proof -
    obtain k where "unat w = 4096 * k" using assms(4) by (rule page_alignedE)
    then show ?thesis using unat_u64 [of w] by simp
  qed
  have e: "unat (a + sz) = unat a + unat sz" using assms(1) by (simp add: unat_word_ariths)
  have e': "unat (a + sz + 4095) = unat a + unat sz + 4095"
    using w assms(3) e by (simp add: unat_word_ariths word_le_nat_alt)
  have s: "0 < unat sz" using assms(2) by (simp add: word_less_nat_alt)
  show ?thesis
  proof
    assume h: "p \<in> set (pages a (a + sz + 4095))"
    then have l: "unat a div 4096 \<le> unat p" and u: "unat p < (unat a + unat sz + 4095) div 4096"
      by (simp_all add: pages_iff word_le_nat_alt word_less_nat_alt unat_div e')
    have p: "unat (p * 4096) = unat p * 4096" using pages_page_no [OF h] by (rule unat_page_addr)
    have base: "page_base (page_at a p) = p * 4096"
      using page_base_at [OF pages_page_no [OF h]] h pages_iff by blast
    then have "unat (page_at a p) div 4096 = unat p"
      using p unat_page_base [of "page_at a p"] by simp
    then have "p = page_at a p div 4096" by (simp add: word_unat_eq_iff unat_div)
    moreover have "a < a + sz" using s e by (simp add: word_less_nat_alt)
    moreover have "p * 4096 < a + sz" using u p e by (simp add: word_less_nat_alt)
    ultimately show "\<exists>b. a \<le> b \<and> b < a + sz \<and> p = b div 4096"
      by (intro exI [of _ "page_at a p"]) simp
  next
    assume "\<exists>b. a \<le> b \<and> b < a + sz \<and> p = b div 4096"
    then obtain b where b: "unat a \<le> unat b" "unat b < unat a + unat sz" "p = b div 4096"
      by (auto simp: word_le_nat_alt word_less_nat_alt e)
    then have "unat b div 4096 < (unat a + unat sz + 4095) div 4096" by linarith
    then show "p \<in> set (pages a (a + sz + 4095))"
      using b by (simp add: pages_iff word_le_nat_alt word_less_nat_alt unat_div e' div_le_mono)
  qed
qed

definition first_failing :: "Memory \<Rightarrow> u64 \<Rightarrow> u64 \<Rightarrow> u8 \<Rightarrow> u64 \<Rightarrow> bool" where
  "first_failing m a sz access x \<longleftrightarrow>
     a \<le> x \<and> x < a + sz \<and> \<not> allows (vma_at (vmas m) x) access \<and>
     (\<forall>b. a \<le> b \<and> b < x \<longrightarrow> allows (vma_at (vmas m) b) access)"

lemma same_page:
  assumes "index_aligned xs" "a \<le> b" "p = b div 4096" 
  shows "vma_at xs b = vma_at xs (page_at a p) \<and> page_at a p \<le> b"
proof -
  have pn: "page_no p"
    unfolding assms(3) using unat_u64 [of b] by (simp add: word_less_nat_alt unat_div)
  have "a div 4096 \<le> p" using assms(2,3) by (simp add: word_le_nat_alt unat_div div_le_mono)
  then have "page_base (page_at a p) = p * 4096" using page_base_at [OF pn] by blast
  moreover have "page_base b = p * 4096" by (simp add: page_base_def assms(3))
  ultimately have "vma_at xs b = vma_at xs (page_at a p)"
    using vma_at_page [OF assms(1)] by metis
  moreover have "p * 4096 \<le> b"
    using unat_page_addr [OF pn] by (simp add: word_le_nat_alt assms(3) unat_div)
  ultimately show ?thesis using assms(2) by simp
qed

lemma find_pages:
  assumes "List.find P (pages lo hi) = Some p" "q < p" "q \<in> set (pages lo hi)"
  shows "\<not> P q"
proof -
  let ?ns = "[unat (lo div 4096)..<unat (hi div 4096)]"
  obtain i where i: "i < length ?ns" "p = pages lo hi ! i" "\<forall>j<i. \<not> P (pages lo hi ! j)"
    using assms(1) by (auto simp: find_Some_iff pages_def)
  obtain j where j: "j < length ?ns" "q = pages lo hi ! j"
    using assms(3) unfolding in_set_conv_nth by (metis pages_def length_map)
  have val: "unat (pages lo hi ! n) = unat (lo div 4096) + n" if "n < length ?ns" for n
  proof -
    have "unat (lo div 4096) + n < 2 ^ 64" using that unat_u64 [of "hi div 4096"] by simp
    moreover have "pages lo hi ! n = of_nat (unat (lo div 4096) + n)"
      using that unfolding pages_def by (subst nth_map) simp_all
    moreover have "unat (of_nat (unat (lo div 4096) + n) :: u64) = unat (lo div 4096) + n"
      using calculation(1) by (subst unat_of_nat) simp
    ultimately show ?thesis by simp
  qed
  have "j < i" using assms(2) val [OF i(1)] val [OF j(1)] i(2) j(2) by (simp add: word_less_nat_alt)
  then show ?thesis using i(3) j(2) by blast
qed

lemma check_access_window:
  assumes "mem_ok m" "no_missing m" "access \<le> 7" "page_aligned (window_size m)"
    and "unat a + unat sz < 2 ^ 64" "0 < sz" "a + sz \<le> window_size m"
  shows "case check_pages a access (pages a (a + sz + 4095)) m of
      (None, m') \<Rightarrow> m' = m \<and> (\<forall>b. a \<le> b \<and> b < a + sz \<longrightarrow> allows (vma_at (vmas m) b) access)
    | (Some f, m') \<Rightarrow> m' = m \<and> (\<exists>x. first_failing m a sz access x \<and>
        f = UnmappedMemory x (access AND 2 \<noteq> 0) (vma_at (vmas m) x \<noteq> None) False)"
proof -
  let ?ps = "pages a (a + sz + 4095)"
  let ?bad = "\<lambda>p. \<not> allows (vma_at (vmas m) (page_at a p)) access"
  have al: "index_aligned (vmas m)" using assms(1) by (simp add: mem_ok_def)
  note ap = access_pages [OF assms(5,6,7,4)]
  have ps: "\<forall>p \<in> set ?ps. page_no p \<and> a div 4096 \<le> p" using pages_page_no pages_iff by blast
  note ex = check_pages_exact [OF assms(1-3) ps]
  show ?thesis
  proof (cases "List.find ?bad ?ps")
    case None
    have "allows (vma_at (vmas m) b) access" if "a \<le> b" "b < a + sz" for b
    proof -
      have "b div 4096 \<in> set ?ps" using ap that by blast
      then have "\<not> ?bad (b div 4096)" using None by (simp add: find_None_iff)
      then show ?thesis using same_page [OF al that(1) refl] by simp
    qed
    then show ?thesis unfolding ex None by simp
  next
    case (Some p)
    then have bad: "?bad p" and mem: "p \<in> set ?ps" by (auto simp: find_Some_iff)
    obtain c where c: "a \<le> c" "c < a + sz" "p = c div 4096" using ap mem by blast
    have in_win: "page_at a p < a + sz" using same_page [OF al c(1,3)] c(2) by (metis le_less_trans)
    have "allows (vma_at (vmas m) b) access" if "a \<le> b" "b < page_at a p" for b
    proof -
      have q: "b div 4096 \<in> set ?ps"
        using ap that(1) less_trans [OF that(2) in_win] by blast
      have "b div 4096 \<noteq> p"
        using same_page [OF al that(1) refl] that(2) by (auto simp: leD)
      moreover have "b div 4096 \<le> p"
      proof -
        have "b \<le> c" using less_le_trans [OF that(2)] same_page [OF al c(1,3)] less_imp_le by blast
        then show ?thesis unfolding c(3) by (simp add: word_le_nat_alt unat_div div_le_mono)
      qed
      ultimately have "\<not> ?bad (b div 4096)" using find_pages [OF Some _ q] by simp
      then show ?thesis using same_page [OF al that(1) refl] by simp
    qed
    then have "first_failing m a sz access (page_at a p)"
      using bad in_win by (simp add: first_failing_def)
    then show ?thesis unfolding ex Some by auto
  qed
qed


text \<open>The address an access uses, after the tag byte of a data access has been dropped.\<close>

definition effective_address :: "Memory \<Rightarrow> u8 \<Rightarrow> u64 \<Rightarrow> u64" where
  "effective_address m access addr = (if access AND 4 = 0 then data_address m addr else addr)"

definition in_window :: "Memory \<Rightarrow> u64 \<Rightarrow> u64 \<Rightarrow> bool" where
  "in_window m a sz \<longleftrightarrow> unat a + unat sz < 2 ^ 64 \<and> a + sz \<le> window_size m"

lemma check_access_window_iff:
  "check_access addr sz access m =
     (if sz = 0 then (None, m)
      else if \<not> in_window m (effective_address m access addr) sz
      then (Some (UnmappedMemory
              (if effective_address m access addr < window_size m then window_size m
               else effective_address m access addr) (access AND 2 \<noteq> 0) False False), m)
      else check_pages (effective_address m access addr) access
             (pages (effective_address m access addr)
                (effective_address m access addr + sz + 4095)) m)"
  unfolding check_access_def effective_address_def [symmetric] in_window_def Let_def
  by (simp add: not_le not_less)

lemma data_address_idem [simp]: "data_address m (data_address m a) = data_address m a"
  by (simp add: data_address_def and.assoc)

lemma check_access_effective:
  "check_access (effective_address m access addr) sz access m = check_access addr sz access m"
  by (simp add: check_access_def effective_address_def)

lemma check_access_cases:
  assumes "mem_ok m" "no_missing m" "access \<le> 7" "page_aligned (window_size m)"
  shows "let a = effective_address m access addr in
    case check_access addr sz access m of
      (None, m') \<Rightarrow> m' = m \<and>
        (if sz = 0 then True
         else in_window m a sz \<and> {b. a \<le> b \<and> b < a + sz} \<subseteq> {b. allows (vma_at (vmas m) b) access})
    | (Some f, m') \<Rightarrow> m' = m \<and> 0 < sz \<and>
        (if in_window m a sz
         then \<exists>x. first_failing m a sz access x \<and>
                  f = UnmappedMemory x (access AND 2 \<noteq> 0) (vma_at (vmas m) x \<noteq> None) False
         else f = UnmappedMemory (if a < window_size m then window_size m else a)
                    (access AND 2 \<noteq> 0) False False)"
proof -
  let ?a = "effective_address m access addr"
  consider "sz = 0" | "sz \<noteq> 0" "\<not> in_window m ?a sz" | "sz \<noteq> 0" "in_window m ?a sz" by blast
  then show ?thesis
  proof cases
    case 3
    then have "check_access addr sz access m = check_pages ?a access (pages ?a (?a + sz + 4095)) m"
      by (simp add: check_access_window_iff)
    then show ?thesis
      using check_access_window [OF assms, of ?a sz] 3
      unfolding Let_def
      by (cases "check_access addr sz access m"; cases "fst (check_access addr sz access m)")
        (auto simp: in_window_def word_neq_0_conv)
  qed (simp_all add: check_access_window_iff word_neq_0_conv del: word_gt_0)
qed

section \<open>Bytes\<close>

lemma put_bytes_at:
  "length bs < 2 ^ 64 \<Longrightarrow>
   put_bytes a bs f x = (if unat (x - a) < length bs then bs ! unat (x - a) else f x)"
proof (induction a bs f rule: put_bytes.induct)
  case (2 a b bs f)
  have IH: "put_bytes (a + 1) bs (f(a := b)) x =
      (if unat (x - (a + 1)) < length bs then bs ! unat (x - (a + 1)) else (f(a := b)) x)"
    using "2.prems" by (intro "2.IH") simp
  show ?case
  proof (cases "x = a")
    case True
    have "unat (a - (a + 1)) = 2 ^ 64 - 1" by (simp add: unsigned_minus_1_eq_mask mask_eq_exp_minus_1)
    then show ?thesis using True "2.prems" IH by (simp del: fun_upd_apply) simp
  next
    case False
    then have "unat (x - a) = Suc (unat (x - (a + 1)))"
      using unat_sub [of 1 "x - a"] by (simp add: algebra_simps word_le_nat_alt Suc_le_eq word_neq_0_conv unat_gt_0)
    then show ?thesis using False IH by simp
  qed
qed simp

lemma load_store_same:
  assumes "length bs < 2 ^ 64" "n = length bs"
  shows "load_bytes (store_bytes a bs m) a n = bs"
  using assms by (intro nth_equalityI) (simp_all add: load_bytes_def store_bytes_def put_bytes_at unat_of_nat)

text \<open>Two byte ranges, each shorter than the address space, that share no address.\<close>

definition disjoint_bytes :: "u64 \<Rightarrow> nat \<Rightarrow> u64 \<Rightarrow> nat \<Rightarrow> bool" where
  "disjoint_bytes a k b n \<longleftrightarrow> (\<forall>i < n. k \<le> unat (b + of_nat i - a))"

lemma load_store_other:
  assumes "length bs < 2 ^ 64" "disjoint_bytes a (length bs) b n"
  shows "load_bytes (store_bytes a bs m) b n = load_bytes m b n"
  using assms by (intro nth_equalityI)
    (simp_all add: load_bytes_def store_bytes_def put_bytes_at disjoint_bytes_def leD)

lemma bit_le_word: "length bs \<le> 8 \<Longrightarrow>
  bit (le_word bs) n \<longleftrightarrow> n < 8 * length bs \<and> bit (bs ! (n div 8)) (n mod 8)"
proof (induction bs arbitrary: n)
  case (Cons b bs)
  have "bit (le_word (b # bs)) n \<longleftrightarrow> bit b n \<or> 8 \<le> n \<and> n < 64 \<and> bit (le_word bs) (n - 8)"
    by (auto simp: bit_simps dest: bit_imp_le_length)
  moreover have "bit b n \<longrightarrow> n < 8" by (auto dest: bit_imp_le_length)
  ultimately have b: "bit (le_word (b # bs)) n \<longleftrightarrow>
      (if n < 8 then bit b n else n < 64 \<and> bit (le_word bs) (n - 8))" by auto
  show ?case
  proof (cases "n < 8")
    case False
    then have d: "n div 8 = Suc ((n - 8) div 8)" "n mod 8 = (n - 8) mod 8"
      by (simp_all add: le_div_geq le_mod_geq)
    have "bit (le_word bs) (n - 8) \<longleftrightarrow> n - 8 < 8 * length bs \<and> bit (bs ! ((n - 8) div 8)) ((n - 8) mod 8)"
      using Cons.prems by (intro Cons.IH) simp
    moreover have "n - 8 < 8 * length bs \<longleftrightarrow> n < 8 * length (b # bs)" using False by auto
    moreover have "n < 8 * length (b # bs) \<Longrightarrow> n < 64" using Cons.prems by simp
    ultimately show ?thesis unfolding b d nth_Cons_Suc using False by auto
  qed (simp add: b del: le_word.simps)
qed simp

lemma le_word_bytes: "n \<le> 8 \<Longrightarrow> le_word (le_bytes n v) = take_bit (8 * n) v"
  by (rule bit_eqI)
    (simp add: bit_le_word le_bytes_def bit_take_bit_iff bit_unsigned_iff bit_drop_bit_eq mult.commute less_mult_imp_div_less cong: conj_cong)


section \<open>Writes and the state of the check\<close>

lemma check_access_cong:
  assumes "mem_ok m" "no_missing m" "page_aligned (window_size m)" "access \<le> 7"
  shows "snd (check_access addr sz access m) = m"
  using check_access_cases [OF assms(1,2,4,3), of addr sz]
  by (simp add: Let_def split: prod.splits option.splits)

lemma mem_ok_store [simp]: "mem_ok (store_bytes a bs m) = mem_ok m" "no_missing (store_bytes a bs m) = no_missing m"
  "window_size (store_bytes a bs m) = window_size m" "vmas (store_bytes a bs m) = vmas m"
  "effective_address (store_bytes a bs m) = effective_address m"
  "in_window (store_bytes a bs m) = in_window m"
  by (simp_all add: store_bytes_def mem_ok_def mirror_def no_missing_def effective_address_def
      data_address_def in_window_def fun_eq_iff)

lemma check_access_None:
  assumes "mem_ok m" "no_missing m" "page_aligned (window_size m)" "access \<le> 7" "0 < sz"
  shows "fst (check_access addr sz access m) = None \<longleftrightarrow>
    in_window m (effective_address m access addr) sz \<and>
    (\<forall>b. effective_address m access addr \<le> b \<and> b < effective_address m access addr + sz \<longrightarrow>
       allows (vma_at (vmas m) b) access)"
proof (cases "check_access addr sz access m")
  case (Pair r m')
  show ?thesis
  proof (cases r)
    case None
    then show ?thesis using check_access_cases [OF assms(1,2,4,3), of addr sz] Pair assms(5)
      by (simp add: Let_def word_neq_0_conv [symmetric]) blast
  next
    case (Some f)
    then show ?thesis using check_access_cases [OF assms(1,2,4,3), of addr sz] Pair assms(5)
      by (auto simp: Let_def first_failing_def split: if_splits)
  qed
qed

lemma allows_write: "allows q 2 \<Longrightarrow> allows q 1"
proof -
  assume h: "allows q 2"
  then obtain r where r: "q = Some r" "effective_page_prot r AND 2 = 2"
    by (auto simp: allows_def split: option.splits)
  have "r AND 6 \<noteq> 0"
  proof
    assume "r AND 6 = 0"
    then have "effective_page_prot r AND 2 = r AND (6 AND 2)" by (simp add: effective_page_prot_def)
    also have "\<dots> = 0" using \<open>r AND 6 = 0\<close> by (simp only: and.assoc [symmetric]) simp
    finally show False using r by simp
  qed
  then have "effective_page_prot r AND 1 = 1"
    by (simp add: effective_page_prot_def bit.conj_disj_distrib2)
  then show ?thesis by (simp add: allows_def r)
qed


lemma read_access_eq:
  assumes "mem_ok m" "no_missing m" "page_aligned (window_size m)" "access \<le> 7"
  shows "read_access addr n access m =
    (if n = 0 then Inr 0
     else case fst (check_access addr (of_nat n) access m) of
       Some e \<Rightarrow> Inl e | None \<Rightarrow> Inr (le_word (load_bytes m (effective_address m access addr) n)), m)"
  using check_access_cong [OF assms, of addr "of_nat n"]
    check_access_effective [of m access addr "of_nat n"]
  unfolding read_access_def effective_address_def [symmetric] Let_def
  by (auto split: prod.splits option.splits)

lemma mem_write_eq:
  assumes "mem_ok m" "no_missing m" "page_aligned (window_size m)" "src \<noteq> []"
  shows "mem_write addr src m =
    (case fst (check_access addr (of_nat (length src)) 2 m) of
       Some e \<Rightarrow> (Some e, m)
     | None \<Rightarrow> (None, store_bytes (effective_address m 2 addr) src m))"
proof -
  have e: "effective_address m 2 addr = data_address m addr" by (simp add: effective_address_def)
  show ?thesis
    using check_access_cong [OF assms(1-3), of 2 addr "of_nat (length src)"] assms(4)
      check_access_effective [of m 2 addr "of_nat (length src)"]
    unfolding mem_write_def Let_def e by (auto split: prod.splits option.splits)
qed

lemma check_access_store:
  assumes "mem_ok m" "no_missing m" "page_aligned (window_size m)" "access \<le> 7"
  shows "fst (check_access addr sz access (store_bytes a bs m)) = fst (check_access addr sz access m)"
proof -
  have c: "check_page x access p (store_bytes a bs m') =
      (fst (check_page x access p m'), store_bytes a bs (snd (check_page x access p m')))" for x p m'
    by (simp add: check_page_def store_bytes_def Let_def)
  have "check_pages x access ps (store_bytes a bs m') =
      (fst (check_pages x access ps m'), store_bytes a bs (snd (check_pages x access ps m')))" for x ps m'
    by (induction ps arbitrary: m') (auto simp: c split: prod.splits option.splits)
  then show ?thesis by (simp add: check_access_window_iff)
qed

section \<open>Properties\<close>

text \<open>
  C5. The access check decides exactly what the mapping index says. With no userfaultfd-missing
  page, an access of at least one byte passes if and only if its range ends inside the window and
  every one of its addresses is mapped with the permissions asked for, and the memory is unchanged
  either way. When the range ends inside the window, a refusal names the first address that lacks
  the permissions, and says whether it is mapped. When it does not, the refusal names an unmapped
  page at the end of the window, or at the first address when that is beyond the window already,
  whatever the pages before it hold.
\<close>

theorem check_access_exact:
  assumes "mem_ok m" "no_missing m" "page_aligned (window_size m)" "access \<le> 7" "0 < sz"
    and "a = effective_address m access addr"
  shows "snd (check_access addr sz access m) = m \<and>
    (fst (check_access addr sz access m) = None \<longleftrightarrow>
       in_window m a sz \<and> (\<forall>b. a \<le> b \<and> b < a + sz \<longrightarrow> allows (vma_at (vmas m) b) access)) \<and>
    (\<forall>f. in_window m a sz \<and> fst (check_access addr sz access m) = Some f \<longrightarrow>
       (\<exists>x. first_failing m a sz access x \<and>
            f = UnmappedMemory x (access AND 2 \<noteq> 0) (vma_at (vmas m) x \<noteq> None) False)) \<and>
    (\<not> in_window m a sz \<longrightarrow> fst (check_access addr sz access m) =
       Some (UnmappedMemory (if a < window_size m then window_size m else a) (access AND 2 \<noteq> 0) False False))"
  using check_access_cong [OF assms(1-4)] check_access_None [OF assms(1-5)]
    check_access_cases [OF assms(1,2,4,3), of addr sz] assms(5)
  unfolding assms(6) by (auto simp: Let_def split: prod.splits option.splits if_splits)

definition sample_memory :: Memory where
  "sample_memory = set_mapping 0x10000 0x12000 3 False False (Memory_init 0x40000000 0 0)"

lemma sample_memory_ok:
  "mem_ok sample_memory" "no_missing sample_memory" "page_aligned (window_size sample_memory)"
  "vma_at (vmas sample_memory) a = (if 0x10000 \<le> a \<and> a < 0x12000 then Some 3 else None)"
  "window_size sample_memory = 0x40000000" "data_address sample_memory a = a"
proof -
  let ?m = "Memory_init 0x40000000 0 0"
  show "mem_ok sample_memory"
    unfolding sample_memory_def by (rule set_mapping_mem_ok [OF mem_ok_init]) (simp_all add: page_aligned_def)
  show "vma_at (vmas sample_memory) a = (if 0x10000 \<le> a \<and> a < 0x12000 then Some 3 else None)"
    using set_mapping_plain_ok(2) [where m = ?m and lo = "0x10000" and hi = "0x12000" and prot = 3
        and k = False and a = a]
    by (simp add: sample_memory_def page_aligned_def mem_ok_init) (simp add: Memory_init_def)
  show w: "window_size sample_memory = 0x40000000"
    by (simp add: sample_memory_def set_mapping_def Let_def field_fold)
  show "page_aligned (window_size sample_memory)" by (simp add: w page_aligned_def)
  have "data_top_byte_ignore (flag_page k r p m) = data_top_byte_ignore m" for k r p and m
    by (simp add: flag_page_def set_page_flags_def set_software_checks_def Let_def)
  then show "data_address sample_memory a = a"
    by (simp add: sample_memory_def set_mapping_def Let_def data_address_def field_fold
        set_direct_prot_def Memory_init_def)
  have "no_missing (flag_page False 3 p m)" if "no_missing m" for p m
    using that by (simp add: no_missing_def flag_page_def flags_for_def effective_page_prot_def Let_def)
  then have "no_missing (fold (flag_page False 3) ps m)" if "no_missing m" for ps m
    using that by (induction ps arbitrary: m) simp_all
  then show "no_missing sample_memory"
    by (simp add: sample_memory_def set_mapping_def Let_def no_missing_def)
      (simp add: no_missing_def set_direct_prot_def Memory_init_def)
qed


theorem check_access_exact_witness:
  "fst (check_access 0x10FFC 8 2 sample_memory) = None \<and>
   (\<exists>w. fst (check_access 0x11FFC 8 2 sample_memory) = Some (UnmappedMemory 0x12000 w False False))"
proof -
  note ok = sample_memory_ok
  have e: "effective_address sample_memory 2 a = a" for a by (simp add: effective_address_def ok)
  have a: "allows (Some 3) 2" by (simp add: allows_def effective_page_prot_def)
  have r: "a < 0x12000 \<and> 0x10000 \<le> a" if "0x10FFC \<le> a" "a < 0x11004" for a :: u64
    using that by unat_arith
  have "fst (check_access 0x10FFC 8 2 sample_memory) = None"
    using check_access_exact [OF ok(1-3), where access = 2 and sz = 8 and addr = "0x10FFC", OF _ _ refl] r
    by (auto simp: e in_window_def ok a)
  moreover
  note c = check_access_exact [OF ok(1-3), where access = 2 and sz = 8 and addr = "0x11FFC", OF _ _ refl]
  have "fst (check_access 0x11FFC 8 2 sample_memory) \<noteq> None"
    using c by (auto simp: e in_window_def ok allows_def intro!: exI [of _ "0x12000"])
  then obtain f where f: "fst (check_access 0x11FFC 8 2 sample_memory) = Some f" by blast
  with c obtain x where x: "first_failing sample_memory 0x11FFC 8 2 x"
      "f = UnmappedMemory x (2 AND 2 \<noteq> (0 :: u8)) (vma_at (vmas sample_memory) x \<noteq> None) False"
    by (auto simp: e in_window_def ok)
  have "x = 0x12000"
  proof (rule ccontr)
    assume n: "x \<noteq> 0x12000"
    from x(1) have i: "0x11FFC \<le> x" and m: "\<not> allows (vma_at (vmas sample_memory) x) 2"
      and l: "\<forall>b. 0x11FFC \<le> b \<and> b < x \<longrightarrow> allows (vma_at (vmas sample_memory) b) 2"
      by (auto simp: first_failing_def)
    have "\<not> x < 0x12000" using m i a order_trans [OF _ i, of "0x10000"] by (auto simp: ok)
    then have "0x12000 < x" using n by simp
    then show False using l [rule_format, of "0x12000"] by (simp add: ok allows_def)
  qed
  then have "f = UnmappedMemory 0x12000 (2 AND 2 \<noteq> (0 :: u8)) False False" using x(2) by (simp add: ok)
  then show ?thesis using calculation f by blast
qed



end
