(* ===== verification/PendingProps.thy ===== *)
theory PendingProps
  imports PendingQueue "HOL-Library.Multiset"
begin

text \<open>
  The ring of pending signals as a bounded list. A push appends or is refused, a pop takes the
  first deliverable element out, an overrun is merged into the first entry of its timer; the
  laws are a locale, and what a run of pushes and pops delivers is proved from them.
\<close>

section \<open>The ring as a list\<close>

definition slots :: "u64 \<Rightarrow> u64 \<Rightarrow> (nat \<Rightarrow> PendingSig) \<Rightarrow> PendingSig list" where
  "slots h t q = map (\<lambda>k. q (ring_slot (h + of_nat k))) [0..<unat (t - h)]"

definition queued :: "CPU \<Rightarrow> PendingSig list" where
  "queued c = slots (pending_head c) (pending_tail c) (pending_queue c)"

definition queue_ok :: "CPU \<Rightarrow> bool" where
  "queue_ok c \<longleftrightarrow> unat (pending_tail c - pending_head c) \<le> 64"

lemma length_slots [simp]: "length (slots h t q) = unat (t - h)"
  by (simp add: slots_def)

lemma nth_slots [simp]: "k < unat (t - h) \<Longrightarrow> slots h t q ! k = q (ring_slot (h + of_nat k))"
  by (simp add: slots_def)

lemma unat_pred: "i \<noteq> t \<Longrightarrow> unat (t - i) = Suc (unat (t - (i + 1)))" for i t :: u64
proof -
  assume "i \<noteq> t"
  then have "1 \<le> t - i" by (simp add: word_le_nat_alt Suc_le_eq unat_gt_0)
  then have "unat (t - i - 1) = unat (t - i) - 1" by (simp add: unat_sub)
  moreover have "0 < unat (t - i)" using \<open>i \<noteq> t\<close> by (simp add: unat_gt_0)
  ultimately show ?thesis by (simp add: diff_diff_add)
qed

lemma slots_unfold: "slots i t q = (if i = t then [] else q (ring_slot i) # slots (i + 1) t q)"
proof (cases "i = t")
  case False
  show ?thesis
    unfolding slots_def unat_pred [OF False] upt_conv_Cons [OF zero_less_Suc]
    using False by (simp add: map_Suc_upt [symmetric] ac_simps del: upt_Suc)
qed (simp add: slots_def)

text \<open>Two indices less than 64 apart have different slots.\<close>

lemma ring_slot_inj:
  assumes "ring_slot a = ring_slot b" "unat (a - b) < 64"
  shows "a = b"
proof -
  have "uint a mod 64 = uint b mod 64" using assms(1) by (simp add: ring_slot_def word_unat_eq_iff [symmetric] word_uint_eq_iff uint_mod)
  then have "(uint a - uint b) mod 64 = 0" using mod_diff_cong [of "uint a" 64 "uint b" "uint b" "uint b"] by simp
  moreover have "uint (a - b) mod 64 = (uint a - uint b) mod 64"
    by (simp add: uint_word_ariths mod_mod_cancel)
  moreover have "a - b < 64" using assms(2) by (simp add: word_less_nat_alt)
  then have "uint (a - b) < 64" by (simp add: word_less_def)
  ultimately have "a - b = 0" by (simp add: word_uint_eq_iff)
  then show ?thesis by simp
qed

lemma slot_neq:
  assumes "j < 64" "k < 64" "j \<noteq> k"
  shows "ring_slot (h + of_nat j) \<noteq> ring_slot (h + of_nat k)"
proof
  have n: "unat (of_nat x :: u64) = x" if "x < 64" for x using that by (simp add: unat_of_nat)
  have *: False if "k < j" "j < 64" "ring_slot (h + of_nat j) = ring_slot (h + of_nat k)" for j k
  proof -
    have "(h + of_nat j) - (h + of_nat k) = of_nat (j - k)" using that(1) by (simp add: of_nat_diff)
    moreover have "unat (of_nat (j - k) :: u64) = j - k" using that by (intro n) simp
    ultimately have "unat ((h + of_nat j) - (h + of_nat k)) = j - k" by (simp only:)
    moreover have "h + of_nat j = h + of_nat k"
      using ring_slot_inj [OF that(3)] calculation that by simp
    ultimately show False using that by simp
  qed
  assume "ring_slot (h + of_nat j) = ring_slot (h + of_nat k)"
  then show False using * [of k j] * [of j k] assms by (metis linorder_neqE_nat)
qed

section \<open>The three loops\<close>

lemma select_from_split:
  "let s = select_from b q i t
   in slots i t q = takeWhile (sig_in b) (slots i t q) @ slots s t q \<and>
      s = i + of_nat (length (takeWhile (sig_in b) (slots i t q))) \<and>
      (s = t \<or> \<not> sig_in b (q (ring_slot s)))"
proof (induction b q i t rule: select_from.induct)
  case (1 b q i t)
  show ?case
  proof (cases "i \<noteq> t \<and> sig_in b (q (ring_slot i))")
    case True
    then have "select_from b q i t = select_from b q (i + 1) t" by (simp add: select_from.simps)
    moreover have "slots i t q = q (ring_slot i) # slots (i + 1) t q"
      using True slots_unfold [of i] by simp
    ultimately show ?thesis using 1 True by (auto simp: Let_def)
  next
    case False
    then have "select_from b q i t = i" by (subst select_from.simps) (simp only: if_False)
    moreover have "takeWhile (sig_in b) (slots i t q) = []"
      using False slots_unfold [of i t q] by auto
    ultimately show ?thesis using False by (auto simp: Let_def)
  qed
qed

lemma shift_up_at:
  assumes "n < 64" "k < 64" "i = h + of_nat n"
  shows "shift_up i h q (ring_slot (h + of_nat k)) =
    (if 1 \<le> k \<and> k \<le> n then q (ring_slot (h + of_nat (k - 1))) else q (ring_slot (h + of_nat k)))"
  using assms
proof (induction n arbitrary: i q)
  case 0
  then show ?case by (simp add: shift_up.simps)
next
  case (Suc n)
  let ?q = "q(ring_slot i := q (ring_slot (i - 1)))"
  have "unat (of_nat (Suc n) :: u64) = Suc n" using Suc.prems(1) by (subst unat_of_nat) simp
  then have ne: "i \<noteq> h" using Suc.prems(3) by (metis add_cancel_right_right nat.distinct(1) unat_0)
  then have e: "shift_up i h q = shift_up (i - 1) h ?q" by (subst shift_up.simps) simp
  have p: "i - 1 = h + of_nat n" using Suc.prems(3) by simp
  have at: "?q (ring_slot (h + of_nat j)) =
      (if j = Suc n then q (ring_slot (h + of_nat n)) else q (ring_slot (h + of_nat j)))" if "j < 64" for j
    using slot_neq [OF that Suc.prems(1), of h] p unfolding Suc.prems(3) by auto
  show ?case
    unfolding e Suc.IH [OF Suc_lessD [OF Suc.prems(1)] Suc.prems(2) p]
    using at [OF Suc.prems(2)] at [of "k - 1"] Suc.prems(2) by auto
qed

lemma slots_shift_up:
  assumes "unat (t - h) \<le> 64" "n < unat (t - h)" "i = h + of_nat n"
  shows "slots (h + 1) t (shift_up i h q) = take n (slots h t q) @ drop (Suc n) (slots h t q)"
proof -
  have ht: "h \<noteq> t" using assms(2) by auto
  note len = unat_pred [OF ht]
  have h1: "h + 1 + of_nat k = h + of_nat (Suc k)" for k by simp
  show ?thesis
  proof (rule nth_equalityI)
    show "length (slots (h + 1) t (shift_up i h q)) =
        length (take n (slots h t q) @ drop (Suc n) (slots h t q))"
      using assms(2) len by simp
    fix k assume "k < length (slots (h + 1) t (shift_up i h q))"
    then have k: "k < unat (t - (h + 1))" by simp
    have "slots (h + 1) t (shift_up i h q) ! k = shift_up i h q (ring_slot (h + of_nat (Suc k)))"
      unfolding nth_slots [OF k] h1 ..
    also have "\<dots> = (if Suc k \<le> n then q (ring_slot (h + of_nat k)) else q (ring_slot (h + of_nat (Suc k))))"
      using shift_up_at [of n "Suc k" i h q] assms k len by simp
    also have "\<dots> = (take n (slots h t q) @ drop (Suc n) (slots h t q)) ! k"
      using k len assms(2) by (auto simp: nth_append)
    finally show "slots (h + 1) t (shift_up i h q) ! k = \<dots>" .
  qed
qed


section \<open>The operations on the list\<close>

definition deliverable :: "CPU \<Rightarrow> u64 \<Rightarrow> PendingSig \<Rightarrow> bool" where
  "deliverable c wait_set s \<longleftrightarrow> \<not> sig_in (sigmask c AND NOT wait_set) s"

lemma push_pending_sig_queued:
  assumes "queue_ok c"
  shows "push_pending_sig x c =
      (if length (queued c) < 64
       then (c\<lparr>pending_queue := (pending_queue c)(ring_slot (pending_tail c) := x),
               pending_tail := pending_tail c + 1\<rparr>, True) else (c, False))"
    and "queue_ok (fst (push_pending_sig x c))"
    and "queued (fst (push_pending_sig x c)) =
      (if length (queued c) < 64 then queued c @ [x] else queued c)"
proof -
  let ?h = "pending_head c" and ?t = "pending_tail c" and ?q = "pending_queue c"
  have full: "?t - ?h \<ge> 64 \<longleftrightarrow> \<not> length (queued c) < 64"
    by (simp add: queued_def word_le_nat_alt not_less)
  show e: "push_pending_sig x c = (if length (queued c) < 64
      then (c\<lparr>pending_queue := ?q(ring_slot ?t := x), pending_tail := ?t + 1\<rparr>, True) else (c, False))"
    by (simp only: push_pending_sig_def Let_def full) simp
  show "queue_ok (fst (push_pending_sig x c))"
    "queued (fst (push_pending_sig x c)) = (if length (queued c) < 64 then queued c @ [x] else queued c)"
  proof -
    have "queue_ok (fst (push_pending_sig x c)) \<and>
        queued (fst (push_pending_sig x c)) = (if length (queued c) < 64 then queued c @ [x] else queued c)"
    proof (cases "length (queued c) < 64")
      case True
      let ?n = "unat (?t - ?h)"
      have n: "?n < 64" using True by (simp add: queued_def)
      have "unat ((?t - ?h) + 1) = Suc ?n" using n by (simp add: unat_word_ariths)
      then have n1: "unat (?t + 1 - ?h) = Suc ?n" by (simp add: algebra_simps)
      have t: "?t = ?h + of_nat ?n" by simp
      have at: "(?q(ring_slot ?t := x)) (ring_slot (?h + of_nat k)) =
          (if k = ?n then x else ?q (ring_slot (?h + of_nat k)))" if "k \<le> ?n" for k
        using slot_neq [of k ?n ?h] that n t by auto
      have "slots ?h (?t + 1) (?q(ring_slot ?t := x)) = slots ?h ?t ?q @ [x]"
        by (rule nth_equalityI) (use at n1 in \<open>auto simp: nth_append less_Suc_eq fun_upd_same simp del: fun_upd_apply\<close>)
      then show ?thesis using True n1 n by (simp add: e queue_ok_def queued_def)
    qed (use assms in \<open>simp add: e\<close>)
    then show "queue_ok (fst (push_pending_sig x c))"
      "queued (fst (push_pending_sig x c)) = (if length (queued c) < 64 then queued c @ [x] else queued c)"
      by blast+
  qed
qed

lemma pop_pending_queued:
  assumes "queue_ok c" "pop_pending w c = (c', r)"
  shows "queue_ok c' \<and> sigmask c' = sigmask c \<and>
    (case r of
       None \<Rightarrow> queued c' = queued c \<and> (\<forall>s \<in> set (queued c). \<not> deliverable c w s)
     | Some s \<Rightarrow> deliverable c w s \<and>
         (\<exists>xs ys. queued c = xs @ s # ys \<and> queued c' = xs @ ys \<and>
            (\<forall>x \<in> set xs. \<not> deliverable c w x)))"
proof -
  let ?h = "pending_head c" and ?t = "pending_tail c" and ?q = "pending_queue c"
  let ?b = "sigmask c AND NOT w"
  let ?s = "select_from ?b ?q ?h ?t"
  obtain xs where sp: "queued c = xs @ slots ?s ?t ?q" "?s = ?h + of_nat (length xs)"
    "?s = ?t \<or> \<not> sig_in ?b (?q (ring_slot ?s))" and xs: "\<forall>x \<in> set xs. sig_in ?b x"
    using select_from_split [of ?b ?q ?h ?t] unfolding queued_def Let_def by (metis set_takeWhileD)
  show ?thesis
  proof (cases "?h = ?t \<or> ?s = ?t")
    case True
    then have c': "c' = c" and r: "r = None"
      using assms(2) by (auto simp: pop_pending_def Let_def split: if_splits)
    have "queued c = [] \<or> slots ?s ?t ?q = []" using True by (auto simp: queued_def slots_def)
    then have "set (queued c) \<subseteq> set xs" using sp(1) by auto
    then have "\<forall>s \<in> set (queued c). sig_in ?b s" using xs by blast
    then show ?thesis using assms(1) unfolding c' r by (simp add: deliverable_def)
  next
    case False
    then have r: "r = Some (?q (ring_slot ?s))"
      and c': "c' = c\<lparr>pending_queue := shift_up ?s ?h ?q, pending_head := ?h + 1\<rparr>"
      using assms(2) by (auto simp: pop_pending_def Let_def split: if_splits)
    let ?ys = "slots (?s + 1) ?t ?q"
    have q: "queued c = xs @ ?q (ring_slot ?s) # ?ys"
      using sp(1) slots_unfold [of ?s ?t ?q] False by simp
    then have l: "length xs < unat (?t - ?h)"
    proof -
      have "unat (?t - ?h) = length (queued c)" by (simp add: queued_def)
      also have "\<dots> = length xs + Suc (length ?ys)" unfolding q by simp
      finally show ?thesis by simp
    qed
    from slots_shift_up [OF assms(1) [unfolded queue_ok_def] l sp(2), of ?q]
    have "queued c' = take (length xs) (queued c) @ drop (Suc (length xs)) (queued c)"
      by (simp add: c' queued_def)
    then have q': "queued c' = xs @ ?ys" unfolding q by simp
    have ok: "queue_ok c'"
      using assms(1) unat_pred [of ?h ?t] False by (simp add: queue_ok_def c')
    have m: "sigmask c' = sigmask c" by (simp add: c')
    have "\<exists>xs ys. queued c = xs @ ?q (ring_slot ?s) # ys \<and> queued c' = xs @ ys \<and>
        (\<forall>x \<in> set xs. \<not> deliverable c w x)"
      using q q' xs unfolding deliverable_def by blast
    then show ?thesis using ok m sp(3) False by (simp add: r deliverable_def)
  qed
qed

lemma merge_from_list:
  assumes "unat (t - h) \<le> 64" "n \<le> unat (t - h)" "i = h + of_nat n"
    and "merge_from i t tmr missed q = (q', v)"
  shows "case find (\<lambda>k. ps_timer_id (slots h t q ! k) = tmr) [n..<unat (t - h)] of
      None \<Rightarrow> q' = q \<and> v = - 1
    | Some k \<Rightarrow> v = raised_overrun (ps_timer_overrun (slots h t q ! k)) missed \<and>
        slots h t q' = (slots h t q)[k := (slots h t q ! k)\<lparr>ps_timer_overrun := v\<rparr>]"
  using assms
proof (induction "unat (t - h) - n" arbitrary: n i)
  case 0
  then have n: "n = unat (t - h)" by simp
  then have "i = t" using "0.prems"(3) by simp
  then show ?case using "0.prems"(4) n by (simp add: merge_from.simps)
next
  case (Suc d)
  then have n: "n < unat (t - h)" by simp
  have ne: "i \<noteq> t"
  proof
    assume "i = t"
    then have "t - h = of_nat n" using Suc.prems(3) by (metis add_diff_cancel_left')
    then have "unat (t - h) = n" using n Suc.prems(1) by (simp add: unat_of_nat)
    then show False using n by simp
  qed
  have upt: "[n..<unat (t - h)] = n # [Suc n..<unat (t - h)]" using n by (simp add: upt_conv_Cons)
  have at: "slots h t q ! n = q (ring_slot i)" using n Suc.prems(3) by simp
  show ?case
  proof (cases "ps_timer_id (q (ring_slot i)) = tmr")
    case True
    let ?x = "(q (ring_slot i))\<lparr>ps_timer_overrun := v\<rparr>"
    have v: "v = raised_overrun (ps_timer_overrun (q (ring_slot i))) missed" "q' = q(ring_slot i := ?x)"
      using Suc.prems(4) ne True by (auto simp: merge_from.simps Let_def split: if_splits)
    have "q' (ring_slot (h + of_nat k)) = (if k = n then ?x else q (ring_slot (h + of_nat k)))"
      if "k < unat (t - h)" for k
      using slot_neq [of k n h] that n Suc.prems(1) unfolding v(2) Suc.prems(3) by auto
    then have "slots h t q' = (slots h t q)[n := ?x]"
      by (intro nth_equalityI) (simp_all add: nth_list_update del: fun_upd_apply)
    then show ?thesis unfolding upt using True at v(1) by simp
  next
    case False
    have m: "merge_from (i + 1) t tmr missed q = (q', v)"
      using Suc.prems(4) ne False by (subst (asm) merge_from.simps) (simp add: Let_def)
    have i: "i + 1 = h + of_nat (Suc n)" using Suc.prems(3) by simp
    have d: "d = unat (t - h) - Suc n" using Suc.hyps(2) by simp
    from Suc.hyps(1) [OF d Suc.prems(1) Suc_leI [OF n] i m] False at
    show ?thesis unfolding upt by simp
  qed
qed

section \<open>A queue with selective delivery\<close>

text \<open>
  What the signal code relies on: a push appends while there is room, a pop takes out the first
  element its wait set lets through, and neither changes what is deliverable.
\<close>

locale selective_queue =
  fixes items :: "'s \<Rightarrow> 'a list"
    and inv :: "'s \<Rightarrow> bool"
    and cap :: nat
    and ready :: "'s \<Rightarrow> 'w \<Rightarrow> 'a \<Rightarrow> bool"
    and push :: "'a \<Rightarrow> 's \<Rightarrow> 's \<times> bool"
    and pop :: "'w \<Rightarrow> 's \<Rightarrow> 's \<times> 'a option"
  assumes push_law: "inv s \<Longrightarrow> push x s = (s', ok) \<Longrightarrow>
      inv s' \<and> ready s' = ready s \<and> ok = (length (items s) < cap) \<and>
      items s' = (if ok then items s @ [x] else items s)"
    and pop_law: "inv s \<Longrightarrow> pop w s = (s', r) \<Longrightarrow>
      inv s' \<and> ready s' = ready s \<and>
      (case r of
         None \<Rightarrow> items s' = items s \<and> (\<forall>x \<in> set (items s). \<not> ready s w x)
       | Some x \<Rightarrow> ready s w x \<and> (\<exists>xs ys. items s = xs @ x # ys \<and> items s' = xs @ ys \<and>
           (\<forall>y \<in> set xs. \<not> ready s w y)))"
begin

text \<open>
  A run: \<open>Inl x\<close> is a push, \<open>Inr w\<close> a pop. It collects what was accepted and what was delivered.
\<close>

fun run :: "('a + 'w) list \<Rightarrow> 's \<Rightarrow> 'a list \<Rightarrow> 'a list \<Rightarrow> 's \<times> 'a list \<times> 'a list" where
  "run [] s acc out = (s, acc, out)"
| "run (Inl x # ops) s acc out =
     (case push x s of (s', ok) \<Rightarrow> run ops s' (if ok then acc @ [x] else acc) out)"
| "run (Inr w # ops) s acc out =
     (case pop w s of (s', r) \<Rightarrow>
        run ops s' acc (case r of None \<Rightarrow> out | Some x \<Rightarrow> out @ [x]))"

text \<open>
  Elements that are always ready together leave in the order they entered, and none of them is
  lost or delivered twice.
\<close>

lemma run_order:
  assumes "inv s" "\<And>w x y. C x \<Longrightarrow> C y \<Longrightarrow> ready s w x = ready s w y"
    and "run ops s acc out = (s', acc', out')"
    and "filter C (out @ items s) = filter C (base @ acc)"
  shows "inv s' \<and> filter C (out' @ items s') = filter C (base @ acc')"
  using assms
proof (induction ops s acc out rule: run.induct)
  case (2 x ops s acc out)
  obtain s1 ok where p: "push x s = (s1, ok)" by (cases "push x s")
  note law = push_law [OF 2(2) p]
  have inv: "inv s1" and ready: "ready s1 = ready s" using law by simp_all
  have rn: "run ops s1 (if ok then acc @ [x] else acc) out = (s', acc', out')" using 2(4) p by simp
  have f: "filter C (out @ items s1) = filter C (base @ (if ok then acc @ [x] else acc))"
    using law 2(5) by (cases ok) simp_all
  show ?case by (rule 2(1) [OF p [symmetric] inv 2(3) [folded ready] rn f])
next
  case (3 w ops s acc out)
  obtain s1 r where p: "pop w s = (s1, r)" by (cases "pop w s")
  note law = pop_law [OF 3(2) p]
  have inv: "inv s1" and ready: "ready s1 = ready s" using law by simp_all
  have rn: "run ops s1 acc (case r of None \<Rightarrow> out | Some x \<Rightarrow> out @ [x]) = (s', acc', out')"
    using 3(4) p by simp
  have "filter C ((case r of None \<Rightarrow> out | Some x \<Rightarrow> out @ [x]) @ items s1) = filter C (out @ items s)"
  proof (cases r)
    case None
    then show ?thesis using law by simp
  next
    case (Some x)
    then obtain xs ys where e: "items s = xs @ x # ys" "items s1 = xs @ ys"
      "\<forall>y \<in> set xs. \<not> ready s w y" "ready s w x" using law by auto
    show ?thesis
    proof (cases "C x")
      case True
      have "\<not> C y" if "y \<in> set xs" for y using 3(3) [OF True, of y w] e(3,4) that by blast
      then have "filter C xs = []" by (simp add: filter_empty_conv)
      then show ?thesis using Some e True by simp
    qed (use Some e in simp)
  qed
  with 3(5) have f: "filter C ((case r of None \<Rightarrow> out | Some x \<Rightarrow> out @ [x]) @ items s1) = filter C (base @ acc)"
    by (rule trans [rotated])
  show ?case by (rule 3(1) [OF p [symmetric] inv 3(3) [folded ready] rn f])
qed simp

lemma run_conserves:
  assumes "inv s" "run ops s acc out = (s', acc', out')"
  shows "mset out' + mset (items s') + mset acc = mset out + mset (items s) + mset acc'"
  using assms
proof (induction ops s acc out rule: run.induct)
  case (2 x ops s acc out)
  obtain s1 ok where p: "push x s = (s1, ok)" by (cases "push x s")
  show ?case using 2(1) [OF p [symmetric]] push_law [OF 2(2) p] 2(3) p
    by (cases ok) (simp_all add: ac_simps)
next
  case (3 w ops s acc out)
  obtain s1 r where p: "pop w s = (s1, r)" by (cases "pop w s")
  show ?case using 3(1) [OF p [symmetric]] pop_law [OF 3(2) p] 3(3) p
    by (cases r) (auto simp: ac_simps)
qed simp

end


interpretation pending: selective_queue queued queue_ok 64 deliverable push_pending_sig pop_pending
proof unfold_locales
  show "queue_ok c' \<and> deliverable c' = deliverable c \<and> ok = (length (queued c) < 64) \<and>
      queued c' = (if ok then queued c @ [x] else queued c)"
    if "queue_ok c" "push_pending_sig x c = (c', ok)" for c x c' ok
    using push_pending_sig_queued [OF that(1), of x] that(2)
    by (auto simp: deliverable_def fun_eq_iff split: if_splits)
  show "queue_ok c' \<and> deliverable c' = deliverable c \<and>
      (case r of
         None \<Rightarrow> queued c' = queued c \<and> (\<forall>x \<in> set (queued c). \<not> deliverable c w x)
       | Some x \<Rightarrow> deliverable c w x \<and> (\<exists>xs ys. queued c = xs @ x # ys \<and> queued c' = xs @ ys \<and>
           (\<forall>y \<in> set xs. \<not> deliverable c w y)))"
    if "queue_ok c" "pop_pending w c = (c', r)" for c w c' r
    using pop_pending_queued [OF that] by (simp add: deliverable_def fun_eq_iff)
qed

section \<open>Properties\<close>

text \<open>
  C14. The ring of pending signals refines a bounded list with selective delivery: a push appends
  the signal, or is refused when 64 are queued; a pop takes out the first signal that its wait
  set or the mask lets through and keeps the order of the others, or finds that there is none.
\<close>

theorem pending_queue_refines:
  assumes "queue_ok c"
  shows "(case push_pending_sig x c of (c', ok) \<Rightarrow>
      queue_ok c' \<and> ok = (length (queued c) < 64) \<and>
      queued c' = (if ok then queued c @ [x] else queued c)) \<and>
    (case pop_pending w c of (c', r) \<Rightarrow> queue_ok c' \<and>
      (case find (deliverable c w) (queued c) of
         None \<Rightarrow> r = None \<and> queued c' = queued c
       | Some s \<Rightarrow> r = Some s \<and> queued c' = remove1 s (queued c)))"
proof -
  obtain c1 ok where p: "push_pending_sig x c = (c1, ok)" by (cases "push_pending_sig x c")
  obtain c2 r where q: "pop_pending w c = (c2, r)" by (cases "pop_pending w c")
  have "case find (deliverable c w) (queued c) of
      None \<Rightarrow> r = None \<and> queued c2 = queued c
    | Some s \<Rightarrow> r = Some s \<and> queued c2 = remove1 s (queued c)"
  proof (cases r)
    case None
    then have "find (deliverable c w) (queued c) = None" "queued c2 = queued c"
      using pending.pop_law [OF assms q] by (auto simp: find_None_iff)
    then show ?thesis using None by simp
  next
    case (Some s)
    then obtain xs ys where e: "queued c = xs @ s # ys" "queued c2 = xs @ ys"
      "\<forall>y \<in> set xs. \<not> deliverable c w y" "deliverable c w s"
      using pending.pop_law [OF assms q] by auto
    have "find (deliverable c w) (xs @ s # ys) = Some s"
      using e(3,4) by (induction xs) auto
    moreover have "s \<notin> set xs" using e(3,4) by blast
    ultimately show ?thesis using Some e(1,2) by (simp add: remove1_append)
  qed
  then show ?thesis using p q pending.push_law [OF assms p] pending.pop_law [OF assms q] by simp
qed

definition sample_sig :: "int \<Rightarrow> PendingSig" where
  "sample_sig n = PendingSig_zero\<lparr>ps_signo := n\<rparr>"

lemma queue_ok_init: "queue_ok CPU_init"
  by (simp add: queue_ok_def CPU_init_def)

theorem pending_queue_refines_witness:
  "queued (fst (push_pending_sig (sample_sig 10) CPU_init)) = [sample_sig 10]"
proof -
  have "queued CPU_init = []" by (simp add: queued_def slots_def CPU_init_def)
  then show ?thesis
    using pending_queue_refines [OF queue_ok_init, of "sample_sig 10" 0]
    by (simp split: prod.splits)
qed

text \<open>
  C19. Signals are neither lost nor duplicated, and those of one number are delivered in the order
  they were queued, through any interleaving of pushes (accepted or refused) and pops (with any
  wait sets) on a CPU whose queue starts empty.
\<close>

theorem signals_in_order:
  assumes "queue_ok c" "queued c = []"
    and "pending.run ops c [] [] = (c', accepted, delivered)"
  shows "mset delivered + mset (queued c') = mset accepted \<and>
    filter (\<lambda>s. ps_signo s = n) (delivered @ queued c') = filter (\<lambda>s. ps_signo s = n) accepted"
  using pending.run_conserves [OF assms(1,3)] assms(2)
    pending.run_order [OF assms(1) _ assms(3), where C = "\<lambda>s. ps_signo s = n" and base = "[]"]
  by (simp add: deliverable_def sig_in_def)

theorem signals_in_order_witness:
  "mset [sample_sig 10] + mset (queued (fst (pop_pending 0 (fst (push_pending_sig (sample_sig 10) CPU_init)))))
     = mset [sample_sig 10]"
proof -
  let ?c = "fst (push_pending_sig (sample_sig 10) CPU_init)"
  have q: "queued CPU_init = []" by (simp add: queued_def slots_def CPU_init_def)
  have ok: "queue_ok ?c" "queued ?c = [sample_sig 10]" "snd (push_pending_sig (sample_sig 10) CPU_init)"
    "sigmask ?c = 0"
    using push_pending_sig_queued [OF queue_ok_init, of "sample_sig 10"] q by (simp_all add: CPU_init_def)
  have d: "deliverable ?c 0 (sample_sig 10)" using ok(4) by (simp add: deliverable_def sig_in_def)
  obtain c2 r where p: "pop_pending 0 ?c = (c2, r)" by (cases "pop_pending 0 ?c")
  have "r = Some (sample_sig 10)"
    using pending.pop_law [OF ok(1) p] ok(2) d by (cases r) (auto simp: Cons_eq_append_conv)
  then have "pending.run [Inl (sample_sig 10), Inr 0] CPU_init [] [] = (c2, [sample_sig 10], [sample_sig 10])"
    using ok(3) p by (simp add: split_def)
  from signals_in_order [OF queue_ok_init q this] show ?thesis using p by simp
qed


lemma sint_small: "0 \<le> i \<Longrightarrow> i \<le> 2147483647 \<Longrightarrow> sint (word_of_int i :: u32) = i"
  by (simp add: sint_sbintrunc' signed_take_bit_int_eq_self)

text \<open>
  C36. An expiration of a timer that is already queued is merged into its first entry: the overrun
  count grows by one and the missed expirations and saturates at \<open>INT32_MAX\<close>, no other entry
  changes, and a timer with no entry is reported with -1.
\<close>

theorem merge_timer_overrun_first:
  assumes "queue_ok c" "\<forall>s \<in> set (queued c). 0 \<le> ps_timer_overrun s" "0 \<le> missed"
    and "merge_timer_overrun timer missed c = (c', v)"
  shows "case find (\<lambda>k. ps_timer_id (queued c ! k) = timer) [0..<length (queued c)] of
      None \<Rightarrow> queued c' = queued c \<and> v = - 1
    | Some k \<Rightarrow> v = min (ps_timer_overrun (queued c ! k) + 1 + missed) 2147483647 \<and>
        queued c' = (queued c)[k := (queued c ! k)\<lparr>ps_timer_overrun := v\<rparr>]"
proof -
  let ?h = "pending_head c" and ?t = "pending_tail c" and ?q = "pending_queue c"
  obtain q' where m: "merge_from ?h ?t timer missed ?q = (q', v)" "c' = c\<lparr>pending_queue := q'\<rparr>"
    using assms(4) by (auto simp: merge_timer_overrun_def split: prod.splits)
  have sat: "raised_overrun o1 missed = min (o1 + 1 + missed) 2147483647" if "0 \<le> o1" for o1
  proof (cases "o1 + 1 + missed \<le> 2147483647")
    case True
    then have "sint (word_of_int (o1 + 1 + missed) :: u32) = o1 + 1 + missed"
      using that assms(3) by (intro sint_small) simp_all
    then show ?thesis using True by (simp add: raised_overrun_def Let_def)
  qed (simp add: raised_overrun_def Let_def)
  note r = merge_from_list [OF assms(1) [unfolded queue_ok_def], of 0 ?h timer missed ?q q' v]
  show ?thesis
  proof (cases "find (\<lambda>k. ps_timer_id (queued c ! k) = timer) [0..<length (queued c)]")
    case None
    then show ?thesis using r m by (simp add: queued_def)
  next
    case (Some k)
    then have "k < length (queued c)" by (auto simp: find_Some_iff)
    then have "0 \<le> ps_timer_overrun (queued c ! k)" using assms(2) nth_mem by blast
    from sat [OF this] show ?thesis using Some r m by (simp add: queued_def)
  qed
qed

theorem merge_timer_overrun_first_witness:
  "snd (merge_timer_overrun 4 2147483647 (fst (push_pending_sig ((sample_sig 14)\<lparr>ps_timer_id := 4\<rparr>) CPU_init)))
     = 2147483647"
proof -
  let ?x = "(sample_sig 14)\<lparr>ps_timer_id := 4\<rparr>" let ?c = "fst (push_pending_sig ?x CPU_init)"
  have q: "queued CPU_init = []" by (simp add: queued_def slots_def CPU_init_def)
  have ok: "queue_ok ?c" "queued ?c = [?x]"
    using push_pending_sig_queued [OF queue_ok_init, of ?x] q by simp_all
  obtain c' v where m: "merge_timer_overrun 4 2147483647 ?c = (c', v)" by (metis prod.exhaust)
  have "v = 2147483647"
    using merge_timer_overrun_first [OF ok(1) _ _ m] ok(2)
    by (simp add: sample_sig_def PendingSig_zero_def)
  then show ?thesis using m by simp
qed

end
