(* ===== verification/ExclProtocol.thy ===== *)
theory ExclProtocol
  imports ExclMonitor
begin

text \<open>
  How several CPUs interleave on one bucket of the exclusive monitor
  (\<open>ExclusiveMonitor.hpp\<close>, the handlers in \<open>Interpreter.cpp\<close>). A load-exclusive reads the
  version and then the value; a store-exclusive locks the bucket, checks the version, swaps the
  value and unlocks; a store-release locks, writes and unlocks. Every one of these accesses is a
  step of its own, and any CPU may take the next step. The number of writes made under the lock is
  carried along to state what a store-exclusive may miss.
\<close>

section \<open>Steps\<close>

text \<open>
  Where a CPU is in its access: the version it read, the value it loaded, and the number of
  writes there had been when it read the version. The flag of \<open>Releasing\<close> is \<open>bump_\<close>.
  \<open>writable\<close> says whether the access check of the granule passes; the compare-and-swap and the
  write under the lock throw exactly when it does not.
\<close>

datatype phase =
    Idle
  | VersionRead u64 nat
  | Reserved u64 u64 nat
  | StoreHolding u64 u64 nat
  | StoreChecked u64 u64 nat
  | ReleaseHolding
  | Releasing bool

record protocol =
  word :: u64
  cell :: u64
  writable :: bool
  writes :: nat
  at :: "nat \<Rightarrow> phase"

fun holding :: "phase \<Rightarrow> bool" where
  "holding (StoreHolding v a n) = True"
| "holding (StoreChecked v a n) = True"
| "holding ReleaseHolding = True"
| "holding (Releasing b) = True"
| "holding p = False"

text \<open>
  One step of CPU \<open>i\<close>. A CPU outside of a store may also write the granule with a plain store or
  change its protection; one inside a store only goes on with that store.
\<close>

inductive cpu_step :: "nat \<Rightarrow> protocol \<Rightarrow> protocol \<Rightarrow> bool" where
  load_version: "\<not> holding (at s i) \<Longrightarrow>
    cpu_step i s (s\<lparr>at := (at s)(i := VersionRead (version_of (word s)) (writes s))\<rparr>)"
| load_value: "at s i = VersionRead v n \<Longrightarrow>
    cpu_step i s (s\<lparr>at := (at s)(i := Reserved v (cell s) n)\<rparr>)"
| drop: "\<not> holding (at s i) \<Longrightarrow> cpu_step i s (s\<lparr>at := (at s)(i := Idle)\<rparr>)"
| store_lock: "at s i = Reserved v a n \<Longrightarrow> try_lock (word s) = (w, True) \<Longrightarrow>
    cpu_step i s (s\<lparr>word := w, at := (at s)(i := StoreHolding v a n)\<rparr>)"
| store_lock_untagged: "at s i = Idle \<Longrightarrow> try_lock (word s) = (w, True) \<Longrightarrow>
    cpu_step i s (s\<lparr>word := w, at := (at s)(i := Releasing False)\<rparr>)"
| spin: "\<not> holding (at s i) \<Longrightarrow> try_lock (word s) = (w, False) \<Longrightarrow> cpu_step i s (s\<lparr>word := w\<rparr>)"
| check_ok: "at s i = StoreHolding v a n \<Longrightarrow> version_of (word s) = v \<Longrightarrow>
    cpu_step i s (s\<lparr>at := (at s)(i := StoreChecked v a n)\<rparr>)"
| check_fail: "at s i = StoreHolding v a n \<Longrightarrow> version_of (word s) \<noteq> v \<Longrightarrow>
    cpu_step i s (s\<lparr>at := (at s)(i := Releasing False)\<rparr>)"
| swap: "at s i = StoreChecked v a n \<Longrightarrow> writable s \<Longrightarrow> cell s = a \<Longrightarrow>
    cpu_step i s (s\<lparr>cell := x, writes := writes s + 1, at := (at s)(i := Releasing True)\<rparr>)"
| swap_fail: "at s i = StoreChecked v a n \<Longrightarrow> writable s \<Longrightarrow> cell s \<noteq> a \<Longrightarrow>
    cpu_step i s (s\<lparr>at := (at s)(i := Releasing False)\<rparr>)"
| swap_fault: "at s i = StoreChecked v a n \<Longrightarrow> \<not> writable s \<Longrightarrow>
    cpu_step i s (s\<lparr>at := (at s)(i := Releasing False)\<rparr>)"
| release_lock: "\<not> holding (at s i) \<Longrightarrow> try_lock (word s) = (w, True) \<Longrightarrow>
    cpu_step i s (s\<lparr>word := w, at := (at s)(i := ReleaseHolding)\<rparr>)"
| release_write: "at s i = ReleaseHolding \<Longrightarrow> writable s \<Longrightarrow>
    cpu_step i s (s\<lparr>cell := x, writes := writes s + 1, at := (at s)(i := Releasing True)\<rparr>)"
| release_fault: "at s i = ReleaseHolding \<Longrightarrow> \<not> writable s \<Longrightarrow>
    cpu_step i s (s\<lparr>at := (at s)(i := Releasing False)\<rparr>)"
| unlock_bucket: "at s i = Releasing b \<Longrightarrow>
    cpu_step i s (s\<lparr>word := unlock b (word s), at := (at s)(i := Idle)\<rparr>)"
| plain_write: "\<not> holding (at s i) \<Longrightarrow> cpu_step i s (s\<lparr>cell := x\<rparr>)"
| protect: "\<not> holding (at s i) \<Longrightarrow> cpu_step i s (s\<lparr>writable := b\<rparr>)"

definition excl_step :: "protocol \<Rightarrow> protocol \<Rightarrow> bool" where
  "excl_step s t \<longleftrightarrow> (\<exists>i. cpu_step i s t)"

text \<open>A run, with the CPU that takes each step.\<close>

inductive excl_run :: "protocol \<Rightarrow> nat list \<Rightarrow> protocol \<Rightarrow> bool" where
  run_done: "excl_run s [] s"
| run_step: "cpu_step i s t \<Longrightarrow> excl_run t is u \<Longrightarrow> excl_run s (i # is) u"

text \<open>A process starts with every bucket word zero and no reservation.\<close>

definition protocol_init :: "u64 \<Rightarrow> protocol" where
  "protocol_init v = \<lparr>word = 0, cell = v, writable = True, writes = 0, at = (\<lambda>_. Idle)\<rparr>"

inductive excl_reachable :: "protocol \<Rightarrow> bool" where
  init: "excl_reachable (protocol_init v)"
| step: "excl_reachable s \<Longrightarrow> excl_step s t \<Longrightarrow> excl_reachable t"

inductive_cases cpu_stepE: "cpu_step i s t"

section \<open>Bucket words\<close>

text \<open>A bucket word is twice the number of bumps, plus one while it is locked.\<close>

definition word_is :: "u64 \<Rightarrow> nat \<Rightarrow> bool \<Rightarrow> bool" where
  "word_is w k l \<longleftrightarrow> w = of_nat (2 * k) OR (if l then 1 else 0)"

lemma not_bit0_double: "\<not> bit (of_nat (2 * k) :: u64) 0"
proof -
  have "(of_nat (2 * k) :: u64) = push_bit 1 (of_nat k)" by (simp add: push_bit_eq_mult)
  then show ?thesis by (simp only: bit_push_bit_iff) simp
qed

lemma bit_double_pos: "bit (of_nat (2 * k) :: u64) n \<Longrightarrow> 0 < n"
  using not_bit0_double by (cases n) (simp_all del: of_nat_mult)

lemma double_and: "(of_nat (2 * k) :: u64) AND NOT 1 = of_nat (2 * k)" "(of_nat (2 * k) :: u64) AND 1 = 0"
proof -
  show "(of_nat (2 * k) :: u64) AND 1 = 0"
    by (rule bit_word_eqI) (auto simp: bit_and_iff bit_1_iff simp del: of_nat_mult dest: bit_double_pos)
  show "(of_nat (2 * k) :: u64) AND NOT 1 = of_nat (2 * k)"
    by (rule bit_word_eqI)
      (auto simp: bit_and_iff bit_not_iff bit_1_iff simp del: of_nat_mult dest: bit_double_pos)
qed

lemma double_or: "(of_nat (2 * k) :: u64) OR 1 = of_nat (2 * k) + 1"
  by (rule disjunctive_add [symmetric]) (auto simp: bit_1_iff simp del: of_nat_mult dest: bit_double_pos)

lemma word_is_ops:
  assumes "word_is w k l"
  shows "version_of w = of_nat (2 * k)" "locked w = l" "word_is (fst (try_lock w)) k True"
    "snd (try_lock w) = (\<not> l)" "l \<Longrightarrow> word_is (unlock True w) (k + 1) False"
    "word_is (unlock False w) k False"
proof -
  have m: "(1 :: u64) AND NOT 1 = 0" by simp
  show v: "version_of w = of_nat (2 * k)"
    unfolding version_of_def assms [unfolded word_is_def]
    by (cases l) (simp_all only: if_True if_False or.right_neutral bit.conj_disj_distrib2 double_and m)
  show lk: "locked w = l"
    unfolding locked_def assms [unfolded word_is_def]
    by (cases l) (simp_all add: bit.conj_disj_distrib2 double_and del: of_nat_mult)
  then show "snd (try_lock w) = (\<not> l)" by (simp add: try_lock_def)
  show "word_is (fst (try_lock w)) k True"
    using assms by (simp add: try_lock_def word_is_def or.assoc)
  show "word_is (unlock False w) k False"
    using v by (simp add: unlock_def word_is_def version_of_def)
  show "word_is (unlock True w) (k + 1) False" if l
    using assms that by (simp add: unlock_def word_is_def double_or del: of_nat_mult)
qed


section \<open>The invariant\<close>

fun tag :: "phase \<Rightarrow> (u64 \<times> nat) option" where
  "tag (VersionRead v n) = Some (v, n)"
| "tag (Reserved v a n) = Some (v, n)"
| "tag (StoreHolding v a n) = Some (v, n)"
| "tag (StoreChecked v a n) = Some (v, n)"
| "tag p = None"

text \<open>A recorded version is one the bucket had, when no more writes had been bumped than made.\<close>

definition tag_ok :: "nat \<Rightarrow> nat \<Rightarrow> phase \<Rightarrow> bool" where
  "tag_ok k w p \<longleftrightarrow> (\<forall>v n. tag p = Some (v, n) \<longrightarrow> (\<exists>j \<le> k. v = of_nat (2 * j) \<and> j \<le> n \<and> n \<le> w))"

definition checked_ok :: "nat \<Rightarrow> phase \<Rightarrow> bool" where
  "checked_ok k p \<longleftrightarrow> (\<forall>v a n. p = StoreChecked v a n \<longrightarrow> v = of_nat (2 * k))"

definition inv :: "nat \<Rightarrow> protocol \<Rightarrow> bool" where
  "inv k s \<longleftrightarrow>
     (\<forall>i j. holding (at s i) \<longrightarrow> holding (at s j) \<longrightarrow> i = j) \<and>
     word_is (word s) k (\<exists>i. holding (at s i)) \<and>
     writes s = k + (if \<exists>i. at s i = Releasing True then 1 else 0) \<and>
     (\<forall>i. tag_ok k (writes s) (at s i)) \<and> (\<forall>i. checked_ok k (at s i))"

lemma invD:
  assumes "inv k s"
  shows "holding (at s i) \<Longrightarrow> holding (at s j) \<Longrightarrow> i = j"
    "word_is (word s) k (\<exists>i. holding (at s i))"
    "writes s = k + (if \<exists>i. at s i = Releasing True then 1 else 0)"
    "tag_ok k (writes s) (at s i)" "checked_ok k (at s i)"
  using assms unfolding inv_def by blast+

lemma tag_ok_mono: "tag_ok k w p \<Longrightarrow> k \<le> k' \<Longrightarrow> w \<le> w' \<Longrightarrow> tag_ok k' w' p"
  unfolding tag_ok_def by (meson order_trans)

lemma not_releasing: "\<not> holding p \<Longrightarrow> p \<noteq> Releasing b"
  by auto

lemma checked_ok_idle: "\<not> holding p \<Longrightarrow> checked_ok k p"
  by (auto simp: checked_ok_def)

text \<open>The holder moves, or a CPU takes the free bucket; and a CPU that does not hold it moves.\<close>

lemma inv_holder:
  assumes "inv k s" "\<And>j. j \<noteq> i \<Longrightarrow> \<not> holding (at s j)"
    and "word_is w k' (holding p)" "W = k' + (if p = Releasing True then 1 else 0)"
    and "k \<le> k'" "writes s \<le> W" "tag_ok k' W p" "checked_ok k' p"
  shows "inv k' (s\<lparr>word := w, cell := c, writes := W, at := (at s)(i := p)\<rparr>)"
proof -
  let ?s = "s\<lparr>word := w, cell := c, writes := W, at := (at s)(i := p)\<rparr>"
  have h: "holding (at ?s j) \<longleftrightarrow> j = i \<and> holding p" for j using assms(2) [of j] by auto
  have r: "at ?s j = Releasing True \<longleftrightarrow> j = i \<and> p = Releasing True" for j
    using not_releasing [OF assms(2), of j True] by simp
  have "tag_ok k' W (at ?s j) \<and> checked_ok k' (at ?s j)" for j
  proof (cases "j = i")
    case False
    then have "checked_ok k' (at s j)" using assms(2) checked_ok_idle by blast
    moreover have "tag_ok k' W (at s j)"
      using tag_ok_mono [OF invD(4) [OF assms(1)] assms(5,6)] .
    ultimately show ?thesis using False by simp
  qed (use assms(7,8) in simp)
  then show ?thesis unfolding inv_def using h r assms(3,4) by simp
qed

lemma inv_other:
  assumes "inv k s" "\<not> holding (at s i)" "\<not> holding p" "tag_ok k (writes s) p"
  shows "inv k (s\<lparr>at := (at s)(i := p)\<rparr>)"
proof -
  let ?s = "s\<lparr>at := (at s)(i := p)\<rparr>"
  have h: "holding (at ?s j) = holding (at s j)" for j using assms(2,3) by simp
  have r: "at ?s j = Releasing True \<longleftrightarrow> at s j = Releasing True" for j
    using assms(2,3) by auto
  have "tag_ok k (writes s) (at ?s j) \<and> checked_ok k (at ?s j)" for j
  proof -
    have "tag_ok k (writes s) (at s j) \<and> checked_ok k (at s j)" using assms(1) unfolding inv_def by blast
    then show ?thesis using assms(3,4) checked_ok_idle by simp
  qed
  then show ?thesis using assms(1) unfolding inv_def h r by simp
qed

lemma inv_free:
  assumes "inv k s" "try_lock (word s) = (w, b)"
  shows "b \<longleftrightarrow> (\<forall>j. \<not> holding (at s j))" "b \<Longrightarrow> writes s = k" "word_is w k True" "\<not> b \<Longrightarrow> w = word s"
proof -
  note ops = word_is_ops [of "word s" k "\<exists>i. holding (at s i)"]
  have wi: "word_is (word s) k (\<exists>i. holding (at s i))" by (rule invD(2) [OF assms(1)])
  show b: "b \<longleftrightarrow> (\<forall>j. \<not> holding (at s j))" using ops(4) [OF wi] assms(2) by simp
  show "word_is w k True" using ops(3) [OF wi] assms(2) by simp
  show "writes s = k" if b
    using invD(3) [OF assms(1)] not_releasing b that by simp
  show "w = word s" if "\<not> b"
  proof -
    have "word_is (word s) k True" using wi b that by simp
    then show ?thesis using assms(2) by (auto simp: try_lock_def word_is_def or.assoc)
  qed
qed

lemma inv_alone:
  assumes "inv k s" "holding (at s i)"
  shows "\<And>j. j \<noteq> i \<Longrightarrow> \<not> holding (at s j)" "word_is (word s) k True"
    "writes s = k + (if at s i = Releasing True then 1 else 0)" "tag_ok k (writes s) (at s i)"
    "checked_ok k (at s i)"
proof -
  show o: "\<not> holding (at s j)" if "j \<noteq> i" for j using assms that unfolding inv_def by blast
  show "word_is (word s) k True" using assms unfolding inv_def by (metis (full_types))
  have "(\<exists>j. at s j = Releasing True) \<longleftrightarrow> at s i = Releasing True" using o not_releasing by metis
  then show "writes s = k + (if at s i = Releasing True then 1 else 0)"
    using invD(3) [OF assms(1)] by simp
qed (rule invD(4,5) [OF assms(1)])+


text \<open>A step of the holder that leaves the word alone, without and with a write.\<close>

lemma inv_holder_quiet:
  assumes "inv k s" "holding (at s i)" "at s i \<noteq> Releasing True" "holding p" "p \<noteq> Releasing True"
    and "tag p = tag (at s i) \<or> tag p = None" "checked_ok k p"
  shows "inv k (s\<lparr>at := (at s)(i := p)\<rparr>)"
proof -
  note al = inv_alone [OF assms(1,2)]
  have "tag_ok k (writes s) p" using al(4) assms(6) by (auto simp: tag_ok_def)
  then have "inv k (s\<lparr>word := word s, cell := cell s, writes := writes s, at := (at s)(i := p)\<rparr>)"
    using al assms by (intro inv_holder [OF assms(1) al(1)]) simp_all
  then show ?thesis by simp
qed

lemma inv_write:
  assumes "inv k s" "holding (at s i)" "at s i \<noteq> Releasing True"
  shows "inv k (s\<lparr>cell := x, writes := writes s + 1, at := (at s)(i := Releasing True)\<rparr>)"
proof -
  note al = inv_alone [OF assms(1,2)]
  have "inv k (s\<lparr>word := word s, cell := x, writes := writes s + 1, at := (at s)(i := Releasing True)\<rparr>)"
    using al assms by (intro inv_holder [OF assms(1) al(1)]) (simp_all add: tag_ok_def checked_ok_def)
  then show ?thesis by simp
qed

lemma inv_lock:
  assumes "inv k s" "try_lock (word s) = (w, True)" "holding p" "p \<noteq> Releasing True"
    and "tag p = tag (at s i) \<or> tag p = None" "checked_ok k p"
  shows "inv k (s\<lparr>word := w, at := (at s)(i := p)\<rparr>)"
proof -
  note fr = inv_free [OF assms(1,2)]
  have "tag_ok k (writes s) p" using invD(4) [OF assms(1)] assms(5) by (auto simp: tag_ok_def)
  then have "inv k (s\<lparr>word := w, cell := cell s, writes := writes s, at := (at s)(i := p)\<rparr>)"
    using fr assms by (intro inv_holder [OF assms(1)]) simp_all
  then show ?thesis by simp
qed

lemma inv_unlock:
  assumes "inv k s" "at s i = Releasing b"
  shows "inv (if b then k + 1 else k) (s\<lparr>word := unlock b (word s), at := (at s)(i := Idle)\<rparr>)"
proof -
  have h: "holding (at s i)" using assms(2) by simp
  note al = inv_alone [OF assms(1) h]
  have "inv (if b then k + 1 else k)
      (s\<lparr>word := unlock b (word s), cell := cell s, writes := writes s, at := (at s)(i := Idle)\<rparr>)"
    using al(2,3) assms(2) word_is_ops(5,6) [OF al(2)]
    by (intro inv_holder [OF assms(1) al(1)]) (cases b; simp add: tag_ok_def checked_ok_def)+
  then show ?thesis by simp
qed

lemma inv_plain: "inv k (s\<lparr>cell := x\<rparr>) = inv k s" "inv k (s\<lparr>writable := b\<rparr>) = inv k s"
  by (simp_all add: inv_def)

lemma inv_cpu_step: "cpu_step i s t \<Longrightarrow> inv k s \<Longrightarrow> \<exists>k'. inv k' t"
proof (induction rule: cpu_step.induct)
  case (load_version s i)
  obtain "word_is (word s) k (\<exists>i. holding (at s i))" "k \<le> writes s" using invD(2,3) [OF load_version(2)] by simp
  then have "tag_ok k (writes s) (VersionRead (version_of (word s)) (writes s))"
    using word_is_ops(1) by (auto simp: tag_ok_def)
  then have "inv k (s\<lparr>at := (at s)(i := VersionRead (version_of (word s)) (writes s))\<rparr>)"
    using load_version by (intro inv_other) simp_all
  then show ?case by blast
next
  case (load_value s i v n)
  have "tag_ok k (writes s) (at s i)" using invD(4) [OF load_value(2)] .
  then have "tag_ok k (writes s) (Reserved v (cell s) n)" using load_value(1) by (simp add: tag_ok_def)
  then have "inv k (s\<lparr>at := (at s)(i := Reserved v (cell s) n)\<rparr>)"
    using load_value by (intro inv_other) simp_all
  then show ?case by blast
next
  case (drop s i)
  then have "inv k (s\<lparr>at := (at s)(i := Idle)\<rparr>)" by (intro inv_other) (simp_all add: tag_ok_def)
  then show ?case by blast
next
  case (store_lock s i v a n w)
  then have "inv k (s\<lparr>word := w, at := (at s)(i := StoreHolding v a n)\<rparr>)"
    by (intro inv_lock) (simp_all add: checked_ok_def)
  then show ?case by blast
next
  case (store_lock_untagged s i w)
  then have "inv k (s\<lparr>word := w, at := (at s)(i := Releasing False)\<rparr>)"
    by (intro inv_lock) (simp_all add: checked_ok_def)
  then show ?case by blast
next
  case (spin s i w)
  then have "w = word s" using inv_free(4) by blast
  then show ?case using spin by auto
next
  case (check_ok s i v a n)
  have h: "holding (at s i)" using check_ok(1) by simp
  have "version_of (word s) = of_nat (2 * k)"
    by (rule word_is_ops(1) [OF inv_alone(2) [OF check_ok(3) h]])
  then have "inv k (s\<lparr>at := (at s)(i := StoreChecked v a n)\<rparr>)"
    using check_ok by (intro inv_holder_quiet) (simp_all add: checked_ok_def)
  then show ?case by blast
next
  case (check_fail s i v a n)
  then have "inv k (s\<lparr>at := (at s)(i := Releasing False)\<rparr>)"
    by (intro inv_holder_quiet) (simp_all add: checked_ok_def)
  then show ?case by blast
next
  case (swap s i v a n x)
  then show ?case using inv_write [of k s i x] by auto
next
  case (swap_fail s i v a n)
  then have "inv k (s\<lparr>at := (at s)(i := Releasing False)\<rparr>)"
    by (intro inv_holder_quiet) (simp_all add: checked_ok_def)
  then show ?case by blast
next
  case (swap_fault s i v a n)
  then have "inv k (s\<lparr>at := (at s)(i := Releasing False)\<rparr>)"
    by (intro inv_holder_quiet) (simp_all add: checked_ok_def)
  then show ?case by blast
next
  case (release_lock s i w)
  then have "inv k (s\<lparr>word := w, at := (at s)(i := ReleaseHolding)\<rparr>)"
    by (intro inv_lock) (simp_all add: checked_ok_def)
  then show ?case by blast
next
  case (release_write s i x)
  then show ?case using inv_write [of k s i x] by auto
next
  case (release_fault s i)
  then have "inv k (s\<lparr>at := (at s)(i := Releasing False)\<rparr>)"
    by (intro inv_holder_quiet) (simp_all add: checked_ok_def)
  then show ?case by blast
next
  case (unlock_bucket s i b)
  then show ?case using inv_unlock by blast
next
  case (plain_write s i x)
  then show ?case by (auto simp: inv_plain)
next
  case (protect s i b)
  then show ?case by (auto simp: inv_plain)
qed

lemma inv_step: "excl_step s t \<Longrightarrow> inv k s \<Longrightarrow> \<exists>k'. inv k' t"
  unfolding excl_step_def using inv_cpu_step by blast

lemma inv_reachable: "excl_reachable s \<Longrightarrow> \<exists>k. inv k s"
proof (induction rule: excl_reachable.induct)
  case (init v)
  have "inv 0 (protocol_init v)"
    by (simp add: inv_def protocol_init_def word_is_def tag_ok_def checked_ok_def)
  then show ?case ..
next
  case (step s t)
  then show ?case using inv_step by blast
qed

lemma bucket_mutual_exclusion_aux:
  assumes "excl_reachable s" "locked (word s)"
  shows "\<exists>i. holding (at s i)"
proof -
  obtain k where k: "inv k s" using inv_reachable [OF assms(1)] ..
  show ?thesis using word_is_ops(2) [OF invD(2) [OF k]] assms(2) by blast
qed

lemma others_locked_out:
  assumes "excl_reachable s" "holding (at s i)" "at t i = at s i" "excl_step s t"
  shows "word t = word s \<and> writes t = writes s"
proof -
  obtain k where k: "inv k s" using inv_reachable [OF assms(1)] ..
  note al = inv_alone [OF k assms(2)]
  have no_lock: "try_lock (word s) \<noteq> (w, True)" for w
    using word_is_ops(4) [OF al(2)] by (metis snd_conv)
  have spin: "w = word s" if "try_lock (word s) = (w, False)" for w
    using inv_free(4) [OF k that] by simp
  have mine: "j = i" if "at s j = p" "holding p" for j p using al(1) [of j] that by blast
  note mine' = mine [of _ "StoreHolding _ _ _"] mine [of _ "StoreChecked _ _ _"]
    mine [of _ ReleaseHolding] mine [of _ "Releasing _"]
  obtain m where m: "cpu_step m s t" using assms(4) unfolding excl_step_def ..
  show ?thesis
    by (rule cpu_stepE [OF m])
      (use assms(3) in \<open>simp_all add: no_lock spin split: if_splits\<close>, (drule mine'; simp)+)
qed

section \<open>Properties\<close>

text \<open>
  C7. At most one CPU is inside a store to a bucket, the lock bit of the bucket word is set
  exactly while one is, and no step of another CPU changes the word or makes a write under the
  lock meanwhile, in every state any interleaving of the CPUs can reach.
\<close>

theorem bucket_mutual_exclusion:
  assumes "excl_reachable s"
  shows "(holding (at s i) \<and> holding (at s j) \<longrightarrow> i = j) \<and>
    locked (word s) = (\<exists>i. holding (at s i)) \<and>
    (holding (at s i) \<and> excl_step s t \<and> at t i = at s i \<longrightarrow> word t = word s \<and> writes t = writes s)"
proof -
  obtain k where k: "inv k s" using inv_reachable [OF assms] ..
  show ?thesis
    using invD(1) [OF k] word_is_ops(2) [OF invD(2) [OF k]] others_locked_out [OF assms] by blast
qed

text \<open>
  C8. A store-exclusive that is about to swap has missed no write made under the lock: between
  its load-exclusive reading the version and its compare-and-swap no store-exclusive and no
  store-release of another CPU wrote, whatever the interleaving, as long as fewer than \<open>2 ^ 63\<close>
  of them have been made (the version then has not wrapped).
\<close>

theorem store_exclusive_misses_no_write:
  assumes "excl_reachable s" "at s i = StoreChecked v a n" "writes s < 2 ^ 63"
  shows "writes s = n"
proof -
  obtain k where k: "inv k s" using inv_reachable [OF assms(1)] ..
  have h: "holding (at s i)" using assms(2) by simp
  note al = inv_alone [OF k h]
  have w: "writes s = k" using al(3) assms(2) by simp
  have v: "v = of_nat (2 * k)" using al(5) assms(2) by (simp add: checked_ok_def)
  obtain j where j: "j \<le> k" "v = of_nat (2 * j)" "j \<le> n" "n \<le> writes s"
    using al(4) assms(2) by (auto simp: tag_ok_def)
  have u: "unat (of_nat (2 * x) :: u64) = 2 * x" if "x \<le> k" for x
    using that assms(3) w by (subst unat_of_nat) simp
  have "2 * j = 2 * k" using u [OF j(1)] u [OF order_refl] unfolding v [symmetric] j(2) [symmetric] by (rule trans [OF sym])
  then show ?thesis using j(3,4) w by simp
qed


text \<open>One CPU's load-exclusive and store-exclusive up to its swap, from the start.\<close>

definition swapping :: "u64 \<Rightarrow> protocol" where
  "swapping x = \<lparr>word = 1, cell = x, writable = True, writes = 0, at = (\<lambda>_. Idle)(0 := StoreChecked 0 x 0)\<rparr>"

lemma version_words: "version_of 0 = 0" "version_of 1 = 0" "try_lock 0 = (1, True)" "unlock True 1 = 2"
  by (simp_all add: version_of_def try_lock_def locked_def unlock_def)

lemma swapping_reachable: "excl_reachable (swapping x)"
proof -
  let ?p = "\<lambda>w q. \<lparr>word = w, cell = x, writable = True, writes = 0, at = (\<lambda>_. Idle)(0 := q)\<rparr> :: protocol"
  have "excl_reachable (?p 0 Idle)"
    using init [of x] by (simp add: protocol_init_def fun_upd_triv [of "\<lambda>_. Idle" 0, simplified])
  moreover have "cpu_step 0 (?p 0 Idle) (?p 0 (VersionRead 0 0))"
    using load_version [of "?p 0 Idle" 0] by (simp add: version_words)
  moreover have "cpu_step 0 (?p 0 (VersionRead 0 0)) (?p 0 (Reserved 0 x 0))"
    using load_value [of "?p 0 (VersionRead 0 0)" 0 0 0] by simp
  moreover have "cpu_step 0 (?p 0 (Reserved 0 x 0)) (?p 1 (StoreHolding 0 x 0))"
    using store_lock [of "?p 0 (Reserved 0 x 0)" 0 0 x 0 1] by (simp add: version_words)
  moreover have "cpu_step 0 (?p 1 (StoreHolding 0 x 0)) (?p 1 (StoreChecked 0 x 0))"
    using check_ok [of "?p 1 (StoreHolding 0 x 0)" 0 0 x 0] by (simp add: version_words)
  ultimately show ?thesis
    unfolding swapping_def by (blast intro: excl_reachable.step [unfolded excl_step_def])
qed

theorem bucket_mutual_exclusion_witness: "locked (word (swapping 7)) = (\<exists>i. holding (at (swapping 7) i))"
  using bucket_mutual_exclusion [OF swapping_reachable] by blast

theorem store_exclusive_misses_no_write_witness:
  "at (swapping 7) 0 = StoreChecked 0 7 0 \<and> writes (swapping 7) = 0"
  using store_exclusive_misses_no_write [OF swapping_reachable [of 7], where i = 0 and n = 0 and v = 0 and a = 7]
  by (simp add: swapping_def)

text \<open>How many more steps of its own the holder needs.\<close>

fun steps_to_unlock :: "phase \<Rightarrow> nat" where
  "steps_to_unlock (StoreHolding v a n) = 3"
| "steps_to_unlock (StoreChecked v a n) = 2"
| "steps_to_unlock ReleaseHolding = 2"
| "steps_to_unlock (Releasing b) = 1"
| "steps_to_unlock p = 0"

lemma steps_to_unlock_le: "steps_to_unlock p \<le> 3"
  by (cases p) simp_all

lemma holding_steps: "holding p \<Longrightarrow> 0 < steps_to_unlock p"
  by (cases p) simp_all

text \<open>The holder can always move, and only moves towards its unlock.\<close>

lemma holder_can_step: "holding (at s i) \<Longrightarrow> \<exists>t. cpu_step i s t"
proof (cases "at s i")
  case (StoreHolding v a n)
  then show ?thesis using check_ok check_fail by blast
next
  case (StoreChecked v a n)
  then show ?thesis using swap swap_fail swap_fault by blast
next
  case ReleaseHolding
  then show ?thesis using release_write release_fault by blast
next
  case (Releasing b)
  then show ?thesis using unlock_bucket by blast
qed simp_all

lemma own_step:
  assumes "excl_reachable s" "holding (at s i)" "cpu_step i s t"
  shows "\<not> locked (word t) \<and> \<not> holding (at t i) \<or>
    holding (at t i) \<and> steps_to_unlock (at t i) < steps_to_unlock (at s i)"
proof -
  obtain k where k: "inv k s" using inv_reachable [OF assms(1)] ..
  have u: "\<not> locked (unlock b (word s))" for b
    using word_is_ops(5,6) [OF inv_alone(2) [OF k assms(2)]] by (cases b) (auto dest: word_is_ops(2))
  show ?thesis by (rule cpu_stepE [OF assms(3)]) (use assms(2) u in simp_all)
qed

lemma other_step: "cpu_step j s t \<Longrightarrow> j \<noteq> i \<Longrightarrow> at t i = at s i"
  by (induction rule: cpu_step.induct) simp_all

lemma cpu_step_reachable: "excl_reachable s \<Longrightarrow> cpu_step i s t \<Longrightarrow> excl_reachable t"
  using excl_reachable.step unfolding excl_step_def by blast

text \<open>The moment in a run at which CPU \<open>i\<close> has unlocked, after at most \<open>b\<close> steps of its own.\<close>

definition unlocks_within :: "nat \<Rightarrow> nat \<Rightarrow> protocol \<Rightarrow> nat list \<Rightarrow> protocol \<Rightarrow> bool" where
  "unlocks_within b i s is t \<longleftrightarrow>
     (\<exists>js ks u. is = js @ ks \<and> excl_run s js u \<and> excl_run u ks t \<and> count_list js i \<le> b \<and>
       \<not> locked (word u) \<and> \<not> holding (at u i))"

lemma unlocks_now:
  "cpu_step i s t \<Longrightarrow> \<not> locked (word t) \<Longrightarrow> \<not> holding (at t i) \<Longrightarrow> excl_run t is u \<Longrightarrow> 0 < b \<Longrightarrow>
   unlocks_within b i s (i # is) u"
  unfolding unlocks_within_def
  by (rule exI [of _ "[i]"], rule exI [of _ "is"], rule exI [of _ t])
    (simp add: run_step [OF _ run_done])

lemma unlocks_later:
  assumes "cpu_step j s t" "unlocks_within b i t is u" "b + (if j = i then 1 else 0) \<le> c"
  shows "unlocks_within c i s (j # is) u"
proof -
  obtain js ks v where v: "is = js @ ks" "excl_run t js v" "excl_run v ks u" "count_list js i \<le> b"
    "\<not> locked (word v)" "\<not> holding (at v i)" using assms(2) unfolding unlocks_within_def by blast
  have "count_list (j # js) i \<le> c" using v(4) assms(3) by auto
  then show ?thesis
    unfolding unlocks_within_def using v run_step [OF assms(1) v(2)] by (metis append_Cons)
qed

lemma run_unlocks:
  "excl_run s is t \<Longrightarrow> excl_reachable s \<Longrightarrow> holding (at s i) \<Longrightarrow>
   steps_to_unlock (at s i) \<le> count_list is i \<Longrightarrow> unlocks_within (steps_to_unlock (at s i)) i s is t"
proof (induction rule: excl_run.induct)
  case (run_done s)
  then show ?case using holding_steps by fastforce
next
  case (run_step j s t "is" u)
  note r = cpu_step_reachable [OF run_step.prems(1) run_step.hyps(1)]
  show ?case
  proof (cases "j = i")
    case False
    then show ?thesis
      using run_step other_step [OF run_step.hyps(1)] r
      by (intro unlocks_later [OF run_step.hyps(1), where b = "steps_to_unlock (at s i)"]) simp_all
  next
    case True
    then have i: "cpu_step i s t" using run_step.hyps(1) by simp
    from own_step [OF run_step.prems(1,2) i] show ?thesis
    proof
      assume "\<not> locked (word t) \<and> \<not> holding (at t i)"
      then show ?thesis
        using unlocks_now [OF i] run_step.hyps(2) holding_steps [OF run_step.prems(2)] True by simp
    next
      assume t: "holding (at t i) \<and> steps_to_unlock (at t i) < steps_to_unlock (at s i)"
      then have "unlocks_within (steps_to_unlock (at t i)) i t is u"
        using run_step.prems(3) True by (intro run_step.IH [OF r]) simp_all
      then show ?thesis using t True by (intro unlocks_later [OF run_step.hyps(1), where b = "steps_to_unlock (at t i)"]) simp_all
    qed
  qed
qed

text \<open>
  C34. A locked bucket is released by its holder. While the bucket is locked the CPU that holds it
  can take its next step, whatever the access check and the comparison say; and in every run, in
  which the other CPUs may take any steps between those of the holder, the bucket has been unlocked
  by the holder before or at its third step. Nothing it may do under the lock makes it go round.
\<close>

theorem bucket_is_unlocked:
  assumes "excl_reachable s" "locked (word s)"
  shows "\<exists>i. holding (at s i) \<and> (\<exists>t. cpu_step i s t) \<and>
    (\<forall>is t. excl_run s is t \<and> 3 \<le> count_list is i \<longrightarrow>
      (\<exists>js ks u. is = js @ ks \<and> excl_run s js u \<and> excl_run u ks t \<and> count_list js i \<le> 3 \<and>
        \<not> locked (word u) \<and> \<not> holding (at u i)))"
proof -
  obtain i where h: "holding (at s i)" using bucket_mutual_exclusion_aux [OF assms] ..
  have "unlocks_within 3 i s is t" if "excl_run s is t" "3 \<le> count_list is i" for "is" t
    using run_unlocks [OF that(1) assms(1) h order_trans [OF steps_to_unlock_le that(2)]]
      order_trans [OF _ steps_to_unlock_le]
    unfolding unlocks_within_def by blast
  then show ?thesis using h holder_can_step [OF h] unfolding unlocks_within_def by blast
qed

theorem bucket_is_unlocked_witness:
  "locked (word (swapping 7)) \<and> (\<exists>i. holding (at (swapping 7) i) \<and> (\<exists>t. cpu_step i (swapping 7) t))"
proof -
  have "locked (word (swapping 7))" by (simp add: swapping_def locked_def)
  then show ?thesis using bucket_is_unlocked [OF swapping_reachable] by blast
qed

end
