(* ===== verification/Outcomes.thy ===== *)
theory Outcomes
  imports DecoderWf MemAccess
begin

text \<open>
  Reasoning about a handler through the way it can end: what holds of the machine when it is
  done, when it throws, when it spins. Each call into the memory or the monitor has one rule,
  collected in \<open>outcome_rules\<close>; the properties of the dispatch are instances.
\<close>

named_theorems outcome_rules \<open>how a call passes an outcome predicate on\<close>

fun sat :: "(machine \<Rightarrow> bool) \<Rightarrow> (fault \<Rightarrow> machine \<Rightarrow> bool) \<Rightarrow> (machine \<Rightarrow> bool) \<Rightarrow> outcome \<Rightarrow> bool" where
  "sat D T S (Done s) = D s"
| "sat D T S (Throw e s) = T e s"
| "sat D T S (Spin s) = S s"

lemma sat_with_read [outcome_rules]:
  assumes "\<And>e m. T e (s\<lparr>m_mem := m\<rparr>)" "\<And>v m. sat D T S (k v (s\<lparr>m_mem := m\<rparr>))"
  shows "sat D T S (with_read addr n s k)"
  using assms by (simp add: with_read_def split: prod.split sum.split)

lemma sat_with_read_16 [outcome_rules]:
  assumes "\<And>e m. T e (s\<lparr>m_mem := m\<rparr>)" "\<And>v w m. sat D T S (k v w (s\<lparr>m_mem := m\<rparr>))"
  shows "sat D T S (with_read_16 addr s k)"
  using assms by (simp add: with_read_16_def split: prod.split sum.split)

lemma sat_with_write [outcome_rules]:
  assumes "\<And>e m. T e (s\<lparr>m_mem := m\<rparr>)" "\<And>m. sat D T S (k (s\<lparr>m_mem := m\<rparr>))"
  shows "sat D T S (with_write addr bs s k)"
  using assms by (simp add: with_write_def split: prod.split option.split)

lemma sat_with_cas [outcome_rules]:
  assumes "\<And>e m. T e (s\<lparr>m_mem := m\<rparr>)" "\<And>b v m. sat D T S (k b v (s\<lparr>m_mem := m\<rparr>))"
  shows "sat D T S (with_cas addr x y n s k)"
  using assms by (simp add: with_cas_def split: prod.split sum.split)

lemma sat_with_cas_16 [outcome_rules]:
  assumes "\<And>e m. T e (s\<lparr>m_mem := m\<rparr>)" "\<And>b v w m. sat D T S (k b v w (s\<lparr>m_mem := m\<rparr>))"
  shows "sat D T S (with_cas_16 addr a b c d s k)"
  using assms by (simp add: with_cas_16_def split: prod.split sum.split)

lemma sat_if [outcome_rules]:
  "(c \<Longrightarrow> sat D T S r) \<Longrightarrow> (\<not> c \<Longrightarrow> sat D T S q) \<Longrightarrow> sat D T S (if c then r else q)"
  by simp

lemma sat_map_outcome: "sat D T S (map_outcome f r) =
    sat (\<lambda>s. D (f s)) (\<lambda>e s. T e (f s)) (\<lambda>s. S (f s)) r"
  by (cases r) simp_all

lemma sat_mono:
  "sat D T S r \<Longrightarrow> (\<And>s. D s \<Longrightarrow> D' s) \<Longrightarrow> (\<And>e s. T e s \<Longrightarrow> T' e s) \<Longrightarrow> (\<And>s. S s \<Longrightarrow> S' s) \<Longrightarrow>
   sat D' T' S' r"
  by (cases r) auto

section \<open>Faults of loads, stores and atomics\<close>

text \<open>
  A state that differs from \<open>s\<close> in nothing but its memory. A fault in the middle of a pair has
  written the first half, as the architecture allows.
\<close>

definition only_memory :: "machine \<Rightarrow> machine \<Rightarrow> bool" where
  "only_memory s t \<longleftrightarrow> t = s\<lparr>m_mem := m_mem t\<rparr>"

lemma only_memory_intros [simp]:
  "only_memory s s" "only_memory s t \<Longrightarrow> only_memory s (t\<lparr>m_mem := m\<rparr>)"
  by (cases s; cases t; simp add: only_memory_def)+

text \<open>\<open>ends s Q r\<close>: a fault leaves all but the memory as it was in \<open>s\<close>, and a spin satisfies \<open>Q\<close>.\<close>

abbreviation ends :: "machine \<Rightarrow> (machine \<Rightarrow> bool) \<Rightarrow> outcome \<Rightarrow> bool" where
  "ends s \<equiv> sat (\<lambda>_. True) (\<lambda>_. only_memory s)"

lemma ends_pair_writeback [outcome_rules]: "ends s Q (pair_writeback d base t)"
  by (simp add: pair_writeback_def)

lemma ends_Done [outcome_rules]: "ends s Q (Done t)"
  by simp

lemma ends_ldp_stp: "ends s Q (exec_ldp_stp d s)"
  unfolding exec_ldp_stp_def Let_def by (intro outcome_rules only_memory_intros)

lemma ends_transfer [outcome_rules]:
  assumes "only_memory s t" "\<And>u. ends s Q (k u)"
  shows "ends s Q (transfer d addr t k)"
  unfolding transfer_def vec_load_def vec_store_def gpr_load_def gpr_store_def Let_def
  by (intro outcome_rules assms only_memory_intros)

lemma ends_single: "ends s Q (exec_ldr_imm d s)" "ends s Q (exec_ldr_uns d s)" "ends s Q (exec_ldr_reg d s)"
  unfolding exec_ldr_imm_def exec_ldr_uns_def exec_ldr_reg_def Let_def
  by (intro outcome_rules only_memory_intros)+

lemma ends_casp: "ends s Q (exec_casp d s)"
  unfolding exec_casp_def Let_def by (intro outcome_rules only_memory_intros)

text \<open>A bucket that is taken and released without a bump is as it was.\<close>

lemma relock: "\<not> locked w \<Longrightarrow> unlock False (w OR 1) = w"
proof -
  assume "\<not> locked w"
  then have "w AND 1 = 0" by (simp add: locked_def)
  then have "w AND NOT 1 = w" using and_not_subset [of w "NOT 1"] by simp
  then show ?thesis by (simp add: unlock_def bit.conj_disj_distrib2)
qed

lemma ends_hold:
  assumes "\<And>t r b. body t = (r, b) \<Longrightarrow>
    sat (\<lambda>_. True) (\<lambda>_ u. only_memory t u \<and> \<not> b) (\<lambda>_. False) r"
  shows "ends s (\<lambda>t. t = s \<and> locked (m_mon s (excl_index base))) (with_hold base s body)"
proof (cases "locked (m_mon s (excl_index base))")
  case True
  then show ?thesis by (simp add: with_hold_def try_lock_def)
next
  case False
  let ?b = "excl_index base" let ?t = "set_bucket ?b (m_mon s ?b OR 1) s"
  obtain r c where body: "body ?t = (r, c)" by (cases "body ?t")
  have restored: "only_memory s (set_bucket ?b (unlock False (m_mon u ?b)) u)" if "only_memory ?t u" for u
  proof -
    from that have "u = ?t\<lparr>m_mem := m_mem u\<rparr>" by (simp add: only_memory_def)
    then show ?thesis
      using relock [OF False] by (cases s; cases u) (auto simp: only_memory_def set_bucket_def fun_upd_idem_iff)
  qed
  show ?thesis
    using False assms [OF body] body restored
    by (cases r) (simp_all add: with_hold_def try_lock_def Let_def)
qed


section \<open>The retry loop of the LSE atomics\<close>

text \<open>The access check touches neither the bytes nor the address mode.\<close>

lemma check_page_bytes: "check_page x access p m = (r, m') \<Longrightarrow>
    mem_bytes m' = mem_bytes m \<and> data_address m' = data_address m"
  using check_page_flags [of x access p m r m'] by (auto simp: data_address_def fun_eq_iff)

lemma check_pages_bytes: "check_pages x access ps m = (r, m') \<Longrightarrow>
    mem_bytes m' = mem_bytes m \<and> data_address m' = data_address m"
proof (induction ps arbitrary: m)
  case (Cons p ps)
  obtain r1 m1 where c: "check_page x access p m = (r1, m1)" by (metis prod.exhaust)
  show ?case using Cons.IH [of m1] Cons.prems c check_page_bytes [OF c] by (cases r1) auto
qed simp

lemma check_access_bytes: "check_access a sz access m = (r, m') \<Longrightarrow>
    mem_bytes m' = mem_bytes m \<and> data_address m' = data_address m"
  unfolding check_access_window_iff by (auto split: if_splits dest: check_pages_bytes)

lemma take_bit_le_word: "n \<le> 8 \<Longrightarrow> take_bit (8 * n) (le_word (load_bytes m a n)) = le_word (load_bytes m a n)"
  by (rule bit_word_eqI) (auto simp: bit_take_bit_iff bit_le_word load_bytes_def)

lemma byte_mask_and:
  "n = 1 \<or> n = 2 \<or> n = 4 \<or> n = 8 \<Longrightarrow> x AND byte_mask n = take_bit (8 * n) x"
proof (elim disjE)
  assume "n = 8"
  then show ?thesis by (simp add: byte_mask_def take_bit_word_eq_self)
qed (simp_all add: byte_mask_def take_bit_eq_mask mask_eq_exp_minus_1)

lemma compare_exchange_after_read:
  assumes "mem_read addr n m = (Inr a, m')"
    and "compare_exchange addr (a AND byte_mask n) v n m' = (Inr (stored, old), m'')"
  shows "stored"
proof -
  let ?x = "data_address m addr"
  have n: "n = 1 \<or> n = 2 \<or> n = 4 \<or> n = 8"
    using assms(2) by (auto simp: compare_exchange_def Let_def split: prod.splits option.splits if_splits)
  obtain r1 m1 where c1: "check_access ?x (of_nat n) 1 m = (r1, m1)" by (metis prod.exhaust)
  then have a: "a = le_word (load_bytes m1 ?x n)" "m' = m1"
    using assms(1) n by (auto simp: mem_read_def read_access_def Let_def split: option.splits)
  note b1 = check_access_bytes [OF c1]
  have x: "data_address m' addr = ?x" using b1 a(2) by simp
  obtain r2 m2 where c2: "check_access ?x (of_nat n) 3 m' = (r2, m2)" by (metis prod.exhaust)
  note b2 = check_access_bytes [OF c2]
  have eq: "load_bytes m2 ?x n = load_bytes m1 ?x n" using b2 a(2) by (simp add: load_bytes_def)
  have "take_bit (8 * n) (a AND byte_mask n) = le_word (load_bytes m2 ?x n)"
  proof -
    have "n \<le> 8" using n by auto
    then show ?thesis unfolding byte_mask_and [OF n] eq a(1) by (simp add: take_bit_le_word)
  qed
  then show ?thesis
    using assms(2) c2 n by (auto simp: compare_exchange_def x Let_def split: option.splits if_splits)
qed

text \<open>So the first compare-and-exchange ends the loop, and any fuel above zero gives the same.\<close>

lemma lse_loop_once:
  assumes "mem_read base n m = (Inr a, m')"
  shows "lse_loop (Suc fuel) d base n b (a AND byte_mask n) (s\<lparr>m_mem := m'\<rparr>) =
    with_cas base (a AND byte_mask n) (lse_value (d_atom_op d) n (a AND byte_mask n) b) n
      (s\<lparr>m_mem := m'\<rparr>) (\<lambda>_ _ s. Done (upd_cpu (wreg (d_rt d) (a AND byte_mask n)) s))"
  using compare_exchange_after_read [OF assms]
  by (auto simp: with_cas_def split: prod.split sum.split)

lemma exec_lse_once:
  "exec_lse (Suc fuel) d s =
     (let n = 2 ^ unat (d_size d); cpu = m_cpu s; base = base_reg (d_rn d) cpu; m = byte_mask n
      in if d_atom_op d \<ge> 0xC then
           with_cas base (regs cpu (d_rs d) AND m) (regs cpu (d_rt d) AND m) n s
             (\<lambda>stored old s. Done (upd_cpu (wreg (d_rs d) old) s))
         else
           with_read base n s (\<lambda>a s.
             with_cas base (a AND m) (lse_value (d_atom_op d) n (a AND m) (regs cpu (d_rs d) AND m)) n s
               (\<lambda>_ _ s. Done (upd_cpu (wreg (d_rt d) (a AND m)) s))))"
  unfolding exec_lse_def Let_def with_read_def
  by (auto simp: lse_loop_once split: prod.split sum.split simp del: lse_loop.simps)

lemma ends_lse: "0 < fuel \<Longrightarrow> ends s Q (exec_lse fuel d s)"
proof (cases fuel)
  case (Suc n)
  show ?thesis unfolding Suc exec_lse_once Let_def by (intro outcome_rules only_memory_intros)
qed simp

section \<open>Exclusives\<close>

lemma ends_excl: "ends s (\<lambda>t. t = s \<and> locked (m_mon s (excl_index (base_reg (d_rn d) (m_cpu s)))))
    (exec_excl d s)"
proof (cases "d_is_load d")
  case True
  then have "\<not> \<not> d_is_load d" by simp
  show ?thesis unfolding exec_excl_def Let_def if_not_P [OF \<open>\<not> \<not> d_is_load d\<close>]
    by (intro outcome_rules only_memory_intros)
next
  case False
  then show ?thesis unfolding exec_excl_def Let_def if_P [OF False]
    by (intro ends_hold) (auto split: if_splits prod.splits sum.splits option.splits)
qed

lemma ends_ldxp_stxp:
  "ends s (\<lambda>t. t = s \<and> locked (m_mon s (excl_index (base_reg (d_rn d) (m_cpu s))))) (exec_ldxp_stxp d s)"
proof (cases "d_is_load d")
  case True
  then show ?thesis unfolding exec_ldxp_stxp_def Let_def if_P [OF True]
    by (intro outcome_rules only_memory_intros)
next
  case False
  then show ?thesis unfolding exec_ldxp_stxp_def Let_def if_not_P [OF False]
    by (intro ends_hold) (auto split: if_splits prod.splits sum.splits option.splits)
qed


section \<open>Structure loads and stores\<close>

text \<open>
  A state that differs from \<open>s\<close> in its memory and, for a load, in the vector registers the
  instruction \<open>d\<close> names.
\<close>

definition only_vectors :: "DecodedInst \<Rightarrow> machine \<Rightarrow> machine \<Rightarrow> bool" where
  "only_vectors d s t \<longleftrightarrow>
     (\<exists>m lo hi. t = s\<lparr>m_mem := m, m_cpu := (m_cpu s)\<lparr>v_lo := lo, v_hi := hi\<rparr>\<rparr> \<and>
       (\<forall>r. \<not> d_is_load d \<or> (\<forall>i < unat (d_simd_count d). r \<noteq> v_index d i) \<longrightarrow>
         lo r = v_lo (m_cpu s) r \<and> hi r = v_hi (m_cpu s) r))"

lemma only_vectors_refl: "only_vectors d s s"
  unfolding only_vectors_def
  by (rule exI [of _ "m_mem s"], rule exI [of _ "v_lo (m_cpu s)"], rule exI [of _ "v_hi (m_cpu s)"]) simp

lemma only_vectors_mem: "only_vectors d s t \<Longrightarrow> only_vectors d s (t\<lparr>m_mem := m\<rparr>)"
  unfolding only_vectors_def by (elim exE conjE, hypsubst, rule exI [of _ m], intro exI conjI) simp_all

lemmas only_vectors_intros = only_vectors_refl only_vectors_mem

lemma only_vectors_set:
  assumes "only_vectors d s t" "d_is_load d" "i < unat (d_simd_count d)"
  shows "only_vectors d s (upd_cpu (set_v (v_index d i) lo hi) t)"
    and "only_vectors d s (upd_cpu (\<lambda>c. set_v_pair (v_index d i) (f c) c) t)"
proof -
  obtain m l h where t: "t = s\<lparr>m_mem := m, m_cpu := (m_cpu s)\<lparr>v_lo := l, v_hi := h\<rparr>\<rparr>"
    and f: "\<forall>r. (\<forall>i < unat (d_simd_count d). r \<noteq> v_index d i) \<longrightarrow> l r = v_lo (m_cpu s) r \<and> h r = v_hi (m_cpu s) r"
    using assms(1,2) unfolding only_vectors_def by blast
  show "only_vectors d s (upd_cpu (set_v (v_index d i) x y) t)" for x y
    unfolding only_vectors_def t using f assms(2,3)
    by (intro exI [of _ m] exI [of _ "l(v_index d i := x)"] exI [of _ "h(v_index d i := y)"])
      (auto simp: upd_cpu_def set_v_def)
  then show "only_vectors d s (upd_cpu (\<lambda>c. set_v_pair (v_index d i) (f c) c) t)"
    by (simp add: upd_cpu_def set_v_pair_def)
qed

lemma only_vectors_exact:
  assumes "only_vectors d s t"
  shows "t = s\<lparr>m_mem := m_mem t, m_cpu := (m_cpu s)\<lparr>v_lo := v_lo (m_cpu t), v_hi := v_hi (m_cpu t)\<rparr>\<rparr> \<and>
    (\<forall>r. \<not> d_is_load d \<or> (\<forall>i < unat (d_simd_count d). r \<noteq> v_index d i) \<longrightarrow>
      v_lo (m_cpu t) r = v_lo (m_cpu s) r \<and> v_hi (m_cpu t) r = v_hi (m_cpu s) r)"
  using assms unfolding only_vectors_def by (elim exE conjE, hypsubst) simp

abbreviation vector_ends :: "DecodedInst \<Rightarrow> machine \<Rightarrow> outcome \<Rightarrow> bool" where
  "vector_ends d s \<equiv> sat (\<lambda>_. True) (\<lambda>_. only_vectors d s) (\<lambda>_. False)"

lemma ends_ld1r_loop:
  assumes "\<And>u. vector_ends d s (k u)" "only_vectors d s t" "d_is_load d" "\<forall>i \<in> set is. i < unat (d_simd_count d)"
  shows "vector_ends d s (ld1r_loop d esize base is t k)"
  using assms(2,4)
proof (induction "is" arbitrary: t)
  case (Cons i "is")
  then show ?case
    unfolding ld1r_loop.simps Let_def
    by (intro outcome_rules only_vectors_intros Cons.IH only_vectors_set(1) assms(3)) simp_all
qed (simp add: assms(1))

lemma ends_lane_loop:
  assumes "\<And>u. vector_ends d s (k u)" "only_vectors d s t" "\<forall>i \<in> set is. i < unat (d_simd_count d)"
  shows "vector_ends d s (lane_loop d idx esize base is t k)"
  using assms(2,3)
proof (induction "is" arbitrary: t)
  case (Cons i "is")
  then show ?case
    unfolding lane_loop.simps Let_def
    by (intro outcome_rules only_vectors_intros Cons.IH only_vectors_set(2)) simp_all
qed (simp add: assms(1))

lemma ends_ld_elems:
  assumes "\<And>buf u. only_vectors d s u \<Longrightarrow> vector_ends d s (k buf u)" "only_vectors d s t"
  shows "vector_ends d s (ld_elems d esize base i es buf t k)"
  using assms(2)
proof (induction es arbitrary: t buf)
  case (Cons e es)
  then show ?case
    unfolding ld_elems.simps by (intro outcome_rules only_vectors_intros Cons.IH)
qed (simp add: assms(1))

lemma ends_st_elems:
  assumes "\<And>u. only_vectors d s u \<Longrightarrow> vector_ends d s (k u)" "only_vectors d s t"
  shows "vector_ends d s (st_elems d esize base i es buf t k)"
  using assms(2)
proof (induction es arbitrary: t)
  case (Cons e es)
  then show ?case
    unfolding st_elems.simps by (intro outcome_rules only_vectors_intros Cons.IH)
qed (simp add: assms(1))

lemma ends_struct_loop:
  assumes "\<And>u. vector_ends d s (k u)" "only_vectors d s t" "\<forall>i \<in> set is. i < unat (d_simd_count d)"
  shows "vector_ends d s (struct_loop d base is t k)"
  using assms(2,3)
proof (induction "is" arbitrary: t)
  case (Cons i "is")
  then show ?case
    unfolding struct_loop.simps Let_def
    by (intro outcome_rules ends_ld_elems ends_st_elems Cons.IH only_vectors_set(1)) simp_all
qed (simp add: assms(1))

lemma ends_simd_ldst: "vector_ends d s (exec_simd_ldst d s)"
proof -
  have w: "vector_ends d s (simd_writeback d base n u)" for base n u by (simp add: simd_writeback_def)
  show ?thesis
    unfolding exec_simd_ldst_def exec_ld1r_def exec_lane_def exec_struct_def Let_def case_prod_beta
    by (intro outcome_rules ends_ld1r_loop ends_lane_loop ends_struct_loop only_vectors_intros w) simp_all
qed

lemma ends_simd: "d_cls d = Simd c \<Longrightarrow> vector_ends d s (dispatch e d inst s)"
  by (simp add: dispatch_def Let_def ends_simd_ldst only_vectors_intros)

section \<open>Properties\<close>

lemma ends_dispatch:
  assumes "d_cls d = LdSt c \<or> d_cls d = Atomic c'"
  shows "ends s (\<lambda>t. t = s \<and> locked (m_mon s (excl_index (base_reg (d_rn d) (m_cpu s)))))
    (dispatch e d inst s)"
  using assms
proof (elim disjE)
  assume "d_cls d = LdSt c"
  then show ?thesis by (simp add: dispatch_def Let_def ends_ldp_stp ends_single)
next
  assume "d_cls d = Atomic c'"
  then show ?thesis by (simp add: dispatch_def Let_def ends_casp ends_lse lse_fuel_def ends_excl ends_ldxp_stxp)
qed

text \<open>
  C13. Faults are precise. A load, store, pair, exclusive or atomic of the general classes
  (\<open>LdSt\<close>, \<open>Atomic\<close>) that faults leaves everything but the memory as it was, the registers, the base
  register of a writeback, the exclusive tag, the flags, the next address and every monitor bucket
  included; and the only way not to end is to wait for the bucket of the address while another CPU
  holds it, with no effect so far. A structure load or store (\<open>Simd\<close>) that faults may have written
  the vector registers it names when it is a load, as LD1 to LD4 write one before they read the next,
  and changes nothing else of the machine but the memory.
\<close>

theorem memory_faults_precise:
  "(d_cls d = LdSt c \<or> d_cls d = Atomic c' \<longrightarrow>
      (case dispatch e d inst s of
         Done t \<Rightarrow> True
       | Throw f t \<Rightarrow> t = s\<lparr>m_mem := m_mem t\<rparr>
       | Spin t \<Rightarrow> t = s \<and> locked (m_mon s (excl_index (base_reg (d_rn d) (m_cpu s)))))) \<and>
   (d_cls d = Simd c'' \<longrightarrow>
      (case dispatch e d inst s of
         Done t \<Rightarrow> True
       | Throw f t \<Rightarrow>
           t = s\<lparr>m_mem := m_mem t, m_cpu := (m_cpu s)\<lparr>v_lo := v_lo (m_cpu t), v_hi := v_hi (m_cpu t)\<rparr>\<rparr> \<and>
           (\<forall>r. \<not> d_is_load d \<or> (\<forall>i < unat (d_simd_count d). r \<noteq> v_index d i) \<longrightarrow>
             v_lo (m_cpu t) r = v_lo (m_cpu s) r \<and> v_hi (m_cpu t) r = v_hi (m_cpu s) r)
       | Spin t \<Rightarrow> False))"
proof (intro conjI impI)
  assume "d_cls d = LdSt c \<or> d_cls d = Atomic c'"
  from ends_dispatch [OF this, of s e inst]
  show "case dispatch e d inst s of
         Done t \<Rightarrow> True
       | Throw f t \<Rightarrow> t = s\<lparr>m_mem := m_mem t\<rparr>
       | Spin t \<Rightarrow> t = s \<and> locked (m_mon s (excl_index (base_reg (d_rn d) (m_cpu s))))"
    by (cases "dispatch e d inst s") (simp_all add: only_memory_def)
next
  assume "d_cls d = Simd c''"
  note v = ends_simd [OF this, of s e inst]
  show "case dispatch e d inst s of
         Done t \<Rightarrow> True
       | Throw f t \<Rightarrow>
           t = s\<lparr>m_mem := m_mem t, m_cpu := (m_cpu s)\<lparr>v_lo := v_lo (m_cpu t), v_hi := v_hi (m_cpu t)\<rparr>\<rparr> \<and>
           (\<forall>r. \<not> d_is_load d \<or> (\<forall>i < unat (d_simd_count d). r \<noteq> v_index d i) \<longrightarrow>
             v_lo (m_cpu t) r = v_lo (m_cpu s) r \<and> v_hi (m_cpu t) r = v_hi (m_cpu s) r)
       | Spin t \<Rightarrow> False"
  proof (cases "dispatch e d inst s")
    case (Throw f t)
    then have "only_vectors d s t" using v by simp
    then show ?thesis unfolding Throw outcome.case by (rule only_vectors_exact)
  qed (use v in simp_all)
qed

theorem memory_faults_precise_witness:
  "\<exists>f t. dispatch idle_env (fst (decode DecodedInst_default 0xC85F7C20)) 0xC85F7C20 machine_init = Throw f t \<and>
     t = machine_init\<lparr>m_mem := m_mem t\<rparr>"
proof -
  let ?d = "fst (decode DecodedInst_default 0xC85F7C20)"
  have c: "d_cls ?d = Atomic IC_LDXR" and l: "d_is_load ?d" and b: "d_rn ?d = 1" and z: "d_size ?d = 3"
    by code_simp+
  have "pages 0 4103 = [0]" by code_simp
  then have m: "mem_read 0 8 (m_mem machine_init) =
      (Inl (UnmappedMemory 0 False False False), m_mem machine_init)"
    by (simp add: mem_read_def read_access_def check_access_def check_page_def machine_init_def Memory_init_def
        data_address_def mapping_prot_at_def before_ub_def)
  have "base_reg 1 (m_cpu machine_init) = 0" by (simp add: base_reg_def machine_init_def CPU_init_def)
  have "\<exists>f t. dispatch idle_env ?d 0xC85F7C20 machine_init = Throw f t"
    by (simp add: dispatch_def c exec_excl_def l b z m with_read_def \<open>base_reg 1 (m_cpu machine_init) = 0\<close>)
  then obtain f t where "dispatch idle_env ?d 0xC85F7C20 machine_init = Throw f t" by blast
  then show ?thesis
    using memory_faults_precise [where d = ?d and c' = IC_LDXR and e = idle_env and inst = "0xC85F7C20" and s = machine_init,
        THEN conjunct1] c
    by auto
qed

end
