(* ===== verification/LseProps.thy ===== *)
theory LseProps
  imports Outcomes
begin

text \<open>
  What an LSE atomic computes: the value stored is the operation of the architecture on operands
  of the access width, signed or unsigned, with wrap-around at that width.
\<close>

section \<open>Signed operands of a width\<close>

definition signed_at :: "nat \<Rightarrow> u64 \<Rightarrow> int" where
  "signed_at n x = signed_take_bit (8 * n - 1) (uint x)"

abbreviation access_width :: "nat \<Rightarrow> bool" where
  "access_width n \<equiv> n = 1 \<or> n = 2 \<or> n = 4 \<or> n = 8"

lemma bit_shifted: "k < 64 \<Longrightarrow> i < 64 \<Longrightarrow>
    bit (signed_drop_bit k (push_bit k x)) i = bit (x :: u64) (min i (63 - k))"
  by (auto simp: bit_signed_drop_bit_iff bit_push_bit_iff min_def)

lemma sint_shifted:
  assumes "access_width n"
  shows "sint (signed_drop_bit (64 - n * 8) (push_bit (64 - n * 8) x)) = signed_at n x"
proof (rule bit_eqI)
  fix i :: nat
  have n: "64 - n * 8 < 64" "63 - (64 - n * 8) = 8 * n - 1" "8 * n - 1 < 64" using assms by auto
  have "bit (sint (signed_drop_bit (64 - n * 8) (push_bit (64 - n * 8) x))) i =
      bit (signed_drop_bit (64 - n * 8) (push_bit (64 - n * 8) x)) (min i 63)"
    using bit_imp_le_length [of "signed_drop_bit (64 - n * 8) (push_bit (64 - n * 8) x)" i]
    by (auto simp: bit_sint_iff min_def)
  also have "\<dots> = bit x (min i (8 * n - 1))"
  proof -
    have "min (min i 63) (8 * n - 1) = min i (8 * n - 1)" using n(3) by simp
    then show ?thesis using bit_shifted [OF n(1), of "min i 63" x] unfolding n(2) by simp
  qed
  also have "\<dots> = bit (signed_at n x) i"
    using n(3) by (simp add: signed_at_def bit_signed_take_bit_iff bit_uint_iff min_def)
  finally show "bit (sint (signed_drop_bit (64 - n * 8) (push_bit (64 - n * 8) x))) i = bit (signed_at n x) i" .
qed

lemma take_shifted:
  assumes "access_width n"
  shows "take_bit (8 * n) (signed_drop_bit (64 - n * 8) (push_bit (64 - n * 8) x)) = take_bit (8 * n) (x :: u64)"
proof (rule bit_word_eqI)
  fix i assume "i < LENGTH(64)"
  moreover have "64 - n * 8 < 64" "63 - (64 - n * 8) = 8 * n - 1" using assms by auto
  ultimately show "bit (take_bit (8 * n) (signed_drop_bit (64 - n * 8) (push_bit (64 - n * 8) x))) i =
      bit (take_bit (8 * n) x) i"
    using bit_shifted [of "64 - n * 8" i x] by (auto simp: bit_take_bit_iff min_def)
qed

text \<open>
  C33. The value an LSE atomic stores, for operands of the access width: addition modulo the
  width, bit clear, exclusive or, set, the signed and unsigned maximum and minimum at that width,
  and swap.
\<close>

theorem lse_value_spec:
  assumes "access_width n" "take_bit (8 * n) a = a" "take_bit (8 * n) b = b"
  shows "uint (lse_value 0 n a b) = (uint a + uint b) mod 2 ^ (8 * n) \<and>
    lse_value 1 n a b = a AND NOT b \<and> lse_value 2 n a b = a XOR b \<and> lse_value 3 n a b = a OR b \<and>
    lse_value 4 n a b = (if signed_at n a > signed_at n b then a else b) \<and>
    lse_value 5 n a b = (if signed_at n a < signed_at n b then a else b) \<and>
    lse_value 6 n a b = max a b \<and> lse_value 7 n a b = min a b \<and> lse_value 8 n a b = b"
proof -
  note m = byte_mask_and [OF assms(1)]
  have le: "8 * n \<le> 64" using assms(1) by auto
  have "uint (take_bit (8 * n) (a + b)) = take_bit (8 * n) (uint (a + b))"
    by (rule unsigned_take_bit_eq)
  also have "\<dots> = take_bit (8 * n) (uint a + uint b)"
  proof -
    have "uint (a + b) = take_bit 64 (uint a + uint b)" by (simp add: uint_word_ariths take_bit_eq_mod)
    then show ?thesis using le by (simp add: take_bit_take_bit min_absorb1)
  qed
  finally have add: "uint (lse_value 0 n a b) = (uint a + uint b) mod 2 ^ (8 * n)"
    by (simp add: lse_value_def Let_def m take_bit_eq_mod)
  have sub: "take_bit (8 * n) (a AND c) = a AND c" for c
    using assms(2) unfolding take_bit_eq_mask by (metis and.assoc and.commute)
  have "lse_value 4 n a b = (if signed_at n a > signed_at n b then a else b)"
    "lse_value 5 n a b = (if signed_at n a < signed_at n b then a else b)"
    by (simp_all add: lse_value_def Let_def m sint_shifted [OF assms(1)] take_shifted [OF assms(1)]
        assms(2,3) if_distrib [of "take_bit (8 * n)"] del: if_split_asm)
  moreover have "lse_value 6 n a b = max a b" "lse_value 7 n a b = min a b"
    by (auto simp: lse_value_def Let_def m assms(2,3) max_def min_def)
  moreover have "lse_value 1 n a b = a AND NOT b" "lse_value 2 n a b = a XOR b"
    "lse_value 3 n a b = a OR b" "lse_value 8 n a b = b"
    by (simp_all add: lse_value_def Let_def m sub [unfolded take_bit_and assms(2)] assms(2,3) take_bit_or take_bit_xor)
  ultimately show ?thesis using add by blast
qed

theorem lse_value_spec_witness: "lse_value 4 1 0x80 0x7F = 0x7F \<and> lse_value 6 1 0x80 0x7F = 0x80"
proof -
  have "signed_at 1 0x80 = - 128" "signed_at 1 0x7F = 127" by (simp_all add: signed_at_def)
  then show ?thesis using lse_value_spec [where n = 1 and a = "0x80" and b = "0x7F"] by simp
qed

end
