(* ===== verification/LseAtomic.thy ===== *)
theory LseAtomic
  imports LseProps
begin

text \<open>
  The LSE atomics of several CPUs on one location. The handler of \<open>Emulator::execute\<close> reads the old
  value and retries a compare-and-exchange with the value it last observed (\<open>Interpreter.cpp\<close>);
  between the two another CPU may write. \<open>lse_loop\<close> of \<open>InterpMem\<close> is this loop of one CPU with
  nobody else at work. Here the read and each compare-and-exchange is a step of its own, of any CPU,
  on one shared memory, and the operations that completed are logged.
\<close>

section \<open>Steps\<close>

text \<open>
  \<open>Loaded op b a k\<close> is a CPU in the loop: \<open>op\<close>, \<open>b\<close> and \<open>a\<close> are the handler's \<open>atom_op\<close>, \<open>b\<close> and \<open>a\<close>,
  and \<open>k\<close> (no part of the program) is how many operations had completed when it observed \<open>a\<close>.
\<close>

datatype lse_phase = Out | Loaded u8 u64 u64 nat

text \<open>
  What completed: an operation of the loop with its operand and the old value it returns, a \<open>CAS\<close>
  with the value expected, the value offered and the old value, or a plain store.
\<close>

datatype lse_event = Rmw u8 u64 u64 | Cas u64 u64 u64 | Plain u64

record lse_shared =
  sh_mem :: Memory
  sh_log :: "lse_event list"
  sh_at :: "nat \<Rightarrow> lse_phase"

definition to_phase :: "nat \<Rightarrow> lse_phase \<Rightarrow> lse_shared \<Rightarrow> lse_shared" where
  "to_phase i p s = s\<lparr>sh_at := (sh_at s)(i := p)\<rparr>"

definition completed :: "lse_event \<Rightarrow> lse_shared \<Rightarrow> lse_shared" where
  "completed e s = s\<lparr>sh_log := sh_log s @ [e]\<rparr>"

abbreviation exchange_now :: "u64 \<Rightarrow> nat \<Rightarrow> u8 \<Rightarrow> u64 \<Rightarrow> u64 \<Rightarrow> lse_shared \<Rightarrow> (fault + bool \<times> u64) \<times> Memory" where
  "exchange_now base n op b a s \<equiv> compare_exchange base a (lse_value op n a b) n (sh_mem s)"

text \<open>
  The steps of CPU \<open>i\<close>. \<open>read_old\<close>, \<open>exchange\<close> and \<open>retry\<close> are the loop, \<open>cas\<close> is the \<open>CAS\<close> family
  (\<open>atom_op\<close> from 0xC on), \<open>plain\<close> a store of the width to the location; the accesses may fault.
  \<open>elsewhere\<close> is anything else that leaves the bytes of the location as they are.
\<close>

inductive lse_step :: "u64 \<Rightarrow> nat \<Rightarrow> lse_shared \<Rightarrow> lse_shared \<Rightarrow> bool" for base n where
  read_old: "sh_at s i = Out \<Longrightarrow> op < 0xC \<Longrightarrow> mem_read base n (sh_mem s) = (Inr a, m) \<Longrightarrow>
    lse_step base n s
      (to_phase i (Loaded op (b AND byte_mask n) (a AND byte_mask n) (length (sh_log s))) (s\<lparr>sh_mem := m\<rparr>))"
| read_fault: "sh_at s i = Out \<Longrightarrow> mem_read base n (sh_mem s) = (Inl f, m) \<Longrightarrow>
    lse_step base n s (s\<lparr>sh_mem := m\<rparr>)"
| exchange: "sh_at s i = Loaded op b a k \<Longrightarrow> exchange_now base n op b a s = (Inr (True, observed), m) \<Longrightarrow>
    lse_step base n s (to_phase i Out (completed (Rmw op b a) (s\<lparr>sh_mem := m\<rparr>)))"
| retry: "sh_at s i = Loaded op b a k \<Longrightarrow> exchange_now base n op b a s = (Inr (False, observed), m) \<Longrightarrow>
    lse_step base n s (to_phase i (Loaded op b observed (length (sh_log s))) (s\<lparr>sh_mem := m\<rparr>))"
| exchange_fault: "sh_at s i = Loaded op b a k \<Longrightarrow> exchange_now base n op b a s = (Inl f, m) \<Longrightarrow>
    lse_step base n s (to_phase i Out (s\<lparr>sh_mem := m\<rparr>))"
| cas: "sh_at s i = Out \<Longrightarrow>
    compare_exchange base (c AND byte_mask n) (v AND byte_mask n) n (sh_mem s) = (Inr (stored, old), m) \<Longrightarrow>
    lse_step base n s (completed (Cas (c AND byte_mask n) (v AND byte_mask n) old) (s\<lparr>sh_mem := m\<rparr>))"
| cas_fault: "sh_at s i = Out \<Longrightarrow>
    compare_exchange base (c AND byte_mask n) (v AND byte_mask n) n (sh_mem s) = (Inl f, m) \<Longrightarrow>
    lse_step base n s (s\<lparr>sh_mem := m\<rparr>)"
| plain: "sh_at s i = Out \<Longrightarrow> mem_write base (le_bytes n v) (sh_mem s) = (None, m) \<Longrightarrow>
    lse_step base n s (completed (Plain v) (s\<lparr>sh_mem := m\<rparr>))"
| elsewhere: "data_address m base = data_address (sh_mem s) base \<Longrightarrow>
    load_bytes m (data_address m base) n = load_bytes (sh_mem s) (data_address m base) n \<Longrightarrow>
    lse_step base n s (s\<lparr>sh_mem := m\<rparr>)"

inductive lse_run :: "u64 \<Rightarrow> nat \<Rightarrow> Memory \<Rightarrow> lse_shared \<Rightarrow> bool" for base n m where
  start: "lse_run base n m \<lparr>sh_mem = m, sh_log = [], sh_at = (\<lambda>_. Out)\<rparr>"
| step: "lse_run base n m s \<Longrightarrow> lse_step base n s t \<Longrightarrow> lse_run base n m t"

section \<open>What the operations did, one after the other\<close>

definition located :: "u64 \<Rightarrow> nat \<Rightarrow> Memory \<Rightarrow> u64" where
  "located base n m = le_word (load_bytes m (data_address m base) n)"

text \<open>
  The value the events leave at the location when each takes effect at once, or None when one of
  them returned something other than the value it met.
\<close>

fun replay :: "nat \<Rightarrow> u64 \<Rightarrow> lse_event list \<Rightarrow> u64 option" where
  "replay n v [] = Some v"
| "replay n v (Rmw op b a # es) = (if a = v then replay n (take_bit (8 * n) (lse_value op n v b)) es else None)"
| "replay n v (Cas c x old # es) =
     (if old = v then replay n (if v = c then x else v) es else None)"
| "replay n v (Plain x # es) = replay n (take_bit (8 * n) x) es"

lemma replay_append [simp]:
  "replay n v (es @ fs) = (case replay n v es of None \<Rightarrow> None | Some w \<Rightarrow> replay n w fs)"
  by (induction n v es rule: replay.induct) simp_all

section \<open>One access\<close>

lemma le_bytes_length [simp]: "length (le_bytes n v) = n"
  by (simp add: le_bytes_def)

lemma located_le: "n \<le> 8 \<Longrightarrow> take_bit (8 * n) (located base n m) = located base n m"
  by (simp add: located_def take_bit_le_word)

lemma located_checked:
  "check_access a sz access m = (r, m') \<Longrightarrow> located base n m' = located base n m"
  by (drule check_access_bytes) (simp add: located_def load_bytes_def)

lemma located_store:
  assumes "n \<le> 8"
  shows "located base n (store_bytes (data_address m base) (le_bytes n v) m) = take_bit (8 * n) v"
proof -
  have "data_address (store_bytes (data_address m base) (le_bytes n v) m) base = data_address m base"
    by (simp add: data_address_def store_bytes_def)
  then show ?thesis using load_store_same [where bs = "le_bytes n v" and n = n and a = "data_address m base" and m = m] assms
    by (simp add: located_def le_bytes_length le_word_bytes)
qed

lemma read_located:
  assumes "access_width n" "mem_read base n m = (r, m')"
  shows "located base n m' = located base n m" "r = Inr a \<Longrightarrow> a = located base n m"
proof -
  obtain c m1 where c: "check_access (data_address m base) (of_nat n) 1 m = (c, m1)" by (metis prod.exhaust)
  note b = check_access_bytes [OF c]
  have "m' = m1" "r = Inr a \<Longrightarrow> a = le_word (load_bytes m1 (data_address m base) n)"
    using assms c by (auto simp: mem_read_def read_access_def Let_def split: option.splits)
  then show "located base n m' = located base n m" "r = Inr a \<Longrightarrow> a = located base n m"
    using located_checked [OF c] b by (simp_all add: located_def load_bytes_def)
qed

lemma write_located:
  assumes "access_width n" "mem_write base (le_bytes n v) m = (None, m')"
  shows "located base n m' = take_bit (8 * n) v"
proof -
  obtain c m1 where c: "check_access (data_address m base) (of_nat n) 2 m = (c, m1)" by (metis prod.exhaust)
  note b = check_access_bytes [OF c]
  have l: "length (le_bytes n v) = n" "n \<noteq> 0" "n \<le> 8" using assms(1) by (auto simp: le_bytes_def)
  have "m' = store_bytes (data_address m1 base) (le_bytes n v) m1"
    using assms(2) c l b by (auto simp: mem_write_def Let_def split: option.splits)
  then show ?thesis using located_store [OF l(3)] by simp
qed

lemma exchange_located:
  assumes "access_width n" "compare_exchange base x v n m = (r, m')"
  shows "r = Inl f \<Longrightarrow> located base n m' = located base n m"
    and "r = Inr (stored, old) \<Longrightarrow> old = located base n m \<and> (stored \<longleftrightarrow> old = take_bit (8 * n) x) \<and>
      located base n m' = (if stored then take_bit (8 * n) v else old)"
proof -
  obtain c m1 where c: "check_access (data_address m base) (of_nat n) 3 m = (c, m1)" by (metis prod.exhaust)
  note b = check_access_bytes [OF c] and l = located_checked [OF c]
  have n: "n \<le> 8" "\<not> (n \<noteq> 1 \<and> n \<noteq> 2 \<and> n \<noteq> 4 \<and> n \<noteq> 8)" using assms(1) by auto
  have e: "compare_exchange base x v n m =
      (case c of Some e \<Rightarrow> (Inl e, m1)
       | None \<Rightarrow> if located base n m1 = take_bit (8 * n) x
           then (Inr (True, located base n m1), store_bytes (data_address m1 base) (le_bytes n v) m1)
           else (Inr (False, located base n m1), m1))"
    using n(2) b unfolding compare_exchange_def Let_def located_def by (simp add: c split: option.split)
  show "r = Inl f \<Longrightarrow> located base n m' = located base n m"
    using assms(2) l unfolding e by (auto split: option.splits if_splits)
  show "r = Inr (stored, old) \<Longrightarrow> old = located base n m \<and> (stored \<longleftrightarrow> old = take_bit (8 * n) x) \<and>
      located base n m' = (if stored then take_bit (8 * n) v else old)"
    using assms(2) l located_store [OF n(1), of base m1 v] unfolding e by (auto split: option.splits if_splits)
qed


section \<open>The invariant\<close>

text \<open>
  The log replays to the value in memory, and what a CPU in the loop expects is the value that was
  there after the first \<open>k\<close> of the operations.
\<close>

definition lse_inv :: "u64 \<Rightarrow> nat \<Rightarrow> u64 \<Rightarrow> lse_shared \<Rightarrow> bool" where
  "lse_inv base n v s \<longleftrightarrow> replay n v (sh_log s) = Some (located base n (sh_mem s)) \<and>
     (\<forall>i op b a k. sh_at s i = Loaded op b a k \<longrightarrow>
        k \<le> length (sh_log s) \<and> take_bit (8 * n) a = a \<and> replay n v (take k (sh_log s)) = Some a)"

lemma lse_inv_elsewhere: "lse_inv base n v s \<Longrightarrow> located base n m = located base n (sh_mem s) \<Longrightarrow>
    lse_inv base n v (s\<lparr>sh_mem := m\<rparr>)"
  by (simp add: lse_inv_def)

lemma lse_inv_out: "lse_inv base n v s \<Longrightarrow> lse_inv base n v (to_phase i Out s)"
  by (simp add: lse_inv_def to_phase_def)

lemma lse_inv_loaded:
  assumes "lse_inv base n v s" "n \<le> 8" "located base n m = located base n (sh_mem s)" "a = located base n m"
  shows "lse_inv base n v (to_phase i (Loaded op b a (length (sh_log s))) (s\<lparr>sh_mem := m\<rparr>))"
  using assms located_le [OF assms(2), of base "sh_mem s"] by (auto simp: lse_inv_def to_phase_def)

lemma lse_inv_completed:
  assumes "lse_inv base n v s" "replay n (located base n (sh_mem s)) [e] = Some (located base n m)"
  shows "lse_inv base n v (completed e (s\<lparr>sh_mem := m\<rparr>))"
  using assms unfolding lse_inv_def completed_def
  by (auto simp del: replay.simps intro: le_trans [OF _ le_SucI [OF order_refl]])

lemma lse_inv_step:
  assumes "lse_inv base n v s" "lse_step base n s t" "access_width n"
  shows "lse_inv base n v t"
  using assms(2)
proof cases
  case (read_old i op a m b)
  have n: "n \<le> 8" using assms(3) by auto
  note r = read_located [OF assms(3) read_old(4)]
  have "a AND byte_mask n = located base n m"
    using r(1) r(2) [of a] located_le [OF n, of base m] by (simp add: byte_mask_and [OF assms(3)])
  then show ?thesis using read_old(1) lse_inv_loaded [OF assms(1) n r(1)] by simp
next
  case (read_fault i f m)
  then show ?thesis using lse_inv_elsewhere [OF assms(1)] read_located(1) [OF assms(3)] by blast
next
  case (exchange i op b a k observed m)
  note r = exchange_located(2) [OF assms(3) exchange(3) refl]
  have "take_bit (8 * n) a = a" using assms(1) exchange(2) by (simp add: lse_inv_def)
  then have "replay n (located base n (sh_mem s)) [Rmw op b a] = Some (located base n m)" using r by auto
  then show ?thesis unfolding exchange(1) by (intro lse_inv_out lse_inv_completed assms(1))
next
  case (retry i op b a k observed m)
  have n: "n \<le> 8" using assms(3) by auto
  note r = exchange_located(2) [OF assms(3) retry(3) refl]
  then show ?thesis using retry(1) lse_inv_loaded [OF assms(1) n] by simp
next
  case (exchange_fault i op b a k f m)
  then show ?thesis
    using lse_inv_out [OF lse_inv_elsewhere [OF assms(1)]] exchange_located(1) [OF assms(3) exchange_fault(3) refl] by simp
next
  case (cas i c w stored old m)
  note r = exchange_located(2) [OF assms(3) cas(3) refl]
  show ?thesis unfolding cas(1)
    by (rule lse_inv_completed [OF assms(1)]) (use r in \<open>auto simp: byte_mask_and [OF assms(3)]\<close>)
next
  case (cas_fault i c w f m)
  then show ?thesis using lse_inv_elsewhere [OF assms(1)] exchange_located(1) [OF assms(3) cas_fault(3) refl] by simp
next
  case (plain i w m)
  show ?thesis unfolding plain(1)
    by (rule lse_inv_completed [OF assms(1)]) (simp add: write_located [OF assms(3) plain(3)])
next
  case (elsewhere m)
  then show ?thesis using lse_inv_elsewhere [OF assms(1)] by (simp add: located_def)
qed

lemma lse_inv_run:
  assumes "access_width n"
  shows "lse_run base n m s \<Longrightarrow> lse_inv base n (located base n m) s"
proof (induction rule: lse_run.induct)
  case start
  show ?case by (simp add: lse_inv_def)
next
  case (step s t)
  then show ?case using lse_inv_step assms by blast
qed

section \<open>The handler is a run of these steps\<close>

text \<open>
  \<open>exec_lse\<close>, when it completes with nobody else at work, is steps of this relation: the destination
  gets the value its event returned.
\<close>

lemma exec_lse_steps:
  assumes "exec_lse (Suc fuel) d s = Done t" "sh_mem x = m_mem s" "sh_at x i = Out"
  defines "n \<equiv> 2 ^ unat (d_size d)" and "base \<equiv> base_reg (d_rn d) (m_cpu s)"
  shows "\<exists>e y. (lse_step base n)\<^sup>*\<^sup>* x y \<and> sh_mem y = m_mem t \<and> sh_log y = sh_log x @ [e] \<and> sh_at y = sh_at x \<and>
    (case e of
       Rmw op b a \<Rightarrow> op = d_atom_op d \<and> op < 0xC \<and> m_cpu t = wreg (d_rt d) a (m_cpu s)
     | Cas c v old \<Rightarrow> 0xC \<le> d_atom_op d \<and> m_cpu t = wreg (d_rs d) old (m_cpu s)
     | Plain v \<Rightarrow> False)"
proof (cases "0xC \<le> d_atom_op d")
  case True
  obtain stored old m where c: "compare_exchange base (regs (m_cpu s) (d_rs d) AND byte_mask n)
      (regs (m_cpu s) (d_rt d) AND byte_mask n) n (m_mem s) = (Inr (stored, old), m)"
    "t = upd_cpu (wreg (d_rs d) old) (s\<lparr>m_mem := m\<rparr>)"
    using assms(1) True unfolding exec_lse_once Let_def n_def [symmetric] base_def [symmetric]
    by (auto simp: with_cas_def split: prod.splits sum.splits)
  let ?e = "Cas (regs (m_cpu s) (d_rs d) AND byte_mask n) (regs (m_cpu s) (d_rt d) AND byte_mask n) old"
  have "lse_step base n x (completed ?e (x\<lparr>sh_mem := m\<rparr>))"
    by (rule lse_step.cas [where i = i]) (use c(1) assms(2,3) in auto)
  then show ?thesis using c(2) True
    by (intro exI [of _ ?e] exI [of _ "completed ?e (x\<lparr>sh_mem := m\<rparr>)"]) (auto simp: completed_def upd_cpu_def)
next
  case False
  let ?b = "regs (m_cpu s) (d_rs d) AND byte_mask n" and ?op = "d_atom_op d"
  obtain a m where r: "mem_read base n (m_mem s) = (Inr a, m)"
    using assms(1) False unfolding exec_lse_once Let_def n_def [symmetric] base_def [symmetric]
    by (auto simp: with_read_def split: prod.splits sum.splits)
  let ?a = "a AND byte_mask n"
  obtain stored old m' where c: "compare_exchange base ?a (lse_value ?op n ?a ?b) n m = (Inr (stored, old), m')"
    "t = upd_cpu (wreg (d_rt d) ?a) (s\<lparr>m_mem := m'\<rparr>)"
    using assms(1) False r unfolding exec_lse_once Let_def n_def [symmetric] base_def [symmetric]
    by (auto simp: with_read_def with_cas_def split: prod.splits sum.splits)
  have stored using compare_exchange_after_read [OF r c(1)] .
  let ?y = "to_phase i (Loaded ?op ?b ?a (length (sh_log x))) (x\<lparr>sh_mem := m\<rparr>)"
  let ?z = "to_phase i Out (completed (Rmw ?op ?b ?a) (?y\<lparr>sh_mem := m'\<rparr>))"
  have "lse_step base n x ?y" by (rule read_old) (use assms(2,3) r False in auto)
  moreover have "lse_step base n ?y ?z"
    by (rule exchange) (use c(1) \<open>stored\<close> in \<open>auto simp: to_phase_def\<close>)
  ultimately have "(lse_step base n)\<^sup>*\<^sup>* x ?z" by simp
  then show ?thesis using c(2) False assms(3)
    by (intro exI [of _ "Rmw ?op ?b ?a"] exI [of _ ?z]) (auto simp: to_phase_def completed_def upd_cpu_def)
qed

section \<open>Linearization\<close>

text \<open>
  C32. However many CPUs run LSE atomics on one location, and however their reads,
  compare-and-exchanges, faults and plain stores interleave, each operation that completed took
  effect at once, in the order of completion: replayed one after the other from the first value,
  each met exactly the value it returned, and they leave the value that memory holds. No update is
  lost. A compare-and-exchange of the loop fails only when another operation has completed
  since the CPU observed the value it expects, so some CPU always gets on. For accesses of 1, 2, 4
  or 8 bytes, all of one width.
\<close>

theorem lse_atomics_linearize:
  assumes "access_width n" "lse_run base n m s"
  shows "replay n (located base n m) (sh_log s) = Some (located base n (sh_mem s)) \<and>
    (\<forall>i op b a k. sh_at s i = Loaded op b a k \<longrightarrow>
       (\<forall>stored observed m'. exchange_now base n op b a s = (Inr (stored, observed), m') \<longrightarrow>
          observed = located base n (sh_mem s) \<and> (\<not> stored \<longrightarrow> k < length (sh_log s))))"
proof (intro conjI allI impI)
  note inv = lse_inv_run [OF assms, unfolded lse_inv_def]
  show "replay n (located base n m) (sh_log s) = Some (located base n (sh_mem s))" using inv by blast
  fix i op b a k stored observed m'
  assume l: "sh_at s i = Loaded op b a k" and e: "exchange_now base n op b a s = (Inr (stored, observed), m')"
  note x = exchange_located(2) [OF assms(1) e refl]
  show "observed = located base n (sh_mem s)" using x by blast
  assume "\<not> stored"
  then have "a \<noteq> located base n (sh_mem s)" using x inv l by auto
  then show "k < length (sh_log s)" using inv l by (metis le_neq_implies_less option.inject take_all order_refl)
qed

definition ready :: "u64 \<Rightarrow> nat \<Rightarrow> Memory \<Rightarrow> bool" where
  "ready base n m \<longleftrightarrow> mem_ok m \<and> no_missing m \<and> page_aligned (window_size m) \<and> data_address m base = base \<and>
     (\<forall>access \<in> {1, 3}. fst (check_access base (of_nat n) access m) = None)"

lemma ready_check:
  assumes "ready base n m" "access = 1 \<or> access = 3"
  shows "check_access base (of_nat n) access m = (None, m)"
proof -
  have "access \<le> 7" using assms(2) by auto
  then have "snd (check_access base (of_nat n) access m) = m"
    using check_access_cong assms(1) by (auto simp: ready_def)
  moreover have "fst (check_access base (of_nat n) access m) = None" using assms by (auto simp: ready_def)
  ultimately show ?thesis by (simp add: prod_eq_iff)
qed

lemma ready_store:
  assumes "ready base n m"
  shows "ready base n (store_bytes base bs m)"
proof -
  have "data_address (store_bytes base bs m) base = data_address m base"
    by (simp add: data_address_def store_bytes_def)
  then show ?thesis
    using assms check_access_store [of m 1 base "of_nat n" base bs] check_access_store [of m 3 base "of_nat n" base bs]
    by (simp add: ready_def)
qed

lemma ready_read: "ready base n m \<Longrightarrow> n \<noteq> 0 \<Longrightarrow> mem_read base n m = (Inr (located base n m), m)"
  using ready_check [of base n m 1] by (simp add: mem_read_def read_access_def located_def ready_def)

lemma ready_exchange:
  assumes "ready base n m" "access_width n"
  shows "compare_exchange base x v n m =
    (if located base n m = take_bit (8 * n) x
     then (Inr (True, located base n m), store_bytes base (le_bytes n v) m) else (Inr (False, located base n m), m))"
  using ready_check [OF assms(1), of 3] assms
  by (auto simp: compare_exchange_def located_def ready_def Let_def)

text \<open>
  Two CPUs add to the same double word: both read 0, CPU 1 stores 2, CPU 0 fails with the 0 it
  expects, observes 2 and stores 3.
\<close>

theorem lse_atomics_linearize_witness:
  "\<exists>s. lse_run 0x10000 8 sample_memory s \<and> sh_log s = [Rmw 0 2 0, Rmw 0 1 2] \<and>
     located 0x10000 8 (sh_mem s) = 3"
proof -
  note ok = sample_memory_ok
  have r: "a < 0x12000 \<and> 0x10000 \<le> a" if "0x10000 \<le> a" "a < 0x10008" for a :: u64
    using that by unat_arith
  have "fst (check_access 0x10000 8 access sample_memory) = None" if "access = 1 \<or> access = 3" for access
    using check_access_None [OF ok(1-3), where access = access and sz = 8 and addr = "0x10000"] r that
    by (auto simp: in_window_def ok effective_address_def allows_def effective_page_prot_def)
  then have r0: "ready 0x10000 8 sample_memory" using ok(3) by (simp add: ready_def ok(1,2,6))
  have d: "data_address m 0x10000 = 0x10000" if "ready 0x10000 8 m" for m using that by (simp add: ready_def)
  have z: "mem_bytes sample_memory = (\<lambda>_. 0)"
  proof -
    have "mem_bytes (flag_page False 3 p m) = mem_bytes m" for p m
      by (simp add: flag_page_def set_page_flags_def set_software_checks_def Let_def)
    then show ?thesis
      by (simp add: sample_memory_def set_mapping_def Let_def field_fold set_direct_prot_def) (simp add: Memory_init_def)
  qed
  have l0: "located 0x10000 8 sample_memory = 0"
    unfolding located_def load_bytes_def z by (simp add: eval_nat_numeral)
  have l: "located 0x10000 8 (store_bytes 0x10000 (le_bytes 8 v) m) = v" if "ready 0x10000 8 m" for m v
    using located_store [of 8 "0x10000" m v] d [OF that] by (simp add: take_bit_word_eq_self)
  have v: "lse_value 0 8 a b = a + b" for a b by (simp add: lse_value_def Let_def byte_mask_def)
  let ?m1 = "store_bytes 0x10000 (le_bytes 8 2) sample_memory"
  let ?m2 = "store_bytes 0x10000 (le_bytes 8 3) ?m1"
  note r1 = ready_store [OF r0, of "le_bytes 8 2"]
  let ?s0 = "\<lparr>sh_mem = sample_memory, sh_log = [], sh_at = (\<lambda>_. Out)\<rparr>"
  let ?s1 = "to_phase 0 (Loaded 0 1 0 0) ?s0" let ?s2 = "to_phase 1 (Loaded 0 2 0 0) ?s1"
  let ?s3 = "to_phase 1 Out (completed (Rmw 0 2 0) (?s2\<lparr>sh_mem := ?m1\<rparr>))"
  let ?s4 = "to_phase 0 (Loaded 0 1 2 1) ?s3"
  let ?s5 = "to_phase 0 Out (completed (Rmw 0 1 2) (?s4\<lparr>sh_mem := ?m2\<rparr>))"
  note defs = to_phase_def completed_def byte_mask_def v l0 l [OF r0] take_bit_word_eq_self
  have t1: "lse_step 0x10000 8 ?s0 ?s1"
    using read_old [of ?s0 0 0 "0x10000" 8 0 sample_memory 1] ready_read [OF r0] by (simp add: defs)
  have t2: "lse_step 0x10000 8 ?s1 ?s2"
    using read_old [of ?s1 1 0 "0x10000" 8 0 sample_memory 2] ready_read [OF r0] by (simp add: defs)
  have t3: "lse_step 0x10000 8 ?s2 ?s3"
    using exchange [of ?s2 1 0 2 0 0 "0x10000" 8 0 ?m1] ready_exchange [OF r0] by (simp add: defs)
  have t4: "lse_step 0x10000 8 ?s3 ?s4"
    using retry [of ?s3 0 0 1 0 0 "0x10000" 8 2 ?m1] ready_exchange [OF r1] by (simp add: defs)
  have t5: "lse_step 0x10000 8 ?s4 ?s5"
    using exchange [of ?s4 0 0 1 2 1 "0x10000" 8 2 ?m2] ready_exchange [OF r1] by (simp add: defs)
  note lse_run.step [OF lse_run.step [OF lse_run.step [OF lse_run.step [OF lse_run.step [OF
    lse_run.start t1] t2] t3] t4] t5]
  moreover have "sh_log ?s5 = [Rmw 0 2 0, Rmw 0 1 2]" by (simp add: to_phase_def completed_def)
  moreover have "located 0x10000 8 (sh_mem ?s5) = 3"
    using lse_atomics_linearize [OF _ calculation(1)] by (simp add: defs)
  ultimately show ?thesis by blast
qed

end
