(* ===== verification/RunProps.thy ===== *)
theory RunProps
  imports DecodeCache LseProps
begin

text \<open>
  Whole runs of the interpreter: register 31 stays zero and the decode cache stays sound through
  every instruction, fault, system call and signal, for any environment that keeps its side.
\<close>

section \<open>Handlers write no zero register and no cache entry\<close>

definition keeps :: "CPU \<Rightarrow> CPU \<Rightarrow> bool" where
  "keeps c c' \<longleftrightarrow> regs c' 31 = regs c 31 \<and> dc_entries c' = dc_entries c"

named_theorems keeps_rules \<open>updates of a CPU that keep register 31 and the decode cache\<close>

lemma keeps_refl [keeps_rules, simp]: "keeps c c"
  by (simp add: keeps_def)

lemma keeps_trans: "keeps a b \<Longrightarrow> keeps b c \<Longrightarrow> keeps a c"
  by (simp add: keeps_def)

lemma keeps_reg [keeps_rules]: "keeps a c \<Longrightarrow> r \<noteq> 31 \<Longrightarrow> keeps a (c\<lparr>regs := (regs c)(r := v)\<rparr>)"
  by (simp add: keeps_def)

lemma keeps_wreg [keeps_rules]: "keeps a c \<Longrightarrow> keeps a (wreg r v c)"
  by (simp add: keeps_def wreg_def)

lemma keeps_set_base [keeps_rules]: "keeps a c \<Longrightarrow> keeps a (set_base r v c)"
  by (simp add: keeps_def set_base_def)

lemma keeps_if [keeps_rules]: "keeps a c \<Longrightarrow> keeps a c' \<Longrightarrow> keeps a (if b then c else c')"
  by simp

lemma keeps_fields [keeps_rules]:
  "keeps a c \<Longrightarrow> keeps a (c\<lparr>sp := x\<rparr>)" "keeps a c \<Longrightarrow> keeps a (c\<lparr>pc := x\<rparr>)"
  "keeps a c \<Longrightarrow> keeps a (c\<lparr>fpcr := y\<rparr>)" "keeps a c \<Longrightarrow> keeps a (c\<lparr>fpsr := y\<rparr>)"
  "keeps a c \<Longrightarrow> keeps a (c\<lparr>tpidr_el0 := x\<rparr>)" "keeps a c \<Longrightarrow> keeps a (c\<lparr>tpidrro_el0 := x\<rparr>)"
  "keeps a c \<Longrightarrow> keeps a (c\<lparr>v_hi := h\<rparr>)" "keeps a c \<Longrightarrow> keeps a (set_v r l h' c)"
  "keeps a c \<Longrightarrow> keeps a (excl_mark ad sz vl ver c)" "keeps a c \<Longrightarrow> keeps a (excl_clear c)"
  "keeps a c \<Longrightarrow> keeps a (c\<lparr>excl_value_hi := x\<rparr>)" "keeps a c \<Longrightarrow> keeps a (c\<lparr>running := b, exit_code := i\<rparr>)"
  "keeps a c \<Longrightarrow> keeps a (c\<lparr>debug_skip_poll := b\<rparr>)" "keeps a c \<Longrightarrow> keeps a (set_nzcv p q r' s c)"
  by (simp_all add: keeps_def set_v_def excl_mark_def excl_clear_def set_nzcv_def set_flag_defs set_pstate_bit_def)

lemma keeps_flags [keeps_rules]:
  "keeps c (fst (set_add_flags x y ci w sf c))" "keeps c (fst (set_sub_flags x y w sf c))"
  by (auto simp: set_add_flags_def set_sub_flags_def Let_def intro: keeps_rules)

lemma keeps_int:
  "keeps c (exec_adc d c)" "keeps c (exec_adr d c)" "keeps c (exec_mov_wide d c)"
  "keeps c (exec_addsub_imm d c)" "keeps c (exec_extr d c)" "keeps c (exec_logical_imm d c)"
  "keeps c (exec_csel d c)" "keeps c (exec_ccmp d c)" "keeps c (exec_dp1 d c)" "keeps c (exec_dp2 d c)"
  "keeps c (exec_crc32 d c)" "keeps c (exec_dp3 d c)" "keeps c (exec_fmov_vd1 d c)" "keeps c (exec_mrs d c)"
  by (auto simp: exec_simps exec_fmov_vd1_def exec_mrs_def Let_def split_beta intro: keeps_rules)


definition keeps_sum :: "CPU \<Rightarrow> fault + CPU \<Rightarrow> bool" where
  "keeps_sum c r \<longleftrightarrow> (\<forall>c'. r = Inr c' \<longrightarrow> keeps c c')"

lemma keeps_int_sum:
  "keeps_sum c (exec_bitfield d inst c)" "keeps_sum c (exec_addsub_reg d c)" "keeps_sum c (exec_logical_reg d c)"
  by (auto simp: keeps_sum_def exec_simps Let_def split_beta intro: keeps_rules split: option.splits if_splits)

lemma keeps_sum_Inr: "keeps c c' \<Longrightarrow> keeps_sum c (Inr c')"
  by (simp add: keeps_sum_def)

lemma keeps_dp: "keeps_sum c (exec_dp_imm g d inst c)" "keeps_sum c (exec_dp_reg g' d c)"
  unfolding exec_dp_imm_def exec_dp_reg_def
  by (auto intro: keeps_int_sum keeps_sum_Inr keeps_int)

section \<open>Frames of the machine\<close>

definition frame :: "machine \<Rightarrow> machine \<Rightarrow> bool" where
  "frame s t \<longleftrightarrow> keeps (m_cpu s) (m_cpu t)"

abbreviation framed :: "machine \<Rightarrow> outcome \<Rightarrow> bool" where
  "framed s \<equiv> sat (frame s) (\<lambda>_. frame s) (frame s)"

lemma frame_intros [keeps_rules, simp]:
  "frame s s" "frame s t \<Longrightarrow> frame s (t\<lparr>m_mem := m\<rparr>)" "frame s t \<Longrightarrow> frame s (t\<lparr>m_next_pc := x\<rparr>)"
  "frame s t \<Longrightarrow> frame s (t\<lparr>m_inval := i\<rparr>)" "frame s t \<Longrightarrow> frame s (set_bucket b w t)"
  by (simp_all add: frame_def set_bucket_def)

lemma frame_upd [keeps_rules]:
  "frame s t \<Longrightarrow> (\<And>a c. keeps a c \<Longrightarrow> keeps a (f c)) \<Longrightarrow> frame s (upd_cpu f t)"
  by (simp add: frame_def upd_cpu_def)

lemma framed_Done [outcome_rules]: "frame s t \<Longrightarrow> framed s (Done t)"
  by simp

lemma framed_pair_writeback [outcome_rules]: "frame s t \<Longrightarrow> framed s (pair_writeback d b t)"
  by (auto simp: pair_writeback_def intro!: keeps_rules)

lemma framed_ldp_stp: "framed s (exec_ldp_stp d s)"
  unfolding exec_ldp_stp_def Let_def by (intro outcome_rules keeps_rules; assumption?)

lemma framed_transfer [outcome_rules]:
  assumes "frame s t" "\<And>u. frame s u \<Longrightarrow> framed s (k u)"
  shows "framed s (transfer d addr t k)"
  unfolding transfer_def vec_load_def vec_store_def gpr_load_def gpr_store_def Let_def
  by (intro outcome_rules assms keeps_rules; assumption?)

lemma framed_single: "framed s (exec_ldr_imm d s)" "framed s (exec_ldr_uns d s)" "framed s (exec_ldr_reg d s)"
  unfolding exec_ldr_imm_def exec_ldr_uns_def exec_ldr_reg_def Let_def if_distrib [of Done]
  by (intro outcome_rules keeps_rules; assumption?)+

lemma framed_lse: "framed s (exec_lse (Suc fuel) d s)"
  unfolding exec_lse_once Let_def by (intro outcome_rules keeps_rules; assumption?)

text \<open>CASP writes its first register without a test for XZR: only even pairs are decoded.\<close>

lemma framed_casp: "d_rs d \<noteq> 31 \<Longrightarrow> framed s (exec_casp d s)"
  unfolding exec_casp_def Let_def by (intro outcome_rules keeps_rules; assumption?)


lemma framed_hold:
  assumes "\<And>t. frame s t \<Longrightarrow> framed s (fst (body t))"
  shows "framed s (with_hold base s body)"
proof -
  let ?b = "excl_index base" let ?t = "set_bucket ?b (m_mon s ?b OR 1) s"
  obtain r c where b: "body ?t = (r, c)" by (metis prod.exhaust)
  have "framed s r" using assms [of ?t] b by simp
  then show ?thesis
    by (cases r) (simp_all add: with_hold_def try_lock_def Let_def b)
qed

lemma keeps_stx_finish [keeps_rules]: "frame s t \<Longrightarrow> frame s (stx_finish rs ok t)"
  unfolding stx_finish_def by (intro keeps_rules; assumption?)

lemma framed_excl: "framed s (exec_excl d s)"
proof (cases "d_is_load d")
  case True
  then have l: "\<not> \<not> d_is_load d" by simp
  show ?thesis unfolding exec_excl_def Let_def if_not_P [OF l]
    by (intro outcome_rules keeps_rules; assumption?)
next
  case False
  then show ?thesis unfolding exec_excl_def Let_def if_P [OF False]
    by (intro framed_hold) (auto split: prod.splits sum.splits option.splits intro: keeps_rules)
qed

lemma framed_ldxp_stxp: "framed s (exec_ldxp_stxp d s)"
proof (cases "d_is_load d")
  case True
  show ?thesis unfolding exec_ldxp_stxp_def Let_def if_P [OF True]
    by (intro outcome_rules keeps_rules; assumption?)
next
  case False
  then show ?thesis unfolding exec_ldxp_stxp_def Let_def if_not_P [OF False]
    by (intro framed_hold) (auto split: prod.splits sum.splits option.splits intro: keeps_rules)
qed

lemma framed_simd_writeback: "frame s t \<Longrightarrow> framed s (simd_writeback d b n t)"
  by (auto simp: simd_writeback_def Let_def intro!: keeps_rules)

lemma framed_ld1r_loop:
  assumes "frame s t" "\<And>u. frame s u \<Longrightarrow> framed s (k u)"
  shows "framed s (ld1r_loop d es base is t k)"
  using assms(1)
proof (induction "is" arbitrary: t)
  case (Cons i "is")
  show ?case unfolding ld1r_loop.simps Let_def
    by (intro outcome_rules Cons.IH keeps_rules Cons.prems; assumption?)
qed (simp add: assms(2))

lemma framed_lane_loop:
  assumes "frame s t" "\<And>u. frame s u \<Longrightarrow> framed s (k u)"
  shows "framed s (lane_loop d idx es base is t k)"
  using assms(1)
proof (induction "is" arbitrary: t)
  case (Cons i "is")
  show ?case unfolding lane_loop.simps Let_def set_v_pair_def
    by (intro outcome_rules Cons.IH keeps_rules Cons.prems; assumption?)
qed (simp add: assms(2))

lemma framed_ld_elems:
  assumes "frame s t" "\<And>b u. frame s u \<Longrightarrow> framed s (k b u)"
  shows "framed s (ld_elems d es base i js buf t k)"
  using assms(1)
proof (induction js arbitrary: t buf)
  case (Cons j js)
  show ?case unfolding ld_elems.simps
    by (intro outcome_rules Cons.IH keeps_rules Cons.prems; assumption?)
qed (simp add: assms(2))

lemma framed_st_elems:
  assumes "frame s t" "\<And>u. frame s u \<Longrightarrow> framed s (k u)"
  shows "framed s (st_elems d es base i js buf t k)"
  using assms(1)
proof (induction js arbitrary: t)
  case (Cons j js)
  show ?case unfolding st_elems.simps
    by (intro outcome_rules Cons.IH keeps_rules Cons.prems; assumption?)
qed (simp add: assms(2))

lemma framed_struct_loop:
  assumes "frame s t" "\<And>u. frame s u \<Longrightarrow> framed s (k u)"
  shows "framed s (struct_loop d base is t k)"
  using assms(1)
proof (induction "is" arbitrary: t)
  case (Cons i "is")
  show ?case unfolding struct_loop.simps Let_def
    by (intro sat_if framed_ld_elems framed_st_elems Cons.IH keeps_rules Cons.prems; assumption?)
qed (simp add: assms(2))

lemma framed_simd_ldst: "framed s (exec_simd_ldst d s)"
  unfolding exec_simd_ldst_def exec_ld1r_def exec_lane_def exec_struct_def Let_def split_beta
  by (intro sat_if framed_ld1r_loop framed_lane_loop framed_struct_loop framed_simd_writeback; simp)

section \<open>Sound states\<close>

definition sound :: "machine \<Rightarrow> bool" where
  "sound s \<longleftrightarrow> regs (m_cpu s) 31 = 0 \<and> cache_ok (m_cpu s)"

abbreviation sounds :: "outcome \<Rightarrow> bool" where
  "sounds \<equiv> sat sound (\<lambda>_. sound) sound"

lemma sound_frame: "frame s t \<Longrightarrow> sound s \<Longrightarrow> sound t"
  by (simp add: frame_def keeps_def sound_def cache_ok_def)

lemma sounds_framed: "framed s r \<Longrightarrow> sound s \<Longrightarrow> sounds r"
  by (erule sat_mono) (auto intro: sound_frame)

lemma sounds_state: "sounds r = sound (outcome_state r)"
  by (cases r) simp_all

lemma sound_mem [simp]:
  "sound (s\<lparr>m_mem := m\<rparr>) = sound s" "sound (s\<lparr>m_next_pc := x\<rparr>) = sound s"
  "sound (upd_cpu (\<lambda>c. c\<lparr>pc := x\<rparr>) s) = sound s" "sound (upd_cpu (\<lambda>c. c\<lparr>debug_skip_poll := b\<rparr>) s) = sound s"
  by (simp_all add: sound_def upd_cpu_def cache_ok_def)

text \<open>
  What the code relies on of the parts that are parameters here: system calls, signal delivery
  and the debugger leave a sound state sound (they may clear the decode cache), and the SIMD and
  floating-point arithmetic writes neither register 31 nor the cache.
\<close>

definition env_keeps :: "env \<Rightarrow> bool" where
  "env_keeps e \<longleftrightarrow>
     (\<forall>s. sound s \<longrightarrow> sounds (env_syscall e s)) \<and>
     (\<forall>a b x s. sound s \<longrightarrow> sound (snd (env_force_signal e a b x s))) \<and>
     (\<forall>s. sound s \<longrightarrow> sound (env_debugger_poll e s)) \<and>
     (\<forall>i c r. env_simd_dp e i c = Some r \<longrightarrow> keeps_sum c r) \<and>
     (\<forall>i c. keeps_sum c (env_fp_scalar e i c))"

lemma env_keeps_idle: "env_keeps idle_env"
  by (simp add: env_keeps_def idle_env_def keeps_sum_def)

lemma framed_from_sum: "keeps_sum (m_cpu s) r \<Longrightarrow> framed s (from_sum s r)"
  by (cases r) (simp_all add: from_sum_def keeps_sum_def frame_def)

lemma framed_branch: "frame s (exec_branch d b s)"
  by (cases b) (auto simp: exec_branch_def branch_to_def Let_def intro!: keeps_rules)

lemma framed_msr: "frame s (exec_msr d s)"
  unfolding exec_msr_def invalidate_for_def Let_def by (auto intro!: keeps_rules)

lemma sounds_svc: "env_keeps e \<Longrightarrow> sound s \<Longrightarrow> sounds (exec_svc e s)"
proof -
  assume e: "env_keeps e" and s: "sound s"
  have "sounds (env_syscall e (upd_cpu (\<lambda>c. c\<lparr>pc := pc (m_cpu s) + 4\<rparr>) s))"
    using e s by (simp add: env_keeps_def)
  then show ?thesis
    unfolding exec_svc_def Let_def branch_to_def
    by (cases "env_syscall e (upd_cpu (\<lambda>c. c\<lparr>pc := pc (m_cpu s) + 4\<rparr>) s)") auto
qed

lemma sounds_brk: "env_keeps e \<Longrightarrow> sound s \<Longrightarrow> sounds (exec_brk e s)"
  by (auto simp: exec_brk_def branch_to_def Let_def env_keeps_def split_beta)

lemma framed_sysinst:
  assumes "d_cls d = SysInst a" "a \<noteq> IC_SVC_IMM" "a \<noteq> IC_BRK_IMM"
  shows "framed s (dispatch e d inst s)"
  using assms framed_msr [of s d]
  by (auto simp: dispatch_def Let_def exec_hlt_def exec_mrs_def intro!: keeps_rules)

lemma framed_dispatch:
  assumes e: "env_keeps e" and c: "class_ok d" and n: "\<And>a. d_cls d = SysInst a \<Longrightarrow> a \<noteq> IC_SVC_IMM \<and> a \<noteq> IC_BRK_IMM"
  shows "framed s (dispatch e d inst s)"
proof (cases "d_cls d")
  case (Atomic a)
  have "d_rs d \<noteq> 31" if "a = IC_CASP" using c Atomic that by (auto simp: class_ok_def)
  then show ?thesis
    by (auto simp: dispatch_def Atomic Let_def lse_fuel_def numeral_2_eq_2 framed_casp framed_ldxp_stxp
        framed_excl intro: framed_lse)
next
  case (Simd a)
  then show ?thesis
    by (auto simp: dispatch_def Let_def framed_simd_ldst keeps_int frame_def upd_cpu_def)
next
  case (SysInst a)
  then show ?thesis using framed_sysinst n by blast
next
  case (Generic a)
  then show ?thesis
    using e by (auto simp: dispatch_def exec_simd_dp_def Let_def env_keeps_def intro!: framed_from_sum split: option.split)
qed (simp_all add: dispatch_def Let_def framed_branch framed_from_sum keeps_dp framed_ldp_stp framed_single)

lemma sounds_dispatch:
  assumes "env_keeps e" "class_ok d" "sound s"
  shows "sounds (dispatch e d inst s)"
proof (cases "d_cls d = SysInst IC_SVC_IMM \<or> d_cls d = SysInst IC_BRK_IMM")
  case True
  then show ?thesis using sounds_svc [OF assms(1,3)] sounds_brk [OF assms(1,3)] by (auto simp: dispatch_def)
next
  case False
  then show ?thesis by (intro sounds_framed [OF framed_dispatch [OF assms(1,2)] assms(3)]) auto
qed

section \<open>Steps and runs\<close>

lemma regs_forget: "regs (forget_cache c) = regs c"
  by (simp add: forget_cache_def)

lemma sound_execute:
  assumes "env_keeps e" "sound s"
  shows "sound (outcome_state (execute e inst s))"
proof -
  let ?t = "s\<lparr>m_cpu := fst (cached_decode inst (m_cpu s))\<rparr>"
  let ?d = "fst (decode DecodedInst_zero inst)"
  have c: "cache_ok (m_cpu s)" using assms(2) by (simp add: sound_def)
  note any = execute_any_slot [OF c, of e inst DecodedInst_zero]
  have "regs (m_cpu ?t) = regs (m_cpu s)"
    using arg_cong [OF forget_cached_decode [of inst "m_cpu s"], of regs] by (simp add: regs_forget)
  then have t: "sound ?t" using assms(2) cache_ok_cached_decode [OF c] by (simp add: sound_def)
  have "sounds (dispatch e ?d inst ?t)" by (rule sounds_dispatch [OF assms(1) decode_class_ok t])
  then show ?thesis unfolding any sounds_state .
qed

lemma sound_step:
  assumes "env_keeps e" "sound s"
  shows "sound (outcome_state (step e s))"
proof -
  let ?s = "poll_debugger e s"
  have p: "sound ?s"
    using assms unfolding poll_debugger_def env_keeps_def by simp
  show ?thesis
  proof (cases "running (m_cpu ?s)")
    case True
    obtain r m where f: "fetch_inst (pc (m_cpu ?s)) (m_mem ?s) = (r, m)" by (metis prod.exhaust)
    show ?thesis
    proof (cases r)
      case (Inr inst)
      let ?t = "?s\<lparr>m_mem := m, m_next_pc := pc (m_cpu ?s) + 4\<rparr>"
      have x: "sound (outcome_state (execute e inst ?t))"
        by (rule sound_execute [OF assms(1)]) (simp add: p)
      then show ?thesis
        using x by (cases "execute e inst ?t") (simp_all add: step_def Let_def True f Inr)
    qed (simp add: step_def Let_def True f p)
  qed (simp add: step_def Let_def p)
qed

text \<open>The states a CPU passes through: each completed step is followed by the next.\<close>

inductive runs :: "env \<Rightarrow> machine \<Rightarrow> machine \<Rightarrow> bool" for e where
  start: "runs e s s"
| next_step: "runs e s t \<Longrightarrow> step e t = Done u \<Longrightarrow> runs e s u"

lemma sound_runs: "runs e s t \<Longrightarrow> env_keeps e \<Longrightarrow> sound s \<Longrightarrow> sound t"
proof (induction rule: runs.induct)
  case (next_step s t u)
  then show ?case using sound_step [of e t] by simp
qed

text \<open>
  C35. Register 31 reads as zero and the decode cache is sound in every state an emulated CPU
  passes through, and in the state of any exception its next instruction raises: no handler, no
  writeback, no system call and no signal writes the zero register or leaves a stale decoding,
  given that the parts outside the model keep to the same rule.
\<close>

theorem zero_register_stays_zero:
  assumes "env_keeps e" "runs e s t" "regs (m_cpu s) 31 = 0" "cache_ok (m_cpu s)"
  shows "regs (m_cpu t) 31 = 0 \<and> cache_ok (m_cpu t) \<and>
    regs (m_cpu (outcome_state (step e t))) 31 = 0 \<and> cache_ok (m_cpu (outcome_state (step e t)))"
proof -
  have "sound t" by (rule sound_runs [OF assms(2,1)]) (simp add: sound_def assms)
  then show ?thesis using sound_step [OF assms(1)] by (simp add: sound_def)
qed

theorem zero_register_stays_zero_witness:
  "regs (m_cpu (outcome_state (step idle_env machine_init))) 31 = 0"
proof -
  have "regs (m_cpu machine_init) 31 = 0" "cache_ok (m_cpu machine_init)"
    by (simp_all add: machine_init_def CPU_init_def cache_ok_init [unfolded CPU_init_def])
  then show ?thesis using zero_register_stays_zero [OF env_keeps_idle runs.start] by blast
qed

end
