(* ===== verification/Isolation.thy ===== *)
theory Isolation
  imports RunProps
begin

text \<open>
  No instruction writes where the guest may not write: whatever a load, store, atomic or vector
  access does, each byte it changes lies at an address the mapping index makes writable, and the
  mapping state stays consistent. Pages with userfaultfd marks are included.
\<close>

section \<open>What an access check leaves\<close>

text \<open>The check changes at most the missing bit of page flags.\<close>

definition cleared :: "Memory \<Rightarrow> Memory \<Rightarrow> bool" where
  "cleared m m' \<longleftrightarrow> m' = m\<lparr>page_flags := page_flags m'\<rparr> \<and>
     (\<forall>p. page_flags m' p AND 0x87 = page_flags m p AND 0x87)"

lemma cleared_refl [simp]: "cleared m m"
  by (simp add: cleared_def)

lemma cleared_trans: "cleared a b \<Longrightarrow> cleared b c \<Longrightarrow> cleared a c"
  by (cases a; cases b; cases c) (simp add: cleared_def)

lemma cleared_same:
  assumes "cleared m m'"
  shows "vmas m' = vmas m" "window_size m' = window_size m" "mem_bytes m' = mem_bytes m"
    "data_address m' = data_address m" "mem_ok m' = mem_ok m"
proof -
  note e = conjunct1 [OF assms [unfolded cleared_def]]
  show v: "vmas m' = vmas m" "window_size m' = window_size m" "mem_bytes m' = mem_bytes m"
    by (subst e, simp)+
  show "data_address m' = data_address m"
    by (rule ext, subst e) (simp add: data_address_def)
  show "mem_ok m' = mem_ok m"
    using assms v by (simp add: mem_ok_def mirror_def cleared_def)
qed

lemma cleared_check_page:
  assumes "check_page x access p m = (r, m')" "access \<noteq> 0"
  shows "cleared m m' \<and> (r = None \<longrightarrow> page_flags m p AND 0x80 \<noteq> 0 \<and> page_flags m p AND access = access)"
proof -
  have "(f AND - 17) AND 0x87 = f AND (0x87 :: u8)" for f :: u8 by (simp add: and.assoc)
  then show ?thesis
    using assms by (auto simp: check_page_def cleared_def Let_def split: if_splits)
qed

lemma cleared_check_pages:
  assumes "check_pages x access ps m = (r, m')" "access \<noteq> 0" "access \<le> 7"
  shows "cleared m m' \<and> (r = None \<longrightarrow>
    (\<forall>p \<in> set ps. page_flags m p AND 0x80 \<noteq> 0 \<and> page_flags m p AND access = access))"
  using assms(1)
proof (induction ps arbitrary: m)
  case (Cons p ps)
  obtain r1 m1 where c: "check_page x access p m = (r1, m1)" by (metis prod.exhaust)
  note c' = cleared_check_page [OF c assms(2)]
  show ?case
  proof (cases r1)
    case None
    have cl: "cleared m m1" using c' by blast
    have IH: "cleared m1 m' \<and> (r = None \<longrightarrow>
        (\<forall>p \<in> set ps. page_flags m1 p AND 0x80 \<noteq> 0 \<and> page_flags m1 p AND access = access))"
      using Cons c None by simp
    have "page_flags m1 p AND 0x80 = page_flags m p AND 0x80"
      "page_flags m1 p AND access = page_flags m p AND access" for p
      using cl and_87(1) [of "page_flags m1 p" "page_flags m p"]
        and_87(2) [OF assms(3), of "page_flags m1 p" "page_flags m p"] by (simp_all add: cleared_def)
    then show ?thesis using IH c' None cleared_trans [OF cl] by simp
  next
    case (Some f)
    then show ?thesis using Cons.prems c c' by auto
  qed
qed simp

lemma check_access_passes:
  assumes "check_access addr sz access m = (r, m')" "access \<noteq> 0" "access \<le> 7"
    and "mem_ok m" "page_aligned (window_size m)"
  shows "cleared m m' \<and> (r = None \<and> 0 < sz \<longrightarrow>
    (let a = effective_address m access addr in in_window m a sz \<and>
      (\<forall>b. a \<le> b \<and> b < a + sz \<longrightarrow> allows (vma_at (vmas m) b) access)))"
proof -
  let ?a = "effective_address m access addr"
  consider "sz = 0" | "sz \<noteq> 0" "\<not> in_window m ?a sz" | "sz \<noteq> 0" "in_window m ?a sz" by blast
  then show ?thesis
  proof cases
    case 3
    let ?ps = "pages ?a (?a + sz + 4095)"
    have cp: "check_pages ?a access ?ps m = (r, m')"
      using assms(1) 3 by (simp add: check_access_window_iff)
    note c = cleared_check_pages [OF cp assms(2,3)]
    have pos: "0 < sz" using 3(1) by (simp add: word_neq_0_conv)
    note ap = access_pages [of ?a sz "window_size m", OF _ pos _ assms(5)]
    have al: "index_aligned (vmas m)" using assms(4) by (simp add: mem_ok_def)
    have "allows (vma_at (vmas m) b) access" if "r = None" "?a \<le> b" "b < ?a + sz" for b
    proof -
      have mem: "b div 4096 \<in> set ?ps" using ap 3(2) that(2,3) unfolding in_window_def by blast
      then have "page_flags m (b div 4096) AND 0x80 \<noteq> 0 \<and> page_flags m (b div 4096) AND access = access"
        using c that(1) by blast
      then have "allows (vma_at (vmas m) (b div 4096 * 4096)) access"
        using page_flags_bits [OF assms(4) pages_page_no [OF mem] assms(3,2)] by blast
      then show ?thesis using vma_at_page [OF al, of b] by (simp add: page_base_def)
    qed
    then show ?thesis using c 3(2) by (simp add: Let_def)
  qed (use assms(1) in \<open>auto simp: check_access_window_iff Let_def\<close>)
qed


section \<open>Guarded changes of the memory\<close>

definition mem_sane :: "Memory \<Rightarrow> bool" where
  "mem_sane m \<longleftrightarrow> mem_ok m \<and> page_aligned (window_size m)"

text \<open>What changed is writable, and the mapping is what it was.\<close>

definition guarded :: "Memory \<Rightarrow> Memory \<Rightarrow> bool" where
  "guarded m m' \<longleftrightarrow> mem_sane m' \<and> vmas m' = vmas m \<and> window_size m' = window_size m \<and>
     (\<forall>b. mem_bytes m' b \<noteq> mem_bytes m b \<longrightarrow> allows (vma_at (vmas m) b) 2)"

lemma guarded_refl: "mem_sane m \<Longrightarrow> guarded m m"
  by (simp add: guarded_def)

lemma guarded_sane: "guarded m m' \<Longrightarrow> mem_sane m'"
  by (simp add: guarded_def)

lemma guarded_trans: "guarded a b \<Longrightarrow> guarded b c \<Longrightarrow> guarded a c"
  unfolding guarded_def by metis

lemma guarded_cleared: "mem_sane m \<Longrightarrow> cleared m m' \<Longrightarrow> guarded m m'"
  by (simp add: guarded_def mem_sane_def cleared_same)

lemma allows_3: "allows q 3 \<Longrightarrow> allows q 2"
proof -
  have "x AND 3 = 3 \<Longrightarrow> x AND 2 = 2" for x :: u8
  proof -
    assume h: "x AND 3 = 3"
    have "x AND 2 = (x AND 3) AND 2" by (simp add: and.assoc)
    then show "x AND 2 = 2" unfolding h by simp
  qed
  then show "allows q 3 \<Longrightarrow> allows q 2" by (auto simp: allows_def split: option.splits)
qed

text \<open>A store of bytes that the check let through.\<close>

lemma guarded_store:
  assumes "mem_sane m" "check_access a (of_nat n) access m = (None, m')"
    and "access = 2 \<or> access = 3" "x = data_address m a" "length bs = n" "n < 2 ^ 32"
  shows "guarded m (store_bytes x bs m')"
proof (cases "n = 0")
  case True
  then have "m' = m" using assms(2) by (simp add: check_access_def)
  then show ?thesis using True assms(1,5) by (simp add: store_bytes_def guarded_refl)
next
  case False
  have un: "unat (of_nat n :: u64) = n" using assms(6) by (subst unat_of_nat) simp
  then have pos: "0 < (of_nat n :: u64)" using False by (simp add: word_less_nat_alt)
  have ea: "effective_address m access a = x" using assms(3,4) by (auto simp: effective_address_def)
  have ac: "access \<noteq> 0" "access \<le> 7" using assms(3) by auto
  have c: "cleared m m'" and w: "in_window m x (of_nat n)"
    and al: "\<And>b. x \<le> b \<Longrightarrow> b < x + of_nat n \<Longrightarrow> allows (vma_at (vmas m) b) access"
    using check_access_passes [OF assms(2) ac] assms(1) pos by (simp_all add: mem_sane_def Let_def ea)
  note same = cleared_same [OF c]
  have len: "length bs < 2 ^ 64" using assms(5,6) by simp
  have "allows (vma_at (vmas m) b) 2" if "mem_bytes (store_bytes x bs m') b \<noteq> mem_bytes m b" for b
  proof -
    have lt: "unat (b - x) < n"
      using that put_bytes_at [OF len, of x "mem_bytes m'" b] same(3) assms(5)
      by (auto simp: store_bytes_def split: if_splits)
    have nw: "unat x + n < 2 ^ 64" using w un by (simp add: in_window_def)
    have "unat b = unat x + unat (b - x)"
    proof -
      have "unat (x + (b - x)) = (unat x + unat (b - x)) mod 2 ^ LENGTH(64)"
        by (rule unat_word_ariths)
      then show ?thesis using lt nw by simp
    qed
    moreover have "unat (x + of_nat n) = unat x + n" using nw un by (simp add: unat_word_ariths)
    ultimately have "x \<le> b" "b < x + of_nat n" using lt by (simp_all add: word_le_nat_alt word_less_nat_alt)
    then show ?thesis using al assms(3) allows_3 by blast
  qed
  then show ?thesis using assms(1) same by (simp add: guarded_def mem_sane_def)
qed


section \<open>Calls\<close>

definition guards :: "machine \<Rightarrow> machine \<Rightarrow> bool" where
  "guards s t \<longleftrightarrow> guarded (m_mem s) (m_mem t)"

abbreviation safe :: "machine \<Rightarrow> outcome \<Rightarrow> bool" where
  "safe s \<equiv> sat (guards s) (\<lambda>_. guards s) (guards s)"

named_theorems guard_rules \<open>calls and updates that write only where the guest may\<close>

lemma guards_keep [guard_rules]:
  "guards s t \<Longrightarrow> guards s (upd_cpu f t)" "guards s t \<Longrightarrow> guards s (set_bucket b w t)"
  "guards s t \<Longrightarrow> guards s (t\<lparr>m_next_pc := x\<rparr>)" "guards s t \<Longrightarrow> guards s (t\<lparr>m_inval := i\<rparr>)"
  by (simp_all add: guards_def upd_cpu_def set_bucket_def)

lemma guards_step: "guards s t \<Longrightarrow> guarded (m_mem t) m \<Longrightarrow> guards s (t\<lparr>m_mem := m\<rparr>)"
  unfolding guards_def by (simp add: guarded_trans)

lemma mem_read_cleared:
  assumes "mem_sane m" "mem_read a n m = (r, m')"
  shows "guarded m m'"
proof (cases "n = 0")
  case True
  then show ?thesis using assms by (simp add: mem_read_def read_access_def guarded_refl)
next
  case False
  let ?x = "data_address m a"
  obtain c m1 where c: "check_access ?x (of_nat n) 1 m = (c, m1)" by (metis prod.exhaust)
  have "cleared m m1" using check_access_passes [OF c] assms(1) by (simp add: mem_sane_def)
  moreover have "m' = m1" using assms(2) c False by (auto simp: mem_read_def read_access_def Let_def split: option.splits)
  ultimately show ?thesis using guarded_cleared assms(1) by simp
qed

lemma safe_with_read [guard_rules]:
  assumes "guards s t" "\<And>v u. guards s u \<Longrightarrow> safe s (k v u)"
  shows "safe s (with_read a n t k)"
proof -
  obtain r m where r: "mem_read a n (m_mem t) = (r, m)" by (metis prod.exhaust)
  have "mem_sane (m_mem t)" using assms(1) by (simp add: guards_def guarded_sane)
  from guards_step [OF assms(1) mem_read_cleared [OF this r]]
  show ?thesis using assms(2) r by (simp add: with_read_def split: sum.split)
qed

lemma safe_with_read_16 [guard_rules]:
  assumes "guards s t" "\<And>v w u. guards s u \<Longrightarrow> safe s (k v w u)"
  shows "safe s (with_read_16 a t k)"
proof -
  obtain c m where c: "check_access (data_address (m_mem t) a) 16 1 (m_mem t) = (c, m)" by (metis prod.exhaust)
  have sane: "mem_sane (m_mem t)" using assms(1) by (simp add: guards_def guarded_sane)
  have "cleared (m_mem t) m" using check_access_passes [OF c] sane by (simp add: mem_sane_def)
  from guards_step [OF assms(1) guarded_cleared [OF sane this]]
  show ?thesis using assms(2) c
    by (simp add: with_read_16_def mem_read_16_def Let_def split: option.split)
qed

lemma mem_write_guarded:
  assumes "mem_sane m" "mem_write a bs m = (r, m')" "length bs < 2 ^ 32"
  shows "guarded m m'"
proof (cases "bs = []")
  case True
  then show ?thesis using assms by (simp add: mem_write_def guarded_refl)
next
  case False
  let ?x = "data_address m a"
  obtain c m1 where c: "check_access ?x (of_nat (length bs)) 2 m = (c, m1)" by (metis prod.exhaust)
  show ?thesis
  proof (cases c)
    case None
    then have "m' = store_bytes ?x bs m1" using assms(2) c False by (simp add: mem_write_def Let_def)
    then show ?thesis using guarded_store [OF assms(1) c [unfolded None]] assms(3) by simp
  next
    case (Some e)
    then have "m' = m1" using assms(2) c False by (simp add: mem_write_def Let_def)
    moreover have "cleared m m1" using check_access_passes [OF c] assms(1) by (simp add: mem_sane_def)
    ultimately show ?thesis using guarded_cleared assms(1) by simp
  qed
qed

lemma safe_with_write [guard_rules]:
  assumes "guards s t" "\<And>u. guards s u \<Longrightarrow> safe s (k u)" "length bs < 2 ^ 32"
  shows "safe s (with_write a bs t k)"
proof -
  obtain r m where r: "mem_write a bs (m_mem t) = (r, m)" by (metis prod.exhaust)
  have "mem_sane (m_mem t)" using assms(1) by (simp add: guards_def guarded_sane)
  from guards_step [OF assms(1) mem_write_guarded [OF this r assms(3)]]
  show ?thesis using assms(2) r by (simp add: with_write_def split: option.split)
qed

lemma compare_exchange_guarded:
  assumes "mem_sane m" "compare_exchange a e d n m = (r, m')"
  shows "guarded m m'"
proof -
  let ?x = "data_address m a"
  obtain c m1 where c: "check_access ?x (of_nat n) 3 m = (c, m1)" by (metis prod.exhaust)
  have cl: "guarded m m1"
    using check_access_passes [OF c] assms(1) guarded_cleared by (simp add: mem_sane_def)
  show ?thesis
  proof (cases "\<exists>old. r = Inr (True, old)")
    case False
    then have "m' = m1" using assms(2) c
      by (auto simp: compare_exchange_def Let_def split: option.splits if_splits)
    then show ?thesis using cl by simp
  next
    case True
    then have "c = None" "m' = store_bytes ?x (le_bytes n d) m1" "n \<le> 8"
      using assms(2) c by (auto simp: compare_exchange_def Let_def split: option.splits if_splits)
    then show ?thesis using guarded_store [OF assms(1), of ?x n 3 m1 ?x "le_bytes n d"] c
      by (simp add: le_bytes_def)
  qed
qed

lemma safe_with_cas [guard_rules]:
  assumes "guards s t" "\<And>b v u. guards s u \<Longrightarrow> safe s (k b v u)"
  shows "safe s (with_cas a e d n t k)"
proof -
  obtain r m where r: "compare_exchange a e d n (m_mem t) = (r, m)" by (metis prod.exhaust)
  have "mem_sane (m_mem t)" using assms(1) by (simp add: guards_def guarded_sane)
  from guards_step [OF assms(1) compare_exchange_guarded [OF this r]]
  show ?thesis using assms(2) r by (simp add: with_cas_def split: sum.split)
qed

lemma store_two_words:
  "store_bytes (x + 8) (le_bytes 8 dh) (store_bytes x (le_bytes 8 dl) m) = store_bytes x (le_bytes 8 dl @ le_bytes 8 dh) m"
proof -
  have "put_bytes a (bs @ cs) f = put_bytes (a + of_nat (length bs)) cs (put_bytes a bs f)" for a bs cs f
    by (induction bs arbitrary: a f) (simp_all add: ac_simps)
  then show ?thesis by (simp add: store_bytes_def le_bytes_def)
qed

lemma compare_exchange_16_guarded:
  assumes "mem_sane m" "compare_exchange_16 a el eh dl dh m = (r, m')"
  shows "guarded m m'"
proof -
  let ?x = "data_address m a"
  obtain c m1 where c: "check_access ?x 16 3 m = (c, m1)" by (metis prod.exhaust)
  have cl: "guarded m m1"
    using check_access_passes [OF c] assms(1) guarded_cleared by (simp add: mem_sane_def)
  show ?thesis
  proof (cases "\<exists>lo hi. r = Inr (True, lo, hi)")
    case False
    then have "m' = m1" using assms(2) c
      by (auto simp: compare_exchange_16_def Let_def split: option.splits if_splits)
    then show ?thesis using cl by simp
  next
    case True
    then have n: "c = None" and m': "m' = store_bytes ?x (le_bytes 8 dl @ le_bytes 8 dh) m1"
      using assms(2) c
      by (auto simp: compare_exchange_16_def store_two_words Let_def split: option.splits if_splits)
    show ?thesis unfolding m' using c n
      by (intro guarded_store [OF assms(1), of ?x 16 3]) (simp_all add: le_bytes_def)
  qed
qed

lemma safe_with_cas_16 [guard_rules]:
  assumes "guards s t" "\<And>b v w u. guards s u \<Longrightarrow> safe s (k b v w u)"
  shows "safe s (with_cas_16 a el eh dl dh t k)"
proof -
  obtain r m where r: "compare_exchange_16 a el eh dl dh (m_mem t) = (r, m)" by (metis prod.exhaust)
  have "mem_sane (m_mem t)" using assms(1) by (simp add: guards_def guarded_sane)
  from guards_step [OF assms(1) compare_exchange_16_guarded [OF this r]]
  show ?thesis using assms(2) r by (simp add: with_cas_16_def split: sum.split)
qed


section \<open>Handlers\<close>

lemma size_small: "d_size d < 4 \<Longrightarrow> (2 :: nat) ^ unat (d_size d) \<le> 8"
proof -
  assume "d_size d < 4"
  then have "unat (d_size d) \<le> 3" by (simp add: word_less_nat_alt)
  then have "(2 :: nat) ^ unat (d_size d) \<le> 2 ^ 3" by (intro power_increasing) simp_all
  then show ?thesis by simp
qed

lemma length_le_bytes [simp]: "length (le_bytes n v) = n"
  by (simp add: le_bytes_def)

lemma safe_if [guard_rules]: "(c \<Longrightarrow> safe s r) \<Longrightarrow> (\<not> c \<Longrightarrow> safe s q) \<Longrightarrow> safe s (if c then r else q)"
  by simp

lemma safe_Done [guard_rules]: "guards s t \<Longrightarrow> safe s (Done t)"
  by simp

lemma guards_if [guard_rules]: "guards s t \<Longrightarrow> guards s u \<Longrightarrow> guards s (if c then t else u)"
  by simp

lemma safe_pair_writeback [guard_rules]: "guards s t \<Longrightarrow> safe s (pair_writeback d b t)"
  unfolding pair_writeback_def by (intro guard_rules)

lemma safe_ldp_stp: "guards s s \<Longrightarrow> safe s (exec_ldp_stp d s)"
  unfolding exec_ldp_stp_def Let_def by (intro guard_rules; (assumption | simp)?)

lemma safe_transfer [guard_rules]:
  assumes "guards s t" "\<And>u. guards s u \<Longrightarrow> safe s (k u)" "d_size d < 4"
  shows "safe s (transfer d addr t k)"
proof -
  have n: "length (le_bytes (2 ^ unat (d_size d)) v) < 2 ^ 32" "length (le_bytes (min x 8) v) < 2 ^ 32"
    "length (le_bytes ((if q then 16 else 2 ^ unat (d_size d)) - 8) v) < 2 ^ 32" for v q x
    using size_small [OF assms(3)] by simp_all
  show ?thesis
    unfolding transfer_def vec_load_def vec_store_def gpr_load_def gpr_store_def Let_def
    by (intro guard_rules assms(1,2) n; assumption?)
qed

lemma safe_single:
  assumes "guards s s" "d_size d < 4"
  shows "safe s (exec_ldr_imm d s)" "safe s (exec_ldr_uns d s)" "safe s (exec_ldr_reg d s)"
  unfolding exec_ldr_imm_def exec_ldr_uns_def exec_ldr_reg_def Let_def
  by (intro guard_rules assms; assumption?)+

lemma safe_lse: "guards s s \<Longrightarrow> safe s (exec_lse (Suc fuel) d s)"
  unfolding exec_lse_once Let_def by (intro guard_rules; assumption?)

lemma safe_casp: "guards s s \<Longrightarrow> safe s (exec_casp d s)"
  unfolding exec_casp_def Let_def by (intro guard_rules; assumption?)

lemma safe_hold:
  assumes "guards s s" "\<And>t. guards s t \<Longrightarrow> safe s (fst (body t))"
  shows "safe s (with_hold base s body)"
proof -
  let ?b = "excl_index base" let ?t = "set_bucket ?b (m_mon s ?b OR 1) s"
  obtain r c where b: "body ?t = (r, c)" by (metis prod.exhaust)
  have "safe s r" using assms(2) [of ?t] b assms(1) by (simp add: guards_keep)
  then show ?thesis
    using assms(1) by (cases r) (simp_all add: with_hold_def try_lock_def Let_def b guards_keep)
qed

lemma guards_stx_finish [guard_rules]: "guards s t \<Longrightarrow> guards s (stx_finish rs ok t)"
  unfolding stx_finish_def by (intro guard_rules)

lemma guards_call:
  assumes "guards s t"
  shows "compare_exchange a e d n (m_mem t) = (r, m) \<Longrightarrow> guards s (t\<lparr>m_mem := m\<rparr>)"
    "compare_exchange_16 a el eh dl dh (m_mem t) = (r', m) \<Longrightarrow> guards s (t\<lparr>m_mem := m\<rparr>)"
    "mem_write a bs (m_mem t) = (r'', m) \<Longrightarrow> length bs < 2 ^ 32 \<Longrightarrow> guards s (t\<lparr>m_mem := m\<rparr>)"
  using assms guards_step [OF assms] compare_exchange_guarded compare_exchange_16_guarded
    mem_write_guarded guarded_sane unfolding guards_def by metis+

lemma safe_excl:
  assumes "guards s s" "d_size d < 4"
  shows "safe s (exec_excl d s)"
proof (cases "d_is_load d")
  case True
  then have l: "\<not> \<not> d_is_load d" by simp
  show ?thesis unfolding exec_excl_def Let_def if_not_P [OF l]
    by (intro guard_rules assms; assumption?)
next
  case False
  have n: "length (le_bytes (2 ^ unat (d_size d)) v) < 2 ^ 32" for v using size_small [OF assms(2)] by simp
  show ?thesis unfolding exec_excl_def Let_def if_P [OF False]
    by (intro safe_hold assms)
      (auto split: prod.splits sum.splits option.splits intro: guard_rules dest: guards_call(1) guards_call(3) [OF _ _ n])
qed

lemma safe_ldxp_stxp:
  assumes "guards s s"
  shows "safe s (exec_ldxp_stxp d s)"
proof (cases "d_is_load d")
  case True
  show ?thesis unfolding exec_ldxp_stxp_def Let_def if_P [OF True]
    by (intro guard_rules assms; assumption?)
next
  case False
  show ?thesis unfolding exec_ldxp_stxp_def Let_def if_not_P [OF False]
    by (intro safe_hold assms)
      (auto split: prod.splits sum.splits option.splits intro: guard_rules dest: guards_call(1,2))
qed


section \<open>Vector structures\<close>

lemma safe_simd_writeback [guard_rules]: "guards s t \<Longrightarrow> safe s (simd_writeback d b n t)"
  unfolding simd_writeback_def Let_def by (intro guard_rules; assumption?)

lemma safe_ld1r_loop:
  assumes "guards s t" "\<And>u. guards s u \<Longrightarrow> safe s (k u)"
  shows "safe s (ld1r_loop d es base is t k)"
  using assms(1)
proof (induction "is" arbitrary: t)
  case (Cons i "is")
  show ?case unfolding ld1r_loop.simps Let_def
    by (intro guard_rules Cons.IH Cons.prems; assumption?)
qed (simp add: assms(2))

lemma safe_lane_loop:
  assumes "guards s t" "\<And>u. guards s u \<Longrightarrow> safe s (k u)" "es \<le> 8"
  shows "safe s (lane_loop d idx es base is t k)"
  using assms(1)
proof (induction "is" arbitrary: t)
  case (Cons i "is")
  have n: "length (le_bytes es v) < 2 ^ 32" for v using assms(3) by simp
  show ?case unfolding lane_loop.simps Let_def
    by (intro guard_rules n Cons.IH Cons.prems; assumption?)
qed (simp add: assms(2))

lemma safe_ld_elems:
  assumes "guards s t" "\<And>b u. guards s u \<Longrightarrow> safe s (k b u)"
  shows "safe s (ld_elems d es base i js buf t k)"
  using assms(1)
proof (induction js arbitrary: t buf)
  case (Cons j js)
  show ?case unfolding ld_elems.simps by (intro guard_rules Cons.IH Cons.prems; assumption?)
qed (simp add: assms(2))

lemma safe_st_elems:
  assumes "guards s t" "\<And>u. guards s u \<Longrightarrow> safe s (k u)" "es \<le> 8"
  shows "safe s (st_elems d es base i js buf t k)"
  using assms(1)
proof (induction js arbitrary: t)
  case (Cons j js)
  have n: "length (le_bytes es v) < 2 ^ 32" for v using assms(3) by simp
  show ?case unfolding st_elems.simps by (intro guard_rules n Cons.IH Cons.prems; assumption?)
qed (simp add: assms(2))

lemma safe_struct_loop:
  assumes "guards s t" "\<And>u. guards s u \<Longrightarrow> safe s (k u)" "d_size d < 4"
  shows "safe s (struct_loop d base is t k)"
  using assms(1)
proof (induction "is" arbitrary: t)
  case (Cons i "is")
  show ?case unfolding struct_loop.simps Let_def
    by (intro safe_if safe_ld_elems safe_st_elems guard_rules Cons.IH Cons.prems size_small [OF assms(3)];
        assumption?)
qed (simp add: assms(2))

lemma lane_size: "snd (lane_of d) \<le> 8"
  by (simp add: lane_of_def Let_def)

lemma safe_simd_ldst:
  assumes "guards s s" "d_size d < 4"
  shows "safe s (exec_simd_ldst d s)"
  unfolding exec_simd_ldst_def exec_ld1r_def exec_lane_def exec_struct_def Let_def split_beta
  by (intro safe_if safe_ld1r_loop safe_lane_loop safe_struct_loop safe_simd_writeback lane_size assms;
      assumption?)

lemma guards_from_sum: "guards s s \<Longrightarrow> safe s (from_sum s r)"
  by (cases r) (simp_all add: from_sum_def guards_def)

lemma guards_branch: "guards s s \<Longrightarrow> guards s (exec_branch d b s)"
  by (cases b) (auto simp: exec_branch_def branch_to_def Let_def intro!: guard_rules)

lemma guards_msr: "guards s s \<Longrightarrow> guards s (exec_msr d s)"
  unfolding exec_msr_def invalidate_for_def Let_def by (auto intro!: guard_rules)

lemma safe_dispatch:
  assumes "guards s s" "d_size d < 4" "d_cls d \<noteq> SysInst IC_SVC_IMM" "d_cls d \<noteq> SysInst IC_BRK_IMM"
  shows "safe s (dispatch e d inst s)"
proof (cases "d_cls d")
  case (SysInst a)
  then show ?thesis
    using assms guards_msr by (auto simp: dispatch_def Let_def exec_hlt_def intro!: guard_rules)
next
  case (Generic a)
  then show ?thesis
    using assms(1) guards_from_sum by (auto simp: dispatch_def exec_simd_dp_def Let_def split: option.split)
next
  case (Atomic a)
  then show ?thesis
    using assms safe_lse [of s 1 d]
    by (auto simp: dispatch_def Let_def lse_fuel_def numeral_2_eq_2 safe_casp safe_ldxp_stxp safe_excl)
qed (use assms in \<open>auto simp: dispatch_def Let_def guards_branch guards_from_sum safe_ldp_stp safe_single
      safe_simd_ldst intro!: guard_rules\<close>)

section \<open>Properties\<close>

text \<open>
  C1. Memory isolation: no instruction, cached or not, on any path and with any fault, changes a
  byte the mapping index does not make writable, or the mapping itself; the index and its page
  flags stay consistent. System calls and breakpoints leave the interpreter and are excluded.
\<close>

theorem instructions_write_only_writable:
  assumes "mem_ok (m_mem s)" "page_aligned (window_size (m_mem s))" "cache_ok (m_cpu s)"
    and "d_cls (fst (decode DecodedInst_zero inst)) \<notin> {SysInst IC_SVC_IMM, SysInst IC_BRK_IMM}"
    and "t = outcome_state (execute e inst s)"
  shows "mem_ok (m_mem t) \<and> vmas (m_mem t) = vmas (m_mem s) \<and>
    (\<forall>b. mem_bytes (m_mem t) b \<noteq> mem_bytes (m_mem s) b \<longrightarrow> allows (vma_at (vmas (m_mem s)) b) 2)"
proof -
  let ?d = "fst (decode DecodedInst_zero inst)"
  let ?s = "s\<lparr>m_cpu := fst (cached_decode inst (m_cpu s))\<rparr>"
  have z: "fields_ok DecodedInst_zero" by (simp add: fields_ok_def DecodedInst_zero_def)
  have sz: "d_size ?d < 4" using decode_fields_ok [OF z, of inst] by (simp add: fields_ok_def)
  have g: "guards ?s ?s" using assms(1,2) by (simp add: guards_def guarded_refl mem_sane_def)
  have "safe ?s (dispatch e ?d inst ?s)" by (rule safe_dispatch [OF g sz]) (use assms(4) in auto)
  moreover have "execute e inst s = dispatch e ?d inst ?s" by (rule execute_any_slot [OF assms(3)])
  ultimately have "guards ?s t" unfolding assms(5) by (cases "dispatch e ?d inst ?s") auto
  then show ?thesis by (simp add: guards_def guarded_def mem_sane_def)
qed

text \<open>A store of X0 to the address 0x10000 in the sample memory.\<close>

definition sample_machine :: machine where
  "sample_machine = machine_init\<lparr>m_mem := sample_memory,
     m_cpu := CPU_init\<lparr>regs := (\<lambda>_. 0)(1 := 0x10000)\<rparr>\<rparr>"

theorem instructions_write_only_writable_witness:
  "mem_ok (m_mem (outcome_state (execute idle_env 0xF9000020 sample_machine)))"
proof -
  have "cache_ok (m_cpu sample_machine)"
    using cache_ok_init unfolding cache_ok_def by (simp add: sample_machine_def)
  moreover have "d_cls (fst (decode DecodedInst_zero 0xF9000020)) = LdSt IC_STR_IMM" by code_simp
  ultimately show ?thesis
    using instructions_write_only_writable [where s = sample_machine and e = idle_env and inst = "0xF9000020", OF _ _ _ _ refl]
      sample_memory_ok(1,3) by (simp add: sample_machine_def)
qed

end
