(* ===== verification/Alloc.thy ===== *)
theory Alloc
  imports Mem
begin

text \<open>
  Placement in the guest address space (\<open>Source/System/Memory/Allocation.cpp\<close>): the tracked
  allocations, the reusable free ranges, the two bump cursors, and the operations behind mmap,
  munmap and mremap. Both \<open>std::map\<close>s are lists of start and size in key order. A critical section
  under \<open>mu_\<close> is one step; tracing and the \<open>BIFROST_MEMGUARD\<close> report are left out.
\<close>

section \<open>State\<close>

record Placement =
  p_mem :: Memory
  allocations :: "(u64 \<times> u64) list"
  free_ranges :: "(u64 \<times> u64) list"
  low_hints_reserved :: bool
  guard_allocs :: bool
  cum_alloc :: u64
  cum_free :: u64

abbreviation (input) MAX_MMAP_LENGTH :: u64 where "MAX_MMAP_LENGTH \<equiv> 0x100000000"
abbreviation (input) MMAP_BASE_MIN :: u64 where "MMAP_BASE_MIN \<equiv> 0x10000000"
abbreviation (input) UINT64_MAX :: u64 where "UINT64_MAX \<equiv> 0xFFFFFFFFFFFFFFFF"

definition Placement_init :: "Memory \<Rightarrow> Placement" where
  "Placement_init m = \<lparr>p_mem = m, allocations = [], free_ranges = [], low_hints_reserved = False,
     guard_allocs = False, cum_alloc = 0, cum_free = 0\<rparr>"

definition upd_mem :: "(Memory \<Rightarrow> Memory) \<Rightarrow> Placement \<Rightarrow> Placement" where
  "upd_mem f s = s\<lparr>p_mem := f (p_mem s)\<rparr>"

definition page_align_up :: "u64 \<Rightarrow> u64" where
  "page_align_up sz = (sz + PAGE_MASK) AND NOT PAGE_MASK"

definition stack_bottom :: "Placement \<Rightarrow> u64" where
  "stack_bottom s = stack_top (p_mem s) - STACK_SIZE"

text \<open>\<open>lo < stack_top_ && hi > stack_bottom\<close>.\<close>

definition meets_stack :: "u64 \<Rightarrow> u64 \<Rightarrow> Placement \<Rightarrow> bool" where
  "meets_stack lo hi s \<longleftrightarrow> lo < stack_top (p_mem s) \<and> hi > stack_bottom s"

section \<open>Ordered maps\<close>

definition map_put :: "u64 \<Rightarrow> u64 \<Rightarrow> (u64 \<times> u64) list \<Rightarrow> (u64 \<times> u64) list" where
  "map_put k v xs = takeWhile (\<lambda>e. fst e < k) xs @ (k, v) # dropWhile (\<lambda>e. fst e \<le> k) xs"

definition map_erase :: "u64 \<Rightarrow> (u64 \<times> u64) list \<Rightarrow> (u64 \<times> u64) list" where
  "map_erase k = filter (\<lambda>e. fst e \<noteq> k)"

text \<open>The entries from \<open>lower_bound(at)\<close> on, and the ones before it.\<close>

definition ranges_from :: "u64 \<Rightarrow> (u64 \<times> u64) list \<Rightarrow> (u64 \<times> u64) list" where
  "ranges_from at = dropWhile (\<lambda>e. fst e < at)"

definition ranges_before :: "u64 \<Rightarrow> (u64 \<times> u64) list \<Rightarrow> (u64 \<times> u64) list" where
  "ranges_before at = takeWhile (\<lambda>e. fst e < at)"

text \<open>
  The entries that meet \<open>[lo, hi)\<close>: the last one that starts below \<open>lo\<close> if it reaches over it, and
  those that start in the range.
\<close>

definition ranges_meeting :: "u64 \<Rightarrow> u64 \<Rightarrow> (u64 \<times> u64) list \<Rightarrow> (u64 \<times> u64) list" where
  "ranges_meeting lo hi xs =
     (let pre = ranges_before lo xs in
      (if pre \<noteq> [] \<and> fst (last pre) + snd (last pre) > lo then [last pre] else []) @
      takeWhile (\<lambda>e. fst e < hi) (ranges_from lo xs))"

section \<open>Free ranges\<close>

text \<open>Joining the range with one that ends where it starts, and with one that starts where it ends.\<close>

definition merge_prev ::
    "u64 \<Rightarrow> u64 \<Rightarrow> (u64 \<times> u64) list \<Rightarrow> u64 \<times> u64 \<times> (u64 \<times> u64) list" where
  "merge_prev addr sz xs =
     (let pre = ranges_before addr xs in
      if pre \<noteq> [] \<and> fst (last pre) + snd (last pre) = addr
      then (fst (last pre), snd (last pre) + sz, butlast pre @ ranges_from addr xs)
      else (addr, sz, xs))"

definition merge_next ::
    "u64 \<Rightarrow> u64 \<Rightarrow> (u64 \<times> u64) list \<Rightarrow> u64 \<times> u64 \<times> (u64 \<times> u64) list" where
  "merge_next addr sz xs =
     (let post = ranges_from addr xs in
      if post \<noteq> [] \<and> fst (hd post) = addr + sz
      then (addr, sz + snd (hd post), ranges_before addr xs @ tl post)
      else (addr, sz, xs))"

definition add_free_range :: "u64 \<Rightarrow> u64 \<Rightarrow> (u64 \<times> u64) list \<Rightarrow> (u64 \<times> u64) list" where
  "add_free_range addr sz xs =
     (if sz = 0 then xs
      else
        let (addr1, sz1, xs1) = merge_prev addr sz xs;
            (addr2, sz2, xs2) = merge_next addr1 sz1 xs1
        in map_put addr2 sz2 xs2)"

text \<open>One turn of the loop of \<open>remove_free_range\<close>: the range is replaced by what \<open>[lo, hi)\<close> leaves.\<close>

definition cut_free_range ::
    "u64 \<Rightarrow> u64 \<Rightarrow> u64 \<times> u64 \<Rightarrow> (u64 \<times> u64) list \<Rightarrow> (u64 \<times> u64) list" where
  "cut_free_range lo hi r xs =
     (let r_lo = fst r; r_hi = fst r + snd r;
          left_size = (if lo > r_lo then lo - r_lo else 0);
          right_lo = (if hi < r_hi then hi else r_hi);
          right_size = (if hi < r_hi then r_hi - hi else 0);
          ys = map_erase r_lo xs;
          zs = (if left_size \<noteq> 0 then map_put r_lo left_size ys else ys)
      in if right_size \<noteq> 0 then map_put right_lo right_size zs else zs)"

definition remove_free_range :: "u64 \<Rightarrow> u64 \<Rightarrow> (u64 \<times> u64) list \<Rightarrow> (u64 \<times> u64) list" where
  "remove_free_range addr sz xs =
     (if sz = 0 then xs
      else fold (cut_free_range addr (addr + sz)) (ranges_meeting addr (addr + sz) xs) xs)"

section \<open>File pages and zeroing\<close>

text \<open>
  \<open>detach_file_locked\<close> puts fresh anonymous pages, readable and writable for the host, in place of
  the file pages of the range (a host that cannot is \<open>std::bad_alloc\<close>, not modelled). The names for
  \<open>/proc/self/maps\<close> that \<open>forget_images_locked\<close> drops are not part of the model.
\<close>

definition detach_file :: "u64 \<Rightarrow> u64 \<Rightarrow> Memory \<Rightarrow> Memory" where
  "detach_file lo hi m =
     (let here = (\<lambda>p. lo div PAGE_SIZE \<le> p \<and> p * PAGE_SIZE < hi \<and> file_pages m p \<noteq> None)
      in m\<lparr>file_pages := (\<lambda>p. if here p then None else file_pages m p),
           host_prot := (\<lambda>p. if here p then 3 else host_prot m p),
           mem_bytes := (\<lambda>a. if here (a div PAGE_SIZE) then 0 else mem_bytes m a)\<rparr>)"

definition zero_range :: "u64 \<Rightarrow> u64 \<Rightarrow> bool \<Rightarrow> Memory \<Rightarrow> Memory" where
  "zero_range lo hi0 noreserve m =
     (let hi = min hi0 (window_size m) in
      if lo \<ge> hi then m
      else
        let eager_end = (if noreserve \<or> hi - lo > 0x1000000 then lo else min hi LOW_REGION_SIZE);
            m1 = (if lo = eager_end \<and> \<not> noreserve \<and> lo < hi \<and> lo < LOW_REGION_SIZE
                  then set_direct_prot lo (min hi LOW_REGION_SIZE) 3 m else m);
            m2 = (if lo < eager_end then
                    let m' = set_direct_prot lo eager_end 3 m1
                    in m'\<lparr>mem_bytes := (\<lambda>a. if lo \<le> a \<and> a < eager_end then 0 else mem_bytes m' a)\<rparr>
                  else m1);
            lazy = max lo eager_end
        in if lazy < hi then discard_host lazy hi m2 else m2)"

section \<open>mmap\<close>

text \<open>The first free range that is large enough and away from the main stack.\<close>

definition reusable_range :: "u64 \<Rightarrow> Placement \<Rightarrow> u64 option" where
  "reusable_range aligned s =
     map_option fst (find (\<lambda>(k, n). n \<ge> aligned \<and> \<not> meets_stack k (k + n) s) (free_ranges s))"

text \<open>
  The bump allocation: the low cursor, past the main stack, then the high cursor, then the first
  hole of the index. The result is the base and whether its pages may hold old data.
\<close>

definition bump_range :: "u64 \<Rightarrow> Placement \<Rightarrow> (u64 \<times> bool) option \<times> Placement" where
  "bump_range aligned s =
     (let low = mmap_next (p_mem s);
          (base, nxt) =
            (if meets_stack low (low + aligned) s then
               (if low_hints_reserved s then (LOW_REGION_SIZE, low)
                else (stack_top (p_mem s), stack_top (p_mem s) + aligned))
             else (low, low + aligned));
          s1 = upd_mem (\<lambda>m. m\<lparr>mmap_next := nxt\<rparr>) s
      in if base + aligned > LOW_REGION_SIZE then
           let base' = max LOW_REGION_SIZE (high_next (p_mem s1)); w = window_size (p_mem s1) in
           if base' \<ge> w \<or> aligned > w - base' then
             let gap = find_gap (vmas (p_mem s1)) LOW_REGION_SIZE w aligned
             in if gap = 0 then (None, s1) else (Some (gap, True), s1)
           else (Some (base', False), upd_mem (\<lambda>m. m\<lparr>high_next := base' + aligned\<rparr>) s1)
         else (Some (base, False), s1))"

text \<open>The cursors after a mapping at a given place.\<close>

definition push_cursors :: "u64 \<Rightarrow> Memory \<Rightarrow> Memory" where
  "push_cursors end_addr m =
     (let m1 = m\<lparr>mmap_next := max (mmap_next m) end_addr\<rparr>
      in if end_addr > LOW_REGION_SIZE then m1\<lparr>high_next := max (high_next m1) end_addr\<rparr> else m1)"

text \<open>Where \<open>mmap_alloc\<close> puts the mapping.\<close>

definition choose_range ::
    "u64 \<Rightarrow> u64 \<Rightarrow> bool \<Rightarrow> Placement \<Rightarrow> (u64 \<times> bool) option \<times> Placement" where
  "choose_range aligned hint direct_only s =
     (let limit = min LOW_REGION_SIZE (stack_bottom s);
          base = (if direct_only then find_gap (vmas (p_mem s)) MMAP_BASE_MIN limit aligned else hint)
      in if direct_only \<and> base = 0 then (None, s)
         else if base = 0 then
           (case reusable_range aligned s of
              Some b \<Rightarrow> (Some (b, True), s)
            | None \<Rightarrow> bump_range aligned s)
         else if \<not> is_valid_guest_range (p_mem s) base aligned then (None, s)
         else (Some (base, direct_only), upd_mem (push_cursors (base + aligned)) s))"

text \<open>The guard page of \<open>BIFROST_GUARD_ALLOCS\<close>.\<close>

definition place_guard :: "u64 \<Rightarrow> Placement \<Rightarrow> Placement" where
  "place_guard end_addr s =
     (let m = p_mem s; over_stack = (end_addr < stack_top m \<and> end_addr + PAGE_SIZE > stack_bottom s) in
      if end_addr + PAGE_SIZE \<le> window_size m \<and> \<not> over_stack \<and>
         \<not> range_overlaps (vmas m) end_addr (end_addr + PAGE_SIZE)
      then
        upd_mem (\<lambda>m.
          let m1 = set_mapping end_addr (end_addr + PAGE_SIZE) 0 False False m;
              m2 = m1\<lparr>guard_pages := insert (end_addr div PAGE_SIZE) (guard_pages m1)\<rparr>
          in if end_addr < LOW_REGION_SIZE \<and> end_addr + PAGE_SIZE > mmap_next m2
             then m2\<lparr>mmap_next := end_addr + PAGE_SIZE\<rparr>
             else if end_addr \<ge> LOW_REGION_SIZE \<and> end_addr + PAGE_SIZE > high_next m2
             then m2\<lparr>high_next := end_addr + PAGE_SIZE\<rparr> else m2) s
      else s)"

definition mmap_alloc ::
    "u64 \<Rightarrow> u64 \<Rightarrow> bool \<Rightarrow> u8 \<Rightarrow> bool \<Rightarrow> Placement \<Rightarrow> u64 \<times> Placement" where
  "mmap_alloc sz0 hint noreserve prot direct_only s =
     (let sz = (if sz0 = 0 then PAGE_SIZE else sz0) in
      if \<not> noreserve \<and> sz > MAX_MMAP_LENGTH then (0, s)
      else if sz > UINT64_MAX - PAGE_MASK then (0, s)
      else
        let aligned = page_align_up sz in
        case choose_range aligned hint direct_only s of
          (None, s') \<Rightarrow> (0, s')
        | (Some (base, reused), s') \<Rightarrow>
            let end_addr = base + aligned;
                s1 = (if reused \<or> hint \<noteq> 0 then
                        upd_mem (\<lambda>m. zero_range base end_addr noreserve (detach_file base end_addr m))
                          (s'\<lparr>free_ranges := remove_free_range base aligned (free_ranges s')\<rparr>)
                      else s');
                s2 = (if guard_allocs s1 \<and> \<not> reused \<and> hint = 0 \<and> \<not> noreserve
                      then place_guard end_addr s1 else s1);
                s3 = s2\<lparr>allocations := map_put base aligned (allocations s2)\<rparr>
            in (base, (upd_mem (set_mapping base end_addr prot False False) s3)
                        \<lparr>cum_alloc := cum_alloc s3 + aligned\<rparr>))"

definition mmap_noreplace ::
    "u64 \<Rightarrow> u64 \<Rightarrow> bool \<Rightarrow> u8 \<Rightarrow> bool \<Rightarrow> Placement \<Rightarrow> u64 \<times> Placement" where
  "mmap_noreplace addr0 sz noreserve prot ordinary_hint s =
     (if sz = 0 \<or> addr0 AND PAGE_MASK \<noteq> 0 \<or> sz > UINT64_MAX - PAGE_MASK then (0, s)
      else
        let aligned = page_align_up sz; m = p_mem s; low = (ordinary_hint \<and> addr0 < LOW_REGION_SIZE) in
        if \<not> is_valid_guest_range m addr0 aligned then (0, s)
        else if \<not> noreserve \<and> sz > MAX_MMAP_LENGTH then (0, s)
        else if low \<and> aligned > LOW_REGION_SIZE - addr0 then (0, s)
        else
          let addr = (if low then find_gap (vmas m) addr0 LOW_REGION_SIZE aligned else addr0);
              end_addr = addr + aligned in
          if low \<and> addr = 0 then (0, s)
          else if range_overlaps (vmas m) addr end_addr then (UINT64_MAX, s)
          else if meets_stack addr end_addr s then (0, s)
          else
            let m1 = zero_range addr end_addr noreserve (detach_file addr end_addr m);
                m2 = set_mapping addr end_addr prot False False (push_cursors end_addr m1)
            in (addr, s\<lparr>p_mem := m2, allocations := map_put addr aligned (allocations s),
                        free_ranges := remove_free_range addr aligned (free_ranges s),
                        cum_alloc := cum_alloc s + aligned\<rparr>))"

definition mmap_fixed_noreplace :: "u64 \<Rightarrow> u64 \<Rightarrow> bool \<Rightarrow> u8 \<Rightarrow> Placement \<Rightarrow> u64 \<times> Placement" where
  "mmap_fixed_noreplace addr sz noreserve prot s = mmap_noreplace addr sz noreserve prot False s"

definition mmap_hint :: "u64 \<Rightarrow> u64 \<Rightarrow> bool \<Rightarrow> u8 \<Rightarrow> Placement \<Rightarrow> u64 \<times> Placement" where
  "mmap_hint addr sz noreserve prot s =
     (let (r, s') = mmap_noreplace addr sz noreserve prot True s
      in (if r = UINT64_MAX then 0 else r, s'))"

section \<open>Replacing, unmapping and resizing\<close>

text \<open>
  The part of a tracked allocation inside \<open>[lo, hi)\<close> is dropped and its remainders stay tracked.
  The second component is the dropped part.
\<close>

definition evict_part :: "u64 \<Rightarrow> u64 \<Rightarrow> u64 \<times> u64 \<Rightarrow> u64 \<times> u64" where
  "evict_part lo hi h = (max lo (fst h), min hi (fst h + snd h))"

definition evict_one :: "u64 \<Rightarrow> u64 \<Rightarrow> u64 \<times> u64 \<Rightarrow> Placement \<Rightarrow> Placement" where
  "evict_one lo hi h s =
     (let b = fst h; e = fst h + snd h; (flo, fhi) = evict_part lo hi h;
          a1 = map_erase b (allocations s);
          a2 = (if flo > b then map_put b (flo - b) a1 else a1);
          a3 = (if e > fhi then map_put fhi (e - fhi) a2 else a2)
      in s\<lparr>allocations := a3,
           cum_free := (if fhi > flo then cum_free s + (fhi - flo) else cum_free s)\<rparr>)"

definition mmap_fixed_replace ::
    "u64 \<Rightarrow> u64 \<Rightarrow> bool \<Rightarrow> bool \<Rightarrow> u8 \<Rightarrow> Placement \<Rightarrow> u64 \<times> Placement" where
  "mmap_fixed_replace addr sz0 noreserve zero_contents prot s =
     (let sz = (if sz0 = 0 then PAGE_SIZE else sz0) in
      if addr AND PAGE_MASK \<noteq> 0 \<or> sz > UINT64_MAX - PAGE_MASK then (0, s)
      else
        let aligned = page_align_up sz; hi = addr + aligned in
        if \<not> is_valid_guest_range (p_mem s) addr aligned then (0, s)
        else if \<not> noreserve \<and> sz > MAX_MMAP_LENGTH then (0, s)
        else if meets_stack addr hi s then (0, s)
        else
          let s1 = fold (evict_one addr hi) (ranges_meeting addr hi (allocations s)) s;
              m0 = p_mem s1;
              m1 = detach_file addr hi (m0\<lparr>guard_pages :=
                     {g \<in> guard_pages m0. \<not> (g * PAGE_SIZE \<ge> addr \<and> g * PAGE_SIZE < hi)}\<rparr>);
              m2 = (if zero_contents then zero_range addr hi noreserve m1 else m1);
              m3 = push_cursors hi (set_mapping addr hi prot False False m2)
          in (addr, s1\<lparr>p_mem := m3, free_ranges := remove_free_range addr aligned (free_ranges s1),
                        allocations := map_put addr aligned (allocations s1),
                        cum_alloc := cum_alloc s1 + aligned\<rparr>))"

definition mmap_alloc_callback_stack :: "u64 \<Rightarrow> Placement \<Rightarrow> u64 \<times> Placement" where
  "mmap_alloc_callback_stack usable_size s =
     (let usable = page_align_up usable_size;
          (base, s1) = mmap_alloc (usable + 2 * PAGE_SIZE) 0 False (GUEST_PROT_READ OR GUEST_PROT_WRITE) False s
      in if base = 0 then (0, s1)
         else
           let top = base + PAGE_SIZE + usable;
               m1 = fst (mprotect_guest base PAGE_SIZE 0 (p_mem s1));
               m2 = fst (mprotect_guest top PAGE_SIZE 0 m1)
           in (base + PAGE_SIZE,
               s1\<lparr>p_mem := m2\<lparr>guard_pages := guard_pages m2 \<union> {base div PAGE_SIZE, top div PAGE_SIZE}\<rparr>\<rparr>))"

text \<open>\<open>munmap\<close>.\<close>

definition release_one :: "u64 \<Rightarrow> u64 \<Rightarrow> u64 \<times> u64 \<Rightarrow> Placement \<Rightarrow> Placement" where
  "release_one lo hi h s =
     (let (flo, fhi) = evict_part lo hi h; s1 = evict_one lo hi h s
      in if fhi \<le> flo then s1
         else s1\<lparr>free_ranges := add_free_range flo (fhi - flo) (free_ranges s1)\<rparr>)"

definition untrack_allocation :: "u64 \<Rightarrow> u64 \<Rightarrow> Placement \<Rightarrow> Placement" where
  "untrack_allocation addr sz s =
     (if sz = 0 \<or> addr AND PAGE_MASK \<noteq> 0 \<or> unat addr + unat sz \<ge> 2 ^ 64 then s
      else
        let end_addr = addr + sz;
            hi = (if unat end_addr + 4095 \<ge> 2 ^ 64 then UINT64_MAX else page_align_up end_addr) in
        if hi \<le> addr then s
        else
          let s1 = fold (release_one addr hi) (ranges_meeting addr hi (allocations s)) s
          in upd_mem (\<lambda>m. clear_mapping addr hi (detach_file addr (min hi (window_size m)) m)) s1)"

text \<open>The permissions of the pages of \<open>[lo, hi)\<close>, if every page has them.\<close>

definition page_prots :: "u64 \<Rightarrow> u64 \<Rightarrow> Memory \<Rightarrow> u8 list option" where
  "page_prots lo hi m =
     (let ps = map (\<lambda>p. mapping_prot_at (vmas m) (p * PAGE_SIZE)) (pages lo hi)
      in if None \<in> set ps then None else Some (map the ps))"

text \<open>
  The loop that gives each page of a moved mapping its old permissions; runs of equal permissions
  are set at once. The first argument is the number of the page the list starts with.
\<close>

fun copy_prots :: "u64 \<Rightarrow> u64 \<Rightarrow> u8 list \<Rightarrow> Memory \<Rightarrow> Memory" where
  "copy_prots i new_addr [] m = m"
| "copy_prots i new_addr (q # qs) m =
     (let n = length (takeWhile (\<lambda>x. x = q) qs); j = i + 1 + of_nat n
      in copy_prots j new_addr (drop n qs)
           (set_mapping (new_addr + i * PAGE_SIZE) (new_addr + j * PAGE_SIZE) q False False m))"

definition copy_range :: "u64 \<Rightarrow> u64 \<Rightarrow> u64 \<Rightarrow> Memory \<Rightarrow> Memory" where
  "copy_range dst src n m =
     m\<lparr>mem_bytes := (\<lambda>a. if a - dst < n then mem_bytes m (a - dst + src) else mem_bytes m a)\<rparr>"

text \<open>
  \<open>mremap_grow\<close> of a range whose first page has no file behind it: shrink in place, grow in place,
  or move. What it does with a file mapping needs \<open>map_file\<close> and is not modelled (None).
\<close>

definition mremap_args_ok :: "u64 \<Rightarrow> u64 \<Rightarrow> u64 \<Rightarrow> bool \<Rightarrow> u64 \<Rightarrow> Memory \<Rightarrow> bool" where
  "mremap_args_ok old_addr old_size new_size may_move fixed_addr m \<longleftrightarrow>
     \<not> (old_addr = 0 \<or> old_size = 0 \<or> new_size = 0 \<or> old_addr AND PAGE_MASK \<noteq> 0 \<or>
        fixed_addr \<noteq> 0 \<and> \<not> may_move) \<and>
     \<not> (old_size > MAX_MMAP_LENGTH \<or> new_size > MAX_MMAP_LENGTH) \<and>
     (let old_aligned = page_align_up old_size; new_aligned = page_align_up new_size in
      unat old_addr + unat old_aligned < 2 ^ 64 \<and> unat old_addr + unat new_aligned < 2 ^ 64 \<and>
      is_valid_guest_range m old_addr
        (if fixed_addr \<noteq> 0 then old_aligned else max old_aligned new_aligned) \<and>
      (fixed_addr \<noteq> 0 \<longrightarrow> fixed_addr AND PAGE_MASK = 0 \<and>
         is_valid_guest_range m fixed_addr new_aligned \<and>
         \<not> (old_addr < fixed_addr + new_aligned \<and> fixed_addr < old_addr + old_aligned)))"

definition mremap_move ::
    "u64 \<Rightarrow> u64 \<Rightarrow> u64 \<Rightarrow> u64 \<Rightarrow> u8 list \<Rightarrow> Placement \<Rightarrow> u64 \<times> Placement" where
  "mremap_move old_addr old_aligned new_size fixed_addr prots s =
     (let new_aligned = page_align_up new_size;
          (new_addr, s1) =
            (if fixed_addr \<noteq> 0
             then mmap_fixed_replace fixed_addr new_size False True (GUEST_PROT_READ OR GUEST_PROT_WRITE) s
             else mmap_alloc new_size 0 False (GUEST_PROT_READ OR GUEST_PROT_WRITE) False s)
      in if new_addr = 0 then (0, s1)
         else
           let copy_size = min old_aligned new_aligned;
               n = unat (new_aligned div PAGE_SIZE);
               new_prots = map (\<lambda>i. prots ! min i (length prots - 1)) [0..<n];
               m1 = set_direct_prot old_addr (old_addr + copy_size) 3 (p_mem s1);
               m2 = copy_prots 0 new_addr new_prots (copy_range new_addr old_addr copy_size m1)
           in (new_addr, untrack_allocation old_addr old_aligned (s1\<lparr>p_mem := m2\<rparr>)))"

definition mremap_grow ::
    "u64 \<Rightarrow> u64 \<Rightarrow> u64 \<Rightarrow> bool \<Rightarrow> u64 \<Rightarrow> Placement \<Rightarrow> (u64 \<times> Placement) option" where
  "mremap_grow old_addr old_size new_size may_move fixed_addr s =
     (if \<not> mremap_args_ok old_addr old_size new_size may_move fixed_addr (p_mem s) then Some (0, s)
      else if file_pages (p_mem s) (old_addr div PAGE_SIZE) \<noteq> None then None
      else
        let old_aligned = page_align_up old_size; new_aligned = page_align_up new_size;
            old_end = old_addr + old_aligned; new_end = old_addr + new_aligned;
            tracked = (map_of (allocations s) old_addr = Some old_aligned); m = p_mem s in
        if fixed_addr = 0 \<and> new_aligned \<le> old_aligned then
          (if \<not> tracked then Some (0, s)
           else
             let s1 = s\<lparr>allocations := map_put old_addr new_aligned (allocations s)\<rparr> in
             if new_end < old_end then
               Some (old_addr, (upd_mem (\<lambda>m. clear_mapping new_end old_end (detach_file new_end old_end m)) s1)
                 \<lparr>free_ranges := add_free_range new_end (old_end - new_end) (free_ranges s)\<rparr>)
             else Some (old_addr, s1))
        else if \<not> tracked \<or> \<not> range_mapped (vmas m) old_addr old_end then Some (0, s)
        else case page_prots old_addr old_end m of
          None \<Rightarrow> Some (0, s)
        | Some prots \<Rightarrow>
            if fixed_addr = 0 \<and> \<not> meets_stack old_end new_end s \<and>
               \<not> range_overlaps (vmas m) old_end new_end
            then
              let m1 = zero_range old_end new_end False (detach_file old_end new_end m);
                  m2 = push_cursors new_end (set_mapping old_end new_end (last prots) False False m1)
              in Some (old_addr, s\<lparr>p_mem := m2, allocations := map_put old_addr new_aligned (allocations s),
                     free_ranges := remove_free_range old_end (new_end - old_end) (free_ranges s)\<rparr>)
            else if \<not> may_move then Some (0, s)
            else Some (mremap_move old_addr old_aligned new_size fixed_addr prots s))"

section \<open>Cursors and lookup\<close>

text \<open>\<open>reset_allocator_cursors\<close>, called by \<open>execve\<close>.\<close>

definition reset_allocator_cursors :: "Placement \<Rightarrow> Placement" where
  "reset_allocator_cursors s =
     upd_mem (\<lambda>m. m\<lparr>mmap_next := MMAP_BASE_MIN, high_next := LOW_REGION_SIZE\<rparr>) s"

definition find_allocation :: "u64 \<Rightarrow> Placement \<Rightarrow> u64 option" where
  "find_allocation addr s = map_of (allocations s) addr"

end
