(* ===== verification/RangeProps.thy ===== *)
theory RangeProps
  imports Alloc VmaProps
begin

text \<open>
  The ordered maps of ranges of \<open>Allocation.cpp\<close> as sets of addresses: adding and removing a free
  range, and dropping a part of the tracked allocations. The laws are stated once as a locale and
  hold of both maps.
\<close>

section \<open>Ranges and the addresses they cover\<close>

definition in_range :: "u64 \<Rightarrow> u64 \<Rightarrow> u64 \<Rightarrow> bool" where
  "in_range k n a \<longleftrightarrow> k \<le> a \<and> a < k + n"

definition covers :: "(u64 \<times> u64) list \<Rightarrow> u64 \<Rightarrow> bool" where
  "covers xs a \<longleftrightarrow> (\<exists>e \<in> set xs. in_range (fst e) (snd e) a)"

fun ranges_ok :: "(u64 \<times> u64) list \<Rightarrow> bool" where
  "ranges_ok [] = True"
| "ranges_ok (e # xs) \<longleftrightarrow>
     fst e < fst e + snd e \<and> (\<forall>f \<in> set xs. fst e + snd e \<le> fst f) \<and> ranges_ok xs"

lemma covers_simps [simp]:
  "\<not> covers [] a" "covers (e # xs) a \<longleftrightarrow> in_range (fst e) (snd e) a \<or> covers xs a"
  "covers (xs @ ys) a \<longleftrightarrow> covers xs a \<or> covers ys a"
  by (auto simp: covers_def)

lemma ranges_ok_append:
  "ranges_ok (xs @ ys) \<longleftrightarrow>
     ranges_ok xs \<and> ranges_ok ys \<and> (\<forall>e \<in> set xs. \<forall>f \<in> set ys. fst e + snd e \<le> fst f)"
  by (induction xs) auto

lemma ranges_ok_entry: "ranges_ok xs \<Longrightarrow> e \<in> set xs \<Longrightarrow> fst e < fst e + snd e"
  by (induction xs) auto

lemma ranges_ok_two:
  "ranges_ok xs \<Longrightarrow> e \<in> set xs \<Longrightarrow> f \<in> set xs \<Longrightarrow> e = f \<or> fst e + snd e \<le> fst f \<or> fst f + snd f \<le> fst e"
  by (induction xs) auto

lemma ranges_ok_sorted: "ranges_ok xs \<Longrightarrow> sorted_wrt (<) (map fst xs)"
  by (induction xs) (auto intro: less_le_trans)

lemma ranges_key: "ranges_ok xs \<Longrightarrow> e \<in> set xs \<Longrightarrow> f \<in> set xs \<Longrightarrow> fst e = fst f \<Longrightarrow> e = f"
  using ranges_ok_two [of xs e f] ranges_ok_entry [of xs e] ranges_ok_entry [of xs f] by auto

lemma covers_start: "ranges_ok xs \<Longrightarrow> e \<in> set xs \<Longrightarrow> covers xs (fst e)"
  using ranges_ok_entry [of xs e] by (auto simp: covers_def in_range_def)

text \<open>Around a new range that nothing covers.\<close>

definition clear_of :: "(u64 \<times> u64) list \<Rightarrow> u64 \<Rightarrow> u64 \<Rightarrow> bool" where
  "clear_of xs k n \<longleftrightarrow> (\<forall>a. in_range k n a \<longrightarrow> \<not> covers xs a)"

lemma clear_of_sides:
  assumes "ranges_ok xs" "clear_of xs k n" "k < k + n" "e \<in> set xs"
  shows "fst e < k \<and> fst e + snd e \<le> k \<or> k + n \<le> fst e"
proof -
  have "\<not> covers xs k" using assms(2,3) by (simp add: clear_of_def in_range_def)
  then have 1: "\<not> in_range (fst e) (snd e) k" using assms(4) by (auto simp: covers_def)
  have "\<not> in_range k n (fst e)"
    using assms(2) covers_start [OF assms(1,4)] by (auto simp: clear_of_def)
  then show ?thesis using 1 unfolding in_range_def by auto
qed

lemma while_sorted:
  assumes "ranges_ok xs"
  shows "e \<in> set (dropWhile (\<lambda>e. fst e < k) xs) \<Longrightarrow> k \<le> fst e"
    and "e \<in> set (dropWhile (\<lambda>e. fst e \<le> k) xs) \<Longrightarrow> k < fst e"
  using assms
proof (induction xs)
  case (Cons f xs)
  { case 1 then show ?case using Cons by (auto split: if_splits intro: order_trans less_imp_le) }
  { case 2 then show ?case using Cons by (auto split: if_splits intro: less_le_trans less_trans) }
qed simp_all

lemma map_put_new:
  assumes "ranges_ok xs" "clear_of xs k n" "k < k + n"
  shows "map_put k n xs = takeWhile (\<lambda>e. fst e < k) xs @ (k, n) # dropWhile (\<lambda>e. fst e < k) xs"
    and "set (map_put k n xs) = insert (k, n) (set xs)"
    and "ranges_ok (map_put k n xs)"
    and "covers (map_put k n xs) a \<longleftrightarrow> covers xs a \<or> in_range k n a"
proof -
  let ?t = "takeWhile (\<lambda>e. fst e < k) xs" and ?d = "dropWhile (\<lambda>e. fst e < k) xs"
  note sides = clear_of_sides [OF assms]
  have "fst e \<noteq> k" if "e \<in> set xs" for e using sides [OF that] assms(3) by auto
  then have "dropWhile (\<lambda>e. fst e \<le> k) xs = ?d"
    by (intro dropWhile_cong) (auto simp: order_le_less)
  then show eq: "map_put k n xs = ?t @ (k, n) # ?d" by (simp add: map_put_def)
  have xs: "?t @ ?d = xs" by simp
  then have s: "set xs = set ?t \<union> set ?d" by (metis set_append)
  then show "set (map_put k n xs) = insert (k, n) (set xs)" unfolding eq by auto
  have "ranges_ok ?t" "ranges_ok ?d" "\<forall>e \<in> set ?t. \<forall>f \<in> set ?d. fst e + snd e \<le> fst f"
    using assms(1) xs ranges_ok_append by metis+
  moreover have "fst e + snd e \<le> k" if "e \<in> set ?t" for e
    using sides [of e] that set_takeWhileD [OF that] assms(3) by auto
  moreover have "k + n \<le> fst e" if "e \<in> set ?d" for e
    using sides [of e] that while_sorted(1) [OF assms(1) that] set_dropWhileD [OF that] by auto
  ultimately show "ranges_ok (map_put k n xs)"
    using assms(3) unfolding eq by (simp add: ranges_ok_append)
  have "covers xs a \<longleftrightarrow> covers ?t a \<or> covers ?d a" using covers_simps(3) xs by metis
  then show "covers (map_put k n xs) a \<longleftrightarrow> covers xs a \<or> in_range k n a" unfolding eq by auto
qed

lemma map_erase_props:
  assumes "ranges_ok xs" "r \<in> set xs"
  shows "set (map_erase (fst r) xs) = set xs - {r}" "ranges_ok (map_erase (fst r) xs)"
    and "covers (map_erase (fst r) xs) a \<longleftrightarrow> covers xs a \<and> \<not> in_range (fst r) (snd r) a"
proof -
  show s: "set (map_erase (fst r) xs) = set xs - {r}"
    using ranges_key [OF assms(1) _ assms(2)] by (auto simp: map_erase_def)
  show "ranges_ok (map_erase (fst r) xs)"
    using assms(1) unfolding map_erase_def by (induction xs) auto
  have "\<not> (in_range (fst r) (snd r) a \<and> in_range (fst e) (snd e) a)" if "e \<in> set xs" "e \<noteq> r" for e
    using ranges_ok_two [OF assms(1) that(1) assms(2)] that(2) unfolding in_range_def by auto
  then show "covers (map_erase (fst r) xs) a \<longleftrightarrow> covers xs a \<and> \<not> in_range (fst r) (snd r) a"
    using s assms(2) by (auto simp: covers_def)
qed

section \<open>Cutting a range out\<close>

lemma clear_of_sub: "clear_of xs k n \<Longrightarrow> (\<And>a. in_range k' n' a \<Longrightarrow> in_range k n a) \<Longrightarrow> clear_of xs k' n'"
  by (auto simp: clear_of_def)

lemma map_put_if:
  assumes "ranges_ok ys" "c \<longrightarrow> clear_of ys k n" "c \<longrightarrow> k < k + n"
  shows "ranges_ok (if c then map_put k n ys else ys)" "set ys \<subseteq> set (if c then map_put k n ys else ys)"
    and "covers (if c then map_put k n ys else ys) a \<longleftrightarrow> covers ys a \<or> (c \<and> in_range k n a)"
  using map_put_new [OF assms(1)] assms by (cases c; auto)+

lemma cut_free_range_eq:
  "cut_free_range lo hi r xs =
     (let ys = map_erase (fst r) xs;
          zs = (if fst r < lo then map_put (fst r) (lo - fst r) ys else ys)
      in if hi < fst r + snd r then map_put hi (fst r + snd r - hi) zs else zs)"
  by (simp add: cut_free_range_def Let_def)

lemma pieces:
  assumes "k < hi" "lo < e" "lo < hi" "k < (e :: u64)"
  shows "(k \<le> a \<and> a < e \<and> \<not> (lo \<le> a \<and> a < hi)) \<longleftrightarrow> (k < lo \<and> k \<le> a \<and> a < lo \<or> hi < e \<and> hi \<le> a \<and> a < e)"
  using assms by auto

lemma cut_free_range_props:
  assumes "ranges_ok xs" "r \<in> set xs" "lo < hi" "fst r < hi" "lo < fst r + snd r"
  shows "ranges_ok (cut_free_range lo hi r xs)"
    and "set xs - {r} \<subseteq> set (cut_free_range lo hi r xs)"
    and "covers (cut_free_range lo hi r xs) a \<longleftrightarrow>
           covers xs a \<and> \<not> (in_range (fst r) (snd r) a \<and> lo \<le> a \<and> a < hi)"
proof -
  let ?k = "fst r" and ?e = "fst r + snd r"
  let ?ys = "map_erase ?k xs"
  let ?zs = "if ?k < lo then map_put ?k (lo - ?k) ?ys else ?ys"
  have ne: "?k < ?e" using ranges_ok_entry [OF assms(1,2)] .
  note er = map_erase_props [OF assms(1,2)]
  have left: "in_range ?k (lo - ?k) b \<longleftrightarrow> ?k \<le> b \<and> b < lo" for b by (simp add: in_range_def)
  have right: "in_range hi (?e - hi) b \<longleftrightarrow> hi \<le> b \<and> b < ?e" for b by (simp add: in_range_def)
  have in_r: "in_range ?k (snd r) b \<longleftrightarrow> ?k \<le> b \<and> b < ?e" for b by (simp add: in_range_def)
  have cl1: "?k < lo \<longrightarrow> clear_of ?ys ?k (lo - ?k)"
    unfolding clear_of_def er(3) left in_r using assms(5) by auto
  have lne: "?k < lo \<longrightarrow> ?k < ?k + (lo - ?k)" by simp
  note z = map_put_if [OF er(2) cl1 lne]
  have cl2: "hi < ?e \<longrightarrow> clear_of ?zs hi (?e - hi)"
    unfolding clear_of_def z(3) er(3) right left in_r using assms(3,4) by auto
  have rne: "hi < ?e \<longrightarrow> hi < hi + (?e - hi)" by simp
  note w = map_put_if [OF z(1) cl2 rne]
  have cut: "cut_free_range lo hi r xs = (if hi < ?e then map_put hi (?e - hi) ?zs else ?zs)"
    unfolding cut_free_range_eq Let_def by (rule refl)
  show "ranges_ok (cut_free_range lo hi r xs)" unfolding cut by (rule w(1))
  show "set xs - {r} \<subseteq> set (cut_free_range lo hi r xs)" unfolding cut using w(2) z(2) er(1) by blast
  have "covers xs b" if "?k \<le> b" "b < ?e" for b
    using that assms(2) unfolding covers_def in_range_def by blast
  then show "covers (cut_free_range lo hi r xs) a \<longleftrightarrow>
      covers xs a \<and> \<not> (in_range ?k (snd r) a \<and> lo \<le> a \<and> a < hi)"
    unfolding cut w(3) z(3) er(3) left right in_r using pieces [OF assms(4,5,3) ne, of a] by blast
qed

lemma ranges_meeting_iff:
  assumes "ranges_ok xs" "lo < hi"
  shows "e \<in> set (ranges_meeting lo hi xs) \<longleftrightarrow> e \<in> set xs \<and> fst e < hi \<and> lo < fst e + snd e"
    and "distinct (ranges_meeting lo hi xs)"
proof -
  let ?p = "ranges_before lo xs" and ?q = "ranges_from lo xs"
  have xs: "xs = ?p @ ?q" by (simp add: ranges_before_def ranges_from_def)
  have sx: "set xs = set ?p \<union> set ?q" using arg_cong [OF xs, of set] by (simp only: set_append)
  have p: "fst f < lo" if "f \<in> set ?p" for f using that by (auto simp: ranges_before_def dest: set_takeWhileD)
  have q: "lo \<le> fst f" if "f \<in> set ?q" for f using while_sorted(1) [OF assms(1)] that by (simp add: ranges_from_def)
  have okp: "ranges_ok ?p" and okq: "ranges_ok ?q" using assms(1) xs ranges_ok_append by metis+
  have tw: "f \<in> set (takeWhile (\<lambda>e. fst e < hi) ys) \<longleftrightarrow> f \<in> set ys \<and> fst f < hi" if "ranges_ok ys" for f ys
    using that
  proof (induction ys)
    case (Cons y ys)
    then show ?case by (auto intro: less_trans dest: less_le_trans)
  qed simp
  have last: "f = last ?p" if "f \<in> set ?p" "lo < fst f + snd f" for f
  proof (cases ?p rule: rev_cases)
    case (snoc ys y)
    then have "f \<in> set ys \<Longrightarrow> fst f + snd f \<le> fst y" using okp by (simp add: ranges_ok_append)
    then show ?thesis using snoc that p [of y] by auto
  qed (use that in simp)
  have ex: "fst f < fst f + snd f" if "f \<in> set ?q" for f using ranges_ok_entry [OF okq that] .
  have "e \<in> set (ranges_meeting lo hi xs) \<longleftrightarrow>
      (?p \<noteq> [] \<and> lo < fst (last ?p) + snd (last ?p) \<and> e = last ?p) \<or> (e \<in> set ?q \<and> fst e < hi)"
    by (auto simp: ranges_meeting_def Let_def tw [OF okq])
  also have "\<dots> \<longleftrightarrow> e \<in> set xs \<and> fst e < hi \<and> lo < fst e + snd e" (is "?l \<longleftrightarrow> ?r")
  proof
    assume ?l
    then show ?r
    proof
      assume h: "?p \<noteq> [] \<and> lo < fst (last ?p) + snd (last ?p) \<and> e = last ?p"
      then have "e \<in> set ?p" by simp
      then show ?r using h p [of e] assms(2) sx less_trans [of "fst e" lo hi] by blast
    next
      assume h: "e \<in> set ?q \<and> fst e < hi"
      then show ?r using q [of e] ex [of e] sx le_less_trans [of lo "fst e" "fst e + snd e"] by blast
    qed
  next
    assume r: ?r
    then have "e \<in> set ?p \<or> e \<in> set ?q" using sx by blast
    then show ?l
    proof
      assume h: "e \<in> set ?p"
      then have "?p \<noteq> []" by auto
      then show ?l using last [OF h] r by blast
    next
      assume "e \<in> set ?q"
      then show ?l using r by blast
    qed
  qed
  finally show "e \<in> set (ranges_meeting lo hi xs) \<longleftrightarrow> e \<in> set xs \<and> fst e < hi \<and> lo < fst e + snd e" .
  have "distinct ys" if "ranges_ok ys" for ys using that
  proof (induction ys)
    case (Cons y ys)
    then show ?case by (auto dest: leD)
  qed simp
  then have "distinct (takeWhile (\<lambda>e. fst e < hi) ?q)" using okq by simp
  moreover have "last ?p \<notin> set (takeWhile (\<lambda>e. fst e < hi) ?q)" if "?p \<noteq> []"
    using p [of "last ?p"] q [of "last ?p"] that set_takeWhileD by fastforce
  ultimately show "distinct (ranges_meeting lo hi xs)" by (auto simp: ranges_meeting_def Let_def)
qed

lemma cut_all:
  assumes "ranges_ok xs" "lo < hi" "distinct rs"
    and "\<forall>r \<in> set rs. r \<in> set xs \<and> fst r < hi \<and> lo < fst r + snd r"
  shows "ranges_ok (fold (cut_free_range lo hi) rs xs) \<and>
    (covers (fold (cut_free_range lo hi) rs xs) a \<longleftrightarrow> covers xs a \<and> \<not> (covers rs a \<and> lo \<le> a \<and> a < hi))"
  using assms(1,3,4)
proof (induction rs arbitrary: xs)
  case (Cons r rs)
  have r: "r \<in> set xs" "fst r < hi" "lo < fst r + snd r" using Cons.prems(3) by auto
  note c = cut_free_range_props [OF Cons.prems(1) r(1) assms(2) r(2,3)]
  have rs: "\<forall>q \<in> set rs. q \<in> set (cut_free_range lo hi r xs) \<and> fst q < hi \<and> lo < fst q + snd q"
    using c(2) Cons.prems(2,3) by auto
  have "distinct rs" using Cons.prems(2) by simp
  from Cons.IH [OF c(1) this rs] show ?case using c(3) by auto
qed simp

lemma cut_meeting:
  assumes "ranges_ok xs" "lo < hi"
  shows "ranges_ok (fold (cut_free_range lo hi) (ranges_meeting lo hi xs) xs)"
    and "covers (fold (cut_free_range lo hi) (ranges_meeting lo hi xs) xs) a \<longleftrightarrow>
           covers xs a \<and> \<not> (lo \<le> a \<and> a < hi)"
proof -
  note m = ranges_meeting_iff [OF assms]
  have "\<forall>r \<in> set (ranges_meeting lo hi xs). r \<in> set xs \<and> fst r < hi \<and> lo < fst r + snd r"
    using m(1) by blast
  note c = cut_all [OF assms m(2) this]
  show "ranges_ok (fold (cut_free_range lo hi) (ranges_meeting lo hi xs) xs)" using c by blast
  have "covers (ranges_meeting lo hi xs) a" if "covers xs a" "lo \<le> a" "a < hi"
    using that m(1) unfolding covers_def in_range_def by (meson le_less_trans)
  then show "covers (fold (cut_free_range lo hi) (ranges_meeting lo hi xs) xs) a \<longleftrightarrow>
      covers xs a \<and> \<not> (lo \<le> a \<and> a < hi)"
    using c by blast
qed


section \<open>Adding a range\<close>

lemma in_range_join:
  assumes "a < a + n" "b < b + m" "a + n = (b :: u64)"
  shows "in_range a (n + m) x \<longleftrightarrow> in_range a n x \<or> in_range b m x" "a < a + (n + m)"
proof -
  have e: "a + (n + m) = b + m" using assms(3) by (simp add: add.assoc [symmetric])
  have "a < b" using assms(1,3) by simp
  then show "in_range a (n + m) x \<longleftrightarrow> in_range a n x \<or> in_range b m x" "a < a + (n + m)"
    unfolding in_range_def e assms(3) using assms(2) by auto
qed

lemma drop_entry:
  assumes "ranges_ok (pre @ e # post)"
  shows "ranges_ok (pre @ post)"
    and "covers (pre @ post) a \<longleftrightarrow> covers (pre @ e # post) a \<and> \<not> in_range (fst e) (snd e) a"
proof -
  show "ranges_ok (pre @ post)" using assms by (simp add: ranges_ok_append)
  have "\<not> in_range (fst e) (snd e) a" if c: "covers (pre @ post) a"
  proof -
    obtain f where f: "f \<in> set pre \<union> set post" "fst f \<le> a" "a < fst f + snd f"
      using c unfolding covers_def in_range_def set_append by blast
    then have "fst f + snd f \<le> fst e \<or> fst e + snd e \<le> fst f"
      using assms by (auto simp: ranges_ok_append)
    then show ?thesis using f(2,3) by (auto simp: in_range_def)
  qed
  then show "covers (pre @ post) a \<longleftrightarrow> covers (pre @ e # post) a \<and> \<not> in_range (fst e) (snd e) a"
    by auto
qed

text \<open>A range with the same addresses in all, when taken together with what is left of the map.\<close>

definition same_cover ::
    "(u64 \<times> u64) list \<Rightarrow> u64 \<Rightarrow> u64 \<Rightarrow> (u64 \<times> u64) list \<Rightarrow> u64 \<Rightarrow> u64 \<Rightarrow> bool" where
  "same_cover xs k n ys k' n' \<longleftrightarrow> ranges_ok ys \<and> clear_of ys k' n' \<and> k' < k' + n' \<and>
     (\<forall>a. covers ys a \<or> in_range k' n' a \<longleftrightarrow> covers xs a \<or> in_range k n a)"

lemma same_coverI:
  assumes "ranges_ok (pre @ e # post)" "clear_of (pre @ e # post) k n"
    and "\<And>a. in_range k' n' a \<longleftrightarrow> in_range (fst e) (snd e) a \<or> in_range k n a" "k' < k' + n'"
  shows "same_cover (pre @ e # post) k n (pre @ post) k' n'"
  using drop_entry [OF assms(1)] assms(2-4) unfolding same_cover_def clear_of_def by auto

lemma merge_prev_cover:
  assumes "ranges_ok xs" "clear_of xs k n" "k < k + n" "merge_prev k n xs = (k', n', ys)"
  shows "same_cover xs k n ys k' n'"
proof (cases "ranges_before k xs \<noteq> [] \<and> fst (last (ranges_before k xs)) + snd (last (ranges_before k xs)) = k")
  case False
  then show ?thesis using assms by (auto simp: merge_prev_def same_cover_def)
next
  case True
  obtain pre e where pre: "ranges_before k xs = pre @ [e]" using True by (metis append_butlast_last_id)
  let ?q = "ranges_from k xs"
  have r: "k' = fst e" "n' = snd e + n" "ys = pre @ ?q" and e: "fst e + snd e = k"
    using assms(4) True pre by (auto simp: merge_prev_def)
  have "ranges_before k xs @ ?q = xs" by (simp add: ranges_before_def ranges_from_def)
  then have xs: "xs = pre @ e # ?q" using pre by simp
  have "fst e < fst e + snd e" by (rule ranges_ok_entry [OF assms(1)]) (subst xs, simp)
  note j = in_range_join [OF this assms(3) e]
  show ?thesis unfolding r
    by (rule same_coverI [of pre e ?q, folded xs]) (use assms(1,2) j in simp_all)
qed

lemma merge_next_cover:
  assumes "ranges_ok xs" "clear_of xs k n" "k < k + n" "merge_next k n xs = (k', n', ys)"
  shows "same_cover xs k n ys k' n'"
proof (cases "ranges_from k xs \<noteq> [] \<and> fst (hd (ranges_from k xs)) = k + n")
  case False
  then show ?thesis using assms by (auto simp: merge_next_def same_cover_def)
next
  case True
  obtain e post where post: "ranges_from k xs = e # post" using True by (cases "ranges_from k xs") auto
  let ?p = "ranges_before k xs"
  have r: "k' = k" "n' = n + snd e" "ys = ?p @ post" and e: "k + n = fst e"
    using assms(4) True post by (auto simp: merge_next_def)
  have "?p @ ranges_from k xs = xs" by (simp add: ranges_before_def ranges_from_def)
  then have xs: "xs = ?p @ e # post" using post by simp
  have "fst e < fst e + snd e" by (rule ranges_ok_entry [OF assms(1)]) (subst xs, simp)
  note j = in_range_join [OF assms(3) this e]
  show ?thesis unfolding r
    by (rule same_coverI [of ?p e post, folded xs]) (use assms(1,2) j in auto)
qed

lemma same_cover_trans: "same_cover xs k n ys k' n' \<Longrightarrow> same_cover ys k' n' zs k'' n'' \<Longrightarrow> same_cover xs k n zs k'' n''"
  unfolding same_cover_def by metis

lemma add_free_range_props:
  assumes "ranges_ok xs" "clear_of xs k n" "k < k + n"
  shows "ranges_ok (add_free_range k n xs) \<and> (covers (add_free_range k n xs) a \<longleftrightarrow> covers xs a \<or> in_range k n a)"
proof -
  obtain k1 n1 ys where p: "merge_prev k n xs = (k1, n1, ys)" by (metis prod.exhaust)
  obtain k2 n2 zs where q: "merge_next k1 n1 ys = (k2, n2, zs)" by (metis prod.exhaust)
  note c1 = merge_prev_cover [OF assms p]
  then have ok: "ranges_ok ys" "clear_of ys k1 n1" "k1 < k1 + n1" by (simp_all add: same_cover_def)
  note c = same_cover_trans [OF c1 merge_next_cover [OF ok q]]
  have z: "ranges_ok zs" "clear_of zs k2 n2" "k2 < k2 + n2" using c by (simp_all add: same_cover_def)
  have "n \<noteq> 0" using assms(3) by auto
  then have "add_free_range k n xs = map_put k2 n2 zs" by (simp add: add_free_range_def p q)
  then show ?thesis using map_put_new(3,4) [OF z] c by (simp add: same_cover_def)
qed

text \<open>Every boundary on a page boundary.\<close>

definition ranges_aligned :: "(u64 \<times> u64) list \<Rightarrow> bool" where
  "ranges_aligned xs \<longleftrightarrow> (\<forall>e \<in> set xs. page_aligned (fst e) \<and> page_aligned (fst e + snd e))"

lemma ranges_aligned_sub: "ranges_aligned xs \<Longrightarrow> set ys \<subseteq> set xs \<Longrightarrow> ranges_aligned ys"
  by (auto simp: ranges_aligned_def)

lemma ranges_aligned_parts [simp]:
  "ranges_aligned []" "ranges_aligned (e # xs) \<longleftrightarrow> page_aligned (fst e) \<and> page_aligned (fst e + snd e) \<and> ranges_aligned xs"
  "ranges_aligned (xs @ ys) \<longleftrightarrow> ranges_aligned xs \<and> ranges_aligned ys"
  by (auto simp: ranges_aligned_def)

lemma ranges_aligned_while [simp]:
  "ranges_aligned xs \<Longrightarrow> ranges_aligned (takeWhile P xs)" "ranges_aligned xs \<Longrightarrow> ranges_aligned (dropWhile P xs)"
  "ranges_aligned xs \<Longrightarrow> ranges_aligned (ranges_before k xs)" "ranges_aligned xs \<Longrightarrow> ranges_aligned (ranges_from k xs)"
  "ranges_aligned xs \<Longrightarrow> ranges_aligned (map_erase k xs)"
  by (auto simp: ranges_aligned_def ranges_before_def ranges_from_def map_erase_def
      dest: set_takeWhileD set_dropWhileD)

lemma map_put_aligned:
  "ranges_aligned xs \<Longrightarrow> page_aligned k \<Longrightarrow> page_aligned (k + n) \<Longrightarrow> ranges_aligned (map_put k n xs)"
  by (simp add: map_put_def)

lemma cut_aligned:
  "ranges_aligned xs \<Longrightarrow> page_aligned lo \<Longrightarrow> page_aligned hi \<Longrightarrow> r \<in> set xs \<Longrightarrow>
   ranges_aligned (cut_free_range lo hi r xs)"
  by (auto simp: cut_free_range_eq Let_def ranges_aligned_def [of xs] intro!: map_put_aligned)

lemma merge_aligned:
  assumes "ranges_aligned xs" "page_aligned k" "page_aligned (k + n)"
  shows "merge_prev k n xs = (k', n', ys) \<Longrightarrow> ranges_aligned ys \<and> page_aligned k' \<and> page_aligned (k' + n')"
    and "merge_next k n xs = (k', n', ys) \<Longrightarrow> ranges_aligned ys \<and> page_aligned k' \<and> page_aligned (k' + n')"
proof -
  let ?p = "ranges_before k xs" and ?q = "ranges_from k xs"
  have ap: "ranges_aligned ?p" and aq: "ranges_aligned ?q" using assms(1) by simp_all
  assume m: "merge_prev k n xs = (k', n', ys)"
  show "ranges_aligned ys \<and> page_aligned k' \<and> page_aligned (k' + n')"
  proof (cases "?p \<noteq> [] \<and> fst (last ?p) + snd (last ?p) = k")
    case True
    then obtain pre e where pre: "?p = pre @ [e]" by (metis append_butlast_last_id)
    have e: "fst e + snd e = k" using True pre by simp
    have sum: "fst e + (snd e + n) = k + n" by (simp add: e [symmetric] ac_simps)
    show ?thesis using m True ap aq assms(3) unfolding merge_prev_def Let_def
      by (auto simp: pre sum)
  qed (use m assms in \<open>auto simp: merge_prev_def\<close>)
next
  let ?p = "ranges_before k xs" and ?q = "ranges_from k xs"
  have ap: "ranges_aligned ?p" and aq: "ranges_aligned ?q" using assms(1) by simp_all
  assume m: "merge_next k n xs = (k', n', ys)"
  show "ranges_aligned ys \<and> page_aligned k' \<and> page_aligned (k' + n')"
  proof (cases "?q \<noteq> [] \<and> fst (hd ?q) = k + n")
    case True
    then obtain e post where post: "?q = e # post" by (cases ?q) auto
    have e: "fst e = k + n" using True post by simp
    have sum: "k + (n + snd e) = fst e + snd e" by (simp add: e ac_simps)
    have "ranges_aligned (e # post)" using aq post by simp
    moreover have "k' = k \<and> n' = n + snd e \<and> ys = ?p @ post"
      using m True unfolding merge_next_def Let_def by (auto simp: post)
    ultimately show ?thesis using ap assms(2) by (simp add: sum)
  qed (use m assms in \<open>auto simp: merge_next_def\<close>)
qed

lemma add_aligned:
  assumes "ranges_aligned xs" "page_aligned k" "page_aligned (k + n)"
  shows "ranges_aligned (add_free_range k n xs)"
proof -
  obtain k1 n1 ys where p: "merge_prev k n xs = (k1, n1, ys)" by (metis prod.exhaust)
  obtain k2 n2 zs where q: "merge_next k1 n1 ys = (k2, n2, zs)" by (metis prod.exhaust)
  have "ranges_aligned ys \<and> page_aligned k1 \<and> page_aligned (k1 + n1)" by (rule merge_aligned(1) [OF assms p])
  then have "ranges_aligned zs \<and> page_aligned k2 \<and> page_aligned (k2 + n2)" using merge_aligned(2) q by blast
  then show ?thesis using assms(1) by (simp add: add_free_range_def p q map_put_aligned)
qed


section \<open>The laws of a map of ranges\<close>

text \<open>
  The interface the placement relies on: a range that nothing covers can be put in, any range can
  be taken out, and the addresses covered change by exactly that range.
\<close>

locale range_map =
  fixes put take :: "u64 \<Rightarrow> u64 \<Rightarrow> 'm \<Rightarrow> 'm"
    and cover :: "'m \<Rightarrow> u64 \<Rightarrow> bool"
    and inv :: "'m \<Rightarrow> bool"
  assumes inv_put: "inv m \<Longrightarrow> k < k + n \<Longrightarrow> \<forall>a. in_range k n a \<longrightarrow> \<not> cover m a \<Longrightarrow> inv (put k n m)"
    and cover_put: "inv m \<Longrightarrow> k < k + n \<Longrightarrow> \<forall>a. in_range k n a \<longrightarrow> \<not> cover m a \<Longrightarrow>
          cover (put k n m) a \<longleftrightarrow> cover m a \<or> in_range k n a"
    and inv_take: "inv m \<Longrightarrow> k < k + n \<Longrightarrow> inv (take k n m)"
    and cover_take: "inv m \<Longrightarrow> k < k + n \<Longrightarrow> cover (take k n m) a \<longleftrightarrow> cover m a \<and> \<not> in_range k n a"
begin

text \<open>After taking a range it can be put, and putting then taking leaves what was there.\<close>

lemma put_after_take:
  assumes "inv m" "k < k + n"
  shows "inv (put k n (take k n m)) \<and>
    (cover (put k n (take k n m)) a \<longleftrightarrow> cover m a \<or> in_range k n a)"
proof -
  have f: "\<forall>a. in_range k n a \<longrightarrow> \<not> cover (take k n m) a" using cover_take [OF assms] by simp
  show ?thesis
    using inv_put [OF inv_take [OF assms] assms(2) f] cover_put [OF inv_take [OF assms] assms(2) f]
      cover_take [OF assms] by auto
qed

lemma take_after_put:
  assumes "inv m" "k < k + n" "\<forall>a. in_range k n a \<longrightarrow> \<not> cover m a"
  shows "cover (take k n (put k n m)) a \<longleftrightarrow> cover m a"
  using cover_take [OF inv_put [OF assms] assms(2)] cover_put [OF assms] assms(3) by auto

text \<open>Putting the disjoint ranges of a list one after the other.\<close>

lemma put_all:
  assumes "inv m" "ranges_ok rs" "\<forall>a. covers rs a \<longrightarrow> \<not> cover m a"
  shows "inv (fold (\<lambda>r. put (fst r) (snd r)) rs m) \<and>
    (cover (fold (\<lambda>r. put (fst r) (snd r)) rs m) a \<longleftrightarrow> cover m a \<or> covers rs a)"
  using assms
proof (induction rs arbitrary: m)
  case (Cons r rs)
  let ?m = "put (fst r) (snd r) m"
  have k: "fst r < fst r + snd r" and f: "\<forall>a. in_range (fst r) (snd r) a \<longrightarrow> \<not> cover m a"
    using Cons.prems by auto
  note p = cover_put [OF Cons.prems(1) k f]
  have "\<not> covers rs a" if "in_range (fst r) (snd r) a" for a
    using that Cons.prems(2) by (auto simp: covers_def in_range_def dest: le_less_trans)
  then have "\<forall>a. covers rs a \<longrightarrow> \<not> cover ?m a" using p Cons.prems(3) by auto
  then show ?case
    using Cons.IH [OF inv_put [OF Cons.prems(1) k f]] Cons.prems(2) p by auto
qed simp

end

lemma in_range_window: "in_range lo (hi - lo) a \<longleftrightarrow> lo \<le> a \<and> a < hi"
  by (simp add: in_range_def)

lemma remove_free_range_props:
  assumes "ranges_ok xs" "k < k + n"
  shows "ranges_ok (remove_free_range k n xs)"
    and "covers (remove_free_range k n xs) a \<longleftrightarrow> covers xs a \<and> \<not> in_range k n a"
proof -
  have "n \<noteq> 0" using assms(2) by auto
  then have eq: "remove_free_range k n xs = fold (cut_free_range k (k + n)) (ranges_meeting k (k + n) xs) xs"
    by (simp add: remove_free_range_def)
  show "ranges_ok (remove_free_range k n xs)" unfolding eq by (rule cut_meeting(1) [OF assms])
  show "covers (remove_free_range k n xs) a \<longleftrightarrow> covers xs a \<and> \<not> in_range k n a"
    unfolding eq using cut_meeting(2) [OF assms] by (simp add: in_range_def)
qed

interpretation free: range_map add_free_range remove_free_range covers ranges_ok
  using add_free_range_props remove_free_range_props
  by unfold_locales (simp_all add: clear_of_def)

text \<open>
  The tracked allocations are the same kind of map: \<open>allocations_[k] = n\<close> puts a range, and
  evicting drops what \<open>[lo, hi)\<close> takes of every entry, as cutting a free range does.
\<close>

lemma evict_one_cut: "allocations (evict_one lo hi h s) = cut_free_range lo hi h (allocations s)"
  by (auto simp: evict_one_def evict_part_def cut_free_range_eq Let_def max_def min_def split: prod.split)

lemma fold_evict: "allocations (fold (evict_one lo hi) hs s) = fold (cut_free_range lo hi) hs (allocations s)"
  by (induction hs arbitrary: s) (simp_all add: evict_one_cut)

interpretation tracked: range_map map_put
  "\<lambda>k n xs. fold (cut_free_range k (k + n)) (ranges_meeting k (k + n) xs) xs" covers ranges_ok
  using map_put_new(3,4) cut_meeting
  by unfold_locales (simp_all add: clear_of_def in_range_def)

lemma remove_aligned:
  assumes "ranges_ok xs" "ranges_aligned xs" "k < k + n" "page_aligned k" "page_aligned (k + n)"
  shows "ranges_aligned (remove_free_range k n xs)"
    "ranges_aligned (fold (cut_free_range k (k + n)) (ranges_meeting k (k + n) xs) xs)"
proof -
  have al: "ranges_aligned (fold (cut_free_range lo hi) rs ys)"
    if "page_aligned lo" "page_aligned hi" "ranges_aligned ys" "ranges_aligned rs" for lo hi rs ys
    using that
  proof (induction rs arbitrary: ys)
    case (Cons r rs)
    have "ranges_aligned (cut_free_range lo hi r ys)"
      using Cons.prems by (auto simp: cut_free_range_eq Let_def intro!: map_put_aligned)
    then show ?case using Cons by simp
  qed simp
  have "set (ranges_meeting k (k + n) xs) \<subseteq> set xs" using ranges_meeting_iff [OF assms(1,3)] by auto
  then have "ranges_aligned (ranges_meeting k (k + n) xs)" using assms(2) ranges_aligned_sub by blast
  then show "ranges_aligned (fold (cut_free_range k (k + n)) (ranges_meeting k (k + n) xs) xs)"
    using al assms by blast
  then show "ranges_aligned (remove_free_range k n xs)" using assms(2) by (simp add: remove_free_range_def)
qed

end
