(* ===== verification/AllocProps.thy ===== *)
theory AllocProps
  imports RangeProps MemProps
begin

text \<open>
  Placement: what the bookkeeping of \<open>Allocation.cpp\<close> keeps, and that a new mapping never lands on
  memory in use.
\<close>

section \<open>Parts of the memory the operations leave alone\<close>

text \<open>The window, the cursors and the stack top.\<close>

definition geo :: "Memory \<Rightarrow> u64 \<times> u64 \<times> u64 \<times> u64" where
  "geo m = (window_size m, mmap_next m, high_next m, stack_top m)"

lemma geo_iff:
  "geo m' = geo m \<longleftrightarrow> window_size m' = window_size m \<and> mmap_next m' = mmap_next m \<and>
     high_next m' = high_next m \<and> stack_top m' = stack_top m"
  by (simp add: geo_def)

lemma geo_flag [simp]:
  "geo (set_page_flags p f m) = geo m" "geo (flag_page k r p m) = geo m"
  "geo (set_direct_prot lo hi r m) = geo m" "geo (m\<lparr>vmas := v\<rparr>) = geo m"
  "geo (m\<lparr>guard_pages := g\<rparr>) = geo m" "geo (discard_host l h m) = geo m"
  "geo (m\<lparr>mem_bytes := b\<rparr>) = geo m"
  by (simp_all add: geo_def set_page_flags_def set_software_checks_def flag_page_def set_direct_prot_def
      discard_host_def Let_def)

lemma geo_clear_overlap [simp]: "geo (clear_overlap t ov m) = geo m"
  by (cases ov) (simp add: clear_overlap_def Let_def field_fold [of geo])

lemma geo_set_mapping [simp]: "geo (set_mapping lo hi p False k m) = geo m"
proof -
  have "geo (set_mapping_none lo hi k m') = geo m'" for m'
    unfolding set_mapping_none_def
    by (rule field_fold [of geo]) (auto intro: field_fold [of geo] split: prod.split)
  then show ?thesis by (simp add: set_mapping_def Let_def field_fold [of geo])
qed

lemma geo_clear_mapping [simp]: "geo (clear_mapping lo hi m) = geo m"
proof -
  have "geo (m'\<lparr>vmas := v, guard_pages := g\<rparr>) = geo m'" for m' v g by (simp add: geo_def)
  then show ?thesis by (simp add: clear_mapping_def Let_def field_fold [of geo])
qed

text \<open>Changes that the index and its mirror do not see.\<close>

definition same_map :: "Memory \<Rightarrow> Memory \<Rightarrow> bool" where
  "same_map m m' \<longleftrightarrow> vmas m' = vmas m \<and> page_flags m' = page_flags m"

lemma same_map_ok: "same_map m m' \<Longrightarrow> mem_ok m' = mem_ok m"
  by (simp add: same_map_def mem_ok_def mirror_def)

lemma same_map_ops:
  "same_map m (detach_file lo hi m)" "same_map m (zero_range lo hi nr m)"
  "same_map m (push_cursors e m)" "same_map m (m\<lparr>mmap_next := a\<rparr>)" "same_map m (m\<lparr>high_next := a\<rparr>)"
  "same_map m (m\<lparr>guard_pages := g\<rparr>)"
  by (simp_all add: same_map_def detach_file_def zero_range_def push_cursors_def Let_def)

lemma same_map_trans: "same_map a b \<Longrightarrow> same_map b c \<Longrightarrow> same_map a c"
  by (simp add: same_map_def)

lemma geo_ops [simp]:
  "geo (detach_file lo hi m) = geo m" "geo (zero_range lo hi nr m) = geo m"
  by (simp_all add: geo_def detach_file_def zero_range_def set_direct_prot_def discard_host_def Let_def)

section \<open>The invariant\<close>

definition mapped :: "Placement \<Rightarrow> u64 \<Rightarrow> bool" where
  "mapped s a \<longleftrightarrow> vma_at (vmas (p_mem s)) a \<noteq> None"

definition in_stack :: "Placement \<Rightarrow> u64 \<Rightarrow> bool" where
  "in_stack s a \<longleftrightarrow> stack_bottom s \<le> a \<and> a < stack_top (p_mem s)"

text \<open>What the two bump cursors have passed, and the stack they go around.\<close>

definition passed :: "Placement \<Rightarrow> u64 \<Rightarrow> bool" where
  "passed s a \<longleftrightarrow> (a < LOW_REGION_SIZE \<and> a < mmap_next (p_mem s)) \<or> in_stack s a \<or>
     (LOW_REGION_SIZE \<le> a \<and> a < high_next (p_mem s))"

definition layout_ok :: "Placement \<Rightarrow> bool" where
  "layout_ok s \<longleftrightarrow> page_aligned (window_size (p_mem s)) \<and> LOW_REGION_SIZE \<le> window_size (p_mem s) \<and>
     window_size (p_mem s) \<le> 0x400000000000 \<and> page_aligned (mmap_next (p_mem s)) \<and>
     PAGE_SIZE \<le> mmap_next (p_mem s) \<and> page_aligned (high_next (p_mem s)) \<and> page_aligned (stack_top (p_mem s)) \<and>
     STACK_SIZE \<le> stack_top (p_mem s) \<and> stack_top (p_mem s) \<le> LOW_REGION_SIZE \<and> \<not> guard_allocs s"

definition placement_ok :: "Placement \<Rightarrow> bool" where
  "placement_ok s \<longleftrightarrow> mem_ok (p_mem s) \<and> layout_ok s \<and>
     ranges_ok (allocations s) \<and> ranges_aligned (allocations s) \<and>
     ranges_ok (free_ranges s) \<and> ranges_aligned (free_ranges s) \<and>
     (\<forall>a. covers (allocations s) a \<longrightarrow> mapped s a) \<and>
     (\<forall>a. covers (free_ranges s) a \<longrightarrow> \<not> mapped s a) \<and>
     (\<forall>a. covers (allocations s) a \<or> covers (free_ranges s) a \<longrightarrow> PAGE_SIZE \<le> a) \<and>
     (\<forall>a. mapped s a \<or> covers (free_ranges s) a \<longrightarrow> a < window_size (p_mem s) \<and> passed s a)"

lemma placement_okD:
  assumes "placement_ok s"
  shows "mem_ok (p_mem s)" "vma_ok (vmas (p_mem s))" "layout_ok s"
    "ranges_ok (allocations s)" "ranges_aligned (allocations s)" "ranges_ok (free_ranges s)"
    "ranges_aligned (free_ranges s)" "covers (allocations s) a \<Longrightarrow> mapped s a"
    "covers (free_ranges s) a \<Longrightarrow> \<not> mapped s a"
    "mapped s a \<or> covers (free_ranges s) a \<Longrightarrow> a < window_size (p_mem s) \<and> passed s a"
    "covers (allocations s) a \<or> covers (free_ranges s) a \<Longrightarrow> 4096 \<le> a"
  using assms by (auto simp: placement_ok_def mem_ok_def)

text \<open>A state with no more of the map covered, and no less passed, keeps it.\<close>

definition same_layout :: "Placement \<Rightarrow> Placement \<Rightarrow> bool" where
  "same_layout s s' \<longleftrightarrow> window_size (p_mem s') = window_size (p_mem s) \<and>
     stack_top (p_mem s') = stack_top (p_mem s) \<and> guard_allocs s' = guard_allocs s \<and>
     mmap_next (p_mem s) \<le> mmap_next (p_mem s') \<and> high_next (p_mem s) \<le> high_next (p_mem s') \<and>
     page_aligned (mmap_next (p_mem s')) \<and> page_aligned (high_next (p_mem s'))"

lemma same_layout_ok: "same_layout s s' \<Longrightarrow> layout_ok s \<Longrightarrow> layout_ok s'"
  by (auto simp: same_layout_def layout_ok_def intro: order_trans)

lemma same_layout_refl: "layout_ok s \<Longrightarrow> same_layout s s"
  by (simp add: same_layout_def layout_ok_def)

lemma same_layout_trans: "same_layout s t \<Longrightarrow> same_layout t u \<Longrightarrow> same_layout s u"
  by (auto simp: same_layout_def intro: order_trans)

lemma same_layout_passed: "same_layout s s' \<Longrightarrow> passed s a \<Longrightarrow> passed s' a"
  by (auto simp: same_layout_def passed_def in_stack_def stack_bottom_def intro: less_le_trans)

lemma placement_claim:
  assumes ok: "placement_ok s" and k: "k < k + n" "4096 \<le> k" and al: "page_aligned k" "page_aligned (k + n)"
    and w: "k + n \<le> window_size (p_mem s)" and lay: "same_layout s s'"
    and mem: "mem_ok (p_mem s')" "\<And>a. mapped s' a \<longleftrightarrow> mapped s a \<or> in_range k n a"
    and tr: "ranges_ok (allocations s')" "ranges_aligned (allocations s')"
      "\<And>a. covers (allocations s') a \<Longrightarrow> covers (allocations s) a \<or> in_range k n a"
    and fr: "ranges_ok (free_ranges s')" "ranges_aligned (free_ranges s')"
      "\<And>a. covers (free_ranges s') a \<Longrightarrow> covers (free_ranges s) a \<and> \<not> in_range k n a"
    and pa: "\<And>a. in_range k n a \<Longrightarrow> passed s' a"
  shows "placement_ok s'"
proof -
  note D = placement_okD [OF ok]
  have "a < window_size (p_mem s') \<and> passed s' a" if "mapped s' a \<or> covers (free_ranges s') a" for a
  proof (cases "in_range k n a")
    case True
    then show ?thesis using pa w lay by (auto simp: in_range_def same_layout_def intro: less_le_trans)
  next
    case False
    then have "mapped s a \<or> covers (free_ranges s) a" using that mem(2) fr(3) by blast
    then show ?thesis using D(10) same_layout_passed [OF lay] lay by (auto simp: same_layout_def)
  qed
  moreover have "covers (allocations s') a \<Longrightarrow> mapped s' a" for a using tr(3) mem(2) D(8) by blast
  moreover have "covers (free_ranges s') a \<Longrightarrow> \<not> mapped s' a" for a using fr(3) mem(2) D(9) by blast
  moreover have "4096 \<le> a" if "covers (allocations s') a \<or> covers (free_ranges s') a" for a
    using that tr(3) fr(3) D(11) k(2) unfolding in_range_def by (meson order_trans)
  ultimately show ?thesis
    using mem(1) same_layout_ok [OF lay D(3)] tr(1,2) fr(1,2) unfolding placement_ok_def by blast
qed

section \<open>Sizes\<close>

lemma page_align_up_props:
  assumes "sz \<le> UINT64_MAX - 4095" "sz \<noteq> 0"
  shows "page_aligned (page_align_up sz)" "sz \<le> page_align_up sz"
    "unat (page_align_up sz) < unat sz + 4096" "page_align_up sz \<noteq> 0"
proof -
  show al: "page_aligned (page_align_up sz)" by (simp add: page_align_up_def page_aligned_and [simplified])
  have "unat sz \<le> 18446744073709547520" using assms(1) by (simp add: word_le_nat_alt)
  then have nw: "unat (sz + 4095) = unat sz + 4095" by (simp add: unat_word_ariths)
  have e: "page_align_up sz = (sz + 4095) - (sz + 4095) mod 4096"
  proof -
    have "x AND NOT 4095 = x - x mod (4096 :: u64)" for x :: u64
    proof -
      have m: "(4095 :: u64) = mask 12" by (simp add: mask_eq_exp_minus_1)
      have "(x AND NOT (mask 12)) + (x AND mask 12) = (x AND NOT (mask 12)) OR (x AND mask 12)"
        by (rule disjunctive_add_eq_or) (simp add: bit_eq_iff bit_simps)
      also have "\<dots> = x" by (rule bit_word_eqI) (auto simp: bit_simps)
      finally have "x AND NOT (mask 12) = x - (x AND mask 12)" by (simp add: eq_diff_eq)
      then show ?thesis unfolding m by (simp add: take_bit_eq_mod flip: take_bit_eq_mask)
    qed
    then show ?thesis by (simp add: page_align_up_def)
  qed
  have un: "unat (page_align_up sz) = unat sz + 4095 - (unat sz + 4095) mod 4096"
    unfolding e using nw by (simp add: unat_sub_if' unat_mod)
  show "sz \<le> page_align_up sz" unfolding word_le_nat_alt un by (simp add: le_diff_conv2)
  show un2: "unat (page_align_up sz) < unat sz + 4096" unfolding un by arith
  have p: "0 < unat sz" using assms(2) by (simp add: unat_gt_0)
  have "unat sz \<le> unat (page_align_up sz)" using \<open>sz \<le> page_align_up sz\<close> by (simp add: word_le_nat_alt)
  then show "page_align_up sz \<noteq> 0" using p by auto
qed

section \<open>Choosing a place\<close>

text \<open>The cursors moved up, nothing else.\<close>

definition only_cursors :: "Placement \<Rightarrow> Placement \<Rightarrow> bool" where
  "only_cursors s s' \<longleftrightarrow> same_layout s s' \<and> same_map (p_mem s) (p_mem s') \<and>
     allocations s' = allocations s \<and> free_ranges s' = free_ranges s"

lemma only_cursors_refl: "layout_ok s \<Longrightarrow> only_cursors s s"
  by (simp add: only_cursors_def same_layout_refl same_map_def)

lemma only_cursors_trans: "only_cursors s t \<Longrightarrow> only_cursors t u \<Longrightarrow> only_cursors s u"
  unfolding only_cursors_def by (metis same_layout_trans same_map_trans)

lemma only_cursors_ok: "only_cursors s s' \<Longrightarrow> placement_ok s \<Longrightarrow> placement_ok s'"
proof -
  assume c: "only_cursors s s'" and ok: "placement_ok s"
  then have l: "same_layout s s'" and e: "allocations s' = allocations s" "free_ranges s' = free_ranges s"
    and m: "mem_ok (p_mem s')" "mapped s' = mapped s"
    using same_map_ok [of "p_mem s" "p_mem s'"] placement_okD(1) [OF ok]
    by (auto simp: only_cursors_def mapped_def same_map_def fun_eq_iff)
  note D = placement_okD [OF ok]
  show ?thesis
    using D same_layout_ok [OF l] same_layout_passed [OF l] l m
    unfolding placement_ok_def e by (auto simp: same_layout_def)
qed

lemma no_wrap: "b < b + n \<Longrightarrow> unat b + unat n < 2 ^ 64" for b n :: u64
proof (rule ccontr)
  assume lt: "b < b + n" and "\<not> unat b + unat n < 2 ^ 64"
  then have ge: "2 ^ 64 \<le> unat b + unat n" by simp
  have "unat (b + n) = (unat b + unat n) mod 2 ^ 64" by (simp add: unat_word_ariths)
  also have "\<dots> = (unat b + unat n - 2 ^ 64) mod 2 ^ 64" using ge by (rule le_mod_geq)
  also have "\<dots> = unat b + unat n - 2 ^ 64" using unat_u64 [of b] unat_u64 [of n] by simp
  finally have "unat (b + n) < unat b" using unat_u64 [of n] ge by simp
  then show False using lt by (simp add: word_less_nat_alt)
qed

lemma no_wrap_unat: "b < b + n \<Longrightarrow> unat (b + n) = unat b + unat n" for b n :: u64
  using no_wrap [of b n] by (simp add: unat_word_ariths)

lemma range_within:
  assumes "b < b + m" "n \<le> m" "n \<noteq> (0 :: u64)"
  shows "b < b + n" "b + n \<le> b + m"
proof -
  have "unat (b + n) = unat b + unat n"
    using no_wrap [OF assms(1)] assms(2) by (simp add: unat_word_ariths word_le_nat_alt)
  then show "b < b + n" "b + n \<le> b + m"
    using no_wrap_unat [OF assms(1)] assms(2,3)
    by (simp_all add: word_less_nat_alt word_le_nat_alt unat_gt_0)
qed

text \<open>A free place for \<open>n\<close> bytes.\<close>

definition fresh_place :: "Placement \<Rightarrow> Placement \<Rightarrow> u64 \<Rightarrow> u64 \<Rightarrow> bool \<Rightarrow> bool" where
  "fresh_place s s' b n reused \<longleftrightarrow> page_aligned b \<and> 4096 \<le> b \<and> b < b + n \<and> b + n \<le> window_size (p_mem s) \<and>
     (\<forall>a. in_range b n a \<longrightarrow> \<not> mapped s a \<and> (\<not> reused \<longrightarrow> \<not> covers (free_ranges s) a) \<and> passed s' a)"

lemma reusable_range_fresh:
  assumes "placement_ok s" "reusable_range n s = Some b" "n \<noteq> 0"
  shows "fresh_place s s b n True"
proof -
  note D = placement_okD [OF assms(1)]
  obtain m where m: "(b, m) \<in> set (free_ranges s)" "n \<le> m"
    using assms(2) nth_mem by (fastforce simp: reusable_range_def find_Some_iff)
  have bm: "b < b + m" using ranges_ok_entry [OF D(6) m(1)] by simp
  note bn = range_within [OF bm m(2) assms(3)]
  have c: "covers (free_ranges s) a" if "in_range b n a" for a
    unfolding covers_def by (rule bexI [OF _ m(1)]) (use that bn(2) in \<open>auto simp: in_range_def\<close>)
  have "covers (free_ranges s) b" using c bn(1) by (simp add: in_range_def)
  moreover have "b + n \<le> window_size (p_mem s)"
  proof -
    have l: "b \<le> b + n - 1" "b + n - 1 < b + n" using bn(1) by unat_arith+
    then have "b + n - 1 < window_size (p_mem s)" using c D(10) by (auto simp: in_range_def)
    then show ?thesis using l(2) by unat_arith
  qed
  ultimately show ?thesis
    using c D(7) D(9-11) m(1) bn(1) unfolding fresh_place_def ranges_aligned_def by auto
qed


lemma page_aligned_add: "page_aligned a \<Longrightarrow> page_aligned b \<Longrightarrow> page_aligned (a + b)"
proof -
  assume "page_aligned a" "page_aligned b"
  then obtain k l where kl: "unat a = 4096 * k" "unat b = 4096 * l" by (metis page_alignedE)
  have "unat (a + b) mod 4096 = (unat a + unat b) mod 2 ^ 64 mod 4096" by (simp add: unat_word_ariths)
  also have "\<dots> = (unat a + unat b) mod 4096" by (rule mod_mod_cancel) simp
  finally show "page_aligned (a + b)" using kl by (simp add: page_aligned_unat)
qed

text \<open>The two outcomes of the bump: above the low cursor or the stack, or above the high cursor.\<close>

lemma low_place:
  assumes "placement_ok s" "n \<noteq> 0" "page_aligned n"
    and b: "b = mmap_next (p_mem s) \<and> \<not> meets_stack b (b + n) s \<or>
            b = stack_top (p_mem s) \<and> mmap_next (p_mem s) \<le> stack_top (p_mem s)"
    and "unat b + unat n < 2 ^ 64" "b + n \<le> LOW_REGION_SIZE"
    and s': "s' = upd_mem (\<lambda>m. m\<lparr>mmap_next := b + n\<rparr>) s"
  shows "only_cursors s s'" "fresh_place s s' b n False"
proof -
  note D = placement_okD [OF assms(1)]
  note L = D(3) [unfolded layout_ok_def]
  have lt: "b < b + n" using assms(2,5) by (simp add: word_less_nat_alt unat_word_ariths unat_gt_0)
  have al: "page_aligned b" "page_aligned (b + n)" using L b page_aligned_add assms(3) by auto
  have mb: "mmap_next (p_mem s) \<le> b" using b by auto
  then have "mmap_next (p_mem s) \<le> b + n" using lt by simp
  then show "only_cursors s s'"
    using L al(2) by (simp add: only_cursors_def same_layout_def s' upd_mem_def same_map_ops)
  have st: "4096 \<le> stack_top (p_mem s)"
    using L order_trans [of "0x1000" "0x4000000" "stack_top (p_mem s)"] by simp
  have b4: "4096 \<le> b" using b L st by auto
  have "\<not> passed s a \<and> passed s' a" if "in_range b n a" for a
  proof
    have a: "b \<le> a" "a < b + n" using that by (simp_all add: in_range_def)
    have low: "a < LOW_REGION_SIZE" using a(2) assms(6) by (rule less_le_trans)
    have "\<not> in_stack s a"
      using b a by (auto simp: in_stack_def meets_stack_def not_less dest: le_less_trans less_le_trans)
    then show "\<not> passed s a" using low mb a(1) by (auto simp: passed_def)
    show "passed s' a" using low a(2) by (simp add: passed_def s' upd_mem_def)
  qed
  then show "fresh_place s s' b n False"
    using al(1) b4 lt assms(6) L D(10) unfolding fresh_place_def by (meson order_trans)
qed

lemma high_place:
  assumes "placement_ok s" "n \<noteq> 0" "page_aligned n"
    and b: "b = max LOW_REGION_SIZE (high_next (p_mem s))"
    and room: "unat b + unat n \<le> unat (window_size (p_mem s))"
    and nxt: "page_aligned nxt" "mmap_next (p_mem s) \<le> nxt"
    and s': "s' = upd_mem (\<lambda>m. m\<lparr>high_next := b + n\<rparr>) (upd_mem (\<lambda>m. m\<lparr>mmap_next := nxt\<rparr>) s)"
  shows "only_cursors s s'" "fresh_place s s' b n False"
proof -
  note D = placement_okD [OF assms(1)]
  note L = D(3) [unfolded layout_ok_def]
  have un: "unat (b + n) = unat b + unat n" using room unat_u64 [of "window_size (p_mem s)"] by (simp add: unat_word_ariths)
  have lt: "b < b + n" using assms(2) un by (simp add: word_less_nat_alt unat_gt_0)
  have w: "b + n \<le> window_size (p_mem s)" using room un by (simp add: word_le_nat_alt)
  have "page_aligned (0x100000000 :: u64)" by (simp add: page_aligned_def)
  then have al: "page_aligned b" "page_aligned (b + n)" using L b page_aligned_add assms(3) by (auto simp: max_def)
  have hb: "high_next (p_mem s) \<le> b" "LOW_REGION_SIZE \<le> b" using b by auto
  then have "high_next (p_mem s) \<le> b + n" using lt by simp
  then show "only_cursors s s'"
    using al(2) nxt L by (simp add: only_cursors_def same_layout_def s' upd_mem_def same_map_def)
  have "\<not> passed s a \<and> passed s' a" if "in_range b n a" for a
  proof
    have a: "b \<le> a" "a < b + n" using that by (simp_all add: in_range_def)
    have low: "LOW_REGION_SIZE \<le> a" using hb(2) a(1) by (rule order_trans)
    have "\<not> in_stack s a" using low L by (auto simp: in_stack_def)
    then show "\<not> passed s a" using low hb(1) a(1) by (auto simp: passed_def)
    show "passed s' a" using low a(2) by (simp add: passed_def s' upd_mem_def)
  qed
  moreover have "4096 \<le> b" using order_trans [OF _ hb(2), of "0x1000"] by simp
  ultimately show "fresh_place s s' b n False"
    using al(1) lt w D(10) unfolding fresh_place_def by meson
qed

text \<open>
  The bump allocation finds its place when the low cursor does not wrap and the request fits
  above the high cursor.
\<close>

definition roomy :: "Placement \<Rightarrow> u64 \<Rightarrow> bool" where
  "roomy s n \<longleftrightarrow> unat (mmap_next (p_mem s)) + unat n < 2 ^ 64 \<and>
     unat (max LOW_REGION_SIZE (high_next (p_mem s))) + unat n \<le> unat (window_size (p_mem s))"

lemma bump_fresh:
  assumes "placement_ok s" "n \<noteq> 0" "page_aligned n" "roomy s n"
  shows "\<exists>b s'. bump_range n s = (Some (b, False), s') \<and> only_cursors s s' \<and> fresh_place s s' b n False"
proof -
  note D = placement_okD [OF assms(1)]
  note L = D(3) [unfolded layout_ok_def]
  let ?low = "mmap_next (p_mem s)" and ?top = "stack_top (p_mem s)" and ?w = "window_size (p_mem s)"
  let ?high = "max LOW_REGION_SIZE (high_next (p_mem s))"
  have room: "unat ?high + unat n \<le> unat ?w" and nw: "unat ?low + unat n < 2 ^ 64"
    using assms(4) by (simp_all add: roomy_def)
  have fits: "\<not> (?high \<ge> ?w \<or> n > ?w - ?high)"
  proof -
    have "0 < unat n" using assms(2) by (simp add: unat_gt_0)
    then have "unat ?high < unat ?w" using room by linarith
    then have "?high < ?w" by (simp add: word_less_nat_alt)
    moreover have "n \<le> ?w - ?high"
      using room calculation by (simp add: word_le_nat_alt unat_sub less_imp_le)
    ultimately show ?thesis unfolding de_Morgan_disj not_le not_less by blast
  qed
  define base where "base = (if meets_stack ?low (?low + n) s then
      if low_hints_reserved s then LOW_REGION_SIZE else ?top else ?low)"
  define nxt where "nxt = (if meets_stack ?low (?low + n) s then
      if low_hints_reserved s then ?low else ?top + n else ?low + n)"
  have low_le: "?low \<le> ?low + n" using nw by (simp add: word_le_nat_alt unat_word_ariths)
  have wle: "unat ?w \<le> 2 ^ 46" using L by (simp add: word_le_nat_alt)
  have tle: "unat ?top \<le> 2 ^ 32" using L by (simp add: word_le_nat_alt)
  have tnw: "unat ?top + unat n < 2 ^ 64" using tle room wle by simp
  have nxt: "page_aligned nxt" "?low \<le> nxt"
    using L assms(3) page_aligned_add low_le tnw
    by (auto simp: nxt_def meets_stack_def word_le_nat_alt word_less_nat_alt unat_word_ariths)
  let ?s1 = "upd_mem (\<lambda>m. m\<lparr>mmap_next := nxt\<rparr>) s"
  have bump: "bump_range n s =
      (if base + n > LOW_REGION_SIZE then
         (Some (?high, False), upd_mem (\<lambda>m. m\<lparr>high_next := ?high + n\<rparr>) ?s1)
       else (Some (base, False), ?s1))"
    using fits by (auto simp: bump_range_def base_def nxt_def Let_def upd_mem_def)
  show ?thesis
  proof (cases "base + n > LOW_REGION_SIZE")
    case True
    then show ?thesis using bump high_place [OF assms(1-3) refl room nxt refl] by auto
  next
    case False
    have "\<not> (meets_stack ?low (?low + n) s \<and> low_hints_reserved s)"
    proof
      assume "meets_stack ?low (?low + n) s \<and> low_hints_reserved s"
      then have "base = LOW_REGION_SIZE" by (simp add: base_def)
      moreover have "(0x100000000 :: u64) < 0x100000000 + n"
        using assms(2) room wle by (simp add: word_less_nat_alt unat_word_ariths unat_gt_0)
      ultimately show False using False by simp
    qed
    then have b: "base = ?low \<and> \<not> meets_stack base (base + n) s \<or> base = ?top \<and> ?low \<le> ?top" "nxt = base + n"
      by (auto simp: base_def nxt_def meets_stack_def)
    moreover have "unat base + unat n < 2 ^ 64" using b(1) tnw nw by auto
    ultimately show ?thesis
      using bump False low_place [OF assms(1-3) b(1), of "?s1"] by (simp add: not_less)
  qed
qed


lemma find_gap_fresh:
  assumes "placement_ok s" "g = find_gap (vmas (p_mem s)) b limit n" "g \<noteq> 0" "n \<noteq> 0"
  shows "b \<le> g" "g < g + n" "g + n \<le> limit" "\<And>a. in_range g n a \<Longrightarrow> \<not> mapped s a"
proof -
  note f = find_gap_sound [OF placement_okD(2) [OF assms(1)], of b limit n, folded assms(2), OF assms(3)]
  show "b \<le> g" "g + n \<le> limit" using f fits_end by blast+
  show "g < g + n" using f fits_nonempty assms(4) word_neq_0_conv by blast
  show "\<not> mapped s a" if "in_range g n a" for a
    using f that by (simp add: free_window_def in_range_def mapped_def)
qed

lemma gap_loop_keeps_alignment:
  assumes "index_aligned xs" "page_aligned cur"
  shows "page_aligned (gap_loop cur limit n xs)"
  using assms
proof (induction cur limit n xs rule: gap_loop.induct)
  case (1 cur limit sz)
  then show ?case by (simp add: page_aligned_def)
next
  case (2 cur limit sz k v xs)
  then have "page_aligned (max cur (v_end v))" "index_aligned xs"
    by (auto simp: index_aligned_def max_def)
  then show ?case using 2 by (simp add: page_aligned_def)
qed

lemma find_gap_aligned:
  assumes "index_aligned xs" "page_aligned b"
  shows "page_aligned (find_gap xs b limit n)"
proof -
  have "index_aligned (before_ub b xs)" "index_aligned (from_ub b xs)"
    using assms(1) edges_while unfolding index_aligned_def before_ub_def from_ub_def by blast+
  moreover have "page_aligned (v_end (snd (last (before_ub b xs))))" if "before_ub b xs \<noteq> []"
    using calculation(1) last_in_set [OF that] unfolding index_aligned_def edges_def by blast
  ultimately show ?thesis
    using assms(2) by (auto simp: find_gap_def Let_def intro!: gap_loop_keeps_alignment)
qed

lemma push_cursors_layout:
  assumes "layout_ok s" "page_aligned e"
  shows "only_cursors s (upd_mem (push_cursors e) s)"
  using assms by (auto simp: only_cursors_def same_layout_def layout_ok_def upd_mem_def same_map_def
      push_cursors_def Let_def max_def)

lemma push_cursors_passed: "geo (p_mem s') = geo (push_cursors e m) \<Longrightarrow> a < e \<Longrightarrow> passed s' a"
  by (auto simp: passed_def push_cursors_def Let_def geo_def max_def not_less split: if_splits
      intro: less_le_trans)

text \<open>Where \<open>mmap_alloc\<close> without a hint goes.\<close>

lemma choose_range_fresh:
  assumes "placement_ok s" "n \<noteq> 0" "page_aligned n" "roomy s n" "choose_range n 0 direct s = (r, s')"
  shows "only_cursors s s' \<and>
    (case r of None \<Rightarrow> direct \<and> s' = s | Some (b, reused) \<Rightarrow> fresh_place s s' b n reused)"
proof (cases direct)
  case False
  then have c: "choose_range n 0 direct s =
      (case reusable_range n s of Some b \<Rightarrow> (Some (b, True), s) | None \<Rightarrow> bump_range n s)"
    by (simp add: choose_range_def Let_def)
  show ?thesis
  proof (cases "reusable_range n s")
    case None
    then show ?thesis using bump_fresh [OF assms(1-4)] assms(5) unfolding c by auto
  next
    case (Some b)
    then show ?thesis
      using reusable_range_fresh [OF assms(1) Some assms(2)] assms(5) only_cursors_refl placement_okD(3) [OF assms(1)]
      unfolding c by auto
  qed
next
  case True
  note D = placement_okD [OF assms(1)]
  note L = D(3) [unfolded layout_ok_def]
  let ?limit = "min LOW_REGION_SIZE (stack_bottom s)"
  define g where "g = find_gap (vmas (p_mem s)) MMAP_BASE_MIN ?limit n"
  have c: "choose_range n 0 direct s =
      (if g = 0 then (None, s) else if \<not> is_valid_guest_range (p_mem s) g n then (None, s)
       else (Some (g, True), upd_mem (push_cursors (g + n)) s))"
    using True by (simp add: choose_range_def Let_def g_def)
  show ?thesis
  proof (cases "g = 0 \<or> \<not> is_valid_guest_range (p_mem s) g n")
    case True
    then show ?thesis using assms(5) only_cursors_refl [OF D(3)] \<open>direct\<close> unfolding c by (auto split: if_splits)
  next
    case False
    then have g0: "g \<noteq> 0" by blast
    note f = find_gap_fresh [OF assms(1) g_def g0 assms(2)]
    have "index_aligned (vmas (p_mem s))" using D(1) by (simp add: mem_ok_def)
    then have al: "page_aligned g" unfolding g_def by (rule find_gap_aligned) (simp add: page_aligned_def)
    then have al': "page_aligned (g + n)" using page_aligned_add assms(3) by blast
    have "4096 \<le> g" using order_trans [OF _ f(1), of "0x1000"] by simp
    moreover have "g + n \<le> window_size (p_mem s)"
      using order_trans [OF f(3), of "window_size (p_mem s)"] L by (simp add: min_le_iff_disj)
    moreover have "passed (upd_mem (push_cursors (g + n)) s) a" if "in_range g n a" for a
      by (rule push_cursors_passed [of _ "g + n" "p_mem s"]) (use that in \<open>simp_all add: in_range_def upd_mem_def\<close>)
    ultimately have "fresh_place s (upd_mem (push_cursors (g + n)) s) g n True"
      using f al by (simp add: fresh_place_def)
    then show ?thesis using False assms(5) push_cursors_layout [OF D(3) al'] unfolding c by auto
  qed
qed


section \<open>Taking the place\<close>

lemma untracked: "placement_ok s \<Longrightarrow> (\<And>a. in_range b n a \<Longrightarrow> \<not> mapped s a) \<Longrightarrow> clear_of (allocations s) b n"
  using placement_okD(8) by (auto simp: clear_of_def)

text \<open>The new mapping, tracked, on a place that was free.\<close>

lemma take_place:
  assumes "placement_ok s" "fresh_place s u b n reused" "page_aligned n" "same_layout s s'" "prot \<le> 7"
    and "same_map (p_mem s) m" "same_map (set_mapping b (b + n) prot False False m) (p_mem s')"
    and "allocations s' = map_put b n (allocations s)"
    and "free_ranges s' = (if reused then remove_free_range b n (free_ranges s) else free_ranges s)"
    and "\<And>a. in_range b n a \<Longrightarrow> passed s' a"
  shows "placement_ok s'"
    and "vma_at (vmas (p_mem s')) a = (if in_range b n a then Some prot else vma_at (vmas (p_mem s)) a)"
proof -
  note D = placement_okD [OF assms(1)]
  have b: "page_aligned b" "4096 \<le> b" "b < b + n" "b + n \<le> window_size (p_mem s)"
    and f: "\<And>a. in_range b n a \<Longrightarrow> \<not> mapped s a \<and> (\<not> reused \<longrightarrow> \<not> covers (free_ranges s) a)"
    using assms(2) by (auto simp: fresh_place_def)
  have al: "page_aligned (b + n)" using page_aligned_add [OF b(1) assms(3)] .
  have m: "mem_ok m" "vmas m = vmas (p_mem s)"
    using same_map_ok [OF assms(6)] D(1) assms(6) by (simp_all add: same_map_def)
  note sm = set_mapping_plain_ok [OF m(1) b(1) al assms(5) b(3), of False]
  show at: "vma_at (vmas (p_mem s')) a = (if in_range b n a then Some prot else vma_at (vmas (p_mem s)) a)" for a
    using sm(2) [of a] assms(7) m(2) by (simp add: same_map_def in_range_def)
  have mem: "mem_ok (p_mem s')" using same_map_ok [OF assms(7)] sm(1) by simp
  note pt = map_put_new [OF D(4) untracked [OF assms(1), of b n] b(3)]
  note rm = remove_free_range_props [OF D(6) b(3)]
  show "placement_ok s'"
  proof (rule placement_claim [OF assms(1) b(3,2,1) al b(4) assms(4) mem])
    show "mapped s' a \<longleftrightarrow> mapped s a \<or> in_range b n a" for a by (simp add: mapped_def at)
    show "ranges_ok (allocations s')" using pt(3) f assms(8) by simp
    show "ranges_aligned (allocations s')" using map_put_aligned [OF D(5) b(1) al] assms(8) by simp
    show "covers (allocations s) a \<or> in_range b n a" if "covers (allocations s') a" for a
      using that pt(4) f assms(8) by simp
    show "ranges_ok (free_ranges s')" "ranges_aligned (free_ranges s')"
      using rm(1) D(6,7) remove_aligned(1) [OF D(6,7) b(3,1) al] assms(9) by simp_all
    show "covers (free_ranges s) a \<and> \<not> in_range b n a" if "covers (free_ranges s') a" for a
      using that rm(2) f assms(9) by (auto split: if_splits)
  qed (rule assms(10))
qed

text \<open>The operations in terms of that.\<close>

lemma upd_mem_fields [simp]:
  "p_mem (upd_mem f s) = f (p_mem s)" "allocations (upd_mem f s) = allocations s"
  "free_ranges (upd_mem f s) = free_ranges s" "guard_allocs (upd_mem f s) = guard_allocs s"
  by (simp_all add: upd_mem_def)

lemma same_layout_geo:
  "same_layout s s' \<Longrightarrow> geo (p_mem t) = geo (p_mem s') \<Longrightarrow> guard_allocs t = guard_allocs s' \<Longrightarrow> same_layout s t"
  by (simp add: same_layout_def geo_def)

lemma passed_geo: "passed s a \<Longrightarrow> geo (p_mem t) = geo (p_mem s) \<Longrightarrow> passed t a"
  by (simp add: passed_def in_stack_def stack_bottom_def geo_def)

lemma zero_detach:
  "geo (zero_range lo hi nr (detach_file lo' hi' m)) = geo m"
  "same_map m (zero_range lo hi nr (detach_file lo' hi' m))"
  using same_map_trans same_map_ops by (simp, blast)

definition mmap_length :: "u64 \<Rightarrow> u64" where
  "mmap_length sz = page_align_up (if sz = 0 then PAGE_SIZE else sz)"

lemma map_of_put [simp]: "map_of (map_put k n xs) k = Some n"
proof -
  have "map_of (takeWhile (\<lambda>e. fst e < k) xs @ ys) k = map_of ys k" for ys
    by (induction xs) auto
  from this [of "(k, n) # dropWhile (\<lambda>e. fst e \<le> k) xs"] show ?thesis
    by (simp add: map_put_def del: map_of_append)
qed

lemma mmap_alloc_steps:
  assumes "choose_range (mmap_length sz) 0 direct s = (Some (b, reused), s1)" "\<not> guard_allocs s1"
    and "mmap_alloc sz 0 nr prot direct s \<noteq> (0, s)"
  obtains t where "mmap_alloc sz 0 nr prot direct s = (b, t)"
    "p_mem t = set_mapping b (b + mmap_length sz) prot False False
       (if reused then zero_range b (b + mmap_length sz) nr (detach_file b (b + mmap_length sz) (p_mem s1))
        else p_mem s1)"
    "allocations t = map_put b (mmap_length sz) (allocations s1)" "guard_allocs t = guard_allocs s1"
    "free_ranges t = (if reused then remove_free_range b (mmap_length sz) (free_ranges s1) else free_ranges s1)"
  using assms unfolding mmap_alloc_def Let_def mmap_length_def [symmetric]
  by (auto simp: mmap_length_def [symmetric] split: if_splits)

lemma mmap_alloc_ok:
  assumes "placement_ok s" "prot \<le> 7" "roomy s (mmap_length sz)" "mmap_alloc sz 0 nr prot direct s = (r, s')"
  shows "placement_ok s' \<and>
    (if r = 0 then vmas (p_mem s') = vmas (p_mem s) \<and> allocations s' = allocations s \<and> free_ranges s' = free_ranges s
     else page_aligned r \<and> r < r + mmap_length sz \<and> r + mmap_length sz \<le> window_size (p_mem s) \<and>
       (\<forall>a. in_range r (mmap_length sz) a \<longrightarrow> \<not> mapped s a) \<and>
       (\<forall>a. vma_at (vmas (p_mem s')) a =
          (if in_range r (mmap_length sz) a then Some prot else vma_at (vmas (p_mem s)) a)) \<and>
       find_allocation r s' = Some (mmap_length sz))"
proof -
  let ?sz = "if sz = 0 then 4096 else sz" and ?n = "mmap_length sz"
  note D = placement_okD [OF assms(1)]
  consider (refused) "(r, s') = (0, s)" | (tried) "\<not> ?sz > UINT64_MAX - 4095"
    and "(r, s') \<noteq> (0, s)"
    using assms(4) unfolding mmap_alloc_def Let_def by (auto split: if_splits)
  then show ?thesis
  proof cases
    case refused
    then show ?thesis using assms(1) by simp
  next
    case tried
    have n: "?n \<noteq> 0" "page_aligned ?n"
      using page_align_up_props [of ?sz] tried(1) by (simp_all add: mmap_length_def not_less)
    obtain c s1 where c: "choose_range ?n 0 direct s = (c, s1)" by (metis prod.exhaust)
    note ch = choose_range_fresh [OF assms(1) n assms(3) c]
    show ?thesis
    proof (cases c)
      case None
      then show ?thesis using tried(2) assms(4) c ch
        unfolding mmap_alloc_def Let_def mmap_length_def [symmetric] by (auto split: if_splits)
    next
      case (Some br)
      obtain b reused where br: "c = Some (b, reused)" using Some by (cases br) auto
      have oc: "only_cursors s s1" and fp: "fresh_place s s1 b ?n reused" using ch br by auto
      have sl: "same_layout s s1" "\<not> guard_allocs s1" and same: "allocations s1 = allocations s" "free_ranges s1 = free_ranges s"
        and sm: "same_map (p_mem s) (p_mem s1)"
        using oc D(3) by (auto simp: only_cursors_def same_layout_def layout_ok_def)
      obtain t where t: "mmap_alloc sz 0 nr prot direct s = (b, t)"
        "p_mem t = set_mapping b (b + ?n) prot False False
           (if reused then zero_range b (b + ?n) nr (detach_file b (b + ?n) (p_mem s1)) else p_mem s1)"
        "allocations t = map_put b ?n (allocations s1)" "guard_allocs t = guard_allocs s1"
        "free_ranges t = (if reused then remove_free_range b ?n (free_ranges s1) else free_ranges s1)"
        using mmap_alloc_steps [OF c [unfolded br] sl(2), of nr prot] tried(2) assms(4) by metis
      let ?m = "if reused then zero_range b (b + ?n) nr (detach_file b (b + ?n) (p_mem s1)) else p_mem s1"
      have m: "same_map (p_mem s) ?m" "geo ?m = geo (p_mem s1)"
        using same_map_trans [OF sm zero_detach(2)] sm by simp_all
      have g: "geo (p_mem t) = geo (p_mem s1)" unfolding t(2) using m(2) by simp
      have lay: "same_layout s t" using same_layout_geo [OF sl(1) g t(4)] .
      have pt: "passed t a" if "in_range b ?n a" for a
        using fp that passed_geo [OF _ g] by (auto simp: fresh_place_def)
      have sm': "same_map (set_mapping b (b + ?n) prot False False ?m) (p_mem t)"
        unfolding t(2) by (simp add: same_map_def)
      note tp = take_place [OF assms(1) fp n(2) lay assms(2) m(1) sm' t(3) [unfolded same] t(5) [unfolded same] pt]
      have rt: "r = b" "s' = t" using t(1) assms(4) by auto
      have "b \<noteq> 0" using fp by (auto simp: fresh_place_def)
      then show ?thesis
        using tp fp t(3) by (simp add: rt fresh_place_def find_allocation_def)
    qed
  qed
qed

end
