(* ===== verification/AllocSafety.thy ===== *)
theory AllocSafety
  imports AllocProps
begin

text \<open>
  The operations of \<open>Allocation.cpp\<close> on a consistent placement: mapping at a fixed place with and
  without replacing, unmapping, and what each leaves of the invariant; and the states where a new
  mapping does land on memory in use.
\<close>

section \<open>Bytes\<close>

lemma mem_bytes_set_page_flags [simp]: "mem_bytes (set_page_flags p f m) = mem_bytes m"
  by (simp add: set_page_flags_def set_software_checks_def Let_def)

lemma mem_bytes_flag [simp]:
  "mem_bytes (flag_page k r p m) = mem_bytes m" "mem_bytes (set_direct_prot lo hi r m) = mem_bytes m"
  by (simp_all add: flag_page_def set_direct_prot_def Let_def)

lemma mem_bytes_mapping [simp]: "mem_bytes (set_mapping lo hi p False k m) = mem_bytes m"
proof -
  have "mem_bytes (set_mapping_none lo hi k m') = mem_bytes m'" for m'
    unfolding set_mapping_none_def
    by (rule field_fold [of mem_bytes]) (auto intro: field_fold [of mem_bytes] split: prod.split)
  then show ?thesis by (simp add: set_mapping_def Let_def field_fold [of mem_bytes])
qed

text \<open>Unmapping gives up bytes of its range.\<close>

lemma clear_overlap_bytes:
  "\<not> (a \<le> x \<and> x < b) \<Longrightarrow> mem_bytes (clear_overlap t (a, b, q) m) x = mem_bytes m x"
  by (auto simp: clear_overlap_def Let_def discard_host_bytes field_fold [of mem_bytes])

lemma overlaps_in_bounds: "(a, b, q) \<in> set (overlaps_in lo hi xs) \<Longrightarrow> lo \<le> a \<and> b \<le> hi"
  by (auto simp: overlaps_in_def)

lemma clear_bytes:
  assumes "\<not> (lo \<le> x \<and> x < hi)"
  shows "mem_bytes (clear_mapping lo hi m) x = mem_bytes m x"
proof -
  let ?h = "min hi (window_size m)"
  have out: "\<not> (a \<le> x \<and> x < b)" if "(a, b, q) \<in> set (overlaps_in lo ?h (vmas m))" for a b q
    using overlaps_in_bounds [OF that] assms by auto
  have "mem_bytes (fold (clear_overlap (uffd_tracking m)) (overlaps_in lo ?h (vmas m)) m) x = mem_bytes m x"
    by (rule field_fold_in [where g = "\<lambda>m. mem_bytes m x"]) (auto intro: clear_overlap_bytes dest: out)
  then show ?thesis by (simp add: clear_mapping_def Let_def)
qed

lemma mem_bytes_push [simp]: "mem_bytes (push_cursors e m) = mem_bytes m"
  by (simp add: push_cursors_def Let_def)

lemma file_pages_set_mapping [simp]: "file_pages (set_mapping lo hi p False k m) = file_pages m"
proof -
  have f: "file_pages (set_page_flags q f m') = file_pages m'" for q f m'
    by (simp add: set_page_flags_def set_software_checks_def Let_def)
  have d: "file_pages (set_direct_prot lo' hi' r m') = file_pages m'" for r m' lo' hi'
    by (simp add: set_direct_prot_def Let_def)
  have "file_pages (clear_overlap t ov m') = file_pages m'" for t ov m'
    by (cases ov) (simp add: clear_overlap_def Let_def field_fold [of file_pages] f d)
  have fp: "file_pages (flag_page k r q m') = file_pages m'" for k r q m'
    by (simp add: flag_page_def Let_def f)
  moreover have "file_pages (set_mapping_none lo hi k m') = file_pages m'" for m'
    unfolding set_mapping_none_def
    by (rule field_fold [of file_pages]) (auto simp: fp field_fold [of file_pages] split: prod.split)
  ultimately show ?thesis by (simp add: set_mapping_def Let_def field_fold [of file_pages] fp d)
qed

lemma file_pages_push [simp]: "file_pages (push_cursors e m) = file_pages m"
  by (simp add: push_cursors_def Let_def)

lemma zero_parts:
  assumes "mem_bytes m1 = mem_bytes m" "file_pages m1 = file_pages m"
    and "m2 = (if lo < e then (let m' = set_direct_prot lo e 3 m1
                 in m'\<lparr>mem_bytes := (\<lambda>a. if lo \<le> a \<and> a < e then 0 else mem_bytes m' a)\<rparr>) else m1)"
  shows "mem_bytes (if max lo e < h then discard_host (max lo e) h m2 else m2) a =
    (if lo \<le> a \<and> a < e then 0 else if lo \<le> a \<and> a < h then refault m a else mem_bytes m a)"
proof -
  have m2: "mem_bytes m2 a = (if lo \<le> a \<and> a < e then 0 else mem_bytes m a)" "file_pages m2 = file_pages m"
    using assms by (auto simp: Let_def set_direct_prot_def)
  have "refault m2 a = refault m a" if "\<not> (lo \<le> a \<and> a < e)"
    using that m2 by (auto simp: refault_def split: option.split)
  then show ?thesis using m2(1) by (auto simp: discard_host_bytes max_def not_less)
qed

text \<open>Every byte of a zeroed range is zero when the range has lost its file pages, and no other changes.\<close>

lemma zero_range_bytes:
  "\<exists>e. mem_bytes (zero_range lo hi nr m) a =
    (if lo \<le> a \<and> a < e \<and> e \<le> min hi (window_size m) then 0
     else if lo \<le> a \<and> a < min hi (window_size m) then refault m a else mem_bytes m a)"
proof (cases "lo < min hi (window_size m)")
  case False
  then have h: "min hi (window_size m) \<le> lo" by (simp only: not_less)
  then have z: "zero_range lo hi nr m = m" by (simp only: zero_range_def Let_def if_True)
  have "\<not> (lo \<le> a \<and> a < min hi (window_size m))" using h by (meson leD order_trans)
  then show ?thesis unfolding z by (intro exI [of _ 0]) (simp only: if_False word_not_simps simp_thms)
next
  case True
  let ?h = "min hi (window_size m)"
  let ?e = "if nr \<or> ?h - lo > 0x1000000 then lo else min ?h LOW_REGION_SIZE"
  let ?m1 = "if lo = ?e \<and> \<not> nr \<and> lo < ?h \<and> lo < LOW_REGION_SIZE
                  then set_direct_prot lo (min ?h LOW_REGION_SIZE) 3 m else m"
  have e: "?e \<le> ?h"
    by (rule if_split [THEN iffD2], intro conjI impI, rule less_imp_le [OF True], rule min.cobounded1)
  have "mem_bytes ?m1 = mem_bytes m" "file_pages ?m1 = file_pages m" by (simp_all add: set_direct_prot_def)
  note z = zero_parts [OF this refl, of lo ?e ?h a]
  have nl: "(?h \<le> lo) = False" using True by (simp only: not_le [symmetric] simp_thms)
  have "zero_range lo hi nr m =
      (let m2 = (if lo < ?e then (let m' = set_direct_prot lo ?e 3 ?m1
                 in m'\<lparr>mem_bytes := (\<lambda>a. if lo \<le> a \<and> a < ?e then 0 else mem_bytes m' a)\<rparr>) else ?m1)
       in if max lo ?e < ?h then discard_host (max lo ?e) ?h m2 else m2)"
    by (simp only: zero_range_def Let_def nl if_False)
  then show ?thesis using z e unfolding Let_def by (intro exI [of _ ?e]) (simp only: simp_thms)
qed

lemma zero_bytes: "\<not> (lo \<le> a \<and> a < hi) \<Longrightarrow> mem_bytes (zero_range lo hi nr m) a = mem_bytes m a"
  using zero_range_bytes [of lo hi nr m a] by auto

lemma zeroed_bytes:
  assumes "lo \<le> a" "a < hi" "hi \<le> window_size m" "file_pages m (a div PAGE_SIZE) = None"
  shows "mem_bytes (zero_range lo hi nr m) a = 0"
  using zero_range_bytes [of lo hi nr m a] assms by (auto simp: refault_def min_absorb1 split: if_splits)

lemma file_pages_zero [simp]: "file_pages (zero_range lo hi nr m) = file_pages m"
  by (simp add: zero_range_def discard_host_def set_direct_prot_def Let_def)

lemma kept_detached: "file_pages m p = None \<Longrightarrow> file_pages (detach_file lo hi m) p = None"
  by (simp add: detach_file_def Let_def)

lemma zeroed_detached:
  assumes "lo \<le> a" "a < hi" "hi \<le> window_size m"
  shows "mem_bytes (zero_range lo hi nr (detach_file lo hi m)) a = 0"
proof (rule zeroed_bytes [OF assms(1,2)])
  have "lo div 4096 \<le> a div 4096" using assms(1) by (simp add: word_le_nat_alt unat_div div_le_mono)
  moreover have "a div 4096 * 4096 \<le> a"
    by (simp add: word_le_nat_alt unat_div unat_word_ariths mod_less [OF le_less_trans [OF _ unsigned_less]])
  ultimately show "file_pages (detach_file lo hi m) (a div 4096) = None"
    using assms(2) by (simp add: detach_file_def Let_def order.strict_trans1)
qed (use assms(3) in \<open>simp add: detach_file_def Let_def\<close>)

lemma detach_bytes:
  assumes "page_aligned lo" "page_aligned hi" "\<not> (lo \<le> a \<and> a < hi)"
  shows "mem_bytes (detach_file lo hi m) a = mem_bytes m a"
proof -
  have "\<not> (lo div 4096 \<le> a div 4096 \<and> a div 4096 * 4096 < hi)"
  proof
    assume h: "lo div 4096 \<le> a div 4096 \<and> a div 4096 * 4096 < hi"
    obtain k l where kl: "unat lo = 4096 * k" "unat hi = 4096 * l" using assms(1,2) by (metis page_alignedE)
    have "unat (a div 4096 * 4096) = unat a div 4096 * 4096"
      using unat_u64 [of a] by (simp add: unat_word_ariths unat_div)
    then have "unat a div 4096 < l" using h kl(2) by (simp add: word_less_nat_alt)
    moreover have "k \<le> unat a div 4096" using h kl(1) by (simp add: word_le_nat_alt unat_div)
    ultimately have "unat a < l * 4096" "k * 4096 \<le> unat a"
      by (simp_all add: div_less_iff_less_mult less_eq_div_iff_mult_less_eq)
    then have "lo \<le> a" "a < hi" using kl by (simp_all add: word_less_nat_alt word_le_nat_alt mult.commute)
    then show False using assms(3) by blast
  qed
  then show ?thesis by (auto simp: detach_file_def Let_def)
qed

section \<open>Cursors after a mapping at a given place\<close>

lemma geo_push: "geo m = geo m' \<Longrightarrow> geo (push_cursors e m) = geo (push_cursors e m')"
  by (simp add: geo_def push_cursors_def Let_def)

lemma pushed:
  assumes "layout_ok s" "page_aligned e" "geo (p_mem s') = geo (push_cursors e (p_mem s))"
    and "guard_allocs s' = guard_allocs s"
  shows "same_layout s s'" "a < e \<Longrightarrow> passed s' a"
proof -
  have "same_layout s (upd_mem (push_cursors e) s)"
    using push_cursors_layout [OF assms(1,2)] by (simp add: only_cursors_def)
  then show "same_layout s s'" by (rule same_layout_geo) (simp_all add: assms)
  show "a < e \<Longrightarrow> passed s' a" by (rule push_cursors_passed [OF assms(3)])
qed

lemma valid_range:
  assumes "is_valid_guest_range m b n" "n \<noteq> 0" "page_aligned b"
  shows "4096 \<le> b" "b < b + n" "b + n \<le> window_size m"
proof -
  have v: "\<not> b < 4096" "\<not> b \<ge> window_size m" "\<not> n > window_size m - b"
    using assms(1,2) by (auto simp: is_valid_guest_range_def split: if_splits)
  then show "4096 \<le> b" by simp
  have "fits b (window_size m) n" using v by (simp add: fits_def not_le not_less)
  then show "b < b + n" "b + n \<le> window_size m" using fits_end fits_nonempty assms(2) word_neq_0_conv by blast+
qed

section \<open>A place asked for\<close>

lemma page_aligned_length: "sz \<noteq> 0 \<Longrightarrow> \<not> sz > UINT64_MAX - 4095 \<Longrightarrow> page_align_up sz \<noteq> 0 \<and> page_aligned (page_align_up sz)"
  using page_align_up_props [of sz] by (simp add: not_less)

text \<open>The place a request without replacement is for: a low hint moves up to the first gap.\<close>

definition asked_place :: "u64 \<Rightarrow> u64 \<Rightarrow> bool \<Rightarrow> Placement \<Rightarrow> u64" where
  "asked_place addr n hint s =
     (if hint \<and> addr < LOW_REGION_SIZE then find_gap (vmas (p_mem s)) addr LOW_REGION_SIZE n else addr)"

lemma if_chain:
  assumes "(if a then x else if \<not> v then x else if c then x else if d then x else if e then x
      else if f then y else if g then x else z) = w"
    and "w = x \<Longrightarrow> P" "w = y \<Longrightarrow> \<not> a \<Longrightarrow> v \<Longrightarrow> \<not> e \<Longrightarrow> f \<Longrightarrow> P"
    and "w = z \<Longrightarrow> \<not> a \<Longrightarrow> v \<Longrightarrow> \<not> e \<Longrightarrow> \<not> f \<Longrightarrow> \<not> g \<Longrightarrow> P"
  shows P
  using assms by (auto split: if_splits)

lemma if_chain_short:
  assumes "(if a then x else if \<not> v then x else if c then x else if g then x else z) = w" "w \<noteq> x"
  shows "w = z \<and> \<not> a \<and> v \<and> \<not> g"
  using assms by (auto split: if_splits)

lemma mmap_noreplace_steps:
  assumes "mmap_noreplace addr sz nr prot hint s = (r, s')"
  obtains (refused) "r = 0" "s' = s"
  | (overlaps) "r = UINT64_MAX" "s' = s" "asked_place addr (page_align_up sz) hint s \<noteq> 0" "range_overlaps (vmas (p_mem s)) (asked_place addr (page_align_up sz) hint s)
        (asked_place addr (page_align_up sz) hint s + page_align_up sz)"
  | (taken) "r = asked_place addr (page_align_up sz) hint s" "r \<noteq> 0" "sz \<noteq> 0" "\<not> sz > UINT64_MAX - 4095"
      "page_aligned addr" "is_valid_guest_range (p_mem s) addr (page_align_up sz)"
      "\<not> range_overlaps (vmas (p_mem s)) r (r + page_align_up sz)" "\<not> meets_stack r (r + page_align_up sz) s"
      "s' = s\<lparr>p_mem := set_mapping r (r + page_align_up sz) prot False False (push_cursors (r + page_align_up sz)
               (zero_range r (r + page_align_up sz) nr (detach_file r (r + page_align_up sz) (p_mem s)))),
             allocations := map_put r (page_align_up sz) (allocations s),
             free_ranges := remove_free_range r (page_align_up sz) (free_ranges s),
             cum_alloc := cum_alloc s + page_align_up sz\<rparr>"
proof -
  let ?n = "page_align_up sz"
  let ?p = "asked_place addr ?n hint s"
  let ?low = "hint \<and> addr < LOW_REGION_SIZE"
  have eq: "mmap_noreplace addr sz nr prot hint s =
     (if sz = 0 \<or> addr AND 4095 \<noteq> 0 \<or> sz > UINT64_MAX - 4095 then (0, s)
      else if \<not> is_valid_guest_range (p_mem s) addr ?n then (0, s)
      else if \<not> nr \<and> sz > MAX_MMAP_LENGTH then (0, s)
      else if ?low \<and> ?n > LOW_REGION_SIZE - addr then (0, s)
      else if ?low \<and> ?p = 0 then (0, s)
      else if range_overlaps (vmas (p_mem s)) ?p (?p + ?n) then (UINT64_MAX, s)
      else if meets_stack ?p (?p + ?n) s then (0, s)
      else (?p, s\<lparr>p_mem := set_mapping ?p (?p + ?n) prot False False (push_cursors (?p + ?n)
               (zero_range ?p (?p + ?n) nr (detach_file ?p (?p + ?n) (p_mem s)))),
             allocations := map_put ?p ?n (allocations s),
             free_ranges := remove_free_range ?p ?n (free_ranges s),
             cum_alloc := cum_alloc s + ?n\<rparr>))"
    by (simp only: mmap_noreplace_def asked_place_def Let_def)
  have p0: "?p \<noteq> 0" if "\<not> (sz = 0 \<or> addr AND 4095 \<noteq> 0 \<or> sz > UINT64_MAX - 4095)"
    "is_valid_guest_range (p_mem s) addr ?n" "\<not> (?low \<and> ?p = 0)"
  proof -
    have "page_aligned addr" using that(1) page_aligned_iff by blast
    then show ?thesis
      using that(3) valid_range(1) [OF that(2)] page_aligned_length [of sz] that(1) by (auto simp: asked_place_def)
  qed
  from assms [unfolded eq] show ?thesis
  proof (rule if_chain)
    assume "(r, s') = (0, s)"
    then show ?thesis using refused by simp
  next
    assume w: "(r, s') = (UINT64_MAX, s)" and c: "\<not> (sz = 0 \<or> addr AND 4095 \<noteq> 0 \<or> sz > UINT64_MAX - 4095)"
      "is_valid_guest_range (p_mem s) addr ?n" "\<not> (?low \<and> ?p = 0)" "range_overlaps (vmas (p_mem s)) ?p (?p + ?n)"
    show ?thesis by (rule overlaps) (use w c(4) p0 [OF c(1-3)] in simp_all)
  next
    assume w: "(r, s') = (?p, s\<lparr>p_mem := set_mapping ?p (?p + ?n) prot False False (push_cursors (?p + ?n)
               (zero_range ?p (?p + ?n) nr (detach_file ?p (?p + ?n) (p_mem s)))),
             allocations := map_put ?p ?n (allocations s),
             free_ranges := remove_free_range ?p ?n (free_ranges s),
             cum_alloc := cum_alloc s + ?n\<rparr>)"
      and c: "\<not> (sz = 0 \<or> addr AND 4095 \<noteq> 0 \<or> sz > UINT64_MAX - 4095)"
      "is_valid_guest_range (p_mem s) addr ?n" "\<not> (?low \<and> ?p = 0)"
      "\<not> range_overlaps (vmas (p_mem s)) ?p (?p + ?n)" "\<not> meets_stack ?p (?p + ?n) s"
    show ?thesis
      by (rule taken) (use w c p0 [OF c(1-3)] page_aligned_iff in \<open>simp_all del: mask_eq_exp_minus_1\<close>)
  qed
qed

lemma asked_place_valid:
  assumes "placement_ok s" "is_valid_guest_range (p_mem s) addr n" "n \<noteq> 0" "page_aligned addr"
    and "b = asked_place addr n hint s" "b \<noteq> 0"
  shows "page_aligned b" "4096 \<le> b" "b < b + n" "b + n \<le> window_size (p_mem s)"
proof -
  note D = placement_okD [OF assms(1)]
  note L = D(3) [unfolded layout_ok_def]
  note v = valid_range [OF assms(2-4)]
  have "page_aligned b \<and> 4096 \<le> b \<and> b < b + n \<and> b + n \<le> window_size (p_mem s)"
  proof (cases "hint \<and> addr < LOW_REGION_SIZE")
    case True
    then have b: "b = find_gap (vmas (p_mem s)) addr LOW_REGION_SIZE n" using assms(5) by (simp add: asked_place_def)
    note f = find_gap_fresh [OF assms(1) b assms(6,3)]
    have "index_aligned (vmas (p_mem s))" using D(1) by (simp add: mem_ok_def)
    then have "page_aligned b" unfolding b by (rule find_gap_aligned [OF _ assms(4)])
    then show ?thesis using f v(1) L by (meson order_trans)
  next
    case False
    then show ?thesis using v assms(4,5) by (auto simp: asked_place_def)
  qed
  then show "page_aligned b" "4096 \<le> b" "b < b + n" "b + n \<le> window_size (p_mem s)" by auto
qed

lemma mmap_noreplace_ok:
  assumes "placement_ok s" "prot \<le> 7" "mmap_noreplace addr sz nr prot hint s = (r, s')"
  shows "placement_ok s' \<and>
    (if r = 0 then s' = s
     else if r = UINT64_MAX then s' = s \<and> (hint \<longrightarrow> LOW_REGION_SIZE \<le> addr) \<and>
       (\<exists>a. in_range addr (page_align_up sz) a \<and> mapped s a)
     else (hint \<and> addr < LOW_REGION_SIZE \<or> r = addr) \<and> r + page_align_up sz \<le> window_size (p_mem s) \<and>
       (\<forall>a. in_range r (page_align_up sz) a \<longrightarrow> \<not> mapped s a \<and> \<not> in_stack s a) \<and>
       (\<forall>a. vma_at (vmas (p_mem s')) a =
          (if in_range r (page_align_up sz) a then Some prot else vma_at (vmas (p_mem s)) a)) \<and>
       find_allocation r s' = Some (page_align_up sz))"
  using assms(3)
proof (cases rule: mmap_noreplace_steps)
  case refused
  then show ?thesis using assms(1) by simp
next
  case overlaps
  let ?p = "asked_place addr (page_align_up sz) hint s" and ?n = "page_align_up sz"
  note D = placement_okD [OF assms(1)]
  obtain a where a: "?p \<le> a" "a < ?p + ?n" "mapped s a"
    using overlaps(4) range_overlaps_iff [OF D(2)] by (auto simp: mapped_def)
  show ?thesis
  proof (cases "hint \<and> addr < LOW_REGION_SIZE")
    case True
    then have p: "?p = find_gap (vmas (p_mem s)) addr LOW_REGION_SIZE ?n" by (simp add: asked_place_def)
    have "?n \<noteq> 0" using a by auto
    then have False using find_gap_fresh(4) [OF assms(1) p overlaps(3), of a] a by (simp add: in_range_def)
    then show ?thesis ..
  next
    case False
    then have "?p = addr" by (auto simp: asked_place_def)
    then show ?thesis using a overlaps(1,2) assms(1) False by (auto simp: in_range_def not_less)
  qed
next
  case taken
  let ?n = "page_align_up sz"
  note D = placement_okD [OF assms(1)]
  have n: "?n \<noteq> 0" "page_aligned ?n" using page_aligned_length taken(3,4) by blast+
  note v = asked_place_valid [OF assms(1) taken(6) n(1) taken(5,1,2)]
  have al: "page_aligned (r + ?n)" using page_aligned_add [OF v(1) n(2)] .
  have free: "\<not> mapped s a" if "in_range r ?n a" for a
    using that taken(7) range_overlaps_iff [OF D(2)] by (auto simp: mapped_def in_range_def)
  have st: "\<not> in_stack s a" if "in_range r ?n a" for a
    using that taken(8) by (auto simp: in_stack_def meets_stack_def in_range_def not_less dest: le_less_trans less_le_trans)
  let ?m = "push_cursors (r + ?n) (zero_range r (r + ?n) nr (detach_file r (r + ?n) (p_mem s)))"
  have sm: "same_map (p_mem s) ?m" using same_map_trans [OF zero_detach(2) same_map_ops(3)] .
  have g: "geo (p_mem s') = geo (push_cursors (r + ?n) (p_mem s))"
    by (simp add: taken(9) geo_push [OF zero_detach(1)])
  note ps = pushed [OF D(3) al g]
  have lay: "same_layout s s'" by (rule ps(1)) (simp add: taken(9))
  have pa: "passed s' a" if "in_range r ?n a" for a
    by (rule ps(2)) (use that in \<open>simp_all add: taken(9) in_range_def\<close>)
  have fp: "fresh_place s s' r ?n True" using v free pa by (simp add: fresh_place_def)
  have sm': "same_map (set_mapping r (r + ?n) prot False False ?m) (p_mem s')"
    by (simp add: taken(9) same_map_def)
  have f: "free_ranges s' = (if True then remove_free_range r ?n (free_ranges s) else free_ranges s)"
    "allocations s' = map_put r ?n (allocations s)" by (simp_all add: taken(9))
  note tp = take_place [OF assms(1) fp n(2) lay assms(2) sm sm' f(2,1) pa]
  have "\<not> page_aligned UINT64_MAX" by (simp add: page_aligned_unat)
  then have "r \<noteq> UINT64_MAX" using v(1) by auto
  then show ?thesis
    using tp free st v(4) taken(1,2) f(2) by (auto simp: find_allocation_def asked_place_def)
qed


section \<open>Replacing what is there\<close>

lemma evict_fields:
  "p_mem (fold (evict_one lo hi) hs s) = p_mem s" "free_ranges (fold (evict_one lo hi) hs s) = free_ranges s"
  "guard_allocs (fold (evict_one lo hi) hs s) = guard_allocs s"
  by (induction hs arbitrary: s) (simp_all add: evict_one_def Let_def split_beta)

lemma mmap_fixed_replace_steps:
  assumes "mmap_fixed_replace addr sz nr zero prot s = (r, s')"
  obtains (refused) "r = 0" "s' = s"
  | (taken) m where "r = addr" "page_aligned addr" "is_valid_guest_range (p_mem s) addr (mmap_length sz)"
      "mmap_length sz \<noteq> 0" "page_aligned (mmap_length sz)" "\<not> meets_stack addr (addr + mmap_length sz) s"
      "same_map (p_mem s) m" "geo m = geo (p_mem s)"
      "\<forall>a. \<not> in_range addr (mmap_length sz) a \<longrightarrow> mem_bytes m a = mem_bytes (p_mem s) a"
      "p_mem s' = push_cursors (addr + mmap_length sz) (set_mapping addr (addr + mmap_length sz) prot False False m)"
      "free_ranges s' = remove_free_range addr (mmap_length sz) (free_ranges s)"
      "allocations s' = map_put addr (mmap_length sz)
         (fold (cut_free_range addr (addr + mmap_length sz))
            (ranges_meeting addr (addr + mmap_length sz) (allocations s)) (allocations s))"
      "guard_allocs s' = guard_allocs s"
      "zero \<longrightarrow> (\<forall>a. in_range addr (mmap_length sz) a \<longrightarrow> mem_bytes m a = 0)"
      "\<forall>p. file_pages (p_mem s) p = None \<longrightarrow> file_pages m p = None"
proof (cases "(r, s') = (0, s)")
  case True
  then show ?thesis using refused by simp
next
  case False
  let ?n = "mmap_length sz" and ?sz = "if sz = 0 then 4096 else sz"
  let ?hi = "addr + ?n"
  let ?s1 = "fold (evict_one addr ?hi) (ranges_meeting addr ?hi (allocations s)) s"
  let ?g = "(p_mem ?s1)\<lparr>guard_pages := {g \<in> guard_pages (p_mem ?s1). \<not> (g * 4096 \<ge> addr \<and> g * 4096 < ?hi)}\<rparr>"
  let ?m = "if zero then zero_range addr ?hi nr (detach_file addr ?hi ?g) else detach_file addr ?hi ?g"
  have eq: "mmap_fixed_replace addr sz nr zero prot s =
      (if addr AND 4095 \<noteq> 0 \<or> ?sz > UINT64_MAX - 4095 then (0, s)
       else if \<not> is_valid_guest_range (p_mem s) addr ?n then (0, s)
       else if \<not> nr \<and> ?sz > MAX_MMAP_LENGTH then (0, s)
       else if meets_stack addr ?hi s then (0, s)
       else (addr, ?s1\<lparr>p_mem := push_cursors ?hi (set_mapping addr ?hi prot False False ?m),
              free_ranges := remove_free_range addr ?n (free_ranges ?s1),
              allocations := map_put addr ?n (allocations ?s1), cum_alloc := cum_alloc ?s1 + ?n\<rparr>))"
    by (simp only: mmap_fixed_replace_def mmap_length_def Let_def)
  note ch = if_chain_short [OF assms [unfolded eq] False]
  have c: "\<not> (addr AND 4095 \<noteq> 0 \<or> ?sz > UINT64_MAX - 4095)" "is_valid_guest_range (p_mem s) addr ?n"
    "\<not> meets_stack addr ?hi s"
    and w: "r = addr" "s' = ?s1\<lparr>p_mem := push_cursors ?hi (set_mapping addr ?hi prot False False ?m),
              free_ranges := remove_free_range addr ?n (free_ranges ?s1),
              allocations := map_put addr ?n (allocations ?s1), cum_alloc := cum_alloc ?s1 + ?n\<rparr>"
    using ch by blast+
  have al: "page_aligned addr" using c(1) page_aligned_iff by blast
  have "?sz \<noteq> 0" by simp
  then have n: "?n \<noteq> 0" "page_aligned ?n" using page_aligned_length [of ?sz] c(1) unfolding mmap_length_def by blast+
  have g: "same_map (p_mem s) ?g" "geo ?g = geo (p_mem s)" by (simp_all add: same_map_def evict_fields)
  have m: "same_map (p_mem s) ?m" "geo ?m = geo (p_mem s)"
    using same_map_trans [OF g(1)] same_map_ops(1) zero_detach g(2) by (auto simp: same_map_def)
  have bytes: "\<forall>a. \<not> in_range addr ?n a \<longrightarrow> mem_bytes ?m a = mem_bytes (p_mem s) a"
    using detach_bytes [OF al page_aligned_add [OF al n(2)]] zero_bytes by (simp add: in_range_def evict_fields)
  have "?hi \<le> window_size ?g" using valid_range(3) [OF c(2) n(1) al] g(2) by (simp add: geo_def)
  then have z: "\<forall>a. in_range addr ?n a \<longrightarrow>
      mem_bytes (zero_range addr ?hi nr (detach_file addr ?hi ?g)) a = 0"
    using zeroed_detached by (simp add: in_range_def)
  have f: "file_pages ?g = file_pages (p_mem s)" by (simp add: evict_fields)
  show ?thesis
    by (rule taken [OF w(1) al c(2) n c(3) m bytes])
      (use z in \<open>simp_all add: w(2) evict_fields fold_evict kept_detached f\<close>)
qed

lemma mmap_fixed_replace_ok:
  assumes "placement_ok s" "prot \<le> 7" "mmap_fixed_replace addr sz nr zero prot s = (r, s')"
  shows "placement_ok s' \<and>
    (if r = 0 then s' = s
     else r = addr \<and> addr + mmap_length sz \<le> window_size (p_mem s) \<and>
       (\<forall>a. in_range addr (mmap_length sz) a \<longrightarrow> \<not> in_stack s a) \<and>
       (\<forall>a. vma_at (vmas (p_mem s')) a =
          (if in_range addr (mmap_length sz) a then Some prot else vma_at (vmas (p_mem s)) a)) \<and>
       (\<forall>a. covers (allocations s') a \<longleftrightarrow> covers (allocations s) a \<or> in_range addr (mmap_length sz) a) \<and>
       find_allocation addr s' = Some (mmap_length sz))"
  using assms(3)
proof (cases rule: mmap_fixed_replace_steps)
  case refused
  then show ?thesis using assms(1) by simp
next
  case (taken m)
  let ?n = "mmap_length sz"
  note D = placement_okD [OF assms(1)]
  note v = valid_range [OF taken(3,4,2)]
  have al: "page_aligned (addr + ?n)" using page_aligned_add [OF taken(2,5)] .
  have ok: "mem_ok m" using same_map_ok [OF taken(7)] D(1) by simp
  note sm = set_mapping_plain_ok [OF ok taken(2) al assms(2) v(2), of False]
  let ?m' = "set_mapping addr (addr + ?n) prot False False m"
  have pc: "same_map ?m' (p_mem s')" unfolding taken(10) by (rule same_map_ops)
  have at: "vma_at (vmas (p_mem s')) a = (if in_range addr ?n a then Some prot else vma_at (vmas (p_mem s)) a)" for a
    using sm(2) [of a] pc taken(7) by (simp add: same_map_def in_range_def)
  have g: "geo (p_mem s') = geo (push_cursors (addr + ?n) (p_mem s))"
    unfolding taken(10) by (rule geo_push) (simp add: taken(8))
  note ps = pushed [OF D(3) al g taken(13)]
  note cut = cut_meeting [OF D(4) v(2)]
  let ?A = "fold (cut_free_range addr (addr + ?n)) (ranges_meeting addr (addr + ?n) (allocations s)) (allocations s)"
  have cl: "clear_of ?A addr ?n" using cut(2) by (simp add: clear_of_def in_range_def)
  note put = map_put_new [OF cut(1) cl v(2)]
  note rm = remove_free_range_props [OF D(6) v(2)]
  have ra: "ranges_aligned ?A" by (rule remove_aligned(2) [OF D(4,5) v(2) taken(2) al])
  have cov: "covers (allocations s') a \<longleftrightarrow> covers (allocations s) a \<or> in_range addr ?n a" for a
    unfolding taken(12) using put(4) [of a] cut(2) [of a] by (auto simp: in_range_def)
  have "placement_ok s'"
  proof (rule placement_claim [OF assms(1) v(2,1) taken(2) al v(3) ps(1)])
    show "mem_ok (p_mem s')" using same_map_ok [OF pc] sm(1) by simp
    show "mapped s' a \<longleftrightarrow> mapped s a \<or> in_range addr ?n a" for a by (simp add: mapped_def at)
    show "ranges_ok (allocations s')" unfolding taken(12) by (rule put(3))
    show "ranges_aligned (allocations s')" unfolding taken(12) by (rule map_put_aligned [OF ra taken(2) al])
    show "covers (allocations s) a \<or> in_range addr ?n a" if "covers (allocations s') a" for a using that cov by simp
    show "ranges_ok (free_ranges s')" unfolding taken(11) by (rule rm(1))
    show "ranges_aligned (free_ranges s')" unfolding taken(11) by (rule remove_aligned(1) [OF D(6,7) v(2) taken(2) al])
    show "covers (free_ranges s) a \<and> \<not> in_range addr ?n a" if "covers (free_ranges s') a" for a
      using that rm(2) unfolding taken(11) by simp
    show "passed s' a" if "in_range addr ?n a" for a by (rule ps(2)) (use that in \<open>simp add: in_range_def\<close>)
  qed
  moreover have "\<not> in_stack s a" if "in_range addr ?n a" for a
    using that taken(6) by (auto simp: in_stack_def meets_stack_def in_range_def not_less dest: le_less_trans less_le_trans)
  moreover have "addr \<noteq> 0" using v(1) by auto
  moreover have "find_allocation addr s' = Some ?n" unfolding find_allocation_def taken(12) by simp
  ultimately show ?thesis using at cov v(3) taken(1) by simp
qed


section \<open>Unmapping\<close>

lemma ranges_meeting_ok:
  assumes "ranges_ok xs"
  shows "ranges_ok (ranges_meeting lo hi xs)"
proof -
  let ?p = "ranges_before lo xs" and ?q = "ranges_from lo xs"
  have tk: "takeWhile P ?q @ dropWhile P ?q = ?q" for P by simp
  have "?p @ ?q = xs" by (simp add: ranges_before_def ranges_from_def)
  then have o: "ranges_ok ?p" "ranges_ok ?q" "\<forall>e \<in> set ?p. \<forall>f \<in> set ?q. fst e + snd e \<le> fst f"
    using assms ranges_ok_append by metis+
  then have "ranges_ok (takeWhile P ?q)" for P using ranges_ok_append tk by metis
  moreover have "fst (last ?p) + snd (last ?p) \<le> fst f" if "?p \<noteq> []" "f \<in> set (takeWhile P ?q)" for f P
    using o(3) last_in_set [OF that(1)] set_takeWhileD [OF that(2)] by blast
  moreover have "fst (last ?p) < fst (last ?p) + snd (last ?p)" if "?p \<noteq> []"
    using ranges_ok_entry [OF o(1) last_in_set [OF that]] .
  ultimately show ?thesis by (simp add: ranges_meeting_def Let_def)
qed

text \<open>The parts of the ranges \<open>hs\<close> that lie in \<open>[lo, hi)\<close>.\<close>

definition parts :: "u64 \<Rightarrow> u64 \<Rightarrow> (u64 \<times> u64) list \<Rightarrow> (u64 \<times> u64) list" where
  "parts lo hi = map (\<lambda>h. (max lo (fst h), min hi (fst h + snd h) - max lo (fst h)))"

lemma parts_props:
  assumes "ranges_ok hs" "lo < hi" "\<forall>h \<in> set hs. fst h < hi \<and> lo < fst h + snd h"
  shows "ranges_ok (parts lo hi hs)" "covers (parts lo hi hs) a \<longleftrightarrow> covers hs a \<and> lo \<le> a \<and> a < hi"
proof -
  have part: "in_range (max lo k) (min hi e - max lo k) b \<longleftrightarrow> k \<le> b \<and> b < e \<and> lo \<le> b \<and> b < hi" for k e b
    by (auto simp: in_range_def)
  have "ranges_ok (parts lo hi hs) \<and> (covers (parts lo hi hs) a \<longleftrightarrow> covers hs a \<and> lo \<le> a \<and> a < hi)"
    using assms(1,3)
  proof (induction hs)
    case (Cons h hs)
    have ih: "ranges_ok (parts lo hi hs)" "covers (parts lo hi hs) a \<longleftrightarrow> covers hs a \<and> lo \<le> a \<and> a < hi"
      using Cons by auto
    have h: "fst h < fst h + snd h" "fst h < hi" "lo < fst h + snd h" using Cons.prems by auto
    have "max lo (fst h) < min hi (fst h + snd h)" using h assms(2) by auto
    moreover have "min hi (fst h + snd h) \<le> fst f" if "f \<in> set (parts lo hi hs)" for f
      using that Cons.prems(1) by (auto simp: parts_def min_le_iff_disj le_max_iff_disj)
    ultimately show ?case
      using ih(1) part [of "fst h" "fst h + snd h" a] ih(2)
      by (auto simp: parts_def in_range_def [of "fst h" "snd h"])
  qed (simp add: parts_def)
  then show "ranges_ok (parts lo hi hs)" "covers (parts lo hi hs) a \<longleftrightarrow> covers hs a \<and> lo \<le> a \<and> a < hi"
    by auto
qed

lemma fold_release:
  assumes "\<forall>h \<in> set hs. fst h < fst h + snd h \<and> fst h < hi \<and> lo < fst h + snd h" "lo < hi"
  shows "allocations (fold (release_one lo hi) hs s) = fold (cut_free_range lo hi) hs (allocations s) \<and>
    free_ranges (fold (release_one lo hi) hs s) =
      fold (\<lambda>r. add_free_range (fst r) (snd r)) (parts lo hi hs) (free_ranges s) \<and>
    p_mem (fold (release_one lo hi) hs s) = p_mem s \<and> guard_allocs (fold (release_one lo hi) hs s) = guard_allocs s"
  using assms(1)
proof (induction hs arbitrary: s)
  case (Cons h hs)
  have h: "fst h < fst h + snd h" "fst h < hi" "lo < fst h + snd h" using Cons.prems by auto
  have "max lo (fst h) < min hi (fst h + snd h)" using h assms(2) by auto
  then have "(min hi (fst h + snd h) \<le> max lo (fst h)) = False" by (simp only: not_le [symmetric] simp_thms)
  then have r: "release_one lo hi h s = (evict_one lo hi h s)\<lparr>free_ranges :=
      add_free_range (max lo (fst h)) (min hi (fst h + snd h) - max lo (fst h)) (free_ranges s)\<rparr>"
    by (simp add: release_one_def evict_part_def Let_def evict_one_def split_beta del: min_le_iff_disj le_max_iff_disj)
  show ?case
    using Cons.IH [of "release_one lo hi h s"] Cons.prems
    by (simp add: r evict_one_cut parts_def) (simp add: evict_one_def Let_def split_beta)
qed (simp add: parts_def)

lemma clear_mapping_window: "clear_mapping lo hi m = clear_mapping lo (min hi (window_size m)) m"
  by (simp add: clear_mapping_def)

definition unmap_end :: "u64 \<Rightarrow> u64 \<Rightarrow> u64" where
  "unmap_end addr sz = (if unat (addr + sz) + 4095 \<ge> 2 ^ 64 then UINT64_MAX else page_align_up (addr + sz))"

lemma unmap_steps:
  assumes "sz \<noteq> 0" "page_aligned addr" "unat addr + unat sz < 2 ^ 64"
  shows "untrack_allocation addr sz s =
    (if unmap_end addr sz \<le> addr then s
     else upd_mem (\<lambda>m. clear_mapping addr (unmap_end addr sz) (detach_file addr (min (unmap_end addr sz) (window_size m)) m))
       (fold (release_one addr (unmap_end addr sz)) (ranges_meeting addr (unmap_end addr sz) (allocations s)) s))"
proof -
  have c: "(sz = 0 \<or> addr AND 4095 \<noteq> 0 \<or> unat addr + unat sz \<ge> 2 ^ 64) = False"
    using assms(1,2) assms(3) [unfolded not_le [symmetric]] page_aligned_iff [of addr] by blast
  show ?thesis unfolding untrack_allocation_def Let_def c if_False by (simp only: unmap_end_def [symmetric])
qed

lemma cut_bounded_aligned:
  assumes "page_aligned lo" "ranges_aligned ys" "ranges_aligned rs"
    and "page_aligned hi \<or> (\<forall>r \<in> set rs. fst r + snd r \<le> hi)"
  shows "ranges_aligned (fold (cut_free_range lo hi) rs ys)" "ranges_aligned (parts lo hi rs)"
proof -
  show "ranges_aligned (fold (cut_free_range lo hi) rs ys)" using assms(2-4)
  proof (induction rs arbitrary: ys)
    case (Cons r rs)
    have "ranges_aligned (cut_free_range lo hi r ys)"
      using Cons.prems assms(1) by (auto simp: cut_free_range_eq Let_def not_less intro!: map_put_aligned)
    then show ?case using Cons.IH Cons.prems by auto
  qed simp
  have "page_aligned (min hi (fst r + snd r))" if "r \<in> set rs" for r
    using assms(3,4) that by (auto simp: ranges_aligned_def min_def dest: antisym)
  moreover have "page_aligned (max lo (fst r))" if "r \<in> set rs" for r
    using assms(1,3) that by (auto simp: ranges_aligned_def max_def)
  ultimately show "ranges_aligned (parts lo hi rs)" unfolding ranges_aligned_def parts_def by simp
qed

lemma put_all_aligned:
  "ranges_aligned xs \<Longrightarrow> ranges_aligned rs \<Longrightarrow> ranges_aligned (fold (\<lambda>r. add_free_range (fst r) (snd r)) rs xs)"
  by (induction rs arbitrary: xs) (simp_all add: add_aligned)

lemma untrack_ok:
  assumes "placement_ok s" "sz \<noteq> 0" "page_aligned addr" "unat addr + unat sz < 2 ^ 64"
  shows "placement_ok (untrack_allocation addr sz s)"
    and "mapped (untrack_allocation addr sz s) a \<longleftrightarrow> mapped s a \<and> \<not> (addr \<le> a \<and> a < unmap_end addr sz)"
    and "covers (allocations (untrack_allocation addr sz s)) a \<longleftrightarrow>
           covers (allocations s) a \<and> \<not> (addr \<le> a \<and> a < unmap_end addr sz)"
    and "covers (free_ranges (untrack_allocation addr sz s)) a \<longleftrightarrow>
           covers (free_ranges s) a \<or> covers (allocations s) a \<and> addr \<le> a \<and> a < unmap_end addr sz"
    and "vma_at (vmas (p_mem (untrack_allocation addr sz s))) a =
           (if addr \<le> a \<and> a < unmap_end addr sz then None else vma_at (vmas (p_mem s)) a)"
    and "\<not> (addr \<le> a \<and> a < unmap_end addr sz) \<Longrightarrow>
           mem_bytes (p_mem (untrack_allocation addr sz s)) a = mem_bytes (p_mem s) a"
proof -
  let ?hi = "unmap_end addr sz" and ?s' = "untrack_allocation addr sz s"
  let ?w = "window_size (p_mem s)"
  note D = placement_okD [OF assms(1)]
  note L = D(3) [unfolded layout_ok_def]
  have "placement_ok ?s' \<and> (\<forall>a. (mapped ?s' a \<longleftrightarrow> mapped s a \<and> \<not> (addr \<le> a \<and> a < ?hi)) \<and>
      (covers (allocations ?s') a \<longleftrightarrow> covers (allocations s) a \<and> \<not> (addr \<le> a \<and> a < ?hi)) \<and>
      (covers (free_ranges ?s') a \<longleftrightarrow> covers (free_ranges s) a \<or> covers (allocations s) a \<and> addr \<le> a \<and> a < ?hi)) \<and>
      (\<forall>a. vma_at (vmas (p_mem ?s')) a = (if addr \<le> a \<and> a < ?hi then None else vma_at (vmas (p_mem s)) a)) \<and>
      (\<forall>a. \<not> (addr \<le> a \<and> a < ?hi) \<longrightarrow> mem_bytes (p_mem ?s') a = mem_bytes (p_mem s) a)"
  proof (cases "addr < ?hi")
    case False
    then have "?s' = s" using unmap_steps [OF assms(2-4)] by (simp add: not_less)
    then show ?thesis using assms(1) False by auto
  next
    case True
    let ?hs = "ranges_meeting addr ?hi (allocations s)"
    let ?s1 = "fold (release_one addr ?hi) ?hs s"
    let ?m0 = "detach_file addr (min ?hi ?w) (p_mem s)"
    note me = ranges_meeting_iff [OF D(4) True]
    have hs: "\<forall>h \<in> set ?hs. fst h < fst h + snd h \<and> fst h < ?hi \<and> addr < fst h + snd h"
      using me(1) ranges_ok_entry [OF D(4)] by blast
    note fr = fold_release [OF hs True, of s]
    have eq: "?s' = upd_mem (\<lambda>m. clear_mapping addr ?hi (detach_file addr (min ?hi (window_size m)) m)) ?s1"
      using unmap_steps [OF assms(2-4), of s] True by (simp add: not_le)
    then have pm: "p_mem ?s' = clear_mapping addr (min ?hi ?w) ?m0"
      using fr clear_mapping_window [of addr ?hi ?m0] by (simp add: geo_ops geo_iff [THEN iffD1, OF geo_ops(1)])
    have al: "page_aligned (min ?hi ?w)"
    proof (cases "unat (addr + sz) + 4095 \<ge> 2 ^ 64")
      case True
      then have "?hi = UINT64_MAX" by (simp add: unmap_end_def)
      moreover have "?w \<le> UINT64_MAX" using L order_trans [of ?w "0x400000000000" "0xFFFFFFFFFFFFFFFF"] by simp
      ultimately show ?thesis using L by (simp add: min_def)
    next
      case False
      then have "?hi = page_align_up (addr + sz)" by (simp add: unmap_end_def)
      then have "page_aligned ?hi" by (simp add: page_align_up_def page_aligned_and [simplified])
      then show ?thesis using L by (simp add: min_def)
    qed
    have m0: "mem_ok ?m0" "vmas ?m0 = vmas (p_mem s)" "window_size ?m0 = ?w"
      using same_map_ok [OF same_map_ops(1)] D(1) same_map_ops(1) geo_ops(1) by (simp_all add: same_map_def geo_def)
    have "page_aligned (window_size ?m0)" using L m0(3) by simp
    note cm = clear_mapping_ok [OF m0(1) assms(3) al this]
    have at: "vma_at (vmas (p_mem ?s')) a = (if addr \<le> a \<and> a < ?hi then None else vma_at (vmas (p_mem s)) a)" for a
    proof -
      have "vma_at (vmas (p_mem s)) a = None" if "\<not> a < ?w" using that D(10) unfolding mapped_def by blast
      then show ?thesis using cm(2) [of a] m0(2,3) unfolding pm by auto
    qed
    then have mp: "mapped ?s' a \<longleftrightarrow> mapped s a \<and> \<not> (addr \<le> a \<and> a < ?hi)" for a by (simp add: mapped_def)
    have bytes: "mem_bytes (p_mem ?s') a = mem_bytes (p_mem s) a" if "\<not> (addr \<le> a \<and> a < ?hi)" for a
      using detach_bytes [OF assms(3) al, of a "p_mem s"] that clear_bytes [of addr a "min ?hi ?w"] unfolding pm by auto
    have ca: "allocations ?s' = fold (cut_free_range addr ?hi) ?hs (allocations s)"
      and cf: "free_ranges ?s' = fold (\<lambda>r. add_free_range (fst r) (snd r)) (parts addr ?hi ?hs) (free_ranges s)"
      using fr by (simp_all add: eq)
    note cut = cut_meeting [OF D(4) True]
    note pp = parts_props [OF ranges_meeting_ok [OF D(4), of addr ?hi] True]
    have hs': "\<forall>h \<in> set ?hs. fst h < ?hi \<and> addr < fst h + snd h" using hs by blast
    have ch: "covers ?hs a \<and> addr \<le> a \<and> a < ?hi \<longleftrightarrow> covers (allocations s) a \<and> addr \<le> a \<and> a < ?hi" for a
      using me(1) unfolding covers_def in_range_def by (meson le_less_trans)
    have dis: "\<forall>a. covers (parts addr ?hi ?hs) a \<longrightarrow> \<not> covers (free_ranges s) a"
      using pp(2) [OF hs'] ch D(8,9) by blast
    note pa = free.put_all [OF D(6) pp(1) [OF hs'] dis]
    have cfree: "covers (free_ranges ?s') a \<longleftrightarrow> covers (free_ranges s) a \<or> covers (allocations s) a \<and> addr \<le> a \<and> a < ?hi" for a
      unfolding cf using pa [of a] pp(2) [OF hs', of a] ch [of a] by blast
    have call: "covers (allocations ?s') a \<longleftrightarrow> covers (allocations s) a \<and> \<not> (addr \<le> a \<and> a < ?hi)" for a
      unfolding ca by (rule cut(2))
    have g: "geo (p_mem ?s') = geo (p_mem s)" "guard_allocs ?s' = guard_allocs s" using fr by (simp_all add: pm eq)
    have lay: "layout_ok ?s'" using L g by (simp add: layout_ok_def geo_def)
    have end_w: "fst e + snd e \<le> ?w" if e: "e \<in> set (allocations s)" for e
    proof -
      have l: "fst e < fst e + snd e" using ranges_ok_entry [OF D(4) e] .
      then have "fst e \<le> fst e + snd e - 1" "fst e + snd e - 1 < fst e + snd e" by unat_arith+
      then have "covers (allocations s) (fst e + snd e - 1)" using e by (auto simp: covers_def in_range_def)
      then have "fst e + snd e - 1 < ?w" using D(8,10) by blast
      then show ?thesis using l by unat_arith
    qed
    have sub: "set ?hs \<subseteq> set (allocations s)" using me(1) by blast
    have "page_aligned ?hi \<or> ?w \<le> ?hi" using al by (auto simp: min_def split: if_splits)
    then have hi_ok: "page_aligned ?hi \<or> (\<forall>r \<in> set ?hs. fst r + snd r \<le> ?hi)"
      using end_w sub by (meson order_trans subsetD)
    note ba = cut_bounded_aligned [OF assms(3) D(5) ranges_aligned_sub [OF D(5) sub] hi_ok]
    have "placement_ok ?s'"
      unfolding placement_ok_def
    proof (intro conjI allI impI)
      show "mem_ok (p_mem ?s')" unfolding pm by (rule cm(1))
      show "layout_ok ?s'" by (rule lay)
      show "ranges_ok (allocations ?s')" unfolding ca by (rule cut(1))
      show "ranges_aligned (allocations ?s')" unfolding ca by (rule ba(1))
      show "ranges_ok (free_ranges ?s')" unfolding cf using pa by blast
      show "ranges_aligned (free_ranges ?s')" unfolding cf by (rule put_all_aligned [OF D(7) ba(2)])
      show "mapped ?s' a" if "covers (allocations ?s') a" for a using that call mp D(8) by blast
      show "\<not> mapped ?s' a" if "covers (free_ranges ?s') a" for a using that cfree mp D(9) by blast
      show "4096 \<le> a" if "covers (allocations ?s') a \<or> covers (free_ranges ?s') a" for a
        using that call cfree D(11) by blast
      fix a assume "mapped ?s' a \<or> covers (free_ranges ?s') a"
      then have "mapped s a \<or> covers (free_ranges s) a" using mp cfree D(8) by blast
      then have "a < ?w" "passed s a" using D(10) by blast+
      then show "a < window_size (p_mem ?s')" "passed ?s' a" using g passed_geo [OF _ g(1)] by (simp_all add: geo_def)
    qed
    then show ?thesis using mp call cfree at bytes by blast
  qed
  then show "placement_ok ?s'" "mapped ?s' a \<longleftrightarrow> mapped s a \<and> \<not> (addr \<le> a \<and> a < ?hi)"
    "covers (allocations ?s') a \<longleftrightarrow> covers (allocations s) a \<and> \<not> (addr \<le> a \<and> a < ?hi)"
    "covers (free_ranges ?s') a \<longleftrightarrow> covers (free_ranges s) a \<or> covers (allocations s) a \<and> addr \<le> a \<and> a < ?hi"
    "vma_at (vmas (p_mem ?s')) a = (if addr \<le> a \<and> a < ?hi then None else vma_at (vmas (p_mem s)) a)"
    "\<not> (addr \<le> a \<and> a < ?hi) \<Longrightarrow> mem_bytes (p_mem ?s') a = mem_bytes (p_mem s) a"
    by blast+
qed

end
