(* ===== verification/Remap.thy ===== *)
theory Remap
  imports AllocSafety MemAccess
begin

text \<open>
  Changing permissions and resizing (\<open>mprotect_guest\<close>, \<open>mremap_grow\<close>): both keep the placement
  invariant, and a resized mapping keeps the permissions and the bytes of its pages wherever it ends
  up.
\<close>

section \<open>States that differ in permissions and bytes only\<close>

lemma placement_same:
  assumes "placement_ok s" "mem_ok (p_mem t)" "\<And>a. mapped t a \<longleftrightarrow> mapped s a"
    and "geo (p_mem t) = geo (p_mem s)" "guard_allocs t = guard_allocs s"
    and "allocations t = allocations s" "free_ranges t = free_ranges s"
  shows "placement_ok t"
proof -
  note D = placement_okD [OF assms(1)]
  have "layout_ok t" using D(3) assms(4,5) by (simp add: layout_ok_def geo_def)
  moreover have "window_size (p_mem t) = window_size (p_mem s)" using assms(4) by (simp add: geo_def)
  moreover have "passed t a = passed s a" for a
    using passed_geo [OF _ assms(4)] passed_geo [OF _ assms(4) [symmetric]] by blast
  ultimately show ?thesis using D assms(2,3,6,7) unfolding placement_ok_def by auto
qed

section \<open>mprotect\<close>

lemma refusals:
  "fst (if a then (x, r1) else if b then (x, r2) else if c then (x, r3) else if d then (x, r4)
     else if \<not> e then (x, r5) else if f then (x, r6) else (y, r7)) = x \<or>
   \<not> a \<and> \<not> d \<and> e \<and> fst (if a then (x, r1) else if b then (x, r2) else if c then (x, r3) else if d then (x, r4)
     else if \<not> e then (x, r5) else if f then (x, r6) else (y, r7)) = y"
  by auto

lemma mprotect_steps:
  fixes addr sz :: u64
  defines "e \<equiv> (addr + sz + 4095) AND NOT 4095"
  obtains "fst (mprotect_guest addr sz prot m) = m"
  | "addr AND 4095 = 0" "prot AND NOT 7 = 0" "addr < e" "range_mapped (vmas m) addr e"
    "fst (mprotect_guest addr sz prot m) = set_mapping addr e prot False True m"
proof -
  have "fst (mprotect_guest addr sz prot m) = m \<or>
    \<not> (addr AND 4095 \<noteq> 0 \<or> prot AND NOT 7 \<noteq> 0) \<and> \<not> (e \<le> addr \<or> e > window_size m) \<and>
    range_mapped (vmas m) addr e \<and> fst (mprotect_guest addr sz prot m) = set_mapping addr e prot False True m"
    unfolding mprotect_guest_def Let_def e_def by (rule refusals)
  then show ?thesis using that unfolding de_Morgan_disj not_le not_not by blast
qed

lemma mprotect_ok:
  assumes "placement_ok s"
  shows "placement_ok (upd_mem (\<lambda>m. fst (mprotect_guest addr sz prot m)) s)"
    and "mapped (upd_mem (\<lambda>m. fst (mprotect_guest addr sz prot m)) s) a \<longleftrightarrow> mapped s a"
proof -
  let ?t = "upd_mem (\<lambda>m. fst (mprotect_guest addr sz prot m)) s"
  let ?e = "(addr + sz + 4095) AND NOT 4095"
  note D = placement_okD [OF assms]
  have "\<forall>a. mapped ?t a \<longleftrightarrow> mapped s a" "geo (p_mem ?t) = geo (p_mem s)"
  proof -
    have "(\<forall>a. mapped ?t a \<longleftrightarrow> mapped s a) \<and> geo (p_mem ?t) = geo (p_mem s)"
    proof (cases rule: mprotect_steps [of addr sz prot "p_mem s"])
      case 1
      then show ?thesis by (simp add: mapped_def)
    next
      case 2
      have al: "page_aligned addr" "page_aligned ?e" using 2(1) page_aligned_iff page_aligned_and by blast+
      note sm = set_mapping_plain_ok [OF D(1) al _ 2(3), of prot True]
      have "prot \<le> 7" using 2(2) and_not_7 by blast
      then show ?thesis
        using 2(4,5) sm(2) range_mapped_iff [OF D(2), of addr ?e] by (simp add: mapped_def)
    qed
    then show "\<forall>a. mapped ?t a \<longleftrightarrow> mapped s a" "geo (p_mem ?t) = geo (p_mem s)" by blast+
  qed
  then show "mapped ?t a \<longleftrightarrow> mapped s a" "placement_ok ?t"
    using placement_same [OF assms, of ?t] mprotect_mem_ok [OF D(1)] by auto
qed

section \<open>Permissions page by page\<close>

lemma run_nth: "k \<le> length (takeWhile (\<lambda>x. x = q) qs) \<Longrightarrow> (q # qs) ! k = q"
proof (cases k)
  case (Suc j)
  assume "k \<le> length (takeWhile (\<lambda>x. x = q) qs)"
  then have j: "j < length (takeWhile (\<lambda>x. x = q) qs)" using Suc by simp
  then have "takeWhile (\<lambda>x. x = q) qs ! j = q" using set_takeWhileD [of _ "\<lambda>x. x = q" qs] nth_mem by blast
  then show ?thesis using Suc takeWhile_nth [OF j] by simp
qed simp

lemma copy_prots_ok:
  assumes "mem_ok m" "page_aligned new" "\<forall>q \<in> set qs. q \<le> 7" "unat new + 4096 * (unat i + length qs) < 2 ^ 64"
  shows "mem_ok (copy_prots i new qs m) \<and> geo (copy_prots i new qs m) = geo m \<and>
    mem_bytes (copy_prots i new qs m) = mem_bytes m \<and>
    (\<forall>a. vma_at (vmas (copy_prots i new qs m)) a =
       (if unat new + 4096 * unat i \<le> unat a \<and> unat a < unat new + 4096 * (unat i + length qs)
        then Some (qs ! ((unat a - (unat new + 4096 * unat i)) div 4096)) else vma_at (vmas m) a))"
  using assms
proof (induction i new qs m rule: copy_prots.induct)
  case (2 i new q qs m)
  let ?n = "length (takeWhile (\<lambda>x. x = q) qs)"
  let ?j = "i + 1 + of_nat ?n"
  let ?lo = "new + i * 4096" and ?hi = "new + ?j * 4096"
  let ?m = "set_mapping ?lo ?hi q False False m"
  have n: "?n \<le> length qs" by (rule length_takeWhile_le)
  have b: "unat new + 4096 * (unat i + Suc (length qs)) < 2 ^ 64" using "2.prems"(4) by simp
  then have j: "unat ?j = unat i + 1 + ?n" using n by (simp add: unat_word_ariths unat_of_nat)
  have lo: "unat ?lo = unat new + 4096 * unat i" using b by (simp add: unat_word_ariths)
  have "unat (?j * 4096) = 4096 * (unat i + 1 + ?n)" using b n unfolding unat_word_ariths(2) j by simp
  then have hi: "unat ?hi = unat new + 4096 * (unat i + 1 + ?n)" using b n unfolding unat_word_ariths(1) by simp
  have al: "page_aligned ?lo" "page_aligned ?hi" using "2.prems"(2) unfolding page_aligned_unat lo hi mod_mult_self2 by blast+
  have lt: "?lo < ?hi" unfolding word_less_nat_alt lo hi by simp
  have q: "q \<le> 7" using "2.prems"(3) by simp
  note sm = set_mapping_plain_ok [OF "2.prems"(1) al q lt, of False]
  have le: "\<forall>q \<in> set (drop ?n qs). q \<le> 7" using "2.prems"(3) by (auto dest: in_set_dropD)
  have len: "unat i + 1 + ?n + length (drop ?n qs) = unat i + length (q # qs)" using n by simp
  have b2: "unat new + 4096 * (unat ?j + length (drop ?n qs)) < 2 ^ 64" unfolding j len using b by simp
  note ih = "2.IH" [OF refl refl sm(1) "2.prems"(2) le b2, unfolded j len]
  have "vma_at (vmas (copy_prots ?j new (drop ?n qs) ?m)) a =
     (if unat new + 4096 * unat i \<le> unat a \<and> unat a < unat new + 4096 * (unat i + length (q # qs))
      then Some ((q # qs) ! ((unat a - (unat new + 4096 * unat i)) div 4096)) else vma_at (vmas m) a)" for a
  proof -
  have ihv: "vma_at (vmas (copy_prots ?j new (drop ?n qs) ?m)) a =
     (if unat new + 4096 * (unat i + 1 + ?n) \<le> unat a \<and> unat a < unat new + 4096 * (unat i + length (q # qs))
      then Some (drop ?n qs ! ((unat a - (unat new + 4096 * (unat i + 1 + ?n))) div 4096)) else vma_at (vmas ?m) a)"
    using ih by blast
  show ?thesis
  proof (cases "unat new + 4096 * (unat i + 1 + ?n) \<le> unat a")
    case True
    let ?k = "(unat a - (unat new + 4096 * unat i)) div 4096"
    have d: "unat a - (unat new + 4096 * unat i) = unat a - (unat new + 4096 * (unat i + 1 + ?n)) + (?n + 1) * 4096"
      using True by simp
    have k: "?k = (unat a - (unat new + 4096 * (unat i + 1 + ?n))) div 4096 + (?n + 1)"
      unfolding d by (subst div_mult_self1) simp_all
    have nth: "(q # qs) ! ?k = drop ?n qs ! ((unat a - (unat new + 4096 * (unat i + 1 + ?n))) div 4096)"
      unfolding k using n by (simp add: add.commute)
    have "\<not> (?lo \<le> a \<and> a < ?hi)" unfolding word_less_nat_alt word_le_nat_alt hi using True by simp
    then have m: "vma_at (vmas ?m) a = vma_at (vmas m) a" using sm(2) [of a] by (simp only: if_False)
    have "unat new + 4096 * unat i \<le> unat a" using True by simp
    then show ?thesis unfolding ihv m nth by (simp only: True simp_thms)
  next
    case False
    have r: "?lo \<le> a \<and> a < ?hi \<longleftrightarrow> unat new + 4096 * unat i \<le> unat a"
      unfolding word_less_nat_alt word_le_nat_alt lo hi using False by auto
    have u: "unat a < unat new + 4096 * (unat i + length (q # qs))" using False n by simp
    have "(unat a - (unat new + 4096 * unat i)) div 4096 < ?n + 1" if "unat new + 4096 * unat i \<le> unat a"
      using False that by (simp add: div_less_iff_less_mult)
    then have "(q # qs) ! ((unat a - (unat new + 4096 * unat i)) div 4096) = q" if "unat new + 4096 * unat i \<le> unat a"
      using that run_nth [of _ q qs] by simp
    then show ?thesis unfolding ihv sm(2) r using False u
      by (cases "unat new + 4096 * unat i \<le> unat a") (simp_all only: simp_thms if_False if_True)
  qed
  qed
  then show ?case using ih by (simp add: Let_def)
qed auto


lemma page_prots_ok:
  assumes "mem_ok m" "page_aligned lo" "page_aligned hi" "lo < hi" "page_prots lo hi m = Some ps"
  shows "length ps = unat (hi div 4096) - unat (lo div 4096)" "\<forall>q \<in> set ps. q \<le> 7"
    and "lo \<le> a \<Longrightarrow> a < hi \<Longrightarrow> vma_at (vmas m) a = Some (ps ! ((unat a - unat lo) div 4096))"
proof -
  have ok: "vma_ok (vmas m)" "index_aligned (vmas m)" "prots_ok (vmas m)" using assms(1) by (simp_all add: mem_ok_def)
  let ?f = "\<lambda>p. mapping_prot_at (vmas m) (p * 4096)"
  have ps: "None \<notin> ?f ` set (pages lo hi)" "ps = map (the \<circ> ?f) (pages lo hi)"
    using assms(5) by (auto simp: page_prots_def Let_def split: if_splits)
  show "length ps = unat (hi div 4096) - unat (lo div 4096)" unfolding ps(2) by (simp add: pages_def)
  show "\<forall>q \<in> set ps. q \<le> 7" unfolding ps(2)
    using ps(1) mapping_prot_at_eq [OF ok(1)] word_and_le1 by (fastforce simp: image_iff)
  assume a: "lo \<le> a" "a < hi"
  let ?i = "unat (lo div 4096)" and ?j = "unat (hi div 4096)"
  obtain k l where kl: "unat lo = 4096 * k" "unat hi = 4096 * l" using assms(2,3) by (metis page_alignedE)
  have ij: "?i = k" "?j = l" by (simp_all add: unat_div kl)
  have ua: "4096 * k \<le> unat a" "unat a < 4096 * l" using a kl by (simp_all add: word_le_nat_alt word_less_nat_alt)
  let ?n = "(unat a - unat lo) div 4096"
  have "unat a - unat lo = unat a - k * 4096" using kl by simp
  then have n: "?n = unat a div 4096 - k" using ua(1) by simp
  have lt: "?n < l - k" using ua unfolding n by (simp add: div_less_iff_less_mult diff_less_mono less_eq_div_iff_mult_less_eq mult.commute)
  have pn: "pages lo hi ! ?n = a div 4096"
  proof -
    have "k \<le> unat a div 4096" using ua(1) by (simp add: less_eq_div_iff_mult_less_eq mult.commute)
    then have "k + ?n = unat (a div 4096)" unfolding n by (simp add: unat_div)
    then show ?thesis using lt unfolding pages_def ij by simp
  qed
  have len: "?n < length (pages lo hi)" using lt by (simp add: pages_def ij)
  have "?f (a div 4096) = map_option (\<lambda>p. p AND 7) (vma_at (vmas m) a)"
    using mapping_prot_at_eq [OF ok(1)] vma_at_page [OF ok(2), of a] by (simp add: page_base_def)
  moreover have "?f (a div 4096) \<noteq> None" using ps(1) nth_mem [OF len] pn by (metis imageI)
  ultimately obtain p where p: "vma_at (vmas m) a = Some p" "?f (a div 4096) = Some (p AND 7)" by auto
  have "p AND 7 = p" using ok(3) p(1) le_7_iff by (auto simp: prots_ok_def)
  then show "vma_at (vmas m) a = Some (ps ! ?n)" using p pn unfolding ps(2) nth_map [OF len] by simp
qed

section \<open>mremap\<close>

lemma resized_key:
  assumes "ranges_ok xs" "(k, n) \<in> set xs"
  shows "map_put k m xs = map_put k m (map_erase k xs)"
proof -
  have "takeWhile (\<lambda>e. fst e < k) xs = takeWhile (\<lambda>e. fst e < k) (map_erase k xs) \<and>
    dropWhile (\<lambda>e. fst e \<le> k) xs = dropWhile (\<lambda>e. fst e \<le> k) (map_erase k xs)"
    using assms
  proof (induction xs)
    case (Cons e xs)
    have gt: "fst e < fst f" if "f \<in> set xs" for f using Cons.prems(1) that by (auto intro: less_le_trans)
    show ?case
    proof (cases "fst e = k")
      case True
      have "map_erase k xs = xs" unfolding map_erase_def using gt True by (intro filter_True) fastforce
      moreover have "takeWhile (\<lambda>e. fst e < k) xs = []" using gt True by (cases xs) (auto simp: less_imp_le not_less)
      ultimately show ?thesis using True by (simp add: map_erase_def)
    next
      case False
      then have mem: "(k, n) \<in> set xs" using Cons.prems(2) by auto
      have "ranges_ok xs" using Cons.prems(1) by simp
      note ih = Cons.IH [OF this mem]
      have "fst e < k" using gt [OF mem] by simp
      then show ?thesis using ih False by (simp add: map_erase_def)
    qed
  qed simp
  then show ?thesis by (simp add: map_put_def)
qed

lemma resize_entry:
  assumes "ranges_ok xs" "ranges_aligned xs" "(k, n) \<in> set xs" "k < k + m" "page_aligned (k + m)"
    and "\<forall>a. in_range k m a \<and> \<not> in_range k n a \<longrightarrow> \<not> covers xs a"
  shows "ranges_ok (map_put k m xs)" "ranges_aligned (map_put k m xs)"
    "covers (map_put k m xs) a \<longleftrightarrow> covers xs a \<and> \<not> in_range k n a \<or> in_range k m a"
proof -
  note er = map_erase_props [OF assms(1,3), simplified]
  have "clear_of (map_erase k xs) k m" unfolding clear_of_def er(3) using assms(6) by blast
  note put = map_put_new [OF er(2) this assms(4)]
  show "ranges_ok (map_put k m xs)" "covers (map_put k m xs) a \<longleftrightarrow> covers xs a \<and> \<not> in_range k n a \<or> in_range k m a"
    unfolding resized_key [OF assms(1,3)] using put(3,4) er(3) by blast+
  have "page_aligned k" using assms(2,3) by (auto simp: ranges_aligned_def)
  then show "ranges_aligned (map_put k m xs)" using map_put_aligned assms(2,5) by blast
qed

text \<open>
  The arguments that pass the checks, as facts about the two ranges: \<open>ol\<close> and \<open>nl\<close> are the two lengths
  in whole pages.
\<close>

lemma mremap_args:
  assumes "mremap_args_ok old osz nsz mm fx m"
  defines "ol \<equiv> page_align_up osz" and "nl \<equiv> page_align_up nsz"
  shows "page_aligned old" "ol \<noteq> 0" "nl \<noteq> 0" "page_aligned ol" "page_aligned nl" "nsz \<noteq> 0"
    "4096 \<le> old" "old < old + ol" "old + ol \<le> window_size m" "unat old + unat ol < 2 ^ 64"
    "fx = 0 \<Longrightarrow> old < old + nl \<and> old + nl \<le> window_size m"
    "fx \<noteq> 0 \<Longrightarrow> in_range fx nl a \<Longrightarrow> \<not> in_range old ol a"
proof -
  have a: "osz \<noteq> 0" "nsz \<noteq> 0" "old AND 4095 = 0" "osz \<le> MAX_MMAP_LENGTH" "nsz \<le> MAX_MMAP_LENGTH"
    "unat old + unat ol < 2 ^ 64" "is_valid_guest_range m old (if fx \<noteq> 0 then ol else max ol nl)"
    "fx \<noteq> 0 \<Longrightarrow> \<not> (old < fx + nl \<and> fx < old + ol)"
    using assms(1) unfolding mremap_args_ok_def Let_def ol_def nl_def de_Morgan_disj not_less by blast+
  show al: "page_aligned old" using a(3) page_aligned_iff by blast
  have "\<not> osz > UINT64_MAX - 4095" "\<not> nsz > UINT64_MAX - 4095" using a(4,5)
    by (auto simp: word_less_nat_alt word_le_nat_alt)
  then show ol: "ol \<noteq> 0" "page_aligned ol" and nl: "nl \<noteq> 0" "page_aligned nl"
    using page_aligned_length a(1,2) unfolding ol_def nl_def by blast+
  show "nsz \<noteq> 0" "unat old + unat ol < 2 ^ 64" by (fact a)+
  let ?l = "if fx \<noteq> 0 then ol else max ol nl"
  have l: "?l \<noteq> 0" "ol \<le> ?l" "fx = 0 \<Longrightarrow> nl \<le> ?l" using ol nl by (auto simp: max_def)
  note v = valid_range [OF a(7) l(1) al]
  show "4096 \<le> old" by (fact v(1))
  show "old < old + ol" "old + ol \<le> window_size m"
    using range_within [OF v(2) l(2) ol(1)] v(3) by auto
  show "fx = 0 \<Longrightarrow> old < old + nl \<and> old + nl \<le> window_size m"
    using range_within [OF v(2) l(3) nl(1)] v(3) by auto
  show "fx \<noteq> 0 \<Longrightarrow> in_range fx nl a \<Longrightarrow> \<not> in_range old ol a"
    using a(8) by (auto simp: in_range_def dest: le_less_trans less_le_trans)
qed

lemma grow_chain:
  assumes "(if \<not> a then Some z else if f then None else if s then (if \<not> t then Some z else if l then Some x else Some y)
      else if \<not> t \<or> \<not> m then Some z
      else case p of None \<Rightarrow> Some z | Some ps \<Rightarrow> if g then Some (u ps) else if \<not> mv then Some z else Some (w ps)) = Some r"
  shows "r = z \<or> a \<and> t \<and> (s \<and> r = (if l then x else y) \<or>
    \<not> s \<and> m \<and> (\<exists>ps. p = Some ps \<and> (g \<and> r = u ps \<or> r = w ps)))"
  using assms by (auto split: if_splits option.splits)

lemma mremap_steps:
  assumes "mremap_grow old osz nsz mm fx s = Some (r, s')"
  defines "ol \<equiv> page_align_up osz" and "nl \<equiv> page_align_up nsz"
  obtains (refused) "r = 0" "s' = s"
  | (shrunk) "mremap_args_ok old osz nsz mm fx (p_mem s)" "map_of (allocations s) old = Some ol"
    "r = old" "fx = 0" "nl \<le> ol"
    "s' = (if old + nl < old + ol
       then (upd_mem (\<lambda>m. clear_mapping (old + nl) (old + ol) (detach_file (old + nl) (old + ol) m))
              (s\<lparr>allocations := map_put old nl (allocations s)\<rparr>))
            \<lparr>free_ranges := add_free_range (old + nl) (old + ol - (old + nl)) (free_ranges s)\<rparr>
       else s\<lparr>allocations := map_put old nl (allocations s)\<rparr>)"
  | (grown) ps where "mremap_args_ok old osz nsz mm fx (p_mem s)" "map_of (allocations s) old = Some ol"
    "r = old" "fx = 0" "\<not> nl \<le> ol" "page_prots old (old + ol) (p_mem s) = Some ps"
    "\<not> meets_stack (old + ol) (old + nl) s" "\<not> range_overlaps (vmas (p_mem s)) (old + ol) (old + nl)"
    "s' = s\<lparr>p_mem := push_cursors (old + nl) (set_mapping (old + ol) (old + nl) (last ps) False False
              (zero_range (old + ol) (old + nl) False (detach_file (old + ol) (old + nl) (p_mem s)))),
            allocations := map_put old nl (allocations s),
            free_ranges := remove_free_range (old + ol) (old + nl - (old + ol)) (free_ranges s)\<rparr>"
  | (moved) ps where "mremap_args_ok old osz nsz mm fx (p_mem s)" "map_of (allocations s) old = Some ol"
    "page_prots old (old + ol) (p_mem s) = Some ps" "(r, s') = mremap_move old ol nsz fx ps s"
proof -
  note c = assms(1) [unfolded mremap_grow_def Let_def, folded ol_def nl_def, THEN grow_chain]
  then show ?thesis
    using refused shrunk grown moved by (elim disjE conjE exE) (simp_all split: if_splits)
qed

end
