(* ===== verification/RemapSafety.thy ===== *)
theory RemapSafety
  imports Remap
begin

text \<open>
  \<open>mremap_grow\<close>: whether it shrinks, grows in place or moves, every page of the new mapping has the
  permission and the bytes of the old page it stands for, and the placement stays consistent.
\<close>

section \<open>What a resized mapping looks like\<close>

definition resized :: "u64 \<Rightarrow> u64 \<Rightarrow> u64 \<Rightarrow> u64 \<Rightarrow> Memory \<Rightarrow> Memory \<Rightarrow> bool" where
  "resized old ol r nl m m' \<longleftrightarrow>
     (\<forall>a. vma_at (vmas m') a =
        (if in_range r nl a then vma_at (vmas m) (old + min (a - r) (ol - 1))
         else if in_range old ol a then None else vma_at (vmas m) a)) \<and>
     (\<forall>a. in_range r (min ol nl) a \<longrightarrow> mem_bytes m' a = mem_bytes m (old + (a - r))) \<and>
     (\<forall>a. \<not> in_range r nl a \<and> \<not> in_range old ol a \<longrightarrow> mem_bytes m' a = mem_bytes m a)"

text \<open>
  New pages read zero, except that a mapping \<open>mmap_alloc\<close> puts on addresses that no free range covers
  reads what the reservation held there: zero where nothing has been mapped before.
\<close>

definition blank :: "Placement \<Rightarrow> bool \<Rightarrow> Memory \<Rightarrow> u64 \<Rightarrow> bool" where
  "blank s placed m' a \<longleftrightarrow>
     mem_bytes m' a = 0 \<or> \<not> placed \<and> \<not> covers (free_ranges s) a \<and> mem_bytes m' a = mem_bytes (p_mem s) a"

lemma old_prots:
  assumes "mem_ok m" "page_aligned old" "page_aligned ol" "old < old + ol" "page_prots old (old + ol) m = Some ps"
  shows "length ps = unat ol div 4096" "ps \<noteq> []" "\<forall>q \<in> set ps. q \<le> 7"
    "vma_at (vmas m) (old + min d (ol - 1)) = Some (ps ! min (unat d div 4096) (length ps - 1))"
proof -
  have al: "page_aligned (old + ol)" using page_aligned_add [OF assms(2,3)] .
  note p = page_prots_ok [OF assms(1,2) al assms(4,5)]
  note e = no_wrap_unat [OF assms(4)]
  obtain k l where kl: "unat old = 4096 * k" "unat ol = 4096 * l" using assms(2,3) by (metis page_alignedE)
  show len: "length ps = unat ol div 4096" using p(1) kl by (simp add: unat_div e)
  have "0 < unat ol" using assms(4) by (metis add.right_neutral less_irrefl unat_gt_0)
  then have l: "0 < l" using kl by simp
  then show "ps \<noteq> []" using len kl by auto
  show "\<forall>q \<in> set ps. q \<le> 7" by (rule p(2))
  let ?d = "min d (ol - 1)"
  have o1: "unat (ol - 1) = unat ol - 1" using \<open>0 < unat ol\<close> by (simp add: unat_minus_one unat_gt_0)
  have ud: "unat ?d = min (unat d) (unat ol - 1)" by (simp add: min_def word_le_nat_alt o1)
  have b: "unat ?d < unat ol" using ud \<open>0 < unat ol\<close> by simp
  have s: "unat (old + ?d) = unat old + unat ?d" using no_wrap [OF assms(4)] b by (simp add: unat_word_ariths)
  have "(4096 * l - 1) div 4096 = l - 1" using l by (cases l) simp_all
  then have "unat ?d div 4096 = min (unat d div 4096) (length ps - 1)"
    unfolding ud len kl by (simp add: min_def div_le_mono)
  moreover have "old \<le> old + ?d" "old + ?d < old + ol" using s e b by (simp_all add: word_le_nat_alt word_less_nat_alt)
  ultimately show "vma_at (vmas m) (old + ?d) = Some (ps ! min (unat d div 4096) (length ps - 1))"
    using p(3) [of "old + ?d"] s by simp
qed

lemma choose_range_bytes: "choose_range n hint direct s = (c, s1) \<Longrightarrow> mem_bytes (p_mem s1) = mem_bytes (p_mem s)"
  by (auto simp: choose_range_def bump_range_def upd_mem_def Let_def split: if_splits option.splits)

lemma mmap_alloc_bytes:
  assumes "placement_ok s" "roomy s (mmap_length sz)" "mmap_alloc sz 0 nr prot direct s = (r, s')" "r \<noteq> 0"
  shows "if in_range r (mmap_length sz) a then blank s False (p_mem s') a
    else mem_bytes (p_mem s') a = mem_bytes (p_mem s) a"
proof -
  let ?sz = "if sz = 0 then 4096 else sz" and ?n = "mmap_length sz"
  obtain c s1 where c: "choose_range ?n 0 direct s = (c, s1)" by (metis prod.exhaust)
  have sz: "\<not> ?sz > UINT64_MAX - 4095"
    using assms(3,4) unfolding mmap_alloc_def Let_def by (auto split: if_splits)
  have "mmap_alloc sz 0 nr prot direct s = (0, s1) \<or> mmap_alloc sz 0 nr prot direct s = (0, s)" if "c = None"
    using c that unfolding mmap_alloc_def Let_def mmap_length_def [symmetric] by (simp split: if_split)
  then have "c \<noteq> None" using assms(3,4) by (auto simp del: not_None_eq)
  then obtain b reused where br: "c = Some (b, reused)" by (cases c) auto
  have n: "?n \<noteq> 0" "page_aligned ?n"
    using page_align_up_props [of ?sz] sz by (simp_all add: mmap_length_def not_less)
  have oc: "only_cursors s s1" and fp: "fresh_place s s1 b ?n reused"
    using choose_range_fresh [OF assms(1) n assms(2) c] br by auto
  have ng: "\<not> guard_allocs s1" using oc placement_okD(3) [OF assms(1)]
    by (auto simp: only_cursors_def same_layout_def layout_ok_def)
  have "mmap_alloc sz 0 nr prot direct s \<noteq> (0, s)" using assms(3,4) by auto
  then obtain t where t: "mmap_alloc sz 0 nr prot direct s = (b, t)"
    "p_mem t = set_mapping b (b + ?n) prot False False
       (if reused then zero_range b (b + ?n) nr (detach_file b (b + ?n) (p_mem s1)) else p_mem s1)"
    using mmap_alloc_steps [OF c [unfolded br] ng, of nr prot] by metis
  have al: "page_aligned b" using fp by (simp add: fresh_place_def)
  have rb: "r = b" "s' = t" using assms(3) t(1) by simp_all
  note cb = choose_range_bytes [OF c]
  show ?thesis
  proof (cases "in_range r ?n a")
    case False
    then have "\<not> (b \<le> a \<and> a < b + ?n)" by (simp add: rb in_range_def)
    then have "mem_bytes (p_mem t) a = mem_bytes (p_mem s1) a"
      using detach_bytes [OF al page_aligned_add [OF al n(2)], of a "p_mem s1"] zero_bytes [of b a "b + ?n"] t(2) by auto
    then show ?thesis using cb False by (simp add: rb)
  next
    case True
    have w: "b + ?n \<le> window_size (p_mem s1)"
      using fp oc by (simp add: fresh_place_def only_cursors_def same_layout_def)
    have "mem_bytes (p_mem t) a = (if reused then 0 else mem_bytes (p_mem s) a)"
      using True zeroed_detached [OF _ _ w, of b a nr] cb t(2) by (auto simp: rb in_range_def)
    moreover have "\<not> reused \<Longrightarrow> \<not> covers (free_ranges s) a" using fp True by (simp add: fresh_place_def rb)
    ultimately show ?thesis using True by (cases reused) (simp_all add: blank_def rb)
  qed
qed

lemma mmap_fixed_bytes:
  assumes "mmap_fixed_replace addr sz nr zero prot s = (r, s')"
  shows "\<not> in_range addr (mmap_length sz) a \<Longrightarrow> mem_bytes (p_mem s') a = mem_bytes (p_mem s) a"
    and "zero \<Longrightarrow> r \<noteq> 0 \<Longrightarrow> in_range addr (mmap_length sz) a \<Longrightarrow> mem_bytes (p_mem s') a = 0"
  using assms by (cases rule: mmap_fixed_replace_steps; auto)+

section \<open>Shrinking\<close>

lemma placement_release:
  assumes "placement_ok s" "mem_ok (p_mem t)" "geo (p_mem t) = geo (p_mem s)" "guard_allocs t = guard_allocs s"
    and "\<And>a. mapped t a \<longleftrightarrow> mapped s a \<and> \<not> in_range k n a"
    and "ranges_ok (allocations t)" "ranges_aligned (allocations t)"
    and "\<And>a. covers (allocations t) a \<Longrightarrow> covers (allocations s) a \<and> \<not> in_range k n a"
    and "ranges_ok (free_ranges t)" "ranges_aligned (free_ranges t)"
    and "\<And>a. covers (free_ranges t) a \<Longrightarrow> covers (free_ranges s) a \<or> covers (allocations s) a \<and> in_range k n a"
  shows "placement_ok t"
  unfolding placement_ok_def
proof (intro conjI allI impI)
  note D = placement_okD [OF assms(1)]
  show "mem_ok (p_mem t)" "ranges_ok (allocations t)" "ranges_aligned (allocations t)"
    "ranges_ok (free_ranges t)" "ranges_aligned (free_ranges t)" by (fact assms)+
  show "layout_ok t" using D(3) assms(3,4) by (simp add: layout_ok_def geo_def)
  show "mapped t a" if "covers (allocations t) a" for a using that assms(5,8) D(8) by blast
  show "\<not> mapped t a" if "covers (free_ranges t) a" for a using that assms(5,11) D(9) by blast
  show "4096 \<le> a" if "covers (allocations t) a \<or> covers (free_ranges t) a" for a
    using that assms(8,11) D(11) by blast
  fix a assume "mapped t a \<or> covers (free_ranges t) a"
  then have "mapped s a \<or> covers (free_ranges s) a" using assms(5,11) D(8) by blast
  then have "a < window_size (p_mem s)" "passed s a" using D(10) by blast+
  then show "a < window_size (p_mem t)" "passed t a"
    using passed_geo [OF _ assms(3)] assms(3) by (simp_all add: geo_def)
qed

lemma resized_id:
  assumes "old < old + ol" "in_range old ol a"
  shows "old + min (a - old) (ol - 1) = a"
proof -
  have u: "unat (old + ol) = unat old + unat ol" by (rule no_wrap_unat [OF assms(1)])
  have a: "old \<le> a" "unat a < unat old + unat ol" using assms(2) u by (simp_all add: in_range_def word_less_nat_alt)
  have "unat (a - old) = unat a - unat old" using a(1) by (simp add: unat_sub word_le_nat_alt)
  moreover have "unat (ol - 1) = unat ol - 1" using a by (cases "ol = 0") (simp_all add: unat_minus_one word_le_nat_alt)
  ultimately have "a - old \<le> ol - 1" using a by (simp add: word_le_nat_alt)
  then show ?thesis by (simp add: min_def)
qed

lemma shrunk_ok:
  assumes "placement_ok s" "map_of (allocations s) old = Some ol" "old < old + ol" "old < old + nl" "nl \<le> ol"
    and "page_aligned old" "page_aligned ol" "page_aligned nl" "nl \<noteq> 0"
    and "s' = (if old + nl < old + ol
       then (upd_mem (\<lambda>m. clear_mapping (old + nl) (old + ol) (detach_file (old + nl) (old + ol) m))
              (s\<lparr>allocations := map_put old nl (allocations s)\<rparr>))
            \<lparr>free_ranges := add_free_range (old + nl) (old + ol - (old + nl)) (free_ranges s)\<rparr>
       else s\<lparr>allocations := map_put old nl (allocations s)\<rparr>)"
  shows "placement_ok s' \<and> resized old ol old nl (p_mem s) (p_mem s')"
proof -
  let ?lo = "old + nl" and ?hi = "old + ol"
  let ?n = "?hi - ?lo"
  note D = placement_okD [OF assms(1)]
  note L = D(3) [unfolded layout_ok_def]
  have e: "(old, ol) \<in> set (allocations s)" using assms(2) by (rule map_of_SomeD)
  have al: "page_aligned ?lo" "page_aligned ?hi" using page_aligned_add assms(6-8) by blast+
  have le: "?lo \<le> ?hi" using range_within [OF assms(3,5,9)] by simp
  have r: "in_range old ol a \<longleftrightarrow> in_range old nl a \<or> in_range ?lo ?n a" "in_range ?lo ?n a \<Longrightarrow> \<not> in_range old nl a" for a
    using assms(4) le by (auto simp: in_range_def)
  note re = resize_entry [OF D(4,5) e assms(4) al(1)]
  have "\<forall>a. in_range old nl a \<and> \<not> in_range old ol a \<longrightarrow> \<not> covers (allocations s) a" using r(1) by blast
  note re = re [OF this]
  have m: "same_map (p_mem s) (detach_file ?lo ?hi (p_mem s))" by (rule same_map_ops)
  then have m0: "mem_ok (detach_file ?lo ?hi (p_mem s))" "vmas (detach_file ?lo ?hi (p_mem s)) = vmas (p_mem s)"
    "window_size (detach_file ?lo ?hi (p_mem s)) = window_size (p_mem s)"
    using same_map_ok [OF m] D(1) geo_ops(1) [of ?lo ?hi "p_mem s"] by (simp_all add: same_map_def geo_def)
  have "page_aligned (window_size (detach_file ?lo ?hi (p_mem s)))" using L m0(3) by simp
  note cm = clear_mapping_ok [OF m0(1) al this]
  have cov: "covers (allocations s) a" if "in_range old ol a" for a using e that unfolding covers_def by force
  have vm: "vma_at (vmas (p_mem s')) a = (if in_range ?lo ?n a then None else vma_at (vmas (p_mem s)) a)" for a
  proof -
    have "vma_at (vmas (p_mem s)) a = None" if "\<not> a < window_size (p_mem s)" using that D(10) unfolding mapped_def by blast
    then show ?thesis using cm(2) [of a] m0(2,3) by (auto simp: assms(10) in_range_def upd_mem_def)
  qed
  have bytes: "mem_bytes (p_mem s') a = mem_bytes (p_mem s) a" if "\<not> in_range ?lo ?n a" for a
    using detach_bytes [OF al, of a "p_mem s"] clear_bytes [of ?lo a ?hi] that
    by (auto simp: assms(10) in_range_def upd_mem_def)
  have fr: "ranges_ok (free_ranges s')" "ranges_aligned (free_ranges s')"
    "covers (free_ranges s') a \<longleftrightarrow> covers (free_ranges s) a \<or> in_range ?lo ?n a" for a
  proof -
    have nf: "clear_of (free_ranges s) ?lo ?n"
      unfolding clear_of_def using cov r(1) D(8,9) by blast
    have af: "ranges_aligned (add_free_range ?lo ?n (free_ranges s))"
      using add_aligned [OF D(7) al(1), of ?n] al(2) by simp
    have if_lt: "?lo < ?hi \<Longrightarrow> ranges_ok (add_free_range ?lo ?n (free_ranges s)) \<and>
        (covers (add_free_range ?lo ?n (free_ranges s)) a \<longleftrightarrow> covers (free_ranges s) a \<or> in_range ?lo ?n a)"
      by (rule add_free_range_props [OF D(6) nf]) simp
    have emp: "\<not> ?lo < ?hi \<Longrightarrow> \<not> in_range ?lo ?n a" by (auto simp: in_range_def)
    show "ranges_ok (free_ranges s')" "ranges_aligned (free_ranges s')"
      "covers (free_ranges s') a \<longleftrightarrow> covers (free_ranges s) a \<or> in_range ?lo ?n a"
      using if_lt af emp D(6,7) by (simp_all add: assms(10))
  qed
  have as: "allocations s' = map_put old nl (allocations s)" "guard_allocs s' = guard_allocs s"
    "geo (p_mem s') = geo (p_mem s)" by (simp_all add: assms(10) upd_mem_def)
  have mo: "mem_ok (p_mem s')" using cm(1) D(1) by (simp add: assms(10) upd_mem_def)
  have "placement_ok s'"
  proof (rule placement_release [OF assms(1) mo as(3,2) _ _ _ _ fr(1,2), where k = ?lo and n = ?n])
    show "mapped s' a \<longleftrightarrow> mapped s a \<and> \<not> in_range ?lo ?n a" for a by (simp add: mapped_def vm)
    show "ranges_ok (allocations s')" "ranges_aligned (allocations s')" unfolding as(1) by (rule re(1,2))+
    show "covers (allocations s) a \<and> \<not> in_range ?lo ?n a" if "covers (allocations s') a" for a
      using that cov r unfolding as(1) re(3) by blast
    show "covers (free_ranges s) a \<or> covers (allocations s) a \<and> in_range ?lo ?n a" if "covers (free_ranges s') a" for a
      using that cov r(1) unfolding fr(3) by blast
  qed
  moreover have "resized old ol old nl (p_mem s) (p_mem s')"
    unfolding resized_def
  proof (intro conjI allI impI)
    fix a
    show "vma_at (vmas (p_mem s')) a =
        (if in_range old nl a then vma_at (vmas (p_mem s)) (old + min (a - old) (ol - 1))
         else if in_range old ol a then None else vma_at (vmas (p_mem s)) a)"
      using resized_id [OF assms(3)] r [of a] unfolding vm by auto
    show "mem_bytes (p_mem s') a = mem_bytes (p_mem s) (old + (a - old))" if "in_range old (min ol nl) a"
    proof -
      have "in_range old nl a" using that assms(5) by (simp add: min_absorb2)
      then have "\<not> in_range ?lo ?n a" using r(2) by blast
      then show ?thesis using bytes by simp
    qed
    show "mem_bytes (p_mem s') a = mem_bytes (p_mem s) a" if "\<not> in_range old nl a \<and> \<not> in_range old ol a"
      using that bytes r(1) by blast
  qed
  ultimately show ?thesis ..
qed

section \<open>Growing in place\<close>

lemma grown_ok:
  assumes "placement_ok s" "map_of (allocations s) old = Some ol" "old < old + ol" "old < old + nl" "\<not> nl \<le> ol"
    and "page_aligned old" "page_aligned ol" "page_aligned nl" "ol \<noteq> 0" "4096 \<le> old" "old + nl \<le> window_size (p_mem s)"
    and "page_prots old (old + ol) (p_mem s) = Some ps" "\<not> range_overlaps (vmas (p_mem s)) (old + ol) (old + nl)"
    and "s' = s\<lparr>p_mem := push_cursors (old + nl) (set_mapping (old + ol) (old + nl) (last ps) False False
              (zero_range (old + ol) (old + nl) False (detach_file (old + ol) (old + nl) (p_mem s)))),
            allocations := map_put old nl (allocations s),
            free_ranges := remove_free_range (old + ol) (old + nl - (old + ol)) (free_ranges s)\<rparr>"
  shows "placement_ok s' \<and> resized old ol old nl (p_mem s) (p_mem s') \<and>
    (\<forall>a. in_range old nl a \<and> \<not> in_range old ol a \<longrightarrow> mem_bytes (p_mem s') a = 0)"
proof -
  let ?lo = "old + ol" and ?hi = "old + nl"
  let ?n = "?hi - ?lo"
  let ?m = "zero_range ?lo ?hi False (detach_file ?lo ?hi (p_mem s))"
  note D = placement_okD [OF assms(1)]
  have e: "(old, ol) \<in> set (allocations s)" using assms(2) by (rule map_of_SomeD)
  have al: "page_aligned ?lo" "page_aligned ?hi" using page_aligned_add assms(6-8) by blast+
  have lt: "?lo < ?hi" "old \<le> ?lo"
    using assms(5) no_wrap_unat [OF assms(3)] no_wrap_unat [OF assms(4)] assms(3) by (simp_all add: word_less_nat_alt word_le_nat_alt)
  have r: "in_range old nl a \<longleftrightarrow> in_range old ol a \<or> in_range ?lo ?n a" "in_range ?lo ?n a \<Longrightarrow> \<not> in_range old ol a" for a
    using lt by (auto simp: in_range_def)
  have free: "\<not> mapped s a" if "in_range ?lo ?n a" for a
    using that assms(13) range_overlaps_iff [OF D(2)] by (auto simp: mapped_def in_range_def)
  have "\<forall>a. in_range old nl a \<and> \<not> in_range old ol a \<longrightarrow> \<not> covers (allocations s) a" using r(1) free D(8) by blast
  note re = resize_entry [OF D(4,5) e assms(4) al(2) this]
  have cov: "covers (allocations s) a" if "in_range old ol a" for a using e that unfolding covers_def by force
  note op = old_prots [OF D(1) assms(6,7,3,12)]
  have lp: "last ps \<le> 7" "last ps = ps ! (length ps - 1)" using op(2,3) by (simp_all add: last_conv_nth)
  have sm: "same_map (p_mem s) ?m" "geo ?m = geo (p_mem s)" by (rule zero_detach(2)) simp
  have mo: "mem_ok ?m" "vmas ?m = vmas (p_mem s)" using same_map_ok [OF sm(1)] D(1) sm(1) by (simp_all add: same_map_def)
  note st = set_mapping_plain_ok [OF mo(1) al lp(1) lt(1), of False]
  have pc: "same_map (set_mapping ?lo ?hi (last ps) False False ?m) (p_mem s')" by (simp add: assms(14) same_map_def push_cursors_def Let_def)
  have vm: "vma_at (vmas (p_mem s')) a = (if in_range ?lo ?n a then Some (last ps) else vma_at (vmas (p_mem s)) a)" for a
    using st(2) [of a] pc mo(2) by (simp add: same_map_def in_range_def)
  have g: "geo (p_mem s') = geo (push_cursors ?hi (p_mem s))"
    using geo_push [of "set_mapping ?lo ?hi (last ps) False False ?m" "p_mem s" ?hi] sm(2) by (simp add: assms(14))
  have ga: "guard_allocs s' = guard_allocs s" by (simp add: assms(14))
  note ps = pushed [OF D(3) al(2) g ga]
  have nk: "?lo < ?lo + ?n" "?lo + ?n = ?hi" using lt by simp_all
  note rm = remove_free_range_props [OF D(6) nk(1)]
  have "placement_ok s'"
  proof (rule placement_claim [OF assms(1) nk(1), where s' = s'])
    show "4096 \<le> ?lo" using assms(10) lt(2) by simp
    show "page_aligned ?lo" "page_aligned (?lo + ?n)" "?lo + ?n \<le> window_size (p_mem s)" using al assms(11) nk(2) by simp_all
    show "same_layout s s'" by (rule ps(1))
    show "mem_ok (p_mem s')" using same_map_ok [OF pc] st(1) by simp
    show "mapped s' a \<longleftrightarrow> mapped s a \<or> in_range ?lo ?n a" for a by (simp add: mapped_def vm)
    show "ranges_ok (allocations s')" "ranges_aligned (allocations s')" using re(1,2) by (simp_all add: assms(14))
    show "covers (allocations s) a \<or> in_range ?lo ?n a" if "covers (allocations s') a" for a
      using that re(3) r(1) cov by (auto simp: assms(14))
    show "ranges_ok (free_ranges s')" using rm(1) by (simp add: assms(14))
    show "ranges_aligned (free_ranges s')" using remove_aligned(1) [OF D(6,7) nk(1) al(1)] al(2) nk(2) by (simp add: assms(14))
    show "covers (free_ranges s) a \<and> \<not> in_range ?lo ?n a" if "covers (free_ranges s') a" for a
      using that rm(2) by (simp add: assms(14))
    show "passed s' a" if "in_range ?lo ?n a" for a by (rule ps(2)) (use that in \<open>simp add: in_range_def\<close>)
  qed
  moreover have "resized old ol old nl (p_mem s) (p_mem s')"
    unfolding resized_def
  proof (intro conjI allI impI)
    fix a
    have "vma_at (vmas (p_mem s)) (old + min (a - old) (ol - 1)) = Some (last ps)" if "in_range ?lo ?n a"
    proof -
      have "ol - 1 \<le> a - old"
        using that no_wrap_unat [OF assms(3)] lt(2) assms(9)
        by (auto simp: in_range_def word_le_nat_alt unat_sub unat_minus_one)
      then have "min (a - old) (ol - 1) = ol - 1" by (simp add: min_absorb2)
      moreover have "min (unat (ol - 1) div 4096) (length ps - 1) = length ps - 1"
      proof -
        obtain l where l: "unat ol = 4096 * l" using assms(7) by (metis page_alignedE)
        have "0 < l" using l assms(9) by (cases l) (simp_all add: unat_eq_zero)
        then have "unat (ol - 1) div 4096 = l - 1" using l assms(9) by (cases l) (simp_all add: unat_minus_one)
        then show ?thesis using op(1) l by simp
      qed
      ultimately show ?thesis using op(4) [of "ol - 1"] lp(2) by simp
    qed
    then show "vma_at (vmas (p_mem s')) a =
        (if in_range old nl a then vma_at (vmas (p_mem s)) (old + min (a - old) (ol - 1))
         else if in_range old ol a then None else vma_at (vmas (p_mem s)) a)"
      using resized_id [OF assms(3)] r [of a] unfolding vm by auto
    have bytes: "mem_bytes (p_mem s') a = mem_bytes (p_mem s) a" if "\<not> in_range ?lo ?n a"
      using that detach_bytes [OF al, of a "p_mem s"] zero_bytes [of ?lo a ?hi] by (simp add: assms(14) in_range_def)
    show "mem_bytes (p_mem s') a = mem_bytes (p_mem s) (old + (a - old))" if "in_range old (min ol nl) a"
    proof -
      have "in_range old ol a" using that assms(5) by (simp add: min_def split: if_splits)
      then have "\<not> in_range ?lo ?n a" using r(2) by blast
      then show ?thesis using bytes by simp
    qed
    show "mem_bytes (p_mem s') a = mem_bytes (p_mem s) a" if "\<not> in_range old nl a \<and> \<not> in_range old ol a"
      using that bytes r(1) by blast
  qed
  moreover have "mem_bytes (p_mem s') a = 0" if "in_range old nl a" "\<not> in_range old ol a" for a
  proof -
    have "?lo \<le> a" "a < ?hi" using that r(1) [of a] by (simp_all add: in_range_def)
    then show ?thesis using zeroed_detached [OF _ _ assms(11), of ?lo a False] by (simp add: assms(14))
  qed
  ultimately show ?thesis by blast
qed

section \<open>Moving\<close>

lemma page_align_up_aligned:
  assumes "page_aligned x" "x \<le> 0x400000000000"
  shows "page_align_up x = x"
proof (cases "x = 0")
  case False
  have "x \<le> UINT64_MAX - 4095" using order_trans [OF assms(2)] by simp
  note u = page_align_up_props [OF this False]
  obtain k l where kl: "unat x = 4096 * k" "unat (page_align_up x) = 4096 * l" using assms(1) u(1) by (metis page_alignedE)
  have "k \<le> l" "l < k + 1" using u(2,3) kl by (simp_all add: word_le_nat_alt)
  then have "unat (page_align_up x) = unat x" using kl by simp
  then show ?thesis by (rule word_unat_eq_iff [THEN iffD2])
qed (simp add: page_align_up_def)

lemma unmap_end_aligned:
  assumes "page_aligned (a + n)" "a + n \<le> 0x400000000000"
  shows "unmap_end a n = a + n"
proof -
  have "unat (a + n) + 4095 < 2 ^ 64" using assms(2) by (simp add: word_le_nat_alt)
  then show ?thesis using page_align_up_aligned [OF assms] by (simp add: unmap_end_def)
qed

text \<open>The new place, before the copy.\<close>

lemma new_place:
  assumes "placement_ok s" "nsz \<noteq> 0" "fx = 0 \<longrightarrow> roomy s (page_align_up nsz)" "page_aligned old" "page_aligned fx"
    and "fx \<noteq> 0 \<longrightarrow> (\<forall>a. in_range fx (page_align_up nsz) a \<longrightarrow> \<not> in_range old ol a)"
    and "\<forall>a. in_range old ol a \<longrightarrow> mapped s a"
    and "(if fx \<noteq> 0 then mmap_fixed_replace fx nsz nr True q s else mmap_alloc nsz 0 nr q False s) = (r, s1)"
    and "q \<le> 7"
  defines "nl \<equiv> page_align_up nsz"
  shows "placement_ok s1 \<and> (if r = 0 then vmas (p_mem s1) = vmas (p_mem s) else
    (fx \<noteq> 0 \<longrightarrow> r = fx) \<and> (fx = 0 \<longrightarrow> (\<forall>a. in_range r nl a \<longrightarrow> \<not> mapped s a)) \<and>
    page_aligned r \<and> r < r + nl \<and> r + nl \<le> window_size (p_mem s) \<and>
    (\<forall>a. in_range r nl a \<longrightarrow> \<not> in_range old ol a) \<and>
    (\<forall>a. vma_at (vmas (p_mem s1)) a = (if in_range r nl a then Some q else vma_at (vmas (p_mem s)) a)) \<and>
    (\<forall>a. \<not> in_range r nl a \<longrightarrow> mem_bytes (p_mem s1) a = mem_bytes (p_mem s) a) \<and>
    (\<forall>a. in_range r nl a \<longrightarrow> blank s (fx \<noteq> 0) (p_mem s1) a))"
proof -
  have ml: "mmap_length nsz = nl" using assms(2) by (simp add: mmap_length_def nl_def)
  show ?thesis
  proof (cases "fx = 0")
    case True
    then have al: "mmap_alloc nsz 0 nr q False s = (r, s1)" using assms(8) by simp
    have room: "roomy s (mmap_length nsz)" using assms(3) True ml nl_def by simp
    note ok = mmap_alloc_ok [OF assms(1,9) room al, unfolded ml]
    show ?thesis
      using ok mmap_alloc_bytes [OF assms(1) room al, unfolded ml] assms(7) True by (cases "r = 0") (simp_all, metis)
  next
    case False
    then have al: "mmap_fixed_replace fx nsz nr True q s = (r, s1)" using assms(8) by simp
    note ok = mmap_fixed_replace_ok [OF assms(1,9) al, unfolded ml]
    have v: "fx < fx + nl" if "r \<noteq> 0"
      using al
    proof (cases rule: mmap_fixed_replace_steps)
      case (taken m)
      then show ?thesis using valid_range(2) [OF taken(3,4,2)] ml by simp
    qed (use that in simp)
    show ?thesis
      using ok v mmap_fixed_bytes [OF al, unfolded ml] assms(1,5,6) False nl_def
      by (cases "r = 0") (simp_all add: blank_def)
  qed
qed

text \<open>The copy and the permissions, page by page.\<close>

lemma filled_place:
  assumes "placement_ok s1" "page_aligned r" "r < r + nl" "page_aligned nl" "\<forall>q \<in> set qs. q \<le> 7"
    and "length qs = unat (nl div 4096)" "\<forall>a. in_range r nl a \<longrightarrow> mapped s1 a"
    and "m2 = copy_prots 0 r qs (copy_range r old c (set_direct_prot old e 3 (p_mem s1)))"
  shows "placement_ok (s1\<lparr>p_mem := m2\<rparr>)" "window_size m2 = window_size (p_mem s1)"
    and "vma_at (vmas m2) a = (if in_range r nl a then Some (qs ! unat ((a - r) div 4096)) else vma_at (vmas (p_mem s1)) a)"
    and "mem_bytes m2 a = (if a - r < c then mem_bytes (p_mem s1) (a - r + old) else mem_bytes (p_mem s1) a)"
proof -
  let ?m1 = "copy_range r old c (set_direct_prot old e 3 (p_mem s1))"
  have sm: "same_map (p_mem s1) ?m1" "geo ?m1 = geo (p_mem s1)"
    by (simp_all add: same_map_def copy_range_def set_direct_prot_def geo_def Let_def)
  have mo: "mem_ok ?m1" "vmas ?m1 = vmas (p_mem s1)"
    using same_map_ok [OF sm(1)] placement_okD(1) [OF assms(1)] sm(1) by (simp_all add: same_map_def)
  obtain l where l: "unat nl = 4096 * l" using assms(4) by (rule page_alignedE)
  have len: "4096 * length qs = unat nl" using assms(6) l by (simp add: unat_div)
  have b: "unat r + 4096 * (unat (0 :: u64) + length qs) < 2 ^ 64" using no_wrap [OF assms(3)] len by simp
  note cp = copy_prots_ok [OF mo(1) assms(2,5) b, folded assms(8)]
  have ur: "unat r + 4096 * unat (0 :: u64) \<le> unat a \<and> unat a < unat r + 4096 * (unat (0 :: u64) + length qs) \<longleftrightarrow> in_range r nl a" for a
    using len no_wrap_unat [OF assms(3)] by (simp add: in_range_def word_le_nat_alt word_less_nat_alt)
  have at: "vma_at (vmas m2) a =
      (if in_range r nl a then Some (qs ! unat ((a - r) div 4096)) else vma_at (vmas (p_mem s1)) a)" for a
  proof -
    have "(unat a - (unat r + 4096 * unat (0 :: u64))) div 4096 = unat ((a - r) div 4096)" if "in_range r nl a"
      using that by (simp add: in_range_def unat_div unat_sub word_le_nat_alt)
    then show ?thesis using cp unfolding ur mo(2) by auto
  qed
  then show "vma_at (vmas m2) a =
      (if in_range r nl a then Some (qs ! unat ((a - r) div 4096)) else vma_at (vmas (p_mem s1)) a)" .
  have g: "geo m2 = geo (p_mem s1)" using cp sm(2) by simp
  then show "window_size m2 = window_size (p_mem s1)" by (simp add: geo_def)
  show "placement_ok (s1\<lparr>p_mem := m2\<rparr>)"
  proof (rule placement_same [OF assms(1)])
    show "mem_ok (p_mem (s1\<lparr>p_mem := m2\<rparr>))" using cp by simp
    show "mapped (s1\<lparr>p_mem := m2\<rparr>) a \<longleftrightarrow> mapped s1 a" for a
      using assms(7) unfolding mapped_def by (simp add: at)
    show "geo (p_mem (s1\<lparr>p_mem := m2\<rparr>)) = geo (p_mem s1)" using g by simp
  qed simp_all
  show "mem_bytes m2 a = (if a - r < c then mem_bytes (p_mem s1) (a - r + old) else mem_bytes (p_mem s1) a)"
    using cp by (simp add: copy_range_def)
qed

lemma in_range_offset:
  assumes "unat (r + n) = unat r + unat n"
  shows "a - r < n \<longleftrightarrow> in_range r n a"
proof (cases "r \<le> a")
  case True
  then have "unat (a - r) = unat a - unat r" by (simp add: unat_sub word_le_nat_alt)
  then show ?thesis using True assms by (auto simp: in_range_def word_le_nat_alt word_less_nat_alt)
next
  case False
  have "unat (a - r) = 2 ^ 64 + unat a - unat r"
    using False by (subst unat_sub_if_size) (simp add: word_le_nat_alt word_size)
  moreover have "unat r + unat n < 2 ^ 64" using assms unat_u64 [of "r + n"] by simp
  ultimately show ?thesis using False by (auto simp: in_range_def word_less_nat_alt)
qed

lemma moved_ok:
  assumes "placement_ok s" "nsz \<noteq> 0" "fx = 0 \<longrightarrow> roomy s (page_align_up nsz)" "page_aligned old" "page_aligned fx"
    and "fx \<noteq> 0 \<longrightarrow> (\<forall>a. in_range fx (page_align_up nsz) a \<longrightarrow> \<not> in_range old ol a)"
    and "\<forall>a. in_range old ol a \<longrightarrow> mapped s a"
    and "old < old + ol" "page_aligned ol" "ol \<noteq> 0" "page_aligned (page_align_up nsz)" "old + ol \<le> window_size (p_mem s)"
    and "page_prots old (old + ol) (p_mem s) = Some ps" "(r, s') = mremap_move old ol nsz fx ps s"
  defines "nl \<equiv> page_align_up nsz"
  shows "placement_ok s' \<and> (if r = 0 then vmas (p_mem s') = vmas (p_mem s) else
    (fx \<noteq> 0 \<longrightarrow> r = fx) \<and> (fx = 0 \<longrightarrow> (\<forall>a. in_range r nl a \<longrightarrow> \<not> mapped s a)) \<and>
    r + nl \<le> window_size (p_mem s) \<and> resized old ol r nl (p_mem s) (p_mem s') \<and>
    (\<forall>a. in_range r nl a \<and> \<not> in_range r (min ol nl) a \<longrightarrow> blank s (fx \<noteq> 0) (p_mem s') a))"
proof -
  note D = placement_okD [OF assms(1)]
  note L = D(3) [unfolded layout_ok_def]
  obtain r1 s1 where p: "(if fx \<noteq> 0 then mmap_fixed_replace fx nsz False True 3 s else mmap_alloc nsz 0 False 3 False s) = (r1, s1)"
    by (metis prod.exhaust)
  note np = new_place [OF assms(1-7) p _, folded nl_def]
  let ?qs = "map (\<lambda>i. ps ! min i (length ps - 1)) [0..<unat (nl div 4096)]"
  let ?m2 = "copy_prots 0 r1 ?qs (copy_range r1 old (min ol nl) (set_direct_prot old (old + min ol nl) 3 (p_mem s1)))"
  have mv: "(r, s') = (if r1 = 0 then (0, s1) else (r1, untrack_allocation old ol (s1\<lparr>p_mem := ?m2\<rparr>)))"
  proof -
    have rw: "(1 OR 2 :: u8) = 3" by simp
    show ?thesis using assms(14) unfolding mremap_move_def Let_def rw p prod.case nl_def .
  qed
  show ?thesis
  proof (cases "r1 = 0")
    case True
    then show ?thesis using mv np by simp
  next
    case False
    then have r: "r1 = r" "s' = untrack_allocation old ol (s1\<lparr>p_mem := ?m2\<rparr>)" "r \<noteq> 0" using mv by simp_all
    have n: "placement_ok s1" "page_aligned r" "r < r + nl" "r + nl \<le> window_size (p_mem s)"
      "in_range r nl a \<Longrightarrow> \<not> in_range old ol a"
      "vma_at (vmas (p_mem s1)) a = (if in_range r nl a then Some 3 else vma_at (vmas (p_mem s)) a)"
      "\<not> in_range r nl a \<Longrightarrow> mem_bytes (p_mem s1) a = mem_bytes (p_mem s) a"
      "in_range r nl a \<Longrightarrow> blank s (fx \<noteq> 0) (p_mem s1) a" for a
      using np r(3) unfolding r(1) by simp_all
    note op = old_prots [OF D(1) assms(4,9,8,13)]
    have "min i (length ps - 1) < length ps" for i using op(2) by (cases ps) auto
    then have q7: "\<forall>q \<in> set ?qs. q \<le> 7" using bspec [OF op(3) nth_mem] by auto
    have lenq: "length ?qs = unat (nl div 4096)" by simp
    have "\<forall>a. in_range r nl a \<longrightarrow> mapped s1 a" using n(6) by (simp add: mapped_def)
    note fp = filled_place [OF n(1-3) assms(11) [folded nl_def] q7 lenq this refl, where old = old and c = "min ol nl" and e = "old + min ol nl"]
    have ue: "unmap_end old ol = old + ol"
      using unmap_end_aligned [OF page_aligned_add [OF assms(4,9)]] assms(12) L by (meson order_trans)
    have no: "unat old + unat ol < 2 ^ 64" by (rule no_wrap [OF assms(8)])
    note un = untrack_ok [OF fp(1) assms(10,4) no, unfolded ue, folded r(2) [unfolded r(1)]]
    have m: "min ol nl \<le> nl" "min ol nl \<le> ol" "min ol nl \<noteq> 0" using assms(10) n(3) by (auto simp: min_def)
    note w = range_within [OF n(3) m(1,3)] range_within [OF assms(8) m(2,3)]
    have ar: "a - r < min ol nl \<longleftrightarrow> in_range r (min ol nl) a" for a
      using no_wrap_unat [OF w(1)] by (rule in_range_offset)
    have rest: "mem_bytes (p_mem s') a = mem_bytes (p_mem s1) a" if "\<not> in_range r (min ol nl) a" "\<not> in_range old ol a" for a
    proof -
      have "mem_bytes (p_mem s') a = mem_bytes ?m2 a" using un(6) [of a] that(2) r(1) by (simp add: in_range_def)
      moreover have "\<not> a - r < min ol nl" using ar that(1) by blast
      ultimately show ?thesis using fp(4) [of a] r(1) by (simp only: if_False)
    qed
    have "blank s (fx \<noteq> 0) (p_mem s') a" if "in_range r nl a" "\<not> in_range r (min ol nl) a" for a
      using n(8) [OF that(1)] rest [OF that(2) n(5) [OF that(1)]] by (simp add: blank_def)
    moreover have "resized old ol r nl (p_mem s) (p_mem s')"
      unfolding resized_def
    proof (intro conjI allI impI)
      fix a
      have "?qs ! unat ((a - r) div 4096) = ps ! min (unat (a - r) div 4096) (length ps - 1)" if "in_range r nl a"
      proof -
        have "unat (a - r) < unat nl"
          using that no_wrap_unat [OF n(3)] by (auto simp: in_range_def unat_sub word_le_nat_alt word_less_nat_alt)
        moreover obtain l where "unat nl = 4096 * l" using assms(11) [folded nl_def] by (rule page_alignedE)
        ultimately have "unat (a - r) div 4096 < unat (nl div 4096)" by (simp add: unat_div less_mult_imp_div_less)
        then show ?thesis by (simp add: unat_div)
      qed
      then show "vma_at (vmas (p_mem s')) a =
        (if in_range r nl a then vma_at (vmas (p_mem s)) (old + min (a - r) (ol - 1))
         else if in_range old ol a then None else vma_at (vmas (p_mem s)) a)"
        using un(5) [of a] fp(3) [of a] n(5,6) [of a] op(4) [of "a - r"]
        by (auto simp: in_range_def)
    next
      fix a assume a: "in_range r (min ol nl) a"
      note ar = ar [THEN iffD2, OF a]
      have "in_range r nl a" using a w(2) by (auto simp: in_range_def)
      moreover have o: "in_range old ol (old + (a - r))"
        using ar m(2) no_wrap [OF assms(8)] no_wrap_unat [OF assms(8)]
        by (simp add: in_range_def word_le_nat_alt word_less_nat_alt unat_word_ariths)
      ultimately have "\<not> in_range r nl (old + (a - r))" "\<not> in_range old ol a" using n(5) by blast+
      then show "mem_bytes (p_mem s') a = mem_bytes (p_mem s) (old + (a - r))"
        using un(6) [of a] fp(4) [of a] n(7) ar by (simp add: in_range_def add.commute)
    next
      fix a assume o: "\<not> in_range r nl a \<and> \<not> in_range old ol a"
      then have "\<not> in_range r (min ol nl) a" using w(2) by (auto simp: in_range_def)
      then show "mem_bytes (p_mem s') a = mem_bytes (p_mem s) a" using rest n(7) o by simp
    qed
    ultimately show ?thesis using np r(3) un(1) unfolding r(1) by simp
  qed
qed

end
