(* ===== verification/Discard.thy ===== *)
theory Discard
  imports Alloc
begin

text \<open>
  Page contents given up and filled in (\<open>Source/System/Memory/Discard.cpp\<close>): \<open>MADV_DONTNEED\<close>,
  userfaultfd registration and fill, and the move that leaves the old range mapped. What the host
  does to discarded pages is \<open>discard_host\<close>. The host's page table is a parameter:
  \<open>pagemap p n\<close> is what \<open>pread\<close> gives for \<open>n\<close> entries from that of guest page \<open>p\<close>, None when
  \<open>/proc/self/pagemap\<close> cannot be opened or read. \<open>madvise_remove\<close> punches holes in host files and
  is not modelled. Results are the \<open>int64_t\<close> of the code, negative error numbers included.
\<close>

abbreviation (input) ENOENT :: int where "ENOENT \<equiv> 2"
abbreviation (input) EAGAIN :: int where "EAGAIN \<equiv> 11"
abbreviation (input) ENOMEM :: int where "ENOMEM \<equiv> 12"
abbreviation (input) EFAULT :: int where "EFAULT \<equiv> 14"
abbreviation (input) EEXIST :: int where "EEXIST \<equiv> 17"
abbreviation (input) EINVAL :: int where "EINVAL \<equiv> 22"

type_synonym pagemap = "u64 \<Rightarrow> u64 \<Rightarrow> u64 list option"

section \<open>MADV_DONTNEED\<close>

definition mark_missing :: "u64 \<Rightarrow> Memory \<Rightarrow> Memory" where
  "mark_missing p m =
     (if file_pages m p \<noteq> None then m else set_page_flags p (page_flags m p OR UFFD_MISSING) m)"

definition discard_overlap :: "bool \<Rightarrow> u64 \<times> u64 \<times> u8 \<Rightarrow> Memory \<Rightarrow> Memory" where
  "discard_overlap track ov m =
     (let (a, b, prot) = ov; m1 = discard_host a b m
      in if \<not> track \<or> prot = 0 then m1 else fold mark_missing (pages a b) m1)"

definition madvise_dontneed :: "u64 \<Rightarrow> u64 \<Rightarrow> Memory \<Rightarrow> Memory" where
  "madvise_dontneed addr len m =
     (if len = 0 then m
      else
        let start = addr AND NOT PAGE_MASK;
            end0 = (if unat addr + unat len \<ge> 2 ^ 64 \<or> unat (addr + len) + 4095 \<ge> 2 ^ 64
                    then UINT64_MAX AND NOT PAGE_MASK else (addr + len + PAGE_MASK) AND NOT PAGE_MASK);
            end_addr = min end0 (window_size m)
        in fold (discard_overlap (uffd_tracking m)) (overlaps_in start end_addr (vmas m)) m)"

section \<open>userfaultfd\<close>

text \<open>The test goes by lines of eight words, each line ORed together.\<close>

definition page_word :: "Memory \<Rightarrow> u64 \<Rightarrow> nat \<Rightarrow> u64" where
  "page_word m page i = le_word (load_bytes m (page + 8 * of_nat i) 8)"

definition page_is_zero :: "Memory \<Rightarrow> u64 \<Rightarrow> bool" where
  "page_is_zero m page \<longleftrightarrow>
     list_all (\<lambda>l. fold (\<lambda>j any. any OR page_word m page (8 * l + j)) [0..<8] 0 = 0) [0..<64]"

definition enable_uffd_tracking :: "bool \<Rightarrow> Memory \<Rightarrow> Memory" where
  "enable_uffd_tracking readable m =
     (if uffd_tracking m then m
      else
        let m1 = (if readable then m else set_software_checks True (m\<lparr>software_checks_sticky := True\<rparr>))
        in m1\<lparr>uffd_tracking := True\<rparr>)"

definition refresh_page :: "u64 \<times> u64 \<Rightarrow> Memory \<Rightarrow> Memory" where
  "refresh_page e m =
     (let (p, entry) = e; flags = page_flags m p in
      if flags AND UFFD_MISSING \<noteq> 0 \<and> flags AND PAGE_MAPPED \<noteq> 0 \<and>
         entry AND 0xC000000000000000 \<noteq> 0 \<and> \<not> page_is_zero m (p * PAGE_SIZE)
      then set_page_flags p (flags AND NOT UFFD_MISSING) m else m)"

text \<open>What is left of the pages shrinks.\<close>

lemma refresh_measure:
  fixes p n :: u64
  assumes "p < n"
  shows "unat n - unat (p + 1) < unat n - unat p"
    and "unat n - unat (p + min 512 (n - p)) < unat n - unat p"
proof -
  have *: "unat n - unat (p + c) < unat n - unat p" if "c \<noteq> 0" "c \<le> n - p" for c
  proof -
    have "unat c \<le> unat n - unat p" using that(2) by (simp add: word_le_nat_alt unat_sub [OF less_imp_le [OF assms]])
    moreover have "unat n < (2 :: nat) ^ LENGTH(64)" by (rule unsigned_less)
    ultimately have "unat p + unat c < 2 ^ 64" using assms by (simp add: word_less_nat_alt)
    then have "unat (p + c) = unat p + unat c" by (simp add: unat_word_ariths)
    moreover have "0 < unat c" using that(1) by (simp add: unat_gt_0)
    ultimately show ?thesis using assms by (simp add: word_less_nat_alt diff_less_mono2)
  qed
  have d: "n - p \<noteq> 0" using assms by auto
  show "unat n - unat (p + 1) < unat n - unat p"
    using * [of 1] d by (simp add: word_le_nat_alt unat_gt_0 Suc_le_eq)
  show "unat n - unat (p + min 512 (n - p)) < unat n - unat p"
    using * [of "min 512 (n - p)"] d by (simp add: min_def)
qed

text \<open>\<open>refresh_missing_locked\<close>, from page \<open>p\<close> on to page \<open>n\<close>, in batches of 512 entries.\<close>

function refresh_pages :: "pagemap \<Rightarrow> u64 \<Rightarrow> u64 \<Rightarrow> Memory \<Rightarrow> bool \<times> Memory" where
  "refresh_pages pagemap p n m =
     (if \<not> p < n then (True, m)
      else if page_flags m p AND UFFD_MISSING = 0 then refresh_pages pagemap (p + 1) n m
      else
        let count = min 512 (n - p) in
        case pagemap p count of
          None \<Rightarrow> (False, m)
        | Some entries \<Rightarrow>
            if length entries \<noteq> unat count then (False, m)
            else refresh_pages pagemap (p + count) n
                   (fold refresh_page (zip (map (\<lambda>i. p + of_nat i) [0..<unat count]) entries) m))"
  by pat_completeness auto

termination
  by (relation "measure (\<lambda>(_, p, n, _). unat n - unat p)") (use refresh_measure in auto)

declare refresh_pages.simps [simp del]

definition refresh_missing :: "pagemap \<Rightarrow> u64 \<Rightarrow> u64 \<Rightarrow> Memory \<Rightarrow> bool \<times> Memory" where
  "refresh_missing pagemap lo hi m = refresh_pages pagemap (lo div PAGE_SIZE) (hi div PAGE_SIZE) m"

definition register_page :: "bool \<Rightarrow> u64 \<Rightarrow> Memory \<Rightarrow> Memory" where
  "register_page registered p m =
     (let flags = page_flags m p in
      set_page_flags p (if registered then flags OR UFFD_REGISTERED
                        else flags AND NOT UFFD_REGISTERED) m)"

definition register_overlap :: "pagemap \<Rightarrow> bool \<Rightarrow> u64 \<times> u64 \<times> u8 \<Rightarrow> Memory \<Rightarrow> Memory" where
  "register_overlap pagemap registered ov m =
     (let (lo, hi, _) = ov;
          m1 = (if registered then
                  (case refresh_missing pagemap lo hi m of (fresh, m') \<Rightarrow>
                     if \<not> fresh \<and> \<not> software_checks_sticky m'
                     then set_software_checks True (m'\<lparr>software_checks_sticky := True\<rparr>) else m')
                else m)
      in fold (register_page registered) (pages lo hi) m1)"

definition uffd_register :: "pagemap \<Rightarrow> u64 \<Rightarrow> u64 \<Rightarrow> bool \<Rightarrow> Memory \<Rightarrow> int \<times> Memory" where
  "uffd_register pagemap addr len registered m =
     (if unat addr + unat len \<ge> 2 ^ 64 then (- EINVAL, m)
      else
        let end_addr = min (addr + len) (window_size m);
            ranges = filter (\<lambda>(lo, hi, _). lo < hi) (overlaps_in addr end_addr (vmas m))
        in if list_ex (\<lambda>(lo, hi, _). list_ex (\<lambda>p. file_pages m p \<noteq> None) (pages lo hi)) ranges
           then (- EINVAL, m)
           else if ranges = [] then (- EINVAL, m)
           else (0, fold (register_overlap pagemap registered) ranges m))"

definition uffd_drop_registrations :: "Memory \<Rightarrow> Memory" where
  "uffd_drop_registrations m =
     (if \<not> uffd_tracking m then m
      else fold (\<lambda>(lo, v). fold (register_page False) (pages lo (v_end v))) (vmas m) m)"

text \<open>
  The addresses of \<open>for (at = dst; at < dst + len; at += PAGE_SIZE)\<close>. The loop is reached for a range
  of the window, which ends below \<open>2 ^ 48\<close>, so neither sum wraps.
\<close>

definition page_steps :: "u64 \<Rightarrow> u64 \<Rightarrow> u64 list" where
  "page_steps dst len = map (\<lambda>i. dst + of_nat i * PAGE_SIZE) [0..<(unat len + 4095) div 4096]"

definition prot_or_none :: "Memory \<Rightarrow> u64 \<Rightarrow> u8" where
  "prot_or_none m at = (case mapping_prot_at (vmas m) at of None \<Rightarrow> 0 | Some q \<Rightarrow> q)"

text \<open>The bytes \<open>memcpy\<close> or \<open>memset\<close> puts into the page at offset \<open>k\<close> of the destination.\<close>

definition source_page :: "u8 list option \<Rightarrow> u64 \<Rightarrow> u8 list" where
  "source_page src k =
     (case src of None \<Rightarrow> replicate 4096 0 | Some bs \<Rightarrow> take 4096 (drop (unat k) bs))"

definition fill_page :: "u64 \<Rightarrow> u8 list option \<Rightarrow> u64 \<Rightarrow> Memory \<Rightarrow> Memory" where
  "fill_page dst src at m =
     (let prot = prot_or_none m at; closed = (prot AND GUEST_PROT_WRITE = 0);
          m1 = (if closed then set_direct_prot at (at + PAGE_SIZE) 3 m else m);
          m2 = store_bytes at (source_page src (at - dst)) m1;
          m3 = (if closed then set_direct_prot at (at + PAGE_SIZE) prot m2 else m2)
      in set_page_flags (at div PAGE_SIZE) (page_flags m3 (at div PAGE_SIZE) AND NOT UFFD_MISSING) m3)"

fun fill_pages :: "u64 \<Rightarrow> u8 list option \<Rightarrow> u64 list \<Rightarrow> int \<Rightarrow> Memory \<Rightarrow> int \<times> Memory" where
  "fill_pages dst src [] filled m = (filled, m)"
| "fill_pages dst src (at # ats) filled m =
     (if page_flags m (at div PAGE_SIZE) AND UFFD_MISSING = 0
      then (if filled \<noteq> 0 then filled else - EEXIST, m)
      else fill_pages dst src ats (filled + 4096) (fill_page dst src at m))"

definition fillable :: "Memory \<Rightarrow> u64 \<Rightarrow> bool" where
  "fillable m at \<longleftrightarrow> mapping_prot_at (vmas m) at \<noteq> None \<and>
     page_flags m (at div PAGE_SIZE) AND UFFD_REGISTERED \<noteq> 0"

definition uffd_fill :: "u64 \<Rightarrow> u8 list option \<Rightarrow> u64 \<Rightarrow> Memory \<Rightarrow> int \<times> Memory" where
  "uffd_fill dst src len m =
     (if \<not> is_valid_guest_range m dst len then (- ENOENT, m)
      else if \<not> list_all (fillable m) (page_steps dst len) then (- ENOENT, m)
      else fill_pages dst src (page_steps dst len) 0 m)"

section \<open>MREMAP_DONTUNMAP\<close>

text \<open>The first loop: the flags and the permissions of each page, or the error of the first bad one.\<close>

fun page_states :: "Memory \<Rightarrow> u64 list \<Rightarrow> int + (u8 \<times> u8) list" where
  "page_states m [] = Inr []"
| "page_states m (at # ats) =
     (case mapping_prot_at (vmas m) at of
        None \<Rightarrow> Inl (- EFAULT)
      | Some q \<Rightarrow>
          if file_pages m (at div PAGE_SIZE) \<noteq> None then Inl (- EINVAL)
          else case page_states m ats of
                 Inl e \<Rightarrow> Inl e
               | Inr rest \<Rightarrow> Inr ((page_flags m (at div PAGE_SIZE), q) # rest))"

definition access_flags :: "u8 \<Rightarrow> u8" where
  "access_flags prot =
     (if effective_page_prot prot \<noteq> 0 then PAGE_MAPPED OR effective_page_prot prot else 0)"

definition move_page :: "bool \<Rightarrow> u8 \<Rightarrow> u64 \<times> u64 \<times> u8 \<Rightarrow> Memory \<Rightarrow> Memory" where
  "move_page track prot e m =
     (let (page_from, page_to, flags) = e;
          m1 = (if page_is_zero m page_from then m else copy_range page_to page_from PAGE_SIZE m);
          m2 = set_page_flags (page_to div PAGE_SIZE) (access_flags prot OR (flags AND UFFD_MISSING)) m1
      in set_page_flags (page_from div PAGE_SIZE)
           (access_flags prot OR (flags AND UFFD_REGISTERED) OR (if track then UFFD_MISSING else 0)) m2)"

text \<open>
  A run of pages of equal permissions, given by their old flags. A run that its permissions close
  to the copy is opened for the host around it.
\<close>

definition move_run ::
    "bool \<Rightarrow> u8 \<Rightarrow> u8 \<Rightarrow> u64 \<Rightarrow> u64 \<Rightarrow> u8 list \<Rightarrow> Memory \<Rightarrow> Memory" where
  "move_run track first_prot prot from_addr to_addr fs m =
     (let bytes = of_nat (length fs) * PAGE_SIZE;
          raise = (prot AND GUEST_PROT_WRITE = 0 \<or> prot AND (GUEST_PROT_READ OR GUEST_PROT_EXEC) = 0);
          m1 = (if prot \<noteq> first_prot then set_mapping to_addr (to_addr + bytes) prot False False m else m);
          m2 = (if raise then set_direct_prot to_addr (to_addr + bytes) 3
                                (set_direct_prot from_addr (from_addr + bytes) 3 m1) else m1);
          m3 = fold (move_page track prot)
                 (map (\<lambda>j. (from_addr + of_nat j * PAGE_SIZE, to_addr + of_nat j * PAGE_SIZE, fs ! j))
                    [0..<length fs]) m2
      in if raise then set_direct_prot from_addr (from_addr + bytes) prot
                         (set_direct_prot to_addr (to_addr + bytes) prot m3) else m3)"

text \<open>The loop over the runs, from page \<open>i\<close> on.\<close>

fun move_runs ::
    "u64 \<Rightarrow> u64 \<Rightarrow> u64 \<Rightarrow> bool \<Rightarrow> u8 \<Rightarrow> (u8 \<times> u8) list \<Rightarrow> Memory \<Rightarrow> Memory" where
  "move_runs i old dst track first_prot [] m = m"
| "move_runs i old dst track first_prot ((f, prot) # es) m =
     (let fs = f # map fst (takeWhile (\<lambda>e. snd e = prot) es)
      in move_runs (i + of_nat (length fs)) old dst track first_prot (drop (length fs - 1) es)
           (move_run track first_prot prot (old + i * PAGE_SIZE) (dst + i * PAGE_SIZE) fs m))"

text \<open>
  The caller rounds the length to whole pages; of a length below a page the code would read the
  first entry of an empty vector, here \<open>hd []\<close>.
\<close>

definition mremap_dontunmap :: "u64 \<Rightarrow> u64 \<Rightarrow> u64 \<Rightarrow> Placement \<Rightarrow> int \<times> Placement" where
  "mremap_dontunmap old_addr len fixed_addr s =
     (if len = 0 \<or> \<not> is_valid_guest_range (p_mem s) old_addr len \<or>
         fixed_addr \<noteq> 0 \<and> \<not> is_valid_guest_range (p_mem s) fixed_addr len
      then (- EINVAL, s)
      else
        case page_states (p_mem s)
               (map (\<lambda>i. old_addr + of_nat i * PAGE_SIZE) [0..<unat (len div PAGE_SIZE)]) of
          Inl e \<Rightarrow> (e, s)
        | Inr es \<Rightarrow>
            let first_prot = snd (hd es);
                (dst, s1) = (if fixed_addr \<noteq> 0
                             then mmap_fixed_replace fixed_addr len True True first_prot s
                             else mmap_alloc len 0 True first_prot False s)
            in if dst = 0 then (- ENOMEM, s1)
               else
                 (uint dst,
                  upd_mem (\<lambda>m. discard_host old_addr (old_addr + len)
                    (move_runs 0 old_addr dst (uffd_tracking m) first_prot es m)) s1))"

end
