(* ===== verification/DiscardProps.thy ===== *)
theory DiscardProps
  imports Discard AllocSafety MemAccess
begin

text \<open>
  What discarding, registering and filling pages keep, and the exact effect of a fill: of the page
  flags only userfaultfd bits change, so the flags go on mirroring the index. The bytes of discarded
  pages become what a refault brings (\<open>discard_host\<close>).
\<close>

section \<open>Steps that change only userfaultfd bits\<close>

definition same_access :: "Memory \<Rightarrow> Memory \<Rightarrow> bool" where
  "same_access m m' \<longleftrightarrow>
     vmas m' = vmas m \<and> geo m' = geo m \<and> file_pages m' = file_pages m \<and>
     uffd_tracking m' = uffd_tracking m \<and>
     (\<forall>p. page_flags m' p AND 0x87 = page_flags m p AND 0x87) \<and> (soft_ok m \<longrightarrow> soft_ok m')"

lemma same_access_refl [simp]: "same_access m m"
  by (simp add: same_access_def)

lemma same_access_trans: "same_access m m' \<Longrightarrow> same_access m' m'' \<Longrightarrow> same_access m m''"
  by (auto simp: same_access_def)

lemma same_access_fold:
  assumes "\<And>x m. x \<in> set xs \<Longrightarrow> same_access m (f x m)"
  shows "same_access m (fold f xs m)"
  using assms
proof (induction xs arbitrary: m)
  case (Cons x xs)
  show ?case using same_access_trans [OF Cons.prems [of x m] Cons.IH] Cons.prems by simp
qed simp

lemma same_access_mem_ok: "same_access m m' \<Longrightarrow> mem_ok m \<Longrightarrow> mem_ok m'"
  by (simp add: same_access_def mem_ok_def mirror_def)

lemma same_access_soft_ok: "same_access m m' \<Longrightarrow> soft_ok m \<Longrightarrow> soft_ok m'"
  by (simp add: same_access_def)

lemma frame_set_page_flags [simp]:
  "window_size (set_page_flags p f m) = window_size m" "file_pages (set_page_flags p f m) = file_pages m"
  "uffd_tracking (set_page_flags p f m) = uffd_tracking m" "host_prot (set_page_flags p f m) = host_prot m"
  by (simp_all add: set_page_flags_def set_software_checks_def Let_def)

lemma same_access_flags:
  "page_no p \<Longrightarrow> f AND 0x87 = page_flags m p AND 0x87 \<Longrightarrow> same_access m (set_page_flags p f m)"
  by (simp add: same_access_def set_page_flags_soft_ok)

lemma uffd_bits_mirror:
  "(f OR 0x10) AND 0x87 = f AND (0x87 :: u8)" "(f OR 0x20) AND 0x87 = f AND (0x87 :: u8)"
  "(f AND - 17) AND 0x87 = f AND (0x87 :: u8)" "(f AND - 33) AND 0x87 = f AND (0x87 :: u8)"
  by (simp_all add: bit.conj_disj_distrib2 and.assoc)

lemma same_access_host [simp]:
  "same_access m (discard_host a b m)" "same_access m (set_direct_prot lo hi q m)"
  "same_access m (m\<lparr>mem_bytes := bs\<rparr>)"
proof -
  have "soft_ok (m\<lparr>host_prot := h\<rparr>) = soft_ok m" "geo (m\<lparr>host_prot := h\<rparr>) = geo m" for h
    by (rule soft_ok_cong, simp_all add: geo_def)
  then show "same_access m (set_direct_prot lo hi q m)"
    by (simp add: same_access_def set_direct_prot_def Let_def)
qed (simp_all add: same_access_def discard_host_def)

lemma same_access_mark: "page_no p \<Longrightarrow> same_access m (mark_missing p m)"
  by (simp add: mark_missing_def same_access_flags uffd_bits_mirror)

lemma same_access_register: "page_no p \<Longrightarrow> same_access m (register_page r p m)"
  by (simp add: register_page_def Let_def same_access_flags uffd_bits_mirror)

lemma same_access_pages:
  "(\<And>p m. page_no p \<Longrightarrow> same_access m (f p m)) \<Longrightarrow> same_access m (fold f (pages a b) m)"
  by (rule same_access_fold) (blast dest: pages_page_no)

lemma same_access_dontneed: "same_access m (madvise_dontneed addr len m)"
proof -
  have "same_access m (discard_overlap t ov m)" for t ov m
    by (cases ov) (auto simp: discard_overlap_def Let_def
        intro: same_access_trans [OF same_access_host(1) same_access_pages] same_access_mark)
  then show ?thesis by (simp add: madvise_dontneed_def Let_def same_access_fold)
qed

lemma soft_ok_sticky:
  assumes "soft_ok m"
  shows "soft_ok (set_software_checks True (m\<lparr>software_checks_sticky := True\<rparr>))"
  using assms by (simp add: soft_ok_def set_software_checks_def Let_def)

lemma same_access_sticky: "same_access m (set_software_checks True (m\<lparr>software_checks_sticky := True\<rparr>))"
  using soft_ok_sticky by (simp add: same_access_def) (simp add: set_software_checks_def geo_def)

lemma enable_tracking_ok:
  "mem_ok m \<Longrightarrow> mem_ok (enable_uffd_tracking r m)" "soft_ok m \<Longrightarrow> soft_ok (enable_uffd_tracking r m)"
proof -
  have t: "soft_ok (m'\<lparr>uffd_tracking := True\<rparr>) = soft_ok m'" "mem_ok (m'\<lparr>uffd_tracking := True\<rparr>) = mem_ok m'" for m'
    by (simp_all add: soft_ok_def mem_ok_def mirror_def)
  show "mem_ok m \<Longrightarrow> mem_ok (enable_uffd_tracking r m)" "soft_ok m \<Longrightarrow> soft_ok (enable_uffd_tracking r m)"
    by (simp_all add: enable_uffd_tracking_def Let_def t soft_ok_sticky
        same_access_mem_ok [OF same_access_sticky])
qed

lemma same_access_refresh_page: "page_no (fst e) \<Longrightarrow> same_access m (refresh_page e m)"
  by (cases e) (simp add: refresh_page_def Let_def same_access_flags uffd_bits_mirror)

lemma same_access_refresh: "unat n \<le> 2 ^ 52 \<Longrightarrow> same_access m (snd (refresh_pages pagemap p n m))"
proof (induction pagemap p n m rule: refresh_pages.induct)
  case (1 pagemap p n m)
  let ?c = "min 512 (n - p)"
  show ?case
  proof (cases "p < n")
    case lt: True
    show ?thesis
    proof (cases "page_flags m p AND 0x10 = 0")
      case True
      then show ?thesis using lt 1 by (subst refresh_pages.simps) simp
    next
      case False
      let ?m1 = "\<lambda>es. fold refresh_page (zip (map (\<lambda>i. p + of_nat i) [0..<unat ?c]) es) m"
      have step: "same_access m (?m1 es)" for es
      proof (rule same_access_fold, rule same_access_refresh_page)
        fix e assume "e \<in> set (zip (map (\<lambda>i. p + of_nat i) [0..<unat ?c]) es)"
        then have "fst e \<in> set (map (\<lambda>i. p + of_nat i) [0..<unat ?c])"
          by (metis prod.collapse set_zip_leftD)
        then obtain i where i: "i < unat ?c" "fst e = p + of_nat i" by auto
        have "unat ?c \<le> unat (n - p)" by (simp flip: word_le_nat_alt)
        also have "\<dots> = unat n - unat p" by (rule unat_sub [OF less_imp_le [OF lt]])
        finally have b: "unat p + i < 2 ^ 52" using i(1) "1.prems" by simp
        then have "unat (fst e) = unat p + i" using i(2) by (simp add: unat_word_ariths unat_of_nat)
        then show "page_no (fst e)" using b by (simp add: word_less_nat_alt)
      qed
      show ?thesis
      proof (cases "pagemap p ?c")
        case None
        then show ?thesis using lt False by (subst refresh_pages.simps) (simp add: Let_def)
      next
        case (Some es)
        then show ?thesis
          using lt False "1.IH"(2) [OF _ False refl Some] step same_access_trans "1.prems"
          by (subst refresh_pages.simps) (auto simp: Let_def)
      qed
    qed
  qed (subst refresh_pages.simps, simp)
qed

lemma same_access_uffd_register: "same_access m (snd (uffd_register pagemap addr len r m))"
proof -
  have "same_access m (snd (refresh_missing pagemap lo hi m))" for lo hi m
  proof -
    have "unat (hi div 4096) \<le> 2 ^ 52" using unat_u64 [of hi] by (simp add: unat_div)
    then show ?thesis unfolding refresh_missing_def by (rule same_access_refresh)
  qed
  then have "same_access m (register_overlap pagemap r ov m)" for ov m
    by (cases ov) (auto simp: register_overlap_def Let_def case_prod_beta
        intro!: same_access_trans [OF _ same_access_pages] same_access_register
          same_access_trans [OF _ same_access_sticky])
  then show ?thesis by (simp add: uffd_register_def Let_def same_access_fold)
qed

lemma same_access_drop: "same_access m (uffd_drop_registrations m)"
  unfolding uffd_drop_registrations_def
  by (auto intro!: same_access_fold same_access_pages same_access_register split: prod.splits)

section \<open>What a fill does\<close>

text \<open>What the host lets a page with permissions \<open>q\<close> do, as \<open>set_direct_prot\<close> sets it.\<close>

definition host_access :: "u8 \<Rightarrow> u8" where
  "host_access q = (if q AND 5 \<noteq> 0 then 1 else 0) OR (if q AND 2 \<noteq> 0 then 2 else 0)"

definition missing :: "Memory \<Rightarrow> u64 \<Rightarrow> bool" where
  "missing m at \<longleftrightarrow> page_flags m (at div 4096) AND 0x10 \<noteq> 0"

lemma fill_page_fields [simp]:
  "vmas (fill_page dst src at m) = vmas m" "window_size (fill_page dst src at m) = window_size m"
  "page_flags (fill_page dst src at m) =
     (page_flags m)(at div 4096 := page_flags m (at div 4096) AND NOT 0x10)"
  "mem_bytes (fill_page dst src at m) = put_bytes at (source_page src (at - dst)) (mem_bytes m)"
  by (simp_all add: fill_page_def Let_def store_bytes_def)

lemma same_access_fill: "same_access m (fill_page dst src at m)"
proof -
  have p: "page_no (at div 4096)" using unat_u64 [of at] by (simp add: word_less_nat_alt unat_div)
  have o: "same_access m' (if c then set_direct_prot at (at + 4096) q m' else m')" for c q m' by simp
  have st: "same_access m' (store_bytes at bs m')" for bs m' by (simp add: store_bytes_def)
  show ?thesis
    unfolding fill_page_def Let_def
    by (rule same_access_trans [OF same_access_trans [OF same_access_trans [OF o st] o]
          same_access_flags [OF p]]) (simp add: uffd_bits_mirror)
qed

lemma same_access_fills: "same_access m (snd (fill_pages dst src ats f m))"
proof (induction ats arbitrary: f m)
  case (Cons at ats)
  then show ?case by (auto intro: same_access_trans [OF same_access_fill])
qed simp

lemma fill_pages_eq:
  fixes m :: Memory
  assumes "distinct (map (\<lambda>at. at div 4096) ats)" "0 \<le> f"
  defines "n \<equiv> length (takeWhile (missing m) ats)"
  shows "fill_pages dst src ats f m =
    (if n < length ats \<and> f = 0 \<and> n = 0 then - EEXIST else f + 4096 * int n,
     fold (fill_page dst src) (take n ats) m)"
  using assms(1,2) unfolding n_def
proof (induction ats arbitrary: f m)
  case (Cons at ats)
  show ?case
  proof (cases "missing m at")
    case True
    let ?m = "fill_page dst src at m"
    have "at div 4096 \<notin> (\<lambda>x. x div 4096) ` set ats" using Cons.prems(1) by simp
    then have "x div 4096 \<noteq> at div 4096" if "x \<in> set ats" for x using that by (metis image_eqI)
    then have "takeWhile (missing ?m) ats = takeWhile (missing m) ats"
      by (intro takeWhile_cong) (simp_all add: missing_def)
    moreover have "page_flags m (at div 4096) AND 0x10 \<noteq> 0" using True by (simp add: missing_def)
    ultimately show ?thesis using Cons.IH [of "f + 4096" ?m] Cons.prems True by simp
  qed (use Cons.prems in \<open>simp add: missing_def\<close>)
qed simp

lemma page_unat:
  assumes "page_aligned dst" "unat dst + k * 4096 \<le> 2 ^ 64" "i < k"
  shows "unat (dst + of_nat i * 4096) = unat dst + i * 4096"
    and "unat ((dst + of_nat i * 4096) div 4096) = unat (dst div 4096) + i"
proof -
  have "Suc i * 4096 \<le> k * 4096" using assms(3) by (intro mult_le_mono1) simp
  then have "unat dst + i * 4096 < 2 ^ 64" using assms(2) by simp
  then show u: "unat (dst + of_nat i * 4096) = unat dst + i * 4096"
    by (simp add: unat_word_ariths unat_of_nat mod_add_right_eq)
  obtain d where "unat dst = 4096 * d" using assms(1) by (rule page_alignedE)
  then show "unat ((dst + of_nat i * 4096) div 4096) = unat (dst div 4096) + i"
    by (simp add: unat_div u)
qed

lemma page_index:
  assumes "page_aligned dst" "unat dst + k * 4096 \<le> 2 ^ 64" "i < k"
  shows "p = (dst + of_nat i * 4096) div 4096 \<longleftrightarrow> unat p = unat (dst div 4096) + i"
  using page_unat(2) [OF assms] by (metis word_unat_eq_iff)

text \<open>The pages of the destination, and what filling the first \<open>n\<close> of them leaves.\<close>

abbreviation (input) filled_page :: "u64 \<Rightarrow> nat \<Rightarrow> u64 \<Rightarrow> bool" where
  "filled_page dst n p \<equiv> unat (dst div 4096) \<le> unat p \<and> unat p < unat (dst div 4096) + n"

definition filled_byte :: "u8 list option \<Rightarrow> nat \<Rightarrow> u8" where
  "filled_byte src i = (case src of None \<Rightarrow> 0 | Some bs \<Rightarrow> bs ! i)"

lemma source_page_nth:
  assumes "\<And>bs. src = Some bs \<Longrightarrow> unat k + 4096 \<le> length bs"
  shows "length (source_page src k) = 4096"
    and "i < 4096 \<Longrightarrow> source_page src k ! i = filled_byte src (unat k + i)"
  using assms by (auto simp: source_page_def filled_byte_def split: option.splits)

lemma fill_bytes:
  assumes "page_aligned dst" "unat dst + k * 4096 \<le> 2 ^ 64" "n \<le> k"
    "\<And>bs. src = Some bs \<Longrightarrow> k * 4096 \<le> length bs"
  shows "mem_bytes (fold (fill_page dst src) (map (\<lambda>i. dst + of_nat i * 4096) [0..<n]) m) a =
    (if unat (a - dst) < n * 4096 then filled_byte src (unat (a - dst)) else mem_bytes m a)"
  using assms(3)
proof (induction n)
  case (Suc n)
  let ?at = "dst + of_nat n * 4096"
  have le: "Suc n * 4096 \<le> k * 4096" using Suc.prems by (intro mult_le_mono1)
  have n: "n * 4096 < 2 ^ 64" using le assms(2) by simp
  have d: "?at - dst = of_nat n * 4096" by simp
  have u: "unat (of_nat n * 4096 :: u64) = n * 4096" using n by (simp add: unat_word_ariths unat_of_nat)
  have src: "length (source_page src (?at - dst)) = 4096"
    "i < 4096 \<Longrightarrow> source_page src (?at - dst) ! i = filled_byte src (n * 4096 + i)" for i
    using source_page_nth [of src "?at - dst"] assms(4) le unfolding d u by fastforce+
  have split: "unat (a - ?at) < 4096 \<longleftrightarrow> n * 4096 \<le> unat (a - dst) \<and> unat (a - dst) < n * 4096 + 4096"
    "n * 4096 \<le> unat (a - dst) \<Longrightarrow> unat (a - dst) = n * 4096 + unat (a - ?at)"
  proof -
    have e: "a - ?at = (a - dst) - of_nat n * 4096" by simp
    have ge: "unat (a - ?at) = unat (a - dst) - n * 4096" if "n * 4096 \<le> unat (a - dst)"
      unfolding e using that unat_sub [of "of_nat n * 4096" "a - dst"] by (simp add: word_le_nat_alt u)
    then show "n * 4096 \<le> unat (a - dst) \<Longrightarrow> unat (a - dst) = n * 4096 + unat (a - ?at)" by simp
    have "\<not> unat (a - ?at) < 4096" if l: "unat (a - dst) < n * 4096"
    proof
      assume "unat (a - ?at) < 4096"
      moreover have "a - dst = (a - ?at) + of_nat n * 4096" by simp
      moreover have "unat (a - ?at) + n * 4096 < 2 ^ 64" using calculation(1) le assms(2) by simp
      ultimately have "unat (a - dst) = unat (a - ?at) + n * 4096"
        using unat_word_ariths(1) [of "a - ?at" "of_nat n * 4096"] u by simp
      then show False using l by simp
    qed
    then show "unat (a - ?at) < 4096 \<longleftrightarrow> n * 4096 \<le> unat (a - dst) \<and> unat (a - dst) < n * 4096 + 4096"
      using ge by fastforce
  qed
  let ?m = "fold (fill_page dst src) (map (\<lambda>i. dst + of_nat i * 4096) [0..<n]) m"
  have "mem_bytes (fill_page dst src ?at ?m) a =
      (if unat (a - ?at) < 4096 then filled_byte src (n * 4096 + unat (a - ?at)) else mem_bytes ?m a)"
    using src by (simp add: put_bytes_at)
  then show ?case using Suc split by (simp del: fill_page_fields)
qed simp

lemma fill_flags:
  assumes "page_aligned dst" "unat dst + k * 4096 \<le> 2 ^ 64" "n \<le> k"
  shows "page_flags (fold (fill_page dst src) (map (\<lambda>i. dst + of_nat i * 4096) [0..<n]) m) p =
    (if filled_page dst n p then page_flags m p AND NOT 0x10 else page_flags m p)"
  using assms(3)
proof (induction n)
  case (Suc n)
  show ?case
    using Suc page_index [OF assms(1,2), of n p] by (cases "p = (dst + of_nat n * 4096) div 4096") auto
next
  case 0
  then show ?case by (auto simp: not_less)
qed

text \<open>The host lets a closed page do what its permissions say again once it is filled.\<close>

lemma host_fill_page:
  assumes "page_aligned at" "unat at + 4096 \<le> unat (window_size m)" "prot_or_none m at \<le> 7"
  shows "host_prot (fill_page dst src at m) p =
    (if p = at div 4096 \<and> prot_or_none m at AND 2 = 0 then host_access (prot_or_none m at) else host_prot m p)"
proof -
  have one: "at div 4096 \<le> p \<and> p < min (at + 4096) (window_size m) div 4096 \<longleftrightarrow> p = at div 4096" for p
  proof -
    have e: "unat (at + 4096) = unat at + 4096"
      using assms(2) unat_u64 [of "window_size m"] by (simp add: unat_word_ariths)
    then have "min (at + 4096) (window_size m) = at + 4096" using assms(2) by (simp add: min_def word_le_nat_alt)
    moreover obtain k where "unat at = 4096 * k" using assms(1) by (rule page_alignedE)
    ultimately show ?thesis by (auto simp: word_le_nat_alt word_less_nat_alt unat_div e word_unat_eq_iff)
  qed
  have lt: "\<not> at + 4096 \<le> at" "\<not> window_size m \<le> at"
    using assms(2) unat_u64 [of "window_size m"] by (simp_all add: word_le_nat_alt unat_word_ariths)
  have h: "host_prot (set_direct_prot at (at + 4096) q m') p =
      (if p = at div 4096 then host_access q else host_prot m' p)"
    if "window_size m' = window_size m" for q m' p
    unfolding set_direct_prot_def host_access_def that Let_def using lt one by simp
  show ?thesis
    unfolding fill_page_def Let_def using h by (simp add: store_bytes_def)
qed

lemma prot_or_none_eq:
  assumes "mem_ok m"
  shows "prot_or_none m a = (case vma_at (vmas m) a of None \<Rightarrow> 0 | Some q \<Rightarrow> q)" "prot_or_none m a \<le> 7"
proof -
  have q: "q \<le> 7" if "vma_at (vmas m) a = Some q" for q
    using assms that by (auto simp: mem_ok_def prots_ok_def)
  then have "q AND 7 = q" if "vma_at (vmas m) a = Some q" for q using le_7_iff that by blast
  then show "prot_or_none m a = (case vma_at (vmas m) a of None \<Rightarrow> 0 | Some q \<Rightarrow> q)" "prot_or_none m a \<le> 7"
    using assms q by (auto simp: prot_or_none_def mem_ok_def mapping_prot_at_eq split: option.splits)
qed

lemma aligned_page: "page_aligned a \<Longrightarrow> a div 4096 * 4096 = a"
  using word_mod_div_equality [of a 4096] by (simp add: page_aligned_def)

lemma host_fills:
  assumes "mem_ok m" "page_aligned dst" "unat dst + k * 4096 \<le> unat (window_size m)" "n \<le> k"
  shows "host_prot (fold (fill_page dst src) (map (\<lambda>i. dst + of_nat i * 4096) [0..<n]) m) p =
    (if filled_page dst n p \<and> prot_or_none m (p * 4096) AND 2 = 0
     then host_access (prot_or_none m (p * 4096)) else host_prot m p)"
  using assms(4)
proof (induction n)
  case (Suc n)
  let ?at = "dst + of_nat n * 4096"
  let ?m = "fold (fill_page dst src) (map (\<lambda>i. dst + of_nat i * 4096) [0..<n]) m"
  have w: "unat dst + k * 4096 \<le> 2 ^ 64" using assms(3) unat_u64 [of "window_size m"] by simp
  have n: "n < k" "Suc n * 4096 \<le> k * 4096" using Suc.prems by (simp, intro mult_le_mono1)
  note u = page_unat [OF assms(2) w n(1)]
  have al: "page_aligned ?at" using assms(2) u(1) by (simp add: page_aligned_unat mod_add_right_eq)
  have f: "window_size ?m = window_size m" "vmas ?m = vmas m"
    by (simp_all add: field_fold [where g = window_size] field_fold [where g = vmas])
  then have pr: "prot_or_none ?m a = prot_or_none m a" for a by (simp add: prot_or_none_def)
  have "host_prot (fill_page dst src ?at ?m) p =
      (if p = ?at div 4096 \<and> prot_or_none m ?at AND 2 = 0 then host_access (prot_or_none m ?at) else host_prot ?m p)"
    using host_fill_page [OF al, of ?m] prot_or_none_eq(2) [OF assms(1)] assms(3) n(2) unfolding f pr u(1) by simp
  then show ?case
    using Suc page_index [OF assms(2) w n(1), of p] aligned_page [OF al]
    by (cases "p = ?at div 4096") auto
next
  case 0
  then show ?case by (auto simp: not_less)
qed

section \<open>Filling missing pages\<close>

definition registered :: "Memory \<Rightarrow> u64 \<Rightarrow> bool" where
  "registered m a \<longleftrightarrow> vma_at (vmas m) a \<noteq> None \<and> page_flags m (a div 4096) AND 0x20 \<noteq> 0"

text \<open>The number of pages filled: those before the first that is present.\<close>

definition fill_count :: "Memory \<Rightarrow> u64 \<Rightarrow> u64 \<Rightarrow> nat" where
  "fill_count m dst len = length (takeWhile (missing m) (page_steps dst len))"

lemma page_steps_aligned:
  "page_aligned len \<Longrightarrow> page_steps dst len = map (\<lambda>i. dst + of_nat i * 4096) [0..<unat len div 4096]"
proof -
  assume "page_aligned len"
  then obtain k where "unat len = 4096 * k" by (rule page_alignedE)
  then show ?thesis by (simp add: page_steps_def)
qed

lemma fillable_range:
  assumes "mem_ok m" "page_aligned dst" "page_aligned len" "unat dst + unat len < 2 ^ 64"
  shows "list_all (fillable m) (page_steps dst len) \<longleftrightarrow> (\<forall>a. in_range dst len a \<longrightarrow> registered m a)"
proof -
  define k where "k = unat len div 4096"
  have k: "unat len = k * 4096" using assms(3) unfolding k_def by (metis page_alignedE nonzero_mult_div_cancel_left mult.commute zero_neq_numeral)
  have w: "unat dst + k * 4096 \<le> 2 ^ 64" using assms(4) k by simp
  have ok: "vma_ok (vmas m)" "index_aligned (vmas m)" using assms(1) by (simp_all add: mem_ok_def)
  have f: "fillable m a \<longleftrightarrow> registered m a" for a
    by (simp add: fillable_def registered_def mapping_prot_at_eq [OF ok(1)])
  have e: "unat (dst + len) = unat dst + unat len" using assms(4) by (simp add: unat_word_ariths)
  have r: "in_range dst len a \<longleftrightarrow> unat dst \<le> unat a \<and> unat a < unat dst + k * 4096" for a
    by (simp add: in_range_def word_le_nat_alt word_less_nat_alt e k)
  have base: "registered m (page_base a) = registered m a" for a
  proof -
    have "unat (page_base a div 4096) = unat (a div 4096)" by (simp add: unat_div unat_page_base)
    then have "page_base a div 4096 = a div 4096" using word_unat_eq_iff by blast
    then show ?thesis by (simp add: registered_def vma_at_page [OF ok(2)])
  qed
  obtain d where d: "unat dst = 4096 * d" using assms(2) by (rule page_alignedE)
  have at: "\<exists>i < k. page_base a = dst + of_nat i * 4096" if a: "in_range dst len a" for a
  proof -
    let ?i = "unat a div 4096 - d"
    have i: "?i < k" "d \<le> unat a div 4096" using a unfolding r d by linarith+
    have "unat (page_base a) = unat (dst + of_nat ?i * 4096)"
      unfolding page_unat(1) [OF assms(2) w i(1)] unat_page_base d using i(2) by (simp add: diff_mult_distrib)
    then show ?thesis using i(1) word_unat_eq_iff by blast
  qed
  have "in_range dst len (dst + of_nat i * 4096)" if "i < k" for i
    using page_unat(1) [OF assms(2) w that] that unfolding r by simp
  then show ?thesis
    unfolding page_steps_aligned [OF assms(3)] k_def [symmetric] list_all_iff f
    using at base by (force simp del: of_nat_mult)
qed

lemma fill_pages_exact:
  assumes "mem_ok m" "page_aligned dst" "page_aligned len" "unat dst + unat len \<le> unat (window_size m)"
    and "\<And>bs. src = Some bs \<Longrightarrow> unat len \<le> length bs"
    and "fill_pages dst src (page_steps dst len) 0 m = (r, m')"
  defines "n \<equiv> fill_count m dst len"
  shows "r = (if n = 0 \<and> len \<noteq> 0 then - EEXIST else 4096 * int n)"
    and "mem_bytes m' a = (if unat (a - dst) < n * 4096 then filled_byte src (unat (a - dst)) else mem_bytes m a)"
    and "page_flags m' p = (if filled_page dst n p then page_flags m p AND NOT 0x10 else page_flags m p)"
    and "host_prot m' p = (if filled_page dst n p \<and> prot_or_none m (p * 4096) AND 2 = 0
      then host_access (prot_or_none m (p * 4096)) else host_prot m p)"
proof -
  define k where "k = unat len div 4096"
  have k: "unat len = k * 4096" using assms(3) unfolding k_def by (metis page_alignedE nonzero_mult_div_cancel_left mult.commute zero_neq_numeral)
  have w: "unat dst + k * 4096 \<le> 2 ^ 64" using assms(4) k unat_u64 [of "window_size m"] by simp
  have w': "unat dst + k * 4096 \<le> unat (window_size m)" using assms(4) k by simp
  have ps: "page_steps dst len = map (\<lambda>i. dst + of_nat i * 4096) [0..<k]"
    using page_steps_aligned [OF assms(3)] k_def by simp
  have nk: "n \<le> k" using length_takeWhile_le [of "missing m" "page_steps dst len"] by (simp add: n_def fill_count_def ps)
  have dist: "distinct (map (\<lambda>at. at div 4096) (page_steps dst len))"
    unfolding ps by (auto simp: distinct_map comp_def intro!: inj_onI dest: page_index [OF assms(2) w])
      (metis add_left_cancel page_unat(2) [OF assms(2) w])
  have fp: "r = (if n < k \<and> n = 0 then - EEXIST else 4096 * int n)"
    "m' = fold (fill_page dst src) (map (\<lambda>i. dst + of_nat i * 4096) [0..<n]) m"
    using fill_pages_eq [OF dist, of 0 dst src m] assms(6) nk
    unfolding fill_count_def [symmetric] n_def [symmetric] by (auto simp: ps take_map)
  have "len \<noteq> 0 \<longleftrightarrow> 0 < k" using k by (simp add: word_unat_eq_iff)
  then show "r = (if n = 0 \<and> len \<noteq> 0 then - EEXIST else 4096 * int n)" using fp(1) by auto
  have src: "k * 4096 \<le> length bs" if "src = Some bs" for bs using assms(5) [OF that] k by simp
  show "mem_bytes m' a = (if unat (a - dst) < n * 4096 then filled_byte src (unat (a - dst)) else mem_bytes m a)"
    unfolding fp(2) by (rule fill_bytes [OF assms(2) w nk src])
  show "page_flags m' p = (if filled_page dst n p then page_flags m p AND NOT 0x10 else page_flags m p)"
    unfolding fp(2) by (rule fill_flags [OF assms(2) w nk])
  show "host_prot m' p = (if filled_page dst n p \<and> prot_or_none m (p * 4096) AND 2 = 0
      then host_access (prot_or_none m (p * 4096)) else host_prot m p)"
    unfolding fp(2) by (rule host_fills [OF assms(1,2) w' nk])
qed

text \<open>
  C22. \<open>uffd_fill\<close> of whole pages: unless every address of the destination is mapped and in a
  registered page it is \<open>-ENOENT\<close> and changes nothing. Otherwise exactly the pages before the first
  that is present are filled, which the result counts in bytes, \<open>-EEXIST\<close> when there is none: they
  get the bytes of the source, or zeros, and are no longer missing; every other byte and flag and
  the mapping stay, and a page that the guest may not write is closed to the host again.
\<close>

theorem uffd_fill_exact:
  assumes "mem_ok m" "page_aligned dst" "page_aligned len"
    and "\<And>bs. src = Some bs \<Longrightarrow> unat len \<le> length bs"
    and "uffd_fill dst src len m = (r, m')"
  shows "if \<not> is_valid_guest_range m dst len \<or> (\<exists>a. in_range dst len a \<and> \<not> registered m a)
    then r = - ENOENT \<and> m' = m
    else let n = fill_count m dst len in
      r = (if n = 0 \<and> len \<noteq> 0 then - EEXIST else 4096 * int n) \<and>
      (\<forall>a. mem_bytes m' a =
        (if unat (a - dst) < n * 4096 then filled_byte src (unat (a - dst)) else mem_bytes m a)) \<and>
      (\<forall>p. page_flags m' p =
        (if filled_page dst n p then page_flags m p AND NOT 0x10 else page_flags m p)) \<and>
      (\<forall>p. host_prot m' p =
        (if filled_page dst n p \<and> prot_or_none m (p * 4096) AND 2 = 0
         then host_access (prot_or_none m (p * 4096)) else host_prot m p)) \<and>
      vmas m' = vmas m \<and> mem_ok m' \<and> (soft_ok m \<longrightarrow> soft_ok m')"
proof (cases "is_valid_guest_range m dst len")
  case valid: True
  show ?thesis
  proof (cases "len = 0")
    case True
    then have "(r, m') = (0, m)" using assms(5) valid by (simp add: uffd_fill_def page_steps_def)
    then show ?thesis
      using True assms(1) valid by (auto simp: in_range_def fill_count_def page_steps_def not_less Let_def)
  next
    case False
    then have "dst < window_size m" "len \<le> window_size m - dst"
      using valid by (auto simp: is_valid_guest_range_def not_le split: if_splits)
    then have w: "unat dst + unat len \<le> unat (window_size m)"
      by (simp add: word_le_nat_alt word_less_nat_alt unat_sub)
    then have l: "unat dst + unat len < 2 ^ 64" using unat_u64 [of "window_size m"] by simp
    show ?thesis
    proof (cases "\<forall>a. in_range dst len a \<longrightarrow> registered m a")
      case True
      then have f: "fill_pages dst src (page_steps dst len) 0 m = (r, m')"
        using assms(5) valid fillable_range [OF assms(1-3) l] by (simp add: uffd_fill_def)
      have "same_access m m'" using same_access_fills [of m dst src "page_steps dst len" 0] f by simp
      then have s: "vmas m' = vmas m" "mem_ok m'" "soft_ok m \<Longrightarrow> soft_ok m'"
        using same_access_mem_ok assms(1) by (auto simp: same_access_def)
      have c: "\<not> (\<not> is_valid_guest_range m dst len \<or> (\<exists>a. in_range dst len a \<and> \<not> registered m a))"
        using True valid by blast
      show ?thesis
        unfolding if_not_P [OF c] Let_def
        by (intro conjI allI impI fill_pages_exact [OF assms(1-3) w assms(4) f] s)
    next
      case False
      then show ?thesis
        using assms(5) fillable_range [OF assms(1-3) l] by (auto simp: uffd_fill_def split: if_splits)
    qed
  qed
qed (use assms(5) in \<open>simp add: uffd_fill_def\<close>)

definition half_filled :: Memory where
  "half_filled = register_page True 0x11 (mark_missing 0x10 (register_page True 0x10 sample_memory))"

theorem uffd_fill_exact_witness:
  "fst (uffd_fill 0x10000 None 0x2000 half_filled) = 4096 \<and>
   mem_bytes (snd (uffd_fill 0x10000 None 0x2000 half_filled)) 0x10FFF = 0 \<and>
   \<not> missing (snd (uffd_fill 0x10000 None 0x2000 half_filled)) 0x10000"
proof -
  have f: "file_pages (flag_page k r p m) = file_pages m" "file_pages (set_direct_prot a b q m) = file_pages m"
    for k r p q a b m by (simp_all add: flag_page_def set_direct_prot_def Let_def)
  have fp: "file_pages sample_memory 0x10 = None"
    by (simp add: sample_memory_def set_mapping_def Let_def field_fold [where g = file_pages] f Memory_init_def)
  have none: "page_flags sample_memory p AND 0x10 = 0" for p
    using sample_memory_ok(2) by (simp add: no_missing_def)
  have h: "missing half_filled 0x10000" "\<not> missing half_filled 0x11000"
    "page_flags half_filled 0x10 AND 0x20 \<noteq> 0" "page_flags half_filled 0x11 AND 0x20 \<noteq> 0"
    "same_access sample_memory half_filled"
  proof -
    show "missing half_filled 0x10000" "\<not> missing half_filled 0x11000"
      "page_flags half_filled 0x10 AND 0x20 \<noteq> 0" "page_flags half_filled 0x11 AND 0x20 \<noteq> 0"
      by (simp_all add: half_filled_def register_page_def mark_missing_def Let_def missing_def none fp
          bit.conj_disj_distrib2)
    show "same_access sample_memory half_filled"
      unfolding half_filled_def
      by (rule same_access_trans [OF same_access_trans [OF same_access_register same_access_mark]
            same_access_register]) simp_all
  qed
  have v: "vmas half_filled = vmas sample_memory" "window_size half_filled = 0x40000000"
    using h(5) sample_memory_ok(5) by (simp_all add: same_access_def geo_def)
  have ok: "mem_ok half_filled" by (rule same_access_mem_ok [OF h(5) sample_memory_ok(1)])
  have al: "page_aligned (0x10000 :: u64)" "page_aligned (0x2000 :: u64)" by (simp_all add: page_aligned_def)
  have ps: "page_steps 0x10000 0x2000 = [0x10000, 0x11000]" by (simp add: page_steps_def upt_rec)
  have "list_all (fillable half_filled) (page_steps 0x10000 0x2000)"
    using ok sample_memory_ok(4) h(3,4)
    by (simp add: ps fillable_def v mem_ok_def mapping_prot_at_eq)
  then have reg: "\<forall>a. in_range 0x10000 0x2000 a \<longrightarrow> registered half_filled a"
    using fillable_range [OF ok al] by simp
  have n: "fill_count half_filled 0x10000 0x2000 = 1"
    by (simp add: fill_count_def ps h)
  have "is_valid_guest_range half_filled 0x10000 0x2000" by (simp add: is_valid_guest_range_def v)
  then have c: "\<not> (\<not> is_valid_guest_range half_filled 0x10000 0x2000 \<or>
      (\<exists>a. in_range 0x10000 0x2000 a \<and> \<not> registered half_filled a))"
    using reg by blast
  note u = uffd_fill_exact [OF ok al, of None, OF _ prod.collapse [symmetric], simplified if_not_P [OF c] n Let_def]
  show ?thesis
    using u by (simp add: filled_byte_def missing_def bit.conj_disj_distrib2 and.assoc)
qed

end
