(* ===== verification/MoveProps.thy ===== *)
theory MoveProps
  imports RemapSafety DiscardProps
begin

text \<open>
  \<open>mremap_dontunmap\<close>: the pages of the old range move with their permissions and their bytes, and the
  old range stays mapped.
\<close>

section \<open>Permissions\<close>

lemma access_flags_mirror: "q \<le> 7 \<Longrightarrow> access_flags q AND 0x87 = prot_flags (Some q)"
  using and_7_87 [OF effective_le_7, of q]
  by (simp add: access_flags_def prot_flags_def bit.conj_disj_distrib2)

lemma prots_le: "mem_ok m \<Longrightarrow> vma_at (vmas m) a = Some q \<Longrightarrow> q \<le> 7"
  by (auto simp: mem_ok_def prots_ok_def)

text \<open>Flags set from the permissions the index gives the page change userfaultfd bits only.\<close>

lemma same_access_moved:
  assumes "mem_ok m" "page_aligned a" "vma_at (vmas m) a = Some q" "x AND 0x87 = 0"
  shows "same_access m (set_page_flags (a div 4096) (access_flags q OR x) m)"
proof (rule same_access_flags)
  show p: "page_no (a div 4096)" using unat_u64 [of a] by (simp add: word_less_nat_alt unat_div)
  have "page_flags m (a div 4096) AND 0x87 = prot_flags (Some q)"
    using assms(1,3) p aligned_page [OF assms(2)] by (simp add: mem_ok_def mirror_def)
  then show "(access_flags q OR x) AND 0x87 = page_flags m (a div 4096) AND 0x87"
    using access_flags_mirror [OF prots_le [OF assms(1,3)]] assms(4) by (simp add: bit.conj_disj_distrib2)
qed

lemma same_access_move_page:
  assumes "mem_ok m" "page_aligned a" "page_aligned b"
    and "vma_at (vmas m) a = Some q" "vma_at (vmas m) b = Some q"
  shows "same_access m (move_page t q (a, b, f) m)"
proof -
  let ?m1 = "if page_is_zero m a then m else copy_range b a 4096 m"
  let ?m2 = "set_page_flags (b div 4096) (access_flags q OR (f AND 0x10)) ?m1"
  have s1: "same_access m ?m1" by (simp add: copy_range_def)
  have x: "(f AND 0x10) AND 0x87 = 0" "((f AND 0x20) OR (if t then 0x10 else 0)) AND 0x87 = 0"
    by (simp_all add: and.assoc bit.conj_disj_distrib2)
  have v: "vmas ?m1 = vmas m" by (simp add: copy_range_def)
  have s2: "same_access ?m1 ?m2"
    by (rule same_access_moved [OF same_access_mem_ok [OF s1 assms(1)] assms(3) _ x(1)]) (simp only: v assms(5))
  note s12 = same_access_trans [OF s1 s2]
  have "same_access ?m2 (set_page_flags (a div 4096) (access_flags q OR ((f AND 0x20) OR (if t then 0x10 else 0))) ?m2)"
    by (rule same_access_moved [OF same_access_mem_ok [OF s12 assms(1)] assms(2) _ x(2)])
      (simp only: vmas_set_page_flags v assms(4))
  from same_access_trans [OF s12 this] show ?thesis by (simp add: move_page_def Let_def or.assoc)
qed

lemma same_access_move_pages:
  assumes "mem_ok m" "\<And>a b f. (a, b, f) \<in> set es \<Longrightarrow> page_aligned a \<and> page_aligned b \<and>
      vma_at (vmas m) a = Some q \<and> vma_at (vmas m) b = Some q"
  shows "same_access m (fold (move_page t q) es m)"
  using assms
proof (induction es arbitrary: m)
  case (Cons e es)
  obtain a b f where e: "e = (a, b, f)" by (metis prod_cases3)
  have s: "same_access m (move_page t q e m)"
    using same_access_move_page [OF Cons.prems(1)] Cons.prems(2) [of a b f] e by simp
  have "same_access (move_page t q e m) (fold (move_page t q) es (move_page t q e m))"
    using s Cons.prems(2) same_access_mem_ok [OF s Cons.prems(1)]
    by (intro Cons.IH) (auto simp: same_access_def)
  then show ?case using same_access_trans [OF s] by simp
qed simp

text \<open>A run: its permissions are set at the new place, and everything else only moves bytes and flags.\<close>

lemma page_step_aligned:
  assumes "page_aligned a" "unat a + k * 4096 \<le> 2 ^ 64" "j < k"
  shows "page_aligned (a + of_nat j * 4096)"
  using assms(1) page_unat(1) [OF assms] by (simp add: page_aligned_unat mod_add_right_eq)

lemma move_run_ok:
  assumes "mem_ok m" "page_aligned a" "page_aligned b" "fs \<noteq> []" "q \<le> 7"
    and "unat a + length fs * 4096 < 2 ^ 64" "unat b + length fs * 4096 < 2 ^ 64"
    and "\<And>j. j < length fs \<Longrightarrow> vma_at (vmas m) (a + of_nat j * 4096) = Some q"
    and "\<And>j. j < length fs \<Longrightarrow> vma_at (vmas m) (b + of_nat j * 4096) = Some p0"
    and "unat a + length fs * 4096 \<le> unat b \<or> unat b + length fs * 4096 \<le> unat a"
  shows "mem_ok (move_run t p0 q a b fs m)"
    and "vma_at (vmas (move_run t p0 q a b fs m)) x =
      (if q \<noteq> p0 \<and> unat b \<le> unat x \<and> unat x < unat b + length fs * 4096 then Some q else vma_at (vmas m) x)"
    and "geo (move_run t p0 q a b fs m) = geo m" "soft_ok m \<Longrightarrow> soft_ok (move_run t p0 q a b fs m)"
proof -
  let ?n = "length fs"
  let ?e = "b + of_nat ?n * 4096"
  have e: "unat ?e = unat b + ?n * 4096"
    using assms(7) by (simp add: unat_word_ariths unat_of_nat mod_add_right_eq)
  have n: "0 < ?n" using assms(4) by simp
  have lt: "b < ?e" using n by (simp add: word_less_nat_alt e)
  have al: "page_aligned ?e" using assms(3) by (simp add: page_aligned_unat e)
  let ?m1 = "if q \<noteq> p0 then set_mapping b ?e q False False m else m"
  have m1: "mem_ok ?m1" "geo ?m1 = geo m" "soft_ok m \<Longrightarrow> soft_ok ?m1"
    using set_mapping_plain_ok(1) [OF assms(1,3) al assms(5) lt] assms(1) set_mapping_soft_ok by auto
  have v1: "vma_at (vmas ?m1) x =
      (if q \<noteq> p0 \<and> unat b \<le> unat x \<and> unat x < unat b + ?n * 4096 then Some q else vma_at (vmas m) x)" for x
    using set_mapping_plain_ok(2) [OF assms(1,3) al assms(5) lt, of False x]
    by (simp add: word_le_nat_alt word_less_nat_alt e)
  let ?raise = "q AND 2 = 0 \<or> q AND (1 OR 4) = 0"
  let ?f = "a + of_nat ?n * 4096"
  let ?m2 = "if ?raise then set_direct_prot b ?e 3 (set_direct_prot a ?f 3 ?m1) else ?m1"
  have s2: "same_access ?m1 ?m2" by (auto intro: same_access_trans [OF same_access_host(2) same_access_host(2)])
  let ?es = "map (\<lambda>j. (a + of_nat j * 4096, b + of_nat j * 4096, fs ! j)) [0..<?n]"
  have "same_access ?m2 (fold (move_page t q) ?es ?m2)"
  proof (rule same_access_move_pages [OF same_access_mem_ok [OF s2 m1(1)]])
    fix a' b' f assume "(a', b', f) \<in> set ?es"
    then obtain j where j: "j < ?n" "a' = a + of_nat j * 4096" "b' = b + of_nat j * 4096" by auto
    note u = page_unat(1) [OF assms(2) less_imp_le [OF assms(6)] j(1)]
      page_unat(1) [OF assms(3) less_imp_le [OF assms(7)] j(1)]
    have "Suc j * 4096 \<le> ?n * 4096" using j(1) by (intro mult_le_mono1) simp
    then have "vma_at (vmas ?m1) a' = Some q" "vma_at (vmas ?m1) b' = Some q"
      using assms(8,9) [OF j(1)] assms(10) u unfolding v1 j(2,3) by auto
    moreover have "vmas ?m2 = vmas ?m1" by simp
    ultimately show "page_aligned a' \<and> page_aligned b' \<and> vma_at (vmas ?m2) a' = Some q \<and> vma_at (vmas ?m2) b' = Some q"
      using page_step_aligned [OF assms(2) less_imp_le [OF assms(6)] j(1)]
        page_step_aligned [OF assms(3) less_imp_le [OF assms(7)] j(1)] j(2,3) by simp
  qed
  note s3 = same_access_trans [OF s2 this]
  have restored: "same_access m' (if c then set_direct_prot a ?f q (set_direct_prot b ?e q m') else m')" for c m'
    by (auto intro: same_access_trans [OF same_access_host(2) same_access_host(2)])
  have r: "same_access ?m1 (move_run t p0 q a b fs m)"
    unfolding move_run_def Let_def by (rule same_access_trans [OF s3 restored])
  show "mem_ok (move_run t p0 q a b fs m)" by (rule same_access_mem_ok [OF r m1(1)])
  show "soft_ok m \<Longrightarrow> soft_ok (move_run t p0 q a b fs m)" using same_access_soft_ok [OF r] m1(3) by blast
  have f: "vmas (move_run t p0 q a b fs m) = vmas ?m1" "geo (move_run t p0 q a b fs m) = geo ?m1"
    using r unfolding same_access_def by blast+
  show "geo (move_run t p0 q a b fs m) = geo m" by (simp only: f m1(2))
  show "vma_at (vmas (move_run t p0 q a b fs m)) x =
      (if q \<noteq> p0 \<and> unat b \<le> unat x \<and> unat x < unat b + ?n * 4096 then Some q else vma_at (vmas m) x)"
    by (simp only: f v1)
qed

text \<open>The loop over the runs: the pages from page \<open>i\<close> on are still as they were.\<close>

lemma run_entry: "j < Suc (length (takeWhile (\<lambda>e. snd e = q) es)) \<Longrightarrow> snd (((f, q) # es) ! j) = q"
proof (cases j)
  case (Suc k)
  assume "j < Suc (length (takeWhile (\<lambda>e. snd e = q) es))"
  then have "takeWhile (\<lambda>e. snd e = q) es ! k \<in> set (takeWhile (\<lambda>e. snd e = q) es)" using Suc by simp
  then show ?thesis
    using set_takeWhileD [of "takeWhile (\<lambda>e. snd e = q) es ! k"] takeWhile_nth [of k] Suc
      \<open>j < Suc (length (takeWhile (\<lambda>e. snd e = q) es))\<close> by fastforce
qed simp

lemma moved_at:
  assumes "vr = (if unat b + (i + n) * 4096 \<le> unat x \<and> unat x < unat b + k * 4096
      then Some (snd (drop n es ! ((unat x - unat b) div 4096 - (i + n)))) else vm)"
    and "vm = (if q \<noteq> p0 \<and> unat b + i * 4096 \<le> unat x \<and> unat x < unat b + i * 4096 + n * 4096
      then Some q else vma_at (vmas m) x)"
    and "mem_ok m" "n \<le> length es" "i + length es = k" "page_aligned b" "unat b + k * 4096 < 2 ^ 64"
    and "\<And>j. j < n \<Longrightarrow> snd (es ! j) = q"
    and "\<And>j. j < n \<Longrightarrow> vma_at (vmas m) (b + of_nat (i + j) * 4096) = Some p0"
  shows "vr = (if unat b + i * 4096 \<le> unat x \<and> unat x < unat b + k * 4096
    then Some (snd (es ! ((unat x - unat b) div 4096 - i))) else vma_at (vmas m) x)"
proof -
  let ?d = "(unat x - unat b) div 4096"
  have nk: "(i + n) * 4096 \<le> k * 4096" using assms(4,5) by (intro mult_le_mono1) simp
  consider (out) "unat x < unat b + i * 4096 \<or> unat b + k * 4096 \<le> unat x"
    | (here) "unat b + i * 4096 \<le> unat x" "unat x < unat b + (i + n) * 4096"
    | (later) "unat b + (i + n) * 4096 \<le> unat x" "unat x < unat b + k * 4096" by linarith
  then show ?thesis
  proof cases
    case out
    then show ?thesis using assms(1,2) nk by (auto simp: add_mult_distrib)
  next
    case here
    then have d: "i \<le> ?d" "?d < i + n" by (simp_all add: less_eq_div_iff_mult_less_eq div_less_iff_less_mult)
    then have j: "?d - i < n" "i + (?d - i) = ?d" by simp_all
    have dk: "?d < k" using d(2) assms(4,5) by simp
    obtain c where c: "unat b = 4096 * c" using assms(6) by (rule page_alignedE)
    have "unat x div 4096 = (4096 * c + (unat x - unat b)) div 4096" using here(1) c by simp
    also have "\<dots> = c + ?d" by simp
    finally have "unat (page_base x) = unat b + ?d * 4096" by (simp add: unat_page_base c)
    then have "page_base x = b + of_nat ?d * 4096"
      using page_unat(1) [OF assms(6) less_imp_le [OF assms(7)] dk] word_unat_eq_iff by metis
    then have "vma_at (vmas m) x = Some p0"
      using assms(9) [OF j(1)] vma_at_page [of "vmas m" x] assms(3) unfolding j(2) by (simp add: mem_ok_def)
    then show ?thesis using assms(1,2) here nk assms(8) [OF j(1)] by (auto simp: add_mult_distrib)
  next
    case later
    then have d: "i + n \<le> ?d" by (simp add: less_eq_div_iff_mult_less_eq)
    then have "n + (?d - (i + n)) = ?d - i" by simp
    then show ?thesis using assms(1,4) later by (auto simp: add_mult_distrib)
  qed
qed

lemma move_runs_ok:
  assumes "page_aligned a" "page_aligned b" "unat a + k * 4096 < 2 ^ 64" "unat b + k * 4096 < 2 ^ 64"
    and "unat a + k * 4096 \<le> unat b \<or> unat b + k * 4096 \<le> unat a"
  shows "i + length es = k \<Longrightarrow> mem_ok m \<Longrightarrow>
    (\<And>j. j < length es \<Longrightarrow> vma_at (vmas m) (a + of_nat (i + j) * 4096) = Some (snd (es ! j)) \<and>
      vma_at (vmas m) (b + of_nat (i + j) * 4096) = Some p0) \<Longrightarrow>
    mem_ok (move_runs (of_nat i) a b t p0 es m) \<and>
    (soft_ok m \<longrightarrow> soft_ok (move_runs (of_nat i) a b t p0 es m)) \<and>
    geo (move_runs (of_nat i) a b t p0 es m) = geo m \<and>
    (\<forall>x. vma_at (vmas (move_runs (of_nat i) a b t p0 es m)) x =
      (if unat b + i * 4096 \<le> unat x \<and> unat x < unat b + k * 4096
       then Some (snd (es ! ((unat x - unat b) div 4096 - i))) else vma_at (vmas m) x))"
proof (induction es arbitrary: i m rule: length_induct)
  case (1 es)
  show ?case
  proof (cases es)
    case Nil
    then show ?thesis using "1.prems" by (auto simp: not_less)
  next
    case (Cons e es')
    obtain f q where e: "e = (f, q)" by (cases e)
    let ?tw = "takeWhile (\<lambda>e. snd e = q) es'"
    let ?fs = "f # map fst ?tw" and ?n = "Suc (length ?tw)"
    let ?a = "a + of_nat i * 4096" and ?b = "b + of_nat i * 4096"
    let ?m = "move_run t p0 q ?a ?b ?fs m"
    have n: "?n \<le> length es" using length_takeWhile_le [of _ es'] Cons by simp
    then have ik: "i < k" "i + ?n \<le> k" "(i + ?n) * 4096 \<le> k * 4096" using "1.prems"(1) by (simp, simp, intro mult_le_mono1) simp
    note ua = page_unat(1) [OF assms(1) less_imp_le [OF assms(3)] ik(1)]
    note ub = page_unat(1) [OF assms(2) less_imp_le [OF assms(4)] ik(1)]
    have len: "length ?fs = ?n" by simp
    have entry: "snd (es ! j) = q" if "j < ?n" for j using run_entry [OF that] Cons e by simp
    have pa: "a + of_nat (i + j) * 4096 = ?a + of_nat j * 4096" "b + of_nat (i + j) * 4096 = ?b + of_nat j * 4096" for j
      by (simp_all add: algebra_simps)
    have at: "vma_at (vmas m) (?a + of_nat j * 4096) = Some q" "vma_at (vmas m) (?b + of_nat j * 4096) = Some p0"
      if "j < ?n" for j
      using "1.prems"(3) [of j, unfolded pa] that n entry [OF that] by simp_all
    have "vma_at (vmas m) ?a = Some q" using at(1) [of 0] by simp
    then have q: "q \<le> 7" by (rule prots_le [OF "1.prems"(2)])
    have al: "page_aligned ?a" "page_aligned ?b"
      using page_step_aligned [OF assms(1) less_imp_le [OF assms(3)] ik(1)]
        page_step_aligned [OF assms(2) less_imp_le [OF assms(4)] ik(1)] by simp_all
    have lin: "i * 4096 + ?n * 4096 \<le> k * 4096" using ik(3) by (simp add: add_mult_distrib)
    have c: "unat ?a + length ?fs * 4096 < 2 ^ 64" "unat ?b + length ?fs * 4096 < 2 ^ 64"
      "unat ?a + length ?fs * 4096 \<le> unat ?b \<or> unat ?b + length ?fs * 4096 \<le> unat ?a"
      unfolding len ua ub using lin assms(3-5) by linarith+
    have at': "vma_at (vmas m) (?a + of_nat j * 4096) = Some q" "vma_at (vmas m) (?b + of_nat j * 4096) = Some p0"
      if "j < length ?fs" for j using at that unfolding len by blast+
    note run = move_run_ok [OF "1.prems"(2) al _ q c(1,2) at' c(3), simplified, unfolded ub]
    let ?r = "move_runs (of_nat (i + ?n)) a b t p0 (drop ?n es) ?m"
    have rest: "mem_ok ?r \<and> (soft_ok ?m \<longrightarrow> soft_ok ?r) \<and> geo ?r = geo ?m \<and>
      (\<forall>x. vma_at (vmas ?r) x = (if unat b + (i + ?n) * 4096 \<le> unat x \<and> unat x < unat b + k * 4096
         then Some (snd (drop ?n es ! ((unat x - unat b) div 4096 - (i + ?n)))) else vma_at (vmas ?m) x))"
    proof (rule "1.IH" [rule_format])
      show "length (drop ?n es) < length es" "i + ?n + length (drop ?n es) = k"
        using n "1.prems"(1) by simp_all
      show "mem_ok ?m" by (rule run(1))
      fix j assume j: "j < length (drop ?n es)"
      let ?j = "i + ?n + j"
      have jk: "?j < k" "Suc ?j * 4096 \<le> k * 4096"
        using j n "1.prems"(1) by (simp, intro mult_le_mono1) simp
      note u = page_unat(1) [OF assms(1) less_imp_le [OF assms(3)] jk(1)]
        page_unat(1) [OF assms(2) less_imp_le [OF assms(4)] jk(1)]
      have "vma_at (vmas ?m) (a + of_nat ?j * 4096) = vma_at (vmas m) (a + of_nat ?j * 4096)"
        "vma_at (vmas ?m) (b + of_nat ?j * 4096) = vma_at (vmas m) (b + of_nat ?j * 4096)"
        using lin jk(2) assms(5) unfolding run(2) u by (auto simp: add_mult_distrib)
      then show "vma_at (vmas ?m) (a + of_nat ?j * 4096) = Some (snd (drop ?n es ! j)) \<and>
          vma_at (vmas ?m) (b + of_nat ?j * 4096) = Some p0"
        using "1.prems"(3) [of "?n + j"] j n by (simp add: add.assoc)
    qed
    have eq: "move_runs (of_nat i) a b t p0 es m = ?r"
      by (simp add: Cons e Let_def ac_simps)
    have vm: "vma_at (vmas ?r) x = (if unat b + i * 4096 \<le> unat x \<and> unat x < unat b + k * 4096
       then Some (snd (es ! ((unat x - unat b) div 4096 - i))) else vma_at (vmas m) x)" for x
    proof (rule moved_at)
      show "vma_at (vmas ?r) x = (if unat b + (i + ?n) * 4096 \<le> unat x \<and> unat x < unat b + k * 4096
         then Some (snd (drop ?n es ! ((unat x - unat b) div 4096 - (i + ?n)))) else vma_at (vmas ?m) x)"
        using rest by blast
      show "vma_at (vmas ?m) x = (if q \<noteq> p0 \<and> unat b + i * 4096 \<le> unat x \<and>
          unat x < unat b + i * 4096 + ?n * 4096 then Some q else vma_at (vmas m) x)"
        using run(2) [where x = x] by simp
      show "mem_ok m" "?n \<le> length es" "i + length es = k" by (fact "1.prems" n)+
      show "page_aligned b" "unat b + k * 4096 < 2 ^ 64" by (fact assms)+
      show "\<And>j. j < ?n \<Longrightarrow> snd (es ! j) = q" by (rule entry)
      show "\<And>j. j < ?n \<Longrightarrow> vma_at (vmas m) (b + of_nat (i + j) * 4096) = Some p0"
        using at(2) unfolding pa .
    qed
    then show ?thesis unfolding eq using rest run(1,3,4) by simp
  qed
qed

section \<open>Bytes\<close>

definition zero_page :: "(u64 \<Rightarrow> u8) \<Rightarrow> u64 \<Rightarrow> bool" where
  "zero_page f a \<longleftrightarrow> (\<forall>k < 4096. f (a + of_nat k) = 0)"

lemma le_word_zero: "length bs \<le> 8 \<Longrightarrow> le_word bs = 0 \<longleftrightarrow> (\<forall>b \<in> set bs. b = 0)"
proof
  assume l: "length bs \<le> 8" and z: "le_word bs = 0"
  show "\<forall>b \<in> set bs. b = 0"
  proof
    fix b assume "b \<in> set bs"
    then obtain i where i: "i < length bs" "bs ! i = b" by (auto simp: in_set_conv_nth)
    have "\<not> bit b n" for n
    proof (cases "n < 8")
      case True
      have "\<not> bit (le_word bs) (8 * i + n)" using z by simp
      then show ?thesis using bit_le_word [OF l, of "8 * i + n"] True i by simp
    next
      case False
      then show ?thesis using bit_imp_le_length [of b n] by auto
    qed
    then show "b = 0" by (simp add: bit_eq_iff)
  qed
next
  assume "length bs \<le> 8" "\<forall>b \<in> set bs. b = 0"
  then show "le_word bs = 0" by (induction bs) simp_all
qed

lemma fold_or_zero: "fold (\<lambda>j any. any OR f j) js x = 0 \<longleftrightarrow> x = 0 \<and> (\<forall>j \<in> set js. f j = (0 :: u64))"
proof (induction js arbitrary: x)
  case (Cons j js)
  have "x OR f j = 0 \<longleftrightarrow> x = 0 \<and> f j = 0" by (auto simp: bit_eq_iff bit_or_iff)
  then show ?case using Cons by auto
qed simp

lemma page_is_zero_iff: "page_is_zero m a \<longleftrightarrow> zero_page (mem_bytes m) a"
proof -
  have w: "page_word m a i = 0 \<longleftrightarrow> (\<forall>j < 8. mem_bytes m (a + of_nat (8 * i + j)) = 0)" for i
    by (auto simp: page_word_def le_word_zero load_bytes_def add.assoc)
  have "page_is_zero m a \<longleftrightarrow> (\<forall>l < 64. \<forall>i < 8. \<forall>j < 8. mem_bytes m (a + of_nat (8 * (8 * l + i) + j)) = 0)"
    by (simp add: page_is_zero_def fold_or_zero w list_all_iff atLeast0LessThan Ball_def
        del: of_nat_add of_nat_mult)
  also have "\<dots> \<longleftrightarrow> zero_page (mem_bytes m) a"
  proof
    assume z: "\<forall>l < 64. \<forall>i < 8. \<forall>j < 8. mem_bytes m (a + of_nat (8 * (8 * l + i) + j)) = 0"
    have "mem_bytes m (a + of_nat k) = 0" if "k < 4096" for k :: nat
    proof -
      have "k div 8 div 8 < 64" "k div 8 mod 8 < 8" "k mod 8 < 8" using that by simp_all
      then have "mem_bytes m (a + of_nat (8 * (8 * (k div 8 div 8) + k div 8 mod 8) + k mod 8)) = 0" using z by blast
      then show ?thesis by (simp only: mult_div_mod_eq)
    qed
    then show "zero_page (mem_bytes m) a" by (simp add: zero_page_def)
  next
    assume z: "zero_page (mem_bytes m) a"
    show "\<forall>l < 64. \<forall>i < 8. \<forall>j < 8. mem_bytes m (a + of_nat (8 * (8 * l + i) + j)) = 0"
    proof (intro allI impI)
      fix l i j :: nat assume "l < 64" "i < 8" "j < 8"
      then have "8 * (8 * l + i) + j < 4096" by simp
      then show "mem_bytes m (a + of_nat (8 * (8 * l + i) + j)) = 0" using z unfolding zero_page_def by blast
    qed
  qed
  finally show ?thesis .
qed

text \<open>
  The pages of \<open>S\<close> moved from \<open>a\<close> to \<open>b\<close>: those that are not zero are copied, and nothing else
  changes.
\<close>

definition moved :: "u64 \<Rightarrow> u64 \<Rightarrow> nat set \<Rightarrow> (u64 \<Rightarrow> u8) \<Rightarrow> (u64 \<Rightarrow> u8) \<Rightarrow> bool" where
  "moved a b S f f' \<longleftrightarrow> (\<forall>x. f' x =
     (if unat (x - b) div 4096 \<in> S \<and> \<not> zero_page f (a + page_base (x - b)) then f (a + (x - b)) else f x))"

lemma moved_none: "moved a b {} f f"
  by (simp add: moved_def)

lemma apart:
  fixes a b y :: u64
  assumes "unat a + n < 2 ^ 64" "unat b + n < 2 ^ 64" "unat a + n \<le> unat b \<or> unat b + n \<le> unat a" "unat y < n"
  shows "n \<le> unat (a + y - b)"
proof -
  have u: "unat (a + y) = unat a + unat y" using assms(1,4) by (simp add: unat_word_ariths)
  show ?thesis
  proof (cases "unat b \<le> unat (a + y)")
    case True
    then have "unat (a + y - b) = unat a + unat y - unat b" using unat_sub [of b "a + y"] u by (simp add: word_le_nat_alt)
    then show ?thesis using True assms(3,4) u by linarith
  next
    case False
    then have "unat (a + y - b) = unat a + unat y + 2 ^ 64 - unat b"
      using u unat_sub_if' [of "a + y" b] unat_u64 [of b] by simp
    then show ?thesis using assms(2) by linarith
  qed
qed

lemma moved_step:
  assumes "moved a b S f f'" "moved a b T f' f''" "S \<inter> T = {}" "S \<subseteq> {..<k}" "T \<subseteq> {..<k}"
    and "unat a + k * 4096 < 2 ^ 64" "unat b + k * 4096 < 2 ^ 64"
    and "unat a + k * 4096 \<le> unat b \<or> unat b + k * 4096 \<le> unat a"
  shows "moved a b (S \<union> T) f f''"
proof -
  have src: "f' (a + y) = f (a + y)" if "unat y < k * 4096" for y
  proof -
    have "k * 4096 \<le> unat (a + y - b)" by (rule apart [OF assms(6-8) that])
    then have "k \<le> unat (a + y - b) div 4096" by (simp add: less_eq_div_iff_mult_less_eq)
    then have "unat (a + y - b) div 4096 \<notin> S" using assms(4) by fastforce
    then show ?thesis using assms(1) by (simp add: moved_def)
  qed
  show ?thesis
    unfolding moved_def
  proof
    fix x
    let ?i = "unat (x - b) div 4096"
    have t: "f'' x = (if ?i \<in> T \<and> \<not> zero_page f' (a + page_base (x - b)) then f' (a + (x - b)) else f' x)"
      and s: "f' x = (if ?i \<in> S \<and> \<not> zero_page f (a + page_base (x - b)) then f (a + (x - b)) else f x)"
      using assms(1,2) unfolding moved_def by blast+
    show "f'' x = (if ?i \<in> S \<union> T \<and> \<not> zero_page f (a + page_base (x - b)) then f (a + (x - b)) else f x)"
    proof (cases "?i \<in> T")
      case True
      then have i: "?i < k" "?i \<notin> S" using assms(3,5) by auto
      then have "unat (x - b) < k * 4096" by (simp add: div_less_iff_less_mult)
      then have 1: "f' (a + (x - b)) = f (a + (x - b))" by (rule src)
      have "f' (a + page_base (x - b) + of_nat o') = f (a + page_base (x - b) + of_nat o')" if "o' < 4096" for o'
      proof -
        have "Suc ?i * 4096 \<le> k * 4096" using i(1) by (intro mult_le_mono1) simp
        then have l: "?i * 4096 + o' < k * 4096" using that by simp
        then have "unat (page_base (x - b) + of_nat o') = ?i * 4096 + o'"
          using assms(6) by (simp add: unat_word_ariths unat_page_base unat_of_nat)
        then show ?thesis using src [of "page_base (x - b) + of_nat o'"] l by (simp add: add.assoc)
      qed
      then have "zero_page f' (a + page_base (x - b)) = zero_page f (a + page_base (x - b))"
        by (simp add: zero_page_def)
      then show ?thesis using t s True i(2) 1 by simp
    qed (use t s in simp)
  qed
qed

text \<open>Where an address of the destination lies, seen from page \<open>j\<close>.\<close>

lemma page_window:
  fixes y :: u64
  assumes "Suc j * 4096 \<le> 2 ^ 64"
  shows "y - of_nat j * 4096 < 4096 \<longleftrightarrow> unat y div 4096 = j"
    and "unat y div 4096 = j \<Longrightarrow> page_base y = of_nat j * 4096"
proof -
  have u: "unat (of_nat j * 4096 :: u64) = j * 4096" using assms by (simp add: unat_word_ariths unat_of_nat)
  show pb: "unat y div 4096 = j \<Longrightarrow> page_base y = of_nat j * 4096"
    by (simp add: word_unat_eq_iff unat_page_base u)
  show "y - of_nat j * 4096 < 4096 \<longleftrightarrow> unat y div 4096 = j"
  proof (cases "j * 4096 \<le> unat y")
    case True
    then have "unat (y - of_nat j * 4096) = unat y - j * 4096"
      using unat_sub [of "of_nat j * 4096" y] by (simp add: word_le_nat_alt u)
    then show ?thesis using True by (simp add: word_less_nat_alt) linarith
  next
    case False
    then have "unat (y - of_nat j * 4096) = unat y + 2 ^ 64 - j * 4096"
      using unat_sub_if' [of y "of_nat j * 4096"] u by simp
    then show ?thesis using False assms by (simp add: word_less_nat_alt) linarith
  qed
qed

lemma moved_page:
  assumes "Suc j * 4096 \<le> 2 ^ 64"
  shows "moved a b {j} (mem_bytes m)
    (mem_bytes (move_page t q (a + of_nat j * 4096, b + of_nat j * 4096, f) m))"
proof -
  have d: "x - (b + of_nat j * 4096) = (x - b) - of_nat j * 4096"
    "(x - b) - of_nat j * 4096 + (a + of_nat j * 4096) = a + (x - b)" for x by simp_all
  have "mem_bytes (move_page t q (a + of_nat j * 4096, b + of_nat j * 4096, f) m) x =
      (if \<not> zero_page (mem_bytes m) (a + of_nat j * 4096) \<and> (x - b) - of_nat j * 4096 < 4096
       then mem_bytes m (a + (x - b)) else mem_bytes m x)" for x
    unfolding d [symmetric] by (simp add: move_page_def Let_def copy_range_def page_is_zero_iff)
  then show ?thesis
    unfolding moved_def page_window(1) [OF assms] using page_window(2) [OF assms] by auto
qed

lemma moved_pages:
  assumes "unat a + k * 4096 < 2 ^ 64" "unat b + k * 4096 < 2 ^ 64"
    and "unat a + k * 4096 \<le> unat b \<or> unat b + k * 4096 \<le> unat a" "i + n \<le> k"
  shows "moved a b {i..<i + n} (mem_bytes m) (mem_bytes (fold (move_page t q)
    (map (\<lambda>j. (a + of_nat i * 4096 + of_nat j * 4096, b + of_nat i * 4096 + of_nat j * 4096, fs ! j)) [0..<n]) m))"
  using assms(4)
proof (induction n)
  case (Suc n)
  let ?m = "fold (move_page t q)
    (map (\<lambda>j. (a + of_nat i * 4096 + of_nat j * 4096, b + of_nat i * 4096 + of_nat j * 4096, fs ! j)) [0..<n]) m"
  have "Suc (i + n) * 4096 \<le> k * 4096" using Suc.prems by (intro mult_le_mono1) simp
  then have l: "Suc (i + n) * 4096 \<le> 2 ^ 64" using assms(1) by simp
  have "moved a b {i + n} (mem_bytes ?m) (mem_bytes (move_page t q
      (a + of_nat (i + n) * 4096, b + of_nat (i + n) * 4096, fs ! n) ?m))"
    by (rule moved_page [OF l])
  then have "moved a b ({i..<i + n} \<union> {i + n}) (mem_bytes m) (mem_bytes (move_page t q
      (a + of_nat (i + n) * 4096, b + of_nat (i + n) * 4096, fs ! n) ?m))"
    using Suc by (intro moved_step [OF _ _ _ _ _ assms(1-3)]) auto
  moreover have "{i..<i + n} \<union> {i + n} = {i..<i + Suc n}" by auto
  ultimately show ?case by (simp add: algebra_simps)
qed (simp add: moved_none)

lemma moved_run:
  assumes "unat a + k * 4096 < 2 ^ 64" "unat b + k * 4096 < 2 ^ 64"
    and "unat a + k * 4096 \<le> unat b \<or> unat b + k * 4096 \<le> unat a" "i + length fs \<le> k"
  shows "moved a b {i..<i + length fs} (mem_bytes m)
    (mem_bytes (move_run t p0 q (a + of_nat i * 4096) (b + of_nat i * 4096) fs m))"
proof -
  have f: "mem_bytes (if c then set_mapping x y q False False m' else m') = mem_bytes m'"
    "mem_bytes (if c then set_direct_prot x y q' (set_direct_prot x' y' q' m') else m') = mem_bytes m'"
    for c x y x' y' q' m' by simp_all
  let ?m2 = "if q AND 2 = 0 \<or> q AND (1 OR 4) = 0
    then set_direct_prot (b + of_nat i * 4096) (b + of_nat i * 4096 + of_nat (length fs) * 4096) 3
      (set_direct_prot (a + of_nat i * 4096) (a + of_nat i * 4096 + of_nat (length fs) * 4096) 3
        (if q \<noteq> p0 then set_mapping (b + of_nat i * 4096) (b + of_nat i * 4096 + of_nat (length fs) * 4096) q False False m else m))
    else (if q \<noteq> p0 then set_mapping (b + of_nat i * 4096) (b + of_nat i * 4096 + of_nat (length fs) * 4096) q False False m else m)"
  show ?thesis
    using moved_pages [OF assms(1-3,4), of ?m2 t q fs] unfolding move_run_def Let_def f .
qed

lemma moved_runs:
  assumes "unat a + k * 4096 < 2 ^ 64" "unat b + k * 4096 < 2 ^ 64"
    and "unat a + k * 4096 \<le> unat b \<or> unat b + k * 4096 \<le> unat a"
  shows "i + length es = k \<Longrightarrow>
    moved a b {i..<k} (mem_bytes m) (mem_bytes (move_runs (of_nat i) a b t p0 es m))"
proof (induction es arbitrary: i m rule: length_induct)
  case (1 es)
  show ?case
  proof (cases es)
    case Nil
    then show ?thesis using "1.prems" by (simp add: moved_none)
  next
    case (Cons e es')
    obtain f q where e: "e = (f, q)" by (cases e)
    let ?fs = "f # map fst (takeWhile (\<lambda>e. snd e = q) es')"
    let ?n = "length ?fs"
    let ?m = "move_run t p0 q (a + of_nat i * 4096) (b + of_nat i * 4096) ?fs m"
    have n: "?n \<le> length es" using length_takeWhile_le [of _ es'] Cons by simp
    then have ik: "i + ?n \<le> k" using "1.prems" by simp
    have eq: "move_runs (of_nat i) a b t p0 es m = move_runs (of_nat (i + ?n)) a b t p0 (drop ?n es) ?m"
      by (simp add: Cons e Let_def ac_simps)
    have "moved a b {i + ?n..<k} (mem_bytes ?m) (mem_bytes (move_runs (of_nat (i + ?n)) a b t p0 (drop ?n es) ?m))"
      using n "1.prems" by (intro "1.IH" [rule_format]) (simp_all add: Cons)
    then have "moved a b ({i..<i + ?n} \<union> {i + ?n..<k}) (mem_bytes m)
        (mem_bytes (move_runs (of_nat (i + ?n)) a b t p0 (drop ?n es) ?m))"
      using ik by (intro moved_step [OF moved_run [OF assms ik] _ _ _ _ assms]) auto
    moreover have "{i..<i + ?n} \<union> {i + ?n..<k} = {i..<k}" using ik by auto
    ultimately show ?thesis unfolding eq by simp
  qed
qed

section \<open>The whole operation\<close>

lemma page_states_Inr:
  "page_states m ats = Inr es \<Longrightarrow> length es = length ats \<and>
    (\<forall>j < length ats. mapping_prot_at (vmas m) (ats ! j) = Some (snd (es ! j)) \<and>
       file_pages m (ats ! j div 4096) = None)"
proof (induction ats arbitrary: es)
  case (Cons at ats)
  then obtain q rest where r: "mapping_prot_at (vmas m) at = Some q" "file_pages m (at div 4096) = None"
    "page_states m ats = Inr rest" "es = (page_flags m (at div 4096), q) # rest"
    by (auto split: option.splits if_splits sum.splits)
  show ?case using Cons.IH [OF r(3)] r by (auto simp: nth_Cons split: nat.splits)
qed simp

lemma page_states_Inl: "page_states m ats = Inl e \<Longrightarrow> e = - EFAULT \<or> e = - EINVAL"
  by (induction ats) (auto split: option.splits if_splits sum.splits)

lemma range_unat:
  assumes "unat a + unat n < 2 ^ 64"
  shows "in_range a n x \<longleftrightarrow> unat a \<le> unat x \<and> unat x < unat a + unat n"
proof -
  have "unat (a + n) = unat a + unat n" using assms by (simp add: unat_word_ariths)
  then show ?thesis by (simp add: in_range_def word_le_nat_alt word_less_nat_alt)
qed

text \<open>A page of a range, by the offset of one of its addresses.\<close>

lemma page_of_offset:
  assumes "page_aligned a" "unat a + k * 4096 < 2 ^ 64" "unat a \<le> unat x" "unat x < unat a + k * 4096"
  shows "(unat x - unat a) div 4096 < k" "page_base x = a + of_nat ((unat x - unat a) div 4096) * 4096"
proof -
  let ?j = "(unat x - unat a) div 4096"
  show j: "?j < k" using assms(3,4) by (simp add: div_less_iff_less_mult)
  obtain c where c: "unat a = 4096 * c" using assms(1) by (rule page_alignedE)
  have "unat x div 4096 = (4096 * c + (unat x - unat a)) div 4096" using assms(3) c by simp
  also have "\<dots> = c + ?j" by simp
  finally have "unat (page_base x) = unat a + ?j * 4096" by (simp add: unat_page_base c)
  then show "page_base x = a + of_nat ?j * 4096"
    using page_unat(1) [OF assms(1) less_imp_le [OF assms(2)] j] word_unat_eq_iff by metis
qed

lemma scanned_range:
  assumes "mem_ok m" "page_aligned a" "page_aligned n" "unat a + unat n < 2 ^ 64"
    and "page_states m (map (\<lambda>i. a + of_nat i * 4096) [0..<unat (n div 4096)]) = Inr es"
  shows "length es * 4096 = unat n"
    and "j < length es \<Longrightarrow> vma_at (vmas m) (a + of_nat j * 4096) = Some (snd (es ! j))"
    and "in_range a n x \<Longrightarrow> vma_at (vmas m) x = Some (snd (es ! ((unat x - unat a) div 4096)))"
    and "in_range a n x \<Longrightarrow> file_pages m (x div 4096) = None"
proof -
  obtain c where c: "unat n = 4096 * c" using assms(3) by (rule page_alignedE)
  note p = page_states_Inr [OF assms(5)]
  show k: "length es * 4096 = unat n" using p by (simp add: unat_div c)
  have ok: "vma_ok (vmas m)" "index_aligned (vmas m)" using assms(1) by (simp_all add: mem_ok_def)
  show at: "vma_at (vmas m) (a + of_nat j * 4096) = Some (snd (es ! j))" if j: "j < length es" for j
  proof -
    have "mapping_prot_at (vmas m) (a + of_nat j * 4096) = Some (snd (es ! j))" using p j by simp
    then obtain q where q: "vma_at (vmas m) (a + of_nat j * 4096) = Some q" "snd (es ! j) = q AND 7"
      by (auto simp: mapping_prot_at_eq [OF ok(1)])
    then show ?thesis using prots_le [OF assms(1) q(1)] le_7_iff by simp
  qed
  show "vma_at (vmas m) x = Some (snd (es ! ((unat x - unat a) div 4096)))" if x: "in_range a n x"
  proof -
    have w: "unat a + length es * 4096 < 2 ^ 64" using assms(4) k by simp
    have r: "unat a \<le> unat x" "unat x < unat a + length es * 4096" using x range_unat [OF assms(4)] k by simp_all
    note po = page_of_offset [OF assms(2) w r]
    show ?thesis using at [OF po(1)] vma_at_page [OF ok(2), of x] unfolding po(2) by simp
  qed
  show "file_pages m (x div 4096) = None" if x: "in_range a n x"
  proof -
    have w: "unat a + length es * 4096 < 2 ^ 64" using assms(4) k by simp
    have r: "unat a \<le> unat x" "unat x < unat a + length es * 4096" using x range_unat [OF assms(4)] k by simp_all
    note po = page_of_offset [OF assms(2) w r]
    have l: "length (map (\<lambda>i. a + of_nat i * 4096) [0..<unat (n div 4096)]) = length es" using p by simp
    then have "file_pages m (page_base x div 4096) = None" using p po(1) unfolding po(2) by (auto simp: l)
    moreover have "page_base x div 4096 = x div 4096"
      by (simp add: word_unat_eq_iff unat_div unat_page_base)
    ultimately show ?thesis by simp
  qed
qed

lemma apart_ranges:
  assumes "\<forall>x. in_range b n x \<longrightarrow> \<not> in_range a n x" "n \<noteq> 0"
    and "unat a + unat n < 2 ^ 64" "unat b + unat n < 2 ^ 64"
  shows "unat a + unat n \<le> unat b \<or> unat b + unat n \<le> unat a"
proof (rule ccontr)
  assume c: "\<not> ?thesis"
  have "0 < unat n" using assms(2) by (simp add: unat_gt_0)
  then have "in_range b n (max a b) \<and> in_range a n (max a b)"
    using c range_unat [OF assms(3)] range_unat [OF assms(4)] by (simp add: max_def word_le_nat_alt)
  then show False using assms(1) by blast
qed

text \<open>
  What has moved from \<open>old\<close> to \<open>r\<close> when the operation is done: permissions and bytes, and the old
  range is empty. A byte of the destination may differ from its source only where the source page is
  zero and a mapping \<open>mmap_alloc\<close> has placed reads what the reservation held (\<open>blank\<close>).
\<close>

definition pages_moved :: "u64 \<Rightarrow> u64 \<Rightarrow> u64 \<Rightarrow> bool \<Rightarrow> Placement \<Rightarrow> Memory \<Rightarrow> bool" where
  "pages_moved old r len placed s m' \<longleftrightarrow>
     (\<forall>a. vma_at (vmas m') a =
        (if in_range r len a then vma_at (vmas (p_mem s)) (old + (a - r)) else vma_at (vmas (p_mem s)) a)) \<and>
     (\<forall>a. in_range r len a \<longrightarrow>
        mem_bytes m' a = mem_bytes (p_mem s) (old + (a - r)) \<or>
        zero_page (mem_bytes (p_mem s)) (old + page_base (a - r)) \<and> blank s placed m' a) \<and>
     (\<forall>a. in_range old len a \<longrightarrow> mem_bytes m' a = 0) \<and>
     (\<forall>a. \<not> in_range r len a \<and> \<not> in_range old len a \<longrightarrow> mem_bytes m' a = mem_bytes (p_mem s) a)"

lemma moved_bytes:
  assumes "moved old r {0..<k} f f'" "\<forall>a. \<not> in_range r len a \<longrightarrow> f a = f0 a" "unat len = k * 4096"
    and "unat old + k * 4096 < 2 ^ 64" "unat r + k * 4096 < 2 ^ 64"
    and "unat old + k * 4096 \<le> unat r \<or> unat r + k * 4096 \<le> unat old"
  shows "in_range r len a \<Longrightarrow> zero_page f0 (old + page_base (a - r)) \<and> f' a = f a \<or> f' a = f0 (old + (a - r))"
    and "\<not> in_range r len a \<Longrightarrow> f' a = f0 a"
proof -
  have w: "unat r + unat len < 2 ^ 64" using assms(3,5) by simp
  have off: "in_range r len a \<longleftrightarrow> unat (a - r) < k * 4096" for a
  proof (cases "unat r \<le> unat a")
    case True
    then have "unat (a - r) = unat a - unat r" using unat_sub [of r a] by (simp add: word_le_nat_alt)
    then show ?thesis unfolding range_unat [OF w] assms(3) using True by linarith
  next
    case False
    then have "unat (a - r) = unat a + 2 ^ 64 - unat r" using unat_sub_if' [of a r] unat_u64 [of r] by simp
    then show ?thesis unfolding range_unat [OF w] assms(3) using False assms(5) by linarith
  qed
  have src: "f (old + y) = f0 (old + y)" if "unat y < k * 4096" for y
    using apart [OF assms(4-6) that] assms(2) off [of "old + y"] by (auto simp: not_less)
  have f': "f' a = (if unat (a - r) div 4096 \<in> {0..<k} \<and> \<not> zero_page f (old + page_base (a - r))
      then f (old + (a - r)) else f a)" for a using assms(1) unfolding moved_def by blast
  show "\<not> in_range r len a \<Longrightarrow> f' a = f0 a"
    using f' [of a] assms(2) off [of a] by (simp add: div_less_iff_less_mult)
  assume a: "in_range r len a"
  have zp: "zero_page f (old + page_base (a - r)) = zero_page f0 (old + page_base (a - r))"
  proof -
    have "f (old + (page_base (a - r) + of_nat o')) = f0 (old + (page_base (a - r) + of_nat o'))" if "o' < 4096" for o'
    proof (rule src)
      have i: "unat (a - r) div 4096 < k" using a off by (simp add: div_less_iff_less_mult)
      then have "Suc (unat (a - r) div 4096) * 4096 \<le> k * 4096" by (intro mult_le_mono1) simp
      then have l: "unat (a - r) div 4096 * 4096 + o' < k * 4096" using that by simp
      then show "unat (page_base (a - r) + of_nat o') < k * 4096"
        using assms(4) by (simp add: unat_word_ariths unat_page_base unat_of_nat)
    qed
    then show ?thesis by (simp add: zero_page_def add.assoc)
  qed
  show "zero_page f0 (old + page_base (a - r)) \<and> f' a = f a \<or> f' a = f0 (old + (a - r))"
    using f' [of a] zp src [of "a - r"] a off by auto
qed

lemma dontunmap_cases:
  assumes "mremap_dontunmap old len fx s = (r, s')"
  obtains (refused) "r < 0" "s' = s"
  | (full) es s1 where "r = - ENOMEM" "s' = s1" "len \<noteq> 0" "is_valid_guest_range (p_mem s) old len"
      "page_states (p_mem s) (map (\<lambda>i. old + of_nat i * 4096) [0..<unat (len div 4096)]) = Inr es"
      "(if fx \<noteq> 0 then mmap_fixed_replace fx len True True (snd (hd es)) s
        else mmap_alloc len 0 True (snd (hd es)) False s) = (0, s1)"
  | (moved) es dst s1 where "len \<noteq> 0" "is_valid_guest_range (p_mem s) old len" "dst \<noteq> 0" "r = uint dst"
      "page_states (p_mem s) (map (\<lambda>i. old + of_nat i * 4096) [0..<unat (len div 4096)]) = Inr es"
      "(if fx \<noteq> 0 then mmap_fixed_replace fx len True True (snd (hd es)) s
        else mmap_alloc len 0 True (snd (hd es)) False s) = (dst, s1)"
      "s' = upd_mem (\<lambda>m. discard_host old (old + len)
         (move_runs 0 old dst (uffd_tracking m) (snd (hd es)) es m)) s1"
proof (cases "page_states (p_mem s) (map (\<lambda>i. old + of_nat i * 4096) [0..<unat (len div 4096)])")
  case (Inl e)
  then have "r < 0 \<and> s' = s"
    using assms page_states_Inl [OF Inl] by (auto simp: mremap_dontunmap_def split: if_splits)
  then show ?thesis using refused by blast
next
  case (Inr es)
  obtain dst s1 where p: "(if fx \<noteq> 0 then mmap_fixed_replace fx len True True (snd (hd es)) s
      else mmap_alloc len 0 True (snd (hd es)) False s) = (dst, s1)" by (metis prod.exhaust)
  let ?bad = "len = 0 \<or> \<not> is_valid_guest_range (p_mem s) old len \<or>
    fx \<noteq> 0 \<and> \<not> is_valid_guest_range (p_mem s) fx len"
  have "(r, s') = (if ?bad then (- EINVAL, s) else if dst = 0 then (- ENOMEM, s1)
      else (uint dst, upd_mem (\<lambda>m. discard_host old (old + len)
         (move_runs 0 old dst (uffd_tracking m) (snd (hd es)) es m)) s1))"
    unfolding assms [symmetric] mremap_dontunmap_def Inr Let_def sum.case p prod.case ..
  then show ?thesis using refused full moved p Inr by (auto split: if_splits)
qed

lemma file_pages_runs: "file_pages (move_runs i old dst t q es m) = file_pages m"
proof (induction i old dst t q es m rule: move_runs.induct)
  case (2 i old dst track first_prot f prot es m)
  have p: "file_pages (move_page track prot e m') = file_pages m'" for e m'
    by (cases e) (simp add: move_page_def copy_range_def Let_def)
  have d: "file_pages (set_direct_prot lo hi r m') = file_pages m'" for lo hi r m'
    by (simp add: set_direct_prot_def Let_def)
  have "file_pages (move_run track first_prot prot x y fs m') = file_pages m'" for x y fs m'
    by (simp add: move_run_def Let_def d field_fold [of file_pages, OF p])
  then show ?case using 2 by (simp add: Let_def)
qed simp

lemma placed_files:
  assumes "(if fx \<noteq> 0 then mmap_fixed_replace fx n nr z q s else mmap_alloc n 0 nr q False s) = (r, s1)"
    and "file_pages (p_mem s) p = None"
  shows "file_pages (p_mem s1) p = None"
proof (cases "fx = 0")
  case True
  obtain c t where c: "choose_range (mmap_length n) 0 False s = (c, t)" by (metis prod.exhaust)
  have f: "file_pages (p_mem t) p = None"
    using c assms(2) by (auto simp: choose_range_def bump_range_def upd_mem_def Let_def split: if_splits option.splits)
  have g: "file_pages (p_mem (place_guard e s')) = file_pages (p_mem s')" for e s'
    by (simp add: place_guard_def upd_mem_def Let_def)
  have a: "mmap_alloc n 0 nr q False s = (r, s1)" using assms(1) True by simp
  show ?thesis
    using a [symmetric] f assms(2) unfolding mmap_alloc_def mmap_length_def [symmetric] Let_def c
    by (auto simp: upd_mem_def g kept_detached split: if_splits option.splits prod.splits)
next
  case False
  then have a: "mmap_fixed_replace fx n nr z q s = (r, s1)" using assms(1) by simp
  then show ?thesis by (cases rule: mmap_fixed_replace_steps) (use assms(2) in auto)
qed

lemma dontunmap_effect:
  assumes "page_aligned old" "page_aligned dst" "unat len = k * 4096" "k = length es"
    and "unat old + k * 4096 < 2 ^ 64" "unat dst + k * 4096 < 2 ^ 64"
    and "unat old + k * 4096 \<le> unat dst \<or> unat dst + k * 4096 \<le> unat old"
    and "\<And>j. j < k \<Longrightarrow> vma_at (vmas m) (old + of_nat j * 4096) = Some (snd (es ! j))"
    and "\<And>x. in_range old len x \<Longrightarrow> vma_at (vmas m) x = Some (snd (es ! ((unat x - unat old) div 4096)))"
    and "placement_ok s1" "\<forall>a. in_range dst len a \<longrightarrow> \<not> in_range old len a"
    and "\<And>a. vma_at (vmas (p_mem s1)) a = (if in_range dst len a then Some q else vma_at (vmas m) a)"
    and "\<forall>a. \<not> in_range dst len a \<longrightarrow> mem_bytes (p_mem s1) a = mem_bytes m a"
    and "s' = upd_mem (\<lambda>m. discard_host old (old + len) (move_runs 0 old dst t q es m)) s1"
    and "m = p_mem s" "\<And>a. in_range dst len a \<Longrightarrow> blank s placed (p_mem s1) a"
    and "\<And>a. in_range old len a \<Longrightarrow> file_pages (p_mem s1) (a div 4096) = None"
  shows "placement_ok s' \<and> pages_moved old dst len placed s (p_mem s')"
proof -
  have ow: "unat old + unat len < 2 ^ 64" and dw: "unat dst + unat len < 2 ^ 64" using assms(3,5,6) by simp_all
  note kw = assms(5-7)
  let ?mv = "move_runs (of_nat 0) old dst t q es (p_mem s1)"
  have s': "s' = s1\<lparr>p_mem := discard_host old (old + len) ?mv\<rparr>" using assms(14) by (simp add: upd_mem_def)
  have D1: "mem_ok (p_mem s1)" by (rule placement_okD(1) [OF assms(10)])
  have pages: "vma_at (vmas (p_mem s1)) (old + of_nat (0 + j) * 4096) = Some (snd (es ! j)) \<and>
      vma_at (vmas (p_mem s1)) (dst + of_nat (0 + j) * 4096) = Some q" if j: "j < length es" for j
  proof -
    have jk: "j < k" "Suc j * 4096 \<le> k * 4096" using j by (simp add: assms(4), intro mult_le_mono1) (simp add: assms(4))
    have "in_range old len (old + of_nat j * 4096)" "in_range dst len (dst + of_nat j * 4096)"
      unfolding range_unat [OF ow] range_unat [OF dw] page_unat(1) [OF assms(1) less_imp_le [OF kw(1)] jk(1)]
        page_unat(1) [OF assms(2) less_imp_le [OF kw(2)] jk(1)] assms(3) using jk(2) by simp_all
    then show ?thesis using assms(11,12) assms(8) [OF jk(1)] by auto
  qed
  have "0 + length es = k" by (simp add: assms(4))
  note mr = move_runs_ok [OF assms(1,2) kw this D1 pages]
    and mb = moved_runs [OF kw this, of "p_mem s1"]
  have off: "in_range old len (old + (a - dst))" "unat (old + (a - dst)) - unat old = unat a - unat dst"
      "unat dst \<le> unat a" "unat a < unat dst + k * 4096"
    if "in_range dst len a" for a
  proof -
    show a: "unat dst \<le> unat a" "unat a < unat dst + k * 4096" using that range_unat [OF dw] assms(3) by simp_all
    then have d: "unat (a - dst) = unat a - unat dst" by (simp add: word_le_nat_alt unat_sub)
    then have e: "unat (old + (a - dst)) = unat old + (unat a - unat dst)"
      using a(2) kw(1) by (simp add: unat_word_ariths)
    show "in_range old len (old + (a - dst))" using a unfolding range_unat [OF ow] assms(3) e by linarith
    show "unat (old + (a - dst)) - unat old = unat a - unat dst" unfolding e by simp
  qed
  have vm: "vma_at (vmas ?mv) a = (if in_range dst len a then vma_at (vmas m) (old + (a - dst))
      else vma_at (vmas m) a)" for a
  proof (cases "in_range dst len a")
    case True
    note a = off [OF True]
    show ?thesis using mr assms(9) [OF a(1)] a(2-4) True by simp
  next
    case False
    then have "\<not> (unat dst \<le> unat a \<and> unat a < unat dst + k * 4096)" using range_unat [OF dw] assms(3) by simp
    then show ?thesis using mr assms(12) [of a] False by auto
  qed
  have "placement_ok s'"
  proof (rule placement_same [OF assms(10)])
    show "mem_ok (p_mem s')" using mr by (simp add: s' discard_host_def mem_ok_def mirror_def)
    show "mapped s' a \<longleftrightarrow> mapped s1 a" for a
      using vm [of a] assms(12) [of a] assms(9) off(1) [of a] by (auto simp: s' mapped_def discard_host_def)
  qed (use mr in \<open>simp_all add: s' discard_host_def geo_def\<close>)
  moreover have "pages_moved old dst len placed s (p_mem s')"
    unfolding pages_moved_def
  proof (intro conjI allI impI)
    note kb = moved_bytes [OF mb assms(13,3) kw]
    have ro: "old \<le> a \<and> a < old + len \<longleftrightarrow> in_range old len a" for a by (simp add: in_range_def)
    have dh: "mem_bytes (p_mem s') a = (if in_range old len a then refault ?mv a else mem_bytes ?mv a)" for a
      by (simp add: s' discard_host_bytes ro)
    show "vma_at (vmas (p_mem s')) a = (if in_range dst len a then vma_at (vmas (p_mem s)) (old + (a - dst))
        else vma_at (vmas (p_mem s)) a)" for a using vm [of a] by (simp add: s' assms(15) discard_host_def)
    show "mem_bytes (p_mem s') a = 0" if "in_range old len a" for a
      using that dh [of a] assms(17) [OF that] by (simp add: refault_def file_pages_runs)
    show "mem_bytes (p_mem s') a = mem_bytes (p_mem s) a" if "\<not> in_range dst len a \<and> \<not> in_range old len a" for a
      using that dh [of a] kb(2) [of a] by (simp add: assms(15))
    fix a assume a: "in_range dst len a"
    then have e: "mem_bytes (p_mem s') a = mem_bytes ?mv a" using dh [of a] assms(11) by simp
    show "mem_bytes (p_mem s') a = mem_bytes (p_mem s) (old + (a - dst)) \<or>
        zero_page (mem_bytes (p_mem s)) (old + page_base (a - dst)) \<and> blank s placed (p_mem s') a"
    proof -
      have "zero_page (mem_bytes (p_mem s)) (old + page_base (a - dst)) \<and> mem_bytes ?mv a = mem_bytes (p_mem s1) a \<or>
          mem_bytes ?mv a = mem_bytes (p_mem s) (old + (a - dst))"
        using kb(1) [OF a] unfolding assms(15) .
      then show ?thesis using assms(16) [OF a] unfolding blank_def e by metis
    qed
  qed
  ultimately show ?thesis by blast
qed


lemma valid_old:
  assumes "placement_ok s" "len \<noteq> 0" "is_valid_guest_range (p_mem s) old len"
  shows "unat old + unat len < 2 ^ 64" "len \<le> 0x400000000000"
    "unat (window_size (p_mem s)) \<le> 0x400000000000"
proof -
  have "window_size (p_mem s) \<le> 0x400000000000"
    using placement_okD(3) [OF assms(1)] by (simp add: layout_ok_def)
  then show wl: "unat (window_size (p_mem s)) \<le> 0x400000000000" by (simp add: word_le_nat_alt)
  have "old < window_size (p_mem s)" "len \<le> window_size (p_mem s) - old"
    using assms(2,3) by (auto simp: is_valid_guest_range_def not_le split: if_splits)
  then have w: "unat old + unat len \<le> unat (window_size (p_mem s))"
    by (simp add: word_le_nat_alt word_less_nat_alt unat_sub)
  then show "unat old + unat len < 2 ^ 64" using wl by simp
  have "unat len \<le> 0x400000000000" using w wl by simp
  then show "len \<le> 0x400000000000" by (simp add: word_le_nat_alt)
qed

lemma scan_first:
  assumes "mem_ok m" "page_aligned a" "page_aligned n" "unat a + unat n < 2 ^ 64" "n \<noteq> 0"
    and "page_states m (map (\<lambda>i. a + of_nat i * 4096) [0..<unat (n div 4096)]) = Inr es"
  shows "snd (hd es) \<le> 7"
proof -
  note sc = scanned_range [OF assms(1-4,6)]
  have "0 < unat n" using assms(5) by (simp add: unat_gt_0)
  then have "0 < length es" using sc(1) by (cases es) simp_all
  then show ?thesis using prots_le [OF assms(1) sc(2) [of 0]] by (simp add: hd_conv_nth)
qed

text \<open>When there is no place, nothing has moved.\<close>

lemma no_place:
  assumes "placement_ok s" "page_aligned old" "page_aligned len" "fx = 0 \<longrightarrow> roomy s len"
    and "len \<noteq> 0" "is_valid_guest_range (p_mem s) old len"
    and "page_states (p_mem s) (map (\<lambda>i. old + of_nat i * 4096) [0..<unat (len div 4096)]) = Inr es"
    and "(if fx \<noteq> 0 then mmap_fixed_replace fx len True True (snd (hd es)) s
      else mmap_alloc len 0 True (snd (hd es)) False s) = (0, s1)"
  shows "placement_ok s1 \<and> vmas (p_mem s1) = vmas (p_mem s)"
proof -
  note v = valid_old [OF assms(1,5,6)]
  have q: "snd (hd es) \<le> 7" by (rule scan_first [OF placement_okD(1) [OF assms(1)] assms(2,3) v(1) assms(5,7)])
  have ml: "mmap_length len = len" using assms(3,5) v(2) by (simp add: mmap_length_def page_align_up_aligned)
  show ?thesis
  proof (cases "fx = 0")
    case True
    then have a: "mmap_alloc len 0 True (snd (hd es)) False s = (0, s1)" using assms(8) by simp
    have "roomy s (mmap_length len)" using assms(4) True ml by simp
    from mmap_alloc_ok [OF assms(1) q this a] show ?thesis by simp
  next
    case False
    then have "mmap_fixed_replace fx len True True (snd (hd es)) s = (0, s1)" using assms(8) by simp
    from mmap_fixed_replace_ok [OF assms(1) q this] show ?thesis using assms(1) by simp
  qed
qed

lemma dontunmap_moves:
  assumes "placement_ok s" "page_aligned old" "page_aligned len" "page_aligned fx"
    and "fx = 0 \<longrightarrow> roomy s len" "fx \<noteq> 0 \<longrightarrow> (\<forall>a. in_range fx len a \<longrightarrow> \<not> in_range old len a)"
    and "len \<noteq> 0" "is_valid_guest_range (p_mem s) old len" "dst \<noteq> 0"
    and "page_states (p_mem s) (map (\<lambda>i. old + of_nat i * 4096) [0..<unat (len div 4096)]) = Inr es"
    and "(if fx \<noteq> 0 then mmap_fixed_replace fx len True True (snd (hd es)) s
        else mmap_alloc len 0 True (snd (hd es)) False s) = (dst, s1)"
    and "s' = upd_mem (\<lambda>m. discard_host old (old + len)
         (move_runs 0 old dst (uffd_tracking m) (snd (hd es)) es m)) s1"
  shows "placement_ok s' \<and> (fx \<noteq> 0 \<longrightarrow> dst = fx) \<and> (fx = 0 \<longrightarrow> (\<forall>a. in_range dst len a \<longrightarrow> \<not> mapped s a)) \<and>
    pages_moved old dst len (fx \<noteq> 0) s (p_mem s')"
proof -
  note D = placement_okD [OF assms(1)]
  note v = valid_old [OF assms(1,7,8)]
  note ow = v(1) and wl = v(3)
  have up: "page_align_up len = len" by (rule page_align_up_aligned [OF assms(3) v(2)])
  note sc = scanned_range [OF D(1) assms(2,3) ow assms(10)]
  define k where "k = length es"
  have k: "unat len = k * 4096" using sc(1) k_def by simp
  have q: "snd (hd es) \<le> 7" by (rule scan_first [OF D(1) assms(2,3) ow assms(7,10)])
  have om: "\<forall>a. in_range old len a \<longrightarrow> mapped s a" using sc(3) by (simp add: mapped_def)
  note np = new_place [where ol = len, OF assms(1,7) _ assms(2,4) _ om assms(11) q, unfolded up, OF assms(5,6)]
  have n: "placement_ok s1" "fx \<noteq> 0 \<longrightarrow> dst = fx" "fx = 0 \<longrightarrow> (\<forall>a. in_range dst len a \<longrightarrow> \<not> mapped s a)"
    "page_aligned dst" "dst < dst + len" "dst + len \<le> window_size (p_mem s)"
    "\<forall>a. in_range dst len a \<longrightarrow> \<not> in_range old len a"
    "vma_at (vmas (p_mem s1)) a = (if in_range dst len a then Some (snd (hd es)) else vma_at (vmas (p_mem s)) a)"
    "\<forall>a. \<not> in_range dst len a \<longrightarrow> mem_bytes (p_mem s1) a = mem_bytes (p_mem s) a"
    "in_range dst len a \<Longrightarrow> blank s (fx \<noteq> 0) (p_mem s1) a" for a
    using np assms(9) by simp_all
  have fl: "file_pages (p_mem s1) (a div 4096) = None" if "in_range old len a" for a
    by (rule placed_files [OF assms(11) sc(4) [OF that]])
  have "unat (dst + len) = unat dst + unat len"
    using n(5) unat_u64 [of len] by (simp add: word_less_nat_alt unat_plus_if' split: if_splits)
  then have dw: "unat dst + unat len < 2 ^ 64" using n(6) wl by (simp add: word_le_nat_alt)
  note ap = apart_ranges [OF n(7) assms(7) ow dw]
  note kw = ow [unfolded k] dw [unfolded k] ap [unfolded k]
  have c: "\<And>j. j < k \<Longrightarrow> vma_at (vmas (p_mem s)) (old + of_nat j * 4096) = Some (snd (es ! j))"
    using sc(2) k_def by blast
  note e = dontunmap_effect [OF assms(2) n(4) k k_def kw c sc(3) n(1,7-9)]
  have "s' = upd_mem (\<lambda>m. discard_host old (old + len)
      (move_runs 0 old dst (uffd_tracking (p_mem s1)) (snd (hd es)) es m)) s1"
    using assms(12) by (simp add: upd_mem_def)
  from e [OF _ _ this refl n(10) fl] n(2,3) show ?thesis by blast
qed

end
