(* ===== verification/Userfault.thy ===== *)
theory Userfault
  imports Discard
begin

text \<open>
  The userfaultfd descriptor (\<open>Source/System/VFS/Nodes/UserfaultNode.cpp\<close>): the handshake,
  registration, wake, copy and zero page. The state of a descriptor is the features it was opened
  with; everything else happens in guest memory. A fault while the request block is read or the
  result is written is \<open>-EFAULT\<close>, after whatever was done before it.
\<close>

section \<open>Requests\<close>

text \<open>\<open>_IOWR\<close> and \<open>_IOR\<close> of type 0xAA.\<close>

definition ioc :: "u32 \<Rightarrow> u32 \<Rightarrow> u32 \<Rightarrow> u32" where
  "ioc dir nr sz = push_bit 30 dir OR push_bit 16 sz OR push_bit 8 0xAA OR nr"

abbreviation (input) UFFDIO_API :: u32 where "UFFDIO_API \<equiv> ioc 3 0x3F 24"
abbreviation (input) UFFDIO_REGISTER :: u32 where "UFFDIO_REGISTER \<equiv> ioc 3 0 32"
abbreviation (input) UFFDIO_UNREGISTER :: u32 where "UFFDIO_UNREGISTER \<equiv> ioc 2 1 16"
abbreviation (input) UFFDIO_WAKE :: u32 where "UFFDIO_WAKE \<equiv> ioc 2 2 16"
abbreviation (input) UFFDIO_COPY :: u32 where "UFFDIO_COPY \<equiv> ioc 3 3 40"
abbreviation (input) UFFDIO_ZEROPAGE :: u32 where "UFFDIO_ZEROPAGE \<equiv> ioc 3 4 32"
abbreviation (input) UFFD_API :: u64 where "UFFD_API \<equiv> 0xAA"
abbreviation (input) UFFD_FEATURES :: u64 where "UFFD_FEATURES \<equiv> 0x80"
abbreviation (input) INITIALIZED :: u64 where "INITIALIZED \<equiv> 0x8000000000000000"
abbreviation (input) API_IOCTLS :: u64 where "API_IOCTLS \<equiv> 0x8000000000000003"
abbreviation (input) RANGE_IOCTLS :: u64 where "RANGE_IOCTLS \<equiv> 0x1C"
abbreviation (input) TASK_SIZE :: u64 where "TASK_SIZE \<equiv> 0x1000000000000"

definition validate_unaligned :: "u64 \<Rightarrow> u64 \<Rightarrow> int" where
  "validate_unaligned start len =
     (if len AND (PAGE_SIZE - 1) \<noteq> 0 \<or> len = 0 \<or> start < 4096 \<or> start \<ge> TASK_SIZE \<or>
         len > TASK_SIZE - start then - EINVAL else 0)"

definition validate :: "u64 \<Rightarrow> u64 \<Rightarrow> int" where
  "validate start len = (if start AND (PAGE_SIZE - 1) \<noteq> 0 then - EINVAL else validate_unaligned start len)"

section \<open>Blocks in guest memory\<close>

text \<open>\<open>Memory::read\<close> into a buffer of \<open>n\<close> bytes and \<open>Memory::write\<close> of an array of words.\<close>

definition read_block :: "u64 \<Rightarrow> nat \<Rightarrow> Memory \<Rightarrow> (fault + u8 list) \<times> Memory" where
  "read_block addr0 n m =
     (let addr = data_address m addr0 in
      case check_access addr (of_nat n) GUEST_PROT_READ m of
        (Some e, m') \<Rightarrow> (Inl e, m')
      | (None, m') \<Rightarrow> (Inr (load_bytes m' addr n), m'))"

definition read_words :: "u64 \<Rightarrow> nat \<Rightarrow> Memory \<Rightarrow> (fault + u64 list) \<times> Memory" where
  "read_words addr n m =
     (case read_block addr (8 * n) m of
        (Inl e, m') \<Rightarrow> (Inl e, m')
      | (Inr bs, m') \<Rightarrow> (Inr (map (\<lambda>i. le_word (take 8 (drop (8 * i) bs))) [0..<n]), m'))"

definition write_words :: "u64 \<Rightarrow> u64 list \<Rightarrow> Memory \<Rightarrow> fault option \<times> Memory" where
  "write_words addr ws m = mem_write addr (concat (map (le_bytes 8) ws)) m"

section \<open>The operations of a descriptor\<close>

record UffdNode =
  u_features :: u64

definition UffdNode_init :: UffdNode where
  "UffdNode_init = \<lparr>u_features = 0\<rparr>"

type_synonym uffd_state = "UffdNode \<times> Memory"

text \<open>A write after which the request ends with \<open>r\<close>.\<close>

definition answer :: "u64 \<Rightarrow> u64 list \<Rightarrow> int \<Rightarrow> Memory \<Rightarrow> int \<times> Memory" where
  "answer addr ws r m =
     (case write_words addr ws m of (Some _, m') \<Rightarrow> (- EFAULT, m') | (None, m') \<Rightarrow> (r, m'))"

definition uffd_api :: "u64 \<Rightarrow> uffd_state \<Rightarrow> int \<times> uffd_state" where
  "uffd_api argp s =
     (let (node, m) = s;
          fail = (\<lambda>m. case answer argp [0, 0, 0] (- EINVAL) m of (r, m') \<Rightarrow> (r, node, m'))
      in case read_words argp 3 m of
           (Inl _, m1) \<Rightarrow> (- EFAULT, node, m1)
         | (Inr api, m1) \<Rightarrow>
             let requested = api ! 1 in
             if api ! 0 \<noteq> UFFD_API \<or> requested AND NOT UFFD_FEATURES \<noteq> 0 then fail m1
             else
               (case write_words argp [api ! 0, UFFD_FEATURES, API_IOCTLS] m1 of
                  (Some _, m2) \<Rightarrow> (- EFAULT, node, m2)
                | (None, m2) \<Rightarrow>
                    if u_features node = 0
                    then (0, node\<lparr>u_features := requested OR INITIALIZED\<rparr>, m2)
                    else fail m2))"

definition register_range :: "pagemap \<Rightarrow> u64 \<Rightarrow> bool \<Rightarrow> uffd_state \<Rightarrow> int \<times> Memory" where
  "register_range pagemap argp registered s =
     (let (node, m) = s in
      if \<not> registered then
        (case read_words argp 2 m of
           (Inl _, m1) \<Rightarrow> (- EFAULT, m1)
         | (Inr rng, m1) \<Rightarrow>
             if validate (rng ! 0) (rng ! 1) \<noteq> 0 then (validate (rng ! 0) (rng ! 1), m1)
             else uffd_register pagemap (rng ! 0) (rng ! 1) False m1)
      else
        (case read_words argp 3 m of
           (Inl _, m1) \<Rightarrow> (- EFAULT, m1)
         | (Inr reg, m1) \<Rightarrow>
             let mode = reg ! 2 in
             if mode = 0 \<or> mode AND NOT 7 \<noteq> 0 then (- EINVAL, m1)
             else if mode AND 6 \<noteq> 0 then (- EINVAL, m1)
             else if validate (reg ! 0) (reg ! 1) \<noteq> 0 then (validate (reg ! 0) (reg ! 1), m1)
             else if u_features node AND UFFD_FEATURES = 0 then (- EINVAL, m1)
             else
               (case uffd_register pagemap (reg ! 0) (reg ! 1) True m1 of
                  (e, m2) \<Rightarrow> if e \<noteq> 0 then (e, m2) else answer (argp + 24) [RANGE_IOCTLS] 0 m2)))"

text \<open>The copy reads its source page by page until a page faults.\<close>

fun read_pages :: "u64 \<Rightarrow> nat \<Rightarrow> u8 list \<Rightarrow> Memory \<Rightarrow> u8 list \<times> Memory" where
  "read_pages src 0 got m = (got, m)"
| "read_pages src (Suc n) got m =
     (case read_block src 4096 m of
        (Inl _, m') \<Rightarrow> (got, m')
      | (Inr bs, m') \<Rightarrow> read_pages (src + PAGE_SIZE) n (got @ bs) m')"

definition uffd_copy_in :: "u64 \<Rightarrow> u64 \<Rightarrow> u64 \<Rightarrow> Memory \<Rightarrow> int \<times> Memory" where
  "uffd_copy_in dst src len m =
     (case read_pages src (unat (len div PAGE_SIZE)) [] m of
        (data, m') \<Rightarrow> if data = [] then (- EFAULT, m')
                      else uffd_fill dst (Some data) (of_nat (length data)) m')"

definition fill :: "u64 \<Rightarrow> bool \<Rightarrow> Memory \<Rightarrow> int \<times> Memory" where
  "fill argp copy m =
     (case read_words argp (if copy then 4 else 3) m of
        (Inl _, m1) \<Rightarrow> (- EFAULT, m1)
      | (Inr args, m1) \<Rightarrow>
          let dst = args ! 0; src = (if copy then args ! 1 else 0);
              len = (if copy then args ! 2 else args ! 1);
              mode = (if copy then args ! 3 else args ! 2);
              result_at = argp + (if copy then 32 else 24)
          in if copy \<and> validate_unaligned src len \<noteq> 0 then (validate_unaligned src len, m1)
             else if validate dst len \<noteq> 0 then (validate dst len, m1)
             else if mode AND NOT (if copy then 3 else 1) \<noteq> 0 then (- EINVAL, m1)
             else
               let (result, m2) =
                     (if copy \<and> mode AND 2 \<noteq> 0 then (- EINVAL, m1)
                      else if copy then uffd_copy_in dst src len m1
                      else uffd_fill dst None len m1)
               in answer result_at [word_of_int result]
                    (if result < 0 then result else if result = uint len then 0 else - EAGAIN) m2)"

definition uffd_ioctl :: "pagemap \<Rightarrow> u32 \<Rightarrow> u64 \<Rightarrow> uffd_state \<Rightarrow> int \<times> uffd_state" where
  "uffd_ioctl pagemap request argp s =
     (let node = fst s; m = snd s; keep = (\<lambda>(r, m'). (r, node, m')) in
      if request = UFFDIO_API then uffd_api argp s
      else if u_features node = 0 then (- EINVAL, s)
      else if request = UFFDIO_REGISTER then keep (register_range pagemap argp True s)
      else if request = UFFDIO_UNREGISTER then keep (register_range pagemap argp False s)
      else if request = UFFDIO_WAKE then
        (case read_words argp 2 m of
           (Inl _, m1) \<Rightarrow> (- EFAULT, node, m1)
         | (Inr rng, m1) \<Rightarrow> (validate (rng ! 0) (rng ! 1), node, m1))
      else if request = UFFDIO_COPY then keep (fill argp True m)
      else if request = UFFDIO_ZEROPAGE then keep (fill argp False m)
      else (- EINVAL, s))"

definition uffd_read :: "UffdNode \<Rightarrow> int" where
  "uffd_read node = (if u_features node = 0 then - EINVAL else - EAGAIN)"

end
