(* ===== verification/UserfaultProps.thy ===== *)
theory UserfaultProps
  imports Userfault DiscardProps
begin

text \<open>
  The operations of \<open>Discard.cpp\<close> and the requests of a userfaultfd descriptor keep what the rest of
  memory relies on: the mapping, the mirror of its permissions in the page flags, and the exact
  count of the pages that need a software check.
\<close>

section \<open>Accesses\<close>

text \<open>A page that is marked present by an access was not registered, so it was not counted.\<close>

lemma present_uncounted:
  assumes "f AND 0x20 = 0"
  shows "\<not> software_check_page f" "\<not> software_check_page (f AND - 17)"
proof -
  have "(f AND 0x30) AND 0x20 = 0" "((f AND - 17) AND 0x30) AND 0x20 = 0"
    using assms by (simp_all add: and.assoc)
  moreover have "(0x30 :: u8) AND 0x20 \<noteq> 0" by simp
  ultimately show "\<not> software_check_page f" "\<not> software_check_page (f AND - 17)"
    using assms unfolding software_check_page_def by metis+
qed

lemma same_access_present:
  assumes "page_flags m p AND 0x20 = 0"
  shows "same_access m (m\<lparr>page_flags := (page_flags m)(p := page_flags m p AND - 17)\<rparr>)"
proof -
  let ?m = "m\<lparr>page_flags := (page_flags m)(p := page_flags m p AND - 17)\<rparr>"
  have "{q. software_check_page (page_flags ?m q)} = {q. software_check_page (page_flags m q)}"
    using present_uncounted [OF assms] by auto
  then have "soft_ok ?m = soft_ok m" unfolding soft_ok_def by simp
  then show ?thesis by (simp add: same_access_def uffd_bits_mirror geo_def)
qed

lemma same_access_check_page: "same_access m (snd (check_page addr access p m))"
  using same_access_present [of m p] by (simp add: check_page_def Let_def)

lemma same_access_check_pages: "same_access m (snd (check_pages addr access ps m))"
proof (induction ps arbitrary: m)
  case (Cons p ps)
  obtain f m1 where c: "check_page addr access p m = (f, m1)" by (cases "check_page addr access p m")
  then have "same_access m m1" using same_access_check_page [of m addr access p] by simp
  then show ?case using Cons.IH [of m1] c by (auto intro: same_access_trans split: option.split)
qed simp

lemma same_access_check: "same_access m (snd (check_access addr sz access m))"
  by (simp add: check_access_def Let_def same_access_check_pages)

lemma same_access_read_block: "same_access m (snd (read_block addr n m))"
  using same_access_check [of m "data_address m addr" "of_nat n" 1]
  by (auto simp: read_block_def Let_def split: prod.split option.split)

lemma same_access_read_words: "same_access m (snd (read_words addr n m))"
  using same_access_read_block [of m addr "8 * n"]
  by (auto simp: read_words_def split: prod.split sum.split)

lemma same_access_write: "same_access m (snd (mem_write addr bs m))"
proof -
  have st: "same_access m' (store_bytes a bs m')" for a m' by (simp add: store_bytes_def)
  show ?thesis
    using same_access_check [of m "data_address m addr" "of_nat (length bs)" 2]
    by (auto simp: mem_write_def Let_def split: prod.split option.split intro: same_access_trans [OF _ st])
qed

lemma same_access_answer: "same_access m (snd (answer addr ws r m))"
  using same_access_write [of m addr "concat (map (le_bytes 8) ws)"]
  by (auto simp: answer_def write_words_def split: prod.split option.split)

lemma same_access_read_pages: "same_access m (snd (read_pages src n got m))"
proof (induction n arbitrary: src got m)
  case (Suc n)
  show ?case
    using same_access_read_block [of m src 4096] Suc.IH
    by (auto split: prod.split sum.split intro: same_access_trans)
qed simp

section \<open>Requests\<close>

lemma same_access_uffd_fill: "same_access m (snd (uffd_fill dst src len m))"
  by (simp add: uffd_fill_def same_access_fills)

lemma same_access_copy_in: "same_access m (snd (uffd_copy_in dst src len m))"
  using same_access_read_pages [of m src "unat (len div 4096)" "[]"]
  by (auto simp: uffd_copy_in_def split: prod.split intro: same_access_trans [OF _ same_access_uffd_fill])

lemma same_access_fill_request: "same_access m (snd (fill argp copy m))"
proof -
  have "same_access m' (snd (answer a ws r m''))" if "same_access m' m''" for m' m'' a ws r
    by (rule same_access_trans [OF that same_access_answer])
  moreover note same_access_read_words [of m argp 4] same_access_read_words [of m argp 3]
  ultimately show ?thesis
    using same_access_trans [OF _ same_access_uffd_fill] same_access_trans [OF _ same_access_copy_in]
    by (auto simp: fill_def Let_def case_prod_beta split: prod.split sum.split)
qed

lemma same_access_register_range: "same_access (snd s) (snd (register_range pagemap argp r s))"
proof -
  note reg = same_access_trans [OF _ same_access_uffd_register] and ans = same_access_trans [OF _ same_access_answer]
  obtain node m where s: "s = (node, m)" by (cases s)
  show ?thesis
    using same_access_read_words [of m argp 2] same_access_read_words [of m argp 3]
    unfolding s register_range_def
    by (auto simp: Let_def case_prod_beta split: sum.split intro: reg ans)
qed

lemma same_access_api: "same_access (snd s) (snd (snd (uffd_api argp s)))"
proof -
  obtain node m where s: "s = (node, m)" by (cases s)
  have w: "same_access m' (snd (write_words a ws m'))" for a ws m'
    by (simp add: write_words_def same_access_write)
  show ?thesis
    using same_access_read_words [of m argp 3] unfolding s uffd_api_def
    by (auto simp: Let_def case_prod_beta split: sum.split option.split
        intro: same_access_trans [OF _ same_access_answer] same_access_trans [OF _ w]
          same_access_trans [OF same_access_trans [OF _ w] same_access_answer])
qed

lemma same_access_ioctl: "same_access (snd s) (snd (snd (uffd_ioctl pagemap request argp s)))"
  using same_access_api [of s argp] same_access_register_range [of s pagemap argp]
    same_access_fill_request [of "snd s" argp] same_access_read_words [of "snd s" argp 2]
  by (auto simp: uffd_ioctl_def Let_def case_prod_beta split: sum.split prod.split)

end
