(* ===== verification/PlacementSpec.thy ===== *)
theory PlacementSpec
  imports MoveProps UserfaultProps
begin

text \<open>
  The address-space placement of \<open>Allocation.cpp\<close> and \<open>Discard.cpp\<close> as a whole: each operation on a
  consistent placement, the runs of operations, and three runs that show why the hypotheses are there.
\<close>

section \<open>Runs of operations\<close>

text \<open>
  A mapping call, an unmapping, a change of permissions, a resize, a move, a discard or a request to a
  userfaultfd descriptor. \<open>roomy\<close> says that the cursors have room for the request, so that none of
  the sums in the bump allocation wraps and the search for a hole behind the high cursor is not
  needed; the conditions of the move are what the system call checks before it.
\<close>

inductive place_step :: "Placement \<Rightarrow> Placement \<Rightarrow> bool" where
  alloc: "mmap_alloc sz 0 nr prot direct s = (r, t) \<Longrightarrow> prot \<le> 7 \<Longrightarrow> roomy s (mmap_length sz) \<Longrightarrow> place_step s t"
| noreplace: "mmap_fixed_noreplace addr sz nr prot s = (r, t) \<Longrightarrow> prot \<le> 7 \<Longrightarrow> place_step s t"
| hint: "mmap_hint addr sz nr prot s = (r, t) \<Longrightarrow> prot \<le> 7 \<Longrightarrow> place_step s t"
| fixed: "mmap_fixed_replace addr sz nr zero prot s = (r, t) \<Longrightarrow> prot \<le> 7 \<Longrightarrow> place_step s t"
| unmap: "place_step s (untrack_allocation addr sz s)"
| protect: "place_step s (upd_mem (\<lambda>m. fst (mprotect_guest addr sz prot m)) s)"
| remap: "mremap_grow old osz nsz mm fx s = Some (r, t) \<Longrightarrow> fx = 0 \<longrightarrow> roomy s (page_align_up nsz) \<Longrightarrow> place_step s t"
| dontunmap: "mremap_dontunmap old len fx s = (i, t) \<Longrightarrow> page_aligned old \<Longrightarrow> page_aligned len \<Longrightarrow>
    page_aligned fx \<Longrightarrow> fx = 0 \<longrightarrow> roomy s len \<Longrightarrow>
    fx \<noteq> 0 \<longrightarrow> (\<forall>a. in_range fx len a \<longrightarrow> \<not> in_range old len a) \<Longrightarrow> place_step s t"
| dontneed: "place_step s (upd_mem (madvise_dontneed addr len) s)"
| track: "place_step s (upd_mem (enable_uffd_tracking readable) s)"
| userfault: "uffd_ioctl pagemap request argp (node, p_mem s) = (i, node', m) \<Longrightarrow> place_step s (s\<lparr>p_mem := m\<rparr>)"
| drop_registrations: "place_step s (upd_mem uffd_drop_registrations s)"

inductive_cases place_stepE [elim]: "place_step s t"

lemma untrack_keeps: "placement_ok s \<Longrightarrow> placement_ok (untrack_allocation addr sz s)"
proof -
  assume ok: "placement_ok s"
  show ?thesis
  proof (cases "sz \<noteq> 0 \<and> page_aligned addr \<and> unat addr + unat sz < 2 ^ 64")
    case True
    then show ?thesis using untrack_ok(1) [OF ok] by blast
  next
    case False
    then have "sz = 0 \<or> addr AND 4095 \<noteq> 0 \<or> unat addr + unat sz \<ge> 2 ^ 64"
      using page_aligned_iff [of addr] by (metis not_less)
    then show ?thesis using ok by (simp only: untrack_allocation_def if_True)
  qed
qed

lemma mremap_ok:
  assumes "placement_ok s" "fx = 0 \<longrightarrow> roomy s (page_align_up nsz)" "mremap_grow old osz nsz mm fx s = Some (r, s')"
  defines "ol \<equiv> page_align_up osz" and "nl \<equiv> page_align_up nsz"
  shows "placement_ok s' \<and> (if r = 0 then vmas (p_mem s') = vmas (p_mem s)
    else (fx \<noteq> 0 \<longrightarrow> r = fx) \<and> (\<forall>a. in_range r nl a \<longrightarrow> in_range old ol a \<or> fx \<noteq> 0 \<or> \<not> mapped s a) \<and>
      r + nl \<le> window_size (p_mem s) \<and> resized old ol r nl (p_mem s) (p_mem s') \<and>
      (\<forall>a. in_range r nl a \<and> \<not> in_range r (min ol nl) a \<longrightarrow> blank s (fx \<noteq> 0) (p_mem s') a))"
  using assms(3)
proof (cases rule: mremap_steps)
  case refused
  then show ?thesis using assms(1) by simp
next
  case shrunk
  note a = mremap_args [OF shrunk(1), folded ol_def nl_def]
  note sh = shrunk_ok [OF assms(1) shrunk(2) [folded ol_def] a(8) _ shrunk(5) [folded ol_def nl_def] a(1,4,5,3)
      shrunk(6) [folded ol_def nl_def]]
  have n: "old < old + nl" "old + nl \<le> window_size (p_mem s)" using a(11) shrunk(4) by blast+
  have "in_range old ol a" if "in_range old nl a" for a
    using that range_within(2) [OF a(8) shrunk(5) [folded ol_def nl_def] a(3)] by (auto simp: in_range_def)
  moreover have "old \<noteq> 0" using a(7) by auto
  moreover have "min ol nl = nl" using shrunk(5) [folded ol_def nl_def] by (simp add: min_absorb2)
  ultimately show ?thesis using sh [OF n(1)] n(2) shrunk(3,4) by simp
next
  case (grown ps)
  note a = mremap_args [OF grown(1), folded ol_def nl_def]
  have n: "old < old + nl" "old + nl \<le> window_size (p_mem s)" using a(11) grown(4) by blast+
  note gr = grown_ok [OF assms(1) grown(2) [folded ol_def] a(8) n(1) grown(5) [folded ol_def nl_def] a(1,4,5,2,7) n(2)
      grown(6) [folded ol_def] grown(8) [folded ol_def nl_def] grown(9) [folded ol_def nl_def]]
  have "\<not> mapped s a" if "in_range old nl a" "\<not> in_range old ol a" for a
    using that grown(8) [folded ol_def nl_def] range_overlaps_iff [OF placement_okD(2) [OF assms(1)]]
    by (auto simp: mapped_def in_range_def)
  moreover have "old \<noteq> 0" using a(7) by auto
  moreover have "min ol nl = ol" using grown(5) [folded ol_def nl_def] by (simp add: min_absorb1)
  ultimately show ?thesis using gr n(2) grown(3,4) by (auto simp: blank_def)
next
  case (moved ps)
  note a = mremap_args [OF moved(1), folded ol_def nl_def]
  have e: "(old, ol) \<in> set (allocations s)" using moved(2) ol_def by (simp add: map_of_SomeD)
  have mp: "\<forall>a. in_range old ol a \<longrightarrow> mapped s a"
    using placement_okD(8) [OF assms(1)] e unfolding covers_def by fastforce
  have fx: "page_aligned fx"
    using moved(1) page_aligned_iff [of fx] unfolding mremap_args_ok_def Let_def
    by (cases "fx = 0") (simp_all add: page_aligned_def)
  have dis: "fx \<noteq> 0 \<longrightarrow> (\<forall>a. in_range fx (page_align_up nsz) a \<longrightarrow> \<not> in_range old ol a)"
    using a(12) nl_def by simp
  note mv = moved_ok [OF assms(1) a(6) assms(2) a(1) fx dis mp a(8,4,2) a(5) [unfolded nl_def] a(9)
      moved(3) [folded ol_def] moved(4) [folded ol_def], folded nl_def]
  show ?thesis using mv by auto
qed

lemma dontunmap_ok:
  assumes "placement_ok s" "page_aligned old" "page_aligned len" "page_aligned fx"
    and "fx = 0 \<longrightarrow> roomy s len" "fx \<noteq> 0 \<longrightarrow> (\<forall>a. in_range fx len a \<longrightarrow> \<not> in_range old len a)"
    and "mremap_dontunmap old len fx s = (i, s')"
  shows "placement_ok s' \<and> (if i < 0 then vmas (p_mem s') = vmas (p_mem s)
    else \<exists>r. i = uint r \<and> (fx \<noteq> 0 \<longrightarrow> r = fx) \<and> (fx = 0 \<longrightarrow> (\<forall>a. in_range r len a \<longrightarrow> \<not> mapped s a)) \<and>
      pages_moved old r len (fx \<noteq> 0) s (p_mem s'))"
  using assms(7)
proof (cases rule: dontunmap_cases)
  case refused
  then show ?thesis using assms(1) by simp
next
  case (full es s1)
  then show ?thesis using no_place [OF assms(1-3,5) full(3-6)] by simp
next
  case (moved es dst s1)
  then show ?thesis using dontunmap_moves [OF assms(1-6) moved(1-3,5-7)] by auto
qed

lemma same_access_placement:
  assumes "placement_ok s" "same_access (p_mem s) m"
  shows "placement_ok (s\<lparr>p_mem := m\<rparr>)"
proof (rule placement_same [OF assms(1)])
  show "mem_ok (p_mem (s\<lparr>p_mem := m\<rparr>))"
    using same_access_mem_ok [OF assms(2) placement_okD(1) [OF assms(1)]] by simp
qed (use assms(2) in \<open>simp_all add: mapped_def same_access_def\<close>)

lemma same_access_upd:
  "placement_ok s \<Longrightarrow> same_access (p_mem s) (f (p_mem s)) \<Longrightarrow> placement_ok (upd_mem f s)"
  unfolding upd_mem_def by (rule same_access_placement)

lemma track_placement: "placement_ok s \<Longrightarrow> placement_ok (upd_mem (enable_uffd_tracking r) s)"
proof (rule placement_same)
  assume "placement_ok s"
  then show "placement_ok s" "mem_ok (p_mem (upd_mem (enable_uffd_tracking r) s))"
    by (simp_all add: upd_mem_def enable_tracking_ok(1) placement_okD(1))
qed (simp_all add: mapped_def upd_mem_def enable_uffd_tracking_def set_software_checks_def geo_def Let_def)

lemma place_step_ok: "place_step s t \<Longrightarrow> placement_ok s \<Longrightarrow> placement_ok t"
proof (induction rule: place_step.induct)
  case (hint addr sz nr prot s r t)
  then obtain r' where "mmap_noreplace addr sz nr prot True s = (r', t)"
    by (auto simp: mmap_hint_def Let_def split: prod.splits)
  then show ?case using mmap_noreplace_ok [OF hint(3,2)] by blast
next
  case (dontunmap old len fx s i t)
  then show ?case using dontunmap_ok [OF dontunmap(7) dontunmap(2-6) dontunmap(1)] by blast
next
  case (userfault pagemap request argp node s i node' m)
  then show ?case
    using same_access_placement [of s m] same_access_ioctl [of "(node, p_mem s)" pagemap request argp] by simp
qed (auto simp: mmap_fixed_noreplace_def mprotect_ok(1) untrack_keeps
    track_placement same_access_upd same_access_dontneed same_access_drop
    dest: mmap_alloc_ok mmap_noreplace_ok mmap_fixed_replace_ok mremap_ok)

section \<open>A new mapping\<close>

text \<open>
  C4. \<open>mmap_alloc\<close> without a hint, with the guard pages of \<open>BIFROST_GUARD_ALLOCS\<close> off, on a
  consistent placement whose cursors have room for the request (\<open>roomy\<close>: so neither the search of
  the index for a hole, when the high cursor has reached the end of the window, nor an addition that
  wraps): it either fails and leaves mappings, allocations and free ranges as they were, or returns
  whole pages inside the window, none of which was mapped, now with exactly the requested permission
  and tracked under the returned base, while every other address keeps its mapping. The placement
  stays consistent. Without \<open>roomy\<close> it is false (\<open>huge_reservation_overlap\<close> below), and a hint of the
  caller is taken as it is, mapped or not.
\<close>

theorem mmap_alloc_fresh:
  assumes "placement_ok s" "prot \<le> 7" "roomy s (mmap_length sz)" "mmap_alloc sz 0 nr prot direct s = (r, s')"
  shows "placement_ok s' \<and>
    (if r = 0 then vmas (p_mem s') = vmas (p_mem s) \<and> allocations s' = allocations s \<and> free_ranges s' = free_ranges s
     else page_aligned r \<and> r < r + mmap_length sz \<and> r + mmap_length sz \<le> window_size (p_mem s) \<and>
       (\<forall>a. in_range r (mmap_length sz) a \<longrightarrow> \<not> mapped s a) \<and>
       (\<forall>a. vma_at (vmas (p_mem s')) a =
          (if in_range r (mmap_length sz) a then Some prot else vma_at (vmas (p_mem s)) a)) \<and>
       find_allocation r s' = Some (mmap_length sz))"
  by (rule mmap_alloc_ok [OF assms])

lemma place_init_ok:
  assumes "page_aligned w" "LOW_REGION_SIZE \<le> w" "w \<le> 0x400000000000"
    and "page_aligned mo" "mo \<le> 0x10000000" "page_aligned so" "so \<le> 0x10000000"
  shows "placement_ok (Placement_init (Memory_init w mo so))"
proof -
  have "page_aligned (0x10000000 + mo)" by (rule page_aligned_add [OF _ assms(4)]) (simp add: page_aligned_def)
  moreover have "page_aligned (0x3F000000 - so)"
  proof -
    obtain k where k: "unat so = 4096 * k" using assms(6) by (rule page_alignedE)
    have "unat (0x3F000000 - so) = 0x3F000000 - 4096 * k"
      using assms(7) k by (simp add: unat_sub word_le_nat_alt)
    also have "\<dots> = 4096 * (0x3F000 - k)" by simp
    finally show ?thesis unfolding page_aligned_unat by simp
  qed
  moreover have "4096 \<le> 0x10000000 + mo" "0x4000000 \<le> 0x3F000000 - so" "0x3F000000 - so \<le> LOW_REGION_SIZE"
    using assms(5,7) by (simp_all add: word_le_nat_alt unat_word_ariths unat_sub)
  moreover have "page_aligned (0x100000000 :: u64)" by (simp add: page_aligned_def)
  ultimately show ?thesis
    using assms(1-3) mem_ok_init
    by (simp add: placement_ok_def layout_ok_def Placement_init_def Memory_init_def mapped_def)
qed

text \<open>The placement of a 16 GiB window after start, used for the runs below.\<close>

abbreviation (input) start :: Placement where
  "start \<equiv> Placement_init (Memory_init 0x400000000 0 0)"

lemma start_ok: "placement_ok start"
  by (rule place_init_ok) (simp_all add: page_aligned_def)

theorem mmap_alloc_fresh_witness:
  "fst (mmap_alloc 5000 0 False 3 False start) = 0x10000000 \<and>
   find_allocation 0x10000000 (snd (mmap_alloc 5000 0 False 3 False start)) = Some 0x2000 \<and>
   mapped (snd (mmap_alloc 5000 0 False 3 False start)) 0x10001FFF \<and> \<not> mapped start 0x10001FFF"
proof -
  have r: "fst (mmap_alloc 5000 0 False 3 False start) = 0x10000000"
    by (simp add: mmap_alloc_def choose_range_def bump_range_def reusable_range_def page_align_up_def Let_def
        Placement_init_def Memory_init_def meets_stack_def stack_bottom_def upd_mem_def)
  have n: "mmap_length 5000 = 0x2000" by (simp add: mmap_length_def page_align_up_def)
  have "roomy start (mmap_length 5000)"
    by (simp add: roomy_def n Placement_init_def Memory_init_def)
  note m = mmap_alloc_fresh [OF start_ok _ this prod.collapse [symmetric],
      where prot = 3 and nr = False and direct = False, unfolded r n]
  show ?thesis using m r by (simp add: mapped_def in_range_def)
qed

text \<open>
  C17. The result codes of the two requests for a given place. With no replacement the answer is the
  address itself and a fresh mapping there, \<open>UINT64_MAX\<close> (the syscall's \<open>EEXIST\<close>) and an unchanged
  placement when something in the range is mapped, or 0 and an unchanged placement. A hint never
  reports a collision: it is placed at the hint, or at the first gap above it in the low region, or
  refused.
\<close>

theorem mmap_at_address_results:
  assumes "placement_ok s" "prot \<le> 7" "mmap_fixed_noreplace addr sz nr prot s = (r, s')"
    "mmap_hint addr sz nr prot s = (h, t)"
  defines "n \<equiv> page_align_up sz"
  shows "(r = 0 \<and> s' = s \<or> r = UINT64_MAX \<and> s' = s \<and> (\<exists>a. in_range addr n a \<and> mapped s a) \<or>
      r = addr \<and> placement_ok s' \<and> (\<forall>a. in_range r n a \<longrightarrow> \<not> mapped s a \<and> \<not> in_stack s a) \<and>
      (\<forall>a. vma_at (vmas (p_mem s')) a = (if in_range r n a then Some prot else vma_at (vmas (p_mem s)) a))) \<and>
    (h = 0 \<and> t = s \<or>
      (h = addr \<or> addr < LOW_REGION_SIZE) \<and> placement_ok t \<and> (\<forall>a. in_range h n a \<longrightarrow> \<not> mapped s a \<and> \<not> in_stack s a) \<and>
      (\<forall>a. vma_at (vmas (p_mem t)) a = (if in_range h n a then Some prot else vma_at (vmas (p_mem s)) a)))"
proof
  have f: "mmap_noreplace addr sz nr prot False s = (r, s')" using assms(3) by (simp add: mmap_fixed_noreplace_def)
  show "r = 0 \<and> s' = s \<or> r = UINT64_MAX \<and> s' = s \<and> (\<exists>a. in_range addr n a \<and> mapped s a) \<or>
      r = addr \<and> placement_ok s' \<and> (\<forall>a. in_range r n a \<longrightarrow> \<not> mapped s a \<and> \<not> in_stack s a) \<and>
      (\<forall>a. vma_at (vmas (p_mem s')) a = (if in_range r n a then Some prot else vma_at (vmas (p_mem s)) a))"
    using mmap_noreplace_ok [OF assms(1,2) f] unfolding n_def by (cases "r = 0"; cases "r = UINT64_MAX") auto
  obtain q where q: "mmap_noreplace addr sz nr prot True s = (q, t)" "h = (if q = UINT64_MAX then 0 else q)"
    using assms(4) by (auto simp: mmap_hint_def Let_def split: prod.splits)
  show "h = 0 \<and> t = s \<or>
      (h = addr \<or> addr < LOW_REGION_SIZE) \<and> placement_ok t \<and> (\<forall>a. in_range h n a \<longrightarrow> \<not> mapped s a \<and> \<not> in_stack s a) \<and>
      (\<forall>a. vma_at (vmas (p_mem t)) a = (if in_range h n a then Some prot else vma_at (vmas (p_mem s)) a))"
    using mmap_noreplace_ok [OF assms(1,2) q(1)] q(2) unfolding n_def by (cases "q = 0"; cases "q = UINT64_MAX") auto
qed

theorem mmap_at_address_results_witness:
  "fst (mmap_fixed_noreplace 0x20000000 0x1000 False 1 start) = 0x20000000 \<and>
   mapped (snd (mmap_fixed_noreplace 0x20000000 0x1000 False 1 start)) 0x20000FFF"
proof -
  have r: "fst (mmap_fixed_noreplace 0x20000000 0x1000 False 1 start) = 0x20000000"
    by (simp add: mmap_fixed_noreplace_def mmap_noreplace_def page_align_up_def Let_def is_valid_guest_range_def
        Placement_init_def Memory_init_def meets_stack_def stack_bottom_def range_overlaps_def before_lb_def from_lb_def)
  have n: "page_align_up 0x1000 = 0x1000" by (simp add: page_align_up_def)
  note m = mmap_at_address_results [OF start_ok _ prod.collapse [symmetric] prod.collapse [symmetric],
      where prot = 1 and addr = "0x20000000" and sz = "0x1000" and nr = False, unfolded r n]
  show ?thesis using m r by (auto simp: in_range_def mapped_def)
qed

section \<open>Replacing and unmapping\<close>

text \<open>
  C18. \<open>mmap_fixed_replace\<close>: it refuses and changes nothing, or the whole range, which stays clear of
  the main stack, has the requested permission afterwards whatever was mapped there, every other
  address keeps its mapping, and the tracked allocations gain the range as one entry while what they
  had outside of it stays tracked.
\<close>

theorem mmap_fixed_replace_exact:
  assumes "placement_ok s" "prot \<le> 7" "mmap_fixed_replace addr sz nr zero prot s = (r, s')"
  shows "placement_ok s' \<and>
    (if r = 0 then s' = s
     else r = addr \<and> addr + mmap_length sz \<le> window_size (p_mem s) \<and>
       (\<forall>a. in_range addr (mmap_length sz) a \<longrightarrow> \<not> in_stack s a) \<and>
       (\<forall>a. vma_at (vmas (p_mem s')) a =
          (if in_range addr (mmap_length sz) a then Some prot else vma_at (vmas (p_mem s)) a)) \<and>
       (\<forall>a. covers (allocations s') a \<longleftrightarrow> covers (allocations s) a \<or> in_range addr (mmap_length sz) a) \<and>
       find_allocation addr s' = Some (mmap_length sz))"
  by (rule mmap_fixed_replace_ok [OF assms])

theorem mmap_fixed_replace_exact_witness:
  "vma_at (vmas (p_mem (snd (mmap_fixed_replace 0x20000000 0x3000 False True 3 start)))) 0x20002FFF = Some 3"
proof -
  have r: "fst (mmap_fixed_replace 0x20000000 0x3000 False True 3 start) = 0x20000000"
    by (simp add: mmap_fixed_replace_def page_align_up_def Let_def is_valid_guest_range_def
        Placement_init_def Memory_init_def meets_stack_def stack_bottom_def)
  have n: "mmap_length 0x3000 = 0x3000" by (simp add: mmap_length_def page_align_up_def)
  note m = mmap_fixed_replace_exact [OF start_ok _ prod.collapse [symmetric],
      where addr = "0x20000000" and sz = "0x3000" and nr = False and zero = True and prot = 3, unfolded r n]
  show ?thesis using m by (simp add: in_range_def)
qed

text \<open>
  C16. \<open>untrack_allocation\<close>, behind munmap: exactly the whole pages that meet the range lose their
  mapping and their tracking, and of these the ones that were tracked become reusable, so a part of
  an allocation can be released and its remainders stay. Bytes outside of the range are untouched.
\<close>

theorem untrack_allocation_exact:
  assumes "placement_ok s" "sz \<noteq> 0" "page_aligned addr" "unat addr + unat sz < 2 ^ 64"
  defines "gone a \<equiv> addr \<le> a \<and> a < unmap_end addr sz" and "s' \<equiv> untrack_allocation addr sz s"
  shows "placement_ok s' \<and>
    (\<forall>a. vma_at (vmas (p_mem s')) a = (if gone a then None else vma_at (vmas (p_mem s)) a)) \<and>
    (\<forall>a. covers (allocations s') a \<longleftrightarrow> covers (allocations s) a \<and> \<not> gone a) \<and>
    (\<forall>a. covers (free_ranges s') a \<longleftrightarrow> covers (free_ranges s) a \<or> covers (allocations s) a \<and> gone a) \<and>
    (\<forall>a. \<not> gone a \<longrightarrow> mem_bytes (p_mem s') a = mem_bytes (p_mem s) a)"
  using untrack_ok [OF assms(1-4)] unfolding gone_def s'_def by blast

text \<open>The state with two pages mapped at the start of the low region.\<close>

abbreviation (input) two_pages :: Placement where
  "two_pages \<equiv> snd (mmap_alloc 0x2000 0 False 3 False start)"

lemma two_pages: "fst (mmap_alloc 0x2000 0 False 3 False start) = 0x10000000"
  "placement_ok two_pages" "find_allocation 0x10000000 two_pages = Some 0x2000"
proof -
  show r: "fst (mmap_alloc 0x2000 0 False 3 False start) = 0x10000000"
    by (simp add: mmap_alloc_def choose_range_def bump_range_def reusable_range_def page_align_up_def Let_def
        Placement_init_def Memory_init_def meets_stack_def stack_bottom_def upd_mem_def)
  have n: "mmap_length 0x2000 = 0x2000" by (simp add: mmap_length_def page_align_up_def)
  have "roomy start (mmap_length 0x2000)"
    by (simp add: roomy_def n Placement_init_def Memory_init_def)
  note m = mmap_alloc_ok [OF start_ok _ this prod.collapse [symmetric],
      where prot = 3 and nr = False and direct = False, unfolded r n]
  show "placement_ok two_pages" "find_allocation 0x10000000 two_pages = Some 0x2000" using m by simp_all
qed

lemma two_pages_covers:
  assumes "in_range 0x10000000 0x2000 a"
  shows "covers (allocations two_pages) a"
proof -
  have "(0x10000000, 0x2000) \<in> set (allocations two_pages)"
    using two_pages(3) unfolding find_allocation_def by (rule map_of_SomeD)
  then show ?thesis unfolding covers_def by (rule bexI [rotated]) (simp add: assms)
qed

theorem untrack_allocation_exact_witness:
  "covers (free_ranges (untrack_allocation 0x10001000 0x800 two_pages)) 0x10001FFF \<and>
   \<not> mapped (untrack_allocation 0x10001000 0x800 two_pages) 0x10001FFF"
proof -
  have e: "unmap_end 0x10001000 0x800 = 0x10002000" by (simp add: unmap_end_def page_align_up_def)
  have "page_aligned (0x10001000 :: u64)" by (simp add: page_aligned_def)
  note u = untrack_allocation_exact [OF two_pages(2) _ this, of "0x800", unfolded e]
  have "covers (allocations two_pages) 0x10001FFF" by (rule two_pages_covers) (simp add: in_range_def)
  then show ?thesis using u by (simp add: mapped_def)
qed

section \<open>Resizing\<close>

text \<open>
  C11. \<open>mremap_grow\<close> of an anonymous mapping on a consistent placement, where a move without a fixed
  address finds the cursors with room (\<open>roomy\<close>): it refuses, leaving every mapping as it is, or the
  new range stands at the fixed address asked for, at the old one, or on pages nothing was mapped on.
  The part it shares with the old mapping keeps the permission of every page and every byte; the pages
  beyond have the permission of the last old page and read zero (a mapping placed on addresses no
  free range covered reads what the reservation held, \<open>blank\<close>); what is no longer part of it is
  unmapped; and outside of the old and the new range no mapping and no byte changes. This covers
  shrinking, growing in place and moving alike.
\<close>

theorem mremap_grow_keeps_pages:
  assumes "placement_ok s" "fx = 0 \<longrightarrow> roomy s (page_align_up nsz)" "mremap_grow old osz nsz mm fx s = Some (r, s')"
  shows "placement_ok s' \<and> (if r = 0 then vmas (p_mem s') = vmas (p_mem s)
    else (fx \<noteq> 0 \<longrightarrow> r = fx) \<and>
      (\<forall>a. in_range r (page_align_up nsz) a \<longrightarrow> in_range old (page_align_up osz) a \<or> fx \<noteq> 0 \<or> \<not> mapped s a) \<and>
      r + page_align_up nsz \<le> window_size (p_mem s) \<and>
      (\<forall>a. vma_at (vmas (p_mem s')) a =
        (if in_range r (page_align_up nsz) a
         then vma_at (vmas (p_mem s)) (old + min (a - r) (page_align_up osz - 1))
         else if in_range old (page_align_up osz) a then None else vma_at (vmas (p_mem s)) a)) \<and>
      (\<forall>a. in_range r (min (page_align_up osz) (page_align_up nsz)) a \<longrightarrow>
        mem_bytes (p_mem s') a = mem_bytes (p_mem s) (old + (a - r))) \<and>
      (\<forall>a. \<not> in_range r (page_align_up nsz) a \<and> \<not> in_range old (page_align_up osz) a \<longrightarrow>
        mem_bytes (p_mem s') a = mem_bytes (p_mem s) a) \<and>
      (\<forall>a. in_range r (page_align_up nsz) a \<and> \<not> in_range r (min (page_align_up osz) (page_align_up nsz)) a \<longrightarrow>
        blank s (fx \<noteq> 0) (p_mem s') a))"
  using mremap_ok [OF assms] unfolding resized_def conj_assoc .

theorem mremap_grow_keeps_pages_witness:
  "\<exists>s'. mremap_grow 0x10000000 0x2000 0x1000 False 0 two_pages = Some (0x10000000, s') \<and>
     \<not> mapped s' 0x10001000 \<and> mapped s' 0x10000FFF"
proof -
  have p: "p_mem two_pages = set_mapping 0x10000000 0x10002000 3 False False
      ((Memory_init 0x400000000 0 0)\<lparr>mmap_next := 0x10002000\<rparr>)"
    and a: "allocations two_pages = [(0x10000000, 0x2000)]"
    by (simp_all add: mmap_alloc_def choose_range_def bump_range_def reusable_range_def page_align_up_def Let_def
        Placement_init_def Memory_init_def meets_stack_def stack_bottom_def upd_mem_def map_put_def)
  have al: "page_align_up 0x2000 = 0x2000" "page_align_up 0x1000 = 0x1000" by (simp_all add: page_align_up_def)
  have w: "window_size (p_mem two_pages) = 0x400000000"
    using geo_set_mapping unfolding p geo_def by (simp add: Memory_init_def)
  have fl: "file_pages (p_mem two_pages) 0x10000 = None" unfolding p by (simp add: Memory_init_def)
  have ok: "mremap_args_ok 0x10000000 0x2000 0x1000 False 0 (p_mem two_pages)"
    by (simp add: mremap_args_ok_def al is_valid_guest_range_def w Let_def)
  obtain s' where m: "mremap_grow 0x10000000 0x2000 0x1000 False 0 two_pages = Some (0x10000000, s')"
    by (simp add: mremap_grow_def ok fl al a Let_def)
  have n: "mmap_next (p_mem two_pages) = 0x10002000" "high_next (p_mem two_pages) = 0x100000000"
    using geo_set_mapping unfolding p geo_def by (simp_all add: Memory_init_def)
  have "roomy two_pages 0x1000" by (simp add: roomy_def n w)
  then have "(0 :: u64) = 0 \<longrightarrow> roomy two_pages (page_align_up 0x1000)" unfolding al by blast
  note k = mremap_grow_keeps_pages [OF two_pages(2) this m, unfolded al]
  have v: "vma_at (vmas (p_mem two_pages)) a \<noteq> None" if "in_range 0x10000000 0x2000 a" for a
    using placement_okD(8) [OF two_pages(2) two_pages_covers [OF that]] by (simp add: mapped_def)
  have "\<not> mapped s' 0x10001000" using k by (simp add: mapped_def in_range_def)
  moreover have "mapped s' 0x10000FFF" using k v [of "0x10000FFF"] by (simp add: mapped_def in_range_def)
  ultimately show ?thesis using m by blast
qed

text \<open>
  C12. \<open>mremap_dontunmap\<close> under the conditions its system call checks, and with room for the cursors
  (\<open>roomy\<close>) when no address is asked for: an error leaves every mapping as it is. Otherwise the result
  is the fixed address asked for or pages nothing was mapped on. Every page there has the permission
  and the bytes of the old page it comes from (of a page that is all zero the destination is not
  written, so where \<open>mmap_alloc\<close> placed it on addresses no free range covered it reads what the
  reservation held). The old range stays mapped with its permissions and reads zero, and no other
  mapping and no other byte changes.
\<close>

theorem mremap_dontunmap_moves:
  assumes "placement_ok s" "page_aligned old" "page_aligned len" "page_aligned fx"
    and "fx = 0 \<longrightarrow> roomy s len" "fx \<noteq> 0 \<longrightarrow> (\<forall>a. in_range fx len a \<longrightarrow> \<not> in_range old len a)"
    and "mremap_dontunmap old len fx s = (i, s')"
  shows "placement_ok s' \<and> (if i < 0 then vmas (p_mem s') = vmas (p_mem s)
    else \<exists>r. i = uint r \<and> (fx \<noteq> 0 \<longrightarrow> r = fx) \<and> (fx = 0 \<longrightarrow> (\<forall>a. in_range r len a \<longrightarrow> \<not> mapped s a)) \<and>
      (\<forall>a. vma_at (vmas (p_mem s')) a =
        (if in_range r len a then vma_at (vmas (p_mem s)) (old + (a - r)) else vma_at (vmas (p_mem s)) a)) \<and>
      (\<forall>a. in_range r len a \<longrightarrow>
        mem_bytes (p_mem s') a = mem_bytes (p_mem s) (old + (a - r)) \<or>
        zero_page (mem_bytes (p_mem s)) (old + page_base (a - r)) \<and> blank s (fx \<noteq> 0) (p_mem s') a) \<and>
      (\<forall>a. in_range old len a \<longrightarrow> mem_bytes (p_mem s') a = 0) \<and>
      (\<forall>a. \<not> in_range r len a \<and> \<not> in_range old len a \<longrightarrow> mem_bytes (p_mem s') a = mem_bytes (p_mem s) a))"
  using dontunmap_ok [OF assms] unfolding pages_moved_def conj_assoc .

theorem mremap_dontunmap_moves_witness:
  "\<exists>s'. mremap_dontunmap 0x10000000 0x2000 0x20000000 two_pages = (0x20000000, s') \<and>
     mapped s' 0x20001FFF \<and> mapped s' 0x10001FFF \<and> mem_bytes (p_mem s') 0x10001FFF = 0"
proof -
  have p: "p_mem two_pages = set_mapping 0x10000000 0x10002000 3 False False
      ((Memory_init 0x400000000 0 0)\<lparr>mmap_next := 0x10002000\<rparr>)"
    by (simp add: mmap_alloc_def choose_range_def bump_range_def reusable_range_def page_align_up_def Let_def
        Placement_init_def Memory_init_def meets_stack_def stack_bottom_def upd_mem_def)
  have w: "window_size (p_mem two_pages) = 0x400000000" "stack_top (p_mem two_pages) = 0x3F000000"
    using geo_set_mapping unfolding p geo_def by (simp_all add: Memory_init_def)
  have fl: "file_pages (p_mem two_pages) x = None" for x unfolding p by (simp add: Memory_init_def)
  have v: "vma_at (vmas (p_mem two_pages)) a \<noteq> None" if "in_range 0x10000000 0x2000 a" for a
    using placement_okD(8) [OF two_pages(2) two_pages_covers [OF that]] by (simp add: mapped_def)
  have ok: "vma_ok (vmas (p_mem two_pages))" by (rule placement_okD(2) [OF two_pages(2)])
  obtain q0 q1 where q: "mapping_prot_at (vmas (p_mem two_pages)) 0x10000000 = Some q0"
    "mapping_prot_at (vmas (p_mem two_pages)) 0x10001000 = Some q1"
    using v [of "0x10000000"] v [of "0x10001000"] by (auto simp: mapping_prot_at_eq [OF ok] in_range_def)
  have ps: "\<exists>es. page_states (p_mem two_pages)
      (map (\<lambda>i. 0x10000000 + of_nat i * 4096) [0..<unat (0x2000 div 4096 :: u64)]) = Inr es"
    by (simp add: upt_rec q fl)
  have r: "fst (mmap_fixed_replace 0x20000000 0x2000 True True q two_pages) = 0x20000000" for q
    by (simp add: mmap_fixed_replace_def page_align_up_def Let_def is_valid_guest_range_def w
        meets_stack_def stack_bottom_def)
  obtain s' where m: "mremap_dontunmap 0x10000000 0x2000 0x20000000 two_pages = (0x20000000, s')"
  proof -
    have "fst (mremap_dontunmap 0x10000000 0x2000 0x20000000 two_pages) = 0x20000000"
      using ps r by (auto simp: mremap_dontunmap_def is_valid_guest_range_def w Let_def case_prod_beta)
    then show thesis using that by (metis prod.collapse)
  qed
  have al: "page_aligned (0x10000000 :: u64)" "page_aligned (0x2000 :: u64)" "page_aligned (0x20000000 :: u64)"
    by (simp_all add: page_aligned_def)
  have apart: "(0x20000000 :: u64) \<noteq> 0 \<longrightarrow>
      (\<forall>a. in_range 0x20000000 0x2000 a \<longrightarrow> \<not> in_range 0x10000000 0x2000 a)"
    by (simp add: in_range_def word_le_nat_alt word_less_nat_alt)
  have "(0x20000000 :: u64) = 0 \<longrightarrow> roomy two_pages 0x2000" by simp
  note k = mremap_dontunmap_moves [OF two_pages(2) al this apart m]
  have "vma_at (vmas (p_mem s')) 0x20001FFF \<noteq> None" "vma_at (vmas (p_mem s')) 0x10001FFF \<noteq> None"
    "mem_bytes (p_mem s') 0x10001FFF = 0"
    using k v [of "0x10001FFF"] by (auto simp: in_range_def)
  then show ?thesis using m by (auto simp: mapped_def)
qed

section \<open>The invariant\<close>

text \<open>
  C10. Every run of these requests keeps the placement consistent: \<open>mmap_alloc\<close> without a hint, whose
  cursors have room (\<open>roomy\<close>); mapping at an address, by hint, without and with replacement;
  unmapping; protection; \<open>mremap\<close> and \<open>mremap_dontunmap\<close> to a fixed address, or to any when the
  cursors have room; discarding; and userfaultfd operations. Consistent means that index and page
  flags agree; tracked allocations and free ranges are sorted, disjoint, whole pages; everything
  tracked is mapped and nothing reusable is; and all of it lies inside the window, behind the cursors
  or in the main stack, with no guard allocations. Not among the requests are an allocation whose
  addition wraps or that falls back to a hole of the index, a hinted \<open>mmap_alloc\<close>, \<open>map_range\<close> and
  \<open>map_file\<close> of the loaders, and the cursor reset of execve: two of them break the invariant, as the
  runs of \<open>huge_reservation_overlap\<close> and \<open>reset_cursors_overlap\<close> show.
\<close>

theorem placement_invariant:
  assumes "placement_ok s" "place_step\<^sup>*\<^sup>* s t"
  shows "placement_ok t"
  using assms(2,1) by (induction rule: rtranclp_induct) (auto intro: place_step_ok)

theorem placement_invariant_witness:
  "placement_ok (untrack_allocation 0x10000000 0x1000 two_pages)"
proof -
  have n: "mmap_length 0x2000 = 0x2000" by (simp add: mmap_length_def page_align_up_def)
  have "roomy start (mmap_length 0x2000)"
    by (simp add: roomy_def n Placement_init_def Memory_init_def)
  then have "place_step start two_pages" by (rule place_step.alloc [OF prod.collapse [symmetric], rotated]) simp
  then have "place_step\<^sup>*\<^sup>* start (untrack_allocation 0x10000000 0x1000 two_pages)"
    using place_step.unmap by (rule converse_rtranclp_into_rtranclp [OF _ r_into_rtranclp])
  then show ?thesis by (rule placement_invariant [OF start_ok])
qed

section \<open>Free ranges as a set\<close>

text \<open>
  C31. The list of free ranges refines a set of addresses: adding a range nothing covers is union and
  removing one is difference, both keep the list sorted and disjoint, and the merging of neighbours
  in the first and the splitting in the second are invisible to the set.
\<close>

theorem free_ranges_refine_set:
  assumes "ranges_ok xs" "k < k + n"
  shows "ranges_ok (remove_free_range k n xs) \<and>
    {a. covers (remove_free_range k n xs) a} = {a. covers xs a} - {a. in_range k n a} \<and>
    ({a. in_range k n a} \<inter> {a. covers xs a} = {} \<longrightarrow>
      ranges_ok (add_free_range k n xs) \<and>
      {a. covers (add_free_range k n xs) a} = {a. covers xs a} \<union> {a. in_range k n a})"
  using free.inv_take [OF assms] free.cover_take [OF assms] free.inv_put [OF assms] free.cover_put [OF assms]
  by blast

theorem free_ranges_refine_set_witness:
  "covers (add_free_range 0x3000 0x1000 [(0x1000, 0x2000), (0x4000, 0x1000)]) 0x3FFF"
proof -
  have "{a. in_range (0x3000 :: u64) 0x1000 a} \<inter> {a. covers [(0x1000, 0x2000), (0x4000, 0x1000)] a} = {}"
    by (auto simp: in_range_def)
  moreover have "covers [(0x1000, 0x2000), (0x4000, 0x1000)] a \<or> in_range 0x3000 0x1000 a" if "a = 0x3FFF" for a
    using that by (simp add: in_range_def)
  ultimately show ?thesis
    using free_ranges_refine_set [of "[(0x1000, 0x2000), (0x4000, 0x1000)]" "0x3000" "0x1000"] by auto
qed

section \<open>Runs outside of the hypotheses\<close>

lemmas layout_fields [simp] =
  geo_set_mapping [unfolded geo_def prod.inject, THEN conjunct1]
  geo_set_mapping [unfolded geo_def prod.inject, THEN conjunct2, THEN conjunct1]
  geo_set_mapping [unfolded geo_def prod.inject, THEN conjunct2, THEN conjunct2, THEN conjunct1]
  geo_set_mapping [unfolded geo_def prod.inject, THEN conjunct2, THEN conjunct2, THEN conjunct2]
  geo_clear_mapping [unfolded geo_def prod.inject, THEN conjunct1]
  geo_clear_mapping [unfolded geo_def prod.inject, THEN conjunct2, THEN conjunct1]
  geo_clear_mapping [unfolded geo_def prod.inject, THEN conjunct2, THEN conjunct2, THEN conjunct1]
  geo_clear_mapping [unfolded geo_def prod.inject, THEN conjunct2, THEN conjunct2, THEN conjunct2]
  geo_ops(1) [unfolded geo_def prod.inject, THEN conjunct1]
  geo_ops(1) [unfolded geo_def prod.inject, THEN conjunct2, THEN conjunct1]
  geo_ops(1) [unfolded geo_def prod.inject, THEN conjunct2, THEN conjunct2, THEN conjunct1]
  geo_ops(1) [unfolded geo_def prod.inject, THEN conjunct2, THEN conjunct2, THEN conjunct2]
  geo_ops(2) [unfolded geo_def prod.inject, THEN conjunct1]
  geo_ops(2) [unfolded geo_def prod.inject, THEN conjunct2, THEN conjunct1]
  geo_ops(2) [unfolded geo_def prod.inject, THEN conjunct2, THEN conjunct2, THEN conjunct1]
  geo_ops(2) [unfolded geo_def prod.inject, THEN conjunct2, THEN conjunct2, THEN conjunct2]

lemmas run_alloc = mmap_alloc_def choose_range_def bump_range_def reusable_range_def page_align_up_def Let_def
  meets_stack_def stack_bottom_def upd_mem_def map_put_def

text \<open>
  The cursors go back to their start with free ranges above them still listed, as execve leaves them:
  the next large request is placed by the cursor over a free range, and the one after it is given the
  same addresses from the free list.
\<close>

lemma reset_cursors_overlap:
  "let (a, s1) = mmap_alloc 0x1000 0 False 3 False start;
       s2 = reset_allocator_cursors (untrack_allocation a 0x1000 s1);
       (b, s3) = mmap_alloc 0x2000 0 False 3 False s2;
       (c, s4) = mmap_alloc 0x1000 0 False 3 False s3
   in b = 0x10000000 \<and> find_allocation b s3 = Some 0x2000 \<and> c = b"
proof -
  obtain s1 where s1: "mmap_alloc 0x1000 0 False 3 False start = (0x10000000, s1)"
    "allocations s1 = [(0x10000000, 0x1000)]" "free_ranges s1 = []" "stack_top (p_mem s1) = 0x3F000000" "\<not> guard_allocs s1"
    by (simp add: run_alloc Placement_init_def Memory_init_def)
  let ?s2 = "reset_allocator_cursors (untrack_allocation 0x10000000 0x1000 s1)"
  have m: "ranges_meeting 0x10000000 0x10001000 [(0x10000000, 0x1000)] = [(0x10000000, 0x1000)]"
    by (simp add: ranges_meeting_def ranges_before_def ranges_from_def)
  have e: "unmap_end 0x10000000 0x1000 = 0x10001000" by (simp add: unmap_end_def page_align_up_def)
  have "page_aligned (0x10000000 :: u64)" by (simp add: page_aligned_def)
  note u = unmap_steps [OF _ this, of "0x1000" s1, unfolded e s1(2) m]
  have r: "free_ranges (release_one 0x10000000 0x10001000 (0x10000000, 0x1000) s1) = [(0x10000000, 0x1000)]"
    "p_mem (release_one 0x10000000 0x10001000 (0x10000000, 0x1000) s1) = p_mem s1"
    "allocations (release_one 0x10000000 0x10001000 (0x10000000, 0x1000) s1) = []"
    "guard_allocs (release_one 0x10000000 0x10001000 (0x10000000, 0x1000) s1) = guard_allocs s1"
    using s1(2,3) by (simp_all add: release_one_def evict_part_def evict_one_def map_erase_def add_free_range_def
        merge_prev_def merge_next_def ranges_before_def ranges_from_def map_put_def Let_def)
  have s2: "free_ranges ?s2 = [(0x10000000, 0x1000)]" "allocations ?s2 = []" "mmap_next (p_mem ?s2) = 0x10000000"
    "stack_top (p_mem ?s2) = 0x3F000000" "\<not> guard_allocs ?s2"
    using u r s1(4,5) by (simp_all add: reset_allocator_cursors_def upd_mem_def)
  obtain s3 where s3: "mmap_alloc 0x2000 0 False 3 False ?s2 = (0x10000000, s3)"
    "allocations s3 = [(0x10000000, 0x2000)]" "free_ranges s3 = [(0x10000000, 0x1000)]" "stack_top (p_mem s3) = 0x3F000000"
    using s2 by (simp add: run_alloc)
  have "fst (mmap_alloc 0x1000 0 False 3 False s3) = 0x10000000"
    using s3(2-4) by (simp add: run_alloc)
  then show ?thesis using s1(1) s3(1,2) by (simp add: find_allocation_def split_beta)
qed

text \<open>
  A reservation of almost the whole address space wraps the low cursor back onto a live mapping. The
  call answers with an address where nothing is mapped, and the next one with the live mapping's.
\<close>

lemma huge_reservation_overlap:
  "let (a, s1) = mmap_alloc 0x1000 0 False 3 False start;
       (b, s2) = mmap_alloc 0xFFFFFFFFFFFFF000 0 True 0 False s1;
       (c, s3) = mmap_alloc 0x1000 0 False 3 False s2
   in a = 0x10000000 \<and> b = 0x10001000 \<and> c = a \<and> find_allocation a s2 = Some 0x1000"
  by (simp add: run_alloc Placement_init_def Memory_init_def find_allocation_def)

end
