(* ===== verification/Generations.thy ===== *)
theory Generations
  imports Prelude
begin

text \<open>
  Replacing a full code cache (\<open>FrostJIT/Runtime/Generations.hpp\<close> and \<open>Generations.cpp\<close>, with the
  callers in \<open>Dispatch.cpp\<close>, \<open>InterpreterBridge.cpp\<close> and \<open>EmulatorBridge.cpp\<close>). Guest threads, the
  thread that renews the instance and the reaper interleave; each access to a shared atomic and each
  critical section under \<open>Registry::mu\<close> or \<open>jit_renew_mu_\<close> is a step of its own. The atomics that the
  protocol orders are sequentially consistent in the code; the acknowledged epoch is released by its
  owner and acquired by the reaper, and only grows.
\<close>

section \<open>State\<close>

text \<open>An instance of \<open>FrostJIT\<close> is known by its place in \<open>JitSet::owned_\<close>.\<close>

record FrostJIT =
  retired :: bool
  retired_epoch :: u64
  released :: bool

record ThreadSlot =
  acked :: u64
  parked :: bool

text \<open>
  Where a guest thread is: between dispatches or blocked in a syscall, in \<open>register_thread\<close> with the
  epoch it loaded, in \<open>boundary()\<close> before the park flag, before and after the load of the epoch, past
  it, on the way to the successor, or inside \<open>run_block\<close> with the instances whose code is on its
  stack, the innermost first.
\<close>

datatype location =
    Outside
  | Registering nat u64
  | Boundary nat
  | Unparked nat
  | EpochSeen nat u64
  | Passed nat
  | Forwarding nat
  | Running "nat list"
  | Exited

text \<open>Where \<open>renew_jit\<close> is with the full instance.\<close>

datatype renewal =
    NotRenewing
  | Added nat
  | Flagged nat
  | EpochTaken nat u64
  | EpochSet nat

text \<open>
  Where the reaper is: asleep; looking at the slots of the first instance of its list, with the
  instances found ready, the slots left and the number of threads in the way; between the two loads
  for one slot; or releasing, without the lock.
\<close>

datatype reaping =
    Asleep
  | Scanning "nat list" "nat list" "nat list" nat
  | AckLook "nat list" "nat list" nat "nat list" nat
  | Freeing "nat list"

record generations =
  g_epoch :: u64
  jits :: "FrostJIT list"
  current :: nat
  slot :: "nat \<Rightarrow> ThreadSlot option"
  slots :: "nat list"
  loc :: "nat \<Rightarrow> location"
  pending :: "nat list"
  releasing :: "nat list"
  retired_total :: u64
  released_total :: u64
  renewer :: renewal
  reaper :: reaping

abbreviation (input) kMaxUnreleased :: u64 where "kMaxUnreleased \<equiv> 1"

definition fresh_jit :: FrostJIT where
  "fresh_jit = \<lparr>retired = False, retired_epoch = 0, released = False\<rparr>"

definition generations_init :: generations where
  "generations_init = \<lparr>g_epoch = 1, jits = [fresh_jit], current = 0, slot = (\<lambda>_. None), slots = [],
     loc = (\<lambda>_. Outside), pending = [], releasing = [], retired_total = 0, released_total = 0,
     renewer = NotRenewing, reaper = Asleep\<rparr>"

definition unreleased :: "generations \<Rightarrow> u64" where
  "unreleased s = retired_total s - released_total s"

text \<open>The reaper holds \<open>Registry::mu\<close> while it looks.\<close>

fun locked_by_reaper :: "reaping \<Rightarrow> bool" where
  "locked_by_reaper (Scanning a b c d) = True"
| "locked_by_reaper (AckLook a b t c d) = True"
| "locked_by_reaper r = False"

section \<open>Guest threads\<close>

definition goto :: "nat \<Rightarrow> location \<Rightarrow> generations \<Rightarrow> generations" where
  "goto i l s = s\<lparr>loc := (loc s)(i := l)\<rparr>"

definition set_slot :: "nat \<Rightarrow> ThreadSlot option \<Rightarrow> generations \<Rightarrow> generations" where
  "set_slot i x s = s\<lparr>slot := (slot s)(i := x)\<rparr>"

text \<open>The instance \<open>run_block\<close> goes on with after its \<open>retired_\<close> test, and after reading \<open>emu.jit()\<close>.\<close>

definition after_check :: "nat \<Rightarrow> generations \<Rightarrow> location" where
  "after_check j s = (if retired (jits s ! j) then Forwarding j else Running [j])"

definition after_forward :: "nat \<Rightarrow> generations \<Rightarrow> location" where
  "after_forward j s = (if current s \<noteq> j then Boundary (current s) else Running [j])"

inductive thread_step :: "nat \<Rightarrow> generations \<Rightarrow> generations \<Rightarrow> bool" for i where
  call: "loc s i = Outside \<Longrightarrow> j < length (jits s) \<Longrightarrow> slot s i \<noteq> None \<Longrightarrow>
    thread_step i s (goto i (Boundary j) s)"
| first_call: "loc s i = Outside \<Longrightarrow> j < length (jits s) \<Longrightarrow> slot s i = None \<Longrightarrow>
    thread_step i s (goto i (Registering j (g_epoch s)) s)"
| register_thread: "loc s i = Registering j e \<Longrightarrow> \<not> locked_by_reaper (reaper s) \<Longrightarrow>
    thread_step i s (goto i (Boundary j)
      (set_slot i (Some \<lparr>acked = e, parked = False\<rparr>) (s\<lparr>slots := slots s @ [i]\<rparr>)))"
| leave_park: "loc s i = Boundary j \<Longrightarrow> slot s i = Some x \<Longrightarrow>
    thread_step i s (goto i (Unparked j) (set_slot i (Some (x\<lparr>parked := False\<rparr>)) s))"
| read_epoch: "loc s i = Unparked j \<Longrightarrow> thread_step i s (goto i (EpochSeen j (g_epoch s)) s)"
| ack: "loc s i = EpochSeen j e \<Longrightarrow> slot s i = Some x \<Longrightarrow>
    thread_step i s (goto i (Passed j) (set_slot i (Some (x\<lparr>acked := e\<rparr>)) s))"
| check: "loc s i = Passed j \<Longrightarrow> thread_step i s (goto i (after_check j s) s)"
| forward: "loc s i = Forwarding j \<Longrightarrow> thread_step i s (goto i (after_forward j s) s)"
| nested: "loc s i = Running js \<Longrightarrow> k = current s \<or> k \<in> set js \<Longrightarrow>
    thread_step i s (goto i (Running (k # js)) s)"
| retarget: "loc s i = Running (j # k # js) \<Longrightarrow> retired (jits s ! j) \<Longrightarrow>
    thread_step i s (goto i (Running (current s # k # js)) s)"
| return: "loc s i = Running (j # k # js) \<Longrightarrow> thread_step i s (goto i (Running (k # js)) s)"
| leave: "loc s i = Running [j] \<Longrightarrow> thread_step i s (goto i Outside s)"
| park: "loc s i = Running [j] \<Longrightarrow> slot s i = Some x \<Longrightarrow>
    thread_step i s (goto i Outside (set_slot i (Some (x\<lparr>parked := True\<rparr>)) s))"
| exit_thread: "loc s i = Outside \<Longrightarrow> \<not> locked_by_reaper (reaper s) \<Longrightarrow>
    thread_step i s (goto i Exited (set_slot i None (s\<lparr>slots := removeAll i (slots s)\<rparr>)))"

section \<open>Renewal\<close>

definition set_jit :: "nat \<Rightarrow> (FrostJIT \<Rightarrow> FrostJIT) \<Rightarrow> generations \<Rightarrow> generations" where
  "set_jit j f s = s\<lparr>jits := (jits s)[j := f (jits s ! j)]\<rparr>"

text \<open>
  \<open>renew_jit\<close> under \<open>jit_renew_mu_\<close>, for the instance found full: publish a fresh one, then
  \<open>FrostJIT::retire\<close> and \<open>jit_generations::retire\<close>. Between the test of \<open>unreleased()\<close> and the
  publication only the reaper changes the count, and only downwards, so both are one step.
\<close>

inductive renew_step :: "generations \<Rightarrow> generations \<Rightarrow> bool" where
  add: "renewer s = NotRenewing \<Longrightarrow> \<not> unreleased s \<ge> kMaxUnreleased \<Longrightarrow>
    renew_step s (s\<lparr>jits := jits s @ [fresh_jit], current := length (jits s), renewer := Added (current s)\<rparr>)"
| flag: "renewer s = Added j \<Longrightarrow>
    renew_step s ((set_jit j (\<lambda>x. x\<lparr>retired := True\<rparr>) s)\<lparr>renewer := Flagged j\<rparr>)"
| advance: "renewer s = Flagged j \<Longrightarrow>
    renew_step s (s\<lparr>g_epoch := g_epoch s + 1, renewer := EpochTaken j (g_epoch s + 1)\<rparr>)"
| set_epoch: "renewer s = EpochTaken j e \<Longrightarrow>
    renew_step s ((set_jit j (\<lambda>x. x\<lparr>retired_epoch := e\<rparr>) s)\<lparr>renewer := EpochSet j\<rparr>)"
| queue: "renewer s = EpochSet j \<Longrightarrow> \<not> locked_by_reaper (reaper s) \<Longrightarrow>
    renew_step s (s\<lparr>pending := pending s @ [j], retired_total := retired_total s + 1, renewer := NotRenewing\<rparr>)"

section \<open>The reaper\<close>

definition slot_acked :: "generations \<Rightarrow> nat \<Rightarrow> nat \<Rightarrow> bool" where
  "slot_acked s t j = (case slot s t of None \<Rightarrow> False | Some x \<Rightarrow> acked x \<ge> retired_epoch (jits s ! j))"

definition slot_parked :: "generations \<Rightarrow> nat \<Rightarrow> bool" where
  "slot_parked s t = (case slot s t of None \<Rightarrow> False | Some x \<Rightarrow> parked x)"

inductive reap_step :: "generations \<Rightarrow> generations \<Rightarrow> bool" where
  wake: "reaper s = Asleep \<Longrightarrow> pending s \<noteq> [] \<Longrightarrow>
    reap_step s (s\<lparr>reaper := Scanning [] (pending s) (slots s) 0\<rparr>)"
| see_parked: "reaper s = Scanning ready todo (t # rest) b \<Longrightarrow> todo \<noteq> [] \<Longrightarrow> slot_parked s t \<Longrightarrow>
    reap_step s (s\<lparr>reaper := Scanning ready todo rest b\<rparr>)"
| see_unparked: "reaper s = Scanning ready todo (t # rest) b \<Longrightarrow> todo \<noteq> [] \<Longrightarrow> \<not> slot_parked s t \<Longrightarrow>
    reap_step s (s\<lparr>reaper := AckLook ready todo t rest b\<rparr>)"
| see_ack: "reaper s = AckLook ready (j # todo) t rest b \<Longrightarrow>
    reap_step s (s\<lparr>reaper := Scanning ready (j # todo) rest (if slot_acked s t j then b else b + 1)\<rparr>)"
| quiescent: "reaper s = Scanning ready (j # todo) [] 0 \<Longrightarrow>
    reap_step s (s\<lparr>reaper := Scanning (ready @ [j]) todo (slots s) 0, pending := remove1 j (pending s)\<rparr>)"
| blocked: "reaper s = Scanning ready (j # todo) [] b \<Longrightarrow> b \<noteq> 0 \<Longrightarrow>
    reap_step s (s\<lparr>reaper := Scanning ready todo (slots s) 0\<rparr>)"
| back_off: "reaper s = Scanning [] [] rest b \<Longrightarrow> reap_step s (s\<lparr>reaper := Asleep\<rparr>)"
| begin_release: "reaper s = Scanning ready [] rest b \<Longrightarrow> ready \<noteq> [] \<Longrightarrow>
    reap_step s (s\<lparr>reaper := Freeing ready, releasing := ready\<rparr>)"
| release_resources: "reaper s = Freeing (j # rest) \<Longrightarrow>
    reap_step s ((set_jit j (\<lambda>x. x\<lparr>released := True\<rparr>) s)\<lparr>reaper := Freeing rest\<rparr>)"
| end_release: "reaper s = Freeing [] \<Longrightarrow>
    reap_step s (s\<lparr>reaper := Asleep, releasing := [],
                  released_total := released_total s + of_nat (length (releasing s))\<rparr>)"

text \<open>\<open>forget\<close>, for an instance about to be destroyed; it waits until the reaper is not releasing it.\<close>

definition forget :: "nat \<Rightarrow> generations \<Rightarrow> generations option" where
  "forget j s =
     (if j \<in> set (releasing s) then None
      else if j \<in> set (pending s) then
        Some (s\<lparr>pending := remove1 j (pending s), released_total := released_total s + 1\<rparr>)
      else Some s)"

inductive gen_step :: "generations \<Rightarrow> generations \<Rightarrow> bool" where
  thread: "thread_step i s t \<Longrightarrow> gen_step s t"
| renew: "renew_step s t \<Longrightarrow> gen_step s t"
| reap: "reap_step s t \<Longrightarrow> gen_step s t"

inductive gen_reachable :: "generations \<Rightarrow> bool" where
  init: "gen_reachable generations_init"
| step: "gen_reachable s \<Longrightarrow> gen_step s t \<Longrightarrow> gen_reachable t"

text \<open>The instances whose code thread \<open>i\<close> has on its stack or is about to enter.\<close>

fun stack_of :: "location \<Rightarrow> nat list" where
  "stack_of (Running js) = js"
| "stack_of l = []"

abbreviation uses :: "generations \<Rightarrow> nat \<Rightarrow> nat set" where
  "uses s i \<equiv> set (stack_of (loc s i))"

end
