(* ===== verification/GenerationsProps.thy ===== *)
theory GenerationsProps
  imports Generations
begin

text \<open>
  No thread can reach the code of an instance the reaper has released, at most two instances hold
  their code at any time, and once every thread has acknowledged a retirement or is parked the
  reaper releases the instance. The invariant is stated for fewer than \<open>2 ^ 64\<close> instances, so that the
  epoch has not wrapped: the instance at place \<open>j\<close> is retired at epoch \<open>j + 2\<close>.
\<close>

section \<open>The invariant\<close>

definition retirements :: "generations \<Rightarrow> nat" where
  "retirements s = (if renewer s = NotRenewing then length (jits s) - 1 else length (jits s) - 2)"

text \<open>The renewal: which instances carry the retired flag, which epochs have been taken and stored.\<close>

fun renewal_ok :: "generations \<Rightarrow> renewal \<Rightarrow> bool" where
  "renewal_ok s NotRenewing \<longleftrightarrow> unat (g_epoch s) = length (jits s) \<and>
     (\<forall>i < length (jits s) - 1. retired (jits s ! i) \<and> retired_epoch (jits s ! i) = of_nat (i + 2))"
| "renewal_ok s (Added j) \<longleftrightarrow> length (jits s) = j + 2 \<and> unat (g_epoch s) = j + 1 \<and> \<not> retired (jits s ! j) \<and>
     (\<forall>i < j. retired (jits s ! i) \<and> retired_epoch (jits s ! i) = of_nat (i + 2))"
| "renewal_ok s (Flagged j) \<longleftrightarrow> length (jits s) = j + 2 \<and> unat (g_epoch s) = j + 1 \<and> retired (jits s ! j) \<and>
     (\<forall>i < j. retired (jits s ! i) \<and> retired_epoch (jits s ! i) = of_nat (i + 2))"
| "renewal_ok s (EpochTaken j e) \<longleftrightarrow> length (jits s) = j + 2 \<and> unat (g_epoch s) = j + 2 \<and> e = of_nat (j + 2) \<and>
     retired (jits s ! j) \<and> (\<forall>i < j. retired (jits s ! i) \<and> retired_epoch (jits s ! i) = of_nat (i + 2))"
| "renewal_ok s (EpochSet j) \<longleftrightarrow> length (jits s) = j + 2 \<and> unat (g_epoch s) = j + 2 \<and>
     retired (jits s ! j) \<and> (\<forall>i \<le> j. retired (jits s ! i) \<and> retired_epoch (jits s ! i) = of_nat (i + 2))"

definition jits_ok :: "generations \<Rightarrow> bool" where
  "jits_ok s \<longleftrightarrow> jits s \<noteq> [] \<and> current s = length (jits s) - 1 \<and> \<not> retired (jits s ! current s) \<and>
     renewal_ok s (renewer s)"

text \<open>A thread in code of an instance is registered, not parked, and has acknowledged no epoch as late as that instance's retirement.\<close>

definition awake :: "ThreadSlot option \<Rightarrow> bool" where
  "awake x \<longleftrightarrow> (\<exists>y. x = Some y \<and> \<not> parked y)"

fun loc_ok :: "generations \<Rightarrow> ThreadSlot option \<Rightarrow> location \<Rightarrow> bool" where
  "loc_ok s x Outside = True"
| "loc_ok s x Exited = (x = None)"
| "loc_ok s x (Registering j e) = (x = None \<and> j < length (jits s) \<and> e \<le> g_epoch s)"
| "loc_ok s x (Boundary j) = (x \<noteq> None \<and> j < length (jits s))"
| "loc_ok s x (Unparked j) = (awake x \<and> j < length (jits s))"
| "loc_ok s x (EpochSeen j e) = (awake x \<and> j < length (jits s) \<and> e \<le> g_epoch s)"
| "loc_ok s x (Passed j) = (awake x \<and> j < length (jits s))"
| "loc_ok s x (Forwarding j) = (awake x \<and> j < length (jits s) \<and> retired (jits s ! j))"
| "loc_ok s x (Running js) = (js \<noteq> [] \<and> (\<exists>y. x = Some y \<and> \<not> parked y \<and>
     (\<forall>j \<in> set js. j < length (jits s) \<and> unat (acked y) < j + 2)))"

definition threads_ok :: "generations \<Rightarrow> bool" where
  "threads_ok s \<longleftrightarrow> (\<forall>i. loc_ok s (slot s i) (loc s i) \<and> (\<forall>x. slot s i = Some x \<longrightarrow> acked x \<le> g_epoch s)) \<and>
     (\<forall>i. i \<in> set (slots s) \<longleftrightarrow> slot s i \<noteq> None)"

text \<open>
  The reaper: released instances are the first ones, nobody uses them or the ones found ready, and the
  slots looked at for the instance in question do not use it.
\<close>

definition unused :: "generations \<Rightarrow> nat \<Rightarrow> bool" where
  "unused s j \<longleftrightarrow> (\<forall>i. j \<notin> uses s i)"

fun reaper_ok :: "generations \<Rightarrow> reaping \<Rightarrow> bool" where
  "reaper_ok s Asleep \<longleftrightarrow> pending s = [unat (released_total s)..<retirements s] \<and> releasing s = []"
| "reaper_ok s (Scanning ready todo rest b) \<longleftrightarrow> ready @ pending s = [unat (released_total s)..<retirements s] \<and>
     releasing s = [] \<and> set todo \<subseteq> set (pending s) \<and> distinct todo \<and> (\<forall>j \<in> set ready. unused s j) \<and>
     (\<forall>j. todo \<noteq> [] \<and> j = hd todo \<and> b = 0 \<longrightarrow> (\<forall>i. i \<notin> set rest \<longrightarrow> j \<notin> uses s i))"
| "reaper_ok s (AckLook ready todo t rest b) \<longleftrightarrow> ready @ pending s = [unat (released_total s)..<retirements s] \<and>
     releasing s = [] \<and> todo \<noteq> [] \<and> set todo \<subseteq> set (pending s) \<and> distinct todo \<and> (\<forall>j \<in> set ready. unused s j) \<and>
     (\<forall>j. j = hd todo \<and> b = 0 \<longrightarrow> (\<forall>i. i \<notin> set rest \<and> i \<noteq> t \<longrightarrow> j \<notin> uses s i))"
| "reaper_ok s (Freeing rest) \<longleftrightarrow> releasing s @ pending s = [unat (released_total s)..<retirements s] \<and>
     (\<forall>j \<in> set (releasing s). unused s j) \<and> set rest \<subseteq> set (releasing s) \<and>
     (\<forall>j \<in> set (releasing s) - set rest. released (jits s ! j))"

definition counts_ok :: "generations \<Rightarrow> bool" where
  "counts_ok s \<longleftrightarrow> unat (retired_total s) = retirements s \<and> unat (released_total s) \<le> retirements s \<and>
     retirements s \<le> unat (released_total s) + 1 \<and> (renewer s \<noteq> NotRenewing \<longrightarrow> unat (released_total s) = retirements s) \<and>
     (\<forall>j < unat (released_total s). released (jits s ! j) \<and> unused s j) \<and>
     (\<forall>j < length (jits s). released (jits s ! j) \<longrightarrow> j < retirements s \<and> unused s j)"

definition gen_ok :: "generations \<Rightarrow> bool" where
  "gen_ok s \<longleftrightarrow> jits_ok s \<and> threads_ok s \<and> reaper_ok s (reaper s) \<and> counts_ok s"

lemma gen_ok_init: "gen_ok generations_init"
  by (simp add: gen_ok_def jits_ok_def threads_ok_def counts_ok_def generations_init_def fresh_jit_def retirements_def)

section \<open>Threads\<close>

lemma jits_okD:
  assumes "jits_ok s"
  shows "jits s \<noteq> []" "current s = length (jits s) - 1" "\<not> retired (jits s ! current s)" "renewal_ok s (renewer s)"
  using assms unfolding jits_ok_def by blast+

lemma jits_ok_cong:
  assumes "jits_ok s" "length (jits t) = length (jits s)" "current t = current s" "g_epoch t = g_epoch s" "renewer t = renewer s"
    and "\<And>m. retired (jits t ! m) = retired (jits s ! m)" "\<And>m. retired_epoch (jits t ! m) = retired_epoch (jits s ! m)"
  shows "jits_ok t"
proof -
  note o = jits_okD [OF assms(1)]
  have "jits t \<noteq> []" using o(1) assms(2) by (simp flip: length_greater_0_conv)
  moreover have "current t = length (jits t) - 1" using o(2) assms(2,3) by (rule_tac trans) simp_all
  moreover have "\<not> retired (jits t ! current t)" using o(3) unfolding assms(3,6) .
  moreover have "renewal_ok t (renewer t)" using o(4) unfolding assms(5) by (cases "renewer s") (simp_all add: assms)
  ultimately show ?thesis unfolding jits_ok_def by blast
qed

lemma retired_before:
  assumes "jits_ok s" "j < retirements s"
  shows "retired (jits s ! j)" "retired_epoch (jits s ! j) = of_nat (j + 2)" "j < length (jits s)" "j \<noteq> current s"
proof -
  note o = jits_okD [OF assms(1)]
  have "retired (jits s ! j) \<and> retired_epoch (jits s ! j) = of_nat (j + 2) \<and> j < length (jits s)"
    using o(4) assms(2) by (cases "renewer s") (simp_all add: retirements_def)
  then show "retired (jits s ! j)" "retired_epoch (jits s ! j) = of_nat (j + 2)" "j < length (jits s)" by blast+
  then show "j \<noteq> current s" using o(3) by blast
qed

lemma current_epoch:
  assumes "jits_ok s" "j < length (jits s)" "\<not> retired (jits s ! j)"
  shows "unat (g_epoch s) < j + 2"
proof (cases "renewer s")
  case NotRenewing
  then have "\<not> j < length (jits s) - 1" using assms by (auto simp: jits_ok_def)
  then show ?thesis using assms NotRenewing by (simp add: jits_ok_def)
next
  case (Added k)
  then have "\<not> j < k" using assms by (auto simp: jits_ok_def)
  then show ?thesis using assms Added by (simp add: jits_ok_def)
next
  case (Flagged k)
  then have "\<not> j < k" using assms by (auto simp: jits_ok_def)
  then show ?thesis using assms Flagged by (simp add: jits_ok_def)
next
  case (EpochTaken k e)
  then have "\<not> j < k" "j \<noteq> k" using assms by (auto simp: jits_ok_def)
  then show ?thesis using assms EpochTaken by (simp add: jits_ok_def)
next
  case (EpochSet k)
  then have "\<not> j \<le> k" using assms by (auto simp: jits_ok_def)
  then show ?thesis using assms EpochSet by (simp add: jits_ok_def)
qed

text \<open>What a thread step leaves alone, and what it may add to the stacks.\<close>

definition same_registry :: "generations \<Rightarrow> generations \<Rightarrow> bool" where
  "same_registry s t \<longleftrightarrow> jits t = jits s \<and> current t = current s \<and> g_epoch t = g_epoch s \<and> renewer t = renewer s \<and>
     reaper t = reaper s \<and> pending t = pending s \<and> releasing t = releasing s \<and>
     retired_total t = retired_total s \<and> released_total t = released_total s"

definition only_current_uses :: "generations \<Rightarrow> generations \<Rightarrow> bool" where
  "only_current_uses s t \<longleftrightarrow> (\<forall>i j. j \<in> uses t i \<longrightarrow> j \<in> uses s i \<or> \<not> retired (jits s ! j))"

lemma retirements_same: "same_registry s t \<Longrightarrow> retirements t = retirements s"
  by (simp add: same_registry_def retirements_def)

lemma jits_ok_same: "same_registry s t \<Longrightarrow> jits_ok t = jits_ok s"
  by (cases "renewer s") (auto simp: same_registry_def jits_ok_def)

lemma unused_keeps:
  assumes "jits_ok s" "only_current_uses s t" "j < retirements s"
  shows "j \<notin> uses s i \<Longrightarrow> j \<notin> uses t i" "unused s j \<Longrightarrow> unused t j"
  using retired_before(1) [OF assms(1,3)] assms(2) by (auto simp: only_current_uses_def unused_def)

lemma reaper_ok_same:
  assumes "jits_ok s" "same_registry s t" "only_current_uses s t" "reaper_ok s (reaper s)"
  shows "reaper_ok t (reaper t)"
proof -
  note q = retirements_same [OF assms(2)]
  have e: "pending t = pending s" "releasing t = releasing s" "released_total t = released_total s"
    "reaper t = reaper s" "jits t = jits s" using assms(2) by (simp_all add: same_registry_def)
  have lt: "j < retirements s" if "xs @ ys = [unat (released_total s)..<retirements s]" "j \<in> set xs \<union> set ys" for xs ys j
    using that by (metis atLeastLessThan_iff set_append set_upt)
  note k = unused_keeps [OF assms(1,3)]
  show ?thesis
  proof (cases "reaper s")
    case (Scanning ready todo rest b)
    have "j < retirements s" if "j \<in> set ready \<union> set todo" for j using assms(4) Scanning lt that by auto
    then show ?thesis using assms(4) k Scanning by (auto simp: e q)
  next
    case (AckLook ready todo u rest b)
    have "j < retirements s" if "j \<in> set ready \<union> set todo" for j using assms(4) AckLook lt that by auto
    then show ?thesis using assms(4) k AckLook by (auto simp: e q)
  next
    case (Freeing rest)
    have "j < retirements s" if "j \<in> set (releasing s)" for j using assms(4) Freeing lt that by auto
    then show ?thesis using assms(4) k(2) Freeing by (auto simp: e q)
  qed (use assms(4) in \<open>simp add: e q\<close>)
qed

lemma counts_ok_same:
  assumes "jits_ok s" "same_registry s t" "only_current_uses s t" "counts_ok s"
  shows "counts_ok t"
proof -
  note q = retirements_same [OF assms(2)]
  have e: "retired_total t = retired_total s" "released_total t = released_total s" "jits t = jits s" "renewer t = renewer s"
    using assms(2) by (simp_all add: same_registry_def)
  show ?thesis
    using assms(4) unused_keeps(2) [OF assms(1,3)] unfolding counts_ok_def e q
    by (meson less_le_trans)
qed

lemma loc_ok_same: "same_registry s t \<Longrightarrow> loc_ok t x l = loc_ok s x l"
  by (cases l) (simp_all add: same_registry_def)

text \<open>One thread moves.\<close>

lemma thread_moves:
  assumes "gen_ok s" "same_registry s t"
    and "loc t = (loc s)(i := l)" "slot t = (slot s)(i := x)"
    and "loc_ok s x l" "\<forall>y. x = Some y \<longrightarrow> acked y \<le> g_epoch s"
    and "\<forall>j \<in> set (stack_of l). j \<in> uses s i \<or> \<not> retired (jits s ! j)"
    and "\<forall>k. k \<in> set (slots t) \<longleftrightarrow> slot t k \<noteq> None"
  shows "gen_ok t"
proof -
  have j: "jits_ok s" using assms(1) by (simp add: gen_ok_def)
  have "only_current_uses s t" using assms(3,7) by (auto simp: only_current_uses_def)
  moreover have "threads_ok t"
    using assms(1,3-6,8) loc_ok_same [OF assms(2)] assms(2)
    by (auto simp: threads_ok_def gen_ok_def same_registry_def)
  ultimately show ?thesis
    using assms(1) j reaper_ok_same [OF j assms(2)] counts_ok_same [OF j assms(2)] jits_ok_same [OF assms(2)]
    by (auto simp: gen_ok_def)
qed

lemmas thread_defs = goto_def set_slot_def same_registry_def awake_def

lemma thread_step_ok:
  assumes "gen_ok s" "thread_step i s t"
  shows "gen_ok t"
proof -
  have j: "jits_ok s" and th: "threads_ok s" using assms(1) by (simp_all add: gen_ok_def)
  have l: "loc_ok s (slot s i) (loc s i)" "\<forall>y. slot s i = Some y \<longrightarrow> acked y \<le> g_epoch s"
    and sl: "\<forall>k. k \<in> set (slots s) \<longleftrightarrow> slot s k \<noteq> None"
    using th by (simp_all add: threads_ok_def)
  have cur0: "current s < length (jits s)" "\<not> retired (jits s ! current s)"
    using j by (auto simp: jits_ok_def)
  note cur = cur0 current_epoch [OF j cur0]
  have same: "(slot s)(i := slot s i) = slot s" by simp
  note mv = thread_moves [OF assms(1), of t i]
  show ?thesis
    using assms(2)
  proof cases
    case (call j)
    show ?thesis by (rule mv [where l = "Boundary j" and x = "slot s i"]) (use l sl call in \<open>simp_all add: thread_defs\<close>)
  next
    case (first_call j)
    show ?thesis by (rule mv [where l = "Registering j (g_epoch s)" and x = "slot s i"]) (use l sl same first_call in \<open>simp_all add: thread_defs fun_upd_idem\<close>)
  next
    case (register_thread j e)
    show ?thesis
      by (rule mv [where l = "Boundary j" and x = "Some \<lparr>acked = e, parked = False\<rparr>"])
        (use l sl register_thread in \<open>auto simp: thread_defs\<close>)
  next
    case (leave_park j x)
    show ?thesis
      by (rule mv [where l = "Unparked j" and x = "Some (x\<lparr>parked := False\<rparr>)"])
        (use l sl leave_park in \<open>auto simp: thread_defs\<close>)
  next
    case (read_epoch j)
    show ?thesis by (rule mv [where l = "EpochSeen j (g_epoch s)" and x = "slot s i"]) (use l sl read_epoch in \<open>simp_all add: thread_defs\<close>)
  next
    case (ack j e x)
    show ?thesis
      by (rule mv [where l = "Passed j" and x = "Some (x\<lparr>acked := e\<rparr>)"])
        (use l sl ack in \<open>auto simp: thread_defs\<close>)
  next
    case (check j)
    then have j: "j < length (jits s)" "awake (slot s i)" using l(1) by simp_all
    obtain y where y: "slot s i = Some y" "\<not> parked y" using j(2) by (auto simp: awake_def)
    have "unat (acked y) < j + 2" if "\<not> retired (jits s ! j)"
      using current_epoch [OF \<open>jits_ok s\<close> j(1) that] l(2) y(1) by (auto simp: word_le_nat_alt)
    then show ?thesis
      by (intro mv [where l = "after_check j s" and x = "slot s i"])
        (use l sl check j y in \<open>simp_all add: thread_defs after_check_def fun_upd_idem\<close>)
  next
    case (forward j)
    then have "current s \<noteq> j" using l(1) cur(2) by auto
    then show ?thesis
      by (intro mv [where l = "after_forward j s" and x = "slot s i"])
        (use l sl forward cur in \<open>auto simp: thread_defs after_forward_def\<close>)
  next
    case (nested js k)
    then obtain y where y: "slot s i = Some y" "\<not> parked y" "\<forall>j \<in> set js. j < length (jits s) \<and> unat (acked y) < j + 2"
      using l(1) by auto
    have "unat (acked y) < current s + 2" using cur(3) l(2) y(1) by (auto simp: word_le_nat_alt)
    then show ?thesis
      by (intro mv [where l = "Running (k # js)" and x = "slot s i"])
        (use l sl nested cur y in \<open>auto simp: thread_defs\<close>)
  next
    case (retarget j k js)
    then obtain y where y: "slot s i = Some y" "\<not> parked y" "\<forall>j \<in> set (j # k # js). j < length (jits s) \<and> unat (acked y) < j + 2"
      using l(1) by auto
    have "unat (acked y) < current s + 2" using cur(3) l(2) y(1) by (auto simp: word_le_nat_alt)
    then show ?thesis
      by (intro mv [where l = "Running (current s # k # js)" and x = "slot s i"])
        (use l sl retarget cur y in \<open>auto simp: thread_defs\<close>)
  next
    case (return j k js)
    show ?thesis
      by (rule mv [where l = "Running (k # js)" and x = "slot s i"]) (use l sl return in \<open>auto simp: thread_defs\<close>)
  next
    case (leave j)
    show ?thesis by (rule mv [where l = Outside and x = "slot s i"]) (use l sl leave in \<open>simp_all add: thread_defs\<close>)
  next
    case (park j x)
    show ?thesis
      by (rule mv [where l = Outside and x = "Some (x\<lparr>parked := True\<rparr>)"]) (use l sl park in \<open>auto simp: thread_defs\<close>)
  next
    case exit_thread
    show ?thesis by (rule mv [where l = Exited and x = None]) (use l sl exit_thread in \<open>auto simp: thread_defs\<close>)
  qed
qed

section \<open>Renewal\<close>

lemma loc_ok_mono:
  assumes "loc_ok s x l" "length (jits s) \<le> length (jits t)" "g_epoch s \<le> g_epoch t"
    and "\<forall>j < length (jits s). retired (jits s ! j) \<longrightarrow> retired (jits t ! j)"
  shows "loc_ok t x l"
proof (cases l)
  case (Running js)
  then show ?thesis using assms(1) less_le_trans [OF _ assms(2)] by auto
qed (use assms less_le_trans [OF _ assms(2)] in \<open>auto intro: order_trans\<close>)

lemma threads_ok_mono:
  assumes "threads_ok s" "length (jits s) \<le> length (jits t)" "g_epoch s \<le> g_epoch t"
    and "\<forall>j < length (jits s). retired (jits s ! j) \<longrightarrow> retired (jits t ! j)"
    and "loc t = loc s" "slot t = slot s" "slots t = slots s"
  shows "threads_ok t"
  using assms(1,5-7) loc_ok_mono [OF _ assms(2-4)] order_trans [OF _ assms(3)] by (simp add: threads_ok_def)

text \<open>A step that changes neither the stacks nor the registry nor which instances are released.\<close>

lemma reaper_ok_frame:
  assumes "reaper_ok s r" "loc t = loc s" "pending t = pending s" "releasing t = releasing s"
    and "released_total t = released_total s" "retirements t = retirements s"
    and "\<forall>j < retirements s. released (jits t ! j) = released (jits s ! j)"
  shows "reaper_ok t r"
proof (cases r)
  case (Freeing rest)
  have "j < retirements s" if "j \<in> set (releasing s)" for j
    using assms(1) that unfolding Freeing
    by (metis atLeastLessThan_iff reaper_ok.simps(4) set_append set_upt UnI1)
  then show ?thesis using assms unfolding Freeing by (auto simp: unused_def)
qed (use assms in \<open>auto simp: unused_def\<close>)

lemma counts_ok_frame:
  assumes "counts_ok s" "loc t = loc s" "retired_total t = retired_total s" "released_total t = released_total s"
    and "retirements t = retirements s" "renewer t \<noteq> NotRenewing \<longrightarrow> unat (released_total s) = retirements s"
    and "\<forall>j < retirements s. released (jits t ! j) = released (jits s ! j)"
    and "\<forall>j < length (jits t). retirements s \<le> j \<longrightarrow> \<not> released (jits t ! j)"
  shows "counts_ok t"
  unfolding counts_ok_def
proof (intro conjI allI impI)
  note c = assms(1) [unfolded counts_ok_def]
  show "unat (retired_total t) = retirements t" "unat (released_total t) \<le> retirements t" "retirements t \<le> unat (released_total t) + 1"
    using c assms(3-5) by simp_all
  show "unat (released_total t) = retirements t" if "renewer t \<noteq> NotRenewing" using that assms(4-6) by simp
  show "released (jits t ! j)" "unused t j" if "j < unat (released_total t)" for j
    using that c assms(2,4,7) by (simp_all add: unused_def)
  fix j assume j: "j < length (jits t)" "released (jits t ! j)"
  then have q: "j < retirements s" using assms(8) not_less by blast
  then show "j < retirements t" using assms(5) by simp
  have "j < length (jits s)" using q by (auto simp: retirements_def split: if_splits)
  then show "unused t j" using c q j(2) assms(2,7) by (auto simp: unused_def)
qed

lemma not_released:
  assumes "counts_ok s" "j < length (jits s)" "retirements s \<le> j"
  shows "\<not> released (jits s ! j)"
  using assms unfolding counts_ok_def not_le [symmetric] by blast

lemma retirements_less:
  assumes "jits_ok s"
  shows "retirements s < length (jits s)"
proof -
  have "length (jits s) > 0" using jits_okD(1) [OF assms] by blast
  then show ?thesis by (auto simp: retirements_def)
qed

lemma released_set_jit:
  assumes "\<And>x. released (f x) = released x"
  shows "released (jits (set_jit j f s) ! k) = released (jits s ! k)"
proof (cases "k = j \<and> j < length (jits s)")
  case True
  then show ?thesis by (simp add: set_jit_def assms)
next
  case False
  then show ?thesis by (cases "k = j") (simp_all add: set_jit_def not_less list_update_beyond)
qed

lemma renew_step_ok:
  assumes "gen_ok s" "renew_step s t" "length (jits t) < 2 ^ 64"
  shows "gen_ok t"
proof -
  have j: "jits_ok s" and th: "threads_ok s" and re: "reaper_ok s (reaper s)" and co: "counts_ok s"
    using assms(1) by (simp_all add: gen_ok_def)
  have q: "retirements s < length (jits s)" by (rule retirements_less [OF j])
  show ?thesis
    using assms(2)
  proof cases
    case add
    let ?n = "length (jits s)"
    have n: "0 < ?n" "current s = ?n - 1" "\<not> retired (jits s ! current s)" using j by (auto simp: jits_ok_def)
    have "retired_total s = released_total s"
      using add(3) by (simp add: unreleased_def not_le word_less_1)
    then have r: "unat (released_total s) = retirements s" using co by (simp add: counts_ok_def)
    have qt: "retirements t = retirements s" using add(1,2) n by (simp add: retirements_def)
    have "jits_ok t" using j n add(1,2) by (auto simp: jits_ok_def nth_append less_diff_conv fresh_jit_def)
    moreover have "threads_ok t" by (rule threads_ok_mono [OF th]) (simp_all add: add(1) nth_append)
    moreover have "reaper_ok t (reaper t)"
      using reaper_ok_frame [OF re, of t] q qt by (simp add: add(1) nth_append)
    moreover have "counts_ok t"
      by (rule counts_ok_frame [OF co])
        (use q qt r not_released [OF co] in \<open>auto simp: add(1) nth_append fresh_jit_def less_Suc_eq\<close>)
    ultimately show ?thesis by (simp add: gen_ok_def)
  next
    case (flag k)
    have qt: "retirements t = retirements s" using flag by (simp add: retirements_def set_jit_def)
    have rel: "released (jits t ! i) = released (jits s ! i)" for i
      using released_set_jit [of "\<lambda>x. x\<lparr>retired := True\<rparr>" k s i] by (simp add: flag(1))
    have k: "length (jits s) = k + 2" using j flag(2) by (simp add: jits_ok_def)
    have "jits_ok t" using j flag k by (auto simp: jits_ok_def set_jit_def nth_list_update)
    moreover have "threads_ok t" by (rule threads_ok_mono [OF th]) (auto simp: flag(1) set_jit_def nth_list_update k)
    moreover have "reaper_ok t (reaper t)"
      using reaper_ok_frame [OF re, of t] qt rel by (simp add: flag(1) set_jit_def)
    moreover have "counts_ok t"
      by (rule counts_ok_frame [OF co])
        (use qt co rel flag(2) not_released [OF co] in \<open>simp_all add: flag(1) set_jit_def counts_ok_def\<close>)
    ultimately show ?thesis by (simp add: gen_ok_def)
  next
    case (advance k)
    have qt: "retirements t = retirements s" using advance by (simp add: retirements_def)
    have k: "length (jits s) = k + 2" "unat (g_epoch s) = k + 1" using j advance(2) by (simp_all add: jits_ok_def)
    have g: "unat (g_epoch s + 1) = k + 2" using k assms(3) advance(1) by (simp add: unat_word_ariths)
    have "of_nat (unat (g_epoch s + 1)) = g_epoch s + 1" by simp
    then have e: "g_epoch s + 1 = of_nat (k + 2)" unfolding g by (rule sym)
    have "jits_ok t" using j advance g e by (auto simp: jits_ok_def)
    moreover have "threads_ok t"
      by (rule threads_ok_mono [OF th]) (use g k in \<open>simp_all add: advance(1) word_le_nat_alt\<close>)
    moreover have "reaper_ok t (reaper t)" using reaper_ok_frame [OF re, of t] qt by (simp add: advance(1))
    moreover have "counts_ok t"
      by (rule counts_ok_frame [OF co]) (use qt co advance(2) not_released [OF co] in \<open>auto simp: advance(1) counts_ok_def\<close>)
    ultimately show ?thesis by (simp add: gen_ok_def)
  next
    case (set_epoch k e)
    have qt: "retirements t = retirements s" using set_epoch by (simp add: retirements_def set_jit_def)
    have rel: "released (jits t ! i) = released (jits s ! i)" for i
      using released_set_jit [of "\<lambda>x. x\<lparr>retired_epoch := e\<rparr>" k s i] by (simp add: set_epoch(1))
    have k: "length (jits s) = k + 2" using j set_epoch(2) by (simp add: jits_ok_def)
    have "jits_ok t" using j set_epoch k by (auto simp: jits_ok_def set_jit_def nth_list_update order_le_less)
    moreover have "threads_ok t" by (rule threads_ok_mono [OF th]) (auto simp: set_epoch(1) set_jit_def nth_list_update k)
    moreover have "reaper_ok t (reaper t)"
      using reaper_ok_frame [OF re, of t] qt rel by (simp add: set_epoch(1) set_jit_def)
    moreover have "counts_ok t"
      by (rule counts_ok_frame [OF co])
        (use qt co rel set_epoch(2) not_released [OF co] in \<open>simp_all add: set_epoch(1) set_jit_def counts_ok_def\<close>)
    ultimately show ?thesis by (simp add: gen_ok_def)
  next
    case (queue k)
    have k: "length (jits s) = k + 2" "retirements s = k" using j queue(2) by (auto simp: jits_ok_def retirements_def)
    have qt: "retirements t = k + 1" using queue(1) k by (simp add: retirements_def)
    have r: "unat (released_total s) = k" "unat (retired_total s) = k" using co queue(2) k by (simp_all add: counts_ok_def)
    have rt: "unat (retired_total s + 1) = k + 1" using r k assms(3) queue(1) by (simp add: unat_word_ariths)
    have "jits_ok t" using j queue(1,2) k by (auto simp: jits_ok_def)
    moreover have "threads_ok t" by (rule threads_ok_mono [OF th]) (simp_all add: queue(1))
    moreover have "reaper_ok t (reaper t)"
      using re queue(3) r k qt by (cases "reaper s") (auto simp: queue(1) unused_def)
    moreover have "counts_ok t" using co r rt qt k unfolding counts_ok_def by (auto simp: queue(1) unused_def)
    ultimately show ?thesis by (simp add: gen_ok_def)
  qed
qed

section \<open>The reaper\<close>

lemma uses_awake:
  assumes "threads_ok s" "j \<in> uses s i"
  shows "\<exists>y. slot s i = Some y \<and> \<not> parked y \<and> unat (acked y) < j + 2"
proof -
  have "loc_ok s (slot s i) (loc s i)" using assms(1) by (simp add: threads_ok_def)
  then show ?thesis using assms(2) by (cases "loc s i") auto
qed

lemma uses_slots: "threads_ok s \<Longrightarrow> j \<in> uses s i \<Longrightarrow> i \<in> set (slots s)"
  by (frule (1) uses_awake) (auto simp: threads_ok_def)

lemma uses_parked: "threads_ok s \<Longrightarrow> slot_parked s i \<Longrightarrow> j \<notin> uses s i"
  using uses_awake [of s j i] by (auto simp: slot_parked_def)

lemma uses_acked:
  assumes "jits_ok s" "threads_ok s" "length (jits s) < 2 ^ 64" "j < retirements s" "slot_acked s i j"
  shows "j \<notin> uses s i"
proof
  assume "j \<in> uses s i"
  then obtain y where y: "slot s i = Some y" "unat (acked y) < j + 2" using uses_awake [OF assms(2)] by blast
  have "retirements s < length (jits s)" by (rule retirements_less [OF assms(1)])
  then have "unat (of_nat (j + 2) :: u64) = j + 2"
    using assms(3,4) by (simp only: unat_of_nat) simp
  moreover have "acked y \<ge> of_nat (j + 2)"
    using assms(5) y(1) retired_before(2) [OF assms(1,4)] by (simp add: slot_acked_def)
  ultimately show False using y(2) by (simp add: word_le_nat_alt)
qed

text \<open>A step of the reaper leaves the stacks, the slots and the retirements alone.\<close>

lemma reaper_moves:
  assumes "gen_ok s" "reaper_ok t (reaper t)" "loc t = loc s" "slot t = slot s" "slots t = slots s"
    and "jits t = jits s" "current t = current s" "g_epoch t = g_epoch s" "renewer t = renewer s"
    and "retired_total t = retired_total s" "released_total t = released_total s"
  shows "gen_ok t"
proof -
  have q: "retirements t = retirements s" using assms(6,9) by (simp add: retirements_def)
  have "jits_ok t"
    by (rule jits_ok_cong [of s]) (use assms in \<open>simp_all add: gen_ok_def\<close>)
  moreover have "threads_ok t"
    by (rule threads_ok_mono [of s]) (use assms in \<open>simp_all add: gen_ok_def\<close>)
  moreover have "counts_ok t"
    using assms(1) unfolding gen_ok_def counts_ok_def unused_def q assms(3-11) by blast
  ultimately show ?thesis using assms(2) by (simp add: gen_ok_def)
qed

lemma at_most_one:
  assumes "counts_ok s" "xs @ ys = [unat (released_total s)..<retirements s]"
  shows "length xs + length ys \<le> 1"
proof -
  have "length (xs @ ys) = retirements s - unat (released_total s)" using assms(2) by simp
  then have "length xs + length ys = retirements s - unat (released_total s)" by simp
  moreover have "retirements s \<le> unat (released_total s) + 1" using assms(1) unfolding counts_ok_def by blast
  ultimately show ?thesis by linarith
qed

lemma reap_step_ok:
  assumes "gen_ok s" "reap_step s t" "length (jits s) < 2 ^ 64"
  shows "gen_ok t"
proof -
  have j: "jits_ok s" and th: "threads_ok s" and re: "reaper_ok s (reaper s)" and co: "counts_ok s"
    using assms(1) by (simp_all add: gen_ok_def)
  have q: "retirements s < length (jits s)" by (rule retirements_less [OF j])
  have lt: "k < retirements s" if "xs @ ys = [unat (released_total s)..<retirements s]" "k \<in> set xs \<union> set ys" for xs ys k
    using that by (metis atLeastLessThan_iff set_append set_upt)
  note mv = reaper_moves [OF assms(1), of t] and out = uses_slots [OF th]
  show ?thesis
    using assms(2)
  proof cases
    case wake
    have "k \<notin> uses s i" if "i \<notin> set (slots s)" for i k using that out by blast
    then show ?thesis by (intro mv) (use re wake in \<open>auto simp: unused_def retirements_def\<close>)
  next
    case (see_parked ready todo u rest b)
    have "b = 0 \<Longrightarrow> i \<notin> set rest \<Longrightarrow> hd todo \<notin> uses s i" for i
      using re see_parked(2,3) uses_parked [OF th see_parked(4)] by (cases "i = u") simp_all
    then show ?thesis by (intro mv) (use re see_parked in \<open>simp_all add: unused_def retirements_def\<close>)
  next
    case (see_unparked ready todo u rest b)
    show ?thesis by (intro mv) (use re see_unparked in \<open>auto simp: unused_def retirements_def\<close>)
  next
    case (see_ack ready k todo u rest b)
    have "k < retirements s" using re see_ack(2) by (intro lt [of ready "pending s"]) auto
    then have "k \<notin> uses s u" if "slot_acked s u k" using uses_acked [OF j th assms(3) _ that] by blast
    then have "b = 0 \<Longrightarrow> slot_acked s u k \<Longrightarrow> i \<notin> set rest \<Longrightarrow> k \<notin> uses s i" for i
      using re see_ack(2) by (cases "i = u") simp_all
    then show ?thesis by (intro mv) (use re see_ack in \<open>simp_all add: unused_def retirements_def\<close>)
  next
    case (quiescent ready k todo)
    have "ready @ pending s = [unat (released_total s)..<retirements s]" "k \<in> set (pending s)"
      "set (k # todo) \<subseteq> set (pending s)" "distinct (k # todo)"
      using re quiescent(2) by auto
    moreover from this have "length ready + length (pending s) \<le> 1" using at_most_one [OF co] by blast
    ultimately have p: "ready = []" "pending s = [k]" "todo = []" "[unat (released_total s)..<retirements s] = [k]"
      by (cases "pending s"; cases todo; auto)+
    have "unused s k" "releasing s = []" using re quiescent(2) by (simp_all add: unused_def)
    moreover have "retirements t = retirements s" using quiescent(1) by (simp add: retirements_def)
    ultimately show ?thesis by (intro mv) (use p in \<open>simp_all add: quiescent(1) unused_def\<close>)
  next
    case (blocked ready k todo b)
    have "m \<notin> uses s i" if "i \<notin> set (slots s)" for i m using that out by blast
    then show ?thesis by (intro mv) (use re blocked in \<open>auto simp: unused_def retirements_def\<close>)
  next
    case (back_off rest b)
    show ?thesis by (intro mv) (use re back_off in \<open>auto simp: unused_def retirements_def\<close>)
  next
    case (begin_release ready rest b)
    show ?thesis by (intro mv) (use re begin_release in \<open>auto simp: unused_def retirements_def\<close>)
  next
    case (release_resources k rest)
    have k: "k < retirements s" "unused s k" "k \<in> set (releasing s)"
      using re release_resources(2) by (auto intro: lt [of "releasing s" "pending s"])
    have rel: "released (jits t ! m) \<longleftrightarrow> m = k \<or> released (jits s ! m)" for m
      using k(1) q by (cases "m = k") (simp_all add: release_resources(1) set_jit_def)
    have same: "retired (jits t ! m) = retired (jits s ! m)" "retired_epoch (jits t ! m) = retired_epoch (jits s ! m)" for m
      using k(1) q by (cases "m = k"; simp add: release_resources(1) set_jit_def)+
    have e: "length (jits t) = length (jits s)" "current t = current s" "g_epoch t = g_epoch s" "renewer t = renewer s"
      "pending t = pending s" "releasing t = releasing s" "retired_total t = retired_total s"
      "released_total t = released_total s" "reaper t = Freeing rest" "loc t = loc s" "slot t = slot s" "slots t = slots s"
      by (simp_all add: release_resources(1) set_jit_def)
    have qt: "retirements t = retirements s" by (simp add: retirements_def e)
    have "jits_ok t" by (rule jits_ok_cong [OF j]) (simp_all only: same e)
    moreover have "threads_ok t" by (rule threads_ok_mono [OF th]) (simp_all add: e same)
    moreover have "reaper_ok t (reaper t)" using re release_resources(2) rel by (auto simp: e qt unused_def)
    moreover have "counts_ok t" using co k rel by (auto simp: counts_ok_def e qt unused_def)
    ultimately show ?thesis by (simp add: gen_ok_def)
  next
    case end_release
    let ?r = "unat (released_total s)" and ?n = "length (releasing s)"
    have R: "releasing s @ pending s = [?r..<retirements s]"
      and U: "\<forall>k \<in> set (releasing s). unused s k \<and> released (jits s ! k)"
      using re end_release(2) by auto
    have "length (releasing s @ pending s) = retirements s - ?r" using R by simp
    moreover have "?r \<le> retirements s" using co unfolding counts_ok_def by blast
    ultimately have n: "?r + ?n \<le> retirements s" by simp
    have rt: "unat (released_total t) = ?r + ?n"
      using n q assms(3) by (simp add: end_release(1) unat_word_ariths unat_of_nat)
    have S: "releasing s = [?r..<?r + ?n]" "pending s = [?r + ?n..<retirements s]"
    proof -
      have "[?r..<retirements s] = [?r..<?r + ?n] @ [?r + ?n..<retirements s]" using n by (metis le_add1 upt_add_eq_append le_Suc_ex)
      then show "releasing s = [?r..<?r + ?n]" "pending s = [?r + ?n..<retirements s]" using R by simp_all
    qed
    have e: "jits t = jits s" "current t = current s" "g_epoch t = g_epoch s" "renewer t = renewer s"
      "pending t = pending s" "releasing t = []" "retired_total t = retired_total s"
      "reaper t = Asleep" "loc t = loc s" "slot t = slot s" "slots t = slots s"
      by (simp_all add: end_release(1))
    have qt: "retirements t = retirements s" by (simp add: retirements_def e)
    have "jits_ok t" by (rule jits_ok_cong [OF j]) (simp_all only: e)
    moreover have "threads_ok t" by (rule threads_ok_mono [OF th]) (simp_all add: e)
    moreover have "reaper_ok t (reaper t)" using S(2) by (simp add: e qt rt)
    moreover have "counts_ok t"
    proof -
      have "k < ?r \<or> k \<in> set (releasing s)" if "k < ?r + ?n" for k using that S(1) by (metis atLeastLessThan_iff not_le set_upt)
      then show ?thesis using co U n unfolding counts_ok_def qt rt e unused_def by auto
    qed
    ultimately show ?thesis by (simp add: gen_ok_def)
  qed
qed

section \<open>Every reachable state\<close>

lemma gen_step_length: "gen_step s t \<Longrightarrow> length (jits s) \<le> length (jits t)"
  by (auto simp: goto_def set_slot_def set_jit_def elim!: gen_step.cases thread_step.cases renew_step.cases reap_step.cases)

lemma gen_step_ok:
  assumes "gen_ok s" "gen_step s t" "length (jits t) < 2 ^ 64"
  shows "gen_ok t"
  using assms(2)
proof cases
  case (thread i)
  then show ?thesis by (rule thread_step_ok [OF assms(1)])
next
  case renew
  then show ?thesis by (rule renew_step_ok [OF assms(1) _ assms(3)])
next
  case reap
  have "length (jits s) < 2 ^ 64" by (rule le_less_trans [OF gen_step_length [OF assms(2)] assms(3)])
  with reap show ?thesis by (rule reap_step_ok [OF assms(1)])
qed

lemma gen_reachable_ok: "gen_reachable s \<Longrightarrow> length (jits s) < 2 ^ 64 \<Longrightarrow> gen_ok s"
proof (induction rule: gen_reachable.induct)
  case init
  show ?case by (rule gen_ok_init)
next
  case (step s t)
  have "length (jits s) < 2 ^ 64" by (rule le_less_trans [OF gen_step_length [OF step.hyps(2)] step.prems])
  then show ?case by (rule gen_step_ok [OF step.IH step.hyps(2) step.prems])
qed

end
