(* ===== verification/GenerationsSpec.thy ===== *)
theory GenerationsSpec
  imports GenerationsProps
begin

text \<open>
  What the replacement of a full code cache promises: the code of a released instance is on no
  thread's stack, the code caches never take more than twice the budget of one, every round of the
  reaper ends, and an instance that no thread stands in the way of is released.
\<close>

section \<open>Rounds of the reaper\<close>

text \<open>How much of a round is left.\<close>

fun round_left :: "nat \<Rightarrow> reaping \<Rightarrow> nat" where
  "round_left n Asleep = 0"
| "round_left n (Freeing rest) = length rest + 1"
| "round_left n (Scanning ready todo rest b) = length todo * (2 * n + 4) + 2 * length rest + length ready + 2"
| "round_left n (AckLook ready todo t rest b) = length todo * (2 * n + 4) + 2 * length rest + length ready + 3"

lemma round_left_decreases:
  "reap_step s t \<Longrightarrow> reaper s \<noteq> Asleep \<Longrightarrow>
    round_left (length (slots t)) (reaper t) < round_left (length (slots s)) (reaper s)"
  by (cases rule: reap_step.cases) (auto simp: set_jit_def)

lemma reap_step_progress:
  assumes "gen_ok s" "reaper s \<noteq> Asleep"
  shows "\<exists>t. reap_step s t"
proof (cases "reaper s")
  case (Scanning ready todo rest b)
  show ?thesis
  proof (cases todo)
    case Nil
    then show ?thesis using Scanning reap_step.back_off reap_step.begin_release by (cases ready) blast+
  next
    case (Cons j todo')
    show ?thesis
    proof (cases rest)
      case Nil
      then show ?thesis using Scanning Cons reap_step.quiescent reap_step.blocked by (cases "b = 0") blast+
    next
      case (Cons u rest')
      then show ?thesis
        using Scanning \<open>todo = j # todo'\<close> reap_step.see_parked reap_step.see_unparked by (cases "slot_parked s u") blast+
    qed
  qed
next
  case (AckLook ready todo u rest b)
  then obtain j todo' where "todo = j # todo'" using assms(1) by (cases todo) (auto simp: gen_ok_def)
  then show ?thesis using AckLook reap_step.see_ack by blast
next
  case (Freeing rest)
  then show ?thesis using reap_step.release_resources reap_step.end_release by (cases rest) blast+
qed (use assms(2) in simp)

text \<open>No thread stands in the way of the pending instances.\<close>

definition calm :: "generations \<Rightarrow> bool" where
  "calm s \<longleftrightarrow> (\<forall>i \<in> set (slots s). \<forall>j \<in> set (pending s). slot_parked s i \<or> slot_acked s i j)"

lemma retired_epoch_released:
  "retired_epoch (xs[k := (xs ! k)\<lparr>released := True\<rparr>] ! j) = retired_epoch (xs ! j)"
proof (cases "k = j \<and> j < length xs")
  case False
  then show ?thesis by (cases "k = j") (simp_all add: not_less list_update_beyond)
qed simp

lemma reap_step_keeps:
  assumes "reap_step s t"
  shows "slots t = slots s" "slot t = slot s" "renewer t = renewer s" "length (jits t) = length (jits s)"
    and "set (pending t) \<subseteq> set (pending s)" "slot_parked t = slot_parked s" "slot_acked t = slot_acked s" "retirements t = retirements s"
proof -
  show "slots t = slots s" using assms by (cases rule: reap_step.cases) (simp_all add: set_jit_def)
  show sl: "slot t = slot s" using assms by (cases rule: reap_step.cases) (simp_all add: set_jit_def)
  show re: "renewer t = renewer s" using assms by (cases rule: reap_step.cases) (simp_all add: set_jit_def)
  show le: "length (jits t) = length (jits s)" using assms by (cases rule: reap_step.cases) (simp_all add: set_jit_def)
  show "set (pending t) \<subseteq> set (pending s)"
    using assms by (cases rule: reap_step.cases) (simp_all add: set_jit_def set_remove1_subset)
  show "slot_parked t = slot_parked s" by (rule ext) (simp add: slot_parked_def sl)
  show "retirements t = retirements s" by (simp add: retirements_def re le)
  have "retired_epoch (jits t ! j) = retired_epoch (jits s ! j)" for j
    using assms by (cases rule: reap_step.cases) (simp_all add: set_jit_def retired_epoch_released)
  then show "slot_acked t = slot_acked s" by (intro ext) (simp add: slot_acked_def sl split: option.split)
qed

lemma reap_step_calm: "reap_step s t \<Longrightarrow> calm s \<Longrightarrow> calm t"
  using reap_step_keeps [of s t] by (auto simp: calm_def)

text \<open>Any round ends, and what its steps keep is kept.\<close>

lemma round_ends:
  assumes "gen_ok s" "length (jits s) < 2 ^ 64" "I s"
    and keep: "\<And>u v. gen_ok u \<Longrightarrow> I u \<Longrightarrow> reaper u \<noteq> Asleep \<Longrightarrow> reap_step u v \<Longrightarrow> I v"
  shows "\<exists>t. reap_step\<^sup>*\<^sup>* s t \<and> reaper t = Asleep \<and> gen_ok t \<and> I t \<and> retirements t = retirements s"
  using assms(1-3)
proof (induction "round_left (length (slots s)) (reaper s)" arbitrary: s rule: less_induct)
  case less
  show ?case
  proof (cases "reaper s = Asleep")
    case True
    then show ?thesis using less.prems by blast
  next
    case False
    then obtain u where u: "reap_step s u" using reap_step_progress less.prems(1) by blast
    note k = reap_step_keeps [OF u]
    have "gen_ok u" by (rule reap_step_ok [OF less.prems(1) u less.prems(2)])
    moreover have "I u" by (rule keep [OF less.prems(1,3) False u])
    ultimately obtain t where "reap_step\<^sup>*\<^sup>* u t" "reaper t = Asleep" "gen_ok t" "I t" "retirements t = retirements u"
      using less.hyps [OF round_left_decreases [OF u False]] less.prems(2) k(4) by auto
    then show ?thesis using u k(8) by (metis converse_rtranclp_into_rtranclp)
  qed
qed

text \<open>A round that looks at every pending instance and has found no thread in the way.\<close>

fun clear_round :: "generations \<Rightarrow> reaping \<Rightarrow> bool" where
  "clear_round s Asleep = (pending s = [])"
| "clear_round s (Freeing rest) = (pending s = [])"
| "clear_round s (Scanning ready todo rest b) = (b = 0 \<and> set todo = set (pending s) \<and> set rest \<subseteq> set (slots s) \<and> (todo = [] \<longrightarrow> ready \<noteq> []))"
| "clear_round s (AckLook ready todo t rest b) =
     (b = 0 \<and> set todo = set (pending s) \<and> set (t # rest) \<subseteq> set (slots s) \<and> \<not> slot_parked s t)"

lemma clear_round_step:
  assumes "gen_ok s" "calm s" "clear_round s (reaper s)" "reap_step s t" "reaper s \<noteq> Asleep"
  shows "clear_round t (reaper t)"
proof -
  note k = reap_step_keeps [OF assms(4)]
  have re: "reaper_ok s (reaper s)" using assms(1) by (simp add: gen_ok_def)
  show ?thesis
    using assms(4)
  proof cases
    case (see_ack ready j todo u rest b)
    then have "slot_acked s u j" using assms(2,3) by (auto simp: calm_def)
    then show ?thesis using see_ack assms(3) by simp
  next
    case (quiescent ready j todo)
    then have "distinct (pending s)" "distinct (j # todo)" "set (j # todo) = set (pending s)"
      using re assms(3) by (auto, metis distinct_append distinct_upt)
    then show ?thesis by (auto simp: quiescent(1))
  next
    case (see_unparked ready todo u rest b)
    then show ?thesis using assms(3) by (simp add: slot_parked_def)
  qed (use assms(3,5) in \<open>auto simp: set_jit_def\<close>)
qed

lemma calm_released:
  assumes "gen_ok s" "length (jits s) < 2 ^ 64" "calm s"
  shows "\<exists>t. reap_step\<^sup>*\<^sup>* s t \<and> reaper t = Asleep \<and> unreleased t = 0 \<and> (\<forall>j < retirements s. released (jits t ! j))"
proof -
  have fin: "unreleased t = 0 \<and> (\<forall>j < retirements s. released (jits t ! j))"
    if "gen_ok t" "reaper t = Asleep" "pending t = []" "retirements t = retirements s" for t
  proof -
    have "[] = [unat (released_total t)..<retirements t]" using that(1-3) by (simp add: gen_ok_def)
    then have "retirements t \<le> unat (released_total t)" by (metis upt_eq_Nil_conv le_zero_eq not_le zero_le)
    then have "unat (released_total t) = retirements t" using that(1) by (simp add: gen_ok_def counts_ok_def)
    moreover from this have "retired_total t = released_total t"
      using that(1) by (simp add: gen_ok_def counts_ok_def word_unat_eq_iff)
    ultimately show ?thesis using that(1,4) by (simp add: gen_ok_def counts_ok_def unreleased_def)
  qed
  define I where "I u \<longleftrightarrow> calm u \<and> length (jits u) = length (jits s)" for u
  have I: "I v" if "I u" "reap_step u v" for u v
    using that reap_step_calm [OF that(2)] reap_step_keeps(4) [OF that(2)] by (simp add: I_def)
  have "\<exists>u. reap_step\<^sup>*\<^sup>* s u \<and> reaper u = Asleep \<and> gen_ok u \<and> I u \<and> retirements u = retirements s"
  proof (rule round_ends [OF assms(1,2), where I = I])
    show "I s" using assms(3) by (simp add: I_def)
  qed (rule I)
  then obtain u where u: "reap_step\<^sup>*\<^sup>* s u" "reaper u = Asleep" "gen_ok u" "I u" "retirements u = retirements s" by blast
  show ?thesis
  proof (cases "pending u = []")
    case True
    then show ?thesis using u fin [of u] by blast
  next
    case False
    let ?v = "u\<lparr>reaper := Scanning [] (pending u) (slots u) 0\<rparr>"
    have w: "reap_step u ?v" by (rule reap_step.wake [OF u(2) False])
    have len: "length (jits u) < 2 ^ 64" using u(4) assms(2) by (simp add: I_def)
    have v: "gen_ok ?v" "length (jits ?v) < 2 ^ 64" "calm ?v \<and> clear_round ?v (reaper ?v)"
      using reap_step_ok [OF u(3) w len] reap_step_calm [OF w] u(4) len False by (simp_all add: I_def)
    have "\<exists>t. reap_step\<^sup>*\<^sup>* ?v t \<and> reaper t = Asleep \<and> gen_ok t \<and> (calm t \<and> clear_round t (reaper t)) \<and> retirements t = retirements ?v"
      by (rule round_ends [where I = "\<lambda>u. calm u \<and> clear_round u (reaper u)", OF v]) (use clear_round_step reap_step_calm in blast)
    then obtain t where t: "reap_step\<^sup>*\<^sup>* ?v t" "reaper t = Asleep" "gen_ok t" "clear_round t (reaper t)" "retirements t = retirements ?v" by blast
    have "retirements ?v = retirements u" by (simp add: retirements_def)
    then have "retirements t = retirements s" using t(5) u(5) by simp
    moreover have "reap_step\<^sup>*\<^sup>* s t" using u(1) w t(1) by (meson converse_rtranclp_into_rtranclp rtranclp_trans)
    ultimately show ?thesis using fin [OF t(3,2)] t(2,4) by auto
  qed
qed

section \<open>The properties\<close>

text \<open>Two instances: thread 0 runs code of the first, which has been retired and queued; then it blocks in a syscall.\<close>

definition pinned :: generations where
  "pinned = \<lparr>g_epoch = 2, jits = [\<lparr>retired = True, retired_epoch = 2, released = False\<rparr>, fresh_jit], current = 1,
     slot = (\<lambda>_. None)(0 := Some \<lparr>acked = 1, parked = False\<rparr>), slots = [0],
     loc = (\<lambda>_. Outside)(0 := Running [0]), pending = [0], releasing = [], retired_total = 1, released_total = 0,
     renewer = NotRenewing, reaper = Asleep\<rparr>"

definition unpinned :: generations where
  "unpinned = pinned\<lparr>slot := (\<lambda>_. None)(0 := Some \<lparr>acked = 1, parked = True\<rparr>), loc := (\<lambda>_. Outside)\<rparr>"

lemma gen_thread: "gen_reachable s \<Longrightarrow> thread_step i s t \<Longrightarrow> t = u \<Longrightarrow> gen_reachable u"
  by (blast intro: gen_reachable.step gen_step.thread)

lemma gen_renew: "gen_reachable s \<Longrightarrow> renew_step s t \<Longrightarrow> t = u \<Longrightarrow> gen_reachable u"
  by (blast intro: gen_reachable.step gen_step.renew)

lemma pinned_reachable: "gen_reachable pinned"
proof -
  note defs = generations_init_def goto_def set_slot_def set_jit_def
  define one where "one l x = generations_init\<lparr>loc := (\<lambda>_. Outside)(0 := l), slot := (\<lambda>_. None)(0 := Some x), slots := [0]\<rparr>" for l x
  define x where "x = \<lparr>acked = 1, parked = False\<rparr>"
  have "gen_reachable (generations_init\<lparr>loc := (\<lambda>_. Outside)(0 := Registering 0 1)\<rparr>)"
    by (rule gen_thread [OF gen_reachable.init thread_step.first_call [where i = 0 and j = 0]]) (simp_all add: defs)
  then have "gen_reachable (one (Boundary 0) x)"
    by (rule gen_thread [OF _ thread_step.register_thread [where i = 0]]) (simp_all add: defs one_def x_def)
  then have "gen_reachable (one (Unparked 0) x)"
    by (rule gen_thread [OF _ thread_step.leave_park [where i = 0 and j = 0 and x = x]]) (simp_all add: defs one_def x_def)
  then have "gen_reachable (one (EpochSeen 0 1) x)"
    by (rule gen_thread [OF _ thread_step.read_epoch [where i = 0 and j = 0]]) (simp_all add: defs one_def x_def)
  then have "gen_reachable (one (Passed 0) x)"
    by (rule gen_thread [OF _ thread_step.ack [where i = 0 and j = 0 and e = 1 and x = x]]) (simp_all add: defs one_def x_def)
  then have "gen_reachable (one (Running [0]) x)"
    by (rule gen_thread [OF _ thread_step.check [where i = 0 and j = 0]]) (simp_all add: defs one_def after_check_def fresh_jit_def)
  then have "gen_reachable ((one (Running [0]) x)\<lparr>jits := [fresh_jit, fresh_jit], current := 1, renewer := Added 0\<rparr>)"
    by (rule gen_renew [OF _ renew_step.add]) (simp_all add: defs one_def unreleased_def)
  then have "gen_reachable ((one (Running [0]) x)\<lparr>jits := [fresh_jit\<lparr>retired := True\<rparr>, fresh_jit], current := 1, renewer := Flagged 0\<rparr>)"
    by (rule gen_renew [OF _ renew_step.flag [where j = 0]]) (simp_all add: defs one_def)
  then have "gen_reachable ((one (Running [0]) x)\<lparr>jits := [fresh_jit\<lparr>retired := True\<rparr>, fresh_jit], current := 1, g_epoch := 2, renewer := EpochTaken 0 2\<rparr>)"
    by (rule gen_renew [OF _ renew_step.advance [where j = 0]]) (simp_all add: defs one_def)
  then have "gen_reachable ((one (Running [0]) x)\<lparr>jits := [fresh_jit\<lparr>retired := True, retired_epoch := 2\<rparr>, fresh_jit], current := 1, g_epoch := 2, renewer := EpochSet 0\<rparr>)"
    by (rule gen_renew [OF _ renew_step.set_epoch [where j = 0 and e = 2]]) (simp_all add: defs one_def)
  then show ?thesis
    by (rule gen_renew [OF _ renew_step.queue [where j = 0]]) (simp_all add: defs one_def x_def pinned_def fresh_jit_def)
qed

lemma unpinned_reachable: "gen_reachable unpinned"
  by (rule gen_thread [OF pinned_reachable thread_step.park [where i = 0 and j = 0 and x = "\<lparr>acked = 1, parked = False\<rparr>"]])
    (simp_all add: pinned_def unpinned_def goto_def set_slot_def fun_eq_iff)

text \<open>
  C6. The code of an instance the reaper has released is on no thread's stack and about to be entered
  by none, whatever the order in which threads dispatch, block, nest and exit, the cache is replaced
  and the reaper runs.
\<close>

theorem released_code_unused:
  assumes "gen_reachable s" "length (jits s) < 2 ^ 64" "j \<in> uses s i"
  shows "\<not> released (jits s ! j)"
proof -
  have ok: "gen_ok s" by (rule gen_reachable_ok [OF assms(1,2)])
  then have "loc_ok s (slot s i) (loc s i)" by (simp add: gen_ok_def threads_ok_def)
  then have "j < length (jits s)" using assms(3) by (cases "loc s i") auto
  then show ?thesis using ok assms(3) by (auto simp: gen_ok_def counts_ok_def unused_def)
qed

theorem released_code_unused_witness:
  "0 \<in> uses pinned 0 \<and> retired (jits pinned ! 0) \<and> \<not> released (jits pinned ! 0)"
  using released_code_unused [OF pinned_reachable, of 0 0] by (simp add: pinned_def)

text \<open>C29. At most two instances hold their code mapping at a time: twice the budget of one code cache.\<close>

theorem code_budget_bounded:
  assumes "gen_reachable s" "length (jits s) < 2 ^ 64"
  shows "card {j. j < length (jits s) \<and> \<not> released (jits s ! j)} \<le> 2"
proof -
  have co: "counts_ok s" "jits_ok s" using gen_reachable_ok [OF assms] by (simp_all add: gen_ok_def)
  have "retirements s \<le> unat (released_total s) + 1" "renewer s \<noteq> NotRenewing \<longrightarrow> unat (released_total s) = retirements s"
    using co(1) unfolding counts_ok_def by blast+
  then have "length (jits s) \<le> unat (released_total s) + 2"
    by (cases "renewer s = NotRenewing") (simp_all add: retirements_def)
  moreover have "{j. j < length (jits s) \<and> \<not> released (jits s ! j)} \<subseteq> {unat (released_total s)..<length (jits s)}"
    using co(1) unfolding counts_ok_def by (metis (mono_tags, lifting) atLeastLessThan_iff mem_Collect_eq not_le subsetI)
  then have "card {j. j < length (jits s) \<and> \<not> released (jits s ! j)} \<le> length (jits s) - unat (released_total s)"
    using card_mono [OF finite_atLeastLessThan] by fastforce
  ultimately show ?thesis by simp
qed

theorem code_budget_bounded_witness:
  "card {j. j < length (jits pinned) \<and> \<not> released (jits pinned ! j)} \<le> 2 \<and> length (jits pinned) = 2"
  using code_budget_bounded [OF pinned_reachable] by (simp add: pinned_def)

text \<open>
  C28. A retired instance is released: when every registered thread is parked or has acknowledged the
  retirement of each pending instance, the reaper, running alone, goes back to sleep with every queued
  instance released and the way free for the next renewal.
\<close>

theorem retired_released:
  assumes "gen_reachable s" "length (jits s) < 2 ^ 64"
    and "\<forall>i \<in> set (slots s). \<forall>j \<in> set (pending s). slot_parked s i \<or> slot_acked s i j"
  shows "\<exists>t. reap_step\<^sup>*\<^sup>* s t \<and> reaper t = Asleep \<and> unreleased t = 0 \<and>
    (\<forall>j < unat (retired_total s). released (jits t ! j))"
proof -
  have ok: "gen_ok s" by (rule gen_reachable_ok [OF assms(1,2)])
  then have "unat (retired_total s) = retirements s" by (simp add: gen_ok_def counts_ok_def)
  then show ?thesis using calm_released [OF ok assms(2)] assms(3) by (simp add: calm_def)
qed

theorem retired_released_witness:
  "\<exists>t. reap_step\<^sup>*\<^sup>* unpinned t \<and> reaper t = Asleep \<and> unreleased t = 0 \<and> released (jits t ! 0)"
  using retired_released [OF unpinned_reachable] by (auto simp: unpinned_def pinned_def slot_parked_def)

end
