(* ===== verification/IR.thy ===== *)
theory IR
  imports Prelude
begin

text \<open>
  The intermediate representation of FrostJIT (\<open>FrostJIT/IR/IR.hpp\<close>, the factories and readers of
  \<open>Factories.hpp\<close>): opcodes, instructions, and the value a straight-line block computes. The
  opcodes are grouped: the scalar ones that may enter the SSA graph, the scalar ones that may not,
  calls and atomics, floating point, and vector lanes and moves.
\<close>

section \<open>Instructions\<close>

datatype scalar_op =
    IR_ADD | IR_SUB | IR_MUL | IR_AND | IR_OR | IR_XOR | IR_SHL | IR_SHR | IR_SAR | IR_ROR
  | IR_NOT | IR_NEG | IR_SEXT | IR_ZEXT | IR_CLZ | IR_REV64 | IR_CRC32 | IR_UBFM | IR_SBFM
  | IR_CSEL | IR_EXTR | IR_UDIV | IR_SDIV | IR_SMULH | IR_UMULH
  | IR_SMADDL | IR_UMADDL | IR_SMSUBL | IR_UMSUBL | IR_ADDS | IR_SUBS | IR_ADCS | IR_SBCS

datatype control_op =
    IR_TST | IR_CCMP | IR_TST_ZERO | IR_LOAD_MEM | IR_STORE_MEM | IR_BR | IR_BRCOND_ZERO
  | IR_BRCOND_BIT | IR_MSR | IR_MRS | IR_BRCOND | IR_BRCOND_FALLTHRU | IR_MEMORY_BARRIER
  | IR_CLEAR_EXCLUSIVE

datatype helper_op =
    IR_CLS | IR_RBIT | IR_REV16 | IR_REV32 | IR_CSINC | IR_CSINV | IR_CSNEG | IR_BFM
  | IR_BRCOND_SKIP | IR_BL_CALL | IR_BLR_CALL | IR_CALL_INTERP | IR_SVC
  | IR_ATOMIC | IR_LDXR_FAST | IR_STXR_FAST | IR_STLR_FAST

datatype fp_op =
    IR_FMOV_G2F | IR_FMOV_F2G | IR_FMOV_G2FHI | IR_FMOV_FHI2G | IR_FP_BINOP | IR_FP_UNOP | IR_FP_MOV
  | IR_FP_F2I | IR_FP_I2F | IR_FP_F2I_FIXED | IR_FP_I2F_FIXED | IR_FP_CMP | IR_FP_MOVI
  | IR_FCVT_S2D | IR_FCVT_D2S | IR_FRINT | IR_FMADD | IR_FMSUB | IR_FNMADD | IR_FNMSUB
  | IR_AES_CRYPTO | IR_FP_CSEL

datatype lane_op =
    IR_SIMD_LOGICAL | IR_SIMD_SATADDSUB | IR_SIMD_ARITH | IR_SIMD_CMP | IR_SIMD_FP_ARITH
  | IR_SIMD_FP_UNARY | IR_SIMD_FP_FMA | IR_SIMD_2REG | IR_SIMD_CVTF | IR_SIMD_ADDP | IR_SIMD_XTN
  | IR_SIMD_PAIRMIN | IR_SIMD_ABDL | IR_SIMD_ABD | IR_SIMD_ADDW | IR_SIMD_ADDHN
  | IR_SIMD_SHRN_SAT | IR_SIMD_MUL_ELEM

datatype move_op =
    IR_SIMD_NATIVE_STRUCT | IR_SIMD_NATIVE_EXTRA | IR_SIMD_SCALAR_DUP | IR_SIMD_DUP | IR_SIMD_UMOV
  | IR_SIMD_SMOV | IR_SIMD_MOVI | IR_SIMD_ORRIMM | IR_SIMD_LDST | IR_SIMD_LD16 | IR_SIMD_ST16
  | IR_SIMD_SHL | IR_SIMD_USHR | IR_SIMD_SSHR | IR_SIMD_USRA | IR_SIMD_SSRA | IR_SIMD_URSRA
  | IR_SIMD_SRSRA | IR_SIMD_SLI | IR_SIMD_SRI | IR_SIMD_TBL | IR_SIMD_INS | IR_SIMD_PERMUTE

datatype IROp = IR_NOP | IR_IMM | IR_MOV | IR_LOAD_REG | IR_STORE_REG
  | Scalar scalar_op | Control control_op | Helper helper_op | Fp fp_op | Lane lane_op | Move move_op

record IRInst =
  i_op :: IROp
  i_dest :: u16
  i_src1 :: u16
  i_src2 :: u16
  i_aux :: u16
  i_arm_pc :: u64
  i_width :: u8
  i_cond :: u8
  i_flags_op :: u8
  i_imm :: u64
  i_immr :: u8
  i_imms :: u8
  i_sf :: u8

definition ir_make :: "IROp \<Rightarrow> u16 \<Rightarrow> u16 \<Rightarrow> u16 \<Rightarrow> u16 \<Rightarrow> u64 \<Rightarrow> IRInst" where
  "ir_make p dest src1 src2 aux arm_pc =
     \<lparr>i_op = p, i_dest = dest, i_src1 = src1, i_src2 = src2, i_aux = aux, i_arm_pc = arm_pc,
      i_width = 0, i_cond = 0, i_flags_op = 0, i_imm = 0, i_immr = 0, i_imms = 0, i_sf = 0\<rparr>"

definition make_load_reg :: "u16 \<Rightarrow> u16 \<Rightarrow> bool \<Rightarrow> u64 \<Rightarrow> IRInst" where
  "make_load_reg dest src is_fp arm_pc =
     (ir_make IR_LOAD_REG dest src 0 0 arm_pc)\<lparr>i_sf := (if is_fp then 1 else 0)\<rparr>"

definition make_imm :: "u16 \<Rightarrow> u64 \<Rightarrow> u64 \<Rightarrow> IRInst" where
  "make_imm dest v arm_pc = (ir_make IR_IMM dest 0 0 0 arm_pc)\<lparr>i_imm := v\<rparr>"

text \<open>The readers the passes use. \<open>is_fp_store\<close> reads the same bit as \<open>is_fp_load\<close>.\<close>

definition is_fp_load :: "IRInst \<Rightarrow> bool" where "is_fp_load i = bit (i_sf i) 0"
definition is_fp_store :: "IRInst \<Rightarrow> bool" where "is_fp_store i = bit (i_sf i) 0"

section \<open>Operand contracts\<close>

text \<open>
  \<open>Shape\<close> and \<open>shape\<close> of \<open>FrostJIT/IR/SSA/SSA.cpp\<close>: which of \<open>src1\<close>, \<open>src2\<close> and \<open>aux\<close> an opcode
  reads, whether it has a result, and whether it has an effect. Other opcodes are refused.
\<close>

record Shape =
  sh_uses :: u8
  sh_result :: bool
  sh_effect :: bool

fun scalar_shape :: "scalar_op \<Rightarrow> u16 \<Rightarrow> Shape" where
  "scalar_shape c dest =
     (if c \<in> {IR_NOT, IR_NEG, IR_SEXT, IR_ZEXT, IR_CLZ, IR_REV64, IR_UBFM, IR_SBFM}
      then \<lparr>sh_uses = 1, sh_result = True, sh_effect = False\<rparr>
      else if c \<in> {IR_SMADDL, IR_UMADDL, IR_SMSUBL, IR_UMSUBL}
      then \<lparr>sh_uses = 7, sh_result = True, sh_effect = False\<rparr>
      else if c \<in> {IR_ADDS, IR_SUBS, IR_ADCS, IR_SBCS}
      then \<lparr>sh_uses = 3, sh_result = (dest \<noteq> 0), sh_effect = True\<rparr>
      else \<lparr>sh_uses = 3, sh_result = True, sh_effect = (c = IR_CSEL)\<rparr>)"

fun control_shape :: "control_op \<Rightarrow> Shape" where
  "control_shape c =
     (if c \<in> {IR_TST, IR_CCMP, IR_STORE_MEM} then \<lparr>sh_uses = 3, sh_result = False, sh_effect = True\<rparr>
      else if c \<in> {IR_TST_ZERO, IR_BR, IR_BRCOND_ZERO, IR_BRCOND_BIT, IR_MSR}
      then \<lparr>sh_uses = 1, sh_result = False, sh_effect = True\<rparr>
      else if c = IR_LOAD_MEM then \<lparr>sh_uses = 1, sh_result = True, sh_effect = True\<rparr>
      else if c = IR_MRS then \<lparr>sh_uses = 0, sh_result = True, sh_effect = True\<rparr>
      else \<lparr>sh_uses = 0, sh_result = False, sh_effect = True\<rparr>)"

fun op_shape :: "IROp \<Rightarrow> u16 \<Rightarrow> Shape option" where
  "op_shape IR_NOP dest = Some \<lparr>sh_uses = 0, sh_result = False, sh_effect = False\<rparr>"
| "op_shape IR_IMM dest = Some \<lparr>sh_uses = 0, sh_result = True, sh_effect = False\<rparr>"
| "op_shape IR_LOAD_REG dest = Some \<lparr>sh_uses = 0, sh_result = True, sh_effect = False\<rparr>"
| "op_shape IR_STORE_REG dest = Some \<lparr>sh_uses = 1, sh_result = False, sh_effect = True\<rparr>"
| "op_shape IR_MOV dest = Some \<lparr>sh_uses = 1, sh_result = True, sh_effect = False\<rparr>"
| "op_shape (Scalar c) dest = Some (scalar_shape c dest)"
| "op_shape (Control c) dest = Some (control_shape c)"
| "op_shape (Helper c) dest = None"
| "op_shape (Fp c) dest = None"
| "op_shape (Lane c) dest = None"
| "op_shape (Move c) dest = None"

definition shape :: "IRInst \<Rightarrow> Shape option" where
  "shape i = (case op_shape (i_op i) (i_dest i) of None \<Rightarrow> None
     | Some s \<Rightarrow> if \<not> sh_result s \<or> i_dest i \<ge> 33 then Some s else None)"

text \<open>\<open>cse_parameter\<close>: the parameter that, with the opcode, determines what is computed from the inputs.\<close>

definition cse_parameter :: "IRInst \<Rightarrow> u64 option" where
  "cse_parameter i = (case i_op i of
       IR_MOV \<Rightarrow> Some 0
     | Scalar c \<Rightarrow>
         if c \<in> {IR_ADD, IR_SUB, IR_MUL, IR_AND, IR_OR, IR_XOR, IR_NOT, IR_NEG, IR_SMULH, IR_UMULH,
                 IR_SMADDL, IR_UMADDL, IR_SMSUBL, IR_UMSUBL} then Some 0
         else if c \<in> {IR_SHL, IR_SHR, IR_SAR, IR_ROR, IR_SEXT, IR_ZEXT, IR_CLZ, IR_REV64, IR_UDIV, IR_SDIV}
         then Some (ucast (i_width i))
         else if c = IR_CRC32 then Some (ucast (i_width i) OR push_bit 8 (if i_imm i \<noteq> 0 then 1 else 0))
         else None
     | _ \<Rightarrow> None)"

section \<open>What a block computes\<close>

text \<open>
  The guest state that a block reads and writes: the register file, the vector registers as
  \<open>LOAD_REG\<close> and \<open>STORE_REG\<close> see them, and everything else (memory, flags, the pc), which only the
  operations with an effect see. The meaning of the operations is a parameter: the value of an
  operation is a function of its inputs and of what the instruction says besides its operand names,
  and an effect may also end the block.
\<close>

record 'w guest =
  g_gpr :: "nat \<Rightarrow> u64"
  g_fpr :: "nat \<Rightarrow> u64"
  g_world :: 'w

record 'w ir_sem =
  sem_value :: "IRInst \<Rightarrow> u64 list \<Rightarrow> u64"
  sem_effect :: "IRInst \<Rightarrow> bool \<Rightarrow> u64 list \<Rightarrow> 'w guest \<Rightarrow> u64 \<times> 'w \<times> bool"

definition unnamed :: "IRInst \<Rightarrow> IRInst" where
  "unnamed i = i\<lparr>i_dest := 0, i_src1 := 0, i_src2 := 0, i_aux := 0\<rparr>"

text \<open>
  What an instruction says: its opcode and the parameters its typed readers give. \<open>IRInst::make\<close>
  sets no parameter, and nothing reads one of the operations it makes; \<open>gpr_shift_params\<close>,
  \<open>sext_bits\<close>, \<open>zext_bits\<close>, \<open>clz_params\<close>, \<open>rev64_params\<close> and \<open>div_bits\<close> read the width, and
  \<open>crc32_params\<close> the width and whether the immediate is nonzero. (\<open>clz_params\<close> and \<open>rev64_params\<close>
  also carry the register number of the destination, which the code generator does not read.) Of
  every other operation the whole instruction but its operand names counts. This is independent of
  \<open>cse_parameter\<close>, which has to distinguish whatever this distinguishes.
\<close>

definition ir_meaning :: "IRInst \<Rightarrow> IRInst" where
  "ir_meaning i =
     (let made = ir_make (i_op i) 0 0 0 0 0 in
      case i_op i of
        Scalar c \<Rightarrow>
          if c \<in> {IR_ADD, IR_SUB, IR_MUL, IR_AND, IR_OR, IR_XOR, IR_NOT, IR_NEG, IR_SMULH, IR_UMULH,
                  IR_SMADDL, IR_UMADDL, IR_SMSUBL, IR_UMSUBL} then made
          else if c \<in> {IR_SHL, IR_SHR, IR_SAR, IR_ROR} then made\<lparr>i_width := i_width i\<rparr>
          else if c \<in> {IR_SEXT, IR_ZEXT, IR_CLZ, IR_REV64, IR_UDIV, IR_SDIV} then made\<lparr>i_width := i_width i\<rparr>
          else if c = IR_CRC32
          then made\<lparr>i_width := i_width i, i_imm := (if i_imm i \<noteq> 0 then 1 else 0)\<rparr>
          else unnamed i
      | _ \<Rightarrow> unnamed i)"

definition op_value :: "'w ir_sem \<Rightarrow> IRInst \<Rightarrow> u64 list \<Rightarrow> u64" where
  "op_value sem i ins = (case i_op i of
       IR_MOV \<Rightarrow> hd ins
     | IR_IMM \<Rightarrow> i_imm i
     | _ \<Rightarrow> sem_value sem (ir_meaning i) ins)"

definition store_slot :: "IRInst \<Rightarrow> u64 \<Rightarrow> 'w guest \<Rightarrow> 'w guest" where
  "store_slot i x g =
     (if is_fp_store i then g\<lparr>g_fpr := (g_fpr g)(unat (i_dest i) := x)\<rparr>
      else g\<lparr>g_gpr := (g_gpr g)(unat (i_dest i) := x)\<rparr>)"

text \<open>The result of an operation on given inputs, the guest after it, and whether the block goes on.\<close>

definition run_op :: "'w ir_sem \<Rightarrow> IRInst \<Rightarrow> Shape \<Rightarrow> u64 list \<Rightarrow> 'w guest \<Rightarrow> u64 \<times> 'w guest \<times> bool" where
  "run_op sem i s ins g =
     (if i_op i = IR_STORE_REG then (0, store_slot i (hd ins) g, True)
      else if sh_effect s then
        (case sem_effect sem (unnamed i) (sh_result s) ins g of (x, w, on) \<Rightarrow> (x, g\<lparr>g_world := w\<rparr>, on))
      else (op_value sem i ins, g, True))"

text \<open>A source names a register of the guest, the zero register or a temporary.\<close>

definition read_vreg :: "(nat \<Rightarrow> u64) \<Rightarrow> 'w guest \<Rightarrow> u16 \<Rightarrow> u64" where
  "read_vreg temps g v =
     (if v < 32 then g_gpr g (unat v) else if v = 32 then 0 else temps (unat v))"

definition used :: "u8 \<Rightarrow> 'a list \<Rightarrow> 'a list" where
  "used m xs = map (\<lambda>k. xs ! k) (filter (bit m) [0..<3])"

definition sources :: "IRInst \<Rightarrow> u16 list" where
  "sources i = [i_src1 i, i_src2 i, i_aux i]"

definition exec_inst :: "'w ir_sem \<Rightarrow> IRInst \<Rightarrow> (nat \<Rightarrow> u64) \<times> 'w guest \<Rightarrow> ((nat \<Rightarrow> u64) \<times> 'w guest) \<times> bool" where
  "exec_inst sem i st = (case st of (temps, g) \<Rightarrow>
     (case shape i of
        None \<Rightarrow> (st, False)
      | Some s \<Rightarrow>
          if i_op i = IR_LOAD_REG then
            ((temps(unat (i_dest i) := (if is_fp_load i then g_fpr else g_gpr) g (unat (i_src1 i))), g), True)
          else
            (case run_op sem i s (map (read_vreg temps g) (used (sh_uses s) (sources i))) g of
               (x, g', on) \<Rightarrow> ((if sh_result s then temps(unat (i_dest i) := x) else temps, g'), on))))"

text \<open>Runs a block up to its end or to the operation that leaves it.\<close>

fun exec_block :: "'w ir_sem \<Rightarrow> IRInst list \<Rightarrow> (nat \<Rightarrow> u64) \<times> 'w guest \<Rightarrow> ((nat \<Rightarrow> u64) \<times> 'w guest) \<times> bool" where
  "exec_block sem [] st = (st, True)"
| "exec_block sem (i # is) st =
     (case exec_inst sem i st of (st', on) \<Rightarrow> if on then exec_block sem is st' else (st', False))"

text \<open>What the guest sees of a run: its state at the end, and whether the block ran to its end.\<close>

definition guest_run :: "'w ir_sem \<Rightarrow> IRInst list \<Rightarrow> (nat \<Rightarrow> u64) \<Rightarrow> 'w guest \<Rightarrow> 'w guest \<times> bool" where
  "guest_run sem is t g = (case exec_block sem is (t, g) of (st, on) \<Rightarrow> (snd st, on))"

end
