(* ===== verification/Ssa.thy ===== *)
theory Ssa
  imports IR
begin

text \<open>
  Static single assignment form of one straight-line block (\<open>FrostJIT/IR/SSA/SSA.cpp\<close>), as
  \<open>optimize_ir_ssa\<close> uses it: construction, validation, copy propagation, value numbering, dead code
  elimination and lowering. A graph has one block without predecessors here, so that block dominates
  itself, there are no phis and the numbering visits it alone. Values and variables are indices into
  vectors; both stay far below the 32 bits they have in the code.
\<close>

section \<open>Data\<close>

abbreviation (input) SSA_GPR :: nat where "SSA_GPR \<equiv> 0x10000"
abbreviation (input) SSA_FP :: nat where "SSA_FP \<equiv> 0x10020"

record SSAInstruction =
  n_ir :: IRInst
  n_result :: nat
  n_inputs :: "nat list"
  n_mask :: u8
  n_effect :: bool

record SSAFunction =
  f_insts :: "SSAInstruction list"
  f_inputs :: "(nat \<times> nat) list"
  f_variables :: "nat list"

definition node_inputs :: "SSAInstruction \<Rightarrow> nat list" where
  "node_inputs n = used (n_mask n) (n_inputs n)"

section \<open>Construction\<close>

record Builder =
  b_f :: SSAFunction
  b_defs :: "nat \<rightharpoonup> nat"
  b_failed :: bool

definition Builder_init :: Builder where
  "Builder_init = \<lparr>b_f = \<lparr>f_insts = [], f_inputs = [], f_variables = [0]\<rparr>, b_defs = Map.empty, b_failed = False\<rparr>"

definition upd_f :: "(SSAFunction \<Rightarrow> SSAFunction) \<Rightarrow> Builder \<Rightarrow> Builder" where
  "upd_f h b = b\<lparr>b_f := h (b_f b)\<rparr>"

definition new_value :: "nat \<Rightarrow> Builder \<Rightarrow> Builder \<times> nat" where
  "new_value var b =
     (let vs = f_variables (b_f b) @ [var] in (upd_f (\<lambda>f. f\<lparr>f_variables := vs\<rparr>) b, length vs - 1))"

definition read_var :: "nat \<Rightarrow> Builder \<Rightarrow> Builder \<times> nat" where
  "read_var var b = (case b_defs b var of
       Some v \<Rightarrow> (b, v)
     | None \<Rightarrow>
         if var < SSA_GPR \<or> var \<ge> SSA_FP + 32 then (b\<lparr>b_failed := True\<rparr>, 0)
         else (case new_value var b of (b1, v) \<Rightarrow>
           ((upd_f (\<lambda>f. f\<lparr>f_inputs := f_inputs f @ [(v, var)]\<rparr>) b1)\<lparr>b_defs := (b_defs b1)(var \<mapsto> v)\<rparr>, v)))"

text \<open>The variable a source operand names.\<close>

definition source_var :: "u16 \<Rightarrow> nat" where
  "source_var v = (if v < 32 then SSA_GPR + unat v else unat v)"

definition slot_var :: "bool \<Rightarrow> u16 \<Rightarrow> nat" where
  "slot_var fp r = (if fp then SSA_FP else SSA_GPR) + unat r"

text \<open>The loop over the three operands; an unlowered zero register gives up at once.\<close>

fun read_sources :: "u8 \<Rightarrow> u16 list \<Rightarrow> nat list \<Rightarrow> nat list \<Rightarrow> Builder \<Rightarrow> (Builder \<times> nat list) option" where
  "read_sources m srcs ins [] b = Some (b, ins)"
| "read_sources m srcs ins (k # ks) b =
     (if \<not> bit m k then read_sources m srcs ins ks b
      else if srcs ! k = 32 then None
      else (case read_var (source_var (srcs ! k)) b of (b1, v) \<Rightarrow> read_sources m srcs (ins[k := v]) ks b1))"

definition define_result :: "Shape \<Rightarrow> IRInst \<Rightarrow> SSAInstruction \<Rightarrow> Builder \<Rightarrow> Builder \<times> SSAInstruction" where
  "define_result s i n b =
     (if sh_result s then
        (case new_value (unat (i_dest i)) b of (b1, v) \<Rightarrow>
          (b1\<lparr>b_defs := (b_defs b1)(unat (i_dest i) \<mapsto> v)\<rparr>, n\<lparr>n_result := v\<rparr>))
      else (b, n))"

definition read_slot :: "IRInst \<Rightarrow> SSAInstruction \<Rightarrow> Builder \<Rightarrow> (Builder \<times> SSAInstruction) option" where
  "read_slot i n b =
     (if i_op i \<noteq> IR_LOAD_REG then Some (b, n)
      else if i_src1 i \<ge> 32 then None
      else (case read_var (slot_var (is_fp_load i) (i_src1 i)) b of (b1, v) \<Rightarrow>
        Some (b1, n\<lparr>n_ir := ir_make IR_MOV (i_dest i) 0 0 0 (i_arm_pc i), n_mask := 1, n_inputs := (n_inputs n)[0 := v]\<rparr>)))"

definition define_slot :: "IRInst \<Rightarrow> SSAInstruction \<Rightarrow> Builder \<Rightarrow> Builder option" where
  "define_slot i n b =
     (if i_op i \<noteq> IR_STORE_REG then Some b
      else if i_dest i \<ge> 32 then None
      else Some (b\<lparr>b_defs := (b_defs b)(slot_var (is_fp_store i) (i_dest i) \<mapsto> n_inputs n ! 0)\<rparr>))"

definition append_inst :: "IRInst \<Rightarrow> Builder \<Rightarrow> Builder option" where
  "append_inst i b = (case shape i of None \<Rightarrow> None | Some s \<Rightarrow>
     (case read_sources (sh_uses s) (sources i) [0, 0, 0] [0, 1, 2] b of None \<Rightarrow> None | Some (b1, ins) \<Rightarrow>
     (case read_slot i \<lparr>n_ir = i, n_result = 0, n_inputs = ins, n_mask = sh_uses s, n_effect = sh_effect s\<rparr> b1 of
        None \<Rightarrow> None | Some (b2, n) \<Rightarrow>
     (case define_result s i n b2 of (b3, n') \<Rightarrow>
     (case define_slot i n' b3 of None \<Rightarrow> None | Some b4 \<Rightarrow>
       if b_failed b4 then None else Some (upd_f (\<lambda>f. f\<lparr>f_insts := f_insts f @ [n']\<rparr>) b4))))))"

fun append_all :: "IRInst list \<Rightarrow> Builder \<Rightarrow> Builder option" where
  "append_all [] b = Some b"
| "append_all (i # is) b = (case append_inst i b of None \<Rightarrow> None | Some b' \<Rightarrow> append_all is b')"

section \<open>Validation\<close>

text \<open>
  Definitions carry the position they are made at: \<open>0\<close> for an input, \<open>j + 1\<close> for instruction \<open>j\<close>. A use
  in instruction \<open>j\<close> wants a definition before it.
\<close>

definition define_value :: "nat \<Rightarrow> nat \<Rightarrow> nat option list \<Rightarrow> nat option list option" where
  "define_value v at defs =
     (if v = 0 \<or> v \<ge> length defs \<or> defs ! v \<noteq> None then None else Some (defs[v := Some at]))"

fun define_inputs :: "SSAFunction \<Rightarrow> (nat \<times> nat) list \<Rightarrow> nat option list \<Rightarrow> nat option list option" where
  "define_inputs f [] defs = Some defs"
| "define_inputs f ((v, var) # xs) defs =
     (if var < SSA_GPR \<or> var \<ge> SSA_FP + 32 then None
      else (case define_value v 0 defs of None \<Rightarrow> None
         | Some defs' \<Rightarrow> if f_variables f ! v \<noteq> var then None else define_inputs f xs defs'))"

text \<open>\<open>shape(inst.ir)\<close> must agree with what the node records.\<close>

definition contract_ok :: "SSAInstruction \<Rightarrow> bool" where
  "contract_ok n = (case shape (n_ir n) of None \<Rightarrow> False
     | Some s \<Rightarrow> n_mask n = sh_uses s \<and> n_effect n = sh_effect s \<and> (n_result n \<noteq> 0) = sh_result s)"

fun define_results :: "SSAInstruction list \<Rightarrow> nat \<Rightarrow> nat option list \<Rightarrow> nat option list option" where
  "define_results [] j defs = Some defs"
| "define_results (n # ns) j defs =
     (if \<not> contract_ok n then None
      else if n_result n \<noteq> 0 then
        (case define_value (n_result n) (j + 1) defs of None \<Rightarrow> None | Some defs' \<Rightarrow> define_results ns (j + 1) defs')
      else define_results ns (j + 1) defs)"

definition use_ok :: "nat option list \<Rightarrow> nat \<Rightarrow> nat \<Rightarrow> bool" where
  "use_ok defs j v = (v \<noteq> 0 \<and> v < length defs \<and> (case defs ! v of None \<Rightarrow> False | Some at \<Rightarrow> at < j + 1))"

fun uses_ok :: "nat option list \<Rightarrow> SSAInstruction list \<Rightarrow> nat \<Rightarrow> bool" where
  "uses_ok defs [] j = True"
| "uses_ok defs (n # ns) j = (list_all (use_ok defs j) (node_inputs n) \<and> uses_ok defs ns (j + 1))"

definition validate_ssa :: "SSAFunction \<Rightarrow> bool" where
  "validate_ssa f = (case define_inputs f (f_inputs f) (replicate (length (f_variables f)) None) of
       None \<Rightarrow> False
     | Some d \<Rightarrow> (case define_results (f_insts f) 0 d of None \<Rightarrow> False | Some d' \<Rightarrow> uses_ok d' (f_insts f) 0))"

definition build_ssa :: "IRInst list \<Rightarrow> SSAFunction option" where
  "build_ssa is = (case append_all is Builder_init of None \<Rightarrow> None
     | Some b \<Rightarrow> if b_failed b \<or> \<not> validate_ssa (b_f b) then None else Some (b_f b))"

end
