(* ===== verification/SsaPasses.thy ===== *)
theory SsaPasses
  imports Ssa
begin

text \<open>
  The passes over a straight-line block in SSA form and the way back (\<open>optimize_ssa\<close>, \<open>lower_ssa\<close> and
  \<open>optimize_ir_ssa\<close> of \<open>FrostJIT/IR/SSA/SSA.cpp\<close>).
\<close>

section \<open>Aliases\<close>

text \<open>
  \<open>resolve\<close> follows \<open>alias\<close> to a value that is its own alias and shortens the path. A path longer
  than the vector is a cycle, on which the code does not return.
\<close>

fun resolve_path :: "nat \<Rightarrow> nat \<Rightarrow> nat list \<Rightarrow> nat list \<times> nat" where
  "resolve_path 0 v a = (a, v)"
| "resolve_path (Suc n) v a =
     (if a ! v \<noteq> v then (case resolve_path n (a ! v) a of (a', r) \<Rightarrow> (a'[v := r], r)) else (a, v))"

definition resolve :: "nat \<Rightarrow> nat list \<Rightarrow> nat list \<times> nat" where
  "resolve v a = resolve_path (length a) v a"

section \<open>Copy propagation\<close>

fun copy_pass :: "SSAInstruction list \<Rightarrow> nat list \<Rightarrow> nat list \<times> bool" where
  "copy_pass [] a = (a, False)"
| "copy_pass (n # ns) a =
     (if i_op (n_ir n) = IR_MOV then
        (case resolve (n_result n) a of (a1, r) \<Rightarrow>
          if r = n_result n then
            (case resolve (n_inputs n ! 0) a1 of (a2, x) \<Rightarrow>
              (fst (copy_pass ns (a2[n_result n := x])), True))
          else copy_pass ns a1)
      else copy_pass ns a)"

text \<open>The passes are repeated while one changes something; each that does aliases another result.\<close>

fun copy_loop :: "nat \<Rightarrow> SSAInstruction list \<Rightarrow> nat list \<Rightarrow> nat list" where
  "copy_loop 0 ns a = a"
| "copy_loop (Suc k) ns a = (case copy_pass ns a of (a', changed) \<Rightarrow> if changed then copy_loop k ns a' else a')"

section \<open>Value numbering\<close>

type_synonym cse_key = "IROp \<times> u64 \<times> nat list"

fun resolve_inputs :: "u8 \<Rightarrow> nat list \<Rightarrow> nat list \<Rightarrow> nat list \<Rightarrow> nat list \<times> nat list" where
  "resolve_inputs m [] ins a = (a, ins)"
| "resolve_inputs m (k # ks) ins a =
     (if bit m k then (case resolve (ins ! k) a of (a1, r) \<Rightarrow> resolve_inputs m ks (ins[k := r]) a1)
      else resolve_inputs m ks ins a)"

definition number_node ::
    "SSAInstruction \<Rightarrow> (cse_key \<rightharpoonup> nat) \<Rightarrow> nat list \<Rightarrow> (cse_key \<rightharpoonup> nat) \<times> nat list" where
  "number_node n available a =
     (if n_result n = 0 \<or> n_effect n then (available, a)
      else (case resolve (n_result n) a of (a1, r) \<Rightarrow>
        if r \<noteq> n_result n then (available, a1)
        else (case cse_parameter (n_ir n) of None \<Rightarrow> (available, a1)
          | Some p \<Rightarrow>
              (let key = (i_op (n_ir n), p, n_inputs n) in
               case available key of
                 Some w \<Rightarrow> (case resolve w a1 of (a2, x) \<Rightarrow> (available, a2[n_result n := x]))
               | None \<Rightarrow> (available(key \<mapsto> n_result n), a1)))))"

fun number :: "SSAInstruction list \<Rightarrow> (cse_key \<rightharpoonup> nat) \<Rightarrow> nat list \<Rightarrow> SSAInstruction list \<times> nat list" where
  "number [] available a = ([], a)"
| "number (n # ns) available a =
     (case resolve_inputs (n_mask n) [0, 1, 2] (n_inputs n) a of (a1, ins) \<Rightarrow>
        (case number_node (n\<lparr>n_inputs := ins\<rparr>) available a1 of (available', a2) \<Rightarrow>
          (case number ns available' a2 of (ns', a3) \<Rightarrow> (n\<lparr>n_inputs := ins\<rparr> # ns', a3))))"

text \<open>From here on the aliases are only read; shortening their paths changes no answer.\<close>

definition root :: "nat list \<Rightarrow> nat \<Rightarrow> nat" where
  "root a v = snd (resolve v a)"

definition rename_inputs :: "nat list \<Rightarrow> SSAInstruction \<Rightarrow> SSAInstruction" where
  "rename_inputs a n = n\<lparr>n_inputs := snd (resolve_inputs (n_mask n) [0, 1, 2] (n_inputs n) a)\<rparr>"

section \<open>Dead code elimination\<close>

definition dependencies :: "nat list \<Rightarrow> SSAInstruction list \<Rightarrow> nat \<Rightarrow> nat list" where
  "dependencies a ns v =
     concat (map node_inputs (filter (\<lambda>n. n_result n = v \<and> v \<noteq> 0 \<and> root a v = v) ns))"

definition first_work :: "SSAInstruction list \<Rightarrow> nat list" where
  "first_work ns = rev (concat (map (\<lambda>n.
     if n_effect n then (if n_result n \<noteq> 0 then [n_result n] else []) @ node_inputs n else []) ns))"

text \<open>The stack of values to mark, its top first. A value outside of the vector is not marked.\<close>

function mark :: "(nat \<Rightarrow> nat list) \<Rightarrow> nat list \<Rightarrow> bool list \<Rightarrow> bool list" where
  "mark deps [] live = live"
| "mark deps (v # work) live =
     (if v \<ge> length live \<or> live ! v then mark deps work live
      else mark deps (rev (deps v) @ work) (live[v := True]))"
  by pat_completeness auto

termination
proof (relation "measures [\<lambda>(d, w, l). length (filter Not l), \<lambda>(d, w, l). length w]")
  show "wf (measures [\<lambda>(d, w, l). length (filter Not l), \<lambda>(d :: nat \<Rightarrow> nat list, w, l). length w])" by simp
next
  fix deps v work and live :: "bool list"
  assume "\<not> (v \<ge> length live \<or> live ! v)"
  then have v: "v < length live" "\<not> live ! v" by simp_all
  then have l: "live = take v live @ False # drop (Suc v) live" by (metis id_take_nth_drop)
  have "live[v := True] = take v live @ True # drop (Suc v) live" using v(1) by (simp add: upd_conv_take_nth_drop)
  then have "length (filter Not (live[v := True])) < length (filter Not live)"
    by (subst (2) l) simp
  then show "((deps, rev (deps v) @ work, live[v := True]), (deps, v # work, live)) \<in>
      measures [\<lambda>(d, w, l). length (filter Not l), \<lambda>(d, w, l). length w]"
    by simp
qed simp

definition kept_node :: "nat list \<Rightarrow> bool list \<Rightarrow> SSAInstruction \<Rightarrow> bool" where
  "kept_node a live n =
     (n_effect n \<or> (n_result n \<noteq> 0 \<and> root a (n_result n) = n_result n \<and> live ! n_result n))"

definition optimize_ssa :: "SSAFunction \<Rightarrow> SSAFunction" where
  "optimize_ssa f =
     (let n = length (f_variables f);
          a0 = copy_loop (Suc (length (f_insts f))) (f_insts f) [0..<n];
          (ns1, a) = number (f_insts f) Map.empty a0;
          ns2 = map (rename_inputs a) ns1;
          live = mark (dependencies a ns2) (first_work ns2) (replicate n False)
      in f\<lparr>f_insts := filter (kept_node a live) ns2, f_inputs := filter (\<lambda>x. live ! fst x) (f_inputs f)\<rparr>)"

section \<open>Lowering\<close>

record Lowering =
  l_homes :: "u16 list"
  l_next :: nat

definition home :: "nat \<Rightarrow> Lowering \<Rightarrow> Lowering \<times> u16" where
  "home v l =
     (let l' = (if l_homes l ! v = 0 \<and> l_next l < 4096
                then l\<lparr>l_homes := (l_homes l)[v := of_nat (l_next l)], l_next := l_next l + 1\<rparr> else l)
      in (l', l_homes l' ! v))"

fun constants :: "SSAInstruction list \<Rightarrow> (nat \<rightharpoonup> u64)" where
  "constants [] = Map.empty"
| "constants (n # ns) =
     (if i_op (n_ir n) = IR_IMM \<and> n_result n \<noteq> 0 \<and> constants ns (n_result n) = None
      then (constants ns)(n_result n \<mapsto> i_imm (n_ir n)) else constants ns)"

definition constant_uses :: "SSAInstruction list \<Rightarrow> nat \<Rightarrow> nat" where
  "constant_uses ns v = length (filter (\<lambda>w. w = v) (concat (map node_inputs ns)))"

definition fits_int32 :: "u64 \<Rightarrow> bool" where
  "fits_int32 v = (scast (ucast v :: u32) = v)"

definition rematerialize :: "SSAInstruction list \<Rightarrow> SSAInstruction \<Rightarrow> u64 option" where
  "rematerialize ns n =
     (if \<not> bit (n_mask n) 1 \<or> n_inputs n ! 0 = n_inputs n ! 1 then None
      else (case constants ns (n_inputs n ! 1) of None \<Rightarrow> None
        | Some c \<Rightarrow>
            if constant_uses ns (n_inputs n ! 1) < 2 then None
            else (case i_op (n_ir n) of
                Scalar p \<Rightarrow>
                  if p \<in> {IR_SHL, IR_SHR, IR_SAR, IR_ROR} then Some c
                  else if p \<in> {IR_ADD, IR_SUB, IR_AND, IR_OR, IR_XOR, IR_MUL} \<and> fits_int32 c then Some c
                  else None
              | _ \<Rightarrow> None)))"

text \<open>Where an input is loaded: right before the instruction that first reads it or overwrites its slot.\<close>

definition input_used :: "nat \<Rightarrow> nat \<Rightarrow> SSAInstruction \<Rightarrow> bool" where
  "input_used v var n = (v \<in> set (node_inputs n) \<or>
     i_op (n_ir n) = IR_STORE_REG \<and> slot_var (is_fp_store (n_ir n)) (i_dest (n_ir n)) = var)"

fun first_use :: "nat \<Rightarrow> nat \<Rightarrow> SSAInstruction list \<Rightarrow> nat \<Rightarrow> nat" where
  "first_use v var [] j = 0"
| "first_use v var (n # ns) j = (if input_used v var n then j else first_use v var ns (j + 1))"

fun before_constants :: "SSAInstruction list \<Rightarrow> nat \<Rightarrow> nat" where
  "before_constants ns 0 = 0"
| "before_constants ns (Suc j) = (if i_op (n_ir (ns ! j)) = IR_IMM then before_constants ns j else Suc j)"

definition load_input :: "SSAInstruction list \<Rightarrow> nat \<Rightarrow> nat \<Rightarrow> nat \<times> bool \<times> u16 \<times> u64" where
  "load_input ns v var =
     (let at = before_constants ns (first_use v var ns 0); fp = (var \<ge> SSA_FP)
      in (at, fp, of_nat (var - (if fp then SSA_FP else SSA_GPR)), if ns = [] then 0 else i_arm_pc (n_ir (ns ! at))))"

fun load_inputs :: "SSAInstruction list \<Rightarrow> (nat \<times> nat) list \<Rightarrow> Lowering \<Rightarrow> IRInst list list \<Rightarrow> Lowering \<times> IRInst list list" where
  "load_inputs ns [] l loads = (l, loads)"
| "load_inputs ns ((v, var) # xs) l loads =
     (case load_input ns v var of (at, fp, slot, pc) \<Rightarrow>
       (case home v l of (l', h) \<Rightarrow> load_inputs ns xs l' (loads[at := loads ! at @ [make_load_reg h slot fp pc]])))"

text \<open>One node: homes for its result and its operands in this order, a constant operand materialized again.\<close>

definition lower_result :: "SSAInstruction \<Rightarrow> Lowering \<times> IRInst \<Rightarrow> Lowering \<times> IRInst" where
  "lower_result n s = (case s of (l, i) \<Rightarrow>
     if n_result n \<noteq> 0 then (case home (n_result n) l of (l', h) \<Rightarrow> (l', i\<lparr>i_dest := h\<rparr>)) else (l, i))"

definition lower_src1 :: "SSAInstruction \<Rightarrow> Lowering \<times> IRInst \<Rightarrow> Lowering \<times> IRInst" where
  "lower_src1 n s = (case s of (l, i) \<Rightarrow>
     if bit (n_mask n) 0 then (case home (n_inputs n ! 0) l of (l', h) \<Rightarrow> (l', i\<lparr>i_src1 := h\<rparr>)) else (l, i))"

definition lower_src2 :: "SSAInstruction \<Rightarrow> Lowering \<times> IRInst \<Rightarrow> Lowering \<times> IRInst" where
  "lower_src2 n s = (case s of (l, i) \<Rightarrow>
     if bit (n_mask n) 1 then (case home (n_inputs n ! 1) l of (l', h) \<Rightarrow> (l', i\<lparr>i_src2 := h\<rparr>)) else (l, i))"

definition lower_aux :: "SSAInstruction \<Rightarrow> Lowering \<times> IRInst \<Rightarrow> Lowering \<times> IRInst" where
  "lower_aux n s = (case s of (l, i) \<Rightarrow>
     if bit (n_mask n) 2 then (case home (n_inputs n ! 2) l of (l', h) \<Rightarrow> (l', i\<lparr>i_aux := h\<rparr>)) else (l, i))"

definition lower_constant :: "u64 option \<Rightarrow> Lowering \<times> IRInst \<Rightarrow> (Lowering \<times> IRInst \<times> IRInst list) option" where
  "lower_constant c s = (case s of (l, i) \<Rightarrow>
     (case c of None \<Rightarrow> Some (l, i, [])
      | Some x \<Rightarrow>
          if l_next l \<ge> 4096 then None
          else (let h = of_nat (l_next l) in
            Some (l\<lparr>l_next := l_next l + 1\<rparr>, i\<lparr>i_src2 := h\<rparr>, [make_imm h x (i_arm_pc i)]))))"

definition lower_node :: "SSAInstruction list \<Rightarrow> SSAInstruction \<Rightarrow> Lowering \<Rightarrow> (Lowering \<times> IRInst list) option" where
  "lower_node ns n l =
     (case lower_constant (rematerialize ns n) (lower_src2 n (lower_src1 n (lower_result n (l, n_ir n)))) of
        None \<Rightarrow> None
      | Some (l', i, imm) \<Rightarrow> (case lower_aux n (l', i) of (l'', i') \<Rightarrow> Some (l'', imm @ [i'])))"

fun lower_nodes :: "SSAInstruction list \<Rightarrow> SSAInstruction list \<Rightarrow> IRInst list list \<Rightarrow> Lowering \<Rightarrow> (Lowering \<times> IRInst list) option" where
  "lower_nodes all [] loads l = Some (l, hd loads)"
| "lower_nodes all (n # ns) loads l =
     (case lower_node all n l of None \<Rightarrow> None
      | Some (l', out) \<Rightarrow>
          (case lower_nodes all ns (tl loads) l' of None \<Rightarrow> None
           | Some (l'', outs) \<Rightarrow> Some (l'', hd loads @ out @ outs)))"

definition lower_ssa :: "SSAFunction \<Rightarrow> IRInst list option" where
  "lower_ssa f =
     (if \<not> validate_ssa f then None
      else (case load_inputs (f_insts f) (f_inputs f)
               \<lparr>l_homes = replicate (length (f_variables f)) 0, l_next = 33\<rparr>
               (replicate (length (f_insts f) + 1) []) of (l, loads) \<Rightarrow>
        (case lower_nodes (f_insts f) (f_insts f) loads l of None \<Rightarrow> None
         | Some (l', out) \<Rightarrow> if l_next l' \<ge> 4096 then None else Some out)))"

section \<open>The pass\<close>

definition optimize_ir_ssa :: "IRInst list \<Rightarrow> IRInst list option" where
  "optimize_ir_ssa is =
     (if \<exists>i \<in> set is. i_op i = Helper IR_BRCOND_SKIP \<or> shape i = None then None
      else (case build_ssa is of None \<Rightarrow> None | Some f \<Rightarrow> lower_ssa (optimize_ssa f)))"

end
