(* ===== verification/SsaExec.thy ===== *)
theory SsaExec
  imports SsaPasses
begin

text \<open>
  What a block in SSA form computes, and what its validation guarantees: every value has one
  definition, before all of its uses, and every node keeps the contract of its opcode.
\<close>

section \<open>Running nodes\<close>

definition slot_value :: "nat \<Rightarrow> 'w guest \<Rightarrow> u64" where
  "slot_value var g = (if var \<ge> SSA_FP then g_fpr g (var - SSA_FP) else g_gpr g (var - SSA_GPR))"

definition node_shape :: "SSAInstruction \<Rightarrow> Shape" where
  "node_shape n = the (shape (n_ir n))"

definition run_node :: "'w ir_sem \<Rightarrow> SSAInstruction \<Rightarrow> (nat \<Rightarrow> u64) \<Rightarrow> 'w guest \<Rightarrow> u64 \<times> 'w guest \<times> bool" where
  "run_node sem n vals g = run_op sem (n_ir n) (node_shape n) (map vals (node_inputs n)) g"

definition set_result :: "SSAInstruction \<Rightarrow> u64 \<Rightarrow> (nat \<Rightarrow> u64) \<Rightarrow> nat \<Rightarrow> u64" where
  "set_result n x vals = (if n_result n \<noteq> 0 then vals(n_result n := x) else vals)"

fun exec_nodes :: "'w ir_sem \<Rightarrow> SSAInstruction list \<Rightarrow> (nat \<Rightarrow> u64) \<Rightarrow> 'w guest \<Rightarrow> 'w guest \<times> bool" where
  "exec_nodes sem [] vals g = (g, True)"
| "exec_nodes sem (n # ns) vals g =
     (case run_node sem n vals g of (x, g', on) \<Rightarrow>
        if on then exec_nodes sem ns (set_result n x vals) g' else (g', False))"

definition inputs_loaded :: "(nat \<times> nat) list \<Rightarrow> (nat \<Rightarrow> u64) \<Rightarrow> 'w guest \<Rightarrow> bool" where
  "inputs_loaded ins vals g \<longleftrightarrow> (\<forall>(v, var) \<in> set ins. vals v = slot_value var g)"

section \<open>Operands\<close>

lemma used_mask [simp]:
  "used 0 xs = []" "used 1 xs = [xs ! 0]" "used 3 xs = [xs ! 0, xs ! 1]" "used 7 xs = [xs ! 0, xs ! 1, xs ! 2]"
  by (simp_all add: used_def upt_rec numeral_2_eq_2)

lemma op_shape_mask: "op_shape p d = Some s \<Longrightarrow> sh_uses s \<in> {0, 1, 3, 7}"
  by (cases p) (auto split: if_splits)

lemma shape_mask: "shape i = Some s \<Longrightarrow> sh_uses s \<in> {0, 1, 3, 7}"
  using op_shape_mask by (auto simp: shape_def split: option.splits if_splits)

lemma shape_result: "shape i = Some s \<Longrightarrow> sh_result s \<Longrightarrow> i_dest i \<ge> 33"
  by (auto simp: shape_def split: option.splits if_splits)

text \<open>The uses and the effect depend on the opcode alone, and the result on whether there is a destination.\<close>

lemma op_shape_dest:
  assumes "op_shape p d = Some s" "(d = 0) = (d' = 0)"
  shows "op_shape p d' = Some s"
  using assms by (cases p) auto

lemma op_shape_uses: "op_shape p d = Some s \<Longrightarrow> op_shape p d' = Some s' \<Longrightarrow> sh_uses s' = sh_uses s \<and> sh_effect s' = sh_effect s"
  by (cases p) (auto split: if_splits)

lemma shape_same:
  assumes "shape i = Some s" "i_op i' = i_op i" "i_dest i' = i_dest i \<or> sh_result s \<and> i_dest i' \<ge> 33"
  shows "shape i' = Some s"
proof -
  have s: "op_shape (i_op i) (i_dest i) = Some s" "\<not> sh_result s \<or> i_dest i \<ge> 33"
    using assms(1) by (auto simp: shape_def split: option.splits if_splits)
  have nz: "d \<noteq> 0" if "33 \<le> (d :: u16)" for d using that by auto
  have "(i_dest i = 0) = (i_dest i' = 0)" using s(2) assms(3) nz by metis
  then have "op_shape (i_op i') (i_dest i') = Some s" using op_shape_dest [OF s(1)] assms(2) by simp
  then show ?thesis using s(2) assms(3) by (auto simp: shape_def)
qed

text \<open>
  The key of value numbering is fine enough: two operations with one opcode and one key mean the
  same, so one result serves both.
\<close>

lemma crc_key_inj:
  fixes v w :: u8
  assumes "(ucast v :: u64) OR push_bit 8 (if x then 1 else 0) = ucast w OR push_bit 8 (if y then 1 else 0)"
  shows "v = w \<and> x = y"
proof -
  have b: "bit ((ucast v :: u64) OR push_bit 8 (if x then 1 else 0)) n \<longleftrightarrow>
      n < 8 \<and> bit v n \<or> n = 8 \<and> x" for v :: u8 and x n
    by (auto simp: bit_or_iff bit_ucast_iff bit_push_bit_iff bit_1_iff dest: bit_imp_le_length)
  have "bit v n = bit w n" if "n < 8" for n using b [of v x n] b [of w y n] assms that by simp
  moreover have "x = y" using b [of v x 8] b [of w y 8] assms by simp
  ultimately show ?thesis by (auto intro: bit_word_eqI)
qed

lemma ucast_u8_inj: "(ucast (v :: u8) :: u64) = ucast (w :: u8) \<longleftrightarrow> v = w"
  using crc_key_inj [of v True w True] by auto

lemma crc_key_eq:
  "((ucast (v :: u8) :: u64) OR push_bit 8 (if x then 1 else 0) = ucast (w :: u8) OR push_bit 8 (if y then 1 else 0)) \<longleftrightarrow>
   v = w \<and> x = y"
  using crc_key_inj by blast

lemma cse_parameter_meaning:
  assumes "i_op i = i_op j" "i_op j \<noteq> IR_MOV" "cse_parameter i = Some p" "cse_parameter j = Some p"
  shows "ir_meaning i = ir_meaning j"
proof -
  obtain c where c: "i_op j = Scalar c" "i_op i = Scalar c"
    using assms by (cases "i_op j") (simp_all add: cse_parameter_def)
  have e: "cse_parameter i = cse_parameter j" "cse_parameter j \<noteq> None" using assms(3,4) by simp_all
  show ?thesis
    using e by (cases c) (simp_all add: c cse_parameter_def ir_meaning_def ucast_u8_inj crc_key_eq)
qed

lemma op_value_cse:
  assumes "i_op i = i_op j" "cse_parameter i = Some p" "cse_parameter j = Some p"
  shows "op_value sem i ins = op_value sem j ins"
proof (cases "i_op j = IR_MOV")
  case False
  have "i_op j \<noteq> IR_IMM" using assms(3) by (auto simp: cse_parameter_def)
  then show ?thesis using cse_parameter_meaning [OF assms(1) False assms(2,3)] assms(1) False
    by (cases "i_op j") (simp_all add: op_value_def)
qed (use assms(1) in \<open>simp add: op_value_def\<close>)

section \<open>Validation\<close>

definition results :: "SSAInstruction list \<Rightarrow> nat list" where
  "results ns = filter (\<lambda>v. v \<noteq> 0) (map n_result ns)"

lemma results_simps [simp]:
  "results [] = []" "results (n # ns) = (if n_result n \<noteq> 0 then n_result n # results ns else results ns)"
  "results (ns @ ms) = results ns @ results ms"
  by (simp_all add: results_def)

lemma in_results: "v \<in> set (results ns) \<longleftrightarrow> v \<noteq> 0 \<and> (\<exists>n \<in> set ns. n_result n = v)"
  by (auto simp: results_def)

text \<open>Each operand of a node is an input or the result of an earlier node.\<close>

fun uses_defined :: "nat set \<Rightarrow> SSAInstruction list \<Rightarrow> bool" where
  "uses_defined D [] = True"
| "uses_defined D (n # ns) = (set (node_inputs n) \<subseteq> D \<and> uses_defined (if n_result n \<noteq> 0 then insert (n_result n) D else D) ns)"

definition valid_form :: "SSAFunction \<Rightarrow> bool" where
  "valid_form f \<longleftrightarrow> distinct (map fst (f_inputs f) @ results (f_insts f)) \<and>
     (\<forall>n \<in> set (f_insts f). contract_ok n) \<and> uses_defined (fst ` set (f_inputs f)) (f_insts f) \<and>
     (\<forall>(v, var) \<in> set (f_inputs f). v \<noteq> 0 \<and> v < length (f_variables f) \<and> f_variables f ! v = var \<and>
        SSA_GPR \<le> var \<and> var < SSA_FP + 32) \<and>
     (\<forall>v \<in> set (results (f_insts f)). v < length (f_variables f))"

text \<open>Definitions made so far: where, and at which position.\<close>

definition defined_at :: "nat option list \<Rightarrow> nat \<Rightarrow> nat set" where
  "defined_at defs j = {v. v < length defs \<and> (\<exists>at. defs ! v = Some at \<and> at \<le> j)}"

lemma define_valueD:
  assumes "define_value v at defs = Some d"
  shows "v \<noteq> 0" "v < length defs" "defs ! v = None" "d = defs[v := Some at]"
  using assms by (auto simp: define_value_def split: if_splits)

lemma define_inputsD:
  assumes "define_inputs f xs defs = Some d"
  shows "length d = length defs \<and> distinct (map fst xs) \<and>
    (\<forall>(v, var) \<in> set xs. v \<noteq> 0 \<and> v < length defs \<and> defs ! v = None \<and> f_variables f ! v = var \<and> SSA_GPR \<le> var \<and> var < SSA_FP + 32) \<and>
    (\<forall>v < length defs. d ! v = (if v \<in> fst ` set xs then Some 0 else defs ! v))"
  using assms
proof (induction f xs defs arbitrary: d rule: define_inputs.induct)
  case (2 f v var xs defs)
  obtain e where e: "define_value v 0 defs = Some e" "f_variables f ! v = var" "define_inputs f xs e = Some d"
    "SSA_GPR \<le> var" "var < SSA_FP + 32"
    using "2.prems" by (auto split: if_splits option.splits)
  note D = define_valueD [OF e(1)]
  have "e ! v = Some 0" using D by simp
  then have "v \<notin> fst ` set xs"
    using "2.IH" [OF _ e(1) _ e(3)] e(2,4,5) by (auto simp: image_iff split: prod.splits)
  then show ?case using "2.IH" [OF _ e(1) _ e(3)] e(2,4,5) D
    by (fastforce simp: nth_list_update split: prod.splits if_splits)
qed simp

lemma define_resultsD:
  assumes "define_results ns j defs = Some d"
  shows "length d = length defs \<and> distinct (results ns) \<and> (\<forall>n \<in> set ns. contract_ok n) \<and>
    (\<forall>v \<in> set (results ns). v < length defs \<and> defs ! v = None) \<and>
    (\<forall>v < length defs. v \<notin> set (results ns) \<longrightarrow> d ! v = defs ! v) \<and>
    (\<forall>k < length ns. n_result (ns ! k) \<noteq> 0 \<longrightarrow> d ! n_result (ns ! k) = Some (j + k + 1))"
  using assms
proof (induction ns j defs arbitrary: d rule: define_results.induct)
  case (2 n ns j defs)
  show ?case
  proof (cases "n_result n = 0")
    case True
    then have "contract_ok n" "define_results ns (j + 1) defs = Some d" using "2.prems" by (auto split: if_splits)
    then show ?thesis using "2.IH"(2) [of d] True by (auto simp: nth_Cons split: nat.splits)
  next
    case False
    then obtain e where e: "contract_ok n" "define_value (n_result n) (j + 1) defs = Some e" "define_results ns (j + 1) e = Some d"
      using "2.prems" by (auto split: if_splits option.splits)
    note D = define_valueD [OF e(2)] and IH = "2.IH"(1) [OF _ False e(2,3)]
    show ?thesis using IH e(1) D False by (auto simp: nth_Cons nth_list_update split: nat.splits if_splits)
  qed
qed simp

lemma uses_defined_mono: "uses_defined D ns \<Longrightarrow> D \<subseteq> E \<Longrightarrow> uses_defined E ns"
  by (induction D ns arbitrary: E rule: uses_defined.induct) (auto simp: subset_insertI2 insert_mono)

lemma uses_okD:
  assumes "uses_ok d ns j" "\<forall>v < length d. v \<noteq> 0 \<and> (\<exists>at. d ! v = Some at \<and> at \<le> j) \<longrightarrow> v \<in> D"
    and "\<forall>v < length d. \<forall>at. d ! v = Some at \<and> j < at \<longrightarrow> (\<exists>k < length ns. n_result (ns ! k) = v \<and> at = j + k + 1)"
  shows "uses_defined D ns"
  using assms
proof (induction ns arbitrary: j D)
  case (Cons n ns)
  have "set (node_inputs n) \<subseteq> D"
    using Cons.prems(1,2) by (auto simp: list_all_iff use_ok_def split: option.splits)
  moreover have "uses_defined (if n_result n \<noteq> 0 then insert (n_result n) D else D) ns"
  proof (rule Cons.IH [of "j + 1"])
    show "uses_ok d ns (j + 1)" using Cons.prems(1) by simp
    show "\<forall>v < length d. v \<noteq> 0 \<and> (\<exists>at. d ! v = Some at \<and> at \<le> j + 1) \<longrightarrow> v \<in> (if n_result n \<noteq> 0 then insert (n_result n) D else D)"
    proof (intro allI impI)
      fix v assume v: "v < length d" "v \<noteq> 0 \<and> (\<exists>at. d ! v = Some at \<and> at \<le> j + 1)"
      then obtain at where at: "d ! v = Some at" "at \<le> j + 1" by blast
      show "v \<in> (if n_result n \<noteq> 0 then insert (n_result n) D else D)"
      proof (cases "at \<le> j")
        case True
        then show ?thesis using Cons.prems(2) v at(1) by auto
      next
        case False
        then obtain k where "k < length (n # ns)" "n_result ((n # ns) ! k) = v" "at = j + k + 1"
          using Cons.prems(3) v(1) at(1) by (meson not_le)
        then show ?thesis using at(2) v(2) by (cases k) auto
      qed
    qed
    show "\<forall>v < length d. \<forall>at. d ! v = Some at \<and> j + 1 < at \<longrightarrow> (\<exists>k < length ns. n_result (ns ! k) = v \<and> at = j + 1 + k + 1)"
    proof (intro allI impI)
      fix v at assume v: "v < length d" "d ! v = Some at \<and> j + 1 < at"
      then have "j < at" by simp
      then obtain k where "k < length (n # ns)" "n_result ((n # ns) ! k) = v" "at = j + k + 1"
        using Cons.prems(3) v by blast
      then show "\<exists>k < length ns. n_result (ns ! k) = v \<and> at = j + 1 + k + 1"
        using v(2) by (intro exI [of _ "k - 1"]) (cases k; simp)
    qed
  qed
  ultimately show ?case by simp
qed simp

lemma validate_ssa_form: "validate_ssa f \<Longrightarrow> valid_form f"
proof -
  assume "validate_ssa f"
  then obtain d d' where d: "define_inputs f (f_inputs f) (replicate (length (f_variables f)) None) = Some d"
    "define_results (f_insts f) 0 d = Some d'" "uses_ok d' (f_insts f) 0"
    by (auto simp: validate_ssa_def split: option.splits)
  note I = define_inputsD [OF d(1)] and R = define_resultsD [OF d(2)]
  have len: "length d = length (f_variables f)" "length d' = length d" using I R by simp_all
  have dv: "d ! v = (if v \<in> fst ` set (f_inputs f) then Some 0 else None)" if "v < length d" for v
    using I that len by simp
  have new: "v \<notin> fst ` set (f_inputs f)" if "v \<in> set (results (f_insts f))" for v
  proof -
    have "v < length d" "d ! v = None" using R that by simp_all
    then show ?thesis using dv [of v] by (simp split: if_splits)
  qed
  have position: "\<exists>k < length (f_insts f). n_result (f_insts f ! k) = v \<and> d' ! v = Some (0 + k + 1)"
    if v: "v \<in> set (results (f_insts f))" for v
  proof -
    obtain n where "n \<in> set (f_insts f)" "n_result n = v" "v \<noteq> 0" using v unfolding in_results by blast
    then obtain k where k: "k < length (f_insts f)" "n_result (f_insts f ! k) = v" "v \<noteq> 0"
      by (auto simp: in_set_conv_nth)
    then show ?thesis using R by auto
  qed
  have "uses_defined (fst ` set (f_inputs f)) (f_insts f)"
  proof (rule uses_okD [OF d(3)])
    show "\<forall>v < length d'. v \<noteq> 0 \<and> (\<exists>at. d' ! v = Some at \<and> at \<le> 0) \<longrightarrow> v \<in> fst ` set (f_inputs f)"
    proof (intro allI impI)
      fix v assume v: "v < length d'" "v \<noteq> 0 \<and> (\<exists>at. d' ! v = Some at \<and> at \<le> 0)"
      then have "v \<notin> set (results (f_insts f))" using position [of v] by auto
      then have "d ! v = Some 0" using R v len by auto
      then show "v \<in> fst ` set (f_inputs f)" using dv [of v] v(1) len by (auto split: if_splits)
    qed
    show "\<forall>v < length d'. \<forall>at. d' ! v = Some at \<and> 0 < at \<longrightarrow> (\<exists>k < length (f_insts f). n_result (f_insts f ! k) = v \<and> at = 0 + k + 1)"
    proof (intro allI impI)
      fix v at assume v: "v < length d'" "d' ! v = Some at \<and> 0 < at"
      have "v \<in> set (results (f_insts f))"
      proof (rule ccontr)
        assume "v \<notin> set (results (f_insts f))"
        then have "d' ! v = d ! v" using R v(1) len by simp
        then show False using dv [of v] v len by (auto split: if_splits)
      qed
      then show "\<exists>k < length (f_insts f). n_result (f_insts f ! k) = v \<and> at = 0 + k + 1" using position v(2) by fastforce
    qed
  qed
  moreover have "distinct (map fst (f_inputs f) @ results (f_insts f))" using I R new by auto
  moreover have "\<forall>(v, var) \<in> set (f_inputs f). v \<noteq> 0 \<and> v < length (f_variables f) \<and> f_variables f ! v = var \<and>
      SSA_GPR \<le> var \<and> var < SSA_FP + 32"
    using I by auto
  moreover have "\<forall>v \<in> set (results (f_insts f)). v < length (f_variables f)" using R len by simp
  ultimately show ?thesis unfolding valid_form_def using R by blast
qed

end
