(* ===== verification/SsaAlias.thy ===== *)
theory SsaAlias
  imports SsaExec
begin

text \<open>
  The alias table as a forest: \<open>resolve\<close> finds the root of a value, shortening paths changes no root,
  and redirecting a root changes the roots of its tree. Copy propagation and value numbering only
  redirect a result to a value that is equal to it wherever both are defined.
\<close>

section \<open>Roots\<close>

function root_of :: "nat list \<Rightarrow> nat \<Rightarrow> nat" where
  "root_of a v = (if a ! v < v then root_of a (a ! v) else v)"
  by pat_completeness auto
termination by (relation "measure snd") auto

declare root_of.simps [simp del]

text \<open>Every value is its own alias or that of an older one.\<close>

definition downward :: "nat list \<Rightarrow> bool" where
  "downward a \<longleftrightarrow> (\<forall>v < length a. a ! v \<le> v)"

lemma root_of_le: "root_of a v \<le> v"
proof (induction v rule: less_induct)
  case (less v)
  then show ?case by (subst root_of.simps) (auto intro: order_trans less_imp_le)
qed

lemma root_of_root: "a ! root_of a v = root_of a v \<or> a ! root_of a v > root_of a v"
proof (induction v rule: less_induct)
  case (less v)
  then show ?case by (subst (1 2 3 4) root_of.simps) auto
qed

lemma root_of_idem [simp]: "root_of a (root_of a v) = root_of a v"
  using root_of_root [of a v] by (subst root_of.simps) auto

lemma root_of_self: "\<not> a ! v < v \<Longrightarrow> root_of a v = v"
  by (subst root_of.simps) simp

lemma root_of_step: "root_of a (a ! v) = root_of a v" if "a ! v \<le> v"
  using that by (cases "a ! v = v") (simp_all add: root_of.simps [of a v])

lemma root_of_fix: "downward a \<Longrightarrow> v < length a \<Longrightarrow> a ! root_of a v = root_of a v"
  using root_of_root [of a v] root_of_le [of a v] by (auto simp: downward_def dest!: spec [of _ "root_of a v"])

text \<open>Redirecting a root, or any value to its root.\<close>

lemma root_of_redirect:
  assumes "root_of a v = v" "root_of a x = x" "x < v" "v < length a"
  shows "root_of (a[v := x]) w = (if root_of a w = v then x else root_of a w)"
proof (induction w rule: less_induct)
  case (less w)
  have x: "root_of (a[v := x]) x = x"
  proof -
    have "\<not> a ! x < x"
    proof
      assume "a ! x < x"
      moreover from this have "root_of a (a ! x) = x" using assms(2) by (simp add: root_of.simps [of a x])
      ultimately show False using root_of_le [of a "a ! x"] by simp
    qed
    then show ?thesis using assms(3) by (intro root_of_self) simp
  qed
  show ?case
  proof (cases "w = v")
    case True
    then show ?thesis using assms x by (subst root_of.simps) simp
  next
    case False
    then have n: "a[v := x] ! w = a ! w" by simp
    show ?thesis
    proof (cases "a ! w < w")
      case True
      then show ?thesis using less [OF True] n by (subst root_of.simps) (simp add: root_of.simps [of a w])
    next
      case F: False
      then show ?thesis using n False by (simp add: root_of_self)
    qed
  qed
qed

lemma root_of_shorten:
  assumes "downward a" "v < length a" "root_of a v \<noteq> v"
  shows "root_of (a[v := root_of a v]) w = root_of a w"
proof (induction w rule: less_induct)
  case (less w)
  have le: "root_of a v < v" using root_of_le [of a v] assms(3) by simp
  show ?case
  proof (cases "w = v")
    case True
    then show ?thesis using assms le less [OF le [folded True]] by (subst root_of.simps) simp
  next
    case False
    then have n: "a[v := root_of a v] ! w = a ! w" by simp
    show ?thesis
      using less [of "a ! w"] n by (cases "a ! w < w") (simp_all add: root_of.simps [of _ w])
  qed
qed

lemma downward_update: "downward a \<Longrightarrow> x \<le> v \<Longrightarrow> downward (a[v := x])"
proof (cases "v < length a")
  case False
  then show "downward a \<Longrightarrow> downward (a[v := x])" by (simp add: list_update_beyond)
qed (auto simp: downward_def nth_list_update)

text \<open>What \<open>resolve\<close> returns and what it leaves.\<close>

definition same_roots :: "nat list \<Rightarrow> nat list \<Rightarrow> bool" where
  "same_roots a a' \<longleftrightarrow> downward a' \<and> length a' = length a \<and> root_of a' = root_of a"

lemma resolve_path_root:
  assumes "downward a" "v < length a" "v < n"
  shows "\<exists>a'. resolve_path n v a = (a', root_of a v) \<and> same_roots a a'"
  using assms
proof (induction n v a rule: resolve_path.induct)
  case (2 n v a)
  show ?case
  proof (cases "a ! v = v")
    case True
    then show ?thesis using "2.prems" by (auto simp: same_roots_def root_of_self)
  next
    case False
    then have lt: "a ! v < v" using "2.prems" by (auto simp: downward_def le_neq_implies_less)
    then obtain a' where a': "resolve_path n (a ! v) a = (a', root_of a (a ! v))" "same_roots a a'"
      using "2.IH" [OF False "2.prems"(1)] "2.prems"(2,3) by auto
    have r: "root_of a (a ! v) = root_of a v" using lt by (simp add: root_of_step)
    have "root_of a v < v" using root_of_le [of a "a ! v"] lt r by simp
    then have "same_roots a (a'[v := root_of a v])"
      using a'(2) root_of_shorten [of a' v] "2.prems"(2) downward_update [of a' "root_of a v" v]
      by (auto simp: same_roots_def fun_eq_iff)
    then show ?thesis using False a'(1) r by simp
  qed
qed simp

lemma resolve_root:
  assumes "downward a" "v < length a"
  shows "\<exists>a'. resolve v a = (a', root_of a v) \<and> same_roots a a'"
  using resolve_path_root [OF assms, of "length a"] assms(2) by (simp add: resolve_def)

lemma root_root_of: "downward a \<Longrightarrow> v < length a \<Longrightarrow> root a v = root_of a v"
  using resolve_root [of a v] by (auto simp: root_def)

end
