(* ===== verification/SsaOptProps.thy ===== *)
theory SsaOptProps
  imports SsaAlias
begin

text \<open>
  The passes of \<open>optimize_ssa\<close> preserve what a block does to the guest. The aliases are justified:
  a redirected result is a copy, or the same operation on equal inputs stands before it. What dead code
  elimination drops has no effect and no live result.
\<close>

section \<open>Blocks as the builder leaves them\<close>

definition ordered_form :: "SSAFunction \<Rightarrow> bool" where
  "ordered_form f \<longleftrightarrow> sorted_wrt (<) (results (f_insts f)) \<and>
     (\<forall>n \<in> set (f_insts f). length (n_inputs n) = 3 \<and> i_op (n_ir n) \<noteq> IR_LOAD_REG \<and>
        (n_result n \<noteq> 0 \<longrightarrow> (\<forall>v \<in> set (node_inputs n). v < n_result n)))"

lemma contract_shape: "contract_ok n \<Longrightarrow> shape (n_ir n) = Some (node_shape n)"
  by (auto simp: contract_ok_def node_shape_def split: option.splits)

lemma contract_mask: "contract_ok n \<Longrightarrow> n_mask n = sh_uses (node_shape n) \<and> n_effect n = sh_effect (node_shape n) \<and>
    (n_result n \<noteq> 0) = sh_result (node_shape n) \<and> n_mask n \<in> {0, 1, 3, 7}"
proof -
  assume c: "contract_ok n"
  note s = contract_shape [OF c]
  show ?thesis using c shape_mask [OF s] by (simp add: contract_ok_def s)
qed

lemma contract_uses:
  assumes "contract_ok n" "contract_ok m" "i_op (n_ir n) = i_op (n_ir m)"
  shows "n_mask n = n_mask m" "n_effect n = n_effect m"
proof -
  have "op_shape (i_op (n_ir n)) (i_dest (n_ir n)) = Some (node_shape n)"
    "op_shape (i_op (n_ir m)) (i_dest (n_ir m)) = Some (node_shape m)"
    using assms(1,2) [THEN contract_shape] by (auto simp: shape_def split: option.splits if_splits)
  then show "n_mask n = n_mask m" "n_effect n = n_effect m"
    using op_shape_uses assms(3) assms(1,2) [THEN contract_mask] by metis+
qed

lemma contract_mov: "contract_ok n \<Longrightarrow> i_op (n_ir n) = IR_MOV \<Longrightarrow> n_mask n = 1 \<and> \<not> n_effect n \<and> node_inputs n = [n_inputs n ! 0]"
  by (auto simp: contract_ok_def shape_def node_inputs_def split: option.splits if_splits)

section \<open>Justified aliases\<close>

definition same_operation :: "(nat \<Rightarrow> nat) \<Rightarrow> SSAInstruction \<Rightarrow> SSAInstruction \<Rightarrow> bool" where
  "same_operation R k n \<longleftrightarrow> n_result k \<noteq> 0 \<and> \<not> n_effect k \<and> \<not> n_effect n \<and> i_op (n_ir k) = i_op (n_ir n) \<and>
     cse_parameter (n_ir n) \<noteq> None \<and> cse_parameter (n_ir k) = cse_parameter (n_ir n) \<and>
     map R (node_inputs k) = map R (node_inputs n)"

definition justified :: "(nat \<Rightarrow> nat) \<Rightarrow> SSAInstruction list \<Rightarrow> SSAInstruction \<Rightarrow> bool" where
  "justified R pre n \<longleftrightarrow> R (n_result n) = n_result n \<or>
     i_op (n_ir n) = IR_MOV \<and> R (n_result n) = R (n_inputs n ! 0) \<or>
     (\<exists>k \<in> set pre. same_operation R k n \<and> R (n_result n) = R (n_result k))"

definition redirected :: "(nat \<Rightarrow> nat) \<Rightarrow> nat \<Rightarrow> nat \<Rightarrow> nat \<Rightarrow> nat" where
  "redirected R v x w = (if R w = v then x else R w)"

lemma map_redirected: "map R xs = map R ys \<Longrightarrow> map (redirected R v x) xs = map (redirected R v x) ys"
proof -
  assume e: "map R xs = map R ys"
  have "map (redirected R v x) zs = map (\<lambda>w. if w = v then x else w) (map R zs)" for zs
    by (simp add: redirected_def)
  then show ?thesis using e by presburger
qed

lemma same_operation_redirected: "same_operation R k n \<Longrightarrow> same_operation (redirected R v x) k n"
  unfolding same_operation_def using map_redirected by blast

lemma justified_redirected: "justified R pre n \<Longrightarrow> n_result n \<noteq> v \<Longrightarrow> justified (redirected R v x) pre n"
  using same_operation_redirected by (fastforce simp: justified_def redirected_def)

definition aliases_ok :: "SSAFunction \<Rightarrow> nat list \<Rightarrow> bool" where
  "aliases_ok f a \<longleftrightarrow> downward a \<and> length a = length (f_variables f) \<and>
     (\<forall>v < length a. root_of a v \<noteq> v \<longrightarrow> v \<in> set (results (f_insts f))) \<and>
     (\<forall>pre n post. f_insts f = pre @ n # post \<longrightarrow> justified (root_of a) pre n)"

lemma aliases_same_roots: "aliases_ok f a \<Longrightarrow> same_roots a a' \<Longrightarrow> aliases_ok f a'"
  by (simp add: aliases_ok_def same_roots_def)

lemma root_redirected:
  assumes "root_of a v = v" "root_of a x = x" "x < v" "v < length a"
  shows "root_of (a[v := x]) = redirected (root_of a) v x"
  using root_of_redirect [OF assms] by (auto simp: redirected_def)

text \<open>Results are unique, so a node is known by its result.\<close>

lemma result_position:
  assumes "distinct (results ns)" "ns = pre @ n # post" "ns = pre' @ n' # post'" "n_result n = n_result n'" "n_result n \<noteq> 0"
  shows "pre = pre' \<and> n = n' \<and> post = post'"
proof -
  have "\<not> length pre < length pre'" if "ns = pre @ n # post" "ns = pre' @ n' # post'" "n_result n = n_result n'" "n_result n \<noteq> 0"
    for pre n post pre' n' post'
  proof
    assume l: "length pre < length pre'"
    have "n \<in> set pre'"
    proof -
      have "pre' ! length pre = ns ! length pre" using that(2) l by (simp add: nth_append)
      then show ?thesis using that(1) l by (metis nth_append_length nth_mem)
    qed
    then have "n_result n \<in> set (results pre')" using that(4) by (auto simp: in_results)
    then show False using assms(1) that(2-4) by auto
  qed
  then have "length pre = length pre'" using assms(2-5) by (metis linorder_neqE_nat)
  then show ?thesis using assms(2,3) by simp
qed

lemma aliases_redirect:
  assumes "aliases_ok f a" "distinct (results (f_insts f))" "f_insts f = pre @ n # post"
    and "n_result n \<noteq> 0" "n_result n < length (f_variables f)" "root_of a (n_result n) = n_result n"
    and "root_of a x = x" "x < n_result n"
    and "i_op (n_ir n) = IR_MOV \<and> x = root_of a (n_inputs n ! 0) \<or>
      (\<exists>k \<in> set pre. same_operation (root_of a) k n \<and> x = root_of a (n_result k))"
  shows "aliases_ok f (a[n_result n := x])"
proof -
  let ?v = "n_result n" and ?R = "root_of a"
  have len: "?v < length a" using assms(1,5) by (simp add: aliases_ok_def)
  note R = root_redirected [OF assms(6,7,8) len]
  have "downward (a[?v := x])" using assms(1,8) by (simp add: aliases_ok_def downward_update)
  moreover have "w \<in> set (results (f_insts f))" if w: "redirected ?R ?v x w \<noteq> w" "w < length a" for w
  proof (cases "?R w = w")
    case True
    then have "w = ?v" using w(1) by (simp add: redirected_def split: if_splits)
    then show ?thesis using assms(3,4) by (simp add: in_results)
  next
    case False
    then show ?thesis using assms(1) w(2) by (simp add: aliases_ok_def)
  qed
  moreover have "justified (redirected ?R ?v x) pre' m" if m: "f_insts f = pre' @ m # post'" for pre' m post'
  proof (cases "n_result m = ?v")
    case True
    then have "pre' = pre" "m = n" using result_position [OF assms(2) m assms(3)] assms(4) by auto
    moreover have "redirected ?R ?v x ?v = x" by (simp add: redirected_def assms(6))
    moreover have "redirected ?R ?v x w = x" if "?R w = x" for w using that assms(8) by (simp add: redirected_def)
    ultimately show ?thesis
      using assms(9) same_operation_redirected unfolding justified_def by metis
  next
    case False
    then show ?thesis using assms(1) m justified_redirected by (simp add: aliases_ok_def)
  qed
  ultimately show ?thesis using assms(1) by (simp add: aliases_ok_def R)
qed

section \<open>Copy propagation\<close>

text \<open>What the passes may assume of a block.\<close>

definition ssa_block :: "SSAFunction \<Rightarrow> bool" where
  "ssa_block f \<longleftrightarrow> valid_form f \<and> ordered_form f"

lemma ssa_block_node:
  assumes "ssa_block f" "n \<in> set (f_insts f)"
  shows "contract_ok n" "length (n_inputs n) = 3" "n_result n \<noteq> 0 \<Longrightarrow> n_result n < length (f_variables f)"
    and "n_result n \<noteq> 0 \<Longrightarrow> \<forall>v \<in> set (node_inputs n). v < n_result n"
proof -
  have v: "valid_form f" and o: "ordered_form f" using assms(1) by (simp_all add: ssa_block_def)
  show "contract_ok n" using v assms(2) by (simp add: valid_form_def)
  show "length (n_inputs n) = 3" "n_result n \<noteq> 0 \<Longrightarrow> \<forall>v \<in> set (node_inputs n). v < n_result n"
    using o assms(2) by (simp_all add: ordered_form_def)
  show "n_result n < length (f_variables f)" if "n_result n \<noteq> 0"
  proof -
    have "n_result n \<in> set (results (f_insts f))" using that assms(2) by (auto simp: in_results)
    then show ?thesis using v unfolding valid_form_def by blast
  qed
qed

lemma uses_defined_in:
  "uses_defined D ns \<Longrightarrow> n \<in> set ns \<Longrightarrow> v \<in> set (node_inputs n) \<Longrightarrow> v \<in> D \<or> v \<in> set (results ns)"
  by (induction D ns rule: uses_defined.induct) (auto split: if_splits)

lemma ssa_block_inputs:
  assumes "ssa_block f" "n \<in> set (f_insts f)" "v \<in> set (node_inputs n)"
  shows "v < length (f_variables f)"
proof -
  have "v \<in> fst ` set (f_inputs f) \<or> v \<in> set (results (f_insts f))"
    using assms uses_defined_in [of "fst ` set (f_inputs f)" "f_insts f" n v] by (simp add: ssa_block_def valid_form_def)
  then show ?thesis using assms(1) by (auto simp: ssa_block_def valid_form_def)
qed

lemma aliases_init:
  assumes "ssa_block f"
  shows "aliases_ok f [0..<length (f_variables f)]"
proof -
  let ?a = "[0..<length (f_variables f)]"
  have r: "root_of ?a v = v" if "v < length (f_variables f)" for v
    using that by (intro root_of_self) simp
  have z: "root_of ?a 0 = 0" by (intro root_of_self) simp
  have "justified (root_of ?a) pre n" if "f_insts f = pre @ n # post" for pre n post
    using ssa_block_node(3) [OF assms, of n] that r z by (cases "n_result n = 0") (simp_all add: justified_def)
  then show ?thesis using r by (simp add: aliases_ok_def downward_def)
qed

section \<open>Copy propagation\<close>

lemma copy_pass_ok:
  assumes "ssa_block f" "aliases_ok f a" "set ns \<subseteq> set (f_insts f)"
  shows "aliases_ok f (fst (copy_pass ns a))"
  using assms(2,3)
proof (induction ns a rule: copy_pass.induct)
  case (2 n ns a)
  show ?case
  proof (cases "i_op (n_ir n) = IR_MOV")
    case False
    then show ?thesis using 2 by simp
  next
    case mov: True
    have n: "n \<in> set (f_insts f)" using "2.prems"(2) by simp
    note node = ssa_block_node [OF assms(1) n]
    have c: "n_mask n = 1" "node_inputs n = [n_inputs n ! 0]" "\<not> n_effect n"
      using contract_mov [OF node(1) mov] by simp_all
    have nz: "n_result n \<noteq> 0" using node(1) mov by (auto simp: contract_ok_def shape_def split: option.splits if_splits)
    have len: "length a = length (f_variables f)" "downward a" using "2.prems"(1) by (simp_all add: aliases_ok_def)
    have v: "n_result n < length a" using node(3) nz len by simp
    have i: "n_inputs n ! 0 < n_result n" using node(4) [OF nz] c(2) by simp
    obtain a1 where a1: "resolve (n_result n) a = (a1, root_of a (n_result n))" "same_roots a a1"
      using resolve_root [OF len(2) v] by blast
    have ok1: "aliases_ok f a1" by (rule aliases_same_roots [OF "2.prems"(1) a1(2)])
    have len1: "length a1 = length a" "downward a1" "root_of a1 = root_of a" using a1(2) by (simp_all add: same_roots_def)
    show ?thesis
    proof (cases "root_of a (n_result n) = n_result n")
      case False
      then show ?thesis using "2.IH"(2) [OF mov a1(1) [symmetric] False ok1] mov a1(1) "2.prems"(2) by simp
    next
      case root: True
      obtain a2 where a2: "resolve (n_inputs n ! 0) a1 = (a2, root_of a1 (n_inputs n ! 0))" "same_roots a1 a2"
        using resolve_root [of a1 "n_inputs n ! 0"] len1 i v by auto
      have ok2: "aliases_ok f a2" by (rule aliases_same_roots [OF ok1 a2(2)])
      have r2: "root_of a2 = root_of a" using a2(2) len1 by (simp add: same_roots_def)
      obtain pre post where split: "f_insts f = pre @ n # post" using n by (metis split_list)
      have "root_of a (n_inputs n ! 0) < n_result n" using root_of_le [of a "n_inputs n ! 0"] i by simp
      then have "aliases_ok f (a2[n_result n := root_of a (n_inputs n ! 0)])"
        using aliases_redirect [OF ok2 _ split nz node(3) [OF nz]] mov root assms(1) r2
        by (simp add: ssa_block_def valid_form_def)
      then show ?thesis using "2.IH"(1) mov a1(1) a2(1) root "2.prems"(2) len1 by simp
    qed
  qed
qed simp

lemma copy_loop_ok:
  assumes "ssa_block f" "aliases_ok f a"
  shows "aliases_ok f (copy_loop k (f_insts f) a)"
  using assms(2)
proof (induction k arbitrary: a)
  case (Suc k)
  obtain a' c where p: "copy_pass (f_insts f) a = (a', c)" by fastforce
  have "aliases_ok f a'" using copy_pass_ok [OF assms(1) Suc.prems subset_refl] p by simp
  then show ?case using Suc.IH p by simp
qed simp

section \<open>Value numbering\<close>

lemma resolve_inputs_roots:
  assumes "downward a" "\<forall>k \<in> set ks. bit m k \<longrightarrow> ins ! k < length a" "distinct ks" "\<forall>k \<in> set ks. k < length ins"
  shows "\<exists>a' ins'. resolve_inputs m ks ins a = (a', ins') \<and> same_roots a a' \<and> length ins' = length ins \<and>
    (\<forall>k < length ins. ins' ! k = (if k \<in> set ks \<and> bit m k then root_of a (ins ! k) else ins ! k))"
  using assms
proof (induction m ks ins a rule: resolve_inputs.induct)
  case (2 m k ks ins a)
  show ?case
  proof (cases "bit m k")
    case False
    then obtain a' ins' where "resolve_inputs m ks ins a = (a', ins')" "same_roots a a'" "length ins' = length ins"
      "\<forall>j < length ins. ins' ! j = (if j \<in> set ks \<and> bit m j then root_of a (ins ! j) else ins ! j)"
      using "2.IH"(2) [OF False "2.prems"(1)] "2.prems" by auto
    then show ?thesis using False by auto
  next
    case True
    obtain a1 where a1: "resolve (ins ! k) a = (a1, root_of a (ins ! k))" "same_roots a a1"
      using resolve_root [OF "2.prems"(1)] "2.prems"(2) True by auto
    have p: "downward a1" "\<forall>j \<in> set ks. bit m j \<longrightarrow> ins[k := root_of a (ins ! k)] ! j < length a1" "distinct ks"
      "\<forall>j \<in> set ks. j < length (ins[k := root_of a (ins ! k)])"
    proof -
      have "ins[k := root_of a (ins ! k)] ! j = ins ! j" if "j \<in> set ks" for j
        using that "2.prems"(3) by (metis distinct.simps(2) nth_list_update_neq)
      then show "\<forall>j \<in> set ks. bit m j \<longrightarrow> ins[k := root_of a (ins ! k)] ! j < length a1"
        using a1(2) "2.prems"(2) by (simp add: same_roots_def)
    qed (use a1(2) "2.prems" in \<open>simp_all add: same_roots_def\<close>)
    obtain a' ins' where r: "resolve_inputs m ks (ins[k := root_of a (ins ! k)]) a1 = (a', ins')" "same_roots a1 a'"
      "length ins' = length ins"
      "\<forall>j < length ins. ins' ! j = (if j \<in> set ks \<and> bit m j then root_of a1 (ins[k := root_of a (ins ! k)] ! j)
         else ins[k := root_of a (ins ! k)] ! j)"
      using "2.IH"(1) [OF True a1(1) [symmetric] p] by auto
    then show ?thesis using True a1 "2.prems"(3,4) by (auto simp: same_roots_def nth_list_update)
  qed
qed (simp add: same_roots_def)

text \<open>A node with other names for equal inputs.\<close>

definition renamed :: "(nat \<Rightarrow> nat) \<Rightarrow> SSAInstruction \<Rightarrow> SSAInstruction \<Rightarrow> bool" where
  "renamed R n n' \<longleftrightarrow> n' = n\<lparr>n_inputs := n_inputs n'\<rparr> \<and> length (n_inputs n') = length (n_inputs n) \<and>
     map R (node_inputs n') = map R (node_inputs n) \<and> (\<forall>v \<in> set (node_inputs n'). \<exists>w \<in> set (node_inputs n). v \<le> w)"

lemma renamed_same: "renamed R n n' \<Longrightarrow> n_ir n' = n_ir n \<and> n_result n' = n_result n \<and> n_mask n' = n_mask n \<and>
    n_effect n' = n_effect n"
  unfolding renamed_def by (metis SSAInstruction.select_convs(1,2,4,5) SSAInstruction.surjective SSAInstruction.update_convs(3))

lemma renamed_redirected: "renamed R n n' \<Longrightarrow> renamed (redirected R v x) n n'"
  unfolding renamed_def using map_redirected by blast

lemma used_map:
  assumes "m \<in> {0, 1, 3, 7}" "length xs = 3" "length ys = 3" "\<forall>k < 3. bit m k \<longrightarrow> R (xs ! k) = S (ys ! k)"
  shows "map R (used m xs) = map S (used m ys)"
  using assms by (auto simp: used_def)

lemma node_resolved:
  assumes "ssa_block f" "n \<in> set (f_insts f)" "n' = n\<lparr>n_inputs := ins\<rparr>" "length ins = 3" "downward a"
    and "length a = length (f_variables f)" "\<forall>v \<in> set (node_inputs n'). v < length a"
  shows "\<exists>a' ins'. resolve_inputs (n_mask n) [0, 1, 2] ins a = (a', ins') \<and> same_roots a a' \<and> length ins' = 3 \<and>
    used (n_mask n) ins' = map (root_of a) (node_inputs n')"
proof -
  have m: "n_mask n \<in> {0, 1, 3, 7}" using contract_mask [OF ssa_block_node(1) [OF assms(1,2)]] by blast
  have lt: "\<forall>k \<in> set [0, 1, 2]. bit (n_mask n) k \<longrightarrow> ins ! k < length a"
    using assms(3,7) by (auto simp: node_inputs_def used_def)
  obtain a' ins' where r: "resolve_inputs (n_mask n) [0, 1, 2] ins a = (a', ins')" "same_roots a a'" "length ins' = length ins"
    "\<forall>k < length ins. ins' ! k = (if k \<in> set [0, 1, 2] \<and> bit (n_mask n) k then root_of a (ins ! k) else ins ! k)"
    using resolve_inputs_roots [OF assms(5) lt] assms(4) by auto
  have "map (\<lambda>v. v) (used (n_mask n) ins') = map (root_of a) (used (n_mask n) ins)"
    by (rule used_map [OF m]) (use r(3,4) assms(4) in auto)
  then show ?thesis using r(1-3) assms(3,4) by (simp add: node_inputs_def)
qed

text \<open>Each entry of the table is an operation that stands before, on inputs with the same roots.\<close>

definition table_ok :: "(nat \<Rightarrow> nat) \<Rightarrow> SSAInstruction list \<Rightarrow> (cse_key \<rightharpoonup> nat) \<Rightarrow> bool" where
  "table_ok R pre available \<longleftrightarrow> (\<forall>p x ins w. available (p, x, ins) = Some w \<longrightarrow>
     (\<exists>k \<in> set pre. n_result k = w \<and> w \<noteq> 0 \<and> \<not> n_effect k \<and> i_op (n_ir k) = p \<and> cse_parameter (n_ir k) = Some x \<and>
        map R (used (n_mask k) ins) = map R (node_inputs k)))"

lemma table_redirected: "table_ok R pre available \<Longrightarrow> table_ok (redirected R v x) pre available"
  unfolding table_ok_def using map_redirected by metis

lemma table_more: "table_ok R pre available \<Longrightarrow> table_ok R (pre @ [n]) available"
  unfolding table_ok_def by (metis UnI1 set_append)

lemma table_insert:
  assumes "table_ok R pre available" "n \<in> set pre" "n_result n \<noteq> 0" "\<not> n_effect n" "cse_parameter (n_ir n) = Some x"
    and "map R (used (n_mask n) ins) = map R (node_inputs n)"
  shows "table_ok R pre (available((i_op (n_ir n), x, ins) \<mapsto> n_result n))"
  unfolding table_ok_def
proof (intro allI impI)
  fix p y js w assume h: "(available((i_op (n_ir n), x, ins) \<mapsto> n_result n)) (p, y, js) = Some w"
  show "\<exists>k \<in> set pre. n_result k = w \<and> w \<noteq> 0 \<and> \<not> n_effect k \<and> i_op (n_ir k) = p \<and> cse_parameter (n_ir k) = Some y \<and>
      map R (used (n_mask k) js) = map R (node_inputs k)"
  proof (cases "(p, y, js) = (i_op (n_ir n), x, ins)")
    case True
    then show ?thesis using h assms(2-6) by auto
  next
    case False
    then have "available (p, y, js) = Some w" using h by (metis fun_upd_other)
    then show ?thesis using assms(1) unfolding table_ok_def by blast
  qed
qed

lemma number_node_ok:
  assumes "ssa_block f" "aliases_ok f a" "f_insts f = pre @ n # post" "renamed (root_of a) n n'"
    and "table_ok (root_of a) pre available" "number_node n' available a = (available', a')"
  shows "aliases_ok f a' \<and> table_ok (root_of a') (pre @ [n]) available' \<and>
    (root_of a' = root_of a \<or> (\<exists>v x. root_of a' = redirected (root_of a) v x))"
proof -
  have n: "n \<in> set (f_insts f)" using assms(3) by simp
  note node = ssa_block_node [OF assms(1) n] and same = renamed_same [OF assms(4)]
  show ?thesis
  proof (cases "n_result n = 0 \<or> n_effect n")
    case True
    then show ?thesis using assms(2,5,6) same table_more by (simp add: number_node_def)
  next
    case False
    then have nz: "n_result n \<noteq> 0" and ne: "\<not> n_effect n" by simp_all
    have len: "length a = length (f_variables f)" "downward a" using assms(2) by (simp_all add: aliases_ok_def)
    obtain a1 where a1: "resolve (n_result n) a = (a1, root_of a (n_result n))" "same_roots a a1"
      using resolve_root [OF len(2)] node(3) [OF nz] len(1) by metis
    have ok1: "aliases_ok f a1" by (rule aliases_same_roots [OF assms(2) a1(2)])
    have r1: "root_of a1 = root_of a" "length a1 = length a" "downward a1" using a1(2) by (simp_all add: same_roots_def)
    show ?thesis
    proof (cases "root_of a (n_result n) = n_result n \<and> cse_parameter (n_ir n) \<noteq> None")
      case False
      then have "available' = available" "a' = a1"
        using assms(6) nz ne same a1(1) by (auto simp: number_node_def split: if_splits option.splits)
      then show ?thesis using ok1 r1 table_more [OF assms(5)] by simp
    next
      case True
      then obtain p where p: "cse_parameter (n_ir n) = Some p" and root: "root_of a (n_result n) = n_result n" by blast
      let ?key = "(i_op (n_ir n), p, n_inputs n')"
      show ?thesis
      proof (cases "available ?key")
        case None
        then have e: "available' = available(?key \<mapsto> n_result n)" "a' = a1"
          using assms(6) nz ne same a1(1) root p by (simp_all add: number_node_def Let_def)
        have "map (root_of a) (used (n_mask n) (n_inputs n')) = map (root_of a) (node_inputs n)"
          using assms(4) same by (simp add: renamed_def node_inputs_def)
        then have "table_ok (root_of a) (pre @ [n]) available'"
          unfolding e(1) by (intro table_insert [OF table_more [OF assms(5)] _ nz ne p]) simp_all
        then show ?thesis using e(2) ok1 r1 by simp
      next
        case (Some w)
        then obtain k where k: "k \<in> set pre" "n_result k = w" "w \<noteq> 0" "\<not> n_effect k" "i_op (n_ir k) = i_op (n_ir n)"
          "cse_parameter (n_ir k) = Some p" "map (root_of a) (used (n_mask k) (n_inputs n')) = map (root_of a) (node_inputs k)"
          using assms(5) unfolding table_ok_def by blast
        have kn: "k \<in> set (f_insts f)" using k(1) assms(3) by simp
        have m: "n_mask k = n_mask n" using contract_uses(1) [OF ssa_block_node(1) [OF assms(1) kn] node(1) k(5)] .
        have so: "same_operation (root_of a) k n"
          using k nz ne p m assms(4) same by (simp add: same_operation_def renamed_def node_inputs_def)
        have "sorted_wrt (<) (results (f_insts f))" using assms(1) by (simp add: ssa_block_def ordered_form_def)
        moreover have "w \<in> set (results pre)" using k(1-3) by (auto simp: in_results)
        ultimately have "w < n_result n" using assms(3) nz by (simp add: sorted_wrt_append)
        moreover have "w < length a1" using calculation node(3) [OF nz] r1(2) len(1) by simp
        ultimately obtain a2 where a2: "resolve w a1 = (a2, root_of a1 w)" "same_roots a1 a2" and lt: "root_of a w < n_result n"
          using resolve_root [OF r1(3)] root_of_le [of a w] by (metis le_less_trans)
        have ok2: "aliases_ok f a2" by (rule aliases_same_roots [OF ok1 a2(2)])
        have r2: "root_of a2 = root_of a" "length a2 = length a" using a2(2) r1 by (simp_all add: same_roots_def)
        have e: "available' = available" "a' = a2[n_result n := root_of a w]"
          using assms(6) nz ne same a1(1) root p Some a2(1) r1 by (simp_all add: number_node_def Let_def)
        have d: "distinct (results (f_insts f))" using assms(1) by (simp add: ssa_block_def valid_form_def)
        have "aliases_ok f a'"
          unfolding e(2)
        proof (rule aliases_redirect [OF ok2 d assms(3) nz node(3) [OF nz]])
          show "root_of a2 (n_result n) = n_result n" "root_of a2 (root_of a w) = root_of a w" "root_of a w < n_result n"
            using r2 root lt by simp_all
          show "i_op (n_ir n) = IR_MOV \<and> root_of a w = root_of a2 (n_inputs n ! 0) \<or>
              (\<exists>k \<in> set pre. same_operation (root_of a2) k n \<and> root_of a w = root_of a2 (n_result k))"
            using so k(1,2) r2 by auto
        qed
        moreover have "root_of a' = redirected (root_of a) (n_result n) (root_of a w)"
          unfolding e(2) using root_redirected [of a2 "n_result n" "root_of a w"] r2 root lt node(3) [OF nz] len(1) by simp
        ultimately show ?thesis using table_redirected [OF table_more [OF assms(5)]] e(1) by simp blast
      qed
    qed
  qed
qed

text \<open>A later table only merges roots.\<close>

definition coarser :: "(nat \<Rightarrow> nat) \<Rightarrow> (nat \<Rightarrow> nat) \<Rightarrow> bool" where
  "coarser R R' \<longleftrightarrow> (\<exists>h. R' = (\<lambda>v. h (R v)))"

lemma coarser_refl: "coarser R R"
  by (auto simp: coarser_def)

lemma coarser_redirected: "coarser R (redirected R v x)"
  unfolding coarser_def by (rule exI [of _ "\<lambda>w. if w = v then x else w"]) (simp add: redirected_def fun_eq_iff)

lemma coarser_trans: "coarser R S \<Longrightarrow> coarser S T \<Longrightarrow> coarser R T"
  unfolding coarser_def by (elim exE, rule_tac x = "\<lambda>v. ha (h v)" in exI) simp

lemma map_coarser: "coarser R S \<Longrightarrow> map R xs = map R ys \<Longrightarrow> map S xs = map S ys"
proof -
  assume "coarser R S" and e: "map R xs = map R ys"
  then obtain h where "map S zs = map h (map R zs)" for zs by (auto simp: coarser_def)
  then show ?thesis using e by presburger
qed

lemma renamed_coarser: "coarser R S \<Longrightarrow> renamed R n n' \<Longrightarrow> renamed S n n'"
  unfolding renamed_def using map_coarser by blast

lemma number_ok:
  assumes "ssa_block f" "f_insts f = pre @ ns" "aliases_ok f a" "table_ok (root_of a) pre available"
    and "number ns available a = (ns', a')"
  shows "aliases_ok f a' \<and> coarser (root_of a) (root_of a') \<and> list_all2 (renamed (root_of a')) ns ns'"
  using assms(2-)
proof (induction ns arbitrary: pre available a ns' a')
  case Nil
  then show ?case by (simp add: coarser_refl)
next
  case (Cons n ns)
  have n: "n \<in> set (f_insts f)" using Cons.prems(1) by simp
  have len: "length a = length (f_variables f)" "downward a" using Cons.prems(2) by (simp_all add: aliases_ok_def)
  have lt: "\<forall>v \<in> set (node_inputs (n\<lparr>n_inputs := n_inputs n\<rparr>)). v < length a"
    using ssa_block_inputs [OF assms(1) n] len(1) by simp
  obtain a1 ins where a1: "resolve_inputs (n_mask n) [0, 1, 2] (n_inputs n) a = (a1, ins)" "same_roots a a1" "length ins = 3"
    "used (n_mask n) ins = map (root_of a) (node_inputs n)"
    using node_resolved [OF assms(1) n refl ssa_block_node(2) [OF assms(1) n] len(2,1) lt] by auto
  let ?n = "n\<lparr>n_inputs := ins\<rparr>"
  obtain available' a2 where a2: "number_node ?n available a1 = (available', a2)" by fastforce
  obtain ms a3 where a3: "number ns available' a2 = (ms, a3)" by fastforce
  have e: "ns' = ?n # ms" "a' = a3" using Cons.prems(4) a1(1) a2 a3 by simp_all
  have r1: "root_of a1 = root_of a" using a1(2) by (simp add: same_roots_def)
  have ok1: "aliases_ok f a1" by (rule aliases_same_roots [OF Cons.prems(2) a1(2)])
  have ren: "renamed (root_of a1) n ?n"
    using a1(3,4) ssa_block_node(2) [OF assms(1) n] r1 root_of_le by (auto simp: renamed_def node_inputs_def)
  have s: "f_insts f = pre @ n # ns" using Cons.prems(1) by simp
  have nn: "aliases_ok f a2" "table_ok (root_of a2) (pre @ [n]) available'" "coarser (root_of a1) (root_of a2)"
    using number_node_ok [OF assms(1) ok1 s ren _ a2] Cons.prems(3) r1 coarser_refl coarser_redirected by auto
  have "f_insts f = (pre @ [n]) @ ns" using s by simp
  then have ih: "aliases_ok f a3" "coarser (root_of a2) (root_of a3)" "list_all2 (renamed (root_of a3)) ns ms"
    using Cons.IH [OF _ nn(1,2) a3] by simp_all
  have "coarser (root_of a) (root_of a3)" using nn(3) ih(2) r1 coarser_trans by metis
  moreover from this have "renamed (root_of a3) n ?n" using ren r1 renamed_coarser by metis
  ultimately show ?case using ih e by simp
qed

lemma rename_inputs_ok:
  assumes "ssa_block f" "aliases_ok f a" "list_all2 (renamed (root_of a)) (f_insts f) ns"
  shows "list_all2 (\<lambda>n n'. renamed (root_of a) n n' \<and> node_inputs n' = map (root_of a) (node_inputs n)) (f_insts f) (map (rename_inputs a) ns)"
  unfolding list_all2_conv_all_nth
proof (intro conjI allI impI)
  show "length (f_insts f) = length (map (rename_inputs a) ns)" using assms(3) by (simp add: list_all2_lengthD)
  fix j assume j: "j < length (f_insts f)"
  let ?n = "f_insts f ! j" and ?m = "ns ! j"
  have n: "?n \<in> set (f_insts f)" using j by simp
  have len: "length a = length (f_variables f)" "downward a" using assms(2) by (simp_all add: aliases_ok_def)
  have ren: "renamed (root_of a) ?n ?m" using assms(3) j by (simp add: list_all2_conv_all_nth)
  have same: "?m = ?n\<lparr>n_inputs := n_inputs ?m\<rparr>" "length (n_inputs ?m) = 3" "n_mask ?m = n_mask ?n"
    using ren ssa_block_node(2) [OF assms(1) n] renamed_same [OF ren] by (simp_all add: renamed_def)
  have "\<forall>v \<in> set (node_inputs ?m). v < length a"
    using ren ssa_block_inputs [OF assms(1) n] len(1) unfolding renamed_def by (metis le_less_trans)
  then obtain a' ins where r: "resolve_inputs (n_mask ?n) [0, 1, 2] (n_inputs ?m) a = (a', ins)" "length ins = 3"
    "used (n_mask ?n) ins = map (root_of a) (node_inputs ?m)"
    using node_resolved [OF assms(1) n same(1,2) len(2,1)] by auto
  then have e: "rename_inputs a ?m = ?n\<lparr>n_inputs := ins\<rparr>"
    unfolding rename_inputs_def same(3) by (subst same(1)) simp
  have "node_inputs (rename_inputs a ?m) = map (root_of a) (node_inputs ?n)"
    using r(3) ren unfolding e by (simp add: node_inputs_def renamed_def)
  moreover have "renamed (root_of a) ?n (rename_inputs a ?m)"
    unfolding renamed_def calculation
    using r(2) ssa_block_node(2) [OF assms(1) n] root_of_le by (auto simp: e)
  ultimately show "renamed (root_of a) ?n (map (rename_inputs a) ns ! j)"
      "node_inputs (map (rename_inputs a) ns ! j) = map (root_of a) (node_inputs ?n)"
    using j list_all2_lengthD [OF assms(3)] by simp_all
qed

end
