(* ===== verification/SsaOptSem.thy ===== *)
theory SsaOptSem
  imports SsaOptProps
begin

text \<open>
  The optimized block computes what the block computed: the values of equal roots agree in the run of
  the original block, and the run of the optimized block agrees with it on the live roots.
\<close>

section \<open>Liveness\<close>

lemma mark_length [simp]: "length (mark deps work live) = length live"
  by (induction deps work live rule: mark.induct) simp_all

lemma mark_keeps: "v < length live \<Longrightarrow> live ! v \<Longrightarrow> mark deps work live ! v"
  by (induction deps work live rule: mark.induct) (auto simp: nth_list_update)

text \<open>The result holds the work and is closed under dependencies.\<close>

lemma mark_closed:
  assumes "\<forall>v < length live. live ! v \<longrightarrow> (\<forall>d \<in> set (deps v). d < length live \<longrightarrow> live ! d \<or> d \<in> set work)"
  shows "(\<forall>v \<in> set work. v < length live \<longrightarrow> mark deps work live ! v) \<and>
    (\<forall>v < length live. mark deps work live ! v \<longrightarrow> (\<forall>d \<in> set (deps v). d < length live \<longrightarrow> mark deps work live ! d))"
  using assms
proof (induction deps work live rule: mark.induct)
  case (2 deps v work live)
  show ?case
  proof (cases "v \<ge> length live \<or> live ! v")
    case True
    have "\<forall>u < length live. live ! u \<longrightarrow> (\<forall>d \<in> set (deps u). d < length live \<longrightarrow> live ! d \<or> d \<in> set work)"
      using "2.prems" True by (metis not_le set_ConsD)
    then show ?thesis using "2.IH"(1) [OF True] True mark_keeps [of v live deps work] by auto
  next
    case False
    then have p: "\<forall>u < length (live[v := True]). live[v := True] ! u \<longrightarrow>
        (\<forall>d \<in> set (deps u). d < length (live[v := True]) \<longrightarrow> live[v := True] ! d \<or> d \<in> set (rev (deps v) @ work))"
      using "2.prems" by (auto simp: nth_list_update)
    have "mark deps (rev (deps v) @ work) (live[v := True]) ! v" using False by (intro mark_keeps) simp_all
    then show ?thesis using "2.IH"(2) [OF False p] False by auto
  qed
qed simp

section \<open>Both runs\<close>

text \<open>The equations that hold in the original run between the values defined so far.\<close>

definition computed :: "'w ir_sem \<Rightarrow> SSAInstruction list \<Rightarrow> (nat \<Rightarrow> u64) \<Rightarrow> bool" where
  "computed sem pre vals \<longleftrightarrow> (\<forall>k \<in> set pre. n_result k \<noteq> 0 \<and> \<not> n_effect k \<longrightarrow>
     vals (n_result k) = op_value sem (n_ir k) (map vals (node_inputs k)))"

lemma op_value_mov: "i_op i = IR_MOV \<Longrightarrow> op_value sem i [x] = x"
  by (simp add: op_value_def)

definition defined_before :: "SSAFunction \<Rightarrow> SSAInstruction list \<Rightarrow> nat set" where
  "defined_before f pre = fst ` set (f_inputs f) \<union> set (results pre)"

lemma uses_defined_before: "uses_defined D (pre @ n # post) \<Longrightarrow> set (node_inputs n) \<subseteq> D \<union> set (results pre)"
proof (induction pre arbitrary: D)
  case (Cons k pre)
  then have "set (node_inputs n) \<subseteq> (if n_result k \<noteq> 0 then insert (n_result k) D else D) \<union> set (results pre)" by simp
  then show ?case by (auto split: if_splits)
qed simp

lemma uses_before:
  assumes "ssa_block f" "f_insts f = pre @ n # post"
  shows "set (node_inputs n) \<subseteq> defined_before f pre"
  using assms uses_defined_before [of "fst ` set (f_inputs f)" pre n post] by (simp add: ssa_block_def valid_form_def defined_before_def)

text \<open>A later definition is none of the values defined so far.\<close>

lemma result_fresh:
  assumes "ssa_block f" "f_insts f = pre @ n # post" "n_result n \<noteq> 0"
  shows "n_result n \<notin> defined_before f pre"
  using assms by (auto simp: ssa_block_def valid_form_def defined_before_def)

lemma root_defined:
  assumes "ssa_block f" "aliases_ok f a" "f_insts f = pre @ n # post" "n_result n \<noteq> 0" "v \<in> defined_before f pre"
  shows "root_of a v \<noteq> n_result n"
proof
  assume e: "root_of a v = n_result n"
  have fresh: "n_result n \<notin> defined_before f pre" by (rule result_fresh [OF assms(1,3,4)])
  then have ne: "root_of a v \<noteq> v" using e assms(5) by auto
  have len: "length a = length (f_variables f)" using assms(2) by (simp add: aliases_ok_def)
  have v: "valid_form f" "ordered_form f" using assms(1) by (simp_all add: ssa_block_def)
  have "v < length a"
    using assms(3,5) v(1) unfolding defined_before_def valid_form_def len by auto
  then have "v \<in> set (results (f_insts f))" using assms(2) ne by (simp add: aliases_ok_def)
  then have "v \<in> set (results pre)" using assms(5) v(1) by (auto simp: defined_before_def valid_form_def)
  then have "v < n_result n" using v(2) assms(3,4) by (simp add: ordered_form_def sorted_wrt_append)
  then show False using e root_of_le [of a v] by simp
qed

lemma computed_step:
  assumes "ssa_block f" "f_insts f = pre @ n # post" "computed sem pre vals"
    and "n_result n \<noteq> 0 \<and> \<not> n_effect n \<longrightarrow> x = op_value sem (n_ir n) (map vals (node_inputs n))"
  shows "computed sem (pre @ [n]) (set_result n x vals)"
proof (cases "n_result n = 0")
  case True
  then show ?thesis using assms(3) by (auto simp: computed_def set_result_def)
next
  case False
  let ?vals = "vals(n_result n := x)"
  have fresh: "n_result n \<notin> defined_before f pre" by (rule result_fresh [OF assms(1,2) False])
  have same: "map ?vals (node_inputs k) = map vals (node_inputs k)" if mem: "k \<in> set (pre @ [n])" for k
  proof -
    obtain ps qs where k: "pre @ [n] = ps @ k # qs" using split_list [OF mem] by blast
    have "f_insts f = (pre @ [n]) @ post" using assms(2) by simp
    then have s: "f_insts f = ps @ k # (qs @ post)" unfolding k by simp
    have "set (results ps) \<subseteq> set (results pre)"
    proof -
      have "set ps \<subseteq> set pre" by (cases qs rule: rev_cases) (use k in auto)
      then show ?thesis unfolding in_results subset_iff by blast
    qed
    then have "set (node_inputs k) \<subseteq> defined_before f pre"
      using uses_before [OF assms(1) s] by (auto simp: defined_before_def)
    then show ?thesis using fresh by (auto simp: fun_upd_def)
  qed
  have "?vals (n_result k) = op_value sem (n_ir k) (map ?vals (node_inputs k))"
    if k: "k \<in> set (pre @ [n])" "n_result k \<noteq> 0" "\<not> n_effect k" for k
  proof (cases "k \<in> set pre")
    case True
    then have "n_result k \<in> set (results pre)" using k(2) by (auto simp: in_results)
    then have "n_result k \<noteq> n_result n" using fresh by (auto simp: defined_before_def)
    then show ?thesis unfolding same [OF k(1)] using assms(3) True k(2,3) by (simp add: computed_def)
  next
    case False
    then have "k = n" using k(1) by simp
    then show ?thesis unfolding same [OF k(1)] using assms(4) k by simp
  qed
  then show ?thesis using False by (simp add: computed_def set_result_def)
qed

text \<open>The original run respects the aliases.\<close>

definition roots_agree :: "nat list \<Rightarrow> nat set \<Rightarrow> (nat \<Rightarrow> u64) \<Rightarrow> bool" where
  "roots_agree a D vals \<longleftrightarrow> (\<forall>v \<in> D. vals (root_of a v) = vals v)"

lemma roots_step:
  assumes "ssa_block f" "aliases_ok f a" "f_insts f = pre @ n # post"
    and "computed sem pre vals" "roots_agree a (defined_before f pre) vals"
    and "n_result n \<noteq> 0 \<and> \<not> n_effect n \<longrightarrow> x = op_value sem (n_ir n) (map vals (node_inputs n))"
  shows "roots_agree a (defined_before f (pre @ [n])) (set_result n x vals)"
proof (cases "n_result n = 0")
  case True
  then show ?thesis using assms(5) by (simp add: defined_before_def set_result_def)
next
  case nz: False
  let ?R = "root_of a" and ?r = "n_result n"
  have fresh: "?r \<notin> defined_before f pre" by (rule result_fresh [OF assms(1,3) nz])
  have old: "(vals(?r := x)) (?R v) = (vals(?r := x)) v" if "v \<in> defined_before f pre" for v
    using root_defined [OF assms(1-3) nz that] that fresh assms(5) by (auto simp: roots_agree_def)
  have inputs: "set (node_inputs n) \<subseteq> defined_before f pre" by (rule uses_before [OF assms(1,3)])
  have c: "contract_ok n" using assms(1,3) by (simp add: ssa_block_def valid_form_def)
  have "(vals(?r := x)) (?R ?r) = x"
  proof (cases "?R ?r = ?r")
    case False
    have j: "justified ?R pre n" using assms(2,3) by (simp add: aliases_ok_def)
    then show ?thesis
      unfolding justified_def
    proof (elim disjE)
      assume mov: "i_op (n_ir n) = IR_MOV \<and> ?R ?r = ?R (n_inputs n ! 0)"
      then have m: "node_inputs n = [n_inputs n ! 0]" "\<not> n_effect n" using contract_mov [OF c] by simp_all
      then have x: "x = vals (n_inputs n ! 0)" using assms(6) nz mov by (simp add: op_value_mov)
      have "?R (n_inputs n ! 0) \<noteq> ?r" using root_defined [OF assms(1-3) nz] inputs m(1) by simp
      then show ?thesis using mov x inputs m(1) assms(5) by (simp add: roots_agree_def)
    next
      assume "\<exists>k \<in> set pre. same_operation ?R k n \<and> ?R ?r = ?R (n_result k)"
      then obtain k where k: "k \<in> set pre" "same_operation ?R k n" "?R ?r = ?R (n_result k)" by blast
      obtain p where p: "cse_parameter (n_ir n) = Some p" "cse_parameter (n_ir k) = Some p"
        using k(2) by (auto simp: same_operation_def)
      have so: "n_result k \<noteq> 0" "\<not> n_effect k" "\<not> n_effect n" "i_op (n_ir k) = i_op (n_ir n)"
        "map ?R (node_inputs k) = map ?R (node_inputs n)" using k(2) by (simp_all add: same_operation_def)
      obtain ps qs where "pre = ps @ k # qs" using k(1) by (metis split_list)
      then have kd: "set (node_inputs k) \<subseteq> defined_before f pre"
        using uses_before [OF assms(1), of ps k] assms(3) by (auto simp: defined_before_def split: if_splits)
      have "map vals (node_inputs m) = map vals (map ?R (node_inputs m))" if "set (node_inputs m) \<subseteq> defined_before f pre" for m
        using that assms(5) by (auto simp: roots_agree_def)
      then have "map vals (node_inputs k) = map vals (node_inputs n)" using kd inputs so(5) by metis
      then have "vals (n_result k) = x"
        using assms(4,6) k(1) so nz op_value_cse [OF so(4) p(2,1)] by (simp add: computed_def)
      moreover have "n_result k \<in> defined_before f pre" using k(1) so(1) by (auto simp: defined_before_def in_results)
      moreover from this have "?R (n_result k) \<noteq> ?r" by (rule root_defined [OF assms(1-3) nz])
      ultimately show ?thesis using k(3) assms(5) by (simp add: roots_agree_def)
    qed (use False in simp)
  qed simp
  then show ?thesis using old nz by (auto simp: roots_agree_def defined_before_def set_result_def)
qed

section \<open>Dead code\<close>

lemma redirected_source:
  assumes "ssa_block f" "aliases_ok f a" "f_insts f = pre @ n # post" "root_of a (n_result n) \<noteq> n_result n"
  shows "\<not> n_effect n" "\<exists>w \<in> defined_before f pre. root_of a (n_result n) = root_of a w"
proof -
  have c: "contract_ok n" using assms(1,3) by (simp add: ssa_block_def valid_form_def)
  have "justified (root_of a) pre n" using assms(2,3) by (simp add: aliases_ok_def)
  then consider (mov) "i_op (n_ir n) = IR_MOV" "root_of a (n_result n) = root_of a (n_inputs n ! 0)"
    | (same) k where "k \<in> set pre" "same_operation (root_of a) k n" "root_of a (n_result n) = root_of a (n_result k)"
    using assms(4) by (auto simp: justified_def)
  then have "\<not> n_effect n \<and> (\<exists>w \<in> defined_before f pre. root_of a (n_result n) = root_of a w)"
  proof cases
    case mov
    then show ?thesis using contract_mov [OF c mov(1)] uses_before [OF assms(1,3)] by auto
  next
    case (same k)
    then have "n_result k \<in> defined_before f pre" by (auto simp: defined_before_def in_results same_operation_def)
    then show ?thesis using same(2,3) by (auto simp: same_operation_def)
  qed
  then show "\<not> n_effect n" "\<exists>w \<in> defined_before f pre. root_of a (n_result n) = root_of a w" by simp_all
qed

text \<open>The optimized node of a node, and the values that are still computed.\<close>

definition resolved :: "nat list \<Rightarrow> SSAInstruction \<Rightarrow> SSAInstruction \<Rightarrow> bool" where
  "resolved a n n' \<longleftrightarrow> renamed (root_of a) n n' \<and> node_inputs n' = map (root_of a) (node_inputs n)"

lemma resolved_same: "resolved a n n' \<Longrightarrow> n_ir n' = n_ir n \<and> n_result n' = n_result n \<and> n_mask n' = n_mask n \<and>
    n_effect n' = n_effect n \<and> node_inputs n' = map (root_of a) (node_inputs n)"
  using renamed_same [of "root_of a" n n'] by (simp add: resolved_def)

definition live_closed :: "nat list \<Rightarrow> bool list \<Rightarrow> SSAInstruction list \<Rightarrow> bool" where
  "live_closed a live ns \<longleftrightarrow> (\<forall>n \<in> set ns. kept_node a live n \<longrightarrow> (\<forall>v \<in> set (node_inputs n). live ! v))"

definition live_agree :: "nat list \<Rightarrow> bool list \<Rightarrow> nat set \<Rightarrow> (nat \<Rightarrow> u64) \<Rightarrow> (nat \<Rightarrow> u64) \<Rightarrow> bool" where
  "live_agree a live D vals vals' \<longleftrightarrow> (\<forall>v \<in> D. live ! root_of a v \<longrightarrow> vals' (root_of a v) = vals v)"

lemma run_node_pure:
  assumes "contract_ok n" "\<not> n_effect n"
  shows "run_node sem n vals g = (op_value sem (n_ir n) (map vals (node_inputs n)), g, True)"
proof -
  have "\<not> sh_effect (node_shape n)" using contract_mask [OF assms(1)] assms(2) by simp
  moreover have "i_op (n_ir n) \<noteq> IR_STORE_REG"
    using calculation contract_shape [OF assms(1)] by (auto simp: shape_def dest: sym)
  ultimately show ?thesis by (simp add: run_node_def run_op_def)
qed

lemma run_node_resolved:
  assumes "resolved a n n'" "live_agree a live (set (node_inputs n)) vals vals'"
    and "\<forall>v \<in> set (node_inputs n'). live ! v"
  shows "run_node sem n' vals' g = run_node sem n vals g"
proof -
  note same = resolved_same [OF assms(1)]
  have "map vals' (node_inputs n') = map vals (node_inputs n)"
    using assms(2,3) same by (auto simp: live_agree_def)
  then show ?thesis unfolding run_node_def node_shape_def using same by (metis (no_types))
qed

lemma live_agree_kept:
  assumes "ssa_block f" "aliases_ok f a" "f_insts f = pre @ n # post" "resolved a n n'"
    and "live_agree a live (defined_before f pre) vals vals'" "root_of a (n_result n) = n_result n"
  shows "live_agree a live (defined_before f (pre @ [n])) (set_result n x vals) (set_result n' x vals')"
proof (cases "n_result n = 0")
  case True
  then show ?thesis using assms(5) resolved_same [OF assms(4)] by (simp add: set_result_def defined_before_def)
next
  case nz: False
  have "root_of a v \<noteq> n_result n \<and> v \<noteq> n_result n" if "v \<in> defined_before f pre" for v
    using root_defined [OF assms(1-3) nz that] result_fresh [OF assms(1,3) nz] that by auto
  then show ?thesis using assms(5,6) resolved_same [OF assms(4)] nz
    by (auto simp: live_agree_def set_result_def defined_before_def)
qed

lemma live_agree_dropped:
  assumes "ssa_block f" "aliases_ok f a" "f_insts f = pre @ n # post"
    and "live_agree a live (defined_before f pre) vals vals'" "roots_agree a (defined_before f pre) vals"
    and "roots_agree a (defined_before f (pre @ [n])) (set_result n x vals)"
    and "n_result n \<noteq> 0 \<longrightarrow> root_of a (n_result n) = n_result n \<longrightarrow> \<not> live ! n_result n"
  shows "live_agree a live (defined_before f (pre @ [n])) (set_result n x vals) vals'"
proof (cases "n_result n = 0")
  case True
  then show ?thesis using assms(4) by (simp add: set_result_def defined_before_def)
next
  case nz: False
  have fresh: "n_result n \<notin> defined_before f pre" by (rule result_fresh [OF assms(1,3) nz])
  have new: "vals' (root_of a (n_result n)) = x" if l: "live ! root_of a (n_result n)"
  proof -
    have ne: "root_of a (n_result n) \<noteq> n_result n" using assms(7) nz l by auto
    obtain w where w: "w \<in> defined_before f pre" "root_of a (n_result n) = root_of a w"
      using redirected_source(2) [OF assms(1-3) ne] by blast
    have "vals' (root_of a w) = vals (root_of a w)" using assms(4,5) w l by (simp add: live_agree_def roots_agree_def)
    also have "\<dots> = set_result n x vals (root_of a (n_result n))" using ne w(2) by (simp add: set_result_def)
    also have "\<dots> = x" using assms(6) nz by (auto simp: roots_agree_def defined_before_def set_result_def)
    finally show ?thesis using w(2) by simp
  qed
  show ?thesis
    using assms(4) nz fresh new by (auto simp: live_agree_def defined_before_def set_result_def)
qed

text \<open>Dropping the nodes that are not kept changes nothing the guest sees.\<close>

lemma kept_nodes_exec:
  assumes "ssa_block f" "aliases_ok f a" "f_insts f = pre @ ns" "list_all2 (resolved a) ns ns'"
    and "\<forall>v < length (f_variables f). root a v = root_of a v" "live_closed a live ns'"
    and "computed sem pre vals" "roots_agree a (defined_before f pre) vals"
    and "live_agree a live (defined_before f pre) vals vals'"
  shows "exec_nodes sem (filter (kept_node a live) ns') vals' g = exec_nodes sem ns vals g"
  using assms(3,4,6-)
proof (induction ns arbitrary: pre ns' vals vals' g)
  case (Cons n ns)
  obtain n' ms where ms: "ns' = n' # ms" "resolved a n n'" "list_all2 (resolved a) ns ms"
    using Cons.prems(2) by (auto simp: list_all2_Cons1)
  have s: "f_insts f = (pre @ [n]) @ ns" using Cons.prems(1) by simp
  note same = resolved_same [OF ms(2)]
  have n: "n \<in> set (f_insts f)" using s by simp
  note node = ssa_block_node [OF assms(1) n]
  obtain x g' on where run: "run_node sem n vals g = (x, g', on)" by (metis prod_cases3)
  have x: "n_result n \<noteq> 0 \<and> \<not> n_effect n \<longrightarrow> x = op_value sem (n_ir n) (map vals (node_inputs n))"
    using run run_node_pure [OF node(1), of sem vals g] by auto
  note step = computed_step [OF assms(1) Cons.prems(1,4) x] roots_step [OF assms(1,2) Cons.prems(1,4,5) x]
  have closed: "live_closed a live ms" using Cons.prems(3) ms(1) by (simp add: live_closed_def)
  have root: "n_result n \<noteq> 0 \<longrightarrow> root a (n_result n) = root_of a (n_result n)" using assms(5) node(3) by blast
  show ?case
  proof (cases "kept_node a live n'")
    case True
    have "\<forall>v \<in> set (node_inputs n'). live ! v" using Cons.prems(3) True ms(1) by (simp add: live_closed_def)
    moreover have "live_agree a live (set (node_inputs n)) vals vals'"
      using Cons.prems(6) uses_before [OF assms(1) Cons.prems(1)] by (auto simp: live_agree_def)
    ultimately have run': "run_node sem n' vals' g = (x, g', on)" using run_node_resolved [OF ms(2)] run by metis
    have "root_of a (n_result n) = n_result n"
      using True redirected_source(1) [OF assms(1,2) Cons.prems(1)] same root by (auto simp: kept_node_def)
    then have agree: "live_agree a live (defined_before f (pre @ [n])) (set_result n x vals) (set_result n' x vals')"
      by (rule live_agree_kept [OF assms(1,2) Cons.prems(1) ms(2) Cons.prems(6)])
    show ?thesis
      using Cons.IH [OF s ms(3) closed step agree] True ms(1) run run' by simp
  next
    case False
    then have ne: "\<not> n_effect n" and dead: "n_result n \<noteq> 0 \<longrightarrow> root_of a (n_result n) = n_result n \<longrightarrow> \<not> live ! n_result n"
      using same root by (auto simp: kept_node_def)
    have "g' = g" "on" using run run_node_pure [OF node(1) ne, of sem vals g] by simp_all
    moreover note Cons.IH [OF s ms(3) closed step live_agree_dropped [OF assms(1,2) Cons.prems(1,6,5) step(2) dead]]
    ultimately show ?thesis using False ms(1) run by simp
  qed
qed simp


lemma first_work_in:
  "n \<in> set ns \<Longrightarrow> n_effect n \<Longrightarrow> v \<in> set (node_inputs n) \<Longrightarrow> v \<in> set (first_work ns)"
  by (auto simp: first_work_def)

lemma dependencies_in:
  "n \<in> set ns \<Longrightarrow> n_result n = r \<Longrightarrow> r \<noteq> 0 \<Longrightarrow> root a r = r \<Longrightarrow> v \<in> set (node_inputs n) \<Longrightarrow> v \<in> set (dependencies a ns r)"
  by (auto simp: dependencies_def)

lemma marked_closed:
  assumes "\<forall>n \<in> set ns. \<forall>v \<in> set (node_inputs n). v < N" "\<forall>n \<in> set ns. n_result n \<noteq> 0 \<longrightarrow> n_result n < N"
  shows "live_closed a (mark (dependencies a ns) (first_work ns) (replicate N False)) ns"
  unfolding live_closed_def
proof (intro ballI impI)
  fix n v
  let ?live = "mark (dependencies a ns) (first_work ns) (replicate N False)"
  assume n: "n \<in> set ns" and kept: "kept_node a ?live n" and v: "v \<in> set (node_inputs n)"
  have "\<forall>v < length (replicate N False). replicate N False ! v \<longrightarrow>
      (\<forall>d \<in> set (dependencies a ns v). d < length (replicate N False) \<longrightarrow> replicate N False ! d \<or> d \<in> set (first_work ns))"
    by simp
  note m = mark_closed [OF this]
  have lt: "v < N" using assms(1) n v by blast
  show "?live ! v"
  proof (cases "n_effect n")
    case True
    then show ?thesis using m lt first_work_in [OF n True v] by simp
  next
    case False
    then have r: "n_result n \<noteq> 0" "root a (n_result n) = n_result n" "?live ! n_result n"
      using kept by (simp_all add: kept_node_def)
    moreover have "n_result n < N" using assms(2) n r(1) by blast
    moreover have "\<forall>d \<in> set (dependencies a ns (n_result n)). d < N \<longrightarrow> ?live ! d" using m calculation by simp
    ultimately show ?thesis using lt dependencies_in [OF n refl r(1,2) v] by blast
  qed
qed

section \<open>The passes together\<close>

lemma optimize_ssa_insts:
  assumes "ssa_block f"
  obtains a live ns where "f_insts (optimize_ssa f) = filter (kept_node a live) ns" "aliases_ok f a"
    "f_inputs (optimize_ssa f) = filter (\<lambda>x. live ! fst x) (f_inputs f)" "length live = length (f_variables f)"
    "list_all2 (resolved a) (f_insts f) ns" "live_closed a live ns"
    "f_variables (optimize_ssa f) = f_variables f"
proof -
  let ?N = "length (f_variables f)"
  let ?a0 = "copy_loop (Suc (length (f_insts f))) (f_insts f) [0..<?N]"
  have a0: "aliases_ok f ?a0" by (rule copy_loop_ok [OF assms aliases_init [OF assms]])
  obtain ns1 a where num: "number (f_insts f) Map.empty ?a0 = (ns1, a)" by fastforce
  have "table_ok (root_of ?a0) [] Map.empty" by (simp add: table_ok_def)
  note ok = number_ok [OF assms _ a0 this num, simplified]
  let ?ns = "map (rename_inputs a) ns1"
  let ?live = "mark (dependencies a ?ns) (first_work ?ns) (replicate ?N False)"
  have res: "list_all2 (resolved a) (f_insts f) ?ns"
    using rename_inputs_ok [OF assms _ _, of a ns1] ok by (simp add: resolved_def [abs_def])
  have "(\<forall>v \<in> set (node_inputs m). v < ?N) \<and> (n_result m \<noteq> 0 \<longrightarrow> n_result m < ?N)" if m: "m \<in> set ?ns" for m
  proof -
    obtain n where n: "n \<in> set (f_insts f)" "resolved a n m"
      using res m by (metis in_set_conv_nth list_all2_conv_all_nth)
    have "root_of a v < ?N" if "v \<in> set (node_inputs n)" for v
      using ssa_block_inputs [OF assms n(1) that] root_of_le [of a v] by simp
    then show ?thesis using resolved_same [OF n(2)] ssa_block_node(3) [OF assms n(1)] by auto
  qed
  then have closed: "live_closed a ?live ?ns" by (intro marked_closed) simp_all
  have "optimize_ssa f = f\<lparr>f_insts := filter (kept_node a ?live) ?ns, f_inputs := filter (\<lambda>x. ?live ! fst x) (f_inputs f)\<rparr>"
    unfolding optimize_ssa_def Let_def num by simp
  then show thesis using that [OF _ _ _ _ res closed] ok by simp
qed

lemma optimize_ssa_exec:
  assumes "ssa_block f" "inputs_loaded (f_inputs f) vals g" "inputs_loaded (f_inputs (optimize_ssa f)) vals' g"
  shows "exec_nodes sem (f_insts (optimize_ssa f)) vals' g = exec_nodes sem (f_insts f) vals g"
proof -
  obtain a live ns where p: "f_insts (optimize_ssa f) = filter (kept_node a live) ns" "aliases_ok f a"
    "f_inputs (optimize_ssa f) = filter (\<lambda>x. live ! fst x) (f_inputs f)"
    "list_all2 (resolved a) (f_insts f) ns" "live_closed a live ns"
    by (rule optimize_ssa_insts [OF assms(1)])
  have v: "valid_form f" using assms(1) by (simp add: ssa_block_def)
  have len: "length a = length (f_variables f)" "downward a" using p(2) by (simp_all add: aliases_ok_def)
  have roots: "root_of a v = v" if "v \<in> fst ` set (f_inputs f)" for v
  proof -
    have "v < length a" "v \<notin> set (results (f_insts f))" using v that len(1) by (auto simp: valid_form_def)
    then show ?thesis using p(2) unfolding aliases_ok_def by blast
  qed
  have D: "defined_before f [] = fst ` set (f_inputs f)" by (simp add: defined_before_def)
  show ?thesis
    unfolding p(1)
  proof (rule kept_nodes_exec [OF assms(1) p(2) _ p(4) _ p(5)])
    show "f_insts f = [] @ f_insts f" by simp
    show "\<forall>v < length (f_variables f). root a v = root_of a v" using root_root_of [OF len(2)] len(1) by simp
    show "computed sem [] vals" by (simp add: computed_def)
    show "roots_agree a (defined_before f []) vals" using roots by (simp add: D roots_agree_def)
    show "live_agree a live (defined_before f []) vals vals'"
      using roots assms(2,3) by (auto simp: D live_agree_def p(3) inputs_loaded_def)
  qed
qed

end
