(* ===== verification/SsaBuild.thy ===== *)
theory SsaBuild
  imports SsaOptSem
begin

text \<open>
  The builder: the definitions it keeps name, for each temporary and each slot, the value that the block
  holds there, so the nodes compute what the instructions compute; and the block it leaves is in order.
\<close>

section \<open>The builder's state\<close>

abbreviation n_values :: "Builder \<Rightarrow> nat" where
  "n_values b \<equiv> length (f_variables (b_f b))"

definition wf_builder :: "Builder \<Rightarrow> bool" where
  "wf_builder b \<longleftrightarrow> 0 < n_values b \<and> (\<forall>var v. b_defs b var = Some v \<longrightarrow> v < n_values b \<and> var < SSA_FP + 32) \<and>
     (\<forall>v \<in> set (results (f_insts (b_f b))). v < n_values b) \<and> ordered_form (b_f b)"

text \<open>What reading leaves alone.\<close>

definition grown :: "Builder \<Rightarrow> Builder \<Rightarrow> bool" where
  "grown b b' \<longleftrightarrow> wf_builder b' \<and> f_insts (b_f b') = f_insts (b_f b) \<and> set (f_inputs (b_f b)) \<subseteq> set (f_inputs (b_f b')) \<and>
     n_values b \<le> n_values b' \<and> (b_failed b \<longrightarrow> b_failed b')"

lemma grown_refl: "wf_builder b \<Longrightarrow> grown b b"
  by (simp add: grown_def)

lemma grown_trans: "grown b c \<Longrightarrow> grown c d \<Longrightarrow> grown b d"
  by (auto simp: grown_def)

text \<open>
  The relation with the run of the block: \<open>IN\<close> are the inputs the finished graph has, and \<open>g0\<close> the
  guest at the entry.
\<close>

definition var_value :: "(nat \<Rightarrow> u64) \<Rightarrow> 'w guest \<Rightarrow> nat \<Rightarrow> u64" where
  "var_value temps g var = (if var < SSA_GPR then temps var else slot_value var g)"

definition tracks :: "(nat \<times> nat) list \<Rightarrow> 'w guest \<Rightarrow> (nat \<Rightarrow> u64) \<times> 'w guest \<Rightarrow> (nat \<Rightarrow> u64) \<Rightarrow> Builder \<Rightarrow> bool" where
  "tracks IN g0 st vals b \<longleftrightarrow> inputs_loaded IN vals g0 \<and>
     (\<forall>var v. b_defs b var = Some v \<longrightarrow> var_value (fst st) (snd st) var = vals v) \<and>
     (\<forall>var. SSA_GPR \<le> var \<and> var < SSA_FP + 32 \<and> b_defs b var = None \<longrightarrow> slot_value var (snd st) = slot_value var g0)"

section \<open>Reading\<close>

lemma read_var_grown:
  assumes "wf_builder b" "read_var var b = (b', v)" "var < SSA_FP + 32"
  shows "grown b b' \<and> v < n_values b'"
proof (cases "b_defs b var")
  case (Some w)
  then show ?thesis using assms by (auto simp: read_var_def grown_refl wf_builder_def)
next
  case None
  show ?thesis
  proof (cases "var < SSA_GPR")
    case True
    then have "b' = b\<lparr>b_failed := True\<rparr>" "v = 0" using None assms(2) by (auto simp: read_var_def)
    then show ?thesis using assms(1) by (simp add: grown_def wf_builder_def)
  next
    case False
    then have "b' = b\<lparr>b_f := (b_f b)\<lparr>f_variables := f_variables (b_f b) @ [var], f_inputs := f_inputs (b_f b) @ [(n_values b, var)]\<rparr>,
        b_defs := (b_defs b)(var \<mapsto> n_values b)\<rparr>" "v = n_values b"
      using None assms by (auto simp: read_var_def new_value_def Let_def upd_f_def)
    then show ?thesis
      using assms(1,3) by (auto simp: grown_def wf_builder_def ordered_form_def less_Suc_eq split: if_splits)
  qed
qed

lemma read_var_tracks:
  assumes "read_var var b = (b', v)" "\<not> b_failed b'" "set (f_inputs (b_f b')) \<subseteq> set IN" "tracks IN g0 st vals b"
    and "var < SSA_FP + 32"
  shows "tracks IN g0 st vals b' \<and> vals v = var_value (fst st) (snd st) var"
proof (cases "b_defs b var")
  case (Some w)
  then show ?thesis using assms(1,4) by (auto simp: read_var_def tracks_def)
next
  case None
  then have slot: "SSA_GPR \<le> var" and defs: "b_defs b' = (b_defs b)(var \<mapsto> v)" and new: "(v, var) \<in> set (f_inputs (b_f b'))"
    using assms(1,2) by (auto simp: read_var_def new_value_def Let_def upd_f_def split: if_splits)
  have "vals v = slot_value var g0" using new assms(3,4) by (auto simp: tracks_def inputs_loaded_def)
  also have "\<dots> = var_value (fst st) (snd st) var"
    using assms(4,5) slot None by (simp add: tracks_def var_value_def)
  finally show ?thesis using assms(4) defs by (auto simp: tracks_def)
qed

lemma u16_bound: "unat (v :: u16) < 65536"
  using unsigned_less [of v] by simp

lemma source_var_bound: "source_var v < SSA_FP + 32"
proof -
  have "unat v < 2 ^ 16" using u16_bound by simp
  moreover have "unat v < 32" if "v < 32" using that by (simp add: word_less_nat_alt)
  ultimately show ?thesis by (auto simp: source_var_def)
qed

lemma source_value:
  assumes "v \<noteq> 32"
  shows "var_value temps g (source_var v) = read_vreg temps g v"
proof -
  have "unat v < 2 ^ 16" using u16_bound by simp
  moreover have "unat v < 32" if "v < 32" using that by (simp add: word_less_nat_alt)
  ultimately show ?thesis using assms by (auto simp: source_var_def var_value_def slot_value_def read_vreg_def)
qed

lemma inputs_updated:
  "\<forall>j < length xs. xs ! j < N \<Longrightarrow> N \<le> M \<Longrightarrow> v < M \<Longrightarrow> \<forall>j < length (xs[k := v]). xs[k := v] ! j < (M :: nat)"
  by (cases "k < length xs") (auto simp: nth_list_update list_update_beyond intro: less_le_trans)

lemma read_sources_ok:
  assumes "wf_builder b" "read_sources m srcs ins ks b = Some (b', ins')" "distinct ks" "\<forall>k \<in> set ks. k < length ins"
    and "\<forall>k < length ins. ins ! k < n_values b"
  shows "grown b b' \<and> length ins' = length ins \<and> (\<forall>k < length ins. ins' ! k < n_values b') \<and>
    (\<forall>k < length ins. k \<notin> set ks \<longrightarrow> ins' ! k = ins ! k)"
  using assms
proof (induction m srcs ins ks b rule: read_sources.induct)
  case (1 m srcs ins b)
  then show ?case by (simp add: grown_refl)
next
  case (2 m srcs ins k ks b)
  show ?case
  proof (cases "bit m k")
    case False
    then show ?thesis using 2 by auto
  next
    case True
    obtain b1 v where r: "read_var (source_var (srcs ! k)) b = (b1, v)" by fastforce
    have n: "srcs ! k \<noteq> 32" "read_sources m srcs (ins[k := v]) ks b1 = Some (b', ins')"
      using "2.prems"(2) True r by (auto split: if_splits)
    note g = read_var_grown [OF "2.prems"(1) r source_var_bound]
    have nt: "\<not> \<not> bit m k" using True by simp
    have ih: "grown b1 b' \<and> length ins' = length (ins[k := v]) \<and> (\<forall>j < length (ins[k := v]). ins' ! j < n_values b') \<and>
        (\<forall>j < length (ins[k := v]). j \<notin> set ks \<longrightarrow> ins' ! j = ins[k := v] ! j)"
    proof (rule "2.IH"(2) [OF nt n(1) r [symmetric] _ n(2)])
      show "wf_builder b1" using g by (simp add: grown_def)
      show "\<forall>j < length (ins[k := v]). ins[k := v] ! j < n_values b1"
        using inputs_updated [OF "2.prems"(5)] g by (simp add: grown_def)
    qed (use "2.prems" in simp_all)
    then show ?thesis using g grown_trans by auto
  qed
qed

lemma read_sources_tracks:
  assumes "read_sources m srcs ins ks b = Some (b', ins')" "wf_builder b" "\<not> b_failed b'"
    and "set (f_inputs (b_f b')) \<subseteq> set IN" "tracks IN g0 st vals b" "distinct ks" "\<forall>k \<in> set ks. k < length ins"
    and "\<forall>k < length ins. ins ! k < n_values b"
  shows "tracks IN g0 st vals b' \<and>
    (\<forall>k \<in> set ks. bit m k \<longrightarrow> vals (ins' ! k) = read_vreg (fst st) (snd st) (srcs ! k))"
  using assms
proof (induction m srcs ins ks b rule: read_sources.induct)
  case (2 m srcs ins k ks b)
  show ?case
  proof (cases "bit m k")
    case False
    then show ?thesis using 2 by auto
  next
    case True
    obtain b1 v where r: "read_var (source_var (srcs ! k)) b = (b1, v)" by fastforce
    have n: "srcs ! k \<noteq> 32" "read_sources m srcs (ins[k := v]) ks b1 = Some (b', ins')"
      using "2.prems"(1) True r by (auto split: if_splits)
    have nt: "\<not> \<not> bit m k" using True by simp
    note g = read_var_grown [OF "2.prems"(2) r source_var_bound]
    then have w: "wf_builder b1" "\<forall>j < length (ins[k := v]). ins[k := v] ! j < n_values b1"
      using inputs_updated [OF "2.prems"(8)] by (simp_all add: grown_def)
    have d: "distinct ks" "\<forall>j \<in> set ks. j < length (ins[k := v])" "k \<notin> set ks" using "2.prems"(6,7) by simp_all
    note s = read_sources_ok [OF w(1) n(2) d(1,2) w(2)]
    have later: "\<not> b_failed b1" "set (f_inputs (b_f b1)) \<subseteq> set IN" using s "2.prems"(3,4) by (auto simp: grown_def)
    note t = read_var_tracks [OF r later "2.prems"(5) source_var_bound]
    have "ins' ! k = v" using s d(3) "2.prems"(7) by simp
    then show ?thesis
      using "2.IH"(2) [OF nt n(1) r [symmetric] n(2) w(1) "2.prems"(3,4) _ d(1,2) w(2)] t source_value [OF n(1)] by auto
  qed
qed simp

section \<open>One instruction\<close>

lemma used_in: "v \<in> set (used m xs) \<Longrightarrow> \<exists>k < 3. bit m k \<and> v = xs ! k"
  by (auto simp: used_def)

lemma load_shape: "shape i = Some s \<Longrightarrow> i_op i = IR_LOAD_REG \<Longrightarrow> sh_uses s = 0 \<and> sh_result s \<and> \<not> sh_effect s \<and> i_dest i \<ge> 33"
  by (auto simp: shape_def split: if_splits)

lemma store_shape: "shape i = Some s \<Longrightarrow> i_op i = IR_STORE_REG \<Longrightarrow> sh_uses s = 1 \<and> \<not> sh_result s \<and> sh_effect s"
  by (auto simp: shape_def)

lemma mov_shape: "33 \<le> d \<Longrightarrow> shape (ir_make IR_MOV d 0 0 0 pc) = Some \<lparr>sh_uses = 1, sh_result = True, sh_effect = False\<rparr>"
  by (simp add: shape_def ir_make_def)

lemma mov_value: "run_op sem (ir_make IR_MOV d 0 0 0 pc) \<lparr>sh_uses = 1, sh_result = True, sh_effect = False\<rparr> [x] g = (x, g, True)"
  by (simp add: run_op_def ir_make_def op_value_def)

lemma slot_var_bound: "r < 32 \<Longrightarrow> SSA_GPR \<le> slot_var fp r \<and> slot_var fp r < SSA_FP + 32"
  by (auto simp: slot_var_def word_less_nat_alt)

lemma slot_var_value: "r < 32 \<Longrightarrow> var_value temps g (slot_var fp r) = (if fp then g_fpr else g_gpr) g (unat r)"
  by (auto simp: slot_var_def var_value_def slot_value_def word_less_nat_alt)

text \<open>The node before it has a result: its operands are read and, for a load, its slot.\<close>

definition pre_node :: "IRInst \<Rightarrow> Shape \<Rightarrow> nat list \<Rightarrow> SSAInstruction" where
  "pre_node i s ins = \<lparr>n_ir = i, n_result = 0, n_inputs = ins, n_mask = sh_uses s, n_effect = sh_effect s\<rparr>"

lemma prepared:
  assumes "shape i = Some s" "read_sources (sh_uses s) (sources i) [0, 0, 0] [0, 1, 2] b = Some (b1, ins)"
    and "read_slot i (pre_node i s ins) b1 = Some (b2, n)" "wf_builder b"
  shows "grown b b2" "length (n_inputs n) = 3" "\<forall>k < 3. n_inputs n ! k < n_values b2" "n_result n = 0"
    and "i_op (n_ir n) \<noteq> IR_LOAD_REG" "i_op i \<noteq> IR_STORE_REG \<longrightarrow> i_op (n_ir n) \<noteq> IR_STORE_REG"
    and "i_op i = IR_STORE_REG \<longrightarrow> n = pre_node i s ins"
proof -
  have zero: "\<forall>k < length [0, 0, 0 :: nat]. [0, 0, 0] ! k < n_values b" "distinct [0, 1, 2 :: nat]" "\<forall>k \<in> set [0, 1, 2]. k < length [0, 0, 0 :: nat]"
    using assms(4) by (auto simp: wf_builder_def nth_Cons split: nat.splits)
  note r = read_sources_ok [OF assms(4,2) zero(2,3,1)]
  have "grown b b2 \<and> length (n_inputs n) = 3 \<and> (\<forall>k < 3. n_inputs n ! k < n_values b2) \<and> n_result n = 0 \<and>
      i_op (n_ir n) \<noteq> IR_LOAD_REG \<and> (i_op i \<noteq> IR_STORE_REG \<longrightarrow> i_op (n_ir n) \<noteq> IR_STORE_REG) \<and>
      (i_op i = IR_STORE_REG \<longrightarrow> n = pre_node i s ins)"
  proof (cases "i_op i = IR_LOAD_REG")
    case False
    then have "b2 = b1" "n = pre_node i s ins" using assms(3) by (simp_all add: read_slot_def)
    then show ?thesis using r False by (simp add: pre_node_def)
  next
    case True
    obtain v where v: "read_var (slot_var (is_fp_load i) (i_src1 i)) b1 = (b2, v)" "i_src1 i < 32"
      "n = (pre_node i s ins)\<lparr>n_ir := ir_make IR_MOV (i_dest i) 0 0 0 (i_arm_pc i), n_mask := 1, n_inputs := ins[0 := v]\<rparr>"
      using assms(3) True by (auto simp: read_slot_def pre_node_def split: prod.splits if_splits)
    have "wf_builder b1" using r by (simp add: grown_def)
    note g = read_var_grown [OF this v(1)]
    then have "\<forall>k < length (ins[0 := v]). ins[0 := v] ! k < n_values b2"
      using r slot_var_bound [OF v(2)] by (intro inputs_updated [of ins "n_values b1"]) (auto simp: grown_def)
    then show ?thesis using g r grown_trans True slot_var_bound [OF v(2)] v(3) by (auto simp: pre_node_def ir_make_def)
  qed
  then show "grown b b2" "length (n_inputs n) = 3" "\<forall>k < 3. n_inputs n ! k < n_values b2" "n_result n = 0"
    "i_op (n_ir n) \<noteq> IR_LOAD_REG" "i_op i \<noteq> IR_STORE_REG \<longrightarrow> i_op (n_ir n) \<noteq> IR_STORE_REG"
    "i_op i = IR_STORE_REG \<longrightarrow> n = pre_node i s ins" by simp_all
qed

lemma prepared_run:
  assumes "shape i = Some s" "read_sources (sh_uses s) (sources i) [0, 0, 0] [0, 1, 2] b = Some (b1, ins)"
    and "read_slot i (pre_node i s ins) b1 = Some (b2, n)" "wf_builder b"
    and "\<not> b_failed b2" "set (f_inputs (b_f b2)) \<subseteq> set IN" "tracks IN g0 (temps, g) vals b"
  shows "tracks IN g0 (temps, g) vals b2"
    and "exec_inst sem i (temps, g) = (case run_node sem n vals g of (x, g', on) \<Rightarrow>
      ((if sh_result s then temps(unat (i_dest i) := x) else temps, g'), on))"
proof -
  have zero: "\<forall>k < length [0, 0, 0 :: nat]. [0, 0, 0] ! k < n_values b" "distinct [0, 1, 2 :: nat]" "\<forall>k \<in> set [0, 1, 2]. k < length [0, 0, 0 :: nat]"
    using assms(4) by (auto simp: wf_builder_def nth_Cons split: nat.splits)
  note r = read_sources_ok [OF assms(4,2) zero(2,3,1)]
  have "tracks IN g0 (temps, g) vals b2 \<and> exec_inst sem i (temps, g) = (case run_node sem n vals g of (x, g', on) \<Rightarrow>
      ((if sh_result s then temps(unat (i_dest i) := x) else temps, g'), on))"
  proof (cases "i_op i = IR_LOAD_REG")
    case False
    then have e: "b2 = b1" "n = pre_node i s ins" using assms(3) by (simp_all add: read_slot_def)
    note t = read_sources_tracks [OF assms(2,4) _ _ assms(7) zero(2,3,1)]
    have "k \<in> set [0, 1, 2]" if "k < 3" for k :: nat using that by auto
    then have "\<forall>k < 3. bit (sh_uses s) k \<longrightarrow> vals (ins ! k) = read_vreg temps g (sources i ! k)"
      using t assms(5,6) e(1) by (metis fst_conv snd_conv)
    then have "map vals (used (sh_uses s) ins) = map (read_vreg temps g) (used (sh_uses s) (sources i))"
      by (intro used_map [OF shape_mask [OF assms(1)]]) (use r in \<open>simp_all add: sources_def\<close>)
    then show ?thesis
      using t assms(1,5,6) e False
      by (simp add: exec_inst_def run_node_def node_shape_def node_inputs_def pre_node_def del: map_eq_conv)
  next
    case True
    obtain v where v: "read_var (slot_var (is_fp_load i) (i_src1 i)) b1 = (b2, v)" "i_src1 i < 32"
      "n = (pre_node i s ins)\<lparr>n_ir := ir_make IR_MOV (i_dest i) 0 0 0 (i_arm_pc i), n_mask := 1, n_inputs := ins[0 := v]\<rparr>"
      using assms(3) True by (auto simp: read_slot_def pre_node_def split: prod.splits if_splits)
    note bound = slot_var_bound [OF v(2), of "is_fp_load i"]
    have "wf_builder b1" using r by (simp add: grown_def)
    then have g: "grown b1 b2" using read_var_grown [OF _ v(1)] bound by simp
    then have ok: "\<not> b_failed b1" "set (f_inputs (b_f b1)) \<subseteq> set IN" using assms(5,6) by (auto simp: grown_def)
    have "tracks IN g0 (temps, g) vals b1" using read_sources_tracks [OF assms(2,4) ok assms(7) zero(2,3,1)] by blast
    then have t: "tracks IN g0 (temps, g) vals b2 \<and> vals v = var_value temps g (slot_var (is_fp_load i) (i_src1 i))"
      using read_var_tracks [OF v(1) assms(5,6)] bound by (metis fst_conv snd_conv)
    have sh: "sh_result s" "33 \<le> i_dest i" using load_shape [OF assms(1) True] by simp_all
    have "run_node sem n vals g = (vals v, g, True)"
      using r v(3) sh mov_value by (simp add: run_node_def node_shape_def mov_shape node_inputs_def pre_node_def)
    then show ?thesis using t True sh assms(1) slot_var_value [OF v(2), of temps g "is_fp_load i"] by (simp add: exec_inst_def)
  qed
  then show "tracks IN g0 (temps, g) vals b2" "exec_inst sem i (temps, g) = (case run_node sem n vals g of (x, g', on) \<Rightarrow>
      ((if sh_result s then temps(unat (i_dest i) := x) else temps, g'), on))" by simp_all
qed

section \<open>Appending\<close>

lemma run_op_slots:
  assumes "run_op sem i s ins g = (x, g', on)" "i_op i \<noteq> IR_STORE_REG"
  shows "slot_value var g' = slot_value var g"
  using assms by (auto simp: run_op_def slot_value_def split: if_splits prod.splits)

lemma store_slot_value:
  assumes "i_dest i < 32" "SSA_GPR \<le> var" "var < SSA_FP + 32"
  shows "slot_value var (store_slot i x g) = (if var = slot_var (is_fp_store i) (i_dest i) then x else slot_value var g)"
  using assms by (auto simp: store_slot_def slot_value_def slot_var_def word_less_nat_alt)

lemma append_instD:
  assumes "append_inst i b = Some b'"
  obtains s b1 ins b2 n where "shape i = Some s"
    "read_sources (sh_uses s) (sources i) [0, 0, 0] [0, 1, 2] b = Some (b1, ins)"
    "read_slot i (pre_node i s ins) b1 = Some (b2, n)" "\<not> b_failed b2"
    "f_insts (b_f b') = f_insts (b_f b2) @ [n\<lparr>n_result := (if sh_result s then n_values b2 else n_result n)\<rparr>]"
    "f_inputs (b_f b') = f_inputs (b_f b2)" "\<not> b_failed b'"
    "f_variables (b_f b') = f_variables (b_f b2) @ (if sh_result s then [unat (i_dest i)] else [])"
    "b_defs b' = (if sh_result s then (b_defs b2)(unat (i_dest i) \<mapsto> n_values b2)
       else if i_op i = IR_STORE_REG then (b_defs b2)(slot_var (is_fp_store i) (i_dest i) \<mapsto> n_inputs n ! 0) else b_defs b2)"
    "i_op i = IR_STORE_REG \<longrightarrow> i_dest i < 32"
proof -
  obtain s b1 ins b2 n b3 n' b4 where e: "shape i = Some s"
    "read_sources (sh_uses s) (sources i) [0, 0, 0] [0, 1, 2] b = Some (b1, ins)"
    "read_slot i (pre_node i s ins) b1 = Some (b2, n)" "define_result s i n b2 = (b3, n')"
    "define_slot i n' b3 = Some b4" "\<not> b_failed b4" "b' = upd_f (\<lambda>f. f\<lparr>f_insts := f_insts f @ [n']\<rparr>) b4"
    using assms by (auto simp: append_inst_def pre_node_def split: option.splits prod.splits if_splits)
  have st: "i_op i = IR_STORE_REG \<Longrightarrow> \<not> sh_result s" using store_shape [OF e(1)] by simp
  show thesis
    by (rule that [OF e(1-3)])
      (use e(4-7) st in \<open>auto simp: define_result_def define_slot_def new_value_def Let_def upd_f_def split: if_splits\<close>)
qed

lemma append_inst_wf:
  assumes "append_inst i b = Some b'" "wf_builder b"
  shows "wf_builder b' \<and> set (f_inputs (b_f b)) \<subseteq> set (f_inputs (b_f b')) \<and> (\<exists>n. f_insts (b_f b') = f_insts (b_f b) @ [n])"
proof -
  obtain s b1 ins b2 n where e: "shape i = Some s"
    "read_sources (sh_uses s) (sources i) [0, 0, 0] [0, 1, 2] b = Some (b1, ins)"
    "read_slot i (pre_node i s ins) b1 = Some (b2, n)"
    "f_insts (b_f b') = f_insts (b_f b2) @ [n\<lparr>n_result := (if sh_result s then n_values b2 else n_result n)\<rparr>]"
    "f_inputs (b_f b') = f_inputs (b_f b2)"
    "f_variables (b_f b') = f_variables (b_f b2) @ (if sh_result s then [unat (i_dest i)] else [])"
    "b_defs b' = (if sh_result s then (b_defs b2)(unat (i_dest i) \<mapsto> n_values b2)
       else if i_op i = IR_STORE_REG then (b_defs b2)(slot_var (is_fp_store i) (i_dest i) \<mapsto> n_inputs n ! 0) else b_defs b2)"
    "i_op i = IR_STORE_REG \<longrightarrow> i_dest i < 32"
    by (rule append_instD [OF assms(1)])
  note p = prepared [OF e(1-3) assms(2)]
  let ?n = "n\<lparr>n_result := (if sh_result s then n_values b2 else n_result n)\<rparr>"
  have wf: "wf_builder b2" using p(1) by (simp add: grown_def)
  have uses: "v < n_values b2" if "v \<in> set (node_inputs ?n)" for v
    using used_in [of v "n_mask n" "n_inputs n"] that p(3) by (auto simp: node_inputs_def)
  have dest: "unat (i_dest i) < SSA_FP + 32" using u16_bound [of "i_dest i"] by simp
  have slot: "slot_var (is_fp_store i) (i_dest i) < SSA_FP + 32" if "i_op i = IR_STORE_REG"
    using slot_var_bound e(8) that by blast
  have "v < n_values b' \<and> var < SSA_FP + 32" if d: "b_defs b' var = Some v" for var v
    using d wf dest slot p(3) unfolding e(6,7) wf_builder_def by (auto split: if_splits intro: less_SucI)
  moreover have "\<forall>v \<in> set (results (f_insts (b_f b'))). v < n_values b'"
    using wf p(4) unfolding e(4,6) wf_builder_def by (auto intro: less_SucI)
  moreover have "ordered_form (b_f b')"
    using wf p(2,4,5) uses unfolding e(4) wf_builder_def ordered_form_def by (auto simp: e(4) sorted_wrt_append)
  moreover have "0 < n_values b'" using wf e(6) by (simp add: wf_builder_def)
  ultimately show ?thesis using p(1) e(4,5) unfolding grown_def wf_builder_def by auto
qed

lemma append_inst_run:
  assumes "append_inst i b = Some b'" "wf_builder b" "f_insts (b_f b') = f_insts (b_f b) @ [n']"
    and "set (f_inputs (b_f b')) \<subseteq> set IN" "tracks IN g0 (temps, g) vals b" "n_result n' \<noteq> 0 \<longrightarrow> n_result n' \<notin> fst ` set IN"
    and "exec_inst sem i (temps, g) = ((temps', g'), on)"
  shows "\<exists>x. run_node sem n' vals g = (x, g', on) \<and> tracks IN g0 (temps', g') (set_result n' x vals) b'"
proof -
  obtain s b1 ins b2 n where e: "shape i = Some s"
    "read_sources (sh_uses s) (sources i) [0, 0, 0] [0, 1, 2] b = Some (b1, ins)"
    "read_slot i (pre_node i s ins) b1 = Some (b2, n)" "\<not> b_failed b2"
    "f_insts (b_f b') = f_insts (b_f b2) @ [n\<lparr>n_result := (if sh_result s then n_values b2 else n_result n)\<rparr>]"
    "f_inputs (b_f b') = f_inputs (b_f b2)"
    "b_defs b' = (if sh_result s then (b_defs b2)(unat (i_dest i) \<mapsto> n_values b2)
       else if i_op i = IR_STORE_REG then (b_defs b2)(slot_var (is_fp_store i) (i_dest i) \<mapsto> n_inputs n ! 0) else b_defs b2)"
    "i_op i = IR_STORE_REG \<longrightarrow> i_dest i < 32"
    by (rule append_instD [OF assms(1)])
  note p = prepared [OF e(1-3) assms(2)]
  have inputs: "set (f_inputs (b_f b2)) \<subseteq> set IN" using assms(4) e(6) by simp
  note r = prepared_run [OF e(1-3) assms(2) e(4) inputs assms(5)]
  have wf: "wf_builder b2" using p(1) by (simp add: grown_def)
  have n': "n' = n\<lparr>n_result := (if sh_result s then n_values b2 else n_result n)\<rparr>"
    using assms(3) e(5) p(1) by (simp add: grown_def)
  obtain x where x: "run_node sem n vals g = (x, g', on)" "temps' = (if sh_result s then temps(unat (i_dest i) := x) else temps)"
    using r(2) assms(7) by (auto split: prod.splits)
  have "run_node sem n' vals g = (x, g', on)" using x(1) n' by (simp add: run_node_def node_inputs_def node_shape_def)
  moreover have "tracks IN g0 (temps', g') (set_result n' x vals) b'"
  proof (cases "i_op i = IR_STORE_REG")
    case True
    have st: "sh_uses s = 1" "\<not> sh_result s" using store_shape [OF e(1) True] by simp_all
    have n: "n = pre_node i s ins" using p(7) True by simp
    have g': "g' = store_slot i (vals (n_inputs n ! 0)) g"
      using x(1) True st(1) by (simp add: n run_node_def run_op_def pre_node_def node_inputs_def)
    have d: "i_dest i < 32" using e(8) True by simp
    let ?slot = "slot_var (is_fp_store i) (i_dest i)"
    have defs: "b_defs b' = (b_defs b2)(?slot \<mapsto> n_inputs n ! 0)" "temps' = temps" "set_result n' x vals = vals"
      using e(7) True st(2) x(2) n' p(4) by (simp_all add: set_result_def)
    have "var_value temps g' var = vals v" if v: "b_defs b' var = Some v" for var v
    proof (cases "var = ?slot")
      case True
      then show ?thesis
        using v defs(1) slot_var_bound [OF d, of "is_fp_store i"] store_slot_value [OF d, of ?slot] g' by (simp add: var_value_def)
    next
      case False
      then have "b_defs b2 var = Some v" using v defs(1) by simp
      moreover from this have "var < SSA_FP + 32" using wf by (simp add: wf_builder_def)
      moreover have "var_value temps g var = vals v" using r(1) calculation(1) by (simp add: tracks_def)
      ultimately show ?thesis
        using False g' by (simp add: var_value_def store_slot_value [OF d] split: if_splits)
    qed
    then show ?thesis using r(1) defs g' by (auto simp: tracks_def store_slot_value [OF d])
  next
    case False
    then have "i_op (n_ir n) \<noteq> IR_STORE_REG" using p(6) by simp
    then have slots: "slot_value var g' = slot_value var g" for var
      using run_op_slots [of sem "n_ir n" _ _ g x g' on] x(1) by (simp add: run_node_def)
    then have vars_same: "var_value t g' var = var_value t g var" for t var by (simp add: var_value_def)
    show ?thesis
    proof (cases "sh_result s")
      case False
      then show ?thesis using r(1) e(7) \<open>i_op i \<noteq> IR_STORE_REG\<close> x(2) n' p(4)
        by (simp add: tracks_def set_result_def slots vars_same)
    next
      case True
      have nz: "n_values b2 \<noteq> 0" "n_result n' = n_values b2" using wf n' True by (simp_all add: wf_builder_def)
      have new: "b_defs b2 var = Some v \<longrightarrow> v \<noteq> n_values b2" for var v using wf by (auto simp: wf_builder_def)
      have "unat (i_dest i) < SSA_GPR" using u16_bound [of "i_dest i"] by simp
      moreover have "inputs_loaded IN (set_result n' x vals) g0"
        unfolding inputs_loaded_def
      proof (intro ballI, clarify)
        fix v var assume v: "(v, var) \<in> set IN"
        then have "v \<noteq> n_result n'" using assms(6) nz by (auto simp: image_iff)
        then show "set_result n' x vals v = slot_value var g0"
          using r(1) v by (auto simp: tracks_def inputs_loaded_def set_result_def)
      qed
      moreover have "var_value temps' g' var = (if var = unat (i_dest i) then x else var_value temps g var)" for var
        using True x(2) calculation(1) by (simp add: var_value_def slots)
      ultimately show ?thesis using r(1) e(7) True nz new
        by (auto simp: tracks_def set_result_def slots)
    qed
  qed
  ultimately show ?thesis by blast
qed

section \<open>The block\<close>

lemma append_all_wf:
  "append_all is b = Some b' \<Longrightarrow> wf_builder b \<Longrightarrow>
     wf_builder b' \<and> set (f_inputs (b_f b)) \<subseteq> set (f_inputs (b_f b')) \<and> (\<exists>ns. f_insts (b_f b') = f_insts (b_f b) @ ns)"
proof (induction "is" b rule: append_all.induct)
  case (2 i "is" b)
  then obtain c where c: "append_inst i b = Some c" "append_all is c = Some b'" by (auto split: option.splits)
  note a = append_inst_wf [OF c(1) "2.prems"(2)]
  then have w: "wf_builder c" by simp
  show ?case using "2.IH" [OF c w] a by auto
qed simp

lemma append_all_run:
  assumes "append_all is b = Some b'" "wf_builder b" "f_insts (b_f b') = f_insts (b_f b) @ ns"
    and "set (f_inputs (b_f b')) \<subseteq> set IN" "tracks IN g0 (temps, g) vals b" "set (results ns) \<inter> fst ` set IN = {}"
  shows "exec_nodes sem ns vals g = (case exec_block sem is (temps, g) of (st, on) \<Rightarrow> (snd st, on))"
  using assms
proof (induction "is" b arbitrary: ns temps g vals rule: append_all.induct)
  case (2 i "is" b)
  obtain c where c: "append_inst i b = Some c" "append_all is c = Some b'"
    using "2.prems"(1) by (auto split: option.splits)
  obtain n where n: "f_insts (b_f c) = f_insts (b_f b) @ [n]" and wf: "wf_builder c"
    using append_inst_wf [OF c(1) "2.prems"(2)] by blast
  note a = append_all_wf [OF c(2) wf]
  then obtain ms where ms: "ns = n # ms" "f_insts (b_f b') = f_insts (b_f c) @ ms"
    using "2.prems"(3) n by auto
  have inp: "set (f_inputs (b_f c)) \<subseteq> set IN" using a "2.prems"(4) by blast
  have res: "n_result n \<noteq> 0 \<longrightarrow> n_result n \<notin> fst ` set IN" "set (results ms) \<inter> fst ` set IN = {}"
    using "2.prems"(6) ms(1) by (auto split: if_splits)
  obtain temps' g' on where x: "exec_inst sem i (temps, g) = ((temps', g'), on)" by (metis prod.exhaust)
  obtain v where v: "run_node sem n vals g = (v, g', on)" "tracks IN g0 (temps', g') (set_result n v vals) c"
    using append_inst_run [OF c(1) "2.prems"(2) n inp "2.prems"(5) res(1) x] by blast
  show ?case using "2.IH" [OF c wf ms(2) "2.prems"(4) v(2) res(2)] x v(1) ms(1) by simp
qed simp

lemma wf_builder_init: "wf_builder Builder_init"
  by (simp add: Builder_init_def wf_builder_def ordered_form_def)

lemma build_ssaD:
  assumes "build_ssa is = Some f"
  obtains b where "append_all is Builder_init = Some b" "f = b_f b" "validate_ssa f"
  using assms by (auto simp: build_ssa_def split: option.splits if_splits)

lemma build_ssa_block: "build_ssa is = Some f \<Longrightarrow> ssa_block f"
proof (elim build_ssaD)
  fix b assume b: "append_all is Builder_init = Some b" "f = b_f b" "validate_ssa f"
  show "ssa_block f"
    using append_all_wf [OF b(1) wf_builder_init] validate_ssa_form [OF b(3)] b(2) by (simp add: ssa_block_def wf_builder_def)
qed

lemma build_ssa_run:
  assumes "build_ssa is = Some f" "inputs_loaded (f_inputs f) vals g"
  shows "exec_nodes sem (f_insts f) vals g = (case exec_block sem is (temps, g) of (st, on) \<Rightarrow> (snd st, on))"
proof -
  obtain b where b: "append_all is Builder_init = Some b" "f = b_f b" "validate_ssa f"
    by (rule build_ssaD [OF assms(1)])
  have d: "set (results (f_insts f)) \<inter> fst ` set (f_inputs f) = {}"
    using validate_ssa_form [OF b(3)] by (auto simp: valid_form_def)
  have t: "tracks (f_inputs f) g (temps, g) vals Builder_init"
    using assms(2) by (simp add: tracks_def Builder_init_def)
  show ?thesis
    by (rule append_all_run [OF b(1) wf_builder_init _ _ t d]) (simp_all add: b(2) Builder_init_def)
qed

end
