(* ===== verification/SsaLower.thy ===== *)
theory SsaLower
  imports SsaBuild
begin

text \<open>
  Lowering a block: every value gets one register of its own and keeps it, an input is loaded while its
  slot still holds its initial value, and a constant that is materialized again goes to a register that
  no value has. So the block computes what the graph computes.
\<close>

section \<open>Homes\<close>

definition wf_lower :: "Lowering \<Rightarrow> bool" where
  "wf_lower l \<longleftrightarrow> 33 \<le> l_next l \<and> l_next l \<le> 4096 \<and>
     (\<forall>v < length (l_homes l). l_homes l ! v \<noteq> 0 \<longrightarrow> 33 \<le> unat (l_homes l ! v) \<and> unat (l_homes l ! v) < l_next l) \<and>
     (\<forall>v < length (l_homes l). \<forall>w < length (l_homes l). l_homes l ! v \<noteq> 0 \<and> l_homes l ! v = l_homes l ! w \<longrightarrow> v = w)"

text \<open>A later state has the homes of an earlier one, and its new homes come after those.\<close>

definition lowered :: "Lowering \<Rightarrow> Lowering \<Rightarrow> bool" where
  "lowered l l' \<longleftrightarrow> wf_lower l' \<and> length (l_homes l') = length (l_homes l) \<and> l_next l \<le> l_next l' \<and>
     (\<forall>v < length (l_homes l). if l_homes l ! v \<noteq> 0 then l_homes l' ! v = l_homes l ! v
        else l_homes l' ! v \<noteq> 0 \<longrightarrow> l_next l \<le> unat (l_homes l' ! v))"

lemma lowered_refl: "wf_lower l \<Longrightarrow> lowered l l"
  by (simp add: lowered_def)

lemma lowered_wf: "lowered l l' \<Longrightarrow> wf_lower l' \<and> length (l_homes l') = length (l_homes l) \<and> l_next l \<le> l_next l'"
  by (simp add: lowered_def)

lemma lowered_home: "lowered l l' \<Longrightarrow> v < length (l_homes l) \<Longrightarrow> l_homes l ! v \<noteq> 0 \<Longrightarrow> l_homes l' ! v = l_homes l ! v"
  by (auto simp: lowered_def)

lemma lowered_new:
  "lowered l l' \<Longrightarrow> v < length (l_homes l) \<Longrightarrow> l_homes l ! v = 0 \<Longrightarrow> l_homes l' ! v \<noteq> 0 \<Longrightarrow> l_next l \<le> unat (l_homes l' ! v)"
  by (auto simp: lowered_def dest!: spec [of _ v] split: if_splits)

lemma lowered_trans:
  assumes "lowered l k" "lowered k m"
  shows "lowered l m"
proof -
  note w = lowered_wf [OF assms(1)] lowered_wf [OF assms(2)]
  have "if l_homes l ! v \<noteq> 0 then l_homes m ! v = l_homes l ! v
      else l_homes m ! v \<noteq> 0 \<longrightarrow> l_next l \<le> unat (l_homes m ! v)" if v: "v < length (l_homes l)" for v
  proof (cases "l_homes l ! v = 0")
    case False
    then show ?thesis using lowered_home [OF assms(1) v] lowered_home [OF assms(2), of v] w v by simp
  next
    case True
    then show ?thesis
      using lowered_new [OF assms(1) v True] lowered_new [OF assms(2), of v] lowered_home [OF assms(2), of v] w v
      by (cases "l_homes k ! v = 0") auto
  qed
  then show ?thesis using w by (simp add: lowered_def)
qed

lemma unat_slot: "n < 4096 \<Longrightarrow> unat (of_nat n :: u16) = n"
  by (simp add: unat_of_nat take_bit_nat_eq_self)

lemma home_ok:
  assumes "home v l = (l', h)" "wf_lower l" "v < length (l_homes l)"
  shows "lowered l l'" "h = l_homes l' ! v" "l_next l' < 4096 \<longrightarrow> h \<noteq> 0"
proof -
  have "lowered l l' \<and> h = l_homes l' ! v \<and> (l_next l' < 4096 \<longrightarrow> h \<noteq> 0)"
  proof (cases "l_homes l ! v = 0 \<and> l_next l < 4096")
    case False
    then show ?thesis using assms lowered_refl [OF assms(2)] by (auto simp: home_def)
  next
    case True
    let ?h = "of_nat (l_next l) :: u16"
    have u: "unat ?h = l_next l" using True by (simp add: unat_slot)
    have e: "l' = l\<lparr>l_homes := (l_homes l)[v := ?h], l_next := l_next l + 1\<rparr>" "h = ?h"
      using assms(1,3) True by (auto simp: home_def Let_def)
    have "33 \<le> l_next l" using assms(2) by (simp add: wf_lower_def)
    then have nz: "?h \<noteq> 0" using u by auto
    have old: "l_homes l ! w \<noteq> ?h" if "w < length (l_homes l)" for w
      using assms(2) that u nz unfolding wf_lower_def by fastforce
    have "wf_lower l'"
      using assms(2,3) True u old nz \<open>33 \<le> l_next l\<close> old [THEN not_sym] unfolding e(1) wf_lower_def
      by (auto simp: nth_list_update less_SucI)
    then show ?thesis using assms(3) True u nz by (auto simp: lowered_def e nth_list_update)
  qed
  then show "lowered l l'" "h = l_homes l' ! v" "l_next l' < 4096 \<longrightarrow> h \<noteq> 0" by blast+
qed

lemma home_final:
  assumes "home v l = (l', h)" "wf_lower l" "v < length (l_homes l)" "lowered l' lf" "l_next lf < 4096"
  shows "h = l_homes lf ! v" "33 \<le> l_homes lf ! v"
proof -
  note k = home_ok [OF assms(1-3)]
  have "l_next l' < 4096" using lowered_wf [OF assms(4)] assms(5) by simp
  then have nz: "l_homes l' ! v \<noteq> 0" using k by simp
  have v: "v < length (l_homes l')" using lowered_wf [OF k(1)] assms(3) by simp
  then show "h = l_homes lf ! v" using lowered_home [OF assms(4) v nz] k(2) by simp
  have "33 \<le> unat (l_homes l' ! v)" using lowered_wf [OF k(1)] nz v by (simp add: wf_lower_def)
  then show "33 \<le> l_homes lf ! v" using lowered_home [OF assms(4) v nz] by (simp add: word_le_nat_alt)
qed

section \<open>One node\<close>

text \<open>The instruction of a node, its operands renamed.\<close>

definition renamed_inst :: "(nat \<Rightarrow> u16) \<Rightarrow> SSAInstruction \<Rightarrow> IRInst" where
  "renamed_inst H n = (n_ir n)\<lparr>i_dest := (if n_result n \<noteq> 0 then H (n_result n) else i_dest (n_ir n)),
     i_src1 := (if bit (n_mask n) 0 then H (n_inputs n ! 0) else i_src1 (n_ir n)),
     i_src2 := (if bit (n_mask n) 1 then H (n_inputs n ! 1) else i_src2 (n_ir n)),
     i_aux := (if bit (n_mask n) 2 then H (n_inputs n ! 2) else i_aux (n_ir n))\<rparr>"

definition final :: "Lowering \<Rightarrow> Lowering \<Rightarrow> bool" where
  "final l lf \<longleftrightarrow> lowered l lf \<and> l_next lf < 4096"

lemma lower_result_ok:
  assumes "lower_result n (l, i) = (l', i')" "wf_lower l" "n_result n \<noteq> 0 \<longrightarrow> n_result n < length (l_homes l)"
  shows "lowered l l'" "final l' lf \<Longrightarrow> i' = i\<lparr>i_dest := (if n_result n \<noteq> 0 then l_homes lf ! n_result n else i_dest i)\<rparr> \<and>
    (n_result n \<noteq> 0 \<longrightarrow> 33 \<le> l_homes lf ! n_result n)"
  using assms home_ok(1) [of "n_result n" l] home_final [of "n_result n" l _ _ lf] lowered_refl [of l]
  by (auto simp: lower_result_def final_def split: prod.splits if_splits)

lemma lower_src1_ok:
  assumes "lower_src1 n (l, i) = (l', i')" "wf_lower l" "bit (n_mask n) 0 \<longrightarrow> n_inputs n ! 0 < length (l_homes l)"
  shows "lowered l l'" "final l' lf \<Longrightarrow> i' = i\<lparr>i_src1 := (if bit (n_mask n) 0 then l_homes lf ! (n_inputs n ! 0) else i_src1 i)\<rparr> \<and>
    (bit (n_mask n) 0 \<longrightarrow> 33 \<le> l_homes lf ! (n_inputs n ! 0))"
  using assms home_ok(1) [of "n_inputs n ! 0" l] home_final [of "n_inputs n ! 0" l _ _ lf] lowered_refl [of l]
  by (auto simp: lower_src1_def final_def split: prod.splits if_splits)

lemma lower_src2_ok:
  assumes "lower_src2 n (l, i) = (l', i')" "wf_lower l" "bit (n_mask n) 1 \<longrightarrow> n_inputs n ! 1 < length (l_homes l)"
  shows "lowered l l'" "final l' lf \<Longrightarrow> i' = i\<lparr>i_src2 := (if bit (n_mask n) 1 then l_homes lf ! (n_inputs n ! 1) else i_src2 i)\<rparr> \<and>
    (bit (n_mask n) 1 \<longrightarrow> 33 \<le> l_homes lf ! (n_inputs n ! 1))"
  using assms home_ok(1) [of "n_inputs n ! 1" l] home_final [of "n_inputs n ! 1" l _ _ lf] lowered_refl [of l]
  by (auto simp: lower_src2_def final_def split: prod.splits if_splits)

lemma lower_aux_ok:
  assumes "lower_aux n (l, i) = (l', i')" "wf_lower l" "bit (n_mask n) 2 \<longrightarrow> n_inputs n ! 2 < length (l_homes l)"
  shows "lowered l l'" "final l' lf \<Longrightarrow> i' = i\<lparr>i_aux := (if bit (n_mask n) 2 then l_homes lf ! (n_inputs n ! 2) else i_aux i)\<rparr> \<and>
    (bit (n_mask n) 2 \<longrightarrow> 33 \<le> l_homes lf ! (n_inputs n ! 2))"
  using assms home_ok(1) [of "n_inputs n ! 2" l] home_final [of "n_inputs n ! 2" l _ _ lf] lowered_refl [of l]
  by (auto simp: lower_aux_def final_def split: prod.splits if_splits)

lemma lower_constant_ok:
  assumes "lower_constant c (l, i) = Some (l', i', imm)" "wf_lower l"
  shows "lowered l l'" "final l' lf \<Longrightarrow> (case c of None \<Rightarrow> i' = i \<and> imm = []
     | Some x \<Rightarrow> \<exists>h. i' = i\<lparr>i_src2 := h\<rparr> \<and> imm = [make_imm h x (i_arm_pc i)] \<and> 33 \<le> h \<and>
         (\<forall>v < length (l_homes l). l_homes lf ! v \<noteq> h))"
proof -
  have e: "if c = None then l' = l \<and> i' = i \<and> imm = [] else l_next l < 4096 \<and> l' = l\<lparr>l_next := l_next l + 1\<rparr> \<and>
      i' = i\<lparr>i_src2 := of_nat (l_next l)\<rparr> \<and> imm = [make_imm (of_nat (l_next l)) (the c) (i_arm_pc i)]"
    using assms(1) by (auto simp: lower_constant_def Let_def split: option.splits if_splits)
  have wf: "wf_lower l'" using e assms(2) by (auto simp: wf_lower_def less_SucI split: if_splits)
  then show low: "lowered l l'" using e by (auto simp: lowered_def split: if_splits)
  assume f: "final l' lf"
  show "case c of None \<Rightarrow> i' = i \<and> imm = []
     | Some x \<Rightarrow> \<exists>h. i' = i\<lparr>i_src2 := h\<rparr> \<and> imm = [make_imm h x (i_arm_pc i)] \<and> 33 \<le> h \<and>
         (\<forall>v < length (l_homes l). l_homes lf ! v \<noteq> h)"
  proof (cases c)
    case (Some x)
    let ?h = "of_nat (l_next l) :: u16"
    have k: "l_next l < 4096" "l' = l\<lparr>l_next := l_next l + 1\<rparr>" using e Some by simp_all
    have u: "unat ?h = l_next l" using k(1) by (simp add: unat_slot)
    have h: "33 \<le> unat ?h" using assms(2) u by (simp add: wf_lower_def)
    have "l_homes lf ! v \<noteq> ?h" if v: "v < length (l_homes l)" for v
    proof (cases "l_homes l ! v = 0")
      case True
      have "?h \<noteq> 0" using h by (metis not_numeral_le_zero unat_0)
      then show ?thesis using lowered_new [of l' lf v] f v k(2) u True by (auto simp: final_def)
    next
      case False
      have "unat (l_homes l ! v) < l_next l" using assms(2) v False by (simp add: wf_lower_def)
      then show ?thesis using lowered_home [of l' lf v] f v k(2) u False by (auto simp: final_def)
    qed
    then show ?thesis using e Some h by (auto simp: word_le_nat_alt)
  qed (use e in simp)
qed

lemma final_before: "lowered l l' \<Longrightarrow> final l' lf \<Longrightarrow> final l lf"
  using lowered_trans by (auto simp: final_def)

text \<open>The registers of the values a node names.\<close>

definition node_values :: "SSAInstruction \<Rightarrow> nat set" where
  "node_values n = (if n_result n \<noteq> 0 then {n_result n} else {}) \<union> set (node_inputs n)"

lemma node_inputs_bits: "k < 3 \<Longrightarrow> bit (n_mask n) k \<Longrightarrow> n_inputs n ! k \<in> set (node_inputs n)"
  by (auto simp: node_inputs_def used_def)

definition node_code :: "SSAInstruction list \<Rightarrow> (nat \<Rightarrow> u16) \<Rightarrow> nat \<Rightarrow> SSAInstruction \<Rightarrow> IRInst list \<Rightarrow> bool" where
  "node_code ns H N n out \<longleftrightarrow> (\<forall>v \<in> node_values n. 33 \<le> H v) \<and> (case rematerialize ns n of
       None \<Rightarrow> out = [renamed_inst H n]
     | Some x \<Rightarrow> \<exists>h. 33 \<le> h \<and> (\<forall>v < N. H v \<noteq> h) \<and>
         out = [make_imm h x (i_arm_pc (n_ir n)), (renamed_inst H n)\<lparr>i_src2 := h\<rparr>])"

lemma lower_node_ok:
  assumes "lower_node ns n l = Some (l', out)" "wf_lower l" "\<forall>v \<in> node_values n. v < length (l_homes l)"
  shows "lowered l l'" "final l' lf \<Longrightarrow> node_code ns ((!) (l_homes lf)) (length (l_homes l)) n out"
proof -
  obtain l1 i1 where s1: "lower_result n (l, n_ir n) = (l1, i1)" by fastforce
  obtain l2 i2 where s2: "lower_src1 n (l1, i1) = (l2, i2)" by fastforce
  obtain l3 i3 where s3: "lower_src2 n (l2, i2) = (l3, i3)" by fastforce
  obtain l4 i4 imm where s4: "lower_constant (rematerialize ns n) (l3, i3) = Some (l4, i4, imm)"
    using assms(1) s1 s2 s3 by (auto simp: lower_node_def split: option.splits)
  obtain i5 where s5: "lower_aux n (l4, i4) = (l', i5)" and out: "out = imm @ [i5]"
    using assms(1) s1 s2 s3 s4 by (auto simp: lower_node_def split: prod.splits)
  have lt: "n_result n \<noteq> 0 \<longrightarrow> n_result n < length (l_homes l)" "k < 3 \<Longrightarrow> bit (n_mask n) k \<longrightarrow> n_inputs n ! k < length (l_homes l)" for k
    using assms(3) node_inputs_bits [of k n] by (auto simp: node_values_def)
  note k1 = lower_result_ok [OF s1 assms(2) lt(1)]
  note w1 = lowered_wf [OF k1(1)]
  note k2 = lower_src1_ok [OF s2] note k2 = k2 [OF w1 [THEN conjunct1]]
  have b2: "bit (n_mask n) 0 \<longrightarrow> n_inputs n ! 0 < length (l_homes l1)" using lt(2) [of 0] w1 by simp
  note k2 = k2 [OF b2] note w2 = lowered_wf [OF k2(1)]
  have b3: "bit (n_mask n) 1 \<longrightarrow> n_inputs n ! 1 < length (l_homes l2)" using lt(2) [of 1] w1 w2 by simp
  note k3 = lower_src2_ok [OF s3 w2 [THEN conjunct1] b3] note w3 = lowered_wf [OF k3(1)]
  note k4 = lower_constant_ok [OF s4 w3 [THEN conjunct1]] note w4 = lowered_wf [OF k4(1)]
  have b5: "bit (n_mask n) 2 \<longrightarrow> n_inputs n ! 2 < length (l_homes l4)" using lt(2) [of 2] w1 w2 w3 w4 by simp
  note k5 = lower_aux_ok [OF s5 w4 [THEN conjunct1] b5]
  show "lowered l l'" using k1(1) k2(1) k3(1) k4(1) k5(1) lowered_trans by blast
  assume f5: "final l' lf"
  note f4 = final_before [OF k5(1) f5]
  note f3 = final_before [OF k4(1) f4]
  note f2 = final_before [OF k3(1) f3]
  note f1 = final_before [OF k2(1) f2]
  note e = k1(2) [OF f1] k2(2) [OF f2] k3(2) [OF f3] k4(2) [OF f4] k5(2) [OF f5]
  have "33 \<le> l_homes lf ! v" if v: "v \<in> node_values n" for v
  proof (cases "v \<in> set (node_inputs n)")
    case True
    then obtain k where k: "k < 3" "bit (n_mask n) k" "v = n_inputs n ! k"
      using used_in [of v "n_mask n" "n_inputs n"] by (auto simp: node_inputs_def)
    from k(1) have "k = 0 \<or> k = 1 \<or> k = 2" by linarith
    then show ?thesis using k(2,3) e(2,3,5) by (elim disjE) blast+
  next
    case False
    then have "n_result n \<noteq> 0" "v = n_result n" using v by (auto simp: node_values_def split: if_splits)
    then show ?thesis using e(1) by simp
  qed
  moreover have "renamed_inst ((!) (l_homes lf)) n = i4\<lparr>i_aux := i_aux i5\<rparr> \<and> i5 = i4\<lparr>i_aux := i_aux i5\<rparr>" if "rematerialize ns n = None"
    using that e by (simp add: renamed_inst_def)
  moreover have "i5 = (renamed_inst ((!) (l_homes lf)) n)\<lparr>i_src2 := i_src2 i4\<rparr>" if "rematerialize ns n = Some x" for x
    using that e by (auto simp: renamed_inst_def)
  moreover have "i_arm_pc i3 = i_arm_pc (n_ir n)" using e(1-3) by simp
  ultimately show "node_code ns ((!) (l_homes lf)) (length (l_homes l)) n out"
    using out e(4) w1 w2 w3 by (auto simp: node_code_def split: option.splits)
qed

end
