(* ===== verification/SsaLowerRun.thy ===== *)
theory SsaLowerRun
  imports SsaLower
begin

text \<open>
  The lowered block runs as the graph does: each value defined or loaded so far is in its home, and the
  slots of the inputs that are still to be loaded hold their initial values.
\<close>

section \<open>Where inputs are loaded\<close>

definition load_at :: "SSAInstruction list \<Rightarrow> nat \<Rightarrow> nat \<Rightarrow> nat" where
  "load_at ns v var = fst (load_input ns v var)"

lemma before_constants_le: "before_constants ns j \<le> j"
  by (induction j) auto

lemma first_use_is: "first_use v var ns j = (if \<exists>n \<in> set ns. input_used v var n
    then j + length (takeWhile (\<lambda>n. \<not> input_used v var n) ns) else 0)"
  by (induction v var ns j rule: first_use.induct) auto

lemma load_at_le: "load_at ns v var \<le> first_use v var ns 0"
  by (simp add: load_at_def load_input_def Let_def before_constants_le)

lemma load_at_unused: "k < load_at ns v var \<Longrightarrow> k < length ns \<and> \<not> input_used v var (ns ! k)"
proof -
  assume "k < load_at ns v var"
  then have "k < length (takeWhile (\<lambda>n. \<not> input_used v var n) ns)"
    using load_at_le [of ns v var] by (simp add: first_use_is split: if_splits)
  then show ?thesis
    using length_takeWhile_le [of "\<lambda>n. \<not> input_used v var n" ns] nth_length_takeWhile takeWhile_nth
      set_takeWhileD nth_mem by (metis order_less_le_trans)
qed

lemma load_at_used:
  assumes "k < length ns" "input_used v var (ns ! k)"
  shows "load_at ns v var \<le> k"
proof (rule ccontr)
  assume "\<not> load_at ns v var \<le> k"
  then show False using load_at_unused [of k ns v var] assms by simp
qed

lemma load_at_bound: "load_at ns v var \<le> length ns"
  using load_at_unused [of "load_at ns v var - 1" ns v var] by (cases "load_at ns v var = 0") auto

definition load_code :: "SSAInstruction list \<Rightarrow> (nat \<Rightarrow> u16) \<Rightarrow> nat \<times> nat \<Rightarrow> IRInst" where
  "load_code ns H x = (case load_input ns (fst x) (snd x) of (at, fp, slot, pc) \<Rightarrow> make_load_reg (H (fst x)) slot fp pc)"

definition loads_for :: "SSAInstruction list \<Rightarrow> (nat \<times> nat) list \<Rightarrow> nat \<Rightarrow> (nat \<times> nat) list" where
  "loads_for ns xs j = filter (\<lambda>x. load_at ns (fst x) (snd x) = j) xs"

lemma load_inputs_ok:
  assumes "load_inputs ns xs l loads = (l', loads')" "wf_lower l" "\<forall>x \<in> set xs. fst x < length (l_homes l)"
    and "length loads = length ns + 1"
  shows "lowered l l' \<and> length loads' = length loads \<and> (final l' lf \<longrightarrow>
    (\<forall>x \<in> set xs. 33 \<le> l_homes lf ! fst x) \<and>
    (\<forall>j < length loads. loads' ! j = loads ! j @ map (load_code ns ((!) (l_homes lf))) (loads_for ns xs j)))"
  using assms
proof (induction ns xs l loads rule: load_inputs.induct)
  case (1 ns l loads)
  then show ?case by (simp add: lowered_refl loads_for_def)
next
  case (2 ns v var xs l loads)
  obtain at fp slot pc where i: "load_input ns v var = (at, fp, slot, pc)" by (metis prod_cases4)
  obtain k h where h: "home v l = (k, h)" by fastforce
  let ?loads = "loads[at := loads ! at @ [make_load_reg h slot fp pc]]"
  have v: "v < length (l_homes l)" using "2.prems"(3) by simp
  note o1 = home_ok [OF h "2.prems"(2) v]
  note w = lowered_wf [OF o1(1)]
  have r: "load_inputs ns xs k ?loads = (l', loads')" using "2.prems"(1) i h by simp
  have ih: "lowered k l' \<and> length loads' = length ?loads \<and> (final l' lf \<longrightarrow>
    (\<forall>x \<in> set xs. 33 \<le> l_homes lf ! fst x) \<and>
    (\<forall>j < length ?loads. loads' ! j = ?loads ! j @ map (load_code ns ((!) (l_homes lf))) (loads_for ns xs j)))"
    by (rule "2.IH" [OF i [symmetric] refl refl h [symmetric] r]) (use w "2.prems"(3,4) in auto)
  have at: "load_at ns v var = at" "at < length loads" using i load_at_bound [of ns v var] "2.prems"(4) by (simp_all add: load_at_def)
  have "(\<forall>x \<in> set ((v, var) # xs). 33 \<le> l_homes lf ! fst x) \<and>
      (\<forall>j < length loads. loads' ! j = loads ! j @ map (load_code ns ((!) (l_homes lf))) (loads_for ns ((v, var) # xs) j))"
    if f: "final l' lf"
  proof -
    have "lowered k lf" "l_next lf < 4096" using f ih lowered_trans by (auto simp: final_def)
    note hv = home_final [OF h "2.prems"(2) v this]
    show ?thesis using ih f hv at i by (auto simp: loads_for_def load_code_def nth_list_update)
  qed
  then show ?case using lowered_trans [OF o1(1)] ih by simp
qed

section \<open>Running\<close>

lemma exec_block_append:
  "exec_block sem (xs @ ys) st = (case exec_block sem xs st of (st', on) \<Rightarrow> if on then exec_block sem ys st' else (st', False))"
  by (induction sem xs st rule: exec_block.induct) (auto split: prod.splits)

definition placed :: "(nat \<Rightarrow> u16) \<Rightarrow> nat set \<Rightarrow> (nat \<Rightarrow> u64) \<Rightarrow> (nat \<Rightarrow> u64) \<Rightarrow> bool" where
  "placed H D temps vals \<longleftrightarrow> (\<forall>v \<in> D. temps (unat (H v)) = vals v)"

lemma placed_insert:
  assumes "placed H D temps vals" "inj_on H (insert v D)" "\<forall>w \<in> D. w \<noteq> v \<longrightarrow> vals' w = vals w" "vals' v = x"
  shows "placed H (insert v D) (temps(unat (H v) := x)) vals'"
  unfolding placed_def
proof
  fix w assume w: "w \<in> insert v D"
  show "(temps(unat (H v) := x)) (unat (H w)) = vals' w"
  proof (cases "w = v")
    case False
    then have "H w \<noteq> H v" using w assms(2) by (auto simp: inj_on_def)
    then have "unat (H w) \<noteq> unat (H v)" by (metis unsigned_word_eqI)
    then show ?thesis using False w assms(1,3) by (simp add: placed_def)
  qed (simp add: assms(4))
qed

lemma load_run:
  assumes "33 \<le> H v" "SSA_GPR \<le> var" "var < SSA_FP + 32"
  shows "exec_inst sem (load_code ns H (v, var)) (temps, g) = ((temps(unat (H v) := slot_value var g), g), True)"
proof -
  have "unat (of_nat (var - (if SSA_FP \<le> var then SSA_FP else SSA_GPR)) :: u16) = var - (if SSA_FP \<le> var then SSA_FP else SSA_GPR)"
    using assms(2,3) by (intro unat_slot) auto
  then show ?thesis using assms(1)
    by (simp add: load_code_def load_input_def Let_def make_load_reg_def ir_make_def exec_inst_def shape_def
      is_fp_load_def slot_value_def)
qed

lemma loads_run:
  assumes "\<forall>x \<in> set xs. 33 \<le> H (fst x) \<and> SSA_GPR \<le> snd x \<and> snd x < SSA_FP + 32 \<and> slot_value (snd x) g = vals (fst x)"
    and "placed H D temps vals" "inj_on H (D \<union> fst ` set xs)"
  shows "\<exists>temps'. exec_block sem (map (load_code ns H) xs) (temps, g) = ((temps', g), True) \<and>
    placed H (D \<union> fst ` set xs) temps' vals"
  using assms
proof (induction xs arbitrary: D temps)
  case (Cons x xs)
  obtain v var where x: "x = (v, var)" by (cases x)
  have p: "placed H (insert v D) (temps(unat (H v) := slot_value var g)) vals"
    by (rule placed_insert [OF Cons.prems(2)])
      (use Cons.prems(1,3) x in \<open>auto intro: inj_on_subset\<close>)
  have inj: "inj_on H (insert v D \<union> fst ` set xs)" using Cons.prems(3) x by (simp add: inj_on_subset)
  have "\<forall>x \<in> set xs. 33 \<le> H (fst x) \<and> SSA_GPR \<le> snd x \<and> snd x < SSA_FP + 32 \<and> slot_value (snd x) g = vals (fst x)"
    using Cons.prems(1) by simp
  then obtain temps' where t: "exec_block sem (map (load_code ns H) xs) (temps(unat (H v) := slot_value var g), g) = ((temps', g), True)"
    "placed H (insert v D \<union> fst ` set xs) temps' vals"
    using Cons.IH [OF _ p inj] by blast
  have "exec_inst sem (load_code ns H x) (temps, g) = ((temps(unat (H v) := slot_value var g), g), True)"
    unfolding x by (rule load_run) (use Cons.prems(1) x in auto)
  then show ?case using t x by auto
qed simp

section \<open>Running a node\<close>

lemma op_value_names: "op_value sem (i\<lparr>i_dest := d, i_src1 := a, i_src2 := b, i_aux := c\<rparr>) ins = op_value sem i ins"
  by (cases "i_op i") (simp_all add: unnamed_def op_value_def ir_meaning_def Let_def)

lemma run_op_names:
  assumes "i_op i \<noteq> IR_STORE_REG \<or> d = i_dest i"
  shows "run_op sem (i\<lparr>i_dest := d, i_src1 := a, i_src2 := b, i_aux := c\<rparr>) s ins g = run_op sem i s ins g"
  using assms by (auto simp: run_op_def store_slot_def is_fp_store_def unnamed_def op_value_names)

lemma inst_run:
  assumes "contract_ok n" "i_op (n_ir n) \<noteq> IR_LOAD_REG"
    and "d = (if n_result n \<noteq> 0 then H (n_result n) else i_dest (n_ir n))" "n_result n \<noteq> 0 \<longrightarrow> 33 \<le> H (n_result n)"
    and "map (read_vreg temps g) (used (n_mask n) [a, b, c]) = map vals (node_inputs n)"
    and "run_node sem n vals g = (x, g', on)"
  shows "exec_inst sem ((n_ir n)\<lparr>i_dest := d, i_src1 := a, i_src2 := b, i_aux := c\<rparr>) (temps, g) =
    ((if n_result n \<noteq> 0 then temps(unat (H (n_result n)) := x) else temps, g'), on)"
proof -
  let ?i = "(n_ir n)\<lparr>i_dest := d, i_src1 := a, i_src2 := b, i_aux := c\<rparr>"
  note s = contract_shape [OF assms(1)] and m = contract_mask [OF assms(1)]
  have "shape ?i = Some (node_shape n)"
    by (rule shape_same [OF s]) (use assms(3,4) m in auto)
  moreover have "i_op (n_ir n) \<noteq> IR_STORE_REG \<or> d = i_dest (n_ir n)"
    using store_shape [OF s] m assms(3) by auto
  then have "run_op sem ?i (node_shape n) (map vals (node_inputs n)) g = (x, g', on)"
    using assms(6) by (simp add: run_op_names run_node_def)
  ultimately show ?thesis using assms(2,3,5) m by (simp add: exec_inst_def sources_def del: map_eq_conv)
qed

lemma imm_run: "33 \<le> h \<Longrightarrow> exec_inst sem (make_imm h x pc) (temps, g) = ((temps(unat h := x), g), True)"
  by (simp add: exec_inst_def make_imm_def ir_make_def shape_def run_op_def op_value_def)

lemma read_home: "placed H D temps vals \<Longrightarrow> v \<in> D \<Longrightarrow> 33 \<le> H v \<Longrightarrow> read_vreg temps g (H v) = vals v"
proof -
  assume p: "placed H D temps vals" "v \<in> D" and h: "33 \<le> H v"
  have "\<not> H v < 32" "H v \<noteq> 32" using h by (auto simp: not_less intro: order_trans [of _ 33])
  then show ?thesis using p by (simp add: read_vreg_def placed_def)
qed

lemma rematerialize_constant:
  "rematerialize ns n = Some x \<Longrightarrow> bit (n_mask n) 1 \<and> constants ns (n_inputs n ! 1) = Some x"
  by (auto simp: rematerialize_def split: if_splits option.splits IROp.splits)

lemma placed_result:
  assumes "placed H D temps vals" "inj_on H (D \<union> node_values n)" "n_result n \<noteq> 0 \<longrightarrow> n_result n \<notin> D"
  shows "placed H (D \<union> (if n_result n \<noteq> 0 then {n_result n} else {}))
    (if n_result n \<noteq> 0 then temps(unat (H (n_result n)) := x) else temps) (set_result n x vals)"
proof (cases "n_result n = 0")
  case False
  have "inj_on H (insert (n_result n) D)" by (rule inj_on_subset [OF assms(2)]) (use False in \<open>auto simp: node_values_def\<close>)
  then have "placed H (insert (n_result n) D) (temps(unat (H (n_result n)) := x)) (set_result n x vals)"
    by (rule placed_insert [OF assms(1)]) (use assms(3) False in \<open>auto simp: set_result_def\<close>)
  then show ?thesis using False by simp
qed (use assms(1) in \<open>simp add: set_result_def\<close>)

lemma node_run:
  assumes "node_code ns H N n out" "contract_ok n" "i_op (n_ir n) \<noteq> IR_LOAD_REG" "length (n_inputs n) = 3"
    and "placed H D temps vals" "set (node_inputs n) \<subseteq> D" "D \<subseteq> {..<N}" "inj_on H (D \<union> node_values n)"
    and "n_result n \<noteq> 0 \<longrightarrow> n_result n \<notin> D" "\<forall>v \<in> D. \<forall>c. constants ns v = Some c \<longrightarrow> vals v = c"
    and "run_node sem n vals g = (x, g', on)"
  shows "\<exists>temps'. exec_block sem out (temps, g) = ((temps', g'), on) \<and>
    placed H (D \<union> (if n_result n \<noteq> 0 then {n_result n} else {})) temps' (set_result n x vals)"
proof -
  have high: "\<forall>v \<in> node_values n. 33 \<le> H v" using assms(1) by (simp add: node_code_def)
  then have dest: "n_result n \<noteq> 0 \<longrightarrow> 33 \<le> H (n_result n)" by (simp add: node_values_def)
  have m: "n_mask n \<in> {0, 1, 3, 7}" using contract_mask [OF assms(2)] by blast
  have operand: "k < 3 \<Longrightarrow> bit (n_mask n) k \<Longrightarrow> n_inputs n ! k \<in> D \<and> 33 \<le> H (n_inputs n ! k)" for k
    using node_inputs_bits [of k n] assms(6) high by (auto simp: node_values_def)
  let ?src = "\<lambda>k old. if bit (n_mask n) k then H (n_inputs n ! k) else old"
  let ?d = "if n_result n \<noteq> 0 then H (n_result n) else i_dest (n_ir n)"
  show ?thesis
  proof (cases "rematerialize ns n")
    case None
    then have out: "out = [renamed_inst H n]" using assms(1) by (simp add: node_code_def)
    have "map (read_vreg temps g) (used (n_mask n) [?src 0 (i_src1 (n_ir n)), ?src 1 (i_src2 (n_ir n)), ?src 2 (i_aux (n_ir n))])
        = map vals (node_inputs n)"
      unfolding node_inputs_def
      by (rule used_map [OF m]) (use assms(4) operand read_home [OF assms(5)] in \<open>auto simp: less_Suc_eq numeral_3_eq_3 numeral_2_eq_2\<close>)
    note i = inst_run [where H = H, OF assms(2,3) refl dest this assms(11)]
    show ?thesis
      using i placed_result [OF assms(5,8,9)] by (auto simp: out renamed_inst_def)
  next
    case (Some c)
    then obtain h where h: "33 \<le> h" "\<forall>v < N. H v \<noteq> h"
      "out = [make_imm h c (i_arm_pc (n_ir n)), (renamed_inst H n)\<lparr>i_src2 := h\<rparr>]"
      using assms(1) by (auto simp: node_code_def)
    note rc = rematerialize_constant [OF Some]
    let ?temps = "temps(unat h := c)"
    have p: "placed H D ?temps vals"
      unfolding placed_def
    proof
      fix v assume v: "v \<in> D"
      then have "H v \<noteq> h" using h(2) assms(7) by auto
      then have "unat (H v) \<noteq> unat h" by (metis unsigned_word_eqI)
      then show "?temps (unat (H v)) = vals v" using assms(5) v by (simp add: placed_def)
    qed
    have "read_vreg ?temps g h = vals (n_inputs n ! 1)"
    proof -
      have "\<not> h < 32" "h \<noteq> 32" using h(1) by (auto simp: not_less intro: order_trans [of _ 33])
      moreover have "vals (n_inputs n ! 1) = c" using rc operand [of 1] assms(10) by simp
      ultimately show ?thesis by (simp add: read_vreg_def)
    qed
    then have "map (read_vreg ?temps g) (used (n_mask n) [?src 0 (i_src1 (n_ir n)), h, ?src 2 (i_aux (n_ir n))])
        = map vals (node_inputs n)"
      unfolding node_inputs_def
      by (intro used_map [OF m]) (use assms(4) operand read_home [OF p] in \<open>auto simp: less_Suc_eq numeral_3_eq_3 numeral_2_eq_2\<close>)
    note i = inst_run [where H = H, OF assms(2,3) refl dest this assms(11)]
    have "(renamed_inst H n)\<lparr>i_src2 := h\<rparr> = (n_ir n)\<lparr>i_dest := ?d, i_src1 := ?src 0 (i_src1 (n_ir n)), i_src2 := h,
        i_aux := ?src 2 (i_aux (n_ir n))\<rparr>"
      by (cases "n_ir n") (simp add: renamed_inst_def)
    then show ?thesis
      unfolding h(3) using i imm_run [OF h(1), of sem c "i_arm_pc (n_ir n)" temps g] placed_result [OF p assms(8,9), of x] by simp
  qed
qed

end
