(* ===== verification/SsaEquiv.thy ===== *)
theory SsaEquiv
  imports SsaLowerRun
begin

text \<open>
  The whole pass: building, optimizing and lowering a straight-line block gives a block with the same
  effect on the guest, which ends at the same place.
\<close>

section \<open>Slots and constants\<close>

lemma store_other_slot:
  assumes "SSA_GPR \<le> var" "slot_var (is_fp_store i) (i_dest i) \<noteq> var"
  shows "slot_value var (store_slot i x g) = slot_value var g"
  using assms by (auto simp: store_slot_def slot_value_def slot_var_def)

lemma node_keeps_slot:
  assumes "run_node sem n vals g = (x, g', on)" "SSA_GPR \<le> var" "\<not> input_used v var n"
  shows "slot_value var g' = slot_value var g"
proof (cases "i_op (n_ir n) = IR_STORE_REG")
  case True
  then have "slot_var (is_fp_store (n_ir n)) (i_dest (n_ir n)) \<noteq> var" using assms(3) by (simp add: input_used_def)
  then show ?thesis using assms(1,2) True store_other_slot by (auto simp: run_node_def run_op_def)
next
  case False
  then show ?thesis using run_op_slots assms(1) unfolding run_node_def by blast
qed

lemma constants_in: "constants ns v = Some c \<Longrightarrow> \<exists>k \<in> set ns. i_op (n_ir k) = IR_IMM \<and> n_result k = v \<and> v \<noteq> 0 \<and> i_imm (n_ir k) = c"
  by (induction ns) (auto split: if_splits)

lemma constant_node:
  assumes "distinct (results ns)" "n \<in> set ns" "n_result n \<noteq> 0" "constants ns (n_result n) = Some c"
    and "contract_ok n" "run_node sem n vals g = (x, g', on)"
  shows "x = c"
proof -
  obtain k where k: "k \<in> set ns" "i_op (n_ir k) = IR_IMM" "n_result k = n_result n" "i_imm (n_ir k) = c"
    using constants_in [OF assms(4)] by blast
  obtain p q p' q' where "ns = p @ n # q" "ns = p' @ k # q'" using split_list [OF assms(2)] split_list [OF k(1)] by blast
  then have "k = n" using result_position [OF assms(1)] k(3) assms(3) by metis
  then have imm: "i_op (n_ir n) = IR_IMM" "i_imm (n_ir n) = c" using k by simp_all
  then have "\<not> sh_effect (node_shape n)" using contract_shape [OF assms(5)] by (auto simp: shape_def split: if_splits dest: sym)
  then have "\<not> n_effect n" using contract_mask [OF assms(5)] by simp
  then show ?thesis using run_node_pure [OF assms(5), of sem vals g] assms(6) imm by (simp add: op_value_def)
qed

section \<open>The lowered nodes\<close>

lemma lower_nodes_lowered:
  assumes "lower_nodes all ns loads l = Some (l', out)" "wf_lower l" "\<forall>n \<in> set ns. \<forall>v \<in> node_values n. v < length (l_homes l)"
  shows "lowered l l'"
  using assms
proof (induction all ns loads l arbitrary: l' out rule: lower_nodes.induct)
  case (2 all n ns loads l)
  obtain k o1 o2 where k: "lower_node all n l = Some (k, o1)" "lower_nodes all ns (tl loads) k = Some (l', o2)"
    using "2.prems"(1) by (auto split: option.splits)
  have b: "\<forall>v \<in> node_values n. v < length (l_homes l)" using "2.prems"(3) by simp
  note o = lower_node_ok(1) [OF k(1) "2.prems"(2) b]
  have "lowered k l'" by (rule "2.IH" [OF k(1) refl k(2)]) (use lowered_wf [OF o] "2.prems"(3) in auto)
  then show ?case by (rule lowered_trans [OF o])
qed (simp add: lowered_refl)

text \<open>The values that are in their homes before the node at a position, and what holds there.\<close>

definition ready :: "SSAFunction \<Rightarrow> SSAInstruction list \<Rightarrow> nat set" where
  "ready f pre = fst ` {x \<in> set (f_inputs f). load_at (f_insts f) (fst x) (snd x) < length pre} \<union> set (results pre)"

definition pending :: "SSAFunction \<Rightarrow> SSAInstruction list \<Rightarrow> (nat \<Rightarrow> u64) \<Rightarrow> 'w guest \<Rightarrow> bool" where
  "pending f pre vals g \<longleftrightarrow>
     (\<forall>x \<in> set (f_inputs f). length pre \<le> load_at (f_insts f) (fst x) (snd x) \<longrightarrow> slot_value (snd x) g = vals (fst x)) \<and>
     (\<forall>v \<in> set (results pre). \<forall>c. constants (f_insts f) v = Some c \<longrightarrow> vals v = c)"

definition lowerable :: "SSAFunction \<Rightarrow> bool" where
  "lowerable f \<longleftrightarrow> valid_form f \<and> (\<forall>n \<in> set (f_insts f). length (n_inputs n) = 3 \<and> i_op (n_ir n) \<noteq> IR_LOAD_REG)"

lemma lowerable_node:
  assumes "lowerable f" "f_insts f = pre @ n # post"
  shows "contract_ok n" "length (n_inputs n) = 3" "i_op (n_ir n) \<noteq> IR_LOAD_REG"
    "set (node_inputs n) \<subseteq> fst ` set (f_inputs f) \<union> set (results pre)"
    "n_result n \<noteq> 0 \<longrightarrow> n_result n \<notin> fst ` set (f_inputs f) \<union> set (results pre)"
    "\<forall>v \<in> node_values n. v < length (f_variables f)"
proof -
  have v: "valid_form f" using assms(1) by (simp add: lowerable_def)
  show "contract_ok n" "length (n_inputs n) = 3" "i_op (n_ir n) \<noteq> IR_LOAD_REG"
    using v assms by (simp_all add: lowerable_def valid_form_def)
  show u: "set (node_inputs n) \<subseteq> fst ` set (f_inputs f) \<union> set (results pre)"
    using v assms(2) uses_defined_before [of "fst ` set (f_inputs f)" pre n post] by (simp add: valid_form_def)
  show "n_result n \<noteq> 0 \<longrightarrow> n_result n \<notin> fst ` set (f_inputs f) \<union> set (results pre)"
    using v assms(2) by (auto simp: valid_form_def)
  show "\<forall>v \<in> node_values n. v < length (f_variables f)"
  proof
    fix w assume w: "w \<in> node_values n"
    have "\<forall>v \<in> fst ` set (f_inputs f). v < length (f_variables f)" using v by (auto simp: valid_form_def)
    moreover have "\<forall>v \<in> set (results (f_insts f)). v < length (f_variables f)" using v by (simp add: valid_form_def)
    then have "\<forall>v \<in> set (results pre). v < length (f_variables f)" "n_result n \<noteq> 0 \<longrightarrow> n_result n < length (f_variables f)"
      using assms(2) by (simp_all split: if_splits)
    ultimately show "w < length (f_variables f)" using u w by (auto simp: node_values_def split: if_splits)
  qed
qed

lemma ready_step:
  "ready f (pre @ [n]) = ready f pre \<union> fst ` set (loads_for (f_insts f) (f_inputs f) (length pre)) \<union>
     (if n_result n \<noteq> 0 then {n_result n} else {})"
  by (auto simp: ready_def loads_for_def less_Suc_eq image_iff)

lemma operands_ready:
  assumes "lowerable f" "f_insts f = pre @ n # post"
  shows "set (node_inputs n) \<subseteq> ready f pre \<union> fst ` set (loads_for (f_insts f) (f_inputs f) (length pre))"
proof
  fix v assume v: "v \<in> set (node_inputs n)"
  then consider "v \<in> set (results pre)" | x where "x \<in> set (f_inputs f)" "v = fst x"
    using lowerable_node(4) [OF assms] by auto
  then show "v \<in> ready f pre \<union> fst ` set (loads_for (f_insts f) (f_inputs f) (length pre))"
  proof cases
    case (2 x)
    have "load_at (f_insts f) (fst x) (snd x) \<le> length pre"
      by (rule load_at_used) (use assms(2) v 2 in \<open>simp_all add: input_used_def\<close>)
    then show ?thesis using 2 by (auto simp: ready_def loads_for_def le_less)
  qed (simp add: ready_def)
qed

lemma pending_step:
  assumes "lowerable f" "f_insts f = pre @ n # post" "pending f pre vals g" "run_node sem n vals g = (x, g', on)"
  shows "pending f (pre @ [n]) (set_result n x vals) g'"
proof -
  note node = lowerable_node [OF assms(1,2)]
  have v: "valid_form f" using assms(1) by (simp add: lowerable_def)
  have old: "set_result n x vals v = vals v" if "v \<in> fst ` set (f_inputs f) \<union> set (results pre)" for v
    using node(5) that by (auto simp: set_result_def)
  have "slot_value (snd y) g' = set_result n x vals (fst y)"
    if y: "y \<in> set (f_inputs f)" "length (pre @ [n]) \<le> load_at (f_insts f) (fst y) (snd y)" for y
  proof -
    have "length pre < load_at (f_insts f) (fst y) (snd y)" using y(2) by simp
    then have "\<not> input_used (fst y) (snd y) n" using load_at_unused assms(2) by (metis nth_append_length)
    moreover have "SSA_GPR \<le> snd y" using v y(1) by (auto simp: valid_form_def)
    ultimately have "slot_value (snd y) g' = slot_value (snd y) g" by (intro node_keeps_slot [OF assms(4)])
    then show ?thesis using old [of "fst y"] assms(3) y by (simp add: pending_def)
  qed
  moreover have "set_result n x vals v = c"
    if c: "v \<in> set (results (pre @ [n]))" "constants (f_insts f) v = Some c" for v c
  proof (cases "v \<in> set (results pre)")
    case True
    then show ?thesis using old [of v] assms(3) c(2) by (simp add: pending_def)
  next
    case False
    then have r: "n_result n \<noteq> 0" "v = n_result n" using c(1) by (auto split: if_splits)
    have d: "distinct (results (f_insts f))" using v by (simp add: valid_form_def)
    have "x = c"
      by (rule constant_node [OF d _ r(1) _ node(1) assms(4)]) (use assms(2) c(2) r(2) in simp_all)
    then show ?thesis using r by (simp add: set_result_def)
  qed
  ultimately show ?thesis by (simp add: pending_def)
qed

lemma pending_loads:
  assumes "lowerable f" "pending f pre vals g" "\<forall>x \<in> set (f_inputs f). 33 \<le> H (fst x)"
  shows "\<forall>x \<in> set (loads_for (f_insts f) (f_inputs f) (length pre)).
    33 \<le> H (fst x) \<and> SSA_GPR \<le> snd x \<and> snd x < SSA_FP + 32 \<and> slot_value (snd x) g = vals (fst x)"
  using assms by (auto simp: pending_def loads_for_def lowerable_def valid_form_def)

lemma ready_bound:
  assumes "lowerable f" "f_insts f = pre @ post" "v \<in> ready f pre \<union> fst ` set (f_inputs f)"
  shows "v < length (f_variables f)"
  using assms by (auto simp: ready_def lowerable_def valid_form_def)

lemma constants_ready:
  assumes "lowerable f" "pending f pre vals g" "v \<in> ready f pre \<union> fst ` set (f_inputs f)" "constants (f_insts f) v = Some c"
  shows "vals v = c"
proof -
  obtain k where "k \<in> set (f_insts f)" "n_result k = v" "v \<noteq> 0" using constants_in [OF assms(4)] by blast
  then have "v \<in> set (results (f_insts f))" by (auto simp: in_results)
  then have "v \<notin> fst ` set (f_inputs f)" using assms(1) by (auto simp: lowerable_def valid_form_def)
  then have "v \<in> set (results pre)" using assms(3) by (auto simp: ready_def)
  then show ?thesis using assms(2,4) by (simp add: pending_def)
qed

lemma homes_inj: "wf_lower l \<Longrightarrow> inj_on ((!) (l_homes l)) {v. v < length (l_homes l) \<and> 33 \<le> l_homes l ! v}"
proof (rule inj_onI, elim CollectE conjE)
  fix v w assume l: "wf_lower l" "v < length (l_homes l)" "w < length (l_homes l)" "33 \<le> l_homes l ! v" "l_homes l ! v = l_homes l ! w"
  then have "l_homes l ! v \<noteq> 0" by auto
  then show "v = w" using l unfolding wf_lower_def by blast
qed

lemma lower_nodes_run:
  assumes "lowerable f" "f_insts f = pre @ ns" "lower_nodes (f_insts f) ns (drop (length pre) loads) l = Some (l', out)"
    and "wf_lower l" "length (l_homes l) = length (f_variables f)" "final l' lf" "length loads = length (f_insts f) + 1"
    and "\<forall>j < length loads. loads ! j = map (load_code (f_insts f) ((!) (l_homes lf))) (loads_for (f_insts f) (f_inputs f) j)"
    and "\<forall>x \<in> set (f_inputs f). 33 \<le> l_homes lf ! fst x" "\<forall>v \<in> ready f pre. 33 \<le> l_homes lf ! v"
    and "placed ((!) (l_homes lf)) (ready f pre) temps vals" "pending f pre vals g"
  shows "\<exists>temps'. exec_block sem out (temps, g) = (case exec_nodes sem ns vals g of (g', on) \<Rightarrow> ((temps', g'), on))"
  using assms(2-6,10-)
proof (induction ns arbitrary: pre l out temps vals g)
  case Nil
  let ?H = "(!) (l_homes lf)" and ?L = "loads_for (f_insts f) (f_inputs f) (length pre)"
  have "drop (length pre) loads \<noteq> []" using Nil.prems(1) assms(7) by simp
  then have out: "out = map (load_code (f_insts f) ?H) ?L"
    using Nil.prems(1,2) assms(7,8) by (simp add: hd_drop_conv_nth)
  have wf: "wf_lower lf" "length (l_homes lf) = length (f_variables f)"
    using lowered_wf [of l' lf] Nil.prems(2,4,5) by (simp_all add: final_def)
  have "inj_on ?H (ready f pre \<union> fst ` set ?L)"
  proof (rule inj_on_subset [OF homes_inj [OF wf(1)]])
    show "ready f pre \<union> fst ` set ?L \<subseteq> {v. v < length (l_homes lf) \<and> 33 \<le> l_homes lf ! v}"
      using ready_bound [OF assms(1) Nil.prems(1)] assms(9) Nil.prems(6) wf(2) by (auto simp: loads_for_def)
  qed
  then show ?case
    using loads_run [OF pending_loads [OF assms(1) Nil.prems(8) assms(9)] Nil.prems(7)] out by fastforce
next
  case (Cons n ns)
  let ?H = "(!) (l_homes lf)" and ?L = "loads_for (f_insts f) (f_inputs f) (length pre)"
  have lt: "length pre < length loads" using Cons.prems(1) assms(7) by simp
  obtain k o1 o2 where k: "lower_node (f_insts f) n l = Some (k, o1)"
    "lower_nodes (f_insts f) ns (drop (length (pre @ [n])) loads) k = Some (l', o2)" "out = hd (drop (length pre) loads) @ o1 @ o2"
    using Cons.prems(2) by (auto split: option.splits simp: drop_Suc tl_drop)
  have ld: "hd (drop (length pre) loads) = map (load_code (f_insts f) ?H) ?L"
    using lt assms(8) by (simp add: hd_drop_conv_nth)
  note node = lowerable_node [OF assms(1) Cons.prems(1)]
  have b: "\<forall>v \<in> node_values n. v < length (l_homes l)" using node(6) Cons.prems(4) by simp
  note low = lower_node_ok [OF k(1) Cons.prems(3) b]
  have wk: "wf_lower k" "length (l_homes k) = length (f_variables f)" using lowered_wf [OF low(1)] Cons.prems(4) by simp_all
  have "\<forall>m \<in> set ns. \<forall>v \<in> node_values m. v < length (l_homes k)"
  proof
    fix m assume "m \<in> set ns"
    then obtain p q where "ns = p @ m # q" by (meson split_list)
    then have "f_insts f = (pre @ n # p) @ m # q" using Cons.prems(1) by simp
    then show "\<forall>v \<in> node_values m. v < length (l_homes k)" using lowerable_node(6) [OF assms(1), of "pre @ n # p" m q] wk(2) by simp
  qed
  note kl = lower_nodes_lowered [OF k(2) wk(1) this]
  have code: "node_code (f_insts f) ?H (length (f_variables f)) n o1"
    using low(2) [OF final_before [OF kl Cons.prems(5)]] Cons.prems(4) by simp
  then have high: "\<forall>v \<in> node_values n. 33 \<le> ?H v" by (simp add: node_code_def)
  have wf: "wf_lower lf" "length (l_homes lf) = length (f_variables f)"
    using lowered_wf [of l' lf] lowered_wf [OF kl] Cons.prems(5) wk(2) by (simp_all add: final_def)
  let ?D = "ready f pre \<union> fst ` set ?L"
  have in_L: "fst ` set ?L \<subseteq> fst ` set (f_inputs f)" by (auto simp: loads_for_def)
  have bound: "?D \<subseteq> {..<length (f_variables f)}" using ready_bound [OF assms(1) Cons.prems(1)] in_L by blast
  have inj: "inj_on ?H (?D \<union> node_values n)"
  proof (rule inj_on_subset [OF homes_inj [OF wf(1)]])
    show "?D \<union> node_values n \<subseteq> {v. v < length (l_homes lf) \<and> 33 \<le> l_homes lf ! v}"
      using bound node(6) wf(2) high Cons.prems(6) assms(9) by (auto simp: loads_for_def)
  qed
  obtain temps1 where t1: "exec_block sem (map (load_code (f_insts f) ?H) ?L) (temps, g) = ((temps1, g), True)" "placed ?H ?D temps1 vals"
    using loads_run [OF pending_loads [OF assms(1) Cons.prems(8) assms(9)] Cons.prems(7) inj_on_subset [OF inj]] by blast
  obtain x g' on where run: "run_node sem n vals g = (x, g', on)" by (metis prod_cases3)
  have fresh: "n_result n \<noteq> 0 \<longrightarrow> n_result n \<notin> ?D" using node(5) in_L by (auto simp: ready_def)
  have const: "\<forall>v \<in> ?D. \<forall>c. constants (f_insts f) v = Some c \<longrightarrow> vals v = c"
    using constants_ready [OF assms(1) Cons.prems(8)] in_L by blast
  obtain temps2 where t2: "exec_block sem o1 (temps1, g) = ((temps2, g'), on)"
    "placed ?H (?D \<union> (if n_result n \<noteq> 0 then {n_result n} else {})) temps2 (set_result n x vals)"
    using node_run [OF code node(1,3,2) t1(2) operands_ready [OF assms(1) Cons.prems(1)] bound inj fresh const run] by blast
  have p2: "placed ?H (ready f (pre @ [n])) temps2 (set_result n x vals)" unfolding ready_step using t2(2) .
  have h2: "\<forall>v \<in> ready f (pre @ [n]). 33 \<le> l_homes lf ! v"
    unfolding ready_step using Cons.prems(6) assms(9) high by (auto simp: node_values_def loads_for_def)
  have s: "f_insts f = (pre @ [n]) @ ns" using Cons.prems(1) by simp
  obtain temps3 where "exec_block sem o2 (temps2, g') = (case exec_nodes sem ns (set_result n x vals) g' of (g', on) \<Rightarrow> ((temps3, g'), on))"
    using Cons.IH [OF s k(2) wk Cons.prems(5) h2 p2 pending_step [OF assms(1) Cons.prems(1,8) run]] by blast
  then show ?case using k(3) ld t1(1) t2(1) run by (auto simp: exec_block_append split: prod.splits)
qed

section \<open>Lowering\<close>

lemma lower_ssa_run:
  assumes "lowerable f" "lower_ssa f = Some out" "inputs_loaded (f_inputs f) vals g"
  shows "\<exists>temps'. exec_block sem out (temps, g) = (case exec_nodes sem (f_insts f) vals g of (g', on) \<Rightarrow> ((temps', g'), on))"
proof -
  let ?N = "length (f_variables f)" and ?ns = "f_insts f"
  let ?l0 = "\<lparr>l_homes = replicate ?N 0, l_next = 33\<rparr>"
  let ?loads0 = "replicate (length ?ns + 1) ([] :: IRInst list)"
  obtain l loads l' where e: "load_inputs ?ns (f_inputs f) ?l0 ?loads0 = (l, loads)"
    "lower_nodes ?ns ?ns loads l = Some (l', out)" "l_next l' < 4096"
    using assms(2) by (auto simp: lower_ssa_def split: if_splits prod.splits option.splits)
  have v: "valid_form f" using assms(1) by (simp add: lowerable_def)
  have wf0: "wf_lower ?l0" by (simp add: wf_lower_def)
  have in0: "\<forall>x \<in> set (f_inputs f). fst x < length (l_homes ?l0)" using v by (auto simp: valid_form_def)
  have "length ?loads0 = length ?ns + 1" by simp
  note li = load_inputs_ok [OF e(1) wf0 in0 this, of l']
  have wl: "wf_lower l" "length (l_homes l) = ?N" using lowered_wf [of ?l0 l] li by simp_all
  have "\<forall>n \<in> set ?ns. \<forall>v \<in> node_values n. v < length (l_homes l)"
  proof
    fix n assume "n \<in> set ?ns"
    then obtain p q where "?ns = p @ n # q" by (meson split_list)
    then show "\<forall>v \<in> node_values n. v < length (l_homes l)" using lowerable_node(6) [OF assms(1)] wl(2) by simp
  qed
  note low = lower_nodes_lowered [OF e(2) wl(1) this]
  have fin: "final l l'" "final l' l'" using low lowered_wf [OF low] lowered_refl [of l'] e(3) by (simp_all add: final_def)
  note li' = li [THEN conjunct2, THEN conjunct2, rule_format, OF fin(1)]
  have len: "length loads = length ?ns + 1" using li by simp
  have code: "\<forall>j < length loads. loads ! j = map (load_code ?ns ((!) (l_homes l'))) (loads_for ?ns (f_inputs f) j)"
    using li' len by (simp add: less_Suc_eq_0_disj del: replicate.simps)
  have high: "\<forall>x \<in> set (f_inputs f). 33 \<le> l_homes l' ! fst x" using li' by blast
  have r0: "ready f [] = {}" by (simp add: ready_def)
  have "pending f [] vals g" using assms(3) by (auto simp: pending_def inputs_loaded_def)
  then show ?thesis
    using lower_nodes_run [OF assms(1) _ _ wl fin(2) len code high, of "[]" ?ns out temps vals g sem] e(2)
    by (simp add: r0 placed_def)
qed

section \<open>The pass\<close>

lemma lower_ssa_valid: "lower_ssa f = Some out \<Longrightarrow> validate_ssa f"
  by (simp add: lower_ssa_def split: if_splits)

lemma optimize_ssa_lowerable:
  assumes "ssa_block f" "validate_ssa (optimize_ssa f)"
  shows "lowerable (optimize_ssa f)"
proof -
  obtain a live ns where p: "f_insts (optimize_ssa f) = filter (kept_node a live) ns"
    "list_all2 (resolved a) (f_insts f) ns"
    by (rule optimize_ssa_insts [OF assms(1)])
  have "length (n_inputs m) = 3 \<and> i_op (n_ir m) \<noteq> IR_LOAD_REG" if m: "m \<in> set ns" for m
  proof -
    obtain n where n: "n \<in> set (f_insts f)" "resolved a n m"
      using p(2) m by (metis in_set_conv_nth list_all2_conv_all_nth)
    then show ?thesis
      using assms(1) resolved_same [OF n(2)] by (simp add: ssa_block_def ordered_form_def resolved_def renamed_def)
  qed
  then show ?thesis using validate_ssa_form [OF assms(2)] p(1) by (simp add: lowerable_def)
qed

text \<open>Some valuation holds the initial values of the inputs.\<close>

lemma inputs_valuation:
  assumes "distinct (map fst xs)"
  shows "\<exists>vals. inputs_loaded xs vals g"
  using assms
proof (induction xs)
  case (Cons x xs)
  then obtain vals where "inputs_loaded xs vals g" by auto
  then have "inputs_loaded (x # xs) (vals(fst x := slot_value (snd x) g)) g"
    using Cons.prems by (force simp: inputs_loaded_def split: prod.splits)
  then show ?case by blast
qed (simp add: inputs_loaded_def)

lemma lowered_equivalent:
  assumes f: "build_ssa is = Some f" "lower_ssa (optimize_ssa f) = Some out"
  shows "guest_run sem out t g = guest_run sem is t' g"
proof -
  have blk: "ssa_block f" by (rule build_ssa_block [OF f(1)])
  have lw: "lowerable (optimize_ssa f)" by (rule optimize_ssa_lowerable [OF blk lower_ssa_valid [OF f(2)]])
  have "distinct (map fst (f_inputs f))" "distinct (map fst (f_inputs (optimize_ssa f)))"
    using blk lw by (simp_all add: ssa_block_def lowerable_def valid_form_def)
  then obtain vals vals' where vals: "inputs_loaded (f_inputs f) vals g" "inputs_loaded (f_inputs (optimize_ssa f)) vals' g"
    using inputs_valuation by blast
  obtain u where "exec_block sem out (t, g) = (case exec_nodes sem (f_insts (optimize_ssa f)) vals' g of (g', on) \<Rightarrow> ((u, g'), on))"
    using lower_ssa_run [OF lw f(2) vals(2)] by blast
  then show ?thesis
    by (simp add: guest_run_def optimize_ssa_exec [OF blk vals] build_ssa_run [OF f(1) vals(1), where temps = t'] split: prod.splits)
qed

end
