(* ===== verification/SsaValid.thy ===== *)
theory SsaValid
  imports SsaEquiv
begin

text \<open>
  Validation accepts exactly the graphs in the form it is meant to check, and the passes keep that form:
  the optimizer never hands the lowering a graph that it refuses.
\<close>

section \<open>Validation is complete\<close>

lemma define_inputs_complete:
  assumes "distinct (map fst xs)" "\<forall>(v, var) \<in> set xs. v \<noteq> 0 \<and> v < length defs \<and> defs ! v = None \<and> f_variables f ! v = var \<and>
    SSA_GPR \<le> var \<and> var < SSA_FP + 32"
  shows "\<exists>d. define_inputs f xs defs = Some d"
  using assms
proof (induction f xs defs rule: define_inputs.induct)
  case (2 f v var xs defs)
  have p: "define_value v 0 defs = Some (defs[v := Some 0])" using "2.prems"(2) by (simp add: define_value_def)
  have var: "\<not> (var < SSA_GPR \<or> var \<ge> SSA_FP + 32)" "f_variables f ! v = var" using "2.prems"(2) by auto
  have "\<exists>d. define_inputs f xs (defs[v := Some 0]) = Some d"
    by (rule "2.IH" [OF var(1) p]) (use var(2) "2.prems" in \<open>auto simp: nth_list_update image_iff split: prod.splits\<close>)
  then show ?case using p var by simp
qed simp

lemma define_results_complete:
  assumes "distinct (results ns)" "\<forall>n \<in> set ns. contract_ok n" "\<forall>v \<in> set (results ns). v < length defs \<and> defs ! v = None"
  shows "\<exists>d. define_results ns j defs = Some d"
  using assms
proof (induction ns j defs rule: define_results.induct)
  case (2 n ns j defs)
  show ?case
  proof (cases "n_result n = 0")
    case True
    then show ?thesis using 2 by simp
  next
    case False
    then have p: "define_value (n_result n) (j + 1) defs = Some (defs[n_result n := Some (j + 1)])"
      using "2.prems"(3) by (simp add: define_value_def)
    have "\<exists>d. define_results ns (j + 1) (defs[n_result n := Some (j + 1)]) = Some d"
      by (rule "2.IH"(1) [OF _ False p]) (use False "2.prems" in \<open>auto simp: nth_list_update\<close>)
    then show ?thesis using p False "2.prems"(2) by simp
  qed
qed simp

lemma uses_ok_complete:
  assumes "uses_defined D ns" "\<forall>v \<in> D. v \<noteq> 0 \<and> v < length d \<and> (\<exists>at \<le> j. d ! v = Some at)"
    and "\<forall>k < length ns. n_result (ns ! k) \<noteq> 0 \<longrightarrow> n_result (ns ! k) < length d \<and> d ! n_result (ns ! k) = Some (j + k + 1)"
  shows "uses_ok d ns j"
  using assms
proof (induction ns arbitrary: j D)
  case (Cons n ns)
  let ?D = "if n_result n \<noteq> 0 then insert (n_result n) D else D"
  have "list_all (use_ok d j) (node_inputs n)"
    unfolding list_all_iff
  proof
    fix v assume "v \<in> set (node_inputs n)"
    then have "v \<in> D" using Cons.prems(1) by auto
    then obtain at where "v \<noteq> 0" "v < length d" "d ! v = Some at" "at \<le> j" using Cons.prems(2) by blast
    then show "use_ok d j v" by (simp add: use_ok_def)
  qed
  moreover have "uses_ok d ns (j + 1)"
  proof (rule Cons.IH)
    show "uses_defined ?D ns" using Cons.prems(1) by simp
    have "\<exists>at \<le> j + 1. d ! v = Some at" if "\<exists>at \<le> j. d ! v = Some at" for v using that le_SucI by fastforce
    moreover have "n_result n \<noteq> 0 \<longrightarrow> n_result n < length d \<and> d ! n_result n = Some (j + 1)"
      using Cons.prems(3) [rule_format, of 0] by auto
    ultimately show "\<forall>v \<in> ?D. v \<noteq> 0 \<and> v < length d \<and> (\<exists>at \<le> j + 1. d ! v = Some at)"
      using Cons.prems(2) by auto
    show "\<forall>k < length ns. n_result (ns ! k) \<noteq> 0 \<longrightarrow> n_result (ns ! k) < length d \<and> d ! n_result (ns ! k) = Some (j + 1 + k + 1)"
      using Cons.prems(3) by fastforce
  qed
  ultimately show ?case by simp
qed simp

lemma valid_form_validates: "valid_form f \<Longrightarrow> validate_ssa f"
proof -
  assume v: "valid_form f"
  let ?N = "length (f_variables f)" and ?d0 = "replicate (length (f_variables f)) (None :: nat option)"
  have "\<forall>(v, var) \<in> set (f_inputs f). v \<noteq> 0 \<and> v < length ?d0 \<and> ?d0 ! v = None \<and> f_variables f ! v = var \<and>
      SSA_GPR \<le> var \<and> var < SSA_FP + 32" "distinct (map fst (f_inputs f))"
    using v by (auto simp: valid_form_def)
  then obtain d where d: "define_inputs f (f_inputs f) ?d0 = Some d" using define_inputs_complete by blast
  note I = define_inputsD [OF d]
  have dv: "length d = ?N" "v < ?N \<Longrightarrow> d ! v = (if v \<in> fst ` set (f_inputs f) then Some 0 else None)" for v using I by auto
  have new: "v \<notin> fst ` set (f_inputs f) \<and> v < ?N" if "v \<in> set (results (f_insts f))" for v
    using v that by (auto simp: valid_form_def)
  obtain d' where d': "define_results (f_insts f) 0 d = Some d'"
    using define_results_complete [of "f_insts f" d 0] v new dv by (auto simp: valid_form_def)
  note R = define_resultsD [OF d']
  have "uses_ok d' (f_insts f) 0"
  proof (rule uses_ok_complete)
    show "uses_defined (fst ` set (f_inputs f)) (f_insts f)" using v by (simp add: valid_form_def)
    show "\<forall>w \<in> fst ` set (f_inputs f). w \<noteq> 0 \<and> w < length d' \<and> (\<exists>at \<le> 0. d' ! w = Some at)"
    proof
      fix w assume w: "w \<in> fst ` set (f_inputs f)"
      then have lt: "w \<noteq> 0 \<and> w < ?N" using v by (auto simp: valid_form_def)
      moreover have "w \<notin> set (results (f_insts f))" using new w by blast
      ultimately show "w \<noteq> 0 \<and> w < length d' \<and> (\<exists>at \<le> 0. d' ! w = Some at)" using R dv w by simp
    qed
    show "\<forall>k < length (f_insts f). n_result (f_insts f ! k) \<noteq> 0 \<longrightarrow>
        n_result (f_insts f ! k) < length d' \<and> d' ! n_result (f_insts f ! k) = Some (0 + k + 1)"
    proof (intro allI impI)
      fix k assume k: "k < length (f_insts f)" "n_result (f_insts f ! k) \<noteq> 0"
      then have "n_result (f_insts f ! k) \<in> set (results (f_insts f))" by (auto simp: in_results)
      then show "n_result (f_insts f ! k) < length d' \<and> d' ! n_result (f_insts f ! k) = Some (0 + k + 1)"
        using R k new dv(1) by simp
    qed
  qed
  then show "validate_ssa f" using d d' by (simp add: validate_ssa_def)
qed

section \<open>The passes keep the form\<close>

lemma root_before:
  assumes "ssa_block f" "aliases_ok f a" "f_insts f = pre @ post" "v \<in> defined_before f pre"
  shows "root_of a v \<in> defined_before f pre"
  using assms(3,4)
proof (induction pre arbitrary: post v rule: rev_induct)
  case Nil
  have v: "valid_form f" using assms(1) by (simp add: ssa_block_def)
  have "v < length a" "v \<notin> set (results (f_insts f))"
    using v Nil(2) assms(2) by (auto simp: valid_form_def defined_before_def aliases_ok_def)
  then have "root_of a v = v" using assms(2) unfolding aliases_ok_def by blast
  then show ?case using Nil(2) by simp
next
  case (snoc n pre)
  have s: "f_insts f = pre @ n # post" using snoc.prems(1) by simp
  have more: "defined_before f pre \<subseteq> defined_before f (pre @ [n])" by (auto simp: defined_before_def)
  show ?case
  proof (cases "v \<in> defined_before f pre")
    case True
    then show ?thesis using snoc.IH [OF s True] more by blast
  next
    case False
    then have r: "v = n_result n" using snoc.prems(2) by (auto simp: defined_before_def split: if_splits)
    show ?thesis
    proof (cases "root_of a v = v")
      case True
      then show ?thesis using snoc.prems(2) by simp
    next
      case ne: False
      then obtain w where "w \<in> defined_before f pre" "root_of a v = root_of a w"
        using redirected_source(2) [OF assms(1,2) s] r by blast
      then show ?thesis using snoc.IH [OF s, of w] more by auto
    qed
  qed
qed

lemma kept_uses_defined:
  assumes "ssa_block f" "aliases_ok f a" "f_insts f = pre @ ns" "list_all2 (resolved a) ns ns'"
    and "\<forall>v < length (f_variables f). root a v = root_of a v" "live_closed a live ns'"
    and "\<forall>v \<in> defined_before f pre. live ! v \<and> root_of a v = v \<longrightarrow> v \<in> D"
  shows "uses_defined D (filter (kept_node a live) ns')"
  using assms(3,4,6-)
proof (induction ns arbitrary: pre ns' D)
  case (Cons n ns)
  obtain n' ms where ms: "ns' = n' # ms" "resolved a n n'" "list_all2 (resolved a) ns ms"
    using Cons.prems(2) by (auto simp: list_all2_Cons1)
  have s: "f_insts f = (pre @ [n]) @ ns" using Cons.prems(1) by simp
  note same = resolved_same [OF ms(2)]
  have n: "n \<in> set (f_insts f)" using s by simp
  have closed: "live_closed a live ms" using Cons.prems(3) ms(1) by (simp add: live_closed_def)
  have root: "n_result n \<noteq> 0 \<longrightarrow> root a (n_result n) = root_of a (n_result n)"
    using assms(5) ssa_block_node(3) [OF assms(1) n] by blast
  let ?D = "if n_result n' \<noteq> 0 then insert (n_result n') D else D"
  show ?case
  proof (cases "kept_node a live n'")
    case True
    have "set (node_inputs n') \<subseteq> D"
    proof
      fix w assume w: "w \<in> set (node_inputs n')"
      then obtain v where v: "v \<in> set (node_inputs n)" "w = root_of a v" using same by auto
      then have "w \<in> defined_before f pre"
        using root_before [OF assms(1,2) Cons.prems(1)] uses_before [OF assms(1) Cons.prems(1)] by blast
      moreover have "live ! w" using Cons.prems(3) True ms(1) w by (simp add: live_closed_def)
      ultimately show "w \<in> D" using Cons.prems(4) v(2) by simp
    qed
    moreover have "uses_defined ?D (filter (kept_node a live) ms)"
      by (rule Cons.IH [OF s ms(3) closed]) (use Cons.prems(4) same in \<open>auto simp: defined_before_def\<close>)
    ultimately show ?thesis using True ms(1) by simp
  next
    case False
    then have "n_result n \<noteq> 0 \<longrightarrow> root_of a (n_result n) = n_result n \<longrightarrow> \<not> live ! n_result n"
      using same root by (auto simp: kept_node_def)
    then have "uses_defined D (filter (kept_node a live) ms)"
      by (intro Cons.IH [OF s ms(3) closed]) (use Cons.prems(4) in \<open>auto simp: defined_before_def split: if_splits\<close>)
    then show ?thesis using False ms(1) by simp
  qed
qed simp

lemma contract_same:
  "n_ir m = n_ir n \<Longrightarrow> n_result m = n_result n \<Longrightarrow> n_mask m = n_mask n \<Longrightarrow> n_effect m = n_effect n \<Longrightarrow> contract_ok m = contract_ok n"
  by (auto simp: contract_ok_def split: option.splits)

lemma results_filter: "distinct (results ns) \<Longrightarrow> distinct (results (filter P ns)) \<and> set (results (filter P ns)) \<subseteq> set (results ns)"
  by (induction ns) auto

lemma resolved_results: "list_all2 (resolved a) ns ns' \<Longrightarrow> results ns' = results ns"
  by (induction rule: list_all2_induct) (auto dest: resolved_same)

lemma optimize_ssa_valid:
  assumes "ssa_block f"
  shows "valid_form (optimize_ssa f)"
proof -
  obtain a live ns where p: "f_insts (optimize_ssa f) = filter (kept_node a live) ns" "aliases_ok f a"
    "f_inputs (optimize_ssa f) = filter (\<lambda>x. live ! fst x) (f_inputs f)"
    "list_all2 (resolved a) (f_insts f) ns" "live_closed a live ns" "f_variables (optimize_ssa f) = f_variables f"
    by (rule optimize_ssa_insts [OF assms])
  have v: "valid_form f" using assms by (simp add: ssa_block_def)
  have len: "length a = length (f_variables f)" "downward a" using p(2) by (simp_all add: aliases_ok_def)
  have roots: "\<forall>v < length (f_variables f). root a v = root_of a v" using root_root_of [OF len(2)] len(1) by simp
  note res = resolved_results [OF p(4)]
  have "distinct (results ns)" using v res by (simp add: valid_form_def)
  note keep = results_filter [OF this, of "kept_node a live"]
  have "uses_defined (fst ` set (f_inputs (optimize_ssa f))) (f_insts (optimize_ssa f))"
    unfolding p(1)
    by (rule kept_uses_defined [OF assms p(2) _ p(4) roots p(5), of "[]"]) (auto simp: p(3) defined_before_def image_iff)
  moreover have "\<forall>m \<in> set (f_insts (optimize_ssa f)). contract_ok m"
  proof
    fix m assume "m \<in> set (f_insts (optimize_ssa f))"
    then obtain n where "n \<in> set (f_insts f)" "resolved a n m"
      using p(1,4) by (metis filter_is_subset in_set_conv_nth list_all2_conv_all_nth subsetD)
    then show "contract_ok m" using v contract_same [of m n] resolved_same [of a n m] by (simp add: valid_form_def)
  qed
  moreover have "distinct (map fst (f_inputs (optimize_ssa f)) @ results (f_insts (optimize_ssa f)))"
  proof -
    have "distinct (map fst (filter (\<lambda>x. live ! fst x) (f_inputs f)))" using v by (simp add: valid_form_def distinct_map_filter)
    moreover have "set (results (filter (kept_node a live) ns)) \<inter> fst ` set (filter (\<lambda>x. live ! fst x) (f_inputs f)) = {}"
      using keep res v by (auto simp: valid_form_def)
    ultimately show ?thesis using keep p(1,3) by auto
  qed
  moreover have "\<forall>w \<in> set (results (f_insts (optimize_ssa f))). w < length (f_variables f)"
    using keep res v p(1) by (auto simp: valid_form_def)
  ultimately show ?thesis using v p(3,6) by (auto simp: valid_form_def)
qed

section \<open>Properties\<close>

text \<open>
  C3. A block that \<open>optimize_ir_ssa\<close> rewrites does to the guest what the block did, whatever the
  operations mean, each as a function of its inputs and of the opcode and parameters its instruction
  carries (\<open>ir_meaning\<close>, which knows nothing of the key of value numbering): the same registers,
  vector registers and memory, and it is left at the same place, from any contents of the temporaries.
\<close>

theorem optimize_ir_ssa_equivalent:
  assumes "optimize_ir_ssa is = Some out"
  shows "guest_run sem out t g = guest_run sem is t' g"
proof -
  obtain f where f: "build_ssa is = Some f" "lower_ssa (optimize_ssa f) = Some out"
    using assms by (auto simp: optimize_ir_ssa_def split: if_splits option.splits)
  show ?thesis by (rule lowered_equivalent [OF f])
qed

text \<open>A block with a copy and a repeated addition.\<close>

definition example_block :: "IRInst list" where
  "example_block =
     [make_load_reg 40 5 False 0, ir_make (Scalar IR_ADD) 41 40 40 0 0, ir_make (Scalar IR_ADD) 42 40 40 0 4,
      ir_make IR_STORE_REG 2 41 0 0 4, ir_make IR_STORE_REG 3 42 0 0 8]"

definition example_ssa :: "SSAFunction" where
  "example_ssa = \<lparr>f_insts =
     [\<lparr>n_ir = ir_make IR_MOV 40 0 0 0 0, n_result = 2, n_inputs = [1, 0, 0], n_mask = 1, n_effect = False\<rparr>,
      \<lparr>n_ir = ir_make (Scalar IR_ADD) 41 40 40 0 0, n_result = 3, n_inputs = [2, 2, 0], n_mask = 3, n_effect = False\<rparr>,
      \<lparr>n_ir = ir_make (Scalar IR_ADD) 42 40 40 0 4, n_result = 4, n_inputs = [2, 2, 0], n_mask = 3, n_effect = False\<rparr>,
      \<lparr>n_ir = ir_make IR_STORE_REG 2 41 0 0 4, n_result = 0, n_inputs = [3, 0, 0], n_mask = 1, n_effect = True\<rparr>,
      \<lparr>n_ir = ir_make IR_STORE_REG 3 42 0 0 8, n_result = 0, n_inputs = [4, 0, 0], n_mask = 1, n_effect = True\<rparr>],
    f_inputs = [(1, 0x10005)], f_variables = [0, 0x10005, 40, 41, 42]\<rparr>"

definition example_optimized :: "SSAFunction" where
  "example_optimized = \<lparr>f_insts =
     [\<lparr>n_ir = ir_make (Scalar IR_ADD) 41 40 40 0 0, n_result = 3, n_inputs = [1, 1, 0], n_mask = 3, n_effect = False\<rparr>,
      \<lparr>n_ir = ir_make IR_STORE_REG 2 41 0 0 4, n_result = 0, n_inputs = [3, 0, 0], n_mask = 1, n_effect = True\<rparr>,
      \<lparr>n_ir = ir_make IR_STORE_REG 3 42 0 0 8, n_result = 0, n_inputs = [3, 0, 0], n_mask = 1, n_effect = True\<rparr>],
    f_inputs = [(1, 0x10005)], f_variables = [0, 0x10005, 40, 41, 42]\<rparr>"

definition example_lowered :: "IRInst list" where
  "example_lowered =
     [make_load_reg 33 5 False 0, ir_make (Scalar IR_ADD) 34 33 33 0 0, ir_make IR_STORE_REG 2 34 0 0 4,
      ir_make IR_STORE_REG 3 34 0 0 8]"

lemmas example_simps = shape_def make_load_reg_def ir_make_def slot_var_def is_fp_load_def is_fp_store_def Let_def
  validate_ssa_def define_value_def contract_ok_def node_inputs_def use_ok_def

lemma example_built: "build_ssa example_block = Some example_ssa"
  by (simp add: example_simps example_block_def example_ssa_def build_ssa_def Builder_init_def append_inst_def
      sources_def read_slot_def source_var_def read_var_def new_value_def upd_f_def define_result_def define_slot_def)

lemma example_passes: "optimize_ssa example_ssa = example_optimized"
  by (simp add: example_ssa_def example_optimized_def optimize_ssa_def Let_def resolve_def number_node_def ir_make_def
      cse_parameter_def root_def rename_inputs_def first_work_def dependencies_def kept_node_def node_inputs_def upt_rec)

lemma example_lowers: "lower_ssa example_optimized = Some example_lowered"
  by (simp add: example_simps example_lowered_def example_optimized_def lower_ssa_def load_input_def input_used_def home_def
      lower_node_def lower_result_def lower_src1_def lower_src2_def lower_aux_def lower_constant_def rematerialize_def)

lemma example_rewritten: "optimize_ir_ssa example_block = Some example_lowered"
  by (simp add: optimize_ir_ssa_def example_built example_passes example_lowers)
    (simp add: example_block_def example_simps)

theorem optimize_ir_ssa_equivalent_witness:
  "optimize_ir_ssa example_block = Some example_lowered \<and> length example_lowered < length example_block \<and>
   (\<forall>sem t t' (g :: unit guest). guest_run sem example_lowered t g = guest_run sem example_block t' g)"
proof (intro conjI allI)
  show "optimize_ir_ssa example_block = Some example_lowered" by (rule example_rewritten)
  show "length example_lowered < length example_block" by (simp add: example_lowered_def example_block_def)
  fix sem t t' and g :: "unit guest"
  show "guest_run sem example_lowered t g = guest_run sem example_block t' g"
    by (rule optimize_ir_ssa_equivalent [OF example_rewritten])
qed

text \<open>
  C27. \<open>validate_ssa\<close> accepts exactly the graphs in which every value has one definition that stands
  before all of its uses, and every node keeps the operand contract of its opcode.
\<close>

theorem validate_ssa_exact: "validate_ssa f \<longleftrightarrow> valid_form f"
  using validate_ssa_form valid_form_validates by blast

text \<open>
  C26. Optimizing a graph that the builder made keeps it valid, so the lowering gives up only when it
  runs out of registers.
\<close>

theorem optimize_ssa_keeps_valid:
  assumes "build_ssa is = Some f"
  shows "valid_form (optimize_ssa f)"
  by (rule optimize_ssa_valid [OF build_ssa_block [OF assms]])

theorem optimize_ssa_keeps_valid_witness:
  "build_ssa example_block = Some example_ssa \<and> valid_form (optimize_ssa example_ssa) \<and> optimize_ssa example_ssa \<noteq> example_ssa"
  using optimize_ssa_keeps_valid [OF example_built] example_built
  by (simp add: example_passes) (simp add: example_optimized_def example_ssa_def)

end
