(* ===== verification/Spec2Isabelle.thy ===== *)
theory Spec2Isabelle
  imports DecodeCache PendingQueue AluProps BitmaskImm MemAccess PendingProps ExclProtocol LseAtomic Isolation PlacementSpec GenerationsSpec SsaValid
begin

text \<open>
  A verification development for bifrost-emu, a user-mode emulator that runs AArch64 Linux programs
  on x86-64. Source paths below are relative to \<open>src/Source\<close>.

  \<^bold>\<open>The program.\<close> A guest thread is a \<open>CPU\<close> (\<open>System/Core/CPU.hpp\<close>). \<open>Emulator::step\<close>
  (\<open>System/Core/Emulator/Lifecycle.cpp\<close>) fetches a word from guest memory and hands it to
  \<open>Emulator::execute\<close> (\<open>Interpreter/Core/Interpreter.cpp\<close>), which looks the word up in the CPU's
  decode cache, decodes it on a miss (\<open>Interpreter/Decoder/Decoder.cpp\<close>) and dispatches on the class.
  Handlers change the CPU, guest memory (\<open>System/Memory\<close>) and the process-wide exclusive monitor
  (\<open>System/Core/ExclusiveMonitor.hpp\<close>). System calls call the placement of the address space
  (\<open>System/Memory/Allocation.cpp\<close>) and give up or fill page contents (\<open>System/Memory/Discard.cpp\<close>);
  signals wait in the ring of the CPU. The translator \<open>FrostJIT\<close> shares the decoder and the memory
  checks; of it the replacement of a full code cache (\<open>FrostJIT/Runtime/Generations.cpp\<close>) and the SSA
  pass over its intermediate representation (\<open>FrostJIT/IR/SSA/SSA.cpp\<close>) are modelled.

  \<^bold>\<open>Theories and code.\<close>
  \<^item> \<open>Prelude\<close>, \<open>Bits\<close>: widths, bit fields and \<open>sign_extend\<close>, \<open>ror\<close>, \<open>cond_true\<close>, \<open>extend_reg\<close>.
  \<^item> \<open>DecodedInst\<close>, \<open>FpDecode\<close>, \<open>Decoder\<close>: \<open>DecodedInst\<close> field by field, the classes, and \<open>decode\<close> with
    one definition per case of its outer switch. A decode fills a slot in place, so the old slot is an argument.
  \<^item> \<open>Cpu\<close>, \<open>PendingQueue\<close>: the registers, flags, exclusive tag, cache slots and signal ring of a CPU.
  \<^item> \<open>Alu\<close>, \<open>InterpInt\<close>, \<open>InterpMem\<close>, \<open>InterpSimd\<close>, \<open>InterpSys\<close>, \<open>Interp\<close>: one definition per handler of
    \<open>Emulator::execute\<close>, \<open>execute_branch\<close> and the structure accesses of \<open>execute_fp\<close>; then the cache,
    the dispatch and the step. \<open>Machine\<close> is the state they act on and \<open>outcome\<close> how they end: \<open>Done\<close>,
    \<open>Throw\<close> (a \<open>MemoryFault\<close>), or \<open>Spin\<close> (waiting for a bucket another CPU holds).
  \<^item> \<open>Vma\<close>, \<open>Mem\<close>: the mapping index \<open>vmas_\<close>, the flag byte of each page, the bytes, and the operations
    of \<open>Memory.cpp\<close> over them, with the host's discard of pages (anonymous pages read zero, private file
    pages what the file holds). \<open>Alloc\<close>: \<open>Allocation.cpp\<close> with its cursors, free ranges and tracked allocations.
    \<open>Discard\<close>: \<open>Discard.cpp\<close>; \<open>Userfault\<close>: the descriptor of \<open>System/VFS/Nodes/UserfaultNode.cpp\<close>.
  \<^item> \<open>ExclMonitor\<close>, \<open>ExclProtocol\<close>: the bucket words, and several CPUs on one bucket as a step relation.
  \<^item> \<open>LseAtomic\<close>: the reads and compare-and-exchanges of LSE atomics of several CPUs as a step relation.
  \<^item> \<open>Generations\<close>: guest threads, renewal and the reaper as a step relation.
  \<^item> \<open>IR\<close>: the opcodes and instructions of \<open>FrostJIT/IR/IR.hpp\<close>, the operand contracts and what a block
    computes. \<open>Ssa\<close>, \<open>SsaPasses\<close>: construction, validation, the passes and the lowering of one
    straight-line block, as \<open>optimize_ir_ssa\<close> uses them.

  \<^bold>\<open>What the lemmas show.\<close>
  \<^item> Decoding: the result says whether a class was found, keeps the word and bounds every index
    (\<open>DecoderWf\<close>); what a handler reads does not depend on the old slot (\<open>DecoderProps\<close>), so the cache
    is transparent (\<open>DecodeCache\<close>); logical immediates (\<open>BitmaskImm\<close>).
  \<^item> Arithmetic: both flag helpers are \<open>AddWithCarry\<close>, and the conditions after a comparison are the
    integer comparisons (\<open>AluProps\<close>); what an LSE atomic stores (\<open>LseProps\<close>).
  \<^item> Memory: the index refines a partial function from addresses to permissions (\<open>VmaProps\<close>, an
    instance of the locale \<open>address_map\<close>); the page flags mirror it (\<open>MemProps\<close>); the access check
    decides exactly what the index says, and a read sees the last write (\<open>MemAccess\<close>).
  \<^item> Placement: free ranges as sets (\<open>RangeProps\<close>, the locale \<open>range_map\<close>); a new mapping never lands on
    a live one, each operation changes exactly its range, and every run of the requests of
    \<open>place_step\<close> keeps the bookkeeping (\<open>AllocProps\<close>, \<open>AllocSafety\<close>, \<open>Remap\<close>, \<open>RemapSafety\<close>, \<open>PlacementSpec\<close>).
  \<^item> Page contents: of the page flags, discards and userfaultfd requests change userfaultfd bits only; a
    discard makes its pages read what a refault brings, and a fill writes exactly the missing pages
    (\<open>DiscardProps\<close>, \<open>UserfaultProps\<close>); a move carries permissions and bytes and leaves the old range
    reading zero (\<open>MoveProps\<close>).
  \<^item> Handlers: one rule per call, for each way of ending (\<open>Outcomes\<close>); faults are precise; runs keep
    register 31 zero (\<open>RunProps\<close>) and write only where the index allows (\<open>Isolation\<close>).
  \<^item> Translation: a rewritten block does what the block did. The graph runs as the block does
    (\<open>SsaBuild\<close>); aliases stand for equal values (\<open>SsaAlias\<close>, \<open>SsaOptProps\<close>) and dead nodes have no effect
    (\<open>SsaOptSem\<close>); the lowered block runs as the graph does (\<open>SsaLower\<close>, \<open>SsaLowerRun\<close>, \<open>SsaEquiv\<close>);
    validation is exact and the passes keep what it checks (\<open>SsaExec\<close>, \<open>SsaValid\<close>).
  \<^item> Concurrency: mutual exclusion on a bucket, no missed write, and the release of the bucket within
    three steps of its holder (\<open>ExclProtocol\<close>); LSE atomics take effect one after the other, and a
    retry means that another one completed (\<open>LseAtomic\<close>); the signal ring
    refines a bounded list (\<open>PendingProps\<close>, the locale \<open>selective_queue\<close>); code on a thread's stack is
    never released, and quiet threads let it be released (\<open>GenerationsProps\<close>, \<open>GenerationsSpec\<close>).

  \<^bold>\<open>Parameters.\<close> The record \<open>env\<close> of \<open>InterpSys\<close> stands for what a handler calls outside of the modelled
  code: system calls, signal delivery, the debugger, scalar and vector arithmetic. What a
  run needs of it is the named hypothesis \<open>env_keeps\<close> (a system call or signal leaves register 31 and the
  decode cache as the code outside of the model does); \<open>idle_env\<close>, which does nothing, satisfies it and
  the witnesses use it. The record \<open>ir_sem\<close> of \<open>IR\<close> gives the operations of the intermediate
  representation their meaning, which is that of the emitted x86 code; nothing is assumed of it, but an
  operation without effects sees its inputs, its opcode and the fields its reader in \<open>Factories.hpp\<close>
  takes (\<open>ir_meaning\<close>), whatever the value-numbering key of the pass holds; one with effects sees all
  but the names. \<open>pagemap\<close> stands for reads of \<open>/proc/self/pagemap\<close>, of which nothing is assumed.

  \<^bold>\<open>Bounds and fuel.\<close> Every integer has the width it has in the code and wraps there; lists and
  tables are indexed by \<open>nat\<close>. The only fuel is \<open>lse_fuel = 2\<close> of the retry loop of LSE atomics: a handler of \<open>Interp\<close> runs with no
  other CPU at work, so the first compare-and-exchange meets the value it read, and any fuel above
  zero gives the same result (\<open>exec_lse_once\<close>). \<open>LseAtomic\<close> has the loop with other CPUs at work, one
  access a step, with no bound on the retries; \<open>exec_lse_steps\<close> says the handler is such a run.
  Copy propagation repeats its pass at most once per instruction and once more, since each pass that
  changes something aliases another copy; a path of aliases is shorter than their vector. Placement properties assume that no guard pages are
  placed (\<open>BIFROST_GUARD_ALLOCS\<close>) and that an allocation without an address finds room behind the cursors
  (\<open>roomy\<close>); two runs of \<open>PlacementSpec\<close> show that without \<open>roomy\<close>, or after the cursor reset of execve,
  a live mapping is handed out again. Generation properties assume that
  fewer than \<open>2 ^ 64\<close> instances were made.

  \<^bold>\<open>Not modelled.\<close> Scalar and vector floating-point arithmetic and cryptography (host arithmetic per
  opcode); the translation from guest instructions, the peephole passes of
  \<open>FrostJIT/IR/Passes\<close>, SSA graphs of several blocks, register allocation and x86 emission (they need an
  x86 semantics); file mappings and hole punching (host kernel state); the syscall layer, loader,
  VFS, graphics, audio and Android layers, configuration and diagnostics (host calls and glue).
  Memory orders weaker than sequential consistency are not modelled; the steps of \<open>ExclProtocol\<close>, \<open>LseAtomic\<close>
  and \<open>Generations\<close> are the accesses the code orders.
\<close>

section \<open>Decoding is well typed\<close>

text \<open>
  C30. Whatever word is decoded into a slot whose fields are in range, as those of a zeroed or a
  decoded slot are, the result tells whether a class was found, the word is
  kept, every field that indexes a register file, a table or a shift is in the range of its use, CASP
  gets even register pairs only and TBZ and TBNZ a bit number of a 64-bit register.
\<close>

theorem decode_well_typed:
  assumes "fields_ok old"
  shows "case decode old inst of (d, found) \<Rightarrow>
    fields_ok d \<and> class_ok d \<and> d_raw d = inst \<and> (found \<longleftrightarrow> d_cls d \<noteq> IC_UNKNOWN)"
  using decode_fields_ok [OF assms, of inst] decode_class_ok [of old inst] decode_agrees [of inst old]
  by (simp add: dec_agrees_def case_prod_beta)

theorem decode_well_typed_witness:
  "case decode DecodedInst_zero 0x48207C82 of (d, found) \<Rightarrow>
    fields_ok d \<and> class_ok d \<and> d_raw d = 0x48207C82 \<and> (found \<longleftrightarrow> d_cls d \<noteq> IC_UNKNOWN)"
  by (rule decode_well_typed) (simp add: fields_ok_def DecodedInst_zero_def)

end
